(* ===== verification/Pf_Prelude.thy ===== *)
theory Pf_Prelude
  imports Main "HOL-Library.AList"
begin

text \<open>
  What every component of the model shares. Numbers: a JavaScript timestamp or
  duration is an \<open>int\<close> number of milliseconds, and \<open>-Infinity\<close> is \<open>None\<close> of an
  \<open>int option\<close>. A \<open>Map\<close> is an association list in insertion order, which is the
  order its iterators use: \<open>set\<close> overwrites in place or appends, \<open>delete\<close> removes.
  \<open>Date.now\<close> is a clock that gives the value of each successive reading.
\<close>

named_theorems pf_defs
  \<open>unfolding rules of the small definitions of the model\<close>

type_synonym time = int

type_synonym clock = "nat \<Rightarrow> time"

text \<open>A clock never runs backwards: later readings are not smaller.\<close>

definition steady :: "clock \<Rightarrow> bool" where
  "steady clk \<longleftrightarrow> (\<forall>i. clk i \<le> clk (Suc i))"

lemma steady_mono: "steady clk \<Longrightarrow> i \<le> j \<Longrightarrow> clk i \<le> clk j"
  unfolding steady_def by (rule lift_Suc_mono_le) auto

subsection \<open>Optional values\<close>

text \<open>The operator \<open>a ?? b\<close> on a value that may be null or undefined.\<close>

definition orelse :: "'a option \<Rightarrow> 'a \<Rightarrow> 'a" where
  "orelse x d = (case x of None \<Rightarrow> d | Some v \<Rightarrow> v)"

lemma orelse_simps [simp]:
  "orelse None d = d"
  "orelse (Some v) d = v"
  by (simp_all add: orelse_def)

text \<open>The operator \<open>a ?? b\<close> where the default may itself be absent.\<close>

definition orelse_opt :: "'a option \<Rightarrow> 'a option \<Rightarrow> 'a option" where
  "orelse_opt x d = (case x of None \<Rightarrow> d | Some v \<Rightarrow> Some v)"

lemma orelse_opt_simps [simp]:
  "orelse_opt None d = d"
  "orelse_opt (Some v) d = Some v"
  by (simp_all add: orelse_opt_def)

lemma orelse_opt_None_right [simp]: "orelse_opt x None = x"
  by (cases x) simp_all

lemma orelse_opt_eq_None [simp]: "orelse_opt x d = None \<longleftrightarrow> x = None \<and> d = None"
  by (cases x) simp_all

subsection \<open>Lists\<close>

lemma length_filter_mono:
  "(\<And>x. x \<in> set xs \<Longrightarrow> P x \<Longrightarrow> Q x) \<Longrightarrow> length (filter P xs) \<le> length (filter Q xs)"
  by (induction xs) (auto simp: le_SucI)

lemma last_dropWhile: "dropWhile P xs \<noteq> [] \<Longrightarrow> last (dropWhile P xs) = last xs"
  by (induction xs) (auto split: if_splits)

lemma dropWhile_spaces_end: "\<forall>x \<in> set ws. P x \<Longrightarrow> dropWhile P (rev (xs @ ws)) = dropWhile P (rev xs)"
  by (simp add: dropWhile_append)

lemma set_update_subset: "set (AList.update i v xs) \<subseteq> insert (i, v) (set xs)"
  by (induction xs) auto

lemma filter_update_count:
  "distinct (map fst xs) \<Longrightarrow> map_of xs i = Some v \<Longrightarrow>
     length (filter (\<lambda>p. P (snd p)) (AList.update i v' xs)) + (if P v then 1 else 0) =
     length (filter (\<lambda>p. P (snd p)) xs) + (if P v' then 1 else 0)"
  by (induction xs) (auto split: if_splits dest: map_of_SomeD)

lemma filter_delete_count:
  "distinct (map fst xs) \<Longrightarrow> map_of xs i = Some v \<Longrightarrow>
     length (filter (\<lambda>p. P (snd p)) (AList.delete i xs)) + (if P v then 1 else 0) =
     length (filter (\<lambda>p. P (snd p)) xs)"
proof (induction xs)
  case (Cons x xs)
  have "i \<notin> fst ` set xs \<Longrightarrow> AList.delete i xs = xs" by simp
  with Cons show ?case by (auto split: if_splits)
qed simp

lemma set_delete_subset: "set (AList.delete i xs) \<subseteq> set xs"
  by (auto simp: AList.delete_eq)

subsection \<open>Objects as machines\<close>

text \<open>
  The contract every stateful object of the model shares: an invariant that each method
  call keeps. The client's view of it is proved once: a run of calls keeps the invariant
  from start to end and at every point in between.
\<close>

definition run_calls :: "('e \<Rightarrow> 's \<Rightarrow> 's) \<Rightarrow> 's \<Rightarrow> 'e list \<Rightarrow> 's" where
  "run_calls call s es = foldl (\<lambda>s e. call e s) s es"

lemma run_calls_simps [simp]:
  "run_calls call s [] = s"
  "run_calls call s (e # es) = run_calls call (call e s) es"
  by (simp_all add: run_calls_def)

lemma run_calls_append: "run_calls call s (es @ es') = run_calls call (run_calls call s es) es'"
  by (simp add: run_calls_def)

lemma run_calls_replicate_Suc:
  "run_calls call s (replicate (Suc m) e) = call e (run_calls call s (replicate m e))"
  by (simp add: run_calls_append del: run_calls_simps(2) flip: replicate_append_same)
    (simp add: run_calls_def)

locale guarded_machine =
  fixes call :: "'e \<Rightarrow> 's \<Rightarrow> 's"
    and inv :: "'s \<Rightarrow> bool"
    and ok :: "'e \<Rightarrow> bool"
  assumes inv_ok_call: "ok e \<Longrightarrow> inv s \<Longrightarrow> inv (call e s)"
begin

lemma inv_ok_run: "inv s \<Longrightarrow> list_all ok es \<Longrightarrow> inv (run_calls call s es)"
  by (induction es arbitrary: s) (simp_all add: inv_ok_call)

end

text \<open>An object whose every call keeps the invariant, whatever its arguments.\<close>

locale machine =
  fixes call :: "'e \<Rightarrow> 's \<Rightarrow> 's"
    and inv :: "'s \<Rightarrow> bool"
  assumes inv_call: "inv s \<Longrightarrow> inv (call e s)"

sublocale machine \<subseteq> guarded: guarded_machine call inv "\<lambda>_. True"
  by unfold_locales (rule inv_call)

context machine
begin

lemma inv_run: "inv s \<Longrightarrow> inv (run_calls call s es)"
  by (rule guarded.inv_ok_run) (simp_all add: list_all_iff)

lemma inv_throughout: "inv s \<Longrightarrow> es = as @ bs \<Longrightarrow> inv (run_calls call s as)"
  by (simp add: inv_run)

end

subsection \<open>Events that keep their distance\<close>

text \<open>Consecutive times at least \<open>d\<close> apart.\<close>

fun spaced :: "int \<Rightarrow> time list \<Rightarrow> bool" where
  "spaced d [] = True"
| "spaced d [t] = True"
| "spaced d (t # u # ts) = (t + d \<le> u \<and> spaced d (u # ts))"

lemma spaced_tl: "spaced d (t # ts) \<Longrightarrow> spaced d ts"
  by (cases ts) auto

lemma spaced_snoc: "spaced d (ts @ [t]) \<longleftrightarrow> spaced d ts \<and> (ts = [] \<or> last ts + d \<le> t)"
  by (induction d ts rule: spaced.induct) auto

lemma spaced_appendD: "spaced d (ts @ us) \<Longrightarrow> spaced d ts"
proof (induction d ts rule: spaced.induct)
  case (2 d t)
  then show ?case by simp
qed auto

lemma spaced_take: "spaced d ts \<Longrightarrow> spaced d (take n ts)"
  by (metis append_take_drop_id spaced_appendD)

text \<open>The elements that a window of width \<open>w\<close> opening at the first one holds.\<close>

lemma spaced_window:
  assumes "spaced d (t # ts)" "0 < d" "t < e"
  shows "int (length (takeWhile (\<lambda>u. u < e) (t # ts))) \<le> (e - t + d - 1) div d"
  using assms(1,3)
proof (induction ts arbitrary: t)
  case Nil
  then have "d \<le> e - t + d - 1" by simp
  then have "d div d \<le> (e - t + d - 1) div d" using \<open>0 < d\<close> by (intro zdiv_mono1) auto
  then show ?case using Nil \<open>0 < d\<close> by simp
next
  case (Cons u us)
  then have gap: "t + d \<le> u" and sp: "spaced d (u # us)" by simp_all
  show ?case
  proof (cases "u < e")
    case True
    with Cons.IH [OF sp] have
      "int (length (takeWhile (\<lambda>x. x < e) (u # us))) \<le> (e - u + d - 1) div d" by blast
    also have "\<dots> \<le> (e - t - d + d - 1) div d"
      using gap \<open>0 < d\<close> by (intro zdiv_mono1) auto
    also have "\<dots> = (e - t + d - 1) div d - 1"
      using div_add_self2 [of d "e - t - 1"] \<open>0 < d\<close> by (simp add: algebra_simps)
    finally show ?thesis using Cons.prems by simp
  next
    case False
    have "d div d \<le> (e - t + d - 1) div d"
      using Cons.prems \<open>0 < d\<close> by (intro zdiv_mono1) auto
    with False Cons.prems \<open>0 < d\<close> show ?thesis by simp
  qed
qed

subsection \<open>Polled readings\<close>

text \<open>
  The contract of a lever that polls something outside the process: an answer is reused
  for \<open>poll\<close> milliseconds, a failed reading keeps the previous answer, and a reading that
  succeeds replaces it. \<open>due\<close> is \<open>!(t - cachedAt < poll)\<close>, with \<open>-Infinity\<close> at first.
\<close>

definition due :: "int \<Rightarrow> time option \<Rightarrow> time \<Rightarrow> bool" where
  "due poll stamp t = (case stamp of None \<Rightarrow> True | Some a \<Rightarrow> \<not> t - a < poll)"

lemma due_simps [simp]:
  "due poll None t"
  "due poll (Some a) t \<longleftrightarrow> poll \<le> t - a"
  by (auto simp: due_def)

locale held_reading =
  fixes poll :: int
    and read :: "time \<Rightarrow> 'a option \<Rightarrow> 's \<Rightarrow> 's"
    and stamp :: "'s \<Rightarrow> time option"
    and answer :: "'s \<Rightarrow> 'b"
    and parse :: "'a \<Rightarrow> 'b"
  assumes not_due: "\<not> due poll (stamp s) t \<Longrightarrow> read t r s = s"
    and due_stamp: "due poll (stamp s) t \<Longrightarrow> stamp (read t r s) = Some t"
    and due_failed: "due poll (stamp s) t \<Longrightarrow> answer (read t None s) = answer s"
    and due_read: "due poll (stamp s) t \<Longrightarrow> answer (read t (Some x) s) = parse x"
begin

definition reads :: "(time \<Rightarrow> 'a option) \<Rightarrow> 's \<Rightarrow> time list \<Rightarrow> 's" where
  "reads env s ts = run_calls (\<lambda>t. read t (env t)) s ts"

text \<open>An outage of the lever changes nothing.\<close>

lemma held_through_failures: "\<forall>t \<in> set ts. env t = None \<Longrightarrow> answer (reads env s ts) = answer s"
proof (induction ts arbitrary: s)
  case (Cons t ts)
  then have "answer (read t None s) = answer s"
    by (cases "due poll (stamp s) t") (simp_all add: not_due due_failed)
  with Cons show ?case by (simp add: reads_def)
qed (simp add: reads_def)

text \<open>Whatever holds of every reading from \<open>start\<close> on holds of the answers one poll later.\<close>

lemma seen_since:
  assumes "\<And>t. start \<le> t \<Longrightarrow> \<exists>x. env t = Some x \<and> Q (parse x)"
    and "\<forall>a. stamp s = Some a \<longrightarrow> start \<le> a \<longrightarrow> Q (answer s)"
  shows "\<forall>a. stamp (reads env s ts) = Some a \<longrightarrow> start \<le> a \<longrightarrow> Q (answer (reads env s ts))"
  using assms(2)
proof (induction ts arbitrary: s)
  case (Cons t ts)
  have "\<forall>a. stamp (read t (env t) s) = Some a \<longrightarrow> start \<le> a \<longrightarrow> Q (answer (read t (env t) s))"
  proof (cases "due poll (stamp s) t")
    case True
    then show ?thesis using assms(1) [of t] by (auto simp: due_stamp due_read)
  next
    case False
    then have "read t (env t) s = s" by (rule not_due)
    with Cons.prems show ?thesis by simp
  qed
  from Cons.IH [OF this] show ?case by (simp add: reads_def)
qed (simp add: reads_def)

lemma latency:
  assumes "\<And>t. start \<le> t \<Longrightarrow> \<exists>x. env t = Some x \<and> Q (parse x)"
    and "stamp s = None" and "start + poll \<le> t" and "start \<le> t"
  shows "Q (answer (reads env s (ts @ [t])))"
proof -
  let ?s = "reads env s ts"
  have seen: "stamp ?s = Some a \<Longrightarrow> start \<le> a \<Longrightarrow> Q (answer ?s)" for a
    using seen_since [of start env Q s ts] assms(1,2) by auto
  have r: "reads env s (ts @ [t]) = read t (env t) ?s"
    by (simp add: reads_def run_calls_append)
  show ?thesis
  proof (cases "due poll (stamp ?s) t")
    case True
    then show ?thesis using assms(1) [OF assms(4)] by (auto simp: r due_read)
  next
    case False
    then obtain a where "stamp ?s = Some a" "t - a < poll" by (cases "stamp ?s") auto
    with seen assms(3) False show ?thesis by (simp add: r not_due)
  qed
qed

end

end
