(* ===== verification/Js_Text.thy ===== *)
theory Js_Text
  imports Complex_Main
begin

text \<open>
  The string functions of the language that the source uses, on character lists. A
  character is a code unit below 256, which is what HTTP headers, URLs, tokens and the
  identifiers of the program are made of.
\<close>

abbreviation code :: "char \<Rightarrow> nat" where
  "code c \<equiv> of_char c"

definition is_digit :: "char \<Rightarrow> bool" where
  "is_digit c \<longleftrightarrow> 48 \<le> code c \<and> code c \<le> 57"

definition digit_val :: "char \<Rightarrow> nat" where
  "digit_val c = code c - 48"

text \<open>What \<open>trim\<close> removes at both ends: the white space and line ends below 256.\<close>

definition is_white :: "char \<Rightarrow> bool" where
  "is_white c \<longleftrightarrow> code c \<in> {9, 10, 11, 12, 13, 32, 160}"

definition js_trim :: "string \<Rightarrow> string" where
  "js_trim s = rev (dropWhile is_white (rev (dropWhile is_white s)))"

lemma js_trim_Nil [simp]: "js_trim [] = []"
  by (simp add: js_trim_def)

lemma js_trim_ends: "js_trim s = [] \<or> \<not> is_white (hd (js_trim s)) \<and> \<not> is_white (last (js_trim s))"
proof -
  define t where "t = dropWhile is_white s"
  define u where "u = dropWhile is_white (rev t)"
  have "\<not> is_white (hd u) \<and> last u = hd t \<and> \<not> is_white (hd t)" if "u \<noteq> []"
  proof -
    obtain w where "rev t = w @ u" by (metis u_def takeWhile_dropWhile_id)
    then have "t = rev u @ rev w" by (metis rev_append rev_rev_ident)
    moreover have "\<not> is_white (hd u)" using that hd_dropWhile unfolding u_def by blast
    moreover have "t \<noteq> []" using that by (auto simp: u_def)
    then have "\<not> is_white (hd t)" using hd_dropWhile unfolding t_def by blast
    ultimately show ?thesis using that by (simp add: hd_rev)
  qed
  then show ?thesis by (auto simp: js_trim_def hd_rev last_rev simp flip: t_def u_def)
qed

lemma js_trim_tidy: "s = [] \<or> \<not> is_white (hd s) \<and> \<not> is_white (last s) \<Longrightarrow> js_trim s = s"
proof -
  assume a: "s = [] \<or> \<not> is_white (hd s) \<and> \<not> is_white (last s)"
  have d: "dropWhile is_white t = t" if "t = [] \<or> \<not> is_white (hd t)" for t
    using that by (cases t) auto
  have "dropWhile is_white s = s" using a d by blast
  moreover have "dropWhile is_white (rev s) = rev s" using a by (intro d) (auto simp: hd_rev)
  ultimately show ?thesis by (simp add: js_trim_def)
qed

lemma js_trim_idem [simp]: "js_trim (js_trim s) = js_trim s"
  by (rule js_trim_tidy) (rule js_trim_ends)

lemma js_trim_id: "\<forall>c \<in> set s. \<not> is_white c \<Longrightarrow> js_trim s = s"
proof -
  assume a: "\<forall>c \<in> set s. \<not> is_white c"
  have d: "\<forall>c \<in> set t. \<not> is_white c \<Longrightarrow> dropWhile is_white t = t" for t
    by (cases t) simp_all
  from a show ?thesis by (simp add: js_trim_def d)
qed

definition decimal :: "string \<Rightarrow> int" where
  "decimal ds = foldl (\<lambda>n d. 10 * n + int (digit_val d)) 0 ds"

text \<open>
  \<open>Number(s)\<close> where it is finite, \<open>None\<close> where it is NaN or infinite: the empty string is
  0, otherwise a decimal literal with an optional sign, fraction and exponent, or one of
  the prefixed integer literals. The value is exact, before rounding to a double.
\<close>

definition signed :: "string \<Rightarrow> rat \<times> string" where
  "signed s = (case s of
     [] \<Rightarrow> (1, [])
   | c # cs \<Rightarrow> if c = CHR ''-'' then (-1, cs) else if c = CHR ''+'' then (1, cs) else (1, s))"

definition exponent_part :: "string \<Rightarrow> int option" where
  "exponent_part s = (case s of
     [] \<Rightarrow> Some 0
   | c # cs \<Rightarrow>
       if c = CHR ''e'' \<or> c = CHR ''E'' then
         (case signed cs of (sg, ds) \<Rightarrow>
            if ds \<noteq> [] \<and> list_all is_digit ds
            then Some (if sg < 0 then - decimal ds else decimal ds) else None)
       else None)"

definition scale10 :: "rat \<Rightarrow> int \<Rightarrow> rat" where
  "scale10 m e = (if 0 \<le> e then m * 10 ^ nat e else m / 10 ^ nat (- e))"

definition decimal_literal :: "string \<Rightarrow> rat option" where
  "decimal_literal s =
     (case signed s of (sg, r) \<Rightarrow>
        let ip = takeWhile is_digit r; r1 = dropWhile is_digit r;
            fp = (case r1 of [] \<Rightarrow> [] | c # cs \<Rightarrow> if c = CHR ''.'' then takeWhile is_digit cs else []);
            r2 = (case r1 of [] \<Rightarrow> [] | c # cs \<Rightarrow> if c = CHR ''.'' then dropWhile is_digit cs else r1)
        in if ip = [] \<and> fp = [] then None
           else case exponent_part r2 of
                  None \<Rightarrow> None
                | Some e \<Rightarrow> Some (sg * scale10 (of_int (decimal (ip @ fp))) (e - int (length fp))))"

definition radix_digit :: "nat \<Rightarrow> char \<Rightarrow> nat option" where
  "radix_digit b c =
     (let n = code c;
          d = (if 48 \<le> n \<and> n \<le> 57 then n - 48
               else if 97 \<le> n \<and> n \<le> 102 then n - 87
               else if 65 \<le> n \<and> n \<le> 70 then n - 55 else b)
      in if d < b then Some d else None)"

fun radix_value :: "nat \<Rightarrow> int \<Rightarrow> string \<Rightarrow> int option" where
  "radix_value b acc [] = Some acc"
| "radix_value b acc (c # cs) =
     (case radix_digit b c of None \<Rightarrow> None | Some d \<Rightarrow> radix_value b (int b * acc + int d) cs)"

definition radix_literal :: "string \<Rightarrow> rat option" where
  "radix_literal s = (case s of
     z # x # c # cs \<Rightarrow>
       if z \<noteq> CHR ''0'' then None
       else if x \<in> {CHR ''x'', CHR ''X''} then map_option of_int (radix_value 16 0 (c # cs))
       else if x \<in> {CHR ''o'', CHR ''O''} then map_option of_int (radix_value 8 0 (c # cs))
       else if x \<in> {CHR ''b'', CHR ''B''} then map_option of_int (radix_value 2 0 (c # cs))
       else None
   | _ \<Rightarrow> None)"

definition js_Number :: "string \<Rightarrow> rat option" where
  "js_Number s =
     (let t = js_trim s;
          v = (if t = [] then Some 0
               else case radix_literal t of Some v \<Rightarrow> Some v | None \<Rightarrow> decimal_literal t)
      in case v of Some x \<Rightarrow> if \<bar>x\<bar> < 2 ^ 1024 then Some x else None | None \<Rightarrow> None)"

definition js_Number_header :: "string option \<Rightarrow> rat option" where
  "js_Number_header h = (case h of None \<Rightarrow> Some 0 | Some s \<Rightarrow> js_Number s)"

definition js_round :: "rat \<Rightarrow> int" where
  "js_round x = \<lfloor>x + 1 / 2\<rfloor>"

text \<open>\<open>indexOf\<close> of a one-character string, \<open>None\<close> for -1.\<close>

fun indexOf :: "char \<Rightarrow> string \<Rightarrow> nat option" where
  "indexOf c [] = None"
| "indexOf c (d # ds) = (if d = c then Some 0 else map_option Suc (indexOf c ds))"

lemma indexOf_None: "indexOf c s = None \<longleftrightarrow> c \<notin> set s"
  by (induction s) auto

lemma indexOf_append: "c \<notin> set s \<Longrightarrow> indexOf c (s @ c # t) = Some (length s)"
  by (induction s) auto

text \<open>\<open>startsWith\<close>.\<close>

definition starts_with :: "string \<Rightarrow> string \<Rightarrow> bool" where
  "starts_with p s \<longleftrightarrow> take (length p) s = p"

text \<open>\<open>split\<close> at a one-character separator.\<close>

fun js_split :: "char \<Rightarrow> string \<Rightarrow> string list" where
  "js_split c [] = [[]]"
| "js_split c (d # ds) =
     (if d = c then [] # js_split c ds
      else case js_split c ds of [] \<Rightarrow> [[d]] | p # ps \<Rightarrow> (d # p) # ps)"

lemma js_split_not_Nil [simp]: "js_split c s \<noteq> []"
  by (cases s) (simp_all split: list.split)

lemma js_split_plain: "c \<notin> set s \<Longrightarrow> js_split c s = [s]"
  by (induction s) auto

lemma js_split_append: "c \<notin> set s \<Longrightarrow> js_split c (s @ c # t) = s # js_split c t"
  by (induction s) auto

lemma js_split_two: "js_split c s = [a, b] \<longleftrightarrow> s = a @ c # b \<and> c \<notin> set a \<and> c \<notin> set b"
proof
  have one: "js_split c s = [a] \<Longrightarrow> s = a \<and> c \<notin> set a" for s a
    by (induction s arbitrary: a) (auto split: if_splits list.splits)
  show "s = a @ c # b \<and> c \<notin> set a \<and> c \<notin> set b" if "js_split c s = [a, b]"
    using that by (induction s arbitrary: a) (auto split: if_splits list.splits dest: one)
qed (simp add: js_split_append js_split_plain)

text \<open>\<open>toLowerCase\<close> on the characters below 256.\<close>

definition lower_char :: "char \<Rightarrow> char" where
  "lower_char c =
     (let n = code c in if (65 \<le> n \<and> n \<le> 90) \<or> (192 \<le> n \<and> n \<le> 222 \<and> n \<noteq> 215) then char_of (n + 32) else c)"

definition js_toLowerCase :: "string \<Rightarrow> string" where
  "js_toLowerCase s = map lower_char s"

lemma lower_char_idem [simp]: "lower_char (lower_char c) = lower_char c"
  by (auto simp: lower_char_def Let_def)

lemma lower_char_white [simp]: "is_white (lower_char c) = is_white c"
  by (auto simp: lower_char_def is_white_def Let_def)

subsection \<open>Numbers in keys\<close>

text \<open>\<open>String(n)\<close> for an integer.\<close>

fun show_nat :: "nat \<Rightarrow> string" where
  "show_nat n = (if n < 10 then [char_of (48 + n)] else show_nat (n div 10) @ [char_of (48 + n mod 10)])"

declare show_nat.simps [simp del]

definition show_int :: "int \<Rightarrow> string" where
  "show_int n = (if n < 0 then CHR ''-'' # show_nat (nat (- n)) else show_nat (nat n))"

definition digits_value :: "string \<Rightarrow> nat" where
  "digits_value s = foldl (\<lambda>a c. 10 * a + (of_char c - 48)) 0 s"

lemma digits_value_show [simp]: "digits_value (show_nat n) = n"
  by (induction n rule: show_nat.induct) (subst show_nat.simps, auto simp: digits_value_def)

lemma show_nat_digits: "c \<in> set (show_nat n) \<Longrightarrow> 48 \<le> (of_char c :: nat) \<and> (of_char c :: nat) \<le> 57"
  by (induction n rule: show_nat.induct) (subst (asm) (2) show_nat.simps, auto split: if_splits)

lemma show_nat_inject [simp]: "show_nat m = show_nat n \<longleftrightarrow> m = n"
  by (metis digits_value_show)

lemma show_nat_no_sign: "c \<in> {CHR ''-'', CHR '':''} \<Longrightarrow> c \<notin> set (show_nat n)"
  using show_nat_digits [of c n] by auto

lemma show_nat_not_minus: "show_nat n \<noteq> CHR ''-'' # s"
  using show_nat_no_sign [of "CHR ''-''" n] by auto

lemma show_int_inject [simp]: "show_int m = show_int n \<longleftrightarrow> m = n"
  using show_nat_not_minus by (auto simp: show_int_def) (metis show_nat_not_minus)+

lemma show_int_no_colon: "CHR '':'' \<notin> set (show_int n)"
  using show_nat_no_sign [of "CHR '':''"] by (simp add: show_int_def)

text \<open>A number after the last colon can be read back.\<close>

lemma colon_key_inject: "a @ CHR '':'' # show_int i = b @ CHR '':'' # show_int j \<longleftrightarrow> a = b \<and> i = j"
proof
  have split: "takeWhile ((\<noteq>) CHR '':'') (rev (c @ CHR '':'' # show_int k)) = rev (show_int k)" for c k
  proof -
    have "takeWhile ((\<noteq>) CHR '':'') (rev (show_int k) @ CHR '':'' # rev c) = rev (show_int k)"
      using show_int_no_colon [of k] by (subst takeWhile_append2) auto
    then show ?thesis by simp
  qed
  assume e: "a @ CHR '':'' # show_int i = b @ CHR '':'' # show_int j"
  then have "rev (show_int i) = rev (show_int j)" using split [of a i] split [of b j] by simp
  with e show "a = b \<and> i = j" by simp
qed simp

end
