(* ===== verification/Js_Json.thy ===== *)
theory Js_Json
  imports Js_Text "HOL-Library.AList"
begin

text \<open>
  JSON values and their text, as the language has them: \<open>JSON.stringify\<close> without white space
  and \<open>JSON.parse\<close>. Objects are association lists in insertion order, numbers are integers
  (what the modelled code stores in JSON are strings, flags and times in seconds), and a
  \<open>\u\<close> escape above 255 is outside the characters of the model.
\<close>

datatype json =
    JNull
  | JBool bool
  | JNum int
  | JStr string
  | JArr "json list"
  | JObj "(string \<times> json) list"

text \<open>\<open>o[k]\<close> of a value that is known to be an object, \<open>None\<close> for undefined.\<close>

definition jget :: "string \<Rightarrow> json \<Rightarrow> json option" where
  "jget k j = (case j of JObj kvs \<Rightarrow> map_of kvs k | _ \<Rightarrow> None)"

abbreviation dquote :: char where "dquote \<equiv> CHR 0x22"

abbreviation bslash :: char where "bslash \<equiv> CHR 0x5C"

subsection \<open>Writing\<close>

definition hex_digit :: "nat \<Rightarrow> char" where
  "hex_digit n = char_of (if n < 10 then 48 + n else 87 + n)"

definition json_escape :: "char \<Rightarrow> string" where
  "json_escape c =
     (if c = dquote then [bslash, dquote]
      else if c = bslash then [bslash, bslash]
      else if code c = 8 then [bslash, CHR ''b'']
      else if code c = 9 then [bslash, CHR ''t'']
      else if code c = 10 then [bslash, CHR ''n'']
      else if code c = 12 then [bslash, CHR ''f'']
      else if code c = 13 then [bslash, CHR ''r'']
      else if code c < 32 then [bslash, CHR ''u'', CHR ''0'', CHR ''0'', hex_digit (code c div 16), hex_digit (code c mod 16)]
      else [c])"

definition json_quote :: "string \<Rightarrow> string" where
  "json_quote s = dquote # concat (map json_escape s) @ [dquote]"

fun js_join :: "string \<Rightarrow> string list \<Rightarrow> string" where
  "js_join sep [] = []"
| "js_join sep [x] = x"
| "js_join sep (x # y # xs) = x @ sep @ js_join sep (y # xs)"

fun stringify :: "json \<Rightarrow> string" where
  "stringify JNull = ''null''"
| "stringify (JBool b) = (if b then ''true'' else ''false'')"
| "stringify (JNum n) = show_int n"
| "stringify (JStr s) = json_quote s"
| "stringify (JArr js) = CHR ''['' # js_join '','' (map stringify js) @ '']''"
| "stringify (JObj kvs) =
     CHR ''{'' # js_join '','' (map (\<lambda>(k, v). json_quote k @ CHR '':'' # stringify v) kvs) @ ''}''"

subsection \<open>Reading\<close>

definition json_ws :: "char \<Rightarrow> bool" where
  "json_ws c \<longleftrightarrow> code c \<in> {9, 10, 13, 32}"

abbreviation skip_ws :: "string \<Rightarrow> string" where
  "skip_ws \<equiv> dropWhile json_ws"

definition unescape :: "char \<Rightarrow> char option" where
  "unescape e =
     (if e = dquote \<or> e = bslash \<or> e = CHR ''/'' then Some e
      else if e = CHR ''b'' then Some (char_of (8::nat))
      else if e = CHR ''t'' then Some (char_of (9::nat))
      else if e = CHR ''n'' then Some (char_of (10::nat))
      else if e = CHR ''f'' then Some (char_of (12::nat))
      else if e = CHR ''r'' then Some (char_of (13::nat))
      else None)"

text \<open>The four digits of a \<open>\u\<close> escape.\<close>

definition hex4 :: "string \<Rightarrow> char option" where
  "hex4 s =
     (case radix_value 16 0 s of
        None \<Rightarrow> None
      | Some v \<Rightarrow> if length s = 4 \<and> v < 256 then Some (char_of (nat v)) else None)"

text \<open>What follows a backslash.\<close>

definition read_escape :: "string \<Rightarrow> (char \<times> string) option" where
  "read_escape s = (case s of
     [] \<Rightarrow> None
   | u # r \<Rightarrow>
       if u = CHR ''u'' then map_option (\<lambda>d. (d, drop 4 r)) (hex4 (take 4 r))
       else map_option (\<lambda>d. (d, r)) (unescape u))"

lemma read_escape_length: "read_escape s = Some (d, r) \<Longrightarrow> length r < length s"
  by (cases s) (auto simp: read_escape_def split: if_splits)

text \<open>The rest of a string literal after its opening quote.\<close>

function read_chars :: "string \<Rightarrow> (string \<times> string) option" where
  "read_chars [] = None"
| "read_chars (c # cs) =
     (if c = dquote then Some ([], cs)
      else if c = bslash then
        (case read_escape cs of
           None \<Rightarrow> None
         | Some (d, r) \<Rightarrow> map_option (\<lambda>(s, t). (d # s, t)) (read_chars r))
      else if code c < 32 then None
      else map_option (\<lambda>(s, t). (c # s, t)) (read_chars cs))"
  by pat_completeness auto
termination
  by (relation "measure length") (auto dest: read_escape_length)

definition read_number :: "string \<Rightarrow> (json \<times> string) option" where
  "read_number s =
     (let neg = (s \<noteq> [] \<and> hd s = CHR ''-''); t = (if neg then tl s else s);
          ds = takeWhile is_digit t; r = dropWhile is_digit t
      in if ds = [] \<or> (hd ds = CHR ''0'' \<and> tl ds \<noteq> []) then None
         else if r \<noteq> [] \<and> hd r \<in> {CHR ''.'', CHR ''e'', CHR ''E''} then None
         else Some (JNum (if neg then - decimal ds else decimal ds), r))"

definition read_word :: "string \<Rightarrow> json \<Rightarrow> string \<Rightarrow> (json \<times> string) option" where
  "read_word w j s = (if starts_with w s then Some (j, drop (length w) s) else None)"

text \<open>A value, the elements of an array and the members of an object. Of two members with one
  name the later wins. The first argument is fuel.\<close>

fun read_value :: "nat \<Rightarrow> string \<Rightarrow> (json \<times> string) option"
  and read_elements :: "nat \<Rightarrow> json list \<Rightarrow> string \<Rightarrow> (json \<times> string) option"
  and read_members :: "nat \<Rightarrow> (string \<times> json) list \<Rightarrow> string \<Rightarrow> (json \<times> string) option" where
  "read_value 0 s = None"
| "read_value (Suc f) s =
     (case skip_ws s of
        [] \<Rightarrow> None
      | c # r \<Rightarrow>
          if c = CHR ''['' then
            (if starts_with '']'' (skip_ws r) then Some (JArr [], tl (skip_ws r)) else read_elements f [] r)
          else if c = CHR ''{'' then
            (if starts_with ''}'' (skip_ws r) then Some (JObj [], tl (skip_ws r)) else read_members f [] r)
          else if c = dquote then map_option (\<lambda>(t, r'). (JStr t, r')) (read_chars r)
          else if c = CHR ''n'' then read_word ''null'' JNull (c # r)
          else if c = CHR ''t'' then read_word ''true'' (JBool True) (c # r)
          else if c = CHR ''f'' then read_word ''false'' (JBool False) (c # r)
          else read_number (c # r))"
| "read_elements 0 acc s = None"
| "read_elements (Suc f) acc s =
     (case read_value f s of
        None \<Rightarrow> None
      | Some (j, r) \<Rightarrow>
          (case skip_ws r of
             [] \<Rightarrow> None
           | c # r' \<Rightarrow>
               if c = CHR '','' then read_elements f (acc @ [j]) r'
               else if c = CHR '']'' then Some (JArr (acc @ [j]), r')
               else None))"
| "read_members 0 acc s = None"
| "read_members (Suc f) acc s =
     (case skip_ws s of
        [] \<Rightarrow> None
      | q # r \<Rightarrow>
          if q \<noteq> dquote then None
          else (case read_chars r of
             None \<Rightarrow> None
           | Some (k, r1) \<Rightarrow>
               (case skip_ws r1 of
                  [] \<Rightarrow> None
                | c # r2 \<Rightarrow>
                    if c \<noteq> CHR '':'' then None
                    else (case read_value f r2 of
                       None \<Rightarrow> None
                     | Some (v, r3) \<Rightarrow>
                         (case skip_ws r3 of
                            [] \<Rightarrow> None
                          | d # r4 \<Rightarrow>
                              if d = CHR '','' then read_members f (AList.update k v acc) r4
                              else if d = CHR ''}'' then Some (JObj (AList.update k v acc), r4)
                              else None)))))"

text \<open>\<open>JSON.parse\<close>; \<open>None\<close> is the SyntaxError. Every value uses at most two units of fuel for each
  character.\<close>

definition json_parse :: "string \<Rightarrow> json option" where
  "json_parse s =
     (case read_value (2 * length s + 2) s of
        None \<Rightarrow> None
      | Some (j, r) \<Rightarrow> if skip_ws r = [] then Some j else None)"

subsection \<open>What was written is read back\<close>

lemma radix_digit_hex: "n < 16 \<Longrightarrow> radix_digit 16 (hex_digit n) = Some n"
  by (cases "n < 10") (auto simp: radix_digit_def hex_digit_def Let_def)

lemma hex4_escape: "code c < 32 \<Longrightarrow> hex4 [CHR ''0'', CHR ''0'', hex_digit (code c div 16), hex_digit (code c mod 16)] = Some c"
proof -
  assume "code c < 32"
  then have "radix_digit 16 (hex_digit (code c div 16)) = Some (code c div 16)"
    "radix_digit 16 (hex_digit (code c mod 16)) = Some (code c mod 16)"
    by (simp_all add: radix_digit_hex)
  moreover have "radix_digit 16 (CHR ''0'') = Some 0" by (simp add: radix_digit_def)
  moreover have "int 16 * (int (code c div 16)) + int (code c mod 16) = int (code c)"
    by (metis mult_div_mod_eq of_nat_add of_nat_mult)
  ultimately show ?thesis using \<open>code c < 32\<close> by (simp add: hex4_def)
qed

lemma code_eq: "code c = n \<Longrightarrow> char_of n = c"
  by auto

lemma read_chars_char: "read_chars (json_escape c @ cs) = map_option (\<lambda>(s, t). (c # s, t)) (read_chars cs)"
  using hex4_escape [of c] by (auto simp: json_escape_def read_escape_def unescape_def code_eq)

lemma read_chars_quote: "read_chars (concat (map json_escape s) @ dquote # r) = Some (s, r)"
  by (induction s) (simp_all add: read_chars_char)

lemma show_nat_is_digit: "\<forall>c \<in> set (show_nat n). is_digit c"
  using show_nat_digits by (auto simp: is_digit_def)

lemma show_nat_not_Nil [simp]: "show_nat n \<noteq> []"
  by (subst show_nat.simps) simp

lemma decimal_show [simp]: "decimal (show_nat n) = int n"
proof -
  have "foldl (\<lambda>n d. 10 * n + int (digit_val d)) (int a) ds = int (foldl (\<lambda>a c. 10 * a + (code c - 48)) a ds)" for a ds
  proof (induction ds arbitrary: a)
    case (Cons d ds)
    have "10 * int a + int (digit_val d) = int (10 * a + (code d - 48))" by (simp add: digit_val_def)
    then show ?case using Cons.IH [of "10 * a + (code d - 48)"] by (simp only: foldl_Cons)
  qed simp
  from this [of 0 "show_nat n"] show ?thesis
    using digits_value_show [of n] by (simp add: decimal_def digits_value_def)
qed

lemma show_nat_no_leading_zero: "hd (show_nat n) = CHR ''0'' \<Longrightarrow> n = 0"
proof (induction n rule: show_nat.induct)
  case (1 n)
  show ?case
  proof (cases "n < 10")
    case True
    then have "code (hd (show_nat n)) = 48 + n" by (subst show_nat.simps) simp
    with 1 show ?thesis by simp
  next
    case False
    with 1(2) have "hd (show_nat (n div 10)) = CHR ''0''" by (subst (asm) show_nat.simps) simp
    with 1(1) False show ?thesis by simp
  qed
qed

text \<open>What follows a value inside another one.\<close>

definition closing :: "string \<Rightarrow> bool" where
  "closing r \<longleftrightarrow> r = [] \<or> hd r \<in> {CHR '','', CHR '']'', CHR ''}''}"

lemma closing_simps [simp]: "closing []" "closing (CHR '','' # r)" "closing (CHR '']'' # r)" "closing (CHR ''}'' # r)"
  by (simp_all add: closing_def)

lemma closing_no_digit: "closing r \<Longrightarrow> takeWhile is_digit r = [] \<and> dropWhile is_digit r = r"
  by (cases r) (auto simp: closing_def is_digit_def)

lemma read_number_show: "closing r \<Longrightarrow> read_number (show_int n @ r) = Some (JNum n, r)"
proof -
  assume r: "closing r"
  have ds: "takeWhile is_digit (show_nat m @ r) = show_nat m" "dropWhile is_digit (show_nat m @ r) = r" for m
    using r show_nat_is_digit [of m] by (simp_all add: closing_no_digit)
  have end_: "\<not> (r \<noteq> [] \<and> hd r \<in> {CHR ''.'', CHR ''e'', CHR ''E''})" using r by (auto simp: closing_def)
  have zero: "\<not> (hd (show_nat m) = CHR ''0'' \<and> tl (show_nat m) \<noteq> [])" for m
    using show_nat_no_leading_zero [of m] by (auto simp: show_nat.simps [of 0])
  have sign: "hd (show_nat m @ r) \<noteq> CHR ''-''" for m
    using show_nat_no_sign [of "CHR ''-''" m] by (cases "show_nat m") auto
  show ?thesis
    using ds end_ zero sign closing_no_digit [OF r] by (auto simp: show_int_def read_number_def Let_def)
qed

subsection \<open>Round trip\<close>

text \<open>Objects name each member once.\<close>

fun json_ok :: "json \<Rightarrow> bool" where
  "json_ok (JArr js) = list_all json_ok js"
| "json_ok (JObj kvs) = (distinct (map fst kvs) \<and> list_all (\<lambda>(k, v). json_ok v) kvs)"
| "json_ok j = True"

text \<open>The fuel that reading a value needs.\<close>

fun json_need :: "json \<Rightarrow> nat" where
  "json_need (JArr js) = Suc (\<Sum>j \<leftarrow> js. Suc (json_need j))"
| "json_need (JObj kvs) = Suc (\<Sum>(k, v) \<leftarrow> kvs. Suc (json_need v))"
| "json_need j = 1"

lemma show_int_Cons: "\<exists>c cs. show_int n = c # cs \<and> (is_digit c \<or> c = CHR ''-'')"
  using show_nat_is_digit [of "nat n"] by (cases "show_nat (nat n)") (auto simp: show_int_def)

lemma stringify_Cons: "\<exists>c cs. stringify j = c # cs \<and> \<not> json_ws c \<and> c \<noteq> CHR '']'' \<and> c \<noteq> CHR ''}''"
proof (cases j)
  case (JNum n)
  then show ?thesis using show_int_Cons [of n] by (auto simp: json_ws_def is_digit_def)
qed (auto simp: json_ws_def json_quote_def)

lemma json_ws_closing: "\<not> json_ws (CHR '','')" "\<not> json_ws (CHR '']'')" "\<not> json_ws (CHR ''}'')" "\<not> json_ws (CHR '':'')"
  "\<not> json_ws dquote"
  by (simp_all add: json_ws_def)

lemma skip_ws_stringify: "skip_ws (stringify j @ r) = stringify j @ r"
  using stringify_Cons [of j] by auto

lemma read_elements_join:
  "js \<noteq> [] \<Longrightarrow>
   (\<And>j f r. j \<in> set js \<Longrightarrow> json_need j \<le> f \<Longrightarrow> closing r \<Longrightarrow> read_value f (stringify j @ r) = Some (j, r)) \<Longrightarrow>
   (\<Sum>j \<leftarrow> js. Suc (json_need j)) \<le> f \<Longrightarrow>
   read_elements f acc (js_join '','' (map stringify js) @ CHR '']'' # r) = Some (JArr (acc @ js), r)"
proof (induction js arbitrary: acc f)
  case (Cons j js)
  then obtain f' where f: "f = Suc f'" "json_need j \<le> f'" "(\<Sum>j \<leftarrow> js. Suc (json_need j)) \<le> f'"
    by (cases f) auto
  show ?case
  proof (cases js)
    case Nil
    then show ?thesis using Cons.prems(2) [of j f' "CHR '']'' # r"] f by (simp add: json_ws_closing)
  next
    case (Cons j' js')
    have "read_elements f' (acc @ [j]) (js_join '','' (map stringify js) @ CHR '']'' # r) = Some (JArr (acc @ j # js), r)"
      using Cons.IH [of f' "acc @ [j]"] Cons.prems(2) f(3) Cons by simp
    then show ?thesis
      using Cons.prems(2) [of j f' "CHR '','' # js_join '','' (map stringify js) @ CHR '']'' # r"] f Cons
      by (simp add: json_ws_closing)
  qed
qed simp

lemma update_new: "k \<notin> fst ` set acc \<Longrightarrow> AList.update k v acc = acc @ [(k, v)]"
  by (induction acc) auto

lemma skip_ws_quote: "skip_ws (json_quote k @ r) = json_quote k @ r"
  by (simp add: json_quote_def json_ws_closing)

lemma read_member:
  assumes "\<And>f r. json_need v \<le> f \<Longrightarrow> closing r \<Longrightarrow> read_value f (stringify v @ r) = Some (v, r)"
    and "json_need v \<le> f" and "k \<notin> fst ` set acc"
  shows "read_members (Suc f) acc (json_quote k @ CHR '':'' # stringify v @ CHR '','' # r) = read_members f (acc @ [(k, v)]) r"
    and "read_members (Suc f) acc (json_quote k @ CHR '':'' # stringify v @ CHR ''}'' # r) = Some (JObj (acc @ [(k, v)]), r)"
  using assms by (simp_all add: json_quote_def json_ws_closing read_chars_quote update_new)

lemma read_members_join:
  "kvs \<noteq> [] \<Longrightarrow>
   (\<And>k v f r. (k, v) \<in> set kvs \<Longrightarrow> json_need v \<le> f \<Longrightarrow> closing r \<Longrightarrow> read_value f (stringify v @ r) = Some (v, r)) \<Longrightarrow>
   (\<Sum>(k, v) \<leftarrow> kvs. Suc (json_need v)) \<le> f \<Longrightarrow> distinct (map fst (acc @ kvs)) \<Longrightarrow>
   read_members f acc (js_join '','' (map (\<lambda>(k, v). json_quote k @ CHR '':'' # stringify v) kvs) @ CHR ''}'' # r) =
     Some (JObj (acc @ kvs), r)"
proof (induction kvs arbitrary: acc f)
  case (Cons p kvs)
  obtain k v where p: "p = (k, v)" by (cases p)
  from Cons.prems(3) p obtain f' where f: "f = Suc f'" "json_need v \<le> f'" "(\<Sum>(k, v) \<leftarrow> kvs. Suc (json_need v)) \<le> f'"
    by (cases f) auto
  have fresh: "k \<notin> fst ` set acc" using Cons.prems(4) p by auto
  note one = read_member [OF Cons.prems(2) [of k v] f(2) fresh]
  show ?case
  proof (cases kvs)
    case Nil
    then show ?thesis using one(2) by (simp add: p f(1))
  next
    case (Cons p' kvs')
    have "read_members f' (acc @ [(k, v)])
        (js_join '','' (map (\<lambda>(k, v). json_quote k @ CHR '':'' # stringify v) kvs) @ CHR ''}'' # r) =
        Some (JObj ((acc @ [(k, v)]) @ kvs), r)"
      using Cons.prems(4) f(3) Cons p by (intro Cons.IH) (auto intro: Cons.prems(2))
    then show ?thesis
      using one(1) Cons by (simp add: p f(1))
  qed
qed simp

lemma closing_start: "c \<noteq> CHR '']'' \<Longrightarrow> \<not> starts_with '']'' (c # s)" "c \<noteq> CHR ''}'' \<Longrightarrow> \<not> starts_with ''}'' (c # s)"
  by (simp_all add: starts_with_def)

lemma read_value_stringify:
  "json_ok j \<Longrightarrow> json_need j \<le> f \<Longrightarrow> closing r \<Longrightarrow> read_value f (stringify j @ r) = Some (j, r)"
proof (induction j arbitrary: f r)
  case (JNum n)
  obtain c cs where c: "show_int n = c # cs" "is_digit c \<or> c = CHR ''-''" using show_int_Cons by blast
  then have "c \<notin> {CHR ''['', CHR ''{'', dquote, CHR ''n'', CHR ''t'', CHR ''f''}" "\<not> json_ws c"
    by (auto simp: is_digit_def json_ws_def)
  with JNum c read_number_show [of r n] show ?case by (cases f) simp_all
next
  case (JArr js)
  from JArr.prems obtain f' where f: "f = Suc f'" "(\<Sum>j \<leftarrow> js. Suc (json_need j)) \<le> f'" by (cases f) auto
  show ?case
  proof (cases js)
    case Nil
    then show ?thesis by (simp add: f(1) json_ws_def starts_with_def)
  next
    case (Cons j js')
    have "read_elements f' [] (js_join '','' (map stringify js) @ CHR '']'' # r) = Some (JArr ([] @ js), r)"
      using JArr f(2) Cons by (intro read_elements_join) (auto simp: list_all_iff)
    moreover obtain c cs where "stringify j = c # cs" "\<not> json_ws c" "c \<noteq> CHR '']''"
      using stringify_Cons [of j] by blast
    then have "\<not> starts_with '']'' (skip_ws (js_join '','' (map stringify js) @ CHR '']'' # r))"
      using Cons by (cases js') (simp_all add: closing_start)
    ultimately show ?thesis by (simp add: f(1) json_ws_def)
  qed
next
  case (JObj kvs)
  from JObj.prems obtain f' where f: "f = Suc f'" "(\<Sum>(k, v) \<leftarrow> kvs. Suc (json_need v)) \<le> f'" by (cases f) auto
  let ?m = "\<lambda>(k, v). json_quote k @ CHR '':'' # stringify v"
  have member: "read_value g (stringify v @ s) = Some (v, s)"
    if "(k, v) \<in> set kvs" "json_need v \<le> g" "closing s" for k v g s
    by (rule JObj.IH [OF that(1)]) (use that JObj.prems(1) in \<open>auto simp: list_all_iff\<close>)
  show ?case
  proof (cases kvs)
    case Nil
    then show ?thesis by (simp add: f(1) json_ws_def starts_with_def)
  next
    case (Cons p kvs')
    have "read_members f' [] (js_join '','' (map ?m kvs) @ CHR ''}'' # r) = Some (JObj ([] @ kvs), r)"
      using JObj.prems(1) f(2) Cons by (intro read_members_join member) auto
    moreover have "\<not> starts_with ''}'' (skip_ws (js_join '','' (map ?m kvs) @ CHR ''}'' # r))"
      using Cons by (cases kvs'; cases p) (simp_all add: json_quote_def json_ws_closing closing_start)
    ultimately show ?thesis by (simp add: f(1) json_ws_def)
  qed
qed (auto simp: json_ws_def json_quote_def read_chars_quote read_word_def starts_with_def Suc_le_eq gr0_conv_Suc)

lemma length_js_join: "xs \<noteq> [] \<Longrightarrow> length (js_join '','' xs) = (\<Sum>x \<leftarrow> xs. Suc (length x)) - 1"
  by (induction "'',''" xs rule: js_join.induct) auto

lemma json_need_length: "json_need j \<le> length (stringify j)"
proof (induction j)
  case (JNum n)
  then show ?case using show_int_Cons [of n] by auto
next
  case (JArr js)
  have "(\<Sum>j \<leftarrow> js. Suc (json_need j)) \<le> (\<Sum>j \<leftarrow> js. Suc (length (stringify j)))"
    using JArr by (intro sum_list_mono) simp
  then show ?case by (cases "js = []") (auto simp: length_js_join comp_def)
next
  case (JObj kvs)
  have "(\<Sum>(k, v) \<leftarrow> kvs. Suc (json_need v)) \<le>
      (\<Sum>p \<leftarrow> kvs. Suc (length ((\<lambda>(k, v). json_quote k @ CHR '':'' # stringify v) p)))"
    using JObj by (intro sum_list_mono) (fastforce intro: le_trans)
  then show ?case by (cases "kvs = []") (auto simp: length_js_join comp_def)
qed (simp_all add: json_quote_def)

text \<open>\<open>JSON.parse(JSON.stringify(v))\<close> is \<open>v\<close>.\<close>

lemma json_parse_stringify [simp]: "json_ok j \<Longrightarrow> json_parse (stringify j) = Some j"
  using read_value_stringify [of j "2 * length (stringify j) + 2" "[]"] json_need_length [of j]
  by (simp add: json_parse_def)

lemma stringify_not_Nil [simp]: "stringify j \<noteq> []"
  using stringify_Cons [of j] by auto

declare stringify.simps [simp del]

subsection \<open>The fuel is enough\<close>

lemma skip_ws_Cons: "skip_ws s = c # r \<Longrightarrow> length r < length s"
  using length_dropWhile_le [of json_ws s] by simp

lemma read_chars_length: "read_chars s = Some (t, r) \<Longrightarrow> length r < length s"
proof (induction s arbitrary: t rule: read_chars.induct)
  case (2 c cs)
  consider "c = dquote" | d r' t' where "c = bslash" "read_escape cs = Some (d, r')" "read_chars r' = Some (t', r)"
    | t' where "c \<noteq> dquote" "c \<noteq> bslash" "\<not> code c < 32" "read_chars cs = Some (t', r)"
    using 2(3) by (auto split: if_splits option.splits)
  then show ?case
  proof cases
    case 2
    have "length r < length r'" using "2.IH"(1) 2 by simp
    then show ?thesis using read_escape_length [OF 2(2)] by simp
  next
    case 3
    then show ?thesis using "2.IH"(2) by fastforce
  qed (use 2(3) in simp)
qed simp

lemma read_leaf_length:
  "read_number s = Some (j, r) \<Longrightarrow> length r < length s"
  "read_word w j' s = Some (j, r) \<Longrightarrow> w \<noteq> [] \<Longrightarrow> length r < length s"
proof -
  have "takeWhile is_digit t \<noteq> [] \<Longrightarrow> length (dropWhile is_digit t) < length t" for t
    by (metis append_Nil length_append less_add_same_cancel2 length_greater_0_conv takeWhile_dropWhile_id)
  from this [of s] this [of "tl s"] show "read_number s = Some (j, r) \<Longrightarrow> length r < length s"
    by (auto simp: read_number_def Let_def split: if_splits)
  show "read_word w j' s = Some (j, r) \<Longrightarrow> w \<noteq> [] \<Longrightarrow> length r < length s"
    by (cases s) (auto simp: read_word_def starts_with_def split: if_splits)
qed

lemma starts_with_Cons: "starts_with [c] s \<Longrightarrow> s = c # tl s"
  by (cases s) (auto simp: starts_with_def)

lemma read_length:
  "(\<forall>s j r. read_value f s = Some (j, r) \<longrightarrow> length r < length s) \<and>
   (\<forall>acc s j r. read_elements f acc s = Some (j, r) \<longrightarrow> length r < length s) \<and>
   (\<forall>acc s j r. read_members f acc s = Some (j, r) \<longrightarrow> length r < length s)"
proof (induction f)
  case (Suc f)
  have empty: "length (tl (skip_ws r)) < length s" if "skip_ws s = c # r" "starts_with [d] (skip_ws r)" for s c r d
    using skip_ws_Cons [OF that(1)] starts_with_Cons [OF that(2)] skip_ws_Cons [of r d "tl (skip_ws r)"] by simp
  have leaf: "length r' < length s" if "skip_ws s = c # r"
    "read_number (c # r) = Some (j, r') \<or> (\<exists>w j'. w \<noteq> [] \<and> read_word w j' (c # r) = Some (j, r'))" for s c r r' j
  proof -
    have "length r' < length (c # r)" using that(2) read_leaf_length by blast
    then show ?thesis using skip_ws_Cons [OF that(1)] by simp
  qed
  have "length r < length s" if v: "read_value (Suc f) s = Some (j, r)" for s j r
  proof (cases "skip_ws s")
    case (Cons c t)
    from skip_ws_Cons [OF this] have l: "length t < length s" .
    from v Cons consider (none) d where "starts_with [d] (skip_ws t)" "r = tl (skip_ws t)"
      | (inner) "read_elements f [] t = Some (j, r) \<or> read_members f [] t = Some (j, r)"
      | (str) u where "read_chars t = Some (u, r)"
      | (lit) "read_number (c # t) = Some (j, r) \<or> (\<exists>w j'. w \<noteq> [] \<and> read_word w j' (c # t) = Some (j, r))"
      by (simp split: if_splits) blast+
    then show ?thesis
    proof cases
      case none
      then show ?thesis using empty [OF Cons] by simp
    next
      case inner
      then show ?thesis using Suc.IH l less_trans by blast
    next
      case str
      then show ?thesis using read_chars_length l less_trans by blast
    next
      case lit
      then show ?thesis using leaf [OF Cons] by blast
    qed
  qed (use v in \<open>simp del: dropWhile_eq_Nil_conv\<close>)
  moreover have "length r < length s" if e: "read_elements (Suc f) acc s = Some (j, r)" for acc s j r
  proof -
    from e obtain v s1 c s2 where 1: "read_value f s = Some (v, s1)" "skip_ws s1 = c # s2"
      "r = s2 \<or> read_elements f (acc @ [v]) s2 = Some (j, r)"
      by (auto split: option.splits list.splits if_splits)
    then have "length s1 < length s" "length s2 < length s1" "length r \<le> length s2"
      using Suc.IH skip_ws_Cons by (blast, blast, fastforce)
    then show ?thesis by simp
  qed
  moreover have "length r < length s" if m: "read_members (Suc f) acc s = Some (j, r)" for acc s j r
  proof -
    from m obtain q s0 k s1 c s2 v s3 d s4 where 1: "skip_ws s = q # s0" "read_chars s0 = Some (k, s1)"
      "skip_ws s1 = c # s2" "read_value f s2 = Some (v, s3)" "skip_ws s3 = d # s4"
      "r = s4 \<or> read_members f (AList.update k v acc) s4 = Some (j, r)"
      by (auto split: option.splits list.splits if_splits)
    then have "length s0 < length s" "length s1 < length s0" "length s2 < length s1" "length s3 < length s2"
      "length s4 < length s3" "length r \<le> length s4"
      using Suc.IH skip_ws_Cons read_chars_length by (blast, blast, blast, blast, blast, fastforce)
    then show ?thesis by simp
  qed
  ultimately show ?case by blast
qed simp

text \<open>More fuel than two units for each character changes nothing.\<close>

lemma read_fuel:
  "(\<forall>s. 2 * length s < f \<longrightarrow> read_value (Suc f) s = read_value f s) \<and>
   (\<forall>acc s. 2 * length s + 1 < f \<longrightarrow> read_elements (Suc f) acc s = read_elements f acc s) \<and>
   (\<forall>acc s. 2 * length s + 1 < f \<longrightarrow> read_members (Suc f) acc s = read_members f acc s)"
proof (induction f)
  case (Suc f)
  have shrinks: "read_value f s = Some (j, r) \<Longrightarrow> length r < length s" for f s j r using read_length by blast
  have "read_value (Suc (Suc f)) s = read_value (Suc f) s" if "2 * length s < Suc f" for s
  proof (cases "skip_ws s")
    case (Cons c t)
    then have "2 * length t + 1 < f" using that skip_ws_Cons [OF Cons] by simp
    then have "read_elements (Suc f) [] t = read_elements f [] t" "read_members (Suc f) [] t = read_members f [] t"
      using Suc.IH by blast+
    then show ?thesis by (simp only: read_value.simps(2) [of "Suc f"] read_value.simps(2) [of f] Cons list.case)
  qed (simp del: dropWhile_eq_Nil_conv)
  moreover have "read_elements (Suc (Suc f)) acc s = read_elements (Suc f) acc s" if "2 * length s + 1 < Suc f" for acc s
  proof -
    have v: "read_value (Suc f) s = read_value f s" using Suc.IH that by simp
    have "read_elements (Suc f) acc' r' = read_elements f acc' r'"
      if "read_value f s = Some (j, r)" "skip_ws r = c # r'" for acc' j r c r'
      using Suc.IH shrinks [OF that(1)] skip_ws_Cons [OF that(2)] \<open>2 * length s + 1 < Suc f\<close> by simp
    then show ?thesis
      unfolding read_elements.simps(2) [of "Suc f"] read_elements.simps(2) [of f] v
      by (auto split: option.split list.split simp del: read_elements.simps read_value.simps dropWhile_eq_Nil_conv)
  qed
  moreover have "read_members (Suc (Suc f)) acc s = read_members (Suc f) acc s" if "2 * length s + 1 < Suc f" for acc s
  proof -
    have v: "read_value (Suc f) r2 = read_value f r2"
      if "skip_ws s = q # r" "read_chars r = Some (k, r1)" "skip_ws r1 = c # r2" for q r k r1 c r2
      using Suc.IH skip_ws_Cons [OF that(1)] read_chars_length [OF that(2)] skip_ws_Cons [OF that(3)]
        \<open>2 * length s + 1 < Suc f\<close> by simp
    have "read_members (Suc f) acc' r4 = read_members f acc' r4"
      if "skip_ws s = q # r" "read_chars r = Some (k, r1)" "skip_ws r1 = c # r2" "read_value f r2 = Some (v, r3)"
        "skip_ws r3 = d # r4" for acc' q r k r1 c r2 v r3 d r4
      using Suc.IH skip_ws_Cons [OF that(1)] read_chars_length [OF that(2)] skip_ws_Cons [OF that(3)]
        shrinks [OF that(4)] skip_ws_Cons [OF that(5)] \<open>2 * length s + 1 < Suc f\<close> by simp
    then show ?thesis
      unfolding read_members.simps(2) [of "Suc f"] read_members.simps(2) [of f]
      by (auto simp: v split: option.split list.split
          simp del: read_members.simps read_value.simps read_chars.simps dropWhile_eq_Nil_conv)
  qed
  ultimately show ?case by blast
qed simp

text \<open>So the fuel of \<open>json_parse\<close> never decides an answer.\<close>

lemma json_parse_fuel: "2 * length s + 2 \<le> f \<Longrightarrow> read_value f s = read_value (2 * length s + 2) s"
proof (induction f rule: dec_induct)
  case (step f)
  then have "read_value (Suc f) s = read_value f s" using read_fuel [of f] by simp
  with step show ?case by simp
qed simp

end
