(* ===== verification/Api_Errors.thy ===== *)
theory Api_Errors
  imports Pf_Prelude Js_Json
begin

text \<open>
  The errors the API answers with: \<^verbatim>\<open>apps/bff/src/lib/errors.ts\<close>. An error is a value, which
  the operations return as the left side of a sum; its problem document is what a client sees.
\<close>

record api_error =
  ae_status :: int
  ae_type :: string
  ae_title :: string
  ae_message :: string
  ae_fieldErrors :: "(string \<times> string) list option"
  ae_consent :: "json option"

record problem_details =
  pd_type :: string
  pd_title :: string
  pd_status :: int
  pd_detail :: "string option"
  pd_instance :: "string option"
  pd_errors :: "(string \<times> string) list option"
  pd_consent :: "json option"

definition TYPE_BASE :: string where
  "TYPE_BASE = ''https://pull.fm/problems''"

definition api_error_new ::
  "int \<Rightarrow> string \<Rightarrow> string \<Rightarrow> string option \<Rightarrow> (string \<times> string) list option \<Rightarrow> json option \<Rightarrow> api_error" where
  "api_error_new status kind title detail named consent =
     \<lparr>ae_status = status, ae_type = TYPE_BASE @ ''/'' @ kind, ae_title = title, ae_message = orelse detail title,
      ae_fieldErrors = named, ae_consent = consent\<rparr>"

definition toProblem :: "string option \<Rightarrow> api_error \<Rightarrow> problem_details" where
  "toProblem inst e =
     \<lparr>pd_type = ae_type e, pd_title = ae_title e, pd_status = ae_status e,
      pd_detail = (if ae_message e \<noteq> ae_title e then Some (ae_message e) else None),
      pd_instance = inst, pd_errors = ae_fieldErrors e, pd_consent = ae_consent e\<rparr>"

definition internalProblem :: "string option \<Rightarrow> problem_details" where
  "internalProblem inst =
     \<lparr>pd_type = TYPE_BASE @ ''/internal'', pd_title = ''Internal Server Error'', pd_status = 500,
      pd_detail = Some ''An unexpected error occurred. Quote the instance id if you contact support.'',
      pd_instance = inst, pd_errors = None, pd_consent = None\<rparr>"

subsection \<open>The errors\<close>

definition badRequest :: "string option \<Rightarrow> (string \<times> string) list option \<Rightarrow> api_error" where
  "badRequest detail named = api_error_new 400 ''bad-request'' ''Bad Request'' detail named None"

definition unauthorized :: "string \<Rightarrow> api_error" where
  "unauthorized detail = api_error_new 401 ''unauthorized'' ''Unauthorized'' (Some detail) None None"

definition forbidden :: "string \<Rightarrow> api_error" where
  "forbidden detail = api_error_new 403 ''forbidden'' ''Forbidden'' (Some detail) None None"

definition notFound :: "string \<Rightarrow> api_error" where
  "notFound detail = api_error_new 404 ''not-found'' ''Not Found'' (Some detail) None None"

definition conflict :: "string option \<Rightarrow> api_error" where
  "conflict detail = api_error_new 409 ''conflict'' ''Conflict'' detail None None"

definition idempotencyConflict :: api_error where
  "idempotencyConflict = api_error_new 409 ''idempotency-key-reuse'' ''Idempotency Key Reused''
     (Some ''This Idempotency-Key was already used with a different request body.'') None None"

definition unprocessable :: "string option \<Rightarrow> (string \<times> string) list option \<Rightarrow> api_error" where
  "unprocessable detail named = api_error_new 422 ''unprocessable'' ''Unprocessable Content'' detail named None"

definition rateLimited :: "string \<Rightarrow> api_error" where
  "rateLimited detail = api_error_new 429 ''rate-limited'' ''Too Many Requests'' (Some detail) None None"

definition regionUnavailable :: api_error where
  "regionUnavailable = api_error_new 451 ''region-unavailable'' ''Unavailable For Legal Reasons''
     (Some (''Pull.fm is not offered in your region, so this request was not carried out. '' @
            ''No message was sent and no account was created.'')) None None"

definition registrationClosed :: api_error where
  "registrationClosed = api_error_new 403 ''registration-closed'' ''Forbidden''
     (Some (''Pull.fm is in a closed beta, so this request was not carried out. '' @
            ''No message was sent and no account was created.'')) None None"

datatype consent_reason = Never_accepted | Revision_pending

definition consent_reason_name :: "consent_reason \<Rightarrow> string" where
  "consent_reason_name r = (case r of Never_accepted \<Rightarrow> ''never-accepted'' | Revision_pending \<Rightarrow> ''revision-pending'')"

definition consentRequired :: "consent_reason \<Rightarrow> json \<Rightarrow> api_error" where
  "consentRequired reason outstanding =
     api_error_new 403 ''consent-required'' ''Forbidden''
       (Some (case reason of
          Never_accepted \<Rightarrow>
            ''You have not accepted the Pull.fm Terms of Service and Privacy Policy. Accept them at '' @
            ''POST /v1/me/consent, or delete your account at DELETE /v1/me. Reading your own account and '' @
            ''exporting or deleting your data are not gated by this.''
        | Revision_pending \<Rightarrow>
            ''The Terms of Service or Privacy Policy have changed materially since you last accepted them, '' @
            ''so this write was refused. Reading still works. Accept the current versions at '' @
            ''POST /v1/me/consent, or delete your account at DELETE /v1/me.''))
       None
       (Some (JObj [(''reason'', JStr (consent_reason_name reason)), (''outstanding'', outstanding)]))"

definition upstreamUnavailable :: "string \<Rightarrow> api_error" where
  "upstreamUnavailable name = api_error_new 503 ''upstream-unavailable'' ''Upstream Unavailable''
     (Some (''The '' @ name @ '' service is temporarily unavailable. Some results may be missing.'')) None None"

definition maintenance :: api_error where
  "maintenance = api_error_new 503 ''maintenance'' ''Service Unavailable''
     (Some ''Pull.fm is briefly down for maintenance. Please retry shortly.'') None None"

definition notImplemented :: "string \<Rightarrow> api_error" where
  "notImplemented detail = api_error_new 501 ''not-implemented'' ''Not Implemented'' (Some detail) None None"

lemmas error_defs = badRequest_def unauthorized_def forbidden_def notFound_def conflict_def idempotencyConflict_def
  unprocessable_def rateLimited_def regionUnavailable_def registrationClosed_def consentRequired_def
  upstreamUnavailable_def maintenance_def notImplemented_def

lemma ae_status_new [simp]: "ae_status (api_error_new s k t d f c) = s"
  by (simp add: api_error_new_def)

lemma error_status [simp]:
  "ae_status (badRequest d f) = 400" "ae_status (unauthorized m) = 401" "ae_status (forbidden m) = 403"
  "ae_status (notFound m) = 404" "ae_status (conflict d) = 409" "ae_status (unprocessable d f) = 422"
  "ae_status (rateLimited m) = 429" "ae_status regionUnavailable = 451" "ae_status registrationClosed = 403"
  "ae_status (consentRequired r j) = 403" "ae_status (upstreamUnavailable m) = 503"
  by (simp_all add: error_defs)

text \<open>The three refusals of status 403 are told apart by their type, and a gate on consent is the
  only one that carries data.\<close>

lemma refusals_distinct:
  "ae_type (forbidden m) \<noteq> ae_type registrationClosed" "ae_type (forbidden m) \<noteq> ae_type (consentRequired r j)"
  "ae_type registrationClosed \<noteq> ae_type (consentRequired r j)"
  "pd_consent (toProblem i (consentRequired r j)) \<noteq> None" "pd_consent (toProblem i registrationClosed) = None"
  by (simp_all add: error_defs api_error_new_def toProblem_def)

end
