(* ===== verification/Js_Bytes.thy ===== *)
theory Js_Bytes
  imports Js_Text
begin

text \<open>
  \<open>Buffer\<close> of the language: texts as UTF-8 bytes and bytes as base64url, with the lenient
  decoder, which accepts both alphabets and skips every other character. A byte is a
  character of the model; decoded text outside its characters is \<open>None\<close>.
\<close>

subsection \<open>UTF-8\<close>

definition utf8_char :: "char \<Rightarrow> string" where
  "utf8_char c = (if code c < 128 then [c] else [char_of (192 + code c div 64), char_of (128 + code c mod 64)])"

definition utf8_encode :: "string \<Rightarrow> string" where
  "utf8_encode s = concat (map utf8_char s)"

fun utf8_decode :: "string \<Rightarrow> string option" where
  "utf8_decode [] = Some []"
| "utf8_decode (c # cs) =
     (if code c < 128 then map_option ((#) c) (utf8_decode cs)
      else case cs of
        [] \<Rightarrow> None
      | d # ds \<Rightarrow>
          if (code c = 194 \<or> code c = 195) \<and> 128 \<le> code d \<and> code d < 192
          then map_option ((#) (char_of (64 * (code c mod 32) + code d mod 64))) (utf8_decode ds)
          else None)"

lemma code_less: "code c < 256"
  by (metis mod_less_divisor of_char_mod_256 zero_less_numeral)

lemma char_of_code: "n < 256 \<Longrightarrow> code (char_of n) = n"
  by simp

lemma two_bytes:
  "n div 64 = 2 \<or> n div 64 = 3 \<Longrightarrow> 64 * ((192 + n div 64) mod 32) + (128 + n mod 64) mod 64 = (n :: nat)"
proof -
  assume q: "n div 64 = 2 \<or> n div 64 = 3"
  have "(128 + n mod 64) mod 64 = n mod 64"
    using mod_mult_self2 [of "n mod 64" 64 2] by (simp add: add.commute)
  moreover have "n = 64 * (n div 64) + n mod 64" by (rule mult_div_mod_eq [symmetric])
  moreover have "(192 + n div 64) mod 32 = n div 64" using q by auto
  ultimately show ?thesis by linarith
qed

lemma utf8_decode_encode [simp]: "utf8_decode (utf8_encode s) = Some s"
proof (induction s)
  case (Cons c s)
  then have IH: "utf8_decode (concat (map utf8_char s)) = Some s" by (simp add: utf8_encode_def)
  show ?case
  proof (cases "code c < 128")
    case False
    let ?n = "code c"
    have n: "?n div 64 \<in> {2, 3}" using False div_le_mono [of 128 ?n 64] div_le_mono [of ?n 255 64] code_less [of c] by auto
    have "64 * ((192 + ?n div 64) mod 32) + (128 + ?n mod 64) mod 64 = ?n"
      using n by (intro two_bytes) auto
    then show ?thesis using n False IH by (auto simp: utf8_encode_def utf8_char_def char_of_code)
  qed (simp add: utf8_encode_def utf8_char_def IH)
qed (simp add: utf8_encode_def)

lemma utf8_encode_Nil [simp]: "utf8_encode s = [] \<longleftrightarrow> s = []"
  by (cases s) (auto simp: utf8_encode_def utf8_char_def)

lemma utf8_encode_inject [simp]: "utf8_encode s = utf8_encode t \<longleftrightarrow> s = t"
  by (metis option.inject utf8_decode_encode)

subsection \<open>base64url\<close>

definition b64_char :: "nat \<Rightarrow> char" where
  "b64_char n = char_of (if n < 26 then 65 + n else if n < 52 then 71 + n else if n < 62 then n - 4
     else if n = 62 then 45 else 95)"

definition b64_val :: "char \<Rightarrow> nat option" where
  "b64_val c =
     (let n = code c
      in if 65 \<le> n \<and> n \<le> 90 then Some (n - 65)
         else if 97 \<le> n \<and> n \<le> 122 then Some (n - 71)
         else if 48 \<le> n \<and> n \<le> 57 then Some (n + 4)
         else if n = 45 \<or> n = 43 then Some 62
         else if n = 95 \<or> n = 47 then Some 63
         else None)"

fun b64_encode :: "string \<Rightarrow> string" where
  "b64_encode [] = []"
| "b64_encode [a] = [b64_char (code a div 4), b64_char (code a mod 4 * 16)]"
| "b64_encode [a, b] =
     [b64_char (code a div 4), b64_char (code a mod 4 * 16 + code b div 16), b64_char (code b mod 16 * 4)]"
| "b64_encode (a # b # c # s) =
     b64_char (code a div 4) # b64_char (code a mod 4 * 16 + code b div 16) #
     b64_char (code b mod 16 * 4 + code c div 64) # b64_char (code c mod 64) # b64_encode s"

fun b64_bytes :: "nat list \<Rightarrow> string" where
  "b64_bytes (w # x # y # z # s) =
     char_of (w * 4 + x div 16) # char_of (x mod 16 * 16 + y div 4) # char_of (y mod 4 * 64 + z) # b64_bytes s"
| "b64_bytes [w, x, y] = [char_of (w * 4 + x div 16), char_of (x mod 16 * 16 + y div 4)]"
| "b64_bytes [w, x] = [char_of (w * 4 + x div 16)]"
| "b64_bytes [w] = []"
| "b64_bytes [] = []"

definition b64_decode :: "string \<Rightarrow> string" where
  "b64_decode s = b64_bytes (List.map_filter b64_val s)"

lemma b64_val_char: "n < 64 \<Longrightarrow> b64_val (b64_char n) = Some n"
  by (auto simp: b64_val_def b64_char_def Let_def)

lemma map_filter_b64:
  "n < 64 \<Longrightarrow> List.map_filter b64_val (b64_char n # s) = n # List.map_filter b64_val s"
  by (simp add: List.map_filter_simps b64_val_char)

lemma sextets:
  "code a div 4 < 64" "code a mod 4 * 16 + code b div 16 < 64" "code b mod 16 * 4 + code c div 64 < 64"
  "code a mod 4 * 16 < 64" "code b mod 16 * 4 < 64"
proof -
  have 1: "code x div 4 < 64" "code x div 16 < 16" "code x div 64 < 4" "code x mod 4 < 4" "code x mod 16 < 16" for x
    using code_less [of x] by (simp_all add: less_mult_imp_div_less)
  show "code a div 4 < 64" "code a mod 4 * 16 + code b div 16 < 64" "code b mod 16 * 4 + code c div 64 < 64"
    "code a mod 4 * 16 < 64" "code b mod 16 * 4 < 64"
    using 1 [of a] 1 [of b] 1 [of c] by linarith+
qed

lemma bytes_of_sextets:
  "code a div 4 * 4 + (code a mod 4 * 16 + code b div 16) div 16 = code a"
  "(code a mod 4 * 16 + code b div 16) mod 16 * 16 + (code b mod 16 * 4 + code c div 64) div 4 = code b"
  "(code b mod 16 * 4 + code c div 64) mod 4 * 64 + code c mod 64 = code c"
proof -
  have 1: "code x div 16 < 16" "code x div 64 < 4" for x
    using code_less [of x] by (simp_all add: less_mult_imp_div_less)
  show "code a div 4 * 4 + (code a mod 4 * 16 + code b div 16) div 16 = code a"
    "(code a mod 4 * 16 + code b div 16) mod 16 * 16 + (code b mod 16 * 4 + code c div 64) div 4 = code b"
    "(code b mod 16 * 4 + code c div 64) mod 4 * 64 + code c mod 64 = code c"
    using 1 [of b] 1 [of c] by (simp_all add: algebra_simps)
qed

lemma b64_decode_encode [simp]: "b64_decode (b64_encode s) = s"
proof -
  have "b64_bytes (List.map_filter b64_val (b64_encode s)) = s"
  proof (induction s rule: b64_encode.induct)
    case (2 a)
    show ?case using bytes_of_sextets(1) [of a "CHR 0x00"] sextets
      by (simp add: map_filter_b64 b64_val_char)
  next
    case (3 a b)
    show ?case using bytes_of_sextets(1) [of a b] bytes_of_sextets(2) [of a b "CHR 0x00"] sextets
      by (simp add: map_filter_b64 b64_val_char)
  next
    case (4 a b c s)
    then show ?case using bytes_of_sextets(1) [of a b] bytes_of_sextets(2) [of a b c] bytes_of_sextets(3) [of b c]
        sextets
      by (simp add: map_filter_b64 b64_val_char)
  qed (simp add: List.map_filter_simps)
  then show ?thesis by (simp add: b64_decode_def)
qed

text \<open>The alphabet holds none of the separators of the formats that embed it.\<close>

lemma b64_char_plain: "n < 64 \<Longrightarrow> b64_char n \<notin> {CHR ''.'', CHR ''|'', CHR '':'', CHR '';'', CHR ''='', CHR '' ''}"
proof -
  assume "n < 64"
  then have "b64_val (b64_char n) = Some n" by (rule b64_val_char)
  moreover have "b64_val x = None" if "x \<in> {CHR ''.'', CHR ''|'', CHR '':'', CHR '';'', CHR ''='', CHR '' ''}" for x
    using that by (auto simp: b64_val_def)
  ultimately show ?thesis by fastforce
qed

lemma b64_encode_chars: "set (b64_encode s) \<subseteq> b64_char ` {..<64}"
  by (induction s rule: b64_encode.induct) (auto intro!: imageI intro: sextets)

lemma b64_encode_plain:
  "c \<in> set (b64_encode s) \<Longrightarrow> c \<notin> {CHR ''.'', CHR ''|'', CHR '':'', CHR '';'', CHR ''='', CHR '' ''}"
proof -
  assume "c \<in> set (b64_encode s)"
  then obtain n where "n < 64" "c = b64_char n" using b64_encode_chars [of s] by auto
  then show ?thesis using b64_char_plain [of n] by simp
qed

lemma b64_encode_Nil [simp]: "b64_encode s = [] \<longleftrightarrow> s = []"
  by (cases s rule: b64_encode.cases) simp_all

lemma b64_encode_inject [simp]: "b64_encode s = b64_encode t \<longleftrightarrow> s = t"
  by (metis b64_decode_encode)

text \<open>The lower-case hex of 32 bytes.\<close>

definition hash_shape :: "string \<Rightarrow> bool" where
  "hash_shape h \<longleftrightarrow> length h = 64 \<and>
     list_all (\<lambda>c. (48 \<le> code c \<and> code c \<le> 57) \<or> (97 \<le> code c \<and> code c \<le> 102)) h"

end
