(* ===== verification/Legal_Documents.thy ===== *)
theory Legal_Documents
  imports Api_Errors Js_Bytes
begin

text \<open>
  The legal documents of a build and what a subject still owes:
  \<^verbatim>\<open>apps/bff/src/lib/legal-documents.ts\<close> and the source of their text,
  \<^verbatim>\<open>apps/bff/src/lib/legal-source.ts\<close>. The registry of a build is an argument, the digest and
  the file system are parameters.
\<close>

subsection \<open>Documents\<close>

record legal_document =
  ld_id :: string
  ld_path :: string
  ld_version :: string
  ld_consentEpoch :: int
  ld_material :: bool
  ld_contentSha256 :: string
  ld_url :: string
  ld_effectiveAt :: "string option"
  ld_notes :: string

definition legalVersionPath :: "string \<Rightarrow> string \<Rightarrow> string" where
  "legalVersionPath documentId version = ''/v1/legal/'' @ documentId @ ''/versions/'' @ version"

definition legalCurrentPath :: "string \<Rightarrow> string" where
  "legalCurrentPath documentId = ''/v1/legal/'' @ documentId"

definition CANONICAL_ORIGIN :: string where
  "CANONICAL_ORIGIN = ''https://api.pull.fm''"

definition legalVersionUrl :: "string \<Rightarrow> string \<Rightarrow> string" where
  "legalVersionUrl documentId version = CANONICAL_ORIGIN @ legalVersionPath documentId version"

definition consentDocument :: "legal_document \<Rightarrow> legal_document" where
  "consentDocument entry = entry\<lparr>ld_url := legalVersionUrl (ld_id entry) (ld_version entry)\<rparr>"

definition findLegalDocument :: "legal_document list \<Rightarrow> string \<Rightarrow> legal_document option" where
  "findLegalDocument documents i = List.find (\<lambda>d. ld_id d = i) documents"

definition toWireDocument :: "legal_document \<Rightarrow> string option \<Rightarrow> json" where
  "toWireDocument doc publishedAt =
     JObj [(''documentId'', JStr (ld_id doc)), (''version'', JStr (ld_version doc)),
           (''consentEpoch'', JNum (ld_consentEpoch doc)), (''contentSha256'', JStr (ld_contentSha256 doc)),
           (''url'', JStr (ld_url doc)),
           (''effectiveAt'', case ld_effectiveAt doc of None \<Rightarrow> JNull | Some t \<Rightarrow> JStr t),
           (''publishedAt'', case publishedAt of None \<Rightarrow> JNull | Some t \<Rightarrow> JStr t)]"

subsection \<open>The canonical text\<close>

abbreviation LF :: char where "LF \<equiv> CHR 0x0A"

abbreviation CR :: char where "CR \<equiv> CHR 0x0D"

fun fold_crlf :: "string \<Rightarrow> string" where
  "fold_crlf [] = []"
| "fold_crlf [c] = [if c = CR then LF else c]"
| "fold_crlf (c # d # s) =
     (if c = CR then LF # (if d = LF then fold_crlf s else fold_crlf (d # s)) else c # fold_crlf (d # s))"

definition blank :: "char \<Rightarrow> bool" where
  "blank c \<longleftrightarrow> c = CHR '' '' \<or> c = CHR 0x09"

definition strip_right :: "(char \<Rightarrow> bool) \<Rightarrow> string \<Rightarrow> string" where
  "strip_right P s = rev (dropWhile P (rev s))"

definition one_newline :: "string \<Rightarrow> string" where
  "one_newline s = (if s \<noteq> [] \<and> last s = LF then strip_right ((=) LF) s @ [LF] else s)"

definition normalizeLegalText :: "string \<Rightarrow> string" where
  "normalizeLegalText raw = one_newline (js_join [LF] (map (strip_right blank) (js_split LF (fold_crlf raw))))"

definition legalDigest :: "(string \<Rightarrow> string) \<Rightarrow> string \<Rightarrow> string" where
  "legalDigest sha256Hex raw = sha256Hex (utf8_encode (normalizeLegalText raw))"

subsection \<open>The consent gap\<close>

type_synonym accepted_epochs = "(string \<times> int) list"

record consent_gap =
  cg_satisfied :: bool
  cg_reason :: "consent_reason option"
  cg_outstanding :: "legal_document list"

definition owes :: "accepted_epochs \<Rightarrow> legal_document \<Rightarrow> bool" where
  "owes accepted doc = (case map_of accepted (ld_id doc) of None \<Rightarrow> True | Some have \<Rightarrow> have < ld_consentEpoch doc)"

definition consentGap :: "legal_document list \<Rightarrow> accepted_epochs \<Rightarrow> consent_gap" where
  "consentGap documents accepted =
     (let outstanding = filter (owes accepted) documents;
          anyNeverAccepted = list_ex (\<lambda>doc. map_of accepted (ld_id doc) = None) documents
      in if outstanding = [] then \<lparr>cg_satisfied = True, cg_reason = None, cg_outstanding = []\<rparr>
         else \<lparr>cg_satisfied = False, cg_reason = Some (if anyNeverAccepted then Never_accepted else Revision_pending),
               cg_outstanding = outstanding\<rparr>)"

lemma gap_satisfied: "cg_satisfied (consentGap documents accepted) \<longleftrightarrow> (\<forall>doc \<in> set documents. \<not> owes accepted doc)"
  by (auto simp: consentGap_def Let_def filter_empty_conv)

lemma gap_outstanding: "cg_outstanding (consentGap documents accepted) = filter (owes accepted) documents"
  by (simp add: consentGap_def Let_def)

lemma gap_pending:
  "cg_reason (consentGap documents accepted) = Some Revision_pending \<longleftrightarrow>
     (\<exists>doc \<in> set documents. owes accepted doc) \<and> (\<forall>doc \<in> set documents. map_of accepted (ld_id doc) \<noteq> None)"
  by (auto simp: consentGap_def Let_def filter_empty_conv list_ex_iff)

text \<open>A material revision makes a subject who owed nothing owe again, and a cosmetic one does not.\<close>

lemma revision_reopens:
  assumes "cg_satisfied (consentGap documents accepted)" "doc \<in> set documents" "map_of accepted (ld_id doc) = Some e"
    and "e < epoch" "docs' = map (\<lambda>d. if d = doc then d\<lparr>ld_consentEpoch := epoch\<rparr> else d) documents"
    "\<forall>d \<in> set documents. map_of accepted (ld_id d) \<noteq> None"
  shows "cg_reason (consentGap docs' accepted) = Some Revision_pending"
  using assms by (auto simp: gap_pending owes_def)

lemma cosmetic_keeps:
  "cg_satisfied (consentGap documents accepted) \<Longrightarrow>
   cg_satisfied (consentGap (map (\<lambda>d. d\<lparr>ld_version := v, ld_contentSha256 := h, ld_url := u\<rparr>) documents) accepted)"
  by (auto simp: gap_satisfied owes_def split: option.splits)

subsection \<open>The source of the text\<close>

type_synonym legal_source = "legal_document \<Rightarrow> string option"

definition noLegalTextSource :: legal_source where
  "noLegalTextSource doc = None"

text \<open>\<open>readFile base path\<close> is \<open>None\<close> when the file cannot be read; \<open>exists\<close> is the probe.\<close>

definition resolveLegalRoot :: "string option \<Rightarrow> string list \<Rightarrow> (string \<Rightarrow> bool) \<Rightarrow> string option" where
  "resolveLegalRoot override candidates exists =
     (case override of
        Some d \<Rightarrow> if d \<noteq> [] then Some d else List.find exists candidates
      | None \<Rightarrow> List.find exists candidates)"

definition fileSystemLegalSource ::
  "(string \<Rightarrow> string) \<Rightarrow> string option \<Rightarrow> (string \<Rightarrow> string \<Rightarrow> string option) \<Rightarrow> legal_source" where
  "fileSystemLegalSource sha base readFile doc =
     (case base of
        None \<Rightarrow> None
      | Some r \<Rightarrow>
          (case readFile r (ld_path doc) of
             None \<Rightarrow> None
           | Some raw \<Rightarrow>
               let normal = normalizeLegalText raw
               in if legalDigest sha normal \<noteq> ld_contentSha256 doc then None else Some normal))"

subsection \<open>The canonical text is a fixed point\<close>

lemma fold_crlf_no_CR: "CR \<notin> set (fold_crlf s)"
  by (induction s rule: fold_crlf.induct) auto

lemma fold_crlf_id: "CR \<notin> set s \<Longrightarrow> fold_crlf s = s"
  by (induction s rule: fold_crlf.induct) auto

lemma js_split_no: "l \<in> set (js_split c s) \<Longrightarrow> c \<notin> set l"
  by (induction s arbitrary: l) (auto split: list.splits if_splits)

lemma js_split_set: "l \<in> set (js_split c s) \<Longrightarrow> set l \<subseteq> set s"
  by (induction s arbitrary: l) (auto split: list.splits if_splits, blast+)

lemma js_split_join: "ls \<noteq> [] \<Longrightarrow> \<forall>l \<in> set ls. c \<notin> set l \<Longrightarrow> js_split c (js_join [c] ls) = ls"
proof (induction ls rule: induct_list012)
  case (3 x y zs)
  then show ?case by (simp add: js_split_append)
qed (simp_all add: js_split_plain)

lemma strip_right_set: "set (strip_right P s) \<subseteq> set s"
  by (auto simp: strip_right_def dest: set_dropWhileD)

lemma strip_right_idem [simp]: "strip_right P (strip_right P s) = strip_right P s"
  by (simp add: strip_right_def)

lemma strip_right_last: "strip_right P s \<noteq> [] \<Longrightarrow> \<not> P (last (strip_right P s))"
  by (simp add: strip_right_def last_rev hd_dropWhile)

lemma one_newline_idem: "one_newline (one_newline s) = one_newline s"
proof (cases "s \<noteq> [] \<and> last s = LF")
  case True
  have "strip_right ((=) LF) (strip_right ((=) LF) s @ [LF]) = strip_right ((=) LF) s"
    by (simp add: strip_right_def)
  then show ?thesis using True by (simp add: one_newline_def)
qed (auto simp: one_newline_def)

text \<open>The lines of a text that ends in newlines, after all but one are cut.\<close>

lemma one_newline_lines:
  assumes "\<forall>l \<in> set (js_split LF s). strip_right blank l = l"
  shows "\<forall>l \<in> set (js_split LF (one_newline s)). strip_right blank l = l"
proof (cases "s \<noteq> [] \<and> last s = LF")
  case True
  define t where "t = strip_right ((=) LF) s"
  have s: "s = t @ replicate (length s - length t) LF"
  proof -
    have "s = rev (dropWhile ((=) LF) (rev s)) @ rev (takeWhile ((=) LF) (rev s))"
      by (metis rev_append rev_rev_ident takeWhile_dropWhile_id)
    moreover have "takeWhile ((=) LF) (rev s) = replicate (length (takeWhile ((=) LF) (rev s))) LF"
      by (metis (full_types) replicate_length_same set_takeWhileD)
    ultimately show ?thesis unfolding t_def strip_right_def
      by (metis add_diff_cancel_left' length_append length_replicate rev_replicate)
  qed
  have splits: "js_split LF (u @ LF # v) = js_split LF u @ js_split LF v" for u v
    by (induction u) (simp_all split: list.split)
  have "length s - length t \<noteq> 0"
    using True s by (metis append_Nil2 length_0_conv replicate_0 strip_right_last t_def)
  then obtain n where "s = t @ LF # replicate n LF" using s by (metis not0_implies_Suc replicate_Suc)
  then have "set (js_split LF t) \<subseteq> set (js_split LF s)" by (simp add: splits)
  then show ?thesis
    using assms True splits [of t "[]"] by (auto simp: one_newline_def t_def strip_right_def)
qed (use assms in \<open>auto simp: one_newline_def\<close>)

lemma normalizeLegalText_idem: "normalizeLegalText (normalizeLegalText raw) = normalizeLegalText raw"
proof -
  let ?ls = "map (strip_right blank) (js_split LF (fold_crlf raw))"
  let ?t = "js_join [LF] ?ls"
  have lf: "\<forall>l \<in> set ?ls. LF \<notin> set l" using js_split_no strip_right_set by fastforce
  then have split: "js_split LF ?t = ?ls" by (intro js_split_join) simp_all
  have join_set: "set (js_join [LF] ls) \<subseteq> insert LF (\<Union>l \<in> set ls. set l)" for ls
    by (induction ls rule: induct_list012) auto
  have cr: "CR \<notin> set ?t"
  proof
    assume "CR \<in> set ?t"
    then obtain l where "l \<in> set (js_split LF (fold_crlf raw))" "CR \<in> set (strip_right blank l)"
      using join_set [of ?ls] by auto
    then have "CR \<in> set (fold_crlf raw)" using strip_right_set [of blank l] js_split_set [of l LF "fold_crlf raw"] by blast
    then show False using fold_crlf_no_CR by blast
  qed
  have n: "normalizeLegalText raw = one_newline ?t" by (simp add: normalizeLegalText_def)
  have "CR \<notin> set (one_newline ?t)" using cr strip_right_set [of "(=) LF" ?t] by (auto simp: one_newline_def)
  then have fold: "fold_crlf (one_newline ?t) = one_newline ?t" by (rule fold_crlf_id)
  have "\<forall>l \<in> set (js_split LF ?t). strip_right blank l = l" by (simp add: split)
  from one_newline_lines [OF this] have "map (strip_right blank) (js_split LF (one_newline ?t)) = js_split LF (one_newline ?t)"
    by (simp add: map_idI)
  moreover have "js_join [c] (js_split c u) = u" for c u
  proof (induction u)
    case (Cons a u)
    have "js_join [c] ((a # x) # xs) = a # js_join [c] (x # xs)" for x xs by (cases xs) simp_all
    with Cons show ?case by (cases "js_split c u") simp_all
  qed simp
  ultimately show ?thesis unfolding n by (simp add: normalizeLegalText_def fold one_newline_idem)
qed

text \<open>A final newline is part of the canonical text when there is one: adding the first changes the digest.\<close>

lemma final_newline_counts: "normalizeLegalText ''a'' \<noteq> normalizeLegalText (''a'' @ [LF])"
  by code_simp

text \<open>What a source produces hashes to the digest of the registry, by itself and normalised.\<close>

lemma source_digest:
  assumes "fileSystemLegalSource sha base readFile doc = Some text"
  shows "sha (utf8_encode text) = ld_contentSha256 doc" and "legalDigest sha text = ld_contentSha256 doc"
  using assms by (auto simp: fileSystemLegalSource_def legalDigest_def normalizeLegalText_idem Let_def split: option.splits if_splits)

end
