(* ===== verification/Js_Sort.thy ===== *)
theory Js_Sort
  imports Pf_Prelude Complex_Main "HOL-Library.Multiset"
begin

text \<open>
  \<open>Array.prototype.sort\<close>. The language fixes its result when the comparator is consistent:
  the elements in comparator order, equal ones in the order they came. Inserting from the
  right gives that result, and the locale states what a consistent comparator is.
\<close>

fun js_insert :: "('a \<Rightarrow> 'a \<Rightarrow> real) \<Rightarrow> 'a \<Rightarrow> 'a list \<Rightarrow> 'a list" where
  "js_insert cmp x [] = [x]"
| "js_insert cmp x (y # ys) = (if cmp x y \<le> 0 then x # y # ys else y # js_insert cmp x ys)"

definition js_sort :: "('a \<Rightarrow> 'a \<Rightarrow> real) \<Rightarrow> 'a list \<Rightarrow> 'a list" where
  "js_sort cmp xs = foldr (js_insert cmp) xs []"

lemma js_sort_simps [simp]:
  "js_sort cmp [] = []"
  "js_sort cmp (x # xs) = js_insert cmp x (js_sort cmp xs)"
  by (simp_all add: js_sort_def)

lemma mset_js_insert [simp]: "mset (js_insert cmp x xs) = add_mset x (mset xs)"
  by (induction xs) auto

lemma mset_js_sort [simp]: "mset (js_sort cmp xs) = mset xs"
  by (induction xs) auto

lemma set_js_sort [simp]: "set (js_sort cmp xs) = set xs"
  by (rule mset_eq_setD) simp

lemma length_js_sort [simp]: "length (js_sort cmp xs) = length xs"
  by (rule mset_eq_length) simp

lemma distinct_js_sort [simp]: "distinct (js_sort cmp xs) = distinct xs"
  by (rule mset_eq_imp_distinct_iff) simp

lemma distinct_map_js_sort [simp]: "distinct (map f (js_sort cmp xs)) = distinct (map f xs)"
  by (rule mset_eq_imp_distinct_iff) simp

locale js_comparator =
  fixes cmp :: "'a \<Rightarrow> 'a \<Rightarrow> real"
  assumes cmp_flip: "sgn (cmp y x) = - sgn (cmp x y)"
    and cmp_trans: "cmp x y \<le> 0 \<Longrightarrow> cmp y z \<le> 0 \<Longrightarrow> cmp x z \<le> 0"
begin

lemma cmp_total: "\<not> cmp x y \<le> 0 \<Longrightarrow> cmp y x \<le> 0"
  using cmp_flip [of y x] by (simp add: sgn_if split: if_splits)

lemma cmp_refl: "cmp x x = 0"
  using cmp_flip [of x x] by (simp add: sgn_if split: if_splits)

lemma insert_sorted:
  "sorted_wrt (\<lambda>x y. cmp x y \<le> 0) xs \<Longrightarrow> sorted_wrt (\<lambda>x y. cmp x y \<le> 0) (js_insert cmp x xs)"
proof (induction xs)
  case (Cons y ys)
  have sub: "set (js_insert cmp x ys) = insert x (set ys)"
    using mset_js_insert [of cmp x ys] by (metis set_mset_mset set_mset_add_mset_insert)
  show ?case
  proof (cases "cmp x y \<le> 0")
    case True
    with Cons.prems show ?thesis by (auto intro: cmp_trans)
  next
    case False
    with Cons cmp_total [OF False] show ?thesis by (simp add: sub)
  qed
qed simp

theorem sort_sorted: "sorted_wrt (\<lambda>x y. cmp x y \<le> 0) (js_sort cmp xs)"
  by (induction xs) (simp_all add: insert_sorted)

lemma filter_insert:
  "sorted_wrt (\<lambda>x y. cmp x y \<le> 0) xs \<Longrightarrow>
     filter P (js_insert cmp x xs) = (if P x then js_insert cmp x (filter P xs) else filter P xs)"
proof (induction xs)
  case (Cons y ys)
  have "js_insert cmp x zs = x # zs" if "\<forall>z \<in> set zs. cmp x z \<le> 0" for zs
    using that by (cases zs) simp_all
  then have "js_insert cmp x (filter P ys) = x # filter P ys" if "cmp x y \<le> 0"
  proof -
    have "\<forall>z \<in> set (filter P ys). cmp x z \<le> 0" using that Cons.prems cmp_trans [of x y] by simp
    then show ?thesis by (rule \<open>\<And>zs. \<forall>z \<in> set zs. cmp x z \<le> 0 \<Longrightarrow> js_insert cmp x zs = x # zs\<close>)
  qed
  with Cons show ?case by auto
qed simp

text \<open>Sorting commutes with filtering.\<close>

lemma filter_sort: "filter P (js_sort cmp xs) = js_sort cmp (filter P xs)"
  by (induction xs) (simp_all add: filter_insert sort_sorted)

text \<open>What comes after an element of a strictly sorted list.\<close>

lemma after_nth:
  "sorted_wrt (\<lambda>x y. cmp x y < 0) xs \<Longrightarrow> k < length xs \<Longrightarrow> filter (\<lambda>y. cmp (xs ! k) y < 0) xs = drop (Suc k) xs"
proof (induction xs arbitrary: k)
  case (Cons x xs)
  have all: "\<forall>y \<in> set xs. cmp x y < 0" using Cons.prems by simp
  show ?case
  proof (cases k)
    case 0
    have "filter (\<lambda>y. cmp x y < 0) xs = xs" using all by (simp add: filter_id_conv)
    then show ?thesis using 0 cmp_refl [of x] by simp
  next
    case (Suc j)
    then have "xs ! j \<in> set xs" using Cons.prems by simp
    with all have "cmp x (xs ! j) < 0" by blast
    then have "\<not> cmp (xs ! j) x < 0" using cmp_flip [of x "xs ! j"] by (simp add: sgn_if split: if_splits)
    then show ?thesis using Cons Suc by simp
  qed
qed simp

text \<open>Elements the comparator cannot tell apart keep their order.\<close>

lemma insert_stable:
  "filter (\<lambda>y. cmp z y = 0) (js_insert cmp x xs) = filter (\<lambda>y. cmp z y = 0) (x # xs)"
proof (induction xs)
  case (Cons y ys)
  have "\<not> (cmp z x = 0 \<and> cmp z y = 0)" if "\<not> cmp x y \<le> 0"
  proof
    assume e: "cmp z x = 0 \<and> cmp z y = 0"
    then have "cmp x z \<le> 0" using cmp_flip [of x z] by (simp add: sgn_if split: if_splits)
    with e have "cmp x y \<le> 0" using cmp_trans [of x z y] by simp
    with that show False by simp
  qed
  with Cons show ?case by auto
qed simp

lemma sort_stable: "filter (\<lambda>y. cmp z y = 0) (js_sort cmp xs) = filter (\<lambda>y. cmp z y = 0) xs"
  by (induction xs) (simp_all add: insert_stable)

end

subsection \<open>The default order\<close>

text \<open>Without a comparator the elements are compared as strings, unit by unit.\<close>

fun code_units :: "nat list \<Rightarrow> nat list \<Rightarrow> real" where
  "code_units [] [] = 0"
| "code_units [] (y # ys) = -1"
| "code_units (x # xs) [] = 1"
| "code_units (x # xs) (y # ys) = (if x < y then -1 else if y < x then 1 else code_units xs ys)"

lemma code_units_flip: "code_units y x = - code_units x y"
  by (induction x y rule: code_units.induct) auto

lemma code_units_trans: "code_units x y \<le> 0 \<Longrightarrow> code_units y z \<le> 0 \<Longrightarrow> code_units x z \<le> 0"
proof (induction x y arbitrary: z rule: code_units.induct)
  case (1 z)
  then show ?case by simp
next
  case (2 y ys)
  then show ?case by (cases z) simp_all
next
  case (3 x xs)
  then show ?case by simp
next
  case (4 x xs y ys)
  show ?case
  proof (cases z)
    case Nil
    with 4 show ?thesis by simp
  next
    case (Cons w ws)
    have "x \<le> y" "y \<le> w" using 4(2,3) Cons by (simp_all split: if_splits)
    then consider "x < w" | "x = y" "y = w" by linarith
    then show ?thesis
    proof cases
      case 2
      then show ?thesis using 4 Cons by simp
    qed (simp add: Cons)
  qed
qed

interpretation units: js_comparator code_units
proof unfold_locales
  show "sgn (code_units y x) = - sgn (code_units x y)" for x y
    by (subst code_units_flip) (rule sgn_minus)
qed (rule code_units_trans)

lemma code_units_0 [simp]: "code_units x y = 0 \<longleftrightarrow> x = y"
  by (induction x y rule: code_units.induct) auto

text \<open>Sorting distinct strings by the default order depends on their set only.\<close>

lemma sorted_wrt_unique:
  "\<forall>a \<in> set xs. \<forall>b \<in> set xs. R a b \<longrightarrow> R b a \<longrightarrow> a = b \<Longrightarrow>
     sorted_wrt R xs \<Longrightarrow> sorted_wrt R ys \<Longrightarrow> mset xs = mset ys \<Longrightarrow> xs = ys"
proof (induction xs arbitrary: ys)
  case (Cons x xs)
  then obtain y zs where ys: "ys = y # zs" by (cases ys) auto
  have m: "x \<in> set ys" "y \<in> set (x # xs)"
    using mset_eq_setD [OF Cons.prems(4)] ys by auto
  then have "x = y" using Cons.prems(1-3) ys by auto
  with Cons ys show ?case by simp
qed simp

lemma default_sort_unique:
  assumes "set xs = set ys" "distinct xs" "distinct ys"
  shows "js_sort code_units xs = js_sort code_units ys"
proof (rule sorted_wrt_unique [OF _ units.sort_sorted units.sort_sorted], intro ballI impI)
  show "mset (js_sort code_units xs) = mset (js_sort code_units ys)"
    using assms by (simp add: set_eq_iff_mset_eq_distinct)
next
  fix a b assume "code_units a b \<le> 0" "code_units b a \<le> 0"
  then show "a = b" using code_units_flip [of a b] code_units_0 [of a b] by linarith
qed

end
