(* ===== verification/Legal_Consent.thy ===== *)
theory Legal_Consent
  imports Legal_Documents Js_Sort
begin

text \<open>
  Recorded assent: \<^verbatim>\<open>apps/bff/src/services/legal-consent.ts\<close> on the two tables of
  \<^verbatim>\<open>packages/db/migrations/0008_legal_consent.sql\<close> and \<^verbatim>\<open>0009_legal_revision_content.sql\<close>, with their
  triggers and checks. A process is a registry of documents, a source of their text and the
  memo of its publication; several processes, of one build or of several, share the tables.
\<close>

subsection \<open>The tables\<close>

record revision_row =
  rv_documentId :: string
  rv_version :: string
  rv_epoch :: int
  rv_sha256 :: string
  rv_material :: bool
  rv_url :: string
  rv_publishedAt :: time
  rv_effectiveAt :: "string option"
  rv_notes :: string
  rv_content :: "string option"

record consent_row =
  cn_userId :: string
  cn_documentId :: string
  cn_version :: string
  cn_epoch :: int
  cn_sha256 :: string
  cn_acceptedAt :: time
  cn_gate :: string
  cn_clientBuild :: "string option"
  cn_clientPlatform :: "string option"
  cn_userAgent :: "string option"
  cn_ip :: "string option"
  cn_authMethod :: string
  cn_sessionId :: "string option"

definition lower_char_or_digit :: "char \<Rightarrow> bool" where
  "lower_char_or_digit c \<longleftrightarrow> (let n = code c in (97 \<le> n \<and> n \<le> 122) \<or> (48 \<le> n \<and> n \<le> 57))"

definition id_shape :: "string \<Rightarrow> bool" where
  "id_shape s \<longleftrightarrow> (case s of [] \<Rightarrow> False | c # r \<Rightarrow> 97 \<le> code c \<and> code c \<le> 122 \<and> 2 \<le> length r \<and> length r \<le> 63 \<and>
     list_all (\<lambda>d. lower_char_or_digit d \<or> d = CHR ''-'') r)"

definition version_shape :: "string \<Rightarrow> bool" where
  "version_shape s \<longleftrightarrow> (let alnum = (\<lambda>c. lower_char_or_digit c \<or> (65 \<le> code c \<and> code c \<le> 90)) in
     case s of [] \<Rightarrow> False | c # r \<Rightarrow> alnum c \<and> length r \<le> 63 \<and>
       list_all (\<lambda>d. alnum d \<or> d = CHR ''.'' \<or> d = CHR ''_'' \<or> d = CHR ''-'') r)"

definition content_check :: "(string \<Rightarrow> string) \<Rightarrow> revision_row \<Rightarrow> bool" where
  "content_check sha r = (case rv_content r of None \<Rightarrow> True | Some c \<Rightarrow> c \<noteq> [] \<and> sha (utf8_encode c) = rv_sha256 r)"

definition revision_checks :: "(string \<Rightarrow> string) \<Rightarrow> revision_row \<Rightarrow> bool" where
  "revision_checks sha r \<longleftrightarrow> id_shape (rv_documentId r) \<and> version_shape (rv_version r) \<and> hash_shape (rv_sha256 r) \<and>
     1 \<le> rv_epoch r \<and> content_check sha r"

definition revision_of :: "string \<Rightarrow> string \<Rightarrow> revision_row \<Rightarrow> bool" where
  "revision_of i v r \<longleftrightarrow> rv_documentId r = i \<and> rv_version r = v"

text \<open>The guard of the epochs, run before an insertion.\<close>

definition epoch_guard :: "revision_row \<Rightarrow> revision_row list \<Rightarrow> bool" where
  "epoch_guard r t \<longleftrightarrow>
     (if list_ex (revision_of (rv_documentId r) (rv_version r)) t then True
      else case map rv_epoch (filter (\<lambda>x. rv_documentId x = rv_documentId r) t) of
        [] \<Rightarrow> rv_epoch r = 1 \<and> rv_material r
      | e # es \<Rightarrow> let prev = foldl max e es in
          if rv_epoch r = prev then \<not> rv_material r
          else if rv_epoch r = prev + 1 then rv_material r
          else False)"

text \<open>An insertion that does nothing on a conflict; \<open>None\<close> when the guard or a check raises.\<close>

definition revision_insert :: "(string \<Rightarrow> string) \<Rightarrow> revision_row \<Rightarrow> revision_row list \<Rightarrow> revision_row list option" where
  "revision_insert sha r t =
     (if \<not> epoch_guard r t \<or> \<not> revision_checks sha r then None
      else if list_ex (revision_of (rv_documentId r) (rv_version r)) t then Some t
      else Some (t @ [r]))"

definition fill_content :: "(string \<Rightarrow> string) \<Rightarrow> string \<Rightarrow> string \<Rightarrow> string \<Rightarrow> revision_row list \<Rightarrow> revision_row list option" where
  "fill_content sha i v body t =
     (let hit = (\<lambda>r. revision_of i v r \<and> rv_content r = None);
          t' = map (\<lambda>r. if hit r then r\<lparr>rv_content := Some body\<rparr> else r) t
      in if list_all (\<lambda>r. hit r \<longrightarrow> content_check sha (r\<lparr>rv_content := Some body\<rparr>)) t then Some t' else None)"

subsection \<open>Publishing\<close>

record legal_service =
  lg_documents :: "legal_document list"
  lg_publishedDocuments :: "legal_document list"
  lg_source :: legal_source

definition lg_new :: "legal_document list \<Rightarrow> legal_source \<Rightarrow> legal_document list \<Rightarrow> legal_service" where
  "lg_new documents source alsoPublished =
     \<lparr>lg_documents = documents, lg_publishedDocuments = documents @ alsoPublished, lg_source = source\<rparr>"

definition revision_row_of :: "time \<Rightarrow> legal_document \<Rightarrow> string option \<Rightarrow> revision_row" where
  "revision_row_of now doc txt =
     \<lparr>rv_documentId = ld_id doc, rv_version = ld_version doc, rv_epoch = ld_consentEpoch doc,
      rv_sha256 = ld_contentSha256 doc, rv_material = ld_material doc, rv_url = ld_url doc, rv_publishedAt = now,
      rv_effectiveAt = ld_effectiveAt doc, rv_notes = ld_notes doc, rv_content = txt\<rparr>"

definition agrees :: "legal_document \<Rightarrow> revision_row \<Rightarrow> bool" where
  "agrees doc r \<longleftrightarrow> rv_sha256 r = ld_contentSha256 doc \<and> rv_epoch r = ld_consentEpoch doc \<and> rv_material r = ld_material doc"

text \<open>One document. The answer says whether nothing threw; the statements before a throw stay.\<close>

definition publish_one :: "(string \<Rightarrow> string) \<Rightarrow> legal_source \<Rightarrow> time \<Rightarrow> legal_document \<Rightarrow> revision_row list \<Rightarrow> bool \<times> revision_row list" where
  "publish_one sha source now doc t =
     (let txt = source doc in
      case revision_insert sha (revision_row_of now doc txt) t of
        None \<Rightarrow> (False, t)
      | Some t1 \<Rightarrow>
          (case List.find (revision_of (ld_id doc) (ld_version doc)) t1 of
             None \<Rightarrow> (False, t1)
           | Some stored \<Rightarrow>
               (case (if rv_content stored = None
                      then (case txt of None \<Rightarrow> Some t1 | Some c \<Rightarrow> fill_content sha (ld_id doc) (ld_version doc) c t1)
                      else Some t1) of
                  None \<Rightarrow> (False, t1)
                | Some t2 \<Rightarrow> (agrees doc stored, t2))))"

fun publish :: "(string \<Rightarrow> string) \<Rightarrow> legal_source \<Rightarrow> time \<Rightarrow> legal_document list \<Rightarrow> revision_row list \<Rightarrow> bool \<times> revision_row list" where
  "publish sha source now [] t = (True, t)"
| "publish sha source now (doc # docs) t =
     (case publish_one sha source now doc t of
        (False, t') \<Rightarrow> (False, t')
      | (True, t') \<Rightarrow> publish sha source now docs t')"

text \<open>\<open>memo\<close>: this process has published already.\<close>

definition ensureRevisions ::
  "(string \<Rightarrow> string) \<Rightarrow> legal_service \<Rightarrow> time \<Rightarrow> bool \<Rightarrow> revision_row list \<Rightarrow> bool \<times> bool \<times> revision_row list" where
  "ensureRevisions sha lg now memo t =
     (if memo then (True, True, t)
      else case publish sha (lg_source lg) now (lg_publishedDocuments lg) t of (ok, t') \<Rightarrow> (ok, ok, t'))"

definition publishedAt :: "(time \<Rightarrow> string) \<Rightarrow> revision_row list \<Rightarrow> (string \<times> string) list" where
  "publishedAt iso_text t = map (\<lambda>r. (rv_documentId r @ ''@'' @ rv_version r, iso_text (rv_publishedAt r))) t"

subsection \<open>Serving a text\<close>

datatype revision_text = Text_ok string string | Text_unknown | Text_unavailable

definition textFor ::
  "(string \<Rightarrow> string) \<Rightarrow> legal_service \<Rightarrow> string \<Rightarrow> string \<Rightarrow> revision_row list \<Rightarrow> revision_text" where
  "textFor sha lg documentId version t =
     (case List.find (revision_of documentId version) t of
        None \<Rightarrow> Text_unknown
      | Some row \<Rightarrow>
          (case (case rv_content row of
                   Some c \<Rightarrow> Some c
                 | None \<Rightarrow>
                     (case findLegalDocument (lg_publishedDocuments lg) documentId of
                        None \<Rightarrow> None
                      | Some current \<Rightarrow> if ld_version current = version then lg_source lg current else None)) of
             None \<Rightarrow> Text_unavailable
           | Some c \<Rightarrow> if legalDigest sha c \<noteq> rv_sha256 row then Text_unavailable else Text_ok c (legalDigest sha c)))"

subsection \<open>Acceptance\<close>

record acceptance =
  ac_documentId :: string
  ac_version :: string
  ac_contentSha256 :: string

record acceptance_context =
  ax_userId :: string
  ax_authMethod :: string
  ax_sessionId :: "string option"
  ax_ip :: "string option"
  ax_userAgent :: "string option"
  ax_clientBuild :: "string option"
  ax_clientPlatform :: "string option"

text \<open>The highest epoch of every document, over the rows of a user.\<close>

fun max_epochs :: "consent_row list \<Rightarrow> accepted_epochs" where
  "max_epochs [] = []"
| "max_epochs (c # cs) =
     (let rest = max_epochs cs in
      AList.update (cn_documentId c)
        (case map_of rest (cn_documentId c) of None \<Rightarrow> cn_epoch c | Some e \<Rightarrow> max (cn_epoch c) e) rest)"

definition acceptedEpochs :: "string \<Rightarrow> consent_row list \<Rightarrow> accepted_epochs" where
  "acceptedEpochs userId cs = max_epochs (filter (\<lambda>c. cn_userId c = userId) cs)"

definition newest_consent :: "consent_row \<Rightarrow> consent_row \<Rightarrow> real" where
  "newest_consent a b =
     (if cn_acceptedAt a \<noteq> cn_acceptedAt b then of_int (cn_acceptedAt b - cn_acceptedAt a)
      else code_units (map of_char (cn_documentId a)) (map of_char (cn_documentId b)))"

definition oldest_consent :: "consent_row \<Rightarrow> consent_row \<Rightarrow> real" where
  "oldest_consent a b = of_int (cn_acceptedAt a - cn_acceptedAt b)"

definition consent_history :: "string \<Rightarrow> consent_row list \<Rightarrow> consent_row list" where
  "consent_history userId cs = js_sort newest_consent (filter (\<lambda>c. cn_userId c = userId) cs)"

definition receiptFor :: "string \<Rightarrow> consent_row list \<Rightarrow> consent_row list" where
  "receiptFor userId cs = js_sort oldest_consent (filter (\<lambda>c. cn_userId c = userId) cs)"

text \<open>The part of a row that is shown and kept in the receipt.\<close>

record consent_record =
  ce_documentId :: string
  ce_version :: string
  ce_consentEpoch :: int
  ce_contentSha256 :: string
  ce_acceptedAt :: string
  ce_firstLaunch :: bool

definition consent_record_of :: "(time \<Rightarrow> string) \<Rightarrow> consent_row \<Rightarrow> consent_record" where
  "consent_record_of iso_text c =
     \<lparr>ce_documentId = cn_documentId c, ce_version = cn_version c, ce_consentEpoch = cn_epoch c,
      ce_contentSha256 = cn_sha256 c, ce_acceptedAt = iso_text (cn_acceptedAt c),
      ce_firstLaunch = (cn_gate c = ''first-launch'')\<rparr>"

definition gapFor :: "legal_service \<Rightarrow> accepted_epochs \<Rightarrow> consent_gap" where
  "gapFor lg accepted = consentGap (lg_documents lg) accepted"

definition resolve_one :: "legal_service \<Rightarrow> acceptance \<Rightarrow> api_error + legal_document" where
  "resolve_one lg req =
     (case findLegalDocument (lg_documents lg) (ac_documentId req) of
        None \<Rightarrow> Inl (unprocessable (Some (CHR 0x22 # ac_documentId req @ CHR 0x22 # '' is not a document Pull.fm asks you to accept.''))
                       (Some [(''accept.documentId'', ''unknown document'')]))
      | Some doc \<Rightarrow>
          if ac_version req \<noteq> ld_version doc
          then Inl (conflict (Some (''The current version of '' @ ld_id doc @ '' is '' @ ld_version doc @ '', not '' @
                 ac_version req @ ''. Fetch GET /v1/me/consent, display the current document, and accept that.'')))
          else if ac_contentSha256 req \<noteq> ld_contentSha256 doc
          then Inl (conflict (Some (''The digest supplied for '' @ ld_id doc @ '' '' @ ld_version doc @
                 '' does not match the document Pull.fm publishes at that version, so the text displayed was not the text '' @
                 ''this acceptance would have been recorded against. Re-fetch the document from '' @ ld_url doc @
                 '' and accept the copy you displayed.'')))
          else Inr doc)"

fun resolve_all :: "legal_service \<Rightarrow> acceptance list \<Rightarrow> api_error + legal_document list" where
  "resolve_all lg [] = Inr []"
| "resolve_all lg (req # reqs) =
     (case resolve_one lg req of
        Inl e \<Rightarrow> Inl e
      | Inr doc \<Rightarrow> (case resolve_all lg reqs of Inl e \<Rightarrow> Inl e | Inr docs \<Rightarrow> Inr (doc # docs)))"

definition consent_row_of :: "acceptance_context \<Rightarrow> time \<Rightarrow> accepted_epochs \<Rightarrow> legal_document \<Rightarrow> consent_row" where
  "consent_row_of ctx now prior doc =
     \<lparr>cn_userId = ax_userId ctx, cn_documentId = ld_id doc, cn_version = ld_version doc, cn_epoch = ld_consentEpoch doc,
      cn_sha256 = ld_contentSha256 doc, cn_acceptedAt = now,
      cn_gate = (if map_of prior (ld_id doc) = None then ''first-launch'' else ''revision''),
      cn_clientBuild = ax_clientBuild ctx, cn_clientPlatform = ax_clientPlatform ctx, cn_userAgent = ax_userAgent ctx,
      cn_ip = ax_ip ctx, cn_authMethod = ax_authMethod ctx, cn_sessionId = ax_sessionId ctx\<rparr>"

definition same_consent :: "consent_row \<Rightarrow> consent_row \<Rightarrow> bool" where
  "same_consent a b \<longleftrightarrow> cn_userId a = cn_userId b \<and> cn_documentId a = cn_documentId b \<and> cn_version a = cn_version b"

text \<open>\<open>None\<close> when a check or a reference is violated; else whether a row was added.\<close>

definition consent_insert ::
  "string list \<Rightarrow> revision_row list \<Rightarrow> consent_row \<Rightarrow> consent_row list \<Rightarrow> (bool \<times> consent_row list) option" where
  "consent_insert users revisions c cs =
     (if \<not> id_shape (cn_documentId c) \<or> \<not> hash_shape (cn_sha256 c) \<or> cn_epoch c < 1 \<or> cn_authMethod c \<noteq> ''session'' then None
      else if list_ex (same_consent c) cs then Some (False, cs)
      else if cn_userId c \<notin> set users \<or> \<not> list_ex (revision_of (cn_documentId c) (cn_version c)) revisions then None
      else Some (True, cs @ [c]))"

fun insert_consents ::
  "string list \<Rightarrow> revision_row list \<Rightarrow> acceptance_context \<Rightarrow> time \<Rightarrow> accepted_epochs \<Rightarrow> legal_document list \<Rightarrow> consent_row list \<Rightarrow>
     consent_row list option \<times> consent_row list" where
  "insert_consents users revisions ctx now prior [] cs = (Some [], cs)"
| "insert_consents users revisions ctx now prior (doc # docs) cs =
     (let c = consent_row_of ctx now prior doc in
      case consent_insert users revisions c cs of
        None \<Rightarrow> (None, cs)
      | Some (added, cs') \<Rightarrow>
          (case insert_consents users revisions ctx now prior docs cs' of
             (None, cs'') \<Rightarrow> (None, cs'')
           | (Some recorded, cs'') \<Rightarrow> (Some (if added then c # recorded else recorded), cs'')))"

text \<open>The left side is an error for the client, or nothing for one that is not translated.\<close>

definition consent_accept ::
  "(string \<Rightarrow> string) \<Rightarrow> legal_service \<Rightarrow> string list \<Rightarrow> acceptance_context \<Rightarrow> time \<Rightarrow> acceptance list \<Rightarrow> bool \<Rightarrow>
     revision_row list \<Rightarrow> consent_row list \<Rightarrow>
     (api_error option + consent_row list) \<times> bool \<times> revision_row list \<times> consent_row list" where
  "consent_accept sha lg users ctx now requested memo t cs =
     (case ensureRevisions sha lg now memo t of
        (False, memo', t') \<Rightarrow> (Inl None, memo', t', cs)
      | (True, memo', t') \<Rightarrow>
          (case resolve_all lg requested of
             Inl e \<Rightarrow> (Inl (Some e), memo', t', cs)
           | Inr docs \<Rightarrow>
               (case insert_consents users t' ctx now (acceptedEpochs (ax_userId ctx) cs) docs cs of
                  (None, cs') \<Rightarrow> (Inl None, memo', t', cs')
                | (Some recorded, cs') \<Rightarrow> (Inr recorded, memo', t', cs'))))"

subsection \<open>Processes that share the tables\<close>

text \<open>\<open>ON DELETE CASCADE\<close> of \<open>legal_consents.user_id\<close>: what the deletion of a user's row takes along.\<close>

definition consent_cascade :: "string \<Rightarrow> consent_row list \<Rightarrow> consent_row list" where
  "consent_cascade u cs = filter (\<lambda>c. cn_userId c \<noteq> u) cs"

record legal_world =
  lw_revisions :: "revision_row list"
  lw_consents :: "consent_row list"
  lw_published :: "nat list"
  lw_erased :: "string list"

text \<open>\<open>Lg_erase\<close> is the \<open>DELETE FROM users\<close> of an account deletion; its row is not there for later
  references, and the identifiers are never given again.\<close>

datatype legal_event =
    Lg_publish nat time
  | Lg_accept nat acceptance_context time "acceptance list"
  | Lg_erase string

definition users_left :: "string list \<Rightarrow> legal_world \<Rightarrow> string list" where
  "users_left users w = filter (\<lambda>u. u \<notin> set (lw_erased w)) users"

definition set_memo :: "nat \<Rightarrow> bool \<Rightarrow> nat list \<Rightarrow> nat list" where
  "set_memo i ok ms = (if ok then i # ms else removeAll i ms)"

definition legal_step :: "(string \<Rightarrow> string) \<Rightarrow> (nat \<Rightarrow> legal_service) \<Rightarrow> string list \<Rightarrow> legal_event \<Rightarrow> legal_world \<Rightarrow> legal_world" where
  "legal_step sha svc users e w = (case e of
     Lg_publish i now \<Rightarrow>
       (case ensureRevisions sha (svc i) now (i \<in> set (lw_published w)) (lw_revisions w) of (_, memo, t) \<Rightarrow>
          w\<lparr>lw_revisions := t, lw_published := set_memo i memo (lw_published w)\<rparr>)
   | Lg_accept i ctx now reqs \<Rightarrow>
       (case consent_accept sha (svc i) (users_left users w) ctx now reqs (i \<in> set (lw_published w)) (lw_revisions w) (lw_consents w) of (_, memo, t, cs) \<Rightarrow>
          w\<lparr>lw_revisions := t, lw_consents := cs, lw_published := set_memo i memo (lw_published w)\<rparr>)
   | Lg_erase u \<Rightarrow> w\<lparr>lw_consents := consent_cascade u (lw_consents w), lw_erased := u # lw_erased w\<rparr>)"

subsection \<open>A published revision is a historical fact\<close>

definition later_row :: "revision_row \<Rightarrow> revision_row \<Rightarrow> bool" where
  "later_row r r' \<longleftrightarrow> r' = r \<or> (rv_content r = None \<and> (\<exists>c. r' = r\<lparr>rv_content := Some c\<rparr>))"

definition grows :: "revision_row list \<Rightarrow> revision_row list \<Rightarrow> bool" where
  "grows t t' \<longleftrightarrow> (\<exists>u new. t' = u @ new \<and> list_all2 later_row t u)"

lemma later_row_refl [simp]: "later_row r r"
  by (simp add: later_row_def)

lemma later_row_trans: "later_row r s \<Longrightarrow> later_row s t \<Longrightarrow> later_row r t"
  by (auto simp: later_row_def)

lemma tables_grow_refl [simp]: "grows t t"
  unfolding grows_def by (rule exI [of _ t]) (simp add: list.rel_refl)

lemma grows_append: "grows t (t @ new)"
  unfolding grows_def by (rule exI [of _ t]) (simp add: list.rel_refl)

lemma tables_grow_trans:
  assumes "grows t u" "grows u v"
  shows "grows t v"
proof -
  from assms obtain u' n v' m where u: "u = u' @ n" "list_all2 later_row t u'" and v: "v = v' @ m" "list_all2 later_row u v'"
    by (auto simp: grows_def)
  from v(2) u(1) obtain a b where ab: "v' = a @ b" "list_all2 later_row u' a" by (auto simp: list_all2_append1)
  have "list_all2 later_row t a" by (rule list_all2_trans [OF later_row_trans u(2) ab(2)])
  with v(1) ab(1) show ?thesis unfolding grows_def by auto
qed

lemma grows_row:
  assumes "grows t t'" "r \<in> set t"
  shows "\<exists>r' \<in> set t'. later_row r r'"
proof -
  obtain u new where "t' = u @ new" "list_all2 later_row t u" using assms(1) by (auto simp: grows_def)
  moreover obtain k where "k < length t" "t ! k = r" using assms(2) by (auto simp: in_set_conv_nth)
  ultimately have "later_row r (u ! k)" "u ! k \<in> set t'" by (auto simp: list_all2_conv_all_nth)
  then show ?thesis by blast
qed

lemma later_row_fields:
  assumes "later_row r r'"
  shows "rv_documentId r' = rv_documentId r" "rv_version r' = rv_version r" "rv_epoch r' = rv_epoch r"
    "rv_sha256 r' = rv_sha256 r" "rv_material r' = rv_material r" "rv_url r' = rv_url r"
  using assms by (auto simp: later_row_def)

text \<open>The keys are distinct and every stored text hashes to the digest of its row.\<close>

definition revs_ok :: "(string \<Rightarrow> string) \<Rightarrow> revision_row list \<Rightarrow> bool" where
  "revs_ok sha t \<longleftrightarrow> distinct (map (\<lambda>r. (rv_documentId r, rv_version r)) t) \<and> list_all (content_check sha) t"

definition published_in :: "legal_document \<Rightarrow> revision_row list \<Rightarrow> bool" where
  "published_in doc t \<longleftrightarrow> (\<exists>r \<in> set t. revision_of (ld_id doc) (ld_version doc) r \<and> agrees doc r)"

lemma published_in_grows: "published_in doc t \<Longrightarrow> grows t t' \<Longrightarrow> published_in doc t'"
proof -
  assume "published_in doc t" "grows t t'"
  then obtain r r' where "r \<in> set t" "revision_of (ld_id doc) (ld_version doc) r" "agrees doc r" "r' \<in> set t'" "later_row r r'"
    using grows_row by (auto simp: published_in_def) blast
  moreover from this(5) have "revision_of (ld_id doc) (ld_version doc) r' = revision_of (ld_id doc) (ld_version doc) r"
    "agrees doc r' = agrees doc r"
    by (simp_all add: revision_of_def agrees_def later_row_fields)
  ultimately show "published_in doc t'" by (auto simp: published_in_def)
qed

lemma revs_unique: "revs_ok sha t \<Longrightarrow> r \<in> set t \<Longrightarrow> r' \<in> set t \<Longrightarrow> revision_of i v r \<Longrightarrow> revision_of i v r' \<Longrightarrow> r = r'"
  by (auto simp: revs_ok_def revision_of_def distinct_map dest: inj_onD)

lemma only_revision:
  assumes "revs_ok sha t" "r \<in> set t" "revision_of i v r"
  shows "filter (revision_of i v) t = [r]"
proof -
  have d: "distinct (filter (revision_of i v) t)" using assms(1) by (simp add: revs_ok_def distinct_map)
  have "\<forall>x \<in> set (filter (revision_of i v) t). x = r" using assms revs_unique by fastforce
  moreover have "r \<in> set (filter (revision_of i v) t)" using assms by simp
  ultimately show ?thesis using d by (metis distinct_length_2_or_more empty_iff list.exhaust list.set(1) list.set_intros)
qed

lemma revision_insert_grows:
  assumes "revision_insert sha r t = Some t'"
  shows "grows t t'" and "revs_ok sha t \<Longrightarrow> revs_ok sha t'"
proof -
  show "grows t t'" using assms by (auto simp: revision_insert_def grows_append split: if_splits)
  show "revs_ok sha t'" if "revs_ok sha t"
  proof (cases "list_ex (revision_of (rv_documentId r) (rv_version r)) t")
    case False
    then have "(rv_documentId r, rv_version r) \<notin> (\<lambda>r. (rv_documentId r, rv_version r)) ` set t"
      by (auto simp: list_ex_iff revision_of_def)
    with that assms False show ?thesis by (auto simp: revision_insert_def revs_ok_def revision_checks_def split: if_splits)
  qed (use that assms in \<open>simp add: revision_insert_def split: if_splits\<close>)
qed

lemma fill_content_grows:
  assumes "fill_content sha i v c t = Some t'"
  shows "grows t t'" and "revs_ok sha t \<Longrightarrow> revs_ok sha t'"
proof -
  let ?f = "\<lambda>r. if revision_of i v r \<and> rv_content r = None then r\<lparr>rv_content := Some c\<rparr> else r"
  have t': "t' = map ?f t" and chk: "\<forall>r \<in> set t. revision_of i v r \<and> rv_content r = None \<longrightarrow> content_check sha (r\<lparr>rv_content := Some c\<rparr>)"
    using assms by (auto simp: fill_content_def Let_def list_all_iff split: if_splits)
  have "list_all2 later_row t (map ?f t)"
    by (auto simp: list_all2_map2 list_all2_same later_row_def)
  then show "grows t t'" unfolding grows_def t' by (intro exI [of _ "map ?f t"] exI [of _ "[]"]) simp
  have keys: "map (\<lambda>r. (rv_documentId r, rv_version r)) (map ?f t) = map (\<lambda>r. (rv_documentId r, rv_version r)) t" by simp
  have "list_all (content_check sha) (map ?f t)" if "list_all (content_check sha) t"
    using that chk by (auto simp: list_all_iff)
  then show "revs_ok sha t \<Longrightarrow> revs_ok sha t'" unfolding revs_ok_def t' keys by blast
qed

lemma publish_one_keeps:
  assumes "publish_one sha source now doc t = (ok, t')"
  shows "grows t t'" and "revs_ok sha t \<Longrightarrow> revs_ok sha t'" and "ok \<Longrightarrow> published_in doc t'"
proof -
  have "grows t t' \<and> (revs_ok sha t \<longrightarrow> revs_ok sha t') \<and> (ok \<longrightarrow> published_in doc t')"
  proof (cases "revision_insert sha (revision_row_of now doc (source doc)) t")
    case None
    with assms show ?thesis by (simp add: publish_one_def Let_def)
  next
    case (Some t1)
    note i = revision_insert_grows [OF Some]
    show ?thesis
    proof (cases "List.find (revision_of (ld_id doc) (ld_version doc)) t1")
      case None
      with Some assms i show ?thesis by (simp add: publish_one_def Let_def)
    next
      case stored: (Some r)
      then have r: "r \<in> set t1" "revision_of (ld_id doc) (ld_version doc) r" by (auto simp: find_Some_iff in_set_conv_nth)
      let ?fill = "if rv_content r = None then (case source doc of None \<Rightarrow> Some t1
          | Some c \<Rightarrow> fill_content sha (ld_id doc) (ld_version doc) c t1) else Some t1"
      show ?thesis
      proof (cases ?fill)
        case None
        with Some stored assms i show ?thesis by (simp add: publish_one_def Let_def)
      next
        case fill: (Some t2)
        have "grows t1 t2" "revs_ok sha t1 \<Longrightarrow> revs_ok sha t2"
          using fill fill_content_grows by (auto split: if_splits option.splits)
        moreover have "t' = t2" "ok = agrees doc r"
          using Some stored fill assms by (simp_all add: publish_one_def Let_def)
        moreover have "agrees doc r \<Longrightarrow> published_in doc t1" using r by (auto simp: published_in_def)
        ultimately show ?thesis using i tables_grow_trans published_in_grows by blast
      qed
    qed
  qed
  then show "grows t t'" and "revs_ok sha t \<Longrightarrow> revs_ok sha t'" and "ok \<Longrightarrow> published_in doc t'" by blast+
qed

lemma publish_keeps:
  "publish sha source now docs t = (ok, t') \<Longrightarrow>
     grows t t' \<and> (revs_ok sha t \<longrightarrow> revs_ok sha t') \<and> (ok \<longrightarrow> (\<forall>doc \<in> set docs. published_in doc t'))"
proof (induction docs arbitrary: t)
  case (Cons doc docs)
  obtain b t1 where one: "publish_one sha source now doc t = (b, t1)" by (cases "publish_one sha source now doc t")
  note k = publish_one_keeps [OF one]
  show ?case
  proof (cases b)
    case True
    with Cons.prems one have "publish sha source now docs t1 = (ok, t')" by simp
    from Cons.IH [OF this] k True show ?thesis by (auto intro: tables_grow_trans published_in_grows)
  qed (use Cons.prems one k in auto)
qed simp

subsection \<open>What the tables promise\<close>

definition cited :: "revision_row list \<Rightarrow> consent_row \<Rightarrow> bool" where
  "cited t c \<longleftrightarrow> (\<exists>r \<in> set t. revision_of (cn_documentId c) (cn_version c) r \<and> rv_epoch r = cn_epoch c \<and> rv_sha256 r = cn_sha256 c)"

lemma cited_grows: "cited t c \<Longrightarrow> grows t t' \<Longrightarrow> cited t' c"
proof -
  assume "cited t c" "grows t t'"
  then obtain r r' where "r \<in> set t" "revision_of (cn_documentId c) (cn_version c) r" "rv_epoch r = cn_epoch c"
      "rv_sha256 r = cn_sha256 c" "r' \<in> set t'" "later_row r r'"
    using grows_row by (auto simp: cited_def) blast
  then show "cited t' c" by (auto simp: cited_def revision_of_def later_row_fields intro!: bexI [of _ r'])
qed

definition legal_inv :: "(string \<Rightarrow> string) \<Rightarrow> (nat \<Rightarrow> legal_service) \<Rightarrow> legal_world \<Rightarrow> bool" where
  "legal_inv sha svc w \<longleftrightarrow> revs_ok sha (lw_revisions w) \<and> (\<forall>c \<in> set (lw_consents w). cited (lw_revisions w) c) \<and>
     (\<forall>i \<in> set (lw_published w). \<forall>doc \<in> set (lg_publishedDocuments (svc i)). published_in doc (lw_revisions w)) \<and>
     (\<forall>c \<in> set (lw_consents w). cn_userId c \<notin> set (lw_erased w))"

definition requires_published :: "legal_service \<Rightarrow> bool" where
  "requires_published lg \<longleftrightarrow> set (lg_documents lg) \<subseteq> set (lg_publishedDocuments lg)"

lemma lg_new_requires [simp]: "requires_published (lg_new documents source also)"
  by (simp add: requires_published_def lg_new_def)

lemma ensure_keeps:
  assumes "ensureRevisions sha lg now memo t = (ok, memo', t')"
    and "memo \<Longrightarrow> \<forall>doc \<in> set (lg_publishedDocuments lg). published_in doc t"
  shows "grows t t'" and "revs_ok sha t \<Longrightarrow> revs_ok sha t'" and "memo' = ok"
    and "ok \<Longrightarrow> \<forall>doc \<in> set (lg_publishedDocuments lg). published_in doc t'"
  using assms publish_keeps [of sha "lg_source lg" now "lg_publishedDocuments lg" t]
  by (auto simp: ensureRevisions_def split: if_splits prod.splits)

lemma resolve_one_doc:
  "resolve_one lg req = Inr doc \<longleftrightarrow> findLegalDocument (lg_documents lg) (ac_documentId req) = Some doc \<and>
     ac_version req = ld_version doc \<and> ac_contentSha256 req = ld_contentSha256 doc"
  by (auto simp: resolve_one_def split: option.splits)

lemma find_document: "findLegalDocument docs i = Some doc \<Longrightarrow> doc \<in> set docs \<and> ld_id doc = i"
  by (auto simp: findLegalDocument_def find_Some_iff)

lemma resolve_all_docs:
  "resolve_all lg reqs = Inr docs \<Longrightarrow> list_all2 (\<lambda>req doc. resolve_one lg req = Inr doc) reqs docs"
  by (induction reqs arbitrary: docs) (auto split: sum.splits)

lemma resolve_all_subset: "resolve_all lg reqs = Inr docs \<Longrightarrow> set docs \<subseteq> set (lg_documents lg)"
  by (drule resolve_all_docs, induction rule: list_all2_induct) (auto simp: resolve_one_doc dest: find_document)

lemma insert_consents_keep:
  "insert_consents users t ctx now prior docs cs = (recorded, cs') \<Longrightarrow> \<forall>doc \<in> set docs. published_in doc t \<Longrightarrow>
     \<exists>new. cs' = cs @ new \<and> (\<forall>c \<in> set new. cited t c \<and> cn_userId c \<in> set users)"
proof (induction docs arbitrary: recorded cs)
  case (Cons doc docs)
  let ?c = "consent_row_of ctx now prior doc"
  have c: "cited t ?c"
    using Cons.prems(2) by (auto simp: cited_def published_in_def agrees_def revision_of_def consent_row_of_def)
  show ?case
  proof (cases "consent_insert users t ?c cs")
    case None
    with Cons.prems show ?thesis by (simp add: Let_def)
  next
    case (Some p)
    obtain added cs1 where p: "p = (added, cs1)" by (cases p)
    have cs1: "cs1 = cs \<or> cs1 = cs @ [?c] \<and> cn_userId ?c \<in> set users" using Some p by (auto simp: consent_insert_def split: if_splits)
    obtain r2 where "insert_consents users t ctx now prior docs cs1 = (r2, cs')"
      using Cons.prems(1) Some p by (auto simp: Let_def split: prod.splits option.splits)
    from Cons.IH [OF this] Cons.prems(2) obtain new where "cs' = cs1 @ new" "\<forall>c \<in> set new. cited t c \<and> cn_userId c \<in> set users"
      by auto
    moreover from cs1 have "\<exists>pre. cs1 = cs @ pre \<and> set pre \<subseteq> {?c} \<and> (\<forall>c \<in> set pre. cn_userId c \<in> set users)" by auto
    ultimately obtain pre where "cs' = cs @ pre @ new" "set pre \<subseteq> {?c}" "\<forall>c \<in> set pre. cn_userId c \<in> set users" by auto
    with c \<open>\<forall>c \<in> set new. _ c\<close> show ?thesis by (intro exI [of _ "pre @ new"]) auto
  qed
qed simp

lemma accept_keeps:
  assumes "consent_accept sha lg users ctx now reqs memo t cs = (answer, memo', t', cs')" "requires_published lg"
    and "memo \<Longrightarrow> \<forall>doc \<in> set (lg_publishedDocuments lg). published_in doc t"
    and "\<forall>c \<in> set cs. cited t c"
  shows "grows t t'" and "revs_ok sha t \<Longrightarrow> revs_ok sha t'"
    and "memo' \<Longrightarrow> \<forall>doc \<in> set (lg_publishedDocuments lg). published_in doc t'"
    and "\<exists>new. cs' = cs @ new \<and> (\<forall>c \<in> set new. cn_userId c \<in> set users)" and "\<forall>c \<in> set cs'. cited t' c"
proof -
  obtain ok m t1 where e: "ensureRevisions sha lg now memo t = (ok, m, t1)" by (cases "ensureRevisions sha lg now memo t")
  note k = ensure_keeps [OF e assms(3)]
  have t1: "t' = t1" "memo' = ok"
    using assms(1) e k(3) by (auto simp: consent_accept_def split: bool.splits sum.splits prod.splits option.splits)
  show "grows t t'" and "revs_ok sha t \<Longrightarrow> revs_ok sha t'"
    and "memo' \<Longrightarrow> \<forall>doc \<in> set (lg_publishedDocuments lg). published_in doc t'"
    using k t1 by simp_all
  have "\<exists>new. cs' = cs @ new \<and> (\<forall>c \<in> set new. cited t1 c \<and> cn_userId c \<in> set users)"
  proof (cases "ok \<and> (\<exists>docs. resolve_all lg reqs = Inr docs)")
    case True
    then obtain docs where docs: "resolve_all lg reqs = Inr docs" by blast
    obtain rec cs2 where ins: "insert_consents users t1 ctx now (acceptedEpochs (ax_userId ctx) cs) docs cs = (rec, cs2)"
      by (cases "insert_consents users t1 ctx now (acceptedEpochs (ax_userId ctx) cs) docs cs")
    have "cs' = cs2" using assms(1) e docs ins True by (auto simp: consent_accept_def split: option.splits)
    moreover have "\<forall>doc \<in> set docs. published_in doc t1"
      using k(4) True resolve_all_subset [OF docs] assms(2) by (auto simp: requires_published_def)
    ultimately show ?thesis using insert_consents_keep [OF ins] by blast
  next
    case False
    then have "cs' = cs"
      using assms(1) e by (cases "resolve_all lg reqs"; cases ok) (auto simp: consent_accept_def)
    then show ?thesis by simp
  qed
  then show "\<exists>new. cs' = cs @ new \<and> (\<forall>c \<in> set new. cn_userId c \<in> set users)" and "\<forall>c \<in> set cs'. cited t' c"
    using assms(4) cited_grows [OF _ k(1)] t1 by auto
qed


definition legal_start :: legal_world where
  "legal_start = \<lparr>lw_revisions = [], lw_consents = [], lw_published = [], lw_erased = []\<rparr>"

lemma legal_start_inv [simp]: "legal_inv sha svc legal_start"
  by (simp add: legal_inv_def legal_start_def revs_ok_def)

definition extends :: "legal_world \<Rightarrow> legal_world \<Rightarrow> bool" where
  "extends w w' \<longleftrightarrow> grows (lw_revisions w) (lw_revisions w') \<and> set (lw_erased w) \<subseteq> set (lw_erased w') \<and>
     (\<exists>new. lw_consents w' = filter (\<lambda>c. cn_userId c \<notin> set (lw_erased w')) (lw_consents w) @ new)"

lemma set_memo_cases:
  assumes "j \<in> set (set_memo i ok ms)"
  shows "j = i \<and> ok \<or> j \<in> set ms"
  using assms by (auto simp: set_memo_def split: if_splits)

lemma memo_keeps:
  assumes "grows t t'" "\<forall>j \<in> set ms. \<forall>doc \<in> set (lg_publishedDocuments (svc j)). published_in doc t"
    and "ok \<Longrightarrow> \<forall>doc \<in> set (lg_publishedDocuments (svc i)). published_in doc t'"
  shows "\<forall>j \<in> set (set_memo i ok ms). \<forall>doc \<in> set (lg_publishedDocuments (svc j)). published_in doc t'"
  using assms by (blast dest: set_memo_cases intro: published_in_grows)

lemma legal_step_keeps:
  assumes "\<And>i. requires_published (svc i)" "legal_inv sha svc w"
  shows "legal_inv sha svc (legal_step sha svc users e w) \<and> extends w (legal_step sha svc users e w)"
proof (cases e)
  case (Lg_publish i now)
  obtain ok memo t where e: "ensureRevisions sha (svc i) now (i \<in> set (lw_published w)) (lw_revisions w) = (ok, memo, t)"
    by (cases "ensureRevisions sha (svc i) now (i \<in> set (lw_published w)) (lw_revisions w)")
  have memo: "i \<in> set (lw_published w) \<Longrightarrow> \<forall>doc \<in> set (lg_publishedDocuments (svc i)). published_in doc (lw_revisions w)"
    using assms(2) by (simp add: legal_inv_def)
  note k = ensure_keeps [OF e memo]
  have pub: "\<forall>j \<in> set (set_memo i memo (lw_published w)). \<forall>doc \<in> set (lg_publishedDocuments (svc j)). published_in doc t"
    by (rule memo_keeps [OF k(1)]) (use assms(2) k in \<open>simp_all add: legal_inv_def\<close>)
  have step: "legal_step sha svc users e w = w\<lparr>lw_revisions := t, lw_published := set_memo i memo (lw_published w)\<rparr>"
    by (simp add: legal_step_def Lg_publish e)
  show ?thesis unfolding step
    using assms(2) k pub by (auto simp: legal_inv_def extends_def intro: cited_grows)
next
  case (Lg_accept i ctx now reqs)
  let ?users = "users_left users w"
  obtain answer memo t cs where
    a: "consent_accept sha (svc i) ?users ctx now reqs (i \<in> set (lw_published w)) (lw_revisions w) (lw_consents w) = (answer, memo, t, cs)"
    by (cases "consent_accept sha (svc i) ?users ctx now reqs (i \<in> set (lw_published w)) (lw_revisions w) (lw_consents w)")
  have memo: "i \<in> set (lw_published w) \<Longrightarrow> \<forall>doc \<in> set (lg_publishedDocuments (svc i)). published_in doc (lw_revisions w)"
    and cites: "\<forall>c \<in> set (lw_consents w). cited (lw_revisions w) c"
    and left: "\<forall>c \<in> set (lw_consents w). cn_userId c \<notin> set (lw_erased w)"
    using assms(2) by (simp_all add: legal_inv_def)
  note k = accept_keeps [OF a assms(1) memo cites]
  obtain new where new: "cs = lw_consents w @ new" "\<forall>c \<in> set new. cn_userId c \<notin> set (lw_erased w)"
    using k(4) by (auto simp: users_left_def)
  have pub: "\<forall>j \<in> set (set_memo i memo (lw_published w)). \<forall>doc \<in> set (lg_publishedDocuments (svc j)). published_in doc t"
    by (rule memo_keeps [OF k(1)]) (use assms(2) k in \<open>simp_all add: legal_inv_def\<close>)
  have step: "legal_step sha svc users e w = w\<lparr>lw_revisions := t, lw_consents := cs, lw_published := set_memo i memo (lw_published w)\<rparr>"
    by (simp add: legal_step_def Lg_accept a)
  have "filter (\<lambda>c. cn_userId c \<notin> set (lw_erased w)) (lw_consents w) = lw_consents w"
    using left by (simp add: filter_id_conv)
  then show ?thesis unfolding step
    using assms(2) k(1,2,5) pub left new by (auto simp: legal_inv_def extends_def)
next
  case (Lg_erase u)
  have step: "legal_step sha svc users e w = w\<lparr>lw_consents := consent_cascade u (lw_consents w), lw_erased := u # lw_erased w\<rparr>"
    by (simp add: legal_step_def Lg_erase)
  have "filter (\<lambda>c. cn_userId c \<noteq> u \<and> cn_userId c \<notin> set (lw_erased w)) (lw_consents w) = consent_cascade u (lw_consents w)"
    using assms(2) unfolding consent_cascade_def by (intro filter_cong) (auto simp: legal_inv_def)
  then show ?thesis unfolding step
    using assms(2) by (auto simp: legal_inv_def extends_def consent_cascade_def)
qed

lemma extends_trans:
  assumes "extends u v" "extends v w"
  shows "extends u w"
proof -
  let ?left = "\<lambda>x c. cn_userId c \<notin> set (lw_erased x)"
  from assms obtain n m where n: "lw_consents v = filter (?left v) (lw_consents u) @ n"
    and m: "lw_consents w = filter (?left w) (lw_consents v) @ m"
    and e: "set (lw_erased v) \<subseteq> set (lw_erased w)" by (auto simp: extends_def)
  have "filter (?left w) (filter (?left v) (lw_consents u)) = filter (?left w) (lw_consents u)"
    using e by (auto intro!: filter_cong)
  with n m have "lw_consents w = filter (?left w) (lw_consents u) @ (filter (?left w) n @ m)" by simp
  with assms show ?thesis unfolding extends_def by (blast intro: tables_grow_trans)
qed

lemma extends_refl: "legal_inv sha svc w \<Longrightarrow> extends w w"
  by (auto simp: extends_def legal_inv_def filter_id_conv)

text \<open>The tables after a run, seen from any earlier point of it.\<close>

definition legal_since :: "(string \<Rightarrow> string) \<Rightarrow> (nat \<Rightarrow> legal_service) \<Rightarrow> legal_world \<Rightarrow> legal_world \<Rightarrow> bool" where
  "legal_since sha svc w0 w \<longleftrightarrow> (\<forall>i. requires_published (svc i)) \<and> legal_inv sha svc w \<and> extends w0 w"

interpretation legal: machine "legal_step sha svc users" "legal_since sha svc w0"
proof
  show "legal_since sha svc w0 (legal_step sha svc users e w)" if "legal_since sha svc w0 w" for w e
    using that legal_step_keeps [of svc sha w users e] by (auto simp: legal_since_def intro: extends_trans)
qed

abbreviation legal_run where "legal_run sha svc users \<equiv> run_calls (legal_step sha svc users)"

lemma legal_reached:
  assumes "\<And>i. requires_published (svc i)"
  shows "legal_inv sha svc (legal_run sha svc users legal_start es)"
  using legal.inv_run [of sha svc legal_start legal_start users es] assms extends_refl [OF legal_start_inv]
  by (simp add: legal_since_def)

lemma legal_later:
  assumes "\<And>i. requires_published (svc i)" "legal_inv sha svc w"
  shows "extends w (legal_run sha svc users w es)"
  using legal.inv_run [of sha svc w w users es] assms extends_refl [OF assms(2)] by (simp add: legal_since_def)

text \<open>Who is erased after a run.\<close>

lemma erased_step:
  "lw_erased (legal_step sha svc users e w) = (case e of Lg_erase u \<Rightarrow> u # lw_erased w | _ \<Rightarrow> lw_erased w)"
  by (simp add: legal_step_def split: legal_event.split prod.split)

lemma erased_run: "u \<in> set (lw_erased (legal_run sha svc users w es)) \<longleftrightarrow> u \<in> set (lw_erased w) \<or> Lg_erase u \<in> set es"
  by (induction es arbitrary: w) (auto simp: erased_step split: legal_event.splits)

subsection \<open>Properties\<close>

definition stands_behind :: "(string \<Rightarrow> string) \<Rightarrow> consent_row \<Rightarrow> revision_row \<Rightarrow> bool" where
  "stands_behind sha c r \<longleftrightarrow> rv_epoch r = cn_epoch c \<and> rv_sha256 r = cn_sha256 c \<and>
     (case rv_content r of None \<Rightarrow> True | Some txt \<Rightarrow> sha (utf8_encode txt) = cn_sha256 c)"

text \<open>Claim C21. A recorded acceptance is evidence that nothing but the erasure of its account
  removes and nothing alters: in any run of any number of processes, of one build or of several,
  the row is there later, as it was written, exactly when its user was not erased in between; the
  tables always hold exactly one revision with the document and version it names, also after the
  erasure, and that revision has the epoch and the digest of the row; a text stored for it, then
  or at any later time, hashes to that digest, and a text once stored is never replaced. The
  operations are those of the service and the cascade; rows removed by hand are outside.\<close>

theorem evidence_stands:
  assumes "\<And>i. requires_published (svc i)"
    and "c \<in> set (lw_consents (legal_run sha svc users legal_start es))"
  shows "(c \<in> set (lw_consents (legal_run sha svc users legal_start (es @ later))) \<longleftrightarrow>
      Lg_erase (cn_userId c) \<notin> set later) \<and>
    (\<exists>r. r \<in> set (lw_revisions (legal_run sha svc users legal_start es)) \<and>
       revision_of (cn_documentId c) (cn_version c) r \<and> stands_behind sha c r \<and>
       (\<exists>r'. filter (revision_of (cn_documentId c) (cn_version c)) (lw_revisions (legal_run sha svc users legal_start (es @ later))) = [r'] \<and>
         stands_behind sha c r' \<and> (rv_content r' = rv_content r \<or> rv_content r = None)))"
proof -
  let ?w = "legal_run sha svc users legal_start es" and ?w' = "legal_run sha svc users legal_start (es @ later)"
  have inv: "legal_inv sha svc ?w" "legal_inv sha svc ?w'" using assms(1) by (rule legal_reached)+
  have ext: "extends ?w ?w'" using legal_later [OF assms(1) inv(1)] by (simp add: run_calls_append)
  from inv(1) assms(2) obtain r where r: "r \<in> set (lw_revisions ?w)" "revision_of (cn_documentId c) (cn_version c) r"
      "rv_epoch r = cn_epoch c" "rv_sha256 r = cn_sha256 c" by (auto simp: legal_inv_def cited_def)
  have "grows (lw_revisions ?w) (lw_revisions ?w')" using ext by (simp add: extends_def)
  from grows_row [OF this r(1)] obtain r' where r': "r' \<in> set (lw_revisions ?w')" "later_row r r'" by blast
  have ok: "content_check sha r" "content_check sha r'" using inv r(1) r'(1) by (auto simp: legal_inv_def revs_ok_def list_all_iff)
  have of': "revision_of (cn_documentId c) (cn_version c) r'" using r(2) r'(2) by (simp add: revision_of_def later_row_fields)
  have "filter (revision_of (cn_documentId c) (cn_version c)) (lw_revisions ?w') = [r']"
    using inv(2) r'(1) of' by (auto simp: legal_inv_def intro: only_revision)
  moreover have "stands_behind sha c r" "stands_behind sha c r'"
    using r ok r'(2) by (auto simp: stands_behind_def content_check_def later_row_fields split: option.splits)
  moreover have "rv_content r' = rv_content r \<or> rv_content r = None" using r'(2) by (auto simp: later_row_def)
  moreover have "c \<in> set (lw_consents ?w') \<longleftrightarrow> Lg_erase (cn_userId c) \<notin> set later"
  proof -
    have left: "cn_userId c \<notin> set (lw_erased ?w)" using inv(1) assms(2) by (simp add: legal_inv_def)
    have erased: "cn_userId c \<in> set (lw_erased ?w') \<longleftrightarrow> Lg_erase (cn_userId c) \<in> set later"
      using left by (simp add: run_calls_append erased_run)
    show ?thesis
    proof (cases "Lg_erase (cn_userId c) \<in> set later")
      case True
      with erased inv(2) show ?thesis by (auto simp: legal_inv_def)
    next
      case False
      with erased ext assms(2) show ?thesis by (auto simp: extends_def)
    qed
  qed
  ultimately show ?thesis using r by blast
qed

subsection \<open>Accepting closes the gap\<close>

definition satisfies :: "legal_document \<Rightarrow> consent_row \<Rightarrow> bool" where
  "satisfies doc c \<longleftrightarrow> cn_documentId c = ld_id doc \<and> ld_consentEpoch doc \<le> cn_epoch c"

lemma max_epochs_above:
  fixes e :: int
  shows "(case map_of (max_epochs cs) i of None \<Rightarrow> False | Some have \<Rightarrow> e \<le> have) \<longleftrightarrow> (\<exists>c \<in> set cs. cn_documentId c = i \<and> e \<le> cn_epoch c)"
proof (induction cs)
  case (Cons c cs)
  show ?case
  proof (cases "cn_documentId c = i")
    case True
    then show ?thesis using Cons by (auto simp: Let_def update_conv split: option.splits)
  next
    case False
    then have "map_of (max_epochs (c # cs)) i = map_of (max_epochs cs) i" by (simp add: Let_def update_conv)
    then show ?thesis using Cons False by auto
  qed
qed simp

lemma owes_max_epochs: "owes (max_epochs cs) doc \<longleftrightarrow> \<not> (\<exists>c \<in> set cs. satisfies doc c)"
  using max_epochs_above [where cs = cs and i = "ld_id doc" and e = "ld_consentEpoch doc"]
  by (auto simp: owes_def satisfies_def not_le split: option.splits)

lemma owes_accepted: "owes (acceptedEpochs u cs) doc \<longleftrightarrow> \<not> (\<exists>c \<in> set cs. cn_userId c = u \<and> satisfies doc c)"
  by (auto simp: acceptedEpochs_def owes_max_epochs)

lemma consent_insert_present:
  assumes "consent_insert users t (consent_row_of ctx now prior doc) cs = Some (added, cs')" "published_in doc t" "revs_ok sha t"
    "\<forall>c \<in> set cs. cited t c"
  shows "\<exists>c \<in> set cs'. cn_userId c = ax_userId ctx \<and> satisfies doc c" and "set cs \<subseteq> set cs'" and "\<forall>c \<in> set cs'. cited t c"
proof -
  let ?c = "consent_row_of ctx now prior doc"
  have c: "cn_userId ?c = ax_userId ctx" "satisfies doc ?c" "cited t ?c"
    using assms(2) by (auto simp: satisfies_def consent_row_of_def cited_def published_in_def agrees_def revision_of_def)
  have cs': "cs' = cs \<and> list_ex (same_consent ?c) cs \<or> cs' = cs @ [?c]"
    using assms(1) by (auto simp: consent_insert_def split: if_splits)
  then show "set cs \<subseteq> set cs'" "\<forall>c \<in> set cs'. cited t c" using assms(4) c(3) by auto
  show "\<exists>c \<in> set cs'. cn_userId c = ax_userId ctx \<and> satisfies doc c"
  proof (cases "cs' = cs @ [?c]")
    case False
    with cs' obtain d where d: "d \<in> set cs'" "same_consent ?c d" by (auto simp: list_ex_iff)
    then have key: "cn_userId d = ax_userId ctx" "cn_documentId d = ld_id doc" "cn_version d = ld_version doc"
      by (simp_all add: same_consent_def consent_row_of_def)
    obtain r where r: "r \<in> set t" "revision_of (ld_id doc) (ld_version doc) r" "rv_epoch r = cn_epoch d"
      using assms(4) d(1) cs' False key by (auto simp: cited_def)
    obtain r0 where r0: "r0 \<in> set t" "revision_of (ld_id doc) (ld_version doc) r0" "agrees doc r0"
      using assms(2) by (auto simp: published_in_def)
    have "r = r0" by (rule revs_unique [OF assms(3) r(1) r0(1) r(2) r0(2)])
    with r r0 key have "satisfies doc d" by (simp add: satisfies_def agrees_def)
    with d key show ?thesis by blast
  qed (use c in auto)
qed

lemma insert_consents_present:
  assumes "revs_ok sha t"
  shows "insert_consents users t ctx now prior docs cs = (Some recorded, cs') \<Longrightarrow> \<forall>doc \<in> set docs. published_in doc t \<Longrightarrow>
     \<forall>c \<in> set cs. cited t c \<Longrightarrow>
     set cs \<subseteq> set cs' \<and> (\<forall>doc \<in> set docs. \<exists>c \<in> set cs'. cn_userId c = ax_userId ctx \<and> satisfies doc c)"
proof (induction docs arbitrary: recorded cs)
  case (Cons doc docs)
  obtain added cs1 where p: "consent_insert users t (consent_row_of ctx now prior doc) cs = Some (added, cs1)"
    using Cons.prems(1) by (auto simp: Let_def split: option.splits)
  then obtain r2 where rest: "insert_consents users t ctx now prior docs cs1 = (Some r2, cs')"
    using Cons.prems(1) by (auto simp: Let_def split: option.splits prod.splits)
  have pub: "published_in doc t" "\<forall>doc \<in> set docs. published_in doc t" using Cons.prems(2) by simp_all
  note k = consent_insert_present [OF p pub(1) assms Cons.prems(3)]
  have "set cs1 \<subseteq> set cs' \<and> (\<forall>doc \<in> set docs. \<exists>c \<in> set cs'. cn_userId c = ax_userId ctx \<and> satisfies doc c)"
    by (rule Cons.IH [OF rest pub(2) k(3)])
  with k show ?case by (simp, blast)
qed simp

lemma resolved_every:
  "resolve_all lg reqs = Inr docs \<Longrightarrow> req \<in> set reqs \<Longrightarrow> \<exists>doc \<in> set docs. resolve_one lg req = Inr doc"
  by (drule resolve_all_docs) (auto simp: list_all2_conv_all_nth in_set_conv_nth)

lemma find_document_distinct:
  "distinct (map ld_id docs) \<Longrightarrow> doc \<in> set docs \<Longrightarrow> findLegalDocument docs (ld_id doc) = Some doc"
  unfolding findLegalDocument_def by (induction docs) auto

text \<open>Claim C22. An acceptance that is answered without an error closes the gate: whatever was
  published and accepted before, by whichever processes, when the request names every
  outstanding document the subject owes nothing afterwards, also where the very row was on
  record already and nothing was written.\<close>

theorem accepted_closes_gap:
  assumes "\<And>i. requires_published (svc i)" "distinct (map ld_id (lg_documents (svc i)))"
    and "w = legal_run sha svc users legal_start es"
    and "consent_accept sha (svc i) users ctx now reqs (i \<in> set (lw_published w)) (lw_revisions w) (lw_consents w) =
           (Inr recorded, memo, t, cs)"
    and "\<forall>doc \<in> set (cg_outstanding (gapFor (svc i) (acceptedEpochs (ax_userId ctx) (lw_consents w)))). ld_id doc \<in> ac_documentId ` set reqs"
  shows "cg_satisfied (gapFor (svc i) (acceptedEpochs (ax_userId ctx) cs))"
proof -
  let ?lg = "svc i" and ?u = "ax_userId ctx"
  have inv: "legal_inv sha svc w" using legal_reached [of svc] assms(1,3) by simp
  have memo: "i \<in> set (lw_published w) \<Longrightarrow> \<forall>doc \<in> set (lg_publishedDocuments ?lg). published_in doc (lw_revisions w)"
    and ok: "revs_ok sha (lw_revisions w)" and cites: "\<forall>c \<in> set (lw_consents w). cited (lw_revisions w) c"
    using inv by (simp_all add: legal_inv_def)
  obtain b m t1 where e: "ensureRevisions sha ?lg now (i \<in> set (lw_published w)) (lw_revisions w) = (b, m, t1)"
    by (cases "ensureRevisions sha ?lg now (i \<in> set (lw_published w)) (lw_revisions w)")
  note k = ensure_keeps [OF e memo]
  from assms(4) e obtain docs where b: "b" and docs: "resolve_all ?lg reqs = Inr docs"
      and ins: "insert_consents users t1 ctx now (acceptedEpochs ?u (lw_consents w)) docs (lw_consents w) = (Some recorded, cs)"
    by (auto simp: consent_accept_def split: bool.splits sum.splits prod.splits option.splits)
  have pub: "\<forall>doc \<in> set docs. published_in doc t1"
    using k(4) b resolve_all_subset [OF docs] assms(1) [of i] by (auto simp: requires_published_def)
  have ok1: "revs_ok sha t1" using k(2) ok by blast
  have cites1: "\<forall>c \<in> set (lw_consents w). cited t1 c" using cites cited_grows [OF _ k(1)] by blast
  note present = insert_consents_present [OF ok1 ins pub cites1]
  have "\<not> owes (acceptedEpochs ?u cs) doc" if doc: "doc \<in> set (lg_documents ?lg)" for doc
  proof (cases "owes (acceptedEpochs ?u (lw_consents w)) doc")
    case True
    with doc assms(5) have "ld_id doc \<in> ac_documentId ` set reqs" by (simp add: gapFor_def gap_outstanding)
    then obtain req where req: "req \<in> set reqs" "ac_documentId req = ld_id doc" by auto
    from resolved_every [OF docs req(1)] req(2) find_document_distinct [OF assms(2) doc] have "doc \<in> set docs"
      by (auto simp: resolve_one_doc)
    then show ?thesis using present by (auto simp: owes_accepted)
  qed (use present in \<open>auto simp: owes_accepted\<close>)
  then show ?thesis by (simp add: gapFor_def gap_satisfied)
qed

subsection \<open>The text that is served is the text that can be accepted\<close>

lemma find_only: "filter P t = [r] \<Longrightarrow> List.find P t = Some r"
  by (induction t) (auto split: if_splits)

text \<open>What a client is shown is what its acceptance is checked against: the text served
  for the version a build requires hashes, byte for byte as it is sent, to the digest served
  beside it, and an acceptance that quotes that digest is resolved to the document; a digest of
  any other text is refused.\<close>

theorem served_text_accepted:
  assumes "\<And>i. requires_published (svc i)" "distinct (map ld_id (lg_publishedDocuments (svc i)))" "distinct (map ld_id (lg_documents (svc i)))"
    and "\<And>i. lg_source (svc i) = fileSystemLegalSource sha (base i) (readFile i)"
    and "w = legal_run sha svc users legal_start es" "i \<in> set (lw_published w)"
    and "doc \<in> set (lg_documents (svc i))"
    and "textFor sha (svc i) (ld_id doc) (ld_version doc) (lw_revisions w) = Text_ok body digest"
  shows "sha (utf8_encode body) = digest \<and>
    (resolve_one (svc i) \<lparr>ac_documentId = ld_id doc, ac_version = ld_version doc, ac_contentSha256 = h\<rparr> = Inr doc \<longleftrightarrow> h = digest)"
proof -
  have inv: "legal_inv sha svc w" using legal_reached [of svc] assms(1,5) by simp
  have sub: "set (lg_documents (svc i)) \<subseteq> set (lg_publishedDocuments (svc i))" using assms(1) [of i] by (simp add: requires_published_def)
  have pub: "published_in doc (lw_revisions w)" using inv assms(6,7) sub by (auto simp: legal_inv_def)
  then obtain r where r: "r \<in> set (lw_revisions w)" "revision_of (ld_id doc) (ld_version doc) r" "agrees doc r"
    by (auto simp: published_in_def)
  have ok: "revs_ok sha (lw_revisions w)" using inv by (simp add: legal_inv_def)
  have find: "List.find (revision_of (ld_id doc) (ld_version doc)) (lw_revisions w) = Some r"
    by (rule find_only [OF only_revision [OF ok r(1,2)]])
  have chk: "content_check sha r" using inv r(1) by (simp add: legal_inv_def revs_ok_def list_all_iff)
  have cur: "findLegalDocument (lg_publishedDocuments (svc i)) (ld_id doc) = Some doc"
    using find_document_distinct assms(2,7) sub by blast
  have d: "digest = rv_sha256 r" "legalDigest sha body = digest"
    using assms(8) by (auto simp: textFor_def find split: option.splits if_splits)
  have "sha (utf8_encode body) = digest"
  proof (cases "rv_content r")
    case None
    then have "lg_source (svc i) doc = Some body"
      using assms(8) by (auto simp: textFor_def find cur split: option.splits if_splits)
    then have "normalizeLegalText body = body"
      by (auto simp: assms(4) fileSystemLegalSource_def Let_def normalizeLegalText_idem split: option.splits if_splits)
    then show ?thesis using d(2) by (simp add: legalDigest_def)
  next
    case (Some c)
    then have "body = c" using assms(8) by (auto simp: textFor_def find split: if_splits)
    then show ?thesis using Some chk d(1) by (simp add: content_check_def)
  qed
  moreover have "digest = ld_contentSha256 doc" using d(1) r(3) by (simp add: agrees_def)
  moreover have "findLegalDocument (lg_documents (svc i)) (ld_id doc) = Some doc" by (rule find_document_distinct [OF assms(3,7)])
  ultimately show ?thesis by (auto simp: resolve_one_doc)
qed

subsection \<open>Witnesses\<close>

definition demo_sha :: "string \<Rightarrow> string" where
  "demo_sha s = replicate 63 (CHR ''0'') @ [if length s = 3 then CHR ''a'' else CHR ''b'']"

definition demo_doc :: legal_document where
  "demo_doc = \<lparr>ld_id = ''terms'', ld_path = ''terms.md'', ld_version = ''1.0'', ld_consentEpoch = 1, ld_material = True,
     ld_contentSha256 = demo_sha (''ab'' @ [LF]), ld_url = [], ld_effectiveAt = None, ld_notes = []\<rparr>"

definition demo_read :: "string \<Rightarrow> string \<Rightarrow> string option" where
  "demo_read r p = Some (''ab '' @ [CR, LF])"

definition demo_legal :: legal_service where
  "demo_legal = lg_new [demo_doc] (fileSystemLegalSource demo_sha (Some ''legal'') demo_read) []"

definition demo_ctx :: acceptance_context where
  "demo_ctx = \<lparr>ax_userId = ''u1'', ax_authMethod = ''session'', ax_sessionId = None, ax_ip = None, ax_userAgent = None,
     ax_clientBuild = None, ax_clientPlatform = None\<rparr>"

definition demo_acceptance :: acceptance where
  "demo_acceptance = \<lparr>ac_documentId = ''terms'', ac_version = ''1.0'', ac_contentSha256 = demo_sha (''ab'' @ [LF])\<rparr>"

lemma demo_requires [simp]: "requires_published demo_legal"
  by (simp add: demo_legal_def)

definition demo_row :: consent_row where
  "demo_row = consent_row_of demo_ctx 9 [] demo_doc"

definition demo_events :: "legal_event list" where
  "demo_events = [Lg_publish 0 5, Lg_accept 1 demo_ctx 9 [demo_acceptance]]"

lemma demo_consents [simp]:
  "lw_consents (legal_run demo_sha (\<lambda>_. demo_legal) [''u1''] legal_start demo_events) = [demo_row]"
  by code_simp

theorem evidence_stands_witness:
  "demo_row \<in> set (lw_consents (legal_run demo_sha (\<lambda>_. demo_legal) [''u1''] legal_start
     (demo_events @ [Lg_accept 2 demo_ctx 11 [demo_acceptance], Lg_erase ''u2'']))) \<and>
   demo_row \<notin> set (lw_consents (legal_run demo_sha (\<lambda>_. demo_legal) [''u1''] legal_start
     (demo_events @ [Lg_erase ''u1''])))"
proof -
  have u: "cn_userId demo_row = ''u1''" by (simp add: demo_row_def consent_row_of_def demo_ctx_def)
  note stands = evidence_stands [of "\<lambda>_. demo_legal" demo_row demo_sha "[''u1'']" demo_events]
  show ?thesis
    using stands [of "[Lg_accept 2 demo_ctx 11 [demo_acceptance], Lg_erase ''u2'']"] stands [of "[Lg_erase ''u1'']"]
    by (simp add: u)
qed

definition demo_published :: legal_world where
  "demo_published = legal_run demo_sha (\<lambda>_. demo_legal) [''u1''] legal_start [Lg_publish 0 5]"

definition demo_after :: "(api_error option + consent_row list) \<times> bool \<times> revision_row list \<times> consent_row list" where
  "demo_after = consent_accept demo_sha demo_legal [''u1''] demo_ctx 9 [demo_acceptance] (0 \<in> set (lw_published demo_published))
     (lw_revisions demo_published) (lw_consents demo_published)"

lemma demo_accepted: "demo_after = (Inr [demo_row], True, lw_revisions demo_published, [demo_row])"
  by code_simp

theorem accepted_closes_gap_witness:
  "cg_satisfied (gapFor demo_legal (acceptedEpochs ''u1'' [demo_row]))"
proof -
  have ctx: "ax_userId demo_ctx = ''u1''" by (simp add: demo_ctx_def)
  have docs: "lg_documents demo_legal = [demo_doc]" by (simp add: demo_legal_def lg_new_def)
  have "cg_outstanding (gapFor demo_legal (acceptedEpochs ''u1'' (lw_consents demo_published))) = [demo_doc]" by code_simp
  then show ?thesis
    using accepted_closes_gap [of "\<lambda>_. demo_legal" 0 demo_published demo_sha "[''u1'']" "[Lg_publish 0 5]" demo_ctx 9
        "[demo_acceptance]" "[demo_row]" True "lw_revisions demo_published" "[demo_row]"]
      demo_accepted [unfolded demo_after_def]
    by (simp add: ctx docs demo_published_def del: run_calls_simps) (simp add: demo_acceptance_def demo_doc_def)
qed

theorem served_text_accepted_witness:
  "demo_sha (utf8_encode (''ab'' @ [LF])) = ld_contentSha256 demo_doc \<and>
   resolve_one demo_legal \<lparr>ac_documentId = ''terms'', ac_version = ''1.0'', ac_contentSha256 = demo_sha ''draft''\<rparr> \<noteq> Inr demo_doc"
proof -
  have docs: "lg_documents demo_legal = [demo_doc]" "lg_publishedDocuments demo_legal = [demo_doc]"
    "lg_source demo_legal = fileSystemLegalSource demo_sha (Some ''legal'') demo_read" by (simp_all add: demo_legal_def lg_new_def)
  have ids: "ld_id demo_doc = ''terms''" "ld_version demo_doc = ''1.0''" by (simp_all add: demo_doc_def)
  have "0 \<in> set (lw_published demo_published)" by code_simp
  moreover have "textFor demo_sha demo_legal ''terms'' ''1.0'' (lw_revisions demo_published) = Text_ok (''ab'' @ [LF]) (ld_contentSha256 demo_doc)"
    by code_simp
  moreover have "demo_sha ''draft'' \<noteq> ld_contentSha256 demo_doc" by code_simp
  ultimately show ?thesis
    using served_text_accepted [of "\<lambda>_. demo_legal" 0 demo_sha "\<lambda>_. Some ''legal''" "\<lambda>_. demo_read" demo_published
        "[''u1'']" "[Lg_publish 0 5]" demo_doc "''ab'' @ [LF]" "ld_contentSha256 demo_doc" "demo_sha ''draft''"]
    by (simp add: docs ids demo_published_def del: run_calls_simps)
qed

end
