(* ===== verification/Api_Tokens.thy ===== *)
theory Api_Tokens
  imports Api_Errors Js_Bytes Js_Sort
begin

text \<open>
  Personal API tokens: \<^verbatim>\<open>apps/bff/src/services/tokens.ts\<close>, on the table of
  \<^verbatim>\<open>packages/db/migrations/0002_api_tokens.sql\<close> with its constraints. The table is a list of rows, a
  transaction one step on it. The digest, the random bytes and the ids the database makes up
  are parameters; the clock of the application and the clock of the database may differ.
\<close>

subsection \<open>Tokens\<close>

definition TOKEN_SCOPES :: "string list" where
  "TOKEN_SCOPES = [''read:me'', ''read:wishlist'', ''read:recommendations'', ''read:connections'']"

definition DEFAULT_SCOPES :: "string list" where
  "DEFAULT_SCOPES = [''read:me'', ''read:wishlist'', ''read:recommendations'']"

definition SECRET_BYTES :: nat where
  "SECRET_BYTES = 32"

datatype token_prefix = Pfm_live | Pfm_test

definition prefix_text :: "token_prefix \<Rightarrow> string" where
  "prefix_text p = (case p of Pfm_live \<Rightarrow> ''pfm_live'' | Pfm_test \<Rightarrow> ''pfm_test'')"

definition token_char :: "char \<Rightarrow> bool" where
  "token_char c \<longleftrightarrow> (let n = code c in (65 \<le> n \<and> n \<le> 90) \<or> (97 \<le> n \<and> n \<le> 122) \<or> (48 \<le> n \<and> n \<le> 57) \<or>
     n = 95 \<or> n = 45)"

definition token_pattern :: "string \<Rightarrow> bool" where
  "token_pattern s \<longleftrightarrow> (starts_with ''pfm_live_'' s \<or> starts_with ''pfm_test_'' s) \<and>
     length (drop 9 s) = 43 \<and> list_all token_char (drop 9 s)"

definition hashToken :: "(string \<Rightarrow> string) \<Rightarrow> string \<Rightarrow> string" where
  "hashToken sha256Hex token = sha256Hex (utf8_encode token)"

definition digestsEqual :: "string \<Rightarrow> string \<Rightarrow> bool" where
  "digestsEqual a b = (if length (utf8_encode a) \<noteq> length (utf8_encode b) then False else utf8_encode a = utf8_encode b)"

record minted =
  mi_token :: string
  mi_hash :: string
  mi_lastFour :: string

definition mintToken :: "(string \<Rightarrow> string) \<Rightarrow> token_prefix \<Rightarrow> string \<Rightarrow> minted" where
  "mintToken sha prefix random =
     (let secret = b64_encode random; token = prefix_text prefix @ ''_'' @ secret
      in \<lparr>mi_token = token, mi_hash = hashToken sha token, mi_lastFour = drop (length secret - 4) secret\<rparr>)"

subsection \<open>The table\<close>

record token_row =
  tk_id :: string
  tk_userId :: string
  tk_name :: string
  tk_hash :: string
  tk_prefix :: string
  tk_lastFour :: string
  tk_scopes :: "string list"
  tk_rate :: int
  tk_createdAt :: time
  tk_expiresAt :: time
  tk_lastUsedAt :: "time option"
  tk_lastUsedIp :: "string option"
  tk_revokedAt :: "time option"
  tk_rotatedFrom :: "string option"

text \<open>What a client sees of a row; \<open>iso_text\<close> writes a date.\<close>

record api_token_record =
  ap_id :: string
  ap_name :: string
  ap_tokenPrefix :: string
  ap_lastFour :: string
  ap_scopes :: "string list"
  ap_rateLimitPerMinute :: int
  ap_createdAt :: string
  ap_expiresAt :: string
  ap_lastUsedAt :: "string option"
  ap_revokedAt :: "string option"
  ap_rotatedFromId :: "string option"

definition toRecord :: "(time \<Rightarrow> string) \<Rightarrow> token_row \<Rightarrow> api_token_record" where
  "toRecord iso_text r =
     \<lparr>ap_id = tk_id r, ap_name = tk_name r, ap_tokenPrefix = tk_prefix r, ap_lastFour = tk_lastFour r,
      ap_scopes = tk_scopes r, ap_rateLimitPerMinute = tk_rate r, ap_createdAt = iso_text (tk_createdAt r),
      ap_expiresAt = iso_text (tk_expiresAt r), ap_lastUsedAt = map_option iso_text (tk_lastUsedAt r),
      ap_revokedAt = map_option iso_text (tk_revokedAt r), ap_rotatedFromId = tk_rotatedFrom r\<rparr>"

text \<open>The users of the database, each with the time of its deletion.\<close>

type_synonym token_users = "(string \<times> time option) list"

datatype pg_violation = Check_violation | Unique_name | Other_violation

definition token_checks :: "token_row \<Rightarrow> bool" where
  "token_checks r \<longleftrightarrow> 1 \<le> length (tk_name r) \<and> length (tk_name r) \<le> 64 \<and> hash_shape (tk_hash r) \<and>
     tk_prefix r \<in> {''pfm_live'', ''pfm_test''} \<and> length (tk_lastFour r) = 4 \<and> 1 \<le> tk_rate r \<and> tk_rate r \<le> 600 \<and>
     set (tk_scopes r) \<subseteq> set TOKEN_SCOPES \<and> tk_scopes r \<noteq> [] \<and> tk_createdAt r < tk_expiresAt r"

definition token_insert :: "token_users \<Rightarrow> token_row \<Rightarrow> token_row list \<Rightarrow> pg_violation + token_row list" where
  "token_insert users r t =
     (if \<not> token_checks r then Inl Check_violation
      else if tk_id r \<in> tk_id ` set t \<or> tk_hash r \<in> tk_hash ` set t then Inl Other_violation
      else if (tk_userId r, tk_name r) \<in> (\<lambda>x. (tk_userId x, tk_name x)) ` set t then Inl Unique_name
      else if map_of users (tk_userId r) = None then Inl Other_violation
      else Inr (t @ [r]))"

text \<open>An answer is an error for the client, or one that is not translated and becomes a 500.\<close>

datatype token_failure = Refused api_error | Unexpected

definition translateInsertError :: "pg_violation \<Rightarrow> token_failure" where
  "translateInsertError v = (case v of
     Unique_name \<Rightarrow> Refused (conflict (Some ''You already have a token with that name.''))
   | Check_violation \<Rightarrow> Refused (unprocessable (Some ''The token parameters are not acceptable.'') None)
   | Other_violation \<Rightarrow> Unexpected)"

subsection \<open>Names\<close>

definition truncateName :: "string \<Rightarrow> string" where
  "truncateName name = (if length name \<le> 64 then name else take 61 name @ ''...'')"

definition ends_with :: "string \<Rightarrow> string \<Rightarrow> bool" where
  "ends_with suffix s \<longleftrightarrow> length suffix \<le> length s \<and> drop (length s - length suffix) s = suffix"

definition no_newline :: "string \<Rightarrow> bool" where
  "no_newline s \<longleftrightarrow> CHR 0x0A \<notin> set s \<and> CHR 0x0D \<notin> set s"

text \<open>The match of a rotated name: the name before it, and the digits when there are any.\<close>

definition rotated_match :: "string \<Rightarrow> (string \<times> string option) option" where
  "rotated_match name =
     (let one = '' (rotated)'';
          rest = butlast name;
          digits = rev (takeWhile is_digit (rev rest));
          before = take (length rest - length digits) rest
      in if ends_with one name \<and> no_newline (take (length name - length one) name)
         then Some (take (length name - length one) name, None)
         else if ends_with '')'' name \<and> digits \<noteq> [] \<and> ends_with '' (rotated '' before \<and>
           no_newline (take (length before - 10) before)
         then Some (take (length before - 10) before, Some digits)
         else None)"

text \<open>\<open>big\<close> is how the language writes one more than a number above the exact integers.\<close>

definition next_number :: "(string \<Rightarrow> string) \<Rightarrow> string \<Rightarrow> string" where
  "next_number big digits =
     (if decimal digits + 1 < 2 ^ 53 then show_int (decimal digits + 1) else big digits)"

definition nextRotationName :: "(string \<Rightarrow> string) \<Rightarrow> string \<Rightarrow> string" where
  "nextRotationName big name =
     (case rotated_match name of
        None \<Rightarrow> truncateName (name @ '' (rotated)'')
      | Some (base, digits) \<Rightarrow>
          truncateName (base @ '' (rotated '' @ (case digits of None \<Rightarrow> ''2'' | Some ds \<Rightarrow> next_number big ds) @ '')''))"

subsection \<open>The service\<close>

record token_options =
  to_prefix :: token_prefix
  to_maxPerUser :: nat
  to_defaultTtlDays :: int
  to_maxTtlDays :: int
  to_defaultRateLimit :: int

record create_token =
  ct_name :: string
  ct_scopes :: "string list option"
  ct_expiresInDays :: "int option"

definition day_ms :: int where
  "day_ms = 86400000"

definition by_code_unit :: "string \<Rightarrow> string \<Rightarrow> real" where
  "by_code_unit a b = code_units (map of_char a) (map of_char b)"

definition validate :: "token_options \<Rightarrow> time \<Rightarrow> create_token \<Rightarrow> api_error + string list \<times> time" where
  "validate opts appNow input =
     (let scopes = orelse (ct_scopes input) DEFAULT_SCOPES;
          unknown = filter (\<lambda>s. s \<notin> set TOKEN_SCOPES) scopes;
          days = orelse (ct_expiresInDays input) (to_defaultTtlDays opts)
      in if scopes = [] then Inl (unprocessable (Some ''At least one scope is required.'') None)
         else if unknown \<noteq> []
         then Inl (unprocessable (Some (''Unknown scope(s): '' @ js_join '', '' unknown @ ''. Supported scopes are '' @
                     js_join '', '' TOKEN_SCOPES @ ''.'')) None)
         else if days < 1 \<or> days > to_maxTtlDays opts
         then Inl (unprocessable (Some (''expiresInDays must be between 1 and '' @ show_int (to_maxTtlDays opts) @ ''.'')) None)
         else Inr (js_sort by_code_unit (remdups scopes), appNow + days * day_ms))"

definition live :: "time \<Rightarrow> string \<Rightarrow> token_row \<Rightarrow> bool" where
  "live dbNow userId r \<longleftrightarrow> tk_userId r = userId \<and> tk_revokedAt r = None \<and> dbNow < tk_expiresAt r"

text \<open>What a call draws from outside: the two clocks, the secret and the id of the new row.\<close>

record token_call =
  tc_appNow :: time
  tc_dbNow :: time
  tc_random :: string
  tc_newId :: string

record issued_token =
  it_row :: token_row
  it_token :: string

definition new_row :: "token_options \<Rightarrow> token_call \<Rightarrow> minted \<Rightarrow> string \<Rightarrow> string \<Rightarrow> string list \<Rightarrow> int \<Rightarrow> time \<Rightarrow> string option \<Rightarrow> token_row" where
  "new_row opts call minted userId name scopes rate expiresAt rotatedFrom =
     \<lparr>tk_id = tc_newId call, tk_userId = userId, tk_name = name, tk_hash = mi_hash minted,
      tk_prefix = prefix_text (to_prefix opts), tk_lastFour = mi_lastFour minted, tk_scopes = scopes, tk_rate = rate,
      tk_createdAt = tc_dbNow call, tk_expiresAt = expiresAt, tk_lastUsedAt = None, tk_lastUsedIp = None,
      tk_revokedAt = None, tk_rotatedFrom = rotatedFrom\<rparr>"

definition token_create ::
  "(string \<Rightarrow> string) \<Rightarrow> token_options \<Rightarrow> token_users \<Rightarrow> token_call \<Rightarrow> string \<Rightarrow> create_token \<Rightarrow> token_row list \<Rightarrow>
     (token_failure + issued_token) \<times> token_row list" where
  "token_create sha opts users call userId input t =
     (case validate opts (tc_appNow call) input of
        Inl e \<Rightarrow> (Inl (Refused e), t)
      | Inr (scopes, expiresAt) \<Rightarrow>
          let minted = mintToken sha (to_prefix opts) (tc_random call) in
          if to_maxPerUser opts \<le> length (filter (live (tc_dbNow call) userId) t)
          then (Inl (Refused (conflict (Some (''You already have '' @ show_nat (to_maxPerUser opts) @
                  '' active tokens. Revoke one before creating another.'')))), t)
          else
            let row = new_row opts call minted userId (ct_name input) scopes (to_defaultRateLimit opts) expiresAt None
            in case token_insert users row t of
                 Inl v \<Rightarrow> (Inl (translateInsertError v), t)
               | Inr t' \<Rightarrow> (Inr \<lparr>it_row = row, it_token = mi_token minted\<rparr>, t'))"

definition newest_token :: "token_row \<Rightarrow> token_row \<Rightarrow> real" where
  "newest_token a b = of_int (tk_createdAt b - tk_createdAt a)"

text \<open>The operations answer with the row, which \<open>toRecord\<close> presents.\<close>

definition token_list :: "string \<Rightarrow> token_row list \<Rightarrow> token_row list" where
  "token_list userId t = js_sort newest_token (filter (\<lambda>r. tk_userId r = userId) t)"

definition revocable :: "string \<Rightarrow> string \<Rightarrow> token_row \<Rightarrow> bool" where
  "revocable userId tokenId r \<longleftrightarrow> tk_id r = tokenId \<and> tk_userId r = userId \<and> tk_revokedAt r = None"

definition revoke_rows :: "time \<Rightarrow> string \<Rightarrow> string \<Rightarrow> token_row list \<Rightarrow> token_row list" where
  "revoke_rows dbNow userId tokenId t =
     map (\<lambda>r. if revocable userId tokenId r then r\<lparr>tk_revokedAt := Some dbNow\<rparr> else r) t"

definition token_revoke :: "time \<Rightarrow> string \<Rightarrow> string \<Rightarrow> token_row list \<Rightarrow> (token_failure + token_row) \<times> token_row list" where
  "token_revoke dbNow userId tokenId t =
     (case filter (revocable userId tokenId) t of
        [] \<Rightarrow> (Inl (Refused (notFound ''No such token.'')), t)
      | r # _ \<Rightarrow> (Inr (r\<lparr>tk_revokedAt := Some dbNow\<rparr>), revoke_rows dbNow userId tokenId t))"

text \<open>A transaction that throws leaves the table as it was.\<close>

definition token_rotate ::
  "(string \<Rightarrow> string) \<Rightarrow> (string \<Rightarrow> string) \<Rightarrow> token_options \<Rightarrow> token_users \<Rightarrow> token_call \<Rightarrow> string \<Rightarrow> string \<Rightarrow> token_row list \<Rightarrow>
     (token_failure + issued_token) \<times> token_row list" where
  "token_rotate sha big opts users call userId tokenId t =
     (let minted = mintToken sha (to_prefix opts) (tc_random call) in
      case filter (revocable userId tokenId) t of
        [] \<Rightarrow> (Inl (Refused (notFound ''No such token.'')), t)
      | old # _ \<Rightarrow>
          let t1 = revoke_rows (tc_dbNow call) userId tokenId t;
              row = new_row opts call minted userId (nextRotationName big (tk_name old)) (tk_scopes old) (tk_rate old)
                (tc_appNow call + to_defaultTtlDays opts * day_ms) (Some (tk_id old))
          in case token_insert users row t1 of
               Inl v \<Rightarrow> (Inl (translateInsertError v), t)
             | Inr t' \<Rightarrow> (Inr \<lparr>it_row = row, it_token = mi_token minted\<rparr>, t'))"

record authenticated_token =
  at_tokenId :: string
  at_userId :: string
  at_scopes :: "string list"
  at_rate :: int

definition token_authenticate ::
  "(string \<Rightarrow> string) \<Rightarrow> token_users \<Rightarrow> time \<Rightarrow> string \<Rightarrow> token_row list \<Rightarrow> authenticated_token option" where
  "token_authenticate sha users dbNow token t =
     (if \<not> token_pattern token then None
      else let digest = hashToken sha token in
        case filter (\<lambda>r. tk_hash r = digest \<and> tk_revokedAt r = None \<and> dbNow < tk_expiresAt r \<and>
               map_of users (tk_userId r) = Some None) t of
          [] \<Rightarrow> None
        | r # _ \<Rightarrow>
            if \<not> digestsEqual (tk_hash r) digest then None
            else Some \<lparr>at_tokenId = tk_id r, at_userId = tk_userId r, at_scopes = tk_scopes r, at_rate = tk_rate r\<rparr>)"

definition token_touch :: "time \<Rightarrow> string \<Rightarrow> string option \<Rightarrow> token_row list \<Rightarrow> token_row list" where
  "token_touch dbNow tokenId ip t =
     map (\<lambda>r. if tk_id r = tokenId \<and> (case tk_lastUsedAt r of None \<Rightarrow> True | Some u \<Rightarrow> u < dbNow - 60000)
              then r\<lparr>tk_lastUsedAt := Some dbNow, tk_lastUsedIp := ip\<rparr> else r) t"

subsection \<open>Runs of operations\<close>

datatype token_event =
    Tk_create token_call string create_token
  | Tk_revoke time string string
  | Tk_rotate token_call string string
  | Tk_touch time string "string option"

definition token_step ::
  "(string \<Rightarrow> string) \<Rightarrow> (string \<Rightarrow> string) \<Rightarrow> token_options \<Rightarrow> token_users \<Rightarrow> token_event \<Rightarrow> token_row list \<Rightarrow> token_row list" where
  "token_step sha big opts users e t = (case e of
     Tk_create call u input \<Rightarrow> snd (token_create sha opts users call u input t)
   | Tk_revoke now u i \<Rightarrow> snd (token_revoke now u i t)
   | Tk_rotate call u i \<Rightarrow> snd (token_rotate sha big opts users call u i t)
   | Tk_touch now i ip \<Rightarrow> token_touch now i ip t)"

text \<open>What a step does to the table: it keeps it, rewrites rows in place, revokes rows, or adds one
  row that passed the constraints, after a revocation or without.\<close>

lemma token_insert_ok:
  "token_insert users r t = Inr t' \<Longrightarrow> t' = t @ [r] \<and> token_checks r \<and> tk_id r \<notin> tk_id ` set t \<and> tk_hash r \<notin> tk_hash ` set t \<and>
     (tk_userId r, tk_name r) \<notin> (\<lambda>x. (tk_userId x, tk_name x)) ` set t"
  by (auto simp: token_insert_def split: if_splits)

lemma token_step_cases:
  obtains (same) "token_step sha big opts users e t = t"
    | (touched) now i ip where "e = Tk_touch now i ip" "token_step sha big opts users e t = token_touch now i ip t"
    | (revoked) now u i where "e = Tk_revoke now u i" "token_step sha big opts users e t = revoke_rows now u i t"
    | (added) call u input r where "e = Tk_create call u input" "token_insert users r t = Inr (t @ [r])"
        "token_step sha big opts users e t = t @ [r]" "tk_userId r = u"
        "length (filter (live (tc_dbNow call) u) t) < to_maxPerUser opts"
    | (rotated) call u i old rest r where "e = Tk_rotate call u i" "filter (revocable u i) t = old # rest"
        "token_insert users r (revoke_rows (tc_dbNow call) u i t) = Inr (revoke_rows (tc_dbNow call) u i t @ [r])"
        "token_step sha big opts users e t = revoke_rows (tc_dbNow call) u i t @ [r]" "tk_userId r = u"
proof (cases e)
  case (Tk_create call u input)
  show thesis
  proof (cases "fst (token_create sha opts users call u input t)")
    case (Inl f)
    then have "snd (token_create sha opts users call u input t) = t"
      by (auto simp: token_create_def Let_def split: sum.splits prod.splits if_splits)
    with Tk_create same show thesis by (simp add: token_step_def)
  next
    case (Inr it)
    then obtain t' where ins: "token_insert users (it_row it) t = Inr t'" and res: "snd (token_create sha opts users call u input t) = t'"
      and u: "tk_userId (it_row it) = u" and room: "length (filter (live (tc_dbNow call) u) t) < to_maxPerUser opts"
      by (auto simp: token_create_def Let_def new_row_def split: sum.splits prod.splits if_splits)
    have t': "t' = t @ [it_row it]" using token_insert_ok [OF ins] by simp
    show thesis
    proof (rule added [OF Tk_create _ _ u room])
      show "token_insert users (it_row it) t = Inr (t @ [it_row it])" using ins t' by simp
      show "token_step sha big opts users e t = t @ [it_row it]" using Tk_create res t' by (simp add: token_step_def)
    qed
  qed
next
  case (Tk_revoke now u i)
  with same revoked show thesis by (cases "filter (revocable u i) t") (simp_all add: token_step_def token_revoke_def)
next
  case (Tk_rotate call u i)
  show thesis
  proof (cases "fst (token_rotate sha big opts users call u i t)")
    case (Inl f)
    then have "snd (token_rotate sha big opts users call u i t) = t"
      by (auto simp: token_rotate_def Let_def split: sum.splits list.splits)
    with Tk_rotate same show thesis by (simp add: token_step_def)
  next
    case (Inr it)
    then obtain old rest t' where f: "filter (revocable u i) t = old # rest"
      and ins: "token_insert users (it_row it) (revoke_rows (tc_dbNow call) u i t) = Inr t'"
      and res: "snd (token_rotate sha big opts users call u i t) = t'" and u: "tk_userId (it_row it) = u"
      by (auto simp: token_rotate_def Let_def new_row_def split: sum.splits list.splits)
    have t': "t' = revoke_rows (tc_dbNow call) u i t @ [it_row it]" using token_insert_ok [OF ins] by simp
    show thesis
    proof (rule rotated [OF Tk_rotate f _ _ u])
      show "token_insert users (it_row it) (revoke_rows (tc_dbNow call) u i t) = Inr (revoke_rows (tc_dbNow call) u i t @ [it_row it])"
        using ins t' by simp
      show "token_step sha big opts users e t = revoke_rows (tc_dbNow call) u i t @ [it_row it]"
        using Tk_rotate res t' by (simp add: token_step_def)
    qed
  qed
next
  case (Tk_touch now i ip)
  with touched show thesis by (simp add: token_step_def)
qed

subsection \<open>A revoked token stays out\<close>

definition revoked_hash :: "string \<Rightarrow> token_row list \<Rightarrow> bool" where
  "revoked_hash h t \<longleftrightarrow> h \<in> tk_hash ` set t \<and> (\<forall>r \<in> set t. tk_hash r = h \<longrightarrow> tk_revokedAt r \<noteq> None)"

lemma revoke_rows_hashes [simp]: "map tk_hash (revoke_rows now u i t) = map tk_hash t"
  by (simp add: revoke_rows_def comp_def if_distrib cong: if_cong)

lemma revoke_rows_hash_set [simp]: "tk_hash ` set (revoke_rows now u i t) = tk_hash ` set t"
  by (metis revoke_rows_hashes set_map)

lemma revoked_hash_revoke: "revoked_hash h t \<Longrightarrow> revoked_hash h (revoke_rows now u i t)"
  unfolding revoked_hash_def revoke_rows_hash_set by (auto simp: revoke_rows_def)

lemma revoked_hash_insert: "revoked_hash h t \<Longrightarrow> token_insert users r t = Inr t' \<Longrightarrow> revoked_hash h t'"
  by (auto simp: revoked_hash_def dest!: token_insert_ok)

lemma revoked_hash_touch: "revoked_hash h t \<Longrightarrow> revoked_hash h (token_touch now i ip t)"
proof -
  have "map tk_hash (token_touch now i ip t) = map tk_hash t"
    by (simp add: token_touch_def comp_def if_distrib cong: if_cong)
  then have "tk_hash ` set (token_touch now i ip t) = tk_hash ` set t" by (metis set_map)
  then show "revoked_hash h t \<Longrightarrow> revoked_hash h (token_touch now i ip t)"
    unfolding revoked_hash_def by (auto simp: token_touch_def)
qed

interpretation revoked_tokens: machine "token_step sha big opts users" "revoked_hash h"
proof
  show "revoked_hash h (token_step sha big opts users e t)" if "revoked_hash h t" for t e
    by (rule token_step_cases [of sha big opts users e t])
      (use that in \<open>auto intro: revoked_hash_revoke revoked_hash_touch revoked_hash_insert\<close>)
qed

lemma revoked_hash_refused: "revoked_hash h t \<Longrightarrow> hashToken sha token = h \<Longrightarrow> token_authenticate sha users now token t = None"
  by (auto simp: token_authenticate_def revoked_hash_def Let_def filter_empty_conv split: list.split dest!: filter_eq_ConsD)

text \<open>Claim C19. A revoked token never authenticates again: after it was revoked or rotated away, no sequence of
  operations, by whomever and at whatever time, makes its secret good for anything.
  The run starts from any table that holds the row as revoked.\<close>

theorem revoked_stays_out:
  assumes "distinct (map tk_hash t)" "r \<in> set t" "tk_revokedAt r \<noteq> None" "hashToken sha token = tk_hash r"
  shows "token_authenticate sha users' now token (run_calls (token_step sha big opts users) t es) = None"
proof (rule revoked_hash_refused [OF revoked_tokens.inv_run assms(4)])
  have "r' = r" if "r' \<in> set t" "tk_hash r' = tk_hash r" for r'
    using inj_onD [OF distinct_map [THEN iffD1, THEN conjunct2, OF assms(1)] that(2,1) assms(2)] .
  then show "revoked_hash (tk_hash r) t" using assms(2,3) by (auto simp: revoked_hash_def)
qed

subsection \<open>An issued token works\<close>

lemma b64_char_token: "n < 64 \<Longrightarrow> token_char (b64_char n)"
  by (auto simp: token_char_def b64_char_def Let_def)

lemma b64_encode_token_chars: "list_all token_char (b64_encode s)"
  using b64_encode_chars [of s] by (auto simp: list_all_iff intro: b64_char_token)

lemma b64_encode_length: "length (b64_encode s) = (4 * length s + 2) div 3"
  by (induction s rule: b64_encode.induct) auto

lemma minted_pattern: "length random = SECRET_BYTES \<Longrightarrow> token_pattern (mi_token (mintToken sha p random))"
  by (cases p) (simp_all add: token_pattern_def mintToken_def prefix_text_def starts_with_def b64_encode_token_chars
      b64_encode_length SECRET_BYTES_def Let_def)

lemma mint_hash: "mi_hash (mintToken sha p random) = hashToken sha (mi_token (mintToken sha p random))"
  by (simp add: mintToken_def Let_def)

lemma authenticate_new:
  assumes "token_pattern token" "hashToken sha token = tk_hash r" "tk_hash r \<notin> tk_hash ` set t"
    and "tk_revokedAt r = None" "now < tk_expiresAt r" "map_of users (tk_userId r) = Some None"
  shows "token_authenticate sha users now token (t @ [r]) =
    Some \<lparr>at_tokenId = tk_id r, at_userId = tk_userId r, at_scopes = tk_scopes r, at_rate = tk_rate r\<rparr>"
proof -
  have "filter (\<lambda>x. tk_hash x = tk_hash r \<and> tk_revokedAt x = None \<and> now < tk_expiresAt x \<and> map_of users (tk_userId x) = Some None) t = []"
    by (rule filter_False) (use assms(3) in \<open>metis imageI\<close>)
  with assms show ?thesis by (simp add: token_authenticate_def Let_def digestsEqual_def)
qed

text \<open>Claim C20. The secret that issuing a token hands out is accepted until the token expires, for the user
  it was issued to and with the scopes that were asked for.
  The table is the one that issuing leaves, so a revocation since then is not at issue.\<close>

theorem issued_token_authenticates:
  assumes "token_create sha opts users call u input t = (Inr it, t')" "length (tc_random call) = SECRET_BYTES"
    and "now < tk_expiresAt (it_row it)" "map_of users' u = Some None"
  shows "\<exists>a. token_authenticate sha users' now (it_token it) t' = Some a \<and> at_userId a = u \<and> at_tokenId a = tc_newId call \<and>
    set (at_scopes a) = set (orelse (ct_scopes input) DEFAULT_SCOPES)"
proof -
  let ?m = "mintToken sha (to_prefix opts) (tc_random call)"
  from assms(1) obtain scopes expiry where
    v: "validate opts (tc_appNow call) input = Inr (scopes, expiry)" and
    row: "it_row it = new_row opts call ?m u (ct_name input) scopes (to_defaultRateLimit opts) expiry None" and
    tok: "it_token it = mi_token ?m" and ins: "token_insert users (it_row it) t = Inr t'"
    by (auto simp: token_create_def Let_def split: sum.splits prod.splits if_splits)
  note i = token_insert_ok [OF ins]
  have sc: "set scopes = set (orelse (ct_scopes input) DEFAULT_SCOPES)"
    using v by (auto simp: validate_def Let_def split: if_splits)
  have "token_authenticate sha users' now (it_token it) (t @ [it_row it]) =
      Some \<lparr>at_tokenId = tk_id (it_row it), at_userId = tk_userId (it_row it), at_scopes = tk_scopes (it_row it), at_rate = tk_rate (it_row it)\<rparr>"
    by (rule authenticate_new) (use assms(2-4) i minted_pattern [OF assms(2), of sha "to_prefix opts"] mint_hash [of sha] row tok
        in \<open>simp_all add: new_row_def\<close>)
  then show ?thesis using i row sc by (simp add: new_row_def)
qed

text \<open>A rotation is a swap: it succeeds and then the old secret is refused and the new one accepted
  with the same scopes and rate for the same user, or it changes nothing at all.\<close>

theorem rotation_swaps:
  assumes "distinct (map tk_hash t)" "token_rotate sha big opts users call u i t = (answer, t')"
    and "length (tc_random call) = SECRET_BYTES" "map_of users u = Some None"
    and "old \<in> set t" "revocable u i old" "\<forall>r \<in> set t. tk_id r = i \<longrightarrow> r = old" "hashToken sha token = tk_hash old"
    and "now < tc_appNow call + to_defaultTtlDays opts * day_ms"
  shows "case answer of
      Inl _ \<Rightarrow> t' = t
    | Inr it \<Rightarrow> token_authenticate sha users now token t' = None \<and>
        token_authenticate sha users now (it_token it) t' =
          Some \<lparr>at_tokenId = tc_newId call, at_userId = u, at_scopes = tk_scopes old, at_rate = tk_rate old\<rparr>"
proof (cases answer)
  case (Inl f)
  with assms(2) show ?thesis by (auto simp: token_rotate_def Let_def split: sum.splits list.splits)
next
  case (Inr it)
  let ?m = "mintToken sha (to_prefix opts) (tc_random call)" and ?t = "revoke_rows (tc_dbNow call) u i t"
  have "set (filter (revocable u i) t) \<subseteq> {old}" using assms(7) by (auto simp: revocable_def)
  moreover have "filter (revocable u i) t \<noteq> []" using assms(5,6) by (auto simp: filter_empty_conv)
  ultimately obtain rest where f: "filter (revocable u i) t = old # rest" by (cases "filter (revocable u i) t") auto
  from assms(2) Inr f obtain name where
    row: "it_row it = new_row opts call ?m u name (tk_scopes old) (tk_rate old) (tc_appNow call + to_defaultTtlDays opts * day_ms) (Some (tk_id old))" and
    tok: "it_token it = mi_token ?m" and ins: "token_insert users (it_row it) ?t = Inr t'"
    by (auto simp: token_rotate_def Let_def split: sum.splits)
  note k = token_insert_ok [OF ins]
  have new: "token_authenticate sha users now (it_token it) (?t @ [it_row it]) =
      Some \<lparr>at_tokenId = tk_id (it_row it), at_userId = tk_userId (it_row it), at_scopes = tk_scopes (it_row it), at_rate = tk_rate (it_row it)\<rparr>"
    by (rule authenticate_new) (use assms(3,4,9) k minted_pattern [OF assms(3), of sha "to_prefix opts"] mint_hash [of sha] row tok
        in \<open>simp_all add: new_row_def\<close>)
  have gone: "revoked_hash (tk_hash old) ?t"
  proof -
    have "x = old" if "x \<in> set t" "tk_hash x = tk_hash old" for x
      using inj_onD [OF distinct_map [THEN iffD1, THEN conjunct2, OF assms(1)] that(2,1) assms(5)] .
    then show ?thesis using assms(5,6) unfolding revoked_hash_def revoke_rows_hash_set by (auto simp: revoke_rows_def)
  qed
  have "token_authenticate sha users now token t' = None"
    by (rule revoked_hash_refused [OF revoked_hash_insert [OF gone ins] assms(8)])
  with new k row Inr show ?thesis by (simp add: new_row_def)
qed

subsection \<open>The cap\<close>

definition live_count :: "time \<Rightarrow> string \<Rightarrow> token_row list \<Rightarrow> nat" where
  "live_count now u t = length (filter (live now u) t)"

lemma live_count_later: "now \<le> now' \<Longrightarrow> live_count now' u t \<le> live_count now u t"
  unfolding live_count_def by (rule length_filter_mono) (auto simp: live_def)

lemma live_count_snoc: "live_count now u (t @ [r]) = live_count now u t + (if live now u r then 1 else 0)"
  by (simp add: live_count_def)

lemma live_count_revoke: "live_count now u (revoke_rows now' v i t) \<le> live_count now u t"
  by (induction t) (auto simp: live_count_def revoke_rows_def live_def)

lemma live_count_revoke_live:
  "old \<in> set t \<Longrightarrow> revocable u i old \<Longrightarrow> live now u old \<Longrightarrow> Suc (live_count now u (revoke_rows now' u i t)) \<le> live_count now u t"
proof (induction t)
  case (Cons x t)
  show ?case
  proof (cases "x = old")
    case True
    then show ?thesis using Cons.prems(2,3) live_count_revoke [of now u now' u i t]
      by (simp add: live_count_def revoke_rows_def live_def)
  next
    case False
    then have IH: "Suc (live_count now u (revoke_rows now' u i t)) \<le> live_count now u t" using Cons by simp
    then show ?thesis by (auto simp: live_count_def revoke_rows_def live_def)
  qed
qed simp

lemma live_count_touch: "live_count now u (token_touch now' i ip t) = live_count now u t"
  by (induction t) (auto simp: live_count_def token_touch_def live_def)

definition event_time :: "token_event \<Rightarrow> time" where
  "event_time e = (case e of Tk_create c _ _ \<Rightarrow> tc_dbNow c | Tk_revoke now _ _ \<Rightarrow> now | Tk_rotate c _ _ \<Rightarrow> tc_dbNow c | Tk_touch now _ _ \<Rightarrow> now)"

text \<open>Events in the order of the clock of the database, in which no expired token is rotated.\<close>

fun orderly ::
  "(string \<Rightarrow> string) \<Rightarrow> (string \<Rightarrow> string) \<Rightarrow> token_options \<Rightarrow> token_users \<Rightarrow> time \<Rightarrow> token_event list \<Rightarrow> token_row list \<Rightarrow> bool" where
  "orderly sha big opts users clock [] t = True"
| "orderly sha big opts users clock (e # es) t =
     (clock \<le> event_time e \<and>
      (case e of Tk_rotate c u i \<Rightarrow> list_all (\<lambda>r. revocable u i r \<longrightarrow> tc_dbNow c < tk_expiresAt r) t | _ \<Rightarrow> True) \<and>
      orderly sha big opts users (event_time e) es (token_step sha big opts users e t))"

lemma cap_step:
  assumes "orderly sha big opts users clock (e # es) t" "live_count clock u t \<le> to_maxPerUser opts"
  shows "live_count (event_time e) u (token_step sha big opts users e t) \<le> to_maxPerUser opts"
proof -
  have now: "live_count (event_time e) u t \<le> to_maxPerUser opts"
    using live_count_later [of clock "event_time e" u t] assms by simp
  show ?thesis
  proof (rule token_step_cases [of sha big opts users e t])
    assume "token_step sha big opts users e t = t"
    with now show ?thesis by simp
  next
    fix n i ip assume "e = Tk_touch n i ip" "token_step sha big opts users e t = token_touch n i ip t"
    with now show ?thesis by (simp add: live_count_touch)
  next
    fix n v i assume "e = Tk_revoke n v i" "token_step sha big opts users e t = revoke_rows n v i t"
    with now show ?thesis using live_count_revoke [of "event_time e" u n v i t] by simp
  next
    fix c v input r
    assume "e = Tk_create c v input" "token_step sha big opts users e t = t @ [r]" "tk_userId r = v"
      "length (filter (live (tc_dbNow c) v) t) < to_maxPerUser opts"
    with now show ?thesis by (auto simp: live_count_snoc event_time_def live_def live_count_def)
  next
    fix c v i old rest r
    assume e: "e = Tk_rotate c v i" and f: "filter (revocable v i) t = old # rest"
      and s: "token_step sha big opts users e t = revoke_rows (tc_dbNow c) v i t @ [r]" and r: "tk_userId r = v"
    from f have "old \<in> set (filter (revocable v i) t)" by simp
    then have old: "old \<in> set t" "revocable v i old" by simp_all
    show ?thesis
    proof (cases "v = u")
      case True
      have "live (tc_dbNow c) u old" using assms(1) e old True by (auto simp: live_def revocable_def list_all_iff)
      from live_count_revoke_live [OF old(1) _ this] old(2) True have
        "Suc (live_count (tc_dbNow c) u (revoke_rows (tc_dbNow c) v i t)) \<le> live_count (tc_dbNow c) u t" by simp
      with now e s show ?thesis by (simp add: live_count_snoc event_time_def)
    next
      case False
      then show ?thesis using now e s r live_count_revoke [of "event_time e" u "tc_dbNow c" v i t]
        by (simp add: live_count_snoc event_time_def live_def)
    qed
  qed
qed

text \<open>A user never has more live tokens than the cap: a token that expires makes room, one that is
  issued takes it, and a rotation takes the place of the token it revokes, as long as that
  one had not expired.\<close>

theorem token_cap_kept:
  "orderly sha big opts users clock es t \<Longrightarrow> live_count clock u t \<le> to_maxPerUser opts \<Longrightarrow>
   clock \<le> now \<Longrightarrow> list_all (\<lambda>e. event_time e \<le> now) es \<Longrightarrow>
     live_count now u (run_calls (token_step sha big opts users) t es) \<le> to_maxPerUser opts"
proof (induction es arbitrary: clock t)
  case Nil
  then show ?case using live_count_later [of clock now u t] by simp
next
  case (Cons e es)
  then show ?case using cap_step [OF Cons.prems(1,2)] Cons.IH [of "event_time e" "token_step sha big opts users e t"] by simp
qed

text \<open>The rotation of an expired token is a way past the cap: it makes a live token out of a dead
  one, without the count that issuing one takes.\<close>

theorem rotation_revives_expired:
  assumes "token_rotate sha big opts users call u i t = (Inr it, t')"
    and "\<forall>r \<in> set t. revocable u i r \<longrightarrow> tk_expiresAt r \<le> tc_dbNow call" "tc_dbNow call < tk_expiresAt (it_row it)"
  shows "live_count (tc_dbNow call) u t' = Suc (live_count (tc_dbNow call) u t)"
proof -
  have "live_count (tc_dbNow call) u (revoke_rows (tc_dbNow call) u i t) = live_count (tc_dbNow call) u t"
    using assms(2) by (induction t) (auto simp: live_count_def revoke_rows_def live_def)
  moreover obtain old rest where "filter (revocable u i) t = old # rest"
      and ins: "token_insert users (it_row it) (revoke_rows (tc_dbNow call) u i t) = Inr t'"
      and "tk_userId (it_row it) = u" "tk_revokedAt (it_row it) = None"
    using assms(1) by (auto simp: token_rotate_def Let_def new_row_def split: sum.splits list.splits)
  ultimately show ?thesis
    using token_insert_ok [OF ins] assms(3) by (simp add: live_count_snoc live_def)
qed

subsection \<open>Names that cannot be rotated\<close>

lemma ends_with_append: "ends_with s x \<Longrightarrow> x = take (length x - length s) x @ s"
  by (metis append_take_drop_id ends_with_def)

lemma token_insert_taken:
  "(tk_userId r, tk_name r) \<in> (\<lambda>x. (tk_userId x, tk_name x)) ` set t \<Longrightarrow> \<exists>v. token_insert users r t = Inl v"
  unfolding token_insert_def by simp

lemma new_row_key [simp]: "tk_userId (new_row opts call m u n sc rt ex fr) = u" "tk_name (new_row opts call m u n sc rt ex fr) = n"
  by (simp_all add: new_row_def)

lemma dotted_no_match: "rotated_match (b @ ''...'') = None"
proof -
  have no: "\<not> ends_with (c @ '')'') (b @ ''...'')" for c
  proof
    assume "ends_with (c @ '')'') (b @ ''...'')"
    then have "b @ ''...'' = take (length (b @ ''...'') - length (c @ '')'')) (b @ ''...'') @ c @ '')''" by (rule ends_with_append)
    then have "last (b @ ''...'') = last ((take (length (b @ ''...'') - length (c @ '')'')) (b @ ''...'') @ c) @ '')'')"
      by (simp only: append_assoc)
    then show False by simp
  qed
  show ?thesis using no [of "'' (rotated''"] no [of "[]"] by (simp add: rotated_match_def Let_def)
qed

text \<open>A name that fills the column can be given only once: a rotation of a token with a long name
  leaves a name of 64 characters that ends in dots, which is its own successor, so every
  later rotation of that token collides with the row it replaces and is rolled back.\<close>

theorem long_name_never_rotates:
  assumes "\<forall>r \<in> set t. revocable u i r \<longrightarrow> length (tk_name r) = 64 \<and> (\<exists>b. tk_name r = b @ ''...'')"
  shows "isl (fst (token_rotate sha big opts users call u i t)) \<and> snd (token_rotate sha big opts users call u i t) = t"
proof (cases "filter (revocable u i) t")
  case (Cons old rest)
  then have "old \<in> set (filter (revocable u i) t)" by simp
  then have old: "old \<in> set t" "revocable u i old" "tk_userId old = u" by (simp_all add: revocable_def)
  with assms obtain b where n: "tk_name old = b @ ''...''" "length b = 61" by fastforce
  then have same: "nextRotationName big (tk_name old) = tk_name old"
    by (simp add: nextRotationName_def dotted_no_match truncateName_def)
  have "(u, tk_name old) \<in> (\<lambda>x. (tk_userId x, tk_name x)) ` set (revoke_rows now u i t)" for now
  proof -
    have "old\<lparr>tk_revokedAt := Some now\<rparr> \<in> set (revoke_rows now u i t)"
      unfolding revoke_rows_def set_map using old by (intro image_eqI [of _ _ old]) simp_all
    then show ?thesis using old(3) by (metis (no_types, lifting) imageI token_row.select_convs(2,3) token_row.surjective token_row.update_convs(13))
  qed
  then obtain v where "token_insert users (new_row opts call (mintToken sha (to_prefix opts) (tc_random call)) u (tk_name old)
      (tk_scopes old) (tk_rate old) (tc_appNow call + to_defaultTtlDays opts * day_ms) (Some (tk_id old)))
      (revoke_rows (tc_dbNow call) u i t) = Inl v"
    using token_insert_taken [where r = "new_row opts call m u (tk_name old) sc rt ex fr" for m sc rt ex fr] by fastforce
  then show ?thesis using Cons same by (simp add: token_rotate_def Let_def)
qed (simp add: token_rotate_def)

subsection \<open>Concrete runs\<close>

definition demo_sha :: "string \<Rightarrow> string" where
  "demo_sha s = replicate 64 (if s = [] then CHR ''0'' else CHR ''1'')"

definition demo_tokens :: token_options where
  "demo_tokens = \<lparr>to_prefix = Pfm_test, to_maxPerUser = 1, to_defaultTtlDays = 90, to_maxTtlDays = 365, to_defaultRateLimit = 60\<rparr>"

definition demo_call :: "time \<Rightarrow> token_call" where
  "demo_call now = \<lparr>tc_appNow = now, tc_dbNow = now, tc_random = replicate 32 (CHR ''a''), tc_newId = ''2''\<rparr>"

definition demo_token :: "string \<Rightarrow> time \<Rightarrow> time option \<Rightarrow> token_row" where
  "demo_token name expiresAt revokedAt =
     \<lparr>tk_id = ''1'', tk_userId = ''u'', tk_name = name, tk_hash = replicate 64 (CHR ''0''), tk_prefix = ''pfm_test'',
      tk_lastFour = ''abcd'', tk_scopes = [''read:me''], tk_rate = 60, tk_createdAt = 0, tk_expiresAt = expiresAt,
      tk_lastUsedAt = None, tk_lastUsedIp = None, tk_revokedAt = revokedAt, tk_rotatedFrom = None\<rparr>"

lemma demo_mint:
  "hash_shape (mi_hash (mintToken demo_sha Pfm_test (replicate 32 (CHR ''a''))))"
  "length (mi_lastFour (mintToken demo_sha Pfm_test (replicate 32 (CHR ''a'')))) = 4"
  "mi_hash (mintToken demo_sha Pfm_test (replicate 32 (CHR ''a''))) \<noteq> replicate 64 (CHR ''0'')"
  by (simp_all add: mintToken_def hashToken_def demo_sha_def prefix_text_def hash_shape_def b64_encode_length list_all_iff Let_def)

lemma demo_hash [simp]: "hashToken demo_sha [] = replicate 64 (CHR ''0'')"
  by (simp add: hashToken_def demo_sha_def)

lemma demo_create:
  "token_create demo_sha demo_tokens [(''u'', None)] (demo_call 0) ''u''
      \<lparr>ct_name = ''laptop'', ct_scopes = Some [''read:me''], ct_expiresInDays = None\<rparr> [] =
   (let m = mintToken demo_sha Pfm_test (replicate 32 (CHR ''a''));
        row = new_row demo_tokens (demo_call 0) m ''u'' ''laptop'' [''read:me''] 60 (90 * day_ms) None
    in (Inr \<lparr>it_row = row, it_token = mi_token m\<rparr>, [row]))"
  by (simp add: token_create_def demo_tokens_def demo_call_def validate_def TOKEN_SCOPES_def token_insert_def token_checks_def
      new_row_def demo_mint prefix_text_def day_ms_def Let_def)

lemma demo_rotate:
  assumes "length name < 54" "rotated_match name = None" "1 \<le> length name" "0 \<le> now"
  shows "token_rotate demo_sha id demo_tokens [(''u'', None)] (demo_call now) ''u'' ''1'' [demo_token name e None] =
   (let m = mintToken demo_sha Pfm_test (replicate 32 (CHR ''a''));
        row = new_row demo_tokens (demo_call now) m ''u'' (name @ '' (rotated)'') [''read:me''] 60 (now + 90 * day_ms) (Some ''1'')
    in (Inr \<lparr>it_row = row, it_token = mi_token m\<rparr>, [demo_token name e (Some now), row]))"
  using assms
  by (simp add: token_rotate_def demo_tokens_def demo_call_def token_insert_def token_checks_def revocable_def demo_token_def
      new_row_def demo_mint prefix_text_def day_ms_def revoke_rows_def nextRotationName_def truncateName_def TOKEN_SCOPES_def Let_def)

lemma demo_match: "rotated_match ''laptop'' = None"
  by code_simp

lemma revoked_stays_out_witness:
  "token_authenticate demo_sha [(''u'', None)] 9 [] (run_calls (token_step demo_sha id demo_tokens [(''u'', None)])
     [demo_token ''laptop'' 1000 (Some 3)] [Tk_touch 5 ''1'' None, Tk_rotate (demo_call 6) ''u'' ''1'']) = None"
  by (rule revoked_stays_out [of _ "demo_token ''laptop'' 1000 (Some 3)"])
    (simp_all add: demo_token_def)

lemma issued_token_authenticates_witness:
  "\<exists>a. token_authenticate demo_sha [(''u'', None)] 7 (mi_token (mintToken demo_sha Pfm_test (replicate 32 (CHR ''a''))))
      (snd (token_create demo_sha demo_tokens [(''u'', None)] (demo_call 0) ''u''
        \<lparr>ct_name = ''laptop'', ct_scopes = Some [''read:me''], ct_expiresInDays = None\<rparr> [])) = Some a \<and> at_userId a = ''u''"
  using issued_token_authenticates [OF demo_create [unfolded Let_def], of 7 "[(''u'', None)]"] unfolding demo_create Let_def
  by (auto simp: demo_call_def SECRET_BYTES_def new_row_def day_ms_def)

lemma rotation_swaps_witness:
  "token_authenticate demo_sha [(''u'', None)] 7 [] (snd (token_rotate demo_sha id demo_tokens [(''u'', None)] (demo_call 5) ''u'' ''1''
     [demo_token ''laptop'' 1000 None])) = None"
proof -
  have d: "token_rotate demo_sha id demo_tokens [(''u'', None)] (demo_call 5) ''u'' ''1'' [demo_token ''laptop'' 1000 None] =
    (Inr \<lparr>it_row = new_row demo_tokens (demo_call 5) (mintToken demo_sha Pfm_test (replicate 32 (CHR ''a''))) ''u'' (''laptop'' @ '' (rotated)'') [''read:me''] 60 (5 + 90 * day_ms) (Some ''1''),
      it_token = mi_token (mintToken demo_sha Pfm_test (replicate 32 (CHR ''a'')))\<rparr>,
     [demo_token ''laptop'' 1000 (Some 5), new_row demo_tokens (demo_call 5) (mintToken demo_sha Pfm_test (replicate 32 (CHR ''a''))) ''u'' (''laptop'' @ '' (rotated)'') [''read:me''] 60 (5 + 90 * day_ms) (Some ''1'')])"
    using demo_rotate [of "''laptop''" 5 1000] demo_match unfolding Let_def by simp
  have "hashToken demo_sha [] = tk_hash (demo_token ''laptop'' 1000 None)"
    by (simp add: demo_token_def)
  from rotation_swaps [OF _ d _ _ _ _ _ this, of 7] show ?thesis unfolding d
    by (simp add: demo_call_def SECRET_BYTES_def revocable_def demo_token_def demo_tokens_def day_ms_def)
qed

lemma token_cap_kept_witness:
  "live_count 9 ''u'' (run_calls (token_step demo_sha id demo_tokens [(''u'', None)]) [demo_token ''laptop'' 1000 None]
     [Tk_rotate (demo_call 6) ''u'' ''1'', Tk_touch 7 ''2'' None]) \<le> 1"
  using token_cap_kept [of demo_sha id demo_tokens "[(''u'', None)]" 0
      "[Tk_rotate (demo_call 6) ''u'' ''1'', Tk_touch 7 ''2'' None]" "[demo_token ''laptop'' 1000 None]" "''u''" 9]
  by (simp add: live_count_def live_def demo_token_def demo_call_def event_time_def demo_tokens_def)

lemma rotation_revives_expired_witness:
  "live_count 2000 ''u'' (snd (token_rotate demo_sha id demo_tokens [(''u'', None)] (demo_call 2000) ''u'' ''1''
     [demo_token ''laptop'' 1000 None])) = 1"
proof -
  have "\<exists>it t'. token_rotate demo_sha id demo_tokens [(''u'', None)] (demo_call 2000) ''u'' ''1'' [demo_token ''laptop'' 1000 None] = (Inr it, t') \<and>
      2000 < tk_expiresAt (it_row it)"
    using demo_rotate [of "''laptop''" 2000 1000] demo_match unfolding Let_def by (simp add: new_row_def day_ms_def)
  then obtain it t' where r: "token_rotate demo_sha id demo_tokens [(''u'', None)] (demo_call 2000) ''u'' ''1'' [demo_token ''laptop'' 1000 None] = (Inr it, t')"
    and later: "2000 < tk_expiresAt (it_row it)" by blast
  show ?thesis
    using rotation_revives_expired [OF r] later unfolding r by (simp add: demo_token_def demo_call_def live_count_def live_def)
qed

lemma long_name_never_rotates_witness:
  "isl (fst (token_rotate demo_sha id demo_tokens [(''u'', None)] (demo_call 5) ''u'' ''1''
     [demo_token (replicate 61 (CHR ''n'') @ ''...'') 1000 None]))"
  using long_name_never_rotates [of "[demo_token (replicate 61 (CHR ''n'') @ ''...'') 1000 None]" "''u''" "''1''"]
  by (simp add: demo_token_def)

end
