(* ===== verification/User_Store.thy ===== *)
theory User_Store
  imports Legal_Consent Api_Tokens
begin

text \<open>
  The local user records: \<^verbatim>\<open>apps/bff/src/services/users.ts\<close> on the table of
  \<^verbatim>\<open>packages/db/migrations/0001_initial.sql\<close> and \<^verbatim>\<open>0005_magic_auth_identity.sql\<close>: one row for a
  subject of the identity provider, and one live row for an address. The ids the database
  makes up are arguments.
\<close>

subsection \<open>The table\<close>

record user_row =
  us_id :: string
  us_workosUserId :: string
  us_email :: "string option"
  us_displayName :: "string option"
  us_createdAt :: time
  us_deletedAt :: "time option"
  us_authMethod :: string
  us_emailVerifiedAt :: "time option"
  us_lastAuthenticatedAt :: "time option"

definition holds_address :: "user_row \<Rightarrow> user_row \<Rightarrow> bool" where
  "holds_address u r \<longleftrightarrow> us_deletedAt r = None \<and> us_email r \<noteq> None \<and> us_email r = us_email u"

text \<open>A write of a row is refused when another live row holds its address.\<close>

definition address_free :: "user_row \<Rightarrow> user_row list \<Rightarrow> bool" where
  "address_free u t \<longleftrightarrow> us_deletedAt u \<noteq> None \<or> \<not> list_ex (holds_address u) (filter (\<lambda>r. us_id r \<noteq> us_id u) t)"

definition replace_user :: "user_row \<Rightarrow> user_row list \<Rightarrow> user_row list" where
  "replace_user u t = map (\<lambda>r. if us_id r = us_id u then u else r) t"

subsection \<open>The service\<close>

record upsert_input =
  ui_workosUserId :: string
  ui_email :: "string option"
  ui_displayName :: "string option"

definition coalesce :: "'a option \<Rightarrow> 'a option \<Rightarrow> 'a option" where
  "coalesce a b = (case a of None \<Rightarrow> b | Some _ \<Rightarrow> a)"

text \<open>\<open>None\<close> is the violation of a constraint, which is not translated.\<close>

definition user_upsert :: "time \<Rightarrow> string \<Rightarrow> upsert_input \<Rightarrow> user_row list \<Rightarrow> user_row option \<times> user_row list" where
  "user_upsert now newId input t =
     (let email = map_option js_toLowerCase (ui_email input) in
      case List.find (\<lambda>r. us_workosUserId r = ui_workosUserId input) t of
        None \<Rightarrow>
          let u = \<lparr>us_id = newId, us_workosUserId = ui_workosUserId input, us_email = email,
                   us_displayName = ui_displayName input, us_createdAt = now, us_deletedAt = None,
                   us_authMethod = ''magic_auth'', us_emailVerifiedAt = None, us_lastAuthenticatedAt = None\<rparr>
          in if newId \<in> us_id ` set t \<or> \<not> address_free u t then (None, t) else (Some u, t @ [u])
      | Some r \<Rightarrow>
          let u = r\<lparr>us_email := coalesce email (us_email r), us_displayName := coalesce (ui_displayName input) (us_displayName r)\<rparr>
          in if \<not> address_free u t then (None, t) else (Some u, replace_user u t))"

text \<open>A subject with the epochs it has accepted.\<close>

record authenticated_user =
  au_user :: user_row
  au_acceptedEpochs :: accepted_epochs

definition with_epochs :: "consent_row list \<Rightarrow> user_row \<Rightarrow> authenticated_user" where
  "with_epochs cs u = \<lparr>au_user = u, au_acceptedEpochs = acceptedEpochs (us_id u) cs\<rparr>"

definition findActiveByWorkOsId :: "string \<Rightarrow> user_row list \<Rightarrow> consent_row list \<Rightarrow> authenticated_user option" where
  "findActiveByWorkOsId workosUserId t cs =
     map_option (with_epochs cs) (List.find (\<lambda>u. us_workosUserId u = workosUserId \<and> us_deletedAt u = None) t)"

definition findActiveById :: "string \<Rightarrow> user_row list \<Rightarrow> consent_row list \<Rightarrow> authenticated_user option" where
  "findActiveById i t cs = map_option (with_epochs cs) (List.find (\<lambda>u. us_id u = i \<and> us_deletedAt u = None) t)"

definition recordAuthentication :: "time \<Rightarrow> string \<Rightarrow> user_row list \<Rightarrow> user_row list" where
  "recordAuthentication now i t =
     map (\<lambda>u. if us_id u = i \<and> us_deletedAt u = None
              then u\<lparr>us_lastAuthenticatedAt := Some now, us_emailVerifiedAt := Some now\<rparr> else u) t"

definition updateProfile :: "string \<Rightarrow> string option \<Rightarrow> user_row list \<Rightarrow> user_row option \<times> user_row list" where
  "updateProfile i displayName t =
     (let t' = map (\<lambda>u. if us_id u = i \<and> us_deletedAt u = None then u\<lparr>us_displayName := displayName\<rparr> else u) t
      in (List.find (\<lambda>u. us_id u = i \<and> us_deletedAt u = None) t', t'))"

definition lockUser :: "string \<Rightarrow> user_row list \<Rightarrow> user_row option" where
  "lockUser i t = List.find (\<lambda>u. us_id u = i) t"

text \<open>The users as the tokens see them.\<close>

definition token_users_of :: "user_row list \<Rightarrow> token_users" where
  "token_users_of t = map (\<lambda>u. (us_id u, us_deletedAt u)) t"

subsection \<open>The constraints\<close>

definition users_ok :: "user_row list \<Rightarrow> bool" where
  "users_ok t \<longleftrightarrow> distinct (map us_id t) \<and> distinct (map us_workosUserId t) \<and>
     (\<forall>u \<in> set t. \<forall>r \<in> set t. us_deletedAt u = None \<and> holds_address u r \<longrightarrow> r = u)"

lemma find_subject:
  "List.find P t = Some r \<Longrightarrow> r \<in> set t \<and> P r" "List.find P t = None \<Longrightarrow> r \<in> set t \<Longrightarrow> \<not> P r"
  by (auto simp: find_Some_iff find_None_iff)

lemma holds_address_sym: "holds_address x u \<Longrightarrow> us_deletedAt x = None \<Longrightarrow> us_deletedAt u = None \<and> holds_address u x"
  by (cases "us_email x") (auto simp: holds_address_def)

lemma replace_user_ids [simp]: "map us_id (replace_user u t) = map us_id t"
  by (induction t) (auto simp: replace_user_def)

lemma replace_user_subjects:
  assumes "distinct (map us_id t)" "r \<in> set t" "us_id u = us_id r" "us_workosUserId u = us_workosUserId r"
  shows "map us_workosUserId (replace_user u t) = map us_workosUserId t"
proof -
  have "us_workosUserId x = us_workosUserId u" if "x \<in> set t" "us_id x = us_id u" for x
  proof -
    have "inj_on us_id (set t)" using assms(1) by (simp add: distinct_map)
    from inj_onD [OF this _ that(1) assms(2)] that(2) assms(3) have "x = r" by simp
    with assms(4) show ?thesis by simp
  qed
  note same = this
  have eq: "us_workosUserId (if us_id x = us_id u then u else x) = us_workosUserId x" if "x \<in> set t" for x
  proof (cases "us_id x = us_id u")
    case True
    from same [OF that this] show ?thesis by (simp only: True if_True simp_thms)
  qed simp
  show ?thesis unfolding replace_user_def map_map by (rule map_cong [OF refl]) (simp only: comp_def eq)
qed

lemma replace_user_ok:
  assumes "users_ok t" "r \<in> set t" "us_id u = us_id r" "us_workosUserId u = us_workosUserId r" "address_free u t"
  shows "users_ok (replace_user u t)"
proof -
  have set: "set (replace_user u t) \<subseteq> insert u {x \<in> set t. us_id x \<noteq> us_id u}" by (auto simp: replace_user_def)
  have free: "us_deletedAt u = None \<Longrightarrow> x \<in> set t \<Longrightarrow> us_id x \<noteq> us_id u \<Longrightarrow> \<not> holds_address u x" for x
    using assms(5) by (auto simp: address_free_def list_ex_iff)
  note sym = holds_address_sym [where u = u]
  have "y = x" if "x \<in> set (replace_user u t)" "y \<in> set (replace_user u t)" "us_deletedAt x = None" "holds_address x y" for x y
  proof -
    from that(1) set consider "x = u" | "x \<in> set t" "us_id x \<noteq> us_id u" by blast
    then show ?thesis
    proof cases
      case 1
      from that(2) set consider "y = u" | "y \<in> set t" "us_id y \<noteq> us_id u" by blast
      then show ?thesis using 1 that(3,4) free [of y] by cases simp_all
    next
      case 2
      from that(2) set consider "y = u" | "y \<in> set t" "us_id y \<noteq> us_id u" by blast
      then show ?thesis
      proof cases
        case 1
        with that(3,4) 2 free [of x] sym [of x] show ?thesis by simp
      next
        case b: 2
        with 2 that(3,4) assms(1) show ?thesis by (simp add: users_ok_def)
      qed
    qed
  qed
  moreover have "distinct (map us_id (replace_user u t))" "distinct (map us_workosUserId (replace_user u t))"
    using assms(1) replace_user_subjects [OF _ assms(2-4)] by (simp_all add: users_ok_def)
  ultimately show ?thesis unfolding users_ok_def by blast
qed

lemma user_upsert_ok:
  assumes "users_ok t" "user_upsert now i input t = (answer, t')"
  shows "users_ok t'"
proof (cases "List.find (\<lambda>r. us_workosUserId r = ui_workosUserId input) t")
  case None
  note no = find_subject(2) [OF None]
  show ?thesis
  proof (cases answer)
    case None
    with assms \<open>List.find _ t = None\<close> show ?thesis by (auto simp: user_upsert_def Let_def split: if_splits)
  next
    case (Some u)
    with assms(2) None have t': "t' = t @ [u]" and u: "us_workosUserId u = ui_workosUserId input" "us_id u = i" "i \<notin> us_id ` set t"
        "address_free u t"
      by (auto simp: user_upsert_def Let_def split: if_splits)
    have free: "us_deletedAt u = None \<Longrightarrow> x \<in> set t \<Longrightarrow> \<not> holds_address u x" for x
    proof -
      assume x: "us_deletedAt u = None" "x \<in> set t"
      then have "us_id x \<noteq> us_id u" using u(2,3) by (metis image_eqI)
      with x u(4) show ?thesis by (auto simp: address_free_def list_ex_iff)
    qed
    note sym = holds_address_sym [where u = u]
    have "us_workosUserId u \<notin> us_workosUserId ` set t" using no u(1) by (metis imageE)
    moreover have "y = x" if "x \<in> set (t @ [u])" "y \<in> set (t @ [u])" "us_deletedAt x = None" "holds_address x y" for x y
      using that free [of x] free [of y] sym [of x] assms(1) unfolding users_ok_def by auto
    ultimately show ?thesis using assms(1) u(2,3) unfolding t' users_ok_def by auto
  qed
next
  case (Some r)
  note r = find_subject(1) [OF Some]
  show ?thesis
  proof (cases answer)
    case None
    with assms Some show ?thesis by (auto simp: user_upsert_def Let_def split: if_splits)
  next
    case u: (Some u)
    with assms(2) Some have "t' = replace_user u t" "us_id u = us_id r" "us_workosUserId u = us_workosUserId r" "address_free u t"
      by (auto simp: user_upsert_def Let_def split: if_splits)
    with replace_user_ok [OF assms(1)] r show ?thesis by blast
  qed
qed

end
