(* ===== verification/Envelope.thy ===== *)
theory Envelope
  imports Pf_Prelude Js_Bytes
begin

text \<open>
  Envelope encryption of credentials: \<^verbatim>\<open>packages/crypto/src/envelope.ts\<close>. AES-256-GCM of the
  crypto library is a parameter, the random bytes of a call are arguments. What the code
  relies on of GCM is \<open>is_aead\<close>: a tag of 16 bytes, and decryption that succeeds exactly on
  what encryption gives. That a tag binds its associated data, in the idealised form that no
  two differ in it alone, is \<open>binds_aad\<close>.
\<close>

subsection \<open>Authenticated encryption\<close>

text \<open>\<open>seal key nonce aad plaintext\<close> is the ciphertext and the tag; \<open>open key nonce aad ciphertext
  tag\<close> is \<open>None\<close> when the tag does not match.\<close>

type_synonym gcm_seal = "string \<Rightarrow> string \<Rightarrow> string \<Rightarrow> string \<Rightarrow> string \<times> string"

type_synonym gcm_open = "string \<Rightarrow> string \<Rightarrow> string \<Rightarrow> string \<Rightarrow> string \<Rightarrow> string option"

definition is_aead :: "gcm_seal \<Rightarrow> gcm_open \<Rightarrow> bool" where
  "is_aead seal opn \<longleftrightarrow>
     (\<forall>k n a p. length (snd (seal k n a p)) = 16) \<and>
     (\<forall>k n a c t p. opn k n a c t = Some p \<longleftrightarrow> seal k n a p = (c, t))"

definition binds_aad :: "gcm_seal \<Rightarrow> bool" where
  "binds_aad seal \<longleftrightarrow> (\<forall>k n a p a' p'. seal k n a p = seal k n a' p' \<longrightarrow> a = a')"

text \<open>\<open>nonce || ciphertext || tag\<close>.\<close>

definition box_seal :: "gcm_seal \<Rightarrow> string \<Rightarrow> string \<Rightarrow> string \<Rightarrow> string \<Rightarrow> string" where
  "box_seal seal key nonce aad plaintext = (case seal key nonce aad plaintext of (c, t) \<Rightarrow> nonce @ c @ t)"

definition box_open :: "gcm_open \<Rightarrow> string \<Rightarrow> string \<Rightarrow> string \<Rightarrow> string option" where
  "box_open opn key aad payload =
     opn key (take 12 payload) aad (drop 12 (take (length payload - 16) payload)) (drop (length payload - 16) payload)"

lemma tag_length: "is_aead seal opn \<Longrightarrow> seal k n a p = (c, t) \<Longrightarrow> length t = 16"
  unfolding is_aead_def by (metis snd_conv)

lemma box_length: "is_aead seal opn \<Longrightarrow> length nonce = 12 \<Longrightarrow> 28 \<le> length (box_seal seal key nonce aad p)"
  using tag_length [of seal opn key nonce aad p] by (auto simp: box_seal_def split: prod.split)

lemma box_open_iff:
  assumes "is_aead seal opn" and "28 \<le> length b"
  shows "box_open opn key aad b = Some p \<longleftrightarrow> (\<exists>nonce. length nonce = 12 \<and> b = box_seal seal key nonce aad p)"
proof
  let ?c = "drop 12 (take (length b - 16) b)" and ?t = "drop (length b - 16) b"
  have split: "b = take 12 b @ ?c @ ?t"
  proof -
    let ?m = "length b - 16"
    have "12 \<le> ?m" using assms(2) by simp
    then have "take 12 (take ?m b) = take 12 b" by (simp add: min_absorb1)
    then have "take ?m b = take 12 b @ ?c" by (metis append_take_drop_id)
    then show ?thesis by (metis append.assoc append_take_drop_id)
  qed
  assume "box_open opn key aad b = Some p"
  then have "seal key (take 12 b) aad p = (?c, ?t)" using assms(1) by (simp add: box_open_def is_aead_def)
  then have "b = box_seal seal key (take 12 b) aad p" using split by (simp add: box_seal_def)
  moreover have "length (take 12 b) = 12" using assms(2) by simp
  ultimately show "\<exists>nonce. length nonce = 12 \<and> b = box_seal seal key nonce aad p" by blast
next
  assume "\<exists>nonce. length nonce = 12 \<and> b = box_seal seal key nonce aad p"
  then obtain nonce where b: "length nonce = 12" "b = box_seal seal key nonce aad p" by blast
  obtain c t where "seal key nonce aad p = (c, t)" by (cases "seal key nonce aad p")
  then have n: "length nonce = 12" "seal key nonce aad p = (c, t)" "b = nonce @ c @ t" using b by (simp_all add: box_seal_def)
  have "length t = 16" using tag_length [OF assms(1) n(2)] .
  then show "box_open opn key aad b = Some p"
    using assms(1) n by (simp add: box_open_def is_aead_def)
qed

subsection \<open>The cipher\<close>

record encryption_context =
  ec_userId :: string
  ec_provider :: string
  ec_field :: string

record sealed_credential =
  sc_kekId :: string
  sc_wrappedDek :: string
  sc_ciphertext :: string

datatype crypto_error =
    No_keks | Bad_kek_length string nat | No_active_kek string | Unknown_kek string
  | Empty_credential | Part_too_long | Payload_too_short nat | Tag_mismatch | Invalid_key_length
  | Outside_text

definition uint32_be :: "nat \<Rightarrow> string" where
  "uint32_be n = [char_of (n div 2 ^ 24), char_of (n div 2 ^ 16 mod 256), char_of (n div 2 ^ 8 mod 256), char_of (n mod 256)]"

text \<open>\<open>writeUInt32BE\<close> throws when the length does not fit.\<close>

definition aad_part :: "string \<Rightarrow> crypto_error + string" where
  "aad_part part =
     (let bytes = utf8_encode part
      in if length bytes < 2 ^ 32 then Inr (uint32_be (length bytes) @ bytes) else Inl Part_too_long)"

definition buildAad :: "encryption_context \<Rightarrow> crypto_error + string" where
  "buildAad ctx =
     (case aad_part (ec_userId ctx) of Inl e \<Rightarrow> Inl e
      | Inr a \<Rightarrow> (case aad_part (ec_provider ctx) of Inl e \<Rightarrow> Inl e
      | Inr b \<Rightarrow> (case aad_part (ec_field ctx) of Inl e \<Rightarrow> Inl e
      | Inr c \<Rightarrow> Inr (a @ b @ c))))"

definition sealWithKey :: "gcm_seal \<Rightarrow> string \<Rightarrow> string \<Rightarrow> string \<Rightarrow> string \<Rightarrow> crypto_error + string" where
  "sealWithKey seal nonce key plaintext aad =
     (if length key \<noteq> 32 then Inl Invalid_key_length else Inr (box_seal seal key nonce aad plaintext))"

definition openWithKey :: "gcm_open \<Rightarrow> string \<Rightarrow> string \<Rightarrow> string \<Rightarrow> crypto_error + string" where
  "openWithKey opn key payload aad =
     (if length payload < 28 then Inl (Payload_too_short (length payload))
      else if length key \<noteq> 32 then Inl Invalid_key_length
      else case box_open opn key aad payload of None \<Rightarrow> Inl Tag_mismatch | Some p \<Rightarrow> Inr p)"

record envelope_cipher =
  ev_keks :: "(string \<times> string) list"
  ev_activeKekId :: string

definition ev_new :: "(string \<times> string) list \<Rightarrow> string \<Rightarrow> crypto_error + envelope_cipher" where
  "ev_new keks activeKekId =
     (if keks = [] then Inl No_keks
      else case find (\<lambda>(i, key). length key \<noteq> 32) keks of
        Some (i, key) \<Rightarrow> Inl (Bad_kek_length i (length key))
      | None \<Rightarrow>
          if map_of keks activeKekId = None then Inl (No_active_kek activeKekId)
          else Inr \<lparr>ev_keks = keks, ev_activeKekId = activeKekId\<rparr>)"

definition ev_kek :: "envelope_cipher \<Rightarrow> string \<Rightarrow> crypto_error + string" where
  "ev_kek ev i = (case map_of (ev_keks ev) i of None \<Rightarrow> Inl (Unknown_kek i) | Some key \<Rightarrow> Inr key)"

text \<open>The fresh data key and the nonces of the two boxes are arguments.\<close>

definition ev_seal ::
  "gcm_seal \<Rightarrow> envelope_cipher \<Rightarrow> string \<Rightarrow> string \<Rightarrow> string \<Rightarrow> string \<Rightarrow> encryption_context \<Rightarrow>
     crypto_error + sealed_credential" where
  "ev_seal seal ev dek nonce1 nonce2 plaintext ctx =
     (if plaintext = [] then Inl Empty_credential
      else case buildAad ctx of Inl e \<Rightarrow> Inl e
      | Inr aad \<Rightarrow> (case sealWithKey seal nonce1 dek (utf8_encode plaintext) aad of Inl e \<Rightarrow> Inl e
      | Inr ciphertext \<Rightarrow> (case ev_kek ev (ev_activeKekId ev) of Inl e \<Rightarrow> Inl e
      | Inr kek \<Rightarrow> (case sealWithKey seal nonce2 kek dek aad of Inl e \<Rightarrow> Inl e
      | Inr wrapped \<Rightarrow>
          Inr \<lparr>sc_kekId = ev_activeKekId ev, sc_wrappedDek = wrapped, sc_ciphertext = ciphertext\<rparr>))))"

definition ev_dek :: "gcm_open \<Rightarrow> envelope_cipher \<Rightarrow> sealed_credential \<Rightarrow> string \<Rightarrow> crypto_error + string" where
  "ev_dek opn ev sealed aad =
     (case ev_kek ev (sc_kekId sealed) of Inl e \<Rightarrow> Inl e
      | Inr kek \<Rightarrow> openWithKey opn kek (sc_wrappedDek sealed) aad)"

definition ev_open ::
  "gcm_open \<Rightarrow> envelope_cipher \<Rightarrow> sealed_credential \<Rightarrow> encryption_context \<Rightarrow> crypto_error + string" where
  "ev_open opn ev sealed ctx =
     (case buildAad ctx of Inl e \<Rightarrow> Inl e
      | Inr aad \<Rightarrow> (case ev_dek opn ev sealed aad of Inl e \<Rightarrow> Inl e
      | Inr dek \<Rightarrow> (case openWithKey opn dek (sc_ciphertext sealed) aad of Inl e \<Rightarrow> Inl e
      | Inr bytes \<Rightarrow> (case utf8_decode bytes of None \<Rightarrow> Inl Outside_text | Some t \<Rightarrow> Inr t))))"

definition ev_rewrap ::
  "gcm_seal \<Rightarrow> gcm_open \<Rightarrow> envelope_cipher \<Rightarrow> string \<Rightarrow> sealed_credential \<Rightarrow> encryption_context \<Rightarrow>
     crypto_error + sealed_credential" where
  "ev_rewrap seal opn ev nonce sealed ctx =
     (if sc_kekId sealed = ev_activeKekId ev then Inr sealed
      else case buildAad ctx of Inl e \<Rightarrow> Inl e
      | Inr aad \<Rightarrow> (case ev_dek opn ev sealed aad of Inl e \<Rightarrow> Inl e
      | Inr dek \<Rightarrow> (case ev_kek ev (ev_activeKekId ev) of Inl e \<Rightarrow> Inl e
      | Inr kek \<Rightarrow> (case sealWithKey seal nonce kek dek aad of Inl e \<Rightarrow> Inl e
      | Inr wrapped \<Rightarrow>
          Inr \<lparr>sc_kekId = ev_activeKekId ev, sc_wrappedDek = wrapped, sc_ciphertext = sc_ciphertext sealed\<rparr>))))"

subsection \<open>Keys as text\<close>

text \<open>\<open>toString("base64")\<close> and its decoder, which is the one of base64url.\<close>

definition to_base64 :: "string \<Rightarrow> string" where
  "to_base64 bytes =
     map (\<lambda>c. if c = CHR ''-'' then CHR ''+'' else if c = CHR ''_'' then CHR ''/'' else c) (b64_encode bytes) @
     replicate ((3 - length bytes mod 3) mod 3) (CHR ''='')"

definition parseKek :: "string \<Rightarrow> string \<Rightarrow> crypto_error + string \<times> string" where
  "parseKek i base64 =
     (let key = b64_decode base64
      in if length key \<noteq> 32 then Inl (Bad_kek_length i (length key)) else Inr (i, key))"

definition generateKek :: "string \<Rightarrow> string" where
  "generateKek random = to_base64 random"

definition secretsEqual :: "string \<Rightarrow> string \<Rightarrow> bool" where
  "secretsEqual a b =
     (let bufA = utf8_encode a; bufB = utf8_encode b
      in if length bufA \<noteq> length bufB then False else bufA = bufB)"

subsection \<open>Contexts and boxes\<close>

lemma uint32_be_inject:
  assumes "m < 2 ^ 32" "n < 2 ^ 32" "uint32_be m = uint32_be n" shows "m = n"
proof -
  have horner: "k = B * 256 + a \<Longrightarrow> B = C * 256 + b \<Longrightarrow> C = D * 256 + c \<Longrightarrow>
      k = ((D * 256 + c) * 256 + b) * 256 + a" for k B C D a b c :: nat by simp
  have split: "k = ((k div 2 ^ 24 * 256 + k div 2 ^ 16 mod 256) * 256 + k div 2 ^ 8 mod 256) * 256 + k mod 256" for k :: nat
  proof (rule horner [of _ "k div 2 ^ 8" _ "k div 2 ^ 16"])
    show "k div 2 ^ 8 = k div 2 ^ 16 * 256 + k div 2 ^ 8 mod 256"
      using div_mult_mod_eq [of "k div 2 ^ 8" 256] by (simp add: div_mult2_eq [symmetric])
    show "k div 2 ^ 16 = k div 2 ^ 24 * 256 + k div 2 ^ 16 mod 256"
      using div_mult_mod_eq [of "k div 2 ^ 16" 256] by (simp add: div_mult2_eq [symmetric])
  qed simp
  have "m div 2 ^ 24 < 256" "n div 2 ^ 24 < 256" using assms(1,2) by (simp_all add: less_mult_imp_div_less)
  then have "m div 2 ^ 24 = n div 2 ^ 24" "m div 2 ^ 16 mod 256 = n div 2 ^ 16 mod 256"
    "m div 2 ^ 8 mod 256 = n div 2 ^ 8 mod 256" "m mod 256 = n mod 256"
    using assms(3) by (simp_all add: uint32_be_def)
  with split [of m] split [of n] show ?thesis by simp
qed

lemma aad_part_prefix:
  assumes "aad_part p = Inr x" "aad_part q = Inr y" "x @ r = y @ s" shows "p = q \<and> r = s"
proof -
  have x: "x = uint32_be (length (utf8_encode p)) @ utf8_encode p" "length (utf8_encode p) < 2 ^ 32"
    and y: "y = uint32_be (length (utf8_encode q)) @ utf8_encode q" "length (utf8_encode q) < 2 ^ 32"
    using assms(1,2) by (auto simp: aad_part_def Let_def split: if_splits)
  have "uint32_be (length (utf8_encode p)) = uint32_be (length (utf8_encode q))"
    "utf8_encode p @ r = utf8_encode q @ s"
    using assms(3) by (simp_all add: x(1) y(1) uint32_be_def)
  with uint32_be_inject x(2) y(2) have "length (utf8_encode p) = length (utf8_encode q)" by blast
  with \<open>utf8_encode p @ r = utf8_encode q @ s\<close> show ?thesis by simp
qed

lemma buildAad_inject: "buildAad ctx = Inr aad \<Longrightarrow> buildAad ctx' = Inr aad \<Longrightarrow> ctx = ctx'"
proof -
  assume "buildAad ctx = Inr aad" "buildAad ctx' = Inr aad"
  then obtain a b c a' b' c' where parts:
    "aad_part (ec_userId ctx) = Inr a" "aad_part (ec_provider ctx) = Inr b" "aad_part (ec_field ctx) = Inr c"
    "aad_part (ec_userId ctx') = Inr a'" "aad_part (ec_provider ctx') = Inr b'" "aad_part (ec_field ctx') = Inr c'"
    and e: "a @ b @ c = a' @ b' @ c'"
    by (auto simp: buildAad_def split: sum.splits)
  have 1: "ec_userId ctx = ec_userId ctx'" "b @ c = b' @ c'"
    using aad_part_prefix [OF parts(1,4) e] by simp_all
  have 2: "ec_provider ctx = ec_provider ctx'" "c = c'"
    using aad_part_prefix [OF parts(2,5) 1(2)] by simp_all
  have "ec_field ctx = ec_field ctx'"
    using aad_part_prefix [OF parts(3,6), of "[]" "[]"] 2(2) by simp
  with 1(1) 2(1) show ?thesis by simp
qed

lemma open_box:
  assumes "is_aead seal opn" "binds_aad seal" "length key = 32" "length nonce = 12"
  shows "openWithKey opn key (box_seal seal key nonce aad p) aad' = (if aad' = aad then Inr p else Inl Tag_mismatch)"
proof -
  let ?b = "box_seal seal key nonce aad p"
  have len: "28 \<le> length ?b" using box_length [OF assms(1,4)] .
  have "aad' = aad \<and> p' = p" if opens: "box_open opn key aad' ?b = Some p'" for p'
  proof -
    obtain nonce' where n: "length nonce' = 12" "?b = box_seal seal key nonce' aad' p'"
      using iffD1 [OF box_open_iff [OF assms(1) len] opens] by auto
    obtain c t where c: "seal key nonce aad p = (c, t)" by (cases "seal key nonce aad p")
    obtain c' t' where c': "seal key nonce' aad' p' = (c', t')" by (cases "seal key nonce' aad' p'")
    note ct = c c'
    have "nonce @ c @ t = nonce' @ c' @ t'" using n(2) ct by (simp add: box_seal_def)
    then have "nonce = nonce'" "c @ t = c' @ t'" using n(1) assms(4) by simp_all
    moreover have "length t = length t'" using tag_length [OF assms(1)] ct by metis
    ultimately have s: "seal key nonce aad p = seal key nonce aad' p'" using ct by simp
    then have "aad' = aad" using assms(2) unfolding binds_aad_def by metis
    moreover have "opn key nonce aad c t = Some p" "opn key nonce aad c t = Some p'"
      using assms(1) s ct \<open>aad' = aad\<close> by (simp_all add: is_aead_def)
    ultimately show ?thesis by simp
  qed
  moreover have "box_open opn key aad ?b = Some p" using box_open_iff [OF assms(1) len, of key aad p] assms(4) by auto
  ultimately show ?thesis
    using len assms(3) by (cases "box_open opn key aad' ?b") (auto simp: openWithKey_def)
qed

lemma ev_seal_kek: "ev_seal seal ev dek nonce1 nonce2 plaintext ctx = Inr sealed \<Longrightarrow> sc_kekId sealed = ev_activeKekId ev"
  by (auto simp: ev_seal_def split: if_splits sum.splits)

lemma envelope_opens:
  assumes "is_aead seal opn" "binds_aad seal" "ev_kek ev (ev_activeKekId ev) = Inr kek" "length kek = 32"
    and "length dek = 32" "length nonce1 = 12" "length nonce2 = 12"
    and "ev_seal seal ev dek nonce1 nonce2 plaintext ctx = Inr sealed"
    and "ev_kek ev' (sc_kekId sealed) = Inr kek" "buildAad ctx' = Inr aad'"
  shows "ev_open opn ev' sealed ctx' = (if ctx' = ctx then Inr plaintext else Inl Tag_mismatch)"
proof -
  obtain aad where aad: "buildAad ctx = Inr aad"
    using assms(8) by (auto simp: ev_seal_def split: if_splits sum.splits)
  have sealed: "sc_wrappedDek sealed = box_seal seal kek nonce2 aad dek"
    "sc_ciphertext sealed = box_seal seal dek nonce1 aad (utf8_encode plaintext)"
    using assms(3-8) aad by (auto simp: ev_seal_def sealWithKey_def split: if_splits)
  have "aad' = aad \<longleftrightarrow> ctx' = ctx" 
  proof
    show "aad' = aad \<Longrightarrow> ctx' = ctx" using buildAad_inject [OF assms(10), of ctx] aad by simp
    show "ctx' = ctx \<Longrightarrow> aad' = aad" using aad assms(10) by simp
  qed
  then show ?thesis
    using open_box [OF assms(1,2,4,7), of aad dek aad'] open_box [OF assms(1,2,5,6), of aad "utf8_encode plaintext" aad]
    by (cases "ctx' = ctx") (simp_all add: ev_open_def assms(10) aad ev_dek_def assms(9) sealed)
qed

lemma open_box_same:
  assumes "is_aead seal opn" "length key = 32" "length nonce = 12"
  shows "openWithKey opn key (box_seal seal key nonce aad p) aad = Inr p"
proof -
  have len: "28 \<le> length (box_seal seal key nonce aad p)" using box_length [OF assms(1,3)] .
  have "box_open opn key aad (box_seal seal key nonce aad p) = Some p"
    using box_open_iff [OF assms(1) len, of key aad p] assms(3) by auto
  then show ?thesis using len assms(2) by (simp add: openWithKey_def)
qed

subsection \<open>Properties\<close>

text \<open>Claim C12. The round trip of a credential: what was sealed for a user, a provider and a field opens to
  the same text there, and fails the tag check for every other user, provider or field, however
  these are split; a cipher that knows more keys or has another active one opens it as well.\<close>

theorem envelope_roundtrip:
  assumes "is_aead seal opn" and "binds_aad seal" and "ev_new keks active = Inr ev"
    and "length dek = 32" and "length nonce1 = 12" and "length nonce2 = 12"
    and "ev_seal seal ev dek nonce1 nonce2 plaintext ctx = Inr sealed"
    and "map_of (ev_keks ev') active = map_of keks active" and "buildAad ctx' = Inr aad'"
  shows "ev_open opn ev' sealed ctx' = (if ctx' = ctx then Inr plaintext else Inl Tag_mismatch)"
proof -
  obtain kek where kek: "map_of keks active = Some kek" and ev: "ev = \<lparr>ev_keks = keks, ev_activeKekId = active\<rparr>"
    and none: "find (\<lambda>(i, key). length key \<noteq> 32) keks = None"
    using assms(3) by (auto simp: ev_new_def split: if_splits option.splits)
  have "length kek = 32" using none map_of_SomeD [OF kek] by (auto simp: find_None_iff)
  moreover have "sc_kekId sealed = active"
    using ev_seal_kek [OF assms(7)] ev by simp
  ultimately show ?thesis
    using kek ev assms by (intro envelope_opens [where kek = kek and ?dek = dek]) (simp_all add: ev_kek_def)
qed

text \<open>A cipher that keeps the laws, to apply them: the ciphertext carries the associated data.\<close>

definition framed :: "string \<Rightarrow> string" where
  "framed a = concat (map (\<lambda>x. [CHR ''1'', x]) a) @ ''0''"

definition toy_seal :: gcm_seal where
  "toy_seal k n a p = (framed a @ p, replicate 16 (CHR ''t''))"

definition toy_open :: gcm_open where
  "toy_open k n a c t =
     (if t = replicate 16 (CHR ''t'') \<and> take (length (framed a)) c = framed a then Some (drop (length (framed a)) c) else None)"

lemma toy_is_aead: "is_aead toy_seal toy_open"
  by (auto simp: is_aead_def toy_seal_def toy_open_def) (metis append_take_drop_id)

lemma toy_binds_aad: "binds_aad toy_seal"
proof -
  have "framed a @ p = framed a' @ p' \<Longrightarrow> a = a'" for a p a' p'
  proof (induction a arbitrary: a')
    case Nil
    then show ?case by (cases a') (simp_all add: framed_def)
  next
    case (Cons x a)
    then show ?case by (cases a') (auto simp: framed_def)
  qed
  then show ?thesis by (auto simp: binds_aad_def toy_seal_def)
qed

definition demo_kek :: string where
  "demo_kek = replicate 32 (CHR ''k'')"

definition demo_context :: encryption_context where
  "demo_context = \<lparr>ec_userId = ''ab'', ec_provider = ''c'', ec_field = ''token''\<rparr>"

definition demo_sealed :: sealed_credential where
  "demo_sealed = (case ev_seal toy_seal \<lparr>ev_keks = [(''k1'', demo_kek)], ev_activeKekId = ''k1''\<rparr> demo_kek
     (replicate 12 (CHR ''n'')) (replicate 12 (CHR ''m'')) ''secret'' demo_context of Inr s \<Rightarrow> s)"

lemma demo_facts:
  "ev_new [(''k1'', demo_kek)] ''k1'' = Inr \<lparr>ev_keks = [(''k1'', demo_kek)], ev_activeKekId = ''k1''\<rparr>"
  "length demo_kek = 32" "\<exists>a. buildAad demo_context = Inr a"
  "ev_seal toy_seal \<lparr>ev_keks = [(''k1'', demo_kek)], ev_activeKekId = ''k1''\<rparr> demo_kek
     (replicate 12 (CHR ''n'')) (replicate 12 (CHR ''m'')) ''secret'' demo_context = Inr demo_sealed"
proof -
  show "length demo_kek = 32" by (simp add: demo_kek_def)
  show ctx: "\<exists>a. buildAad demo_context = Inr a"
    by (simp add: buildAad_def demo_context_def aad_part_def utf8_encode_def utf8_char_def Let_def)
  then show "ev_seal toy_seal \<lparr>ev_keks = [(''k1'', demo_kek)], ev_activeKekId = ''k1''\<rparr> demo_kek
     (replicate 12 (CHR ''n'')) (replicate 12 (CHR ''m'')) ''secret'' demo_context = Inr demo_sealed"
    by (auto simp: demo_sealed_def ev_seal_def sealWithKey_def ev_kek_def demo_kek_def)
qed (simp add: ev_new_def demo_kek_def)

lemma envelope_roundtrip_witness:
  "ev_open toy_open \<lparr>ev_keks = [(''k2'', demo_kek), (''k1'', demo_kek)], ev_activeKekId = ''k2''\<rparr> demo_sealed
     \<lparr>ec_userId = ''a'', ec_provider = ''bc'', ec_field = ''token''\<rparr> = Inl Tag_mismatch"
proof -
  have "\<exists>a. buildAad \<lparr>ec_userId = ''a'', ec_provider = ''bc'', ec_field = ''token''\<rparr> = Inr a"
    by (simp add: buildAad_def aad_part_def utf8_encode_def utf8_char_def Let_def)
  then obtain a where ctx: "buildAad \<lparr>ec_userId = ''a'', ec_provider = ''bc'', ec_field = ''token''\<rparr> = Inr a" ..
  from envelope_roundtrip [OF toy_is_aead toy_binds_aad demo_facts(1,2) _ _ demo_facts(4) _ ctx,
      of "\<lparr>ev_keks = [(''k2'', demo_kek), (''k1'', demo_kek)], ev_activeKekId = ''k2''\<rparr>"]
  show ?thesis by (simp add: demo_context_def)
qed

text \<open>Rotation loses nothing: a credential that opens can be rewrapped under the active key, its
  ciphertext is untouched, and from then on it opens under the active key alone, whatever other
  keys are dropped.\<close>

theorem rotation_keeps_credential:
  assumes "is_aead seal opn" and "ev_new keks active = Inr ev" and "length nonce = 12"
    and "ev_open opn ev sealed ctx = Inr plaintext"
    and "map_of (ev_keks ev') active = map_of keks active"
  shows "\<exists>s. ev_rewrap seal opn ev nonce sealed ctx = Inr s \<and> sc_kekId s = active \<and>
    sc_ciphertext s = sc_ciphertext sealed \<and> ev_open opn ev' s ctx = Inr plaintext"
proof -
  obtain kek where kek: "map_of keks active = Some kek" and ev: "ev = \<lparr>ev_keks = keks, ev_activeKekId = active\<rparr>"
    and none: "find (\<lambda>(i, key). length key \<noteq> 32) keks = None"
    using assms(2) by (auto simp: ev_new_def split: if_splits option.splits)
  have len: "length kek = 32" using none map_of_SomeD [OF kek] by (auto simp: find_None_iff)
  obtain aad dek where o: "buildAad ctx = Inr aad" "ev_dek opn ev sealed aad = Inr dek"
    and rest: "(case openWithKey opn dek (sc_ciphertext sealed) aad of Inl e \<Rightarrow> Inl e
      | Inr bytes \<Rightarrow> (case utf8_decode bytes of None \<Rightarrow> Inl Outside_text | Some t \<Rightarrow> Inr t)) = Inr plaintext"
    using assms(4) by (auto simp: ev_open_def split: sum.splits)
  have k: "ev_kek ev' active = Inr kek" "ev_kek ev active = Inr kek" using assms(5) kek ev by (simp_all add: ev_kek_def)
  have act: "ev_activeKekId ev = active" using ev by simp
  show ?thesis
  proof (cases "sc_kekId sealed = active")
    case True
    then have "ev_dek opn ev' sealed aad = ev_dek opn ev sealed aad" by (simp add: ev_dek_def k)
    then have "ev_open opn ev' sealed ctx = Inr plaintext" using rest by (simp add: ev_open_def o)
    then show ?thesis using True act by (simp add: ev_rewrap_def)
  next
    case False
    let ?s = "\<lparr>sc_kekId = active, sc_wrappedDek = box_seal seal kek nonce aad dek, sc_ciphertext = sc_ciphertext sealed\<rparr>"
    have "ev_rewrap seal opn ev nonce sealed ctx = Inr ?s"
      using False len by (simp add: ev_rewrap_def act k o sealWithKey_def)
    moreover have "ev_dek opn ev' ?s aad = Inr dek"
      by (simp add: ev_dek_def k open_box_same [OF assms(1) len assms(3)])
    then have "ev_open opn ev' ?s ctx = Inr plaintext" using rest by (simp add: ev_open_def o)
    ultimately show ?thesis by simp
  qed
qed

lemma rotation_keeps_credential_witness:
  "\<exists>s. ev_rewrap toy_seal toy_open \<lparr>ev_keks = [(''k2'', demo_kek), (''k1'', demo_kek)], ev_activeKekId = ''k2''\<rparr>
     (replicate 12 (CHR ''r'')) demo_sealed demo_context = Inr s \<and> sc_kekId s = ''k2'' \<and>
     sc_ciphertext s = sc_ciphertext demo_sealed \<and>
     ev_open toy_open \<lparr>ev_keks = [(''k2'', demo_kek)], ev_activeKekId = ''k2''\<rparr> s demo_context = Inr ''secret''"
proof -
  let ?ev = "\<lparr>ev_keks = [(''k2'', demo_kek), (''k1'', demo_kek)], ev_activeKekId = ''k2''\<rparr>"
  obtain a where ctx: "buildAad demo_context = Inr a" using demo_facts(3) by blast
  have id: "sc_kekId demo_sealed = ''k1''"
    using ev_seal_kek [OF demo_facts(4)] by simp
  have "ev_open toy_open ?ev demo_sealed demo_context = Inr ''secret''"
    using envelope_opens [OF toy_is_aead toy_binds_aad _ demo_facts(2,2) _ _ demo_facts(4) _ ctx, of ?ev]
    by (simp add: ev_kek_def id)
  moreover have "ev_new [(''k2'', demo_kek), (''k1'', demo_kek)] ''k2'' = Inr ?ev"
    by (simp add: ev_new_def demo_facts(2))
  ultimately show ?thesis
    using rotation_keeps_credential [OF toy_is_aead, of "[(''k2'', demo_kek), (''k1'', demo_kek)]" "''k2''" ?ev
        "replicate 12 (CHR ''r'')" demo_sealed demo_context "''secret''"
        "\<lparr>ev_keks = [(''k2'', demo_kek)], ev_activeKekId = ''k2''\<rparr>"]
    by simp
qed

text \<open>A generated key is read back.\<close>

lemma b64_decode_to_base64: "b64_decode (to_base64 bytes) = bytes"
proof -
  have val: "b64_val (if c = CHR ''-'' then CHR ''+'' else if c = CHR ''_'' then CHR ''/'' else c) = b64_val c" for c
    by (auto simp: b64_val_def)
  have pad: "List.map_filter b64_val (xs @ replicate n (CHR ''='')) = List.map_filter b64_val xs" for xs n
    by (simp add: List.map_filter_def b64_val_def)
  have "List.map_filter b64_val (map (\<lambda>c. if c = CHR ''-'' then CHR ''+'' else if c = CHR ''_'' then CHR ''/'' else c) xs) =
      List.map_filter b64_val xs" for xs
    by (induction xs) (simp_all only: list.map List.map_filter_simps val)
  then show ?thesis using b64_decode_encode [of bytes] by (simp add: b64_decode_def to_base64_def pad)
qed

lemma parse_generated_kek: "length random = 32 \<Longrightarrow> parseKek i (generateKek random) = Inr (i, random)"
  by (simp add: parseKek_def generateKek_def b64_decode_to_base64)

end
