(* ===== verification/Signed_Cursor.thy ===== *)
theory Signed_Cursor
  imports Pf_Prelude Js_Json Js_Bytes
begin

text \<open>
  Signing keys and pagination cursors: \<^verbatim>\<open>apps/bff/src/lib/keys.ts\<close> and
  \<^verbatim>\<open>apps/bff/src/lib/cursor.ts\<close>. HKDF and HMAC of the crypto library are parameters, and so is
  \<open>Date.parse\<close>, whose grammar is up to the engine. What the code relies on of a signature,
  that a tag is accepted exactly when it is the one that signing gives, is the locale
  \<open>signer\<close>.
\<close>

subsection \<open>Keys\<close>

datatype key_purpose = Cursor | Export_link | Connect_state

fun KEY_PURPOSES :: "key_purpose \<Rightarrow> string" where
  "KEY_PURPOSES Cursor = ''pullfm/v1/cursor''"
| "KEY_PURPOSES Export_link = ''pullfm/v1/export-link''"
| "KEY_PURPOSES Connect_state = ''pullfm/v1/connect-state''"

text \<open>\<open>hkdf root info\<close> and \<open>hmac key bytes\<close>.\<close>

type_synonym kdf = "string \<Rightarrow> string \<Rightarrow> string"

type_synonym signing_keys = "(key_purpose \<times> string) list"

definition sk_new :: "kdf \<Rightarrow> string \<Rightarrow> signing_keys option" where
  "sk_new hkdf rootKey =
     (if length rootKey < 32 then None
      else Some (map (\<lambda>p. (p, hkdf rootKey (KEY_PURPOSES p))) [Cursor, Export_link, Connect_state]))"

definition sk_key :: "signing_keys \<Rightarrow> key_purpose \<Rightarrow> string option" where
  "sk_key keys purpose = map_of keys purpose"

definition sk_sign :: "(string \<Rightarrow> string \<Rightarrow> string) \<Rightarrow> signing_keys \<Rightarrow> key_purpose \<Rightarrow> string \<Rightarrow> string" where
  "sk_sign hmac keys purpose message =
     b64_encode (hmac (orelse (sk_key keys purpose) []) (utf8_encode message))"

definition sk_verify ::
  "(string \<Rightarrow> string \<Rightarrow> string) \<Rightarrow> signing_keys \<Rightarrow> key_purpose \<Rightarrow> string \<Rightarrow> string \<Rightarrow> bool" where
  "sk_verify hmac keys purpose message tag =
     (let expected = utf8_encode (sk_sign hmac keys purpose message); actual = utf8_encode tag
      in if length expected \<noteq> length actual then False else expected = actual)"

subsection \<open>What a signature promises\<close>

locale signer =
  fixes sign :: "string \<Rightarrow> string"
    and verify :: "string \<Rightarrow> string \<Rightarrow> bool"
  assumes verify_sign: "verify m t \<longleftrightarrow> t = sign m"
    and sign_plain: "c \<in> set (sign m) \<Longrightarrow> c \<notin> {CHR ''.'', CHR ''|''}"
begin

text \<open>A token \<open>payload.tag\<close> whose tag covers a context and the payload.\<close>

definition issued :: "(string \<Rightarrow> string) \<Rightarrow> string \<Rightarrow> string" where
  "issued context payload = payload @ CHR ''.'' # sign (context payload)"

definition accepted :: "(string \<Rightarrow> string) \<Rightarrow> string \<Rightarrow> string option" where
  "accepted context token =
     (case js_split (CHR ''.'') token of
        [payload, mac] \<Rightarrow>
          if payload = [] \<or> mac = [] then None
          else if verify (context payload) mac then Some payload else None
      | _ \<Rightarrow> None)"

text \<open>Only what was issued is accepted.\<close>

lemma accepted_iff:
  "accepted context token = Some payload \<longleftrightarrow>
     token = issued context payload \<and> payload \<noteq> [] \<and> CHR ''.'' \<notin> set payload \<and> sign (context payload) \<noteq> []"
proof
  assume "accepted context token = Some payload"
  then show "token = issued context payload \<and> payload \<noteq> [] \<and> CHR ''.'' \<notin> set payload \<and> sign (context payload) \<noteq> []"
    by (auto simp: accepted_def issued_def verify_sign js_split_two split: list.splits if_splits)
next
  assume a: "token = issued context payload \<and> payload \<noteq> [] \<and> CHR ''.'' \<notin> set payload \<and> sign (context payload) \<noteq> []"
  then have "js_split (CHR ''.'') token = [payload, sign (context payload)]"
    using sign_plain [of "CHR ''.''" "context payload"] by (auto simp: js_split_two issued_def)
  with a show "accepted context token = Some payload" by (simp add: accepted_def verify_sign)
qed

text \<open>A token issued under another context is not.\<close>

lemma accepted_issued:
  assumes "inj sign" and "payload \<noteq> []" and "CHR ''.'' \<notin> set payload" and "sign (context payload) \<noteq> []"
  shows "accepted context' (issued context payload) = (if context' payload = context payload then Some payload else None)"
proof -
  have "issued context payload = issued context' payload' \<Longrightarrow> CHR ''.'' \<notin> set payload' \<Longrightarrow>
      payload' = payload \<and> context' payload = context payload" for payload'
  proof -
    assume e: "issued context payload = issued context' payload'" and p: "CHR ''.'' \<notin> set payload'"
    have "js_split (CHR ''.'') (issued context payload) = payload # js_split (CHR ''.'') (sign (context payload))"
      "js_split (CHR ''.'') (issued context' payload') = payload' # js_split (CHR ''.'') (sign (context' payload'))"
      using assms(3) p by (simp_all add: issued_def js_split_append)
    with e have "payload' = payload" by simp
    with e assms(1) show ?thesis by (auto simp: issued_def inj_eq)
  qed
  then have "accepted context' (issued context payload) = None" if "context' payload \<noteq> context payload"
    using that accepted_iff [of context' "issued context payload"] by (cases "accepted context' (issued context payload)") auto
  moreover have "accepted context' (issued context payload) = Some payload" if "context' payload = context payload"
    using that assms by (simp add: accepted_iff issued_def)
  ultimately show ?thesis by simp
qed

end

interpretation signing_keys: signer "sk_sign hmac keys purpose" "sk_verify hmac keys purpose"
proof
  show "sk_verify hmac keys purpose m t \<longleftrightarrow> t = sk_sign hmac keys purpose m" for m t
    by (auto simp: sk_verify_def Let_def)
  show "c \<in> set (sk_sign hmac keys purpose m) \<Longrightarrow> c \<notin> {CHR ''.'', CHR ''|''}" for c m
    using b64_encode_plain unfolding sk_sign_def by blast
qed

subsection \<open>Cursors\<close>

record cursor_position =
  cp_createdAt :: string
  cp_id :: string

definition cursor_payload :: "cursor_position \<Rightarrow> string" where
  "cursor_payload position =
     b64_encode (utf8_encode (stringify (JObj [(''t'', JStr (cp_createdAt position)), (''i'', JStr (cp_id position))])))"

definition cursor_message :: "string \<Rightarrow> string \<Rightarrow> string \<Rightarrow> string" where
  "cursor_message scope subjectId payload = scope @ CHR ''|'' # subjectId @ CHR ''|'' # payload"

definition encodeCursor ::
  "(string \<Rightarrow> string \<Rightarrow> string) \<Rightarrow> signing_keys \<Rightarrow> string \<Rightarrow> string \<Rightarrow> cursor_position \<Rightarrow> string" where
  "encodeCursor hmac keys scope subjectId position =
     (let payload = cursor_payload position;
          mac = sk_sign hmac keys Cursor (cursor_message scope subjectId payload)
      in payload @ CHR ''.'' # mac)"

text \<open>The position a verified payload carries.\<close>

definition read_position :: "(string \<Rightarrow> bool) \<Rightarrow> string \<Rightarrow> cursor_position option" where
  "read_position date_ok payload =
     (case utf8_decode (b64_decode payload) of
        None \<Rightarrow> None
      | Some t \<Rightarrow>
          (case json_parse t of
             None \<Rightarrow> None
           | Some parsed \<Rightarrow>
               (case (jget ''t'' parsed, jget ''i'' parsed) of
                  (Some (JStr createdAt), Some (JStr i)) \<Rightarrow>
                    if date_ok createdAt then Some \<lparr>cp_createdAt = createdAt, cp_id = i\<rparr> else None
                | _ \<Rightarrow> None)))"

text \<open>\<open>None\<close> is the 400, the same on every path.\<close>

definition decodeCursor ::
  "(string \<Rightarrow> string \<Rightarrow> string) \<Rightarrow> (string \<Rightarrow> bool) \<Rightarrow> signing_keys \<Rightarrow> string \<Rightarrow> string \<Rightarrow> string \<Rightarrow> cursor_position option" where
  "decodeCursor hmac date_ok keys scope subjectId cursor =
     (case js_split (CHR ''.'') cursor of
        [payload, mac] \<Rightarrow>
          if payload = [] \<or> mac = [] then None
          else if \<not> sk_verify hmac keys Cursor (cursor_message scope subjectId payload) mac then None
          else read_position date_ok payload
      | _ \<Rightarrow> None)"

definition pageLimit :: "rat option \<Rightarrow> int \<Rightarrow> int" where
  "pageLimit requested most =
     (case requested of
        None \<Rightarrow> 25
      | Some r \<Rightarrow> if of_int \<lfloor>r\<rfloor> \<noteq> r \<or> r < 1 then 25 else min \<lfloor>r\<rfloor> most)"

lemma encodeCursor_issued:
  "encodeCursor hmac keys scope subjectId position =
     signing_keys.issued hmac keys Cursor (cursor_message scope subjectId) (cursor_payload position)"
  by (simp add: encodeCursor_def signing_keys.issued_def Let_def)

lemma decodeCursor_accepted:
  "decodeCursor hmac date_ok keys scope subjectId cursor =
     Option.bind (signing_keys.accepted hmac keys Cursor (cursor_message scope subjectId) cursor) (read_position date_ok)"
  by (simp add: decodeCursor_def signing_keys.accepted_def split: list.split)

lemma read_position_payload:
  "read_position date_ok (cursor_payload position) = (if date_ok (cp_createdAt position) then Some position else None)"
  by (simp add: read_position_def cursor_payload_def jget_def)

lemma cursor_payload_plain: "cursor_payload position \<noteq> [] \<and> CHR ''.'' \<notin> set (cursor_payload position) \<and>
    CHR ''|'' \<notin> set (cursor_payload position)"
  using b64_encode_plain by (auto simp: cursor_payload_def)

lemma cursor_message_inject:
  assumes "CHR ''|'' \<notin> set scope" and "CHR ''|'' \<notin> set scope'"
  shows "cursor_message scope subject p = cursor_message scope' subject' p \<longleftrightarrow> scope = scope' \<and> subject = subject'"
proof
  assume "cursor_message scope subject p = cursor_message scope' subject' p"
  then have "js_split (CHR ''|'') (cursor_message scope subject p) = js_split (CHR ''|'') (cursor_message scope' subject' p)"
    and e: "cursor_message scope subject p = cursor_message scope' subject' p" by simp_all
  then have "scope = scope'" using assms by (simp add: cursor_message_def js_split_append)
  with e show "scope = scope' \<and> subject = subject'" by (simp add: cursor_message_def)
qed simp

lemma cursor_own:
  "(\<And>k m. hmac k m \<noteq> []) \<Longrightarrow> date_ok (cp_createdAt position) \<Longrightarrow>
     decodeCursor hmac date_ok keys scope subject (encodeCursor hmac keys scope subject position) = Some position"
proof -
  assume "\<And>k m. hmac k m \<noteq> []" and d: "date_ok (cp_createdAt position)"
  then have "signing_keys.accepted hmac keys Cursor (cursor_message scope subject)
      (encodeCursor hmac keys scope subject position) = Some (cursor_payload position)"
    using cursor_payload_plain [of position]
    by (simp add: encodeCursor_issued signing_keys.accepted_iff sk_sign_def)
  with d show ?thesis by (simp add: decodeCursor_accepted read_position_payload)
qed

subsection \<open>Properties\<close>

text \<open>Claim C11. A cursor comes back as the position it was made from for the subject and the scope it was
  issued for, and for no other subject, whatever a subject is called, and no other scope; of the
  MAC this needs that it gives different messages different, nonempty tags.\<close>

theorem cursor_roundtrip:
  assumes "\<And>k. inj (hmac k)" and "\<And>k m. hmac k m \<noteq> []"
    and "CHR ''|'' \<notin> set scope" and "CHR ''|'' \<notin> set scope'" and "date_ok (cp_createdAt position)"
  shows "decodeCursor hmac date_ok keys scope' subject' (encodeCursor hmac keys scope subject position) =
    (if scope' = scope \<and> subject' = subject then Some position else None)"
proof -
  have "inj (sk_sign hmac keys Cursor)"
    using assms(1) [of "orelse (sk_key keys Cursor) []"] by (auto simp: sk_sign_def inj_eq intro!: injI)
  moreover have "sk_sign hmac keys Cursor m \<noteq> []" for m using assms(2) by (simp add: sk_sign_def)
  ultimately show ?thesis
    using cursor_payload_plain [of position] assms(3-5)
    by (auto simp: encodeCursor_issued decodeCursor_accepted signing_keys.accepted_issued read_position_payload
        cursor_message_inject)
qed

lemma cursor_roundtrip_witness:
  "decodeCursor (\<lambda>k m. k @ m @ ''x'') (\<lambda>d. length d = 4) [(Cursor, ''key'')] ''feed'' ''u2''
     (encodeCursor (\<lambda>k m. k @ m @ ''x'') [(Cursor, ''key'')] ''feed'' ''u1'' \<lparr>cp_createdAt = ''2026'', cp_id = ''7''\<rparr>) = None"
  using cursor_roundtrip [of "\<lambda>k m. k @ m @ ''x''" "''feed''" "''feed''" "\<lambda>d. length d = 4"
      "\<lparr>cp_createdAt = ''2026'', cp_id = ''7''\<rparr>" "[(Cursor, ''key'')]" "''u2''" "''u1''"]
  by (simp add: inj_def)

text \<open>Nothing else is accepted: a cursor that decodes carries the tag of its own payload, for this
  subject and this scope.\<close>

lemma cursor_unforgeable:
  "decodeCursor hmac date_ok keys scope subject cursor = Some position \<Longrightarrow>
     \<exists>payload. cursor = payload @ CHR ''.'' # sk_sign hmac keys Cursor (cursor_message scope subject payload) \<and>
       date_ok (cp_createdAt position)"
proof -
  assume "decodeCursor hmac date_ok keys scope subject cursor = Some position"
  then obtain payload where "signing_keys.accepted hmac keys Cursor (cursor_message scope subject) cursor = Some payload"
    and r: "read_position date_ok payload = Some position" by (auto simp: decodeCursor_accepted bind_eq_Some_conv)
  then have "cursor = signing_keys.issued hmac keys Cursor (cursor_message scope subject) payload"
    by (simp add: signing_keys.accepted_iff)
  moreover have "date_ok (cp_createdAt position)"
    using r by (auto simp: read_position_def split: option.splits json.splits if_splits)
  ultimately show ?thesis by (auto simp: signing_keys.issued_def)
qed

text \<open>The keys of two purposes are derived under different labels.\<close>

lemma purposes_separated: "KEY_PURPOSES p = KEY_PURPOSES q \<longleftrightarrow> p = q"
  by (cases p; cases q) simp_all

text \<open>A page has at least one and at most \<open>most\<close> rows, or the default of 25.\<close>

lemma pageLimit_bounds: "1 \<le> most \<Longrightarrow> 1 \<le> pageLimit r most \<and> pageLimit r most \<le> max 25 most"
  by (auto simp: pageLimit_def split: option.split)

end
