(* ===== verification/Session_Cookie.thy ===== *)
theory Session_Cookie
  imports Envelope Signed_Cursor
begin

text \<open>
  The sealed session cookie: \<^verbatim>\<open>apps/bff/src/lib/session-cookie.ts\<close>. The box is that of the
  envelope, the key comes out of HKDF under a label of its own, and the fresh nonce of a call
  is an argument. Times are in seconds.
\<close>

subsection \<open>The cipher\<close>

definition COOKIE_VERSION :: string where
  "COOKIE_VERSION = ''v1''"

definition COOKIE_HKDF_INFO :: string where
  "COOKIE_HKDF_INFO = ''pullfm/v1/session-cookie''"

record cookie_payload =
  sp_accessToken :: string
  sp_refreshToken :: string
  sp_workosUserId :: string
  sp_expiresAt :: int

definition cc_new :: "kdf \<Rightarrow> string \<Rightarrow> string option" where
  "cc_new hkdf rootKey = (if length rootKey < 32 then None else Some (hkdf rootKey COOKIE_HKDF_INFO))"

definition cookie_json :: "cookie_payload \<Rightarrow> json" where
  "cookie_json payload = JObj
     [(''a'', JStr (sp_accessToken payload)), (''r'', JStr (sp_refreshToken payload)),
      (''u'', JStr (sp_workosUserId payload)), (''e'', JNum (sp_expiresAt payload))]"

definition cc_seal :: "gcm_seal \<Rightarrow> string \<Rightarrow> string \<Rightarrow> cookie_payload \<Rightarrow> string" where
  "cc_seal seal key nonce payload =
     (let plaintext = utf8_encode (stringify (cookie_json payload));
          sealed = box_seal seal key nonce (utf8_encode COOKIE_VERSION) plaintext
      in COOKIE_VERSION @ CHR ''.'' # b64_encode sealed)"

text \<open>An authentic \<open>null\<close> throws where its first field is read.\<close>

datatype opened = Opened cookie_payload | Rejected | Throws

definition cookie_contents :: "int \<Rightarrow> json \<Rightarrow> opened" where
  "cookie_contents nowSeconds raw =
     (if raw = JNull then Throws
      else case (jget ''a'' raw, jget ''r'' raw, jget ''u'' raw, jget ''e'' raw) of
        (Some (JStr a), Some (JStr r), Some (JStr u), Some (JNum e)) \<Rightarrow>
          if a = [] \<or> r = [] \<or> u = [] then Rejected
          else if e \<le> nowSeconds then Rejected
          else Opened \<lparr>sp_accessToken = a, sp_refreshToken = r, sp_workosUserId = u, sp_expiresAt = e\<rparr>
      | _ \<Rightarrow> Rejected)"

definition cc_open :: "gcm_open \<Rightarrow> string \<Rightarrow> string \<Rightarrow> int \<Rightarrow> opened" where
  "cc_open opn key val nowSeconds =
     (case indexOf (CHR ''.'') val of
        None \<Rightarrow> Rejected
      | Some separator \<Rightarrow>
          if take separator val \<noteq> COOKIE_VERSION then Rejected
          else let sealed = b64_decode (drop (separator + 1) val)
            in if length sealed < 28 then Rejected
               else case box_open opn key (utf8_encode COOKIE_VERSION) sealed of
                 None \<Rightarrow> Rejected
               | Some plaintext \<Rightarrow>
                   (case Option.bind (utf8_decode plaintext) json_parse of
                      None \<Rightarrow> Rejected
                    | Some raw \<Rightarrow> cookie_contents nowSeconds raw))"

subsection \<open>The wire format\<close>

definition cookie_part :: "string \<Rightarrow> string \<Rightarrow> string option option" where
  "cookie_part name part =
     (case indexOf (CHR ''='') part of
        None \<Rightarrow> None
      | Some eq \<Rightarrow>
          if js_trim (take eq part) \<noteq> name then None
          else let v = js_trim (drop (eq + 1) part) in Some (if v = [] then None else Some v))"

fun first_cookie :: "string \<Rightarrow> string list \<Rightarrow> string option" where
  "first_cookie name [] = None"
| "first_cookie name (part # parts) =
     (case cookie_part name part of None \<Rightarrow> first_cookie name parts | Some found \<Rightarrow> found)"

definition readCookie :: "string option \<Rightarrow> string \<Rightarrow> string option" where
  "readCookie header name =
     (case header of
        None \<Rightarrow> None
      | Some h \<Rightarrow> if h = [] then None else first_cookie name (js_split (CHR '';'') h))"

record cookie_attributes =
  ck_secure :: bool
  ck_maxAgeSeconds :: int

definition serializeSessionCookie :: "string \<Rightarrow> string \<Rightarrow> cookie_attributes \<Rightarrow> string" where
  "serializeSessionCookie name val attrs =
     js_join ''; ''
       ([name @ CHR ''='' # val, ''Path=/'', ''HttpOnly'', ''SameSite=Strict'',
         ''Max-Age='' @ show_int (ck_maxAgeSeconds attrs)] @
        (if ck_secure attrs then [''Secure''] else []))"

definition clearSessionCookie :: "string \<Rightarrow> bool \<Rightarrow> string" where
  "clearSessionCookie name secure = serializeSessionCookie name [] \<lparr>ck_secure = secure, ck_maxAgeSeconds = 0\<rparr>"

text \<open>What a browser sends back for a list of cookies, in its order.\<close>

definition cookie_header :: "(string \<times> string) list \<Rightarrow> string" where
  "cookie_header cookies = js_join ''; '' (map (\<lambda>(n, v). n @ CHR ''='' # v) cookies)"

subsection \<open>The cookie of a header\<close>

definition cookie_token :: "string \<Rightarrow> bool" where
  "cookie_token s \<longleftrightarrow> (\<forall>c \<in> set s. c \<noteq> CHR '';'' \<and> c \<noteq> CHR ''='' \<and> \<not> is_white c)"

lemma cookie_part_pair:
  "cookie_token n \<Longrightarrow> cookie_token v \<Longrightarrow> ws = [] \<or> ws = '' '' \<Longrightarrow>
     cookie_part name (ws @ n @ CHR ''='' # v) =
       (if n = name then Some (if v = [] then None else Some v) else None)"
proof -
  assume n: "cookie_token n" and v: "cookie_token v" and ws: "ws = [] \<or> ws = '' ''"
  have "CHR ''='' \<notin> set n" using n unfolding cookie_token_def by blast
  then have "CHR ''='' \<notin> set (ws @ n)" using ws by (elim disjE) simp_all
  then have "indexOf (CHR ''='') ((ws @ n) @ CHR ''='' # v) = Some (length (ws @ n))" by (rule indexOf_append)
  moreover have "js_trim (ws @ n) = n"
  proof -
    have "js_trim n = n" using n by (intro js_trim_id) (auto simp: cookie_token_def)
    moreover have "js_trim (CHR '' '' # n) = js_trim n" by (simp add: js_trim_def is_white_def)
    ultimately show ?thesis using ws by (elim disjE) simp_all
  qed
  moreover have "js_trim v = v" using v by (intro js_trim_id) (auto simp: cookie_token_def)
  ultimately show ?thesis by (simp add: cookie_part_def)
qed

lemmas cookie_part_first = cookie_part_pair [where ws = "[]", simplified]

lemmas cookie_part_next = cookie_part_pair [where ws = "'' ''", simplified]

lemma split_cookie_header:
  "cookies \<noteq> [] \<Longrightarrow> \<forall>(n, v) \<in> set cookies. cookie_token n \<and> cookie_token v \<Longrightarrow>
     js_split (CHR '';'') (cookie_header cookies) =
       (case map (\<lambda>(n, v). n @ CHR ''='' # v) cookies of p # ps \<Rightarrow> p # map ((@) '' '') ps)"
proof (induction cookies)
  case (Cons p cookies)
  obtain n v where p: "p = (n, v)" by (cases p)
  have plain: "CHR '';'' \<notin> set (n @ CHR ''='' # v)" using Cons.prems p by (auto simp: cookie_token_def)
  show ?case
  proof (cases cookies)
    case Nil
    then show ?thesis using plain by (simp add: cookie_header_def p js_split_plain)
  next
    case (Cons q cookies')
    have "js_split (CHR '';'') (cookie_header (p # cookies)) =
        (n @ CHR ''='' # v) # js_split (CHR '';'') (CHR '' '' # cookie_header cookies)"
      using js_split_append [OF plain] by (simp add: cookie_header_def p Cons)
    also have "js_split (CHR '';'') (CHR '' '' # cookie_header cookies) =
        (case js_split (CHR '';'') (cookie_header cookies) of x # xs \<Rightarrow> (CHR '' '' # x) # xs)"
      by (cases "js_split (CHR '';'') (cookie_header cookies)") simp_all
    finally show ?thesis using Cons.IH Cons.prems Cons by (simp add: p split: prod.splits)
  qed
qed simp

lemma first_cookie_pairs:
  "\<forall>(n, v) \<in> set cookies. cookie_token n \<and> cookie_token v \<Longrightarrow>
     first_cookie name (map (\<lambda>(n, v). '' '' @ n @ CHR ''='' # v) cookies) =
       (case map_of cookies name of Some v \<Rightarrow> if v = [] then None else Some v | None \<Rightarrow> None)"
  by (induction cookies) (auto simp: cookie_part_next)

lemma readCookie_header:
  assumes "\<forall>(n, v) \<in> set cookies. cookie_token n \<and> cookie_token v"
  shows "readCookie (Some (cookie_header cookies)) name =
    (case map_of cookies name of Some v \<Rightarrow> if v = [] then None else Some v | None \<Rightarrow> None)"
proof (cases cookies)
  case Nil
  then show ?thesis by (simp add: readCookie_def cookie_header_def)
next
  case (Cons p ps)
  obtain n v where p: "p = (n, v)" by (cases p)
  have "cookie_header cookies \<noteq> []" by (cases ps) (auto simp: cookie_header_def Cons p)
  moreover have "js_split (CHR '';'') (cookie_header cookies) =
      ([] @ n @ CHR ''='' # v) # map (\<lambda>(n, v). '' '' @ n @ CHR ''='' # v) ps"
    using split_cookie_header [OF _ assms] by (auto simp: Cons p)
  moreover have "cookie_part name ([] @ n @ CHR ''='' # v) = (if n = name then Some (if v = [] then None else Some v) else None)"
    using assms Cons p by (intro cookie_part_pair) auto
  ultimately show ?thesis
    using first_cookie_pairs [of ps name] assms by (simp add: readCookie_def Cons p)
qed

lemma cc_open_seal:
  assumes "is_aead seal opn" "length key = 32" "length nonce = 12"
  shows "cc_open opn key (cc_seal seal key nonce payload) now = cookie_contents now (cookie_json payload)"
proof -
  let ?box = "box_seal seal key nonce (utf8_encode COOKIE_VERSION) (utf8_encode (stringify (cookie_json payload)))"
  have len: "28 \<le> length ?box" using box_length [OF assms(1,3)] .
  have "box_open opn key (utf8_encode COOKIE_VERSION) ?box = Some (utf8_encode (stringify (cookie_json payload)))"
    using box_open_iff [OF assms(1) len] assms(3) by auto
  moreover have "cc_seal seal key nonce payload = CHR ''v'' # CHR ''1'' # CHR ''.'' # b64_encode ?box"
    by (simp add: cc_seal_def COOKIE_VERSION_def Let_def)
  ultimately show ?thesis
    using len by (simp add: cc_open_def Let_def) (simp add: cookie_json_def COOKIE_VERSION_def)
qed

lemma cookie_contents_json:
  "cookie_contents now (cookie_json payload) =
     (if sp_accessToken payload = [] \<or> sp_refreshToken payload = [] \<or> sp_workosUserId payload = [] \<or>
         sp_expiresAt payload \<le> now then Rejected else Opened payload)"
  by (simp add: cookie_contents_def cookie_json_def jget_def)

lemma b64_encode_token: "cookie_token (b64_encode s)"
proof -
  have "c \<noteq> CHR '';'' \<and> c \<noteq> CHR ''='' \<and> \<not> is_white c" if c: "c \<in> set (b64_encode s)" for c
  proof -
    obtain n where "n < 64" "c = b64_char n" using c b64_encode_chars [of s] by auto
    then have "b64_val c = Some n" by (simp add: b64_val_char)
    then show ?thesis by (auto simp: b64_val_def is_white_def Let_def split: if_splits)
  qed
  then show ?thesis by (simp add: cookie_token_def)
qed

lemma cc_seal_token: "cookie_token (cc_seal seal key nonce payload)"
  using b64_encode_token by (simp add: cc_seal_def COOKIE_VERSION_def Let_def cookie_token_def is_white_def)

subsection \<open>Properties\<close>

text \<open>The session of a browser: a sealed cookie that comes back in the header, among whatever other
  cookies, is read and opens to the payload it was sealed from until it expires, and to nothing
  afterwards; the first cookie of the name decides.\<close>

theorem session_cookie_roundtrip:
  assumes "is_aead seal opn" and "length key = 32" and "length nonce = 12" and "payload = \<lparr>sp_accessToken = a, sp_refreshToken = r,
      sp_workosUserId = u, sp_expiresAt = e\<rparr>" and "a \<noteq> []" and "r \<noteq> []" and "u \<noteq> []"
    and "\<forall>(n, v) \<in> set cookies. cookie_token n \<and> cookie_token v"
    and "map_of cookies name = Some (cc_seal seal key nonce payload)"
  shows "map_option (\<lambda>v. cc_open opn key v now) (readCookie (Some (cookie_header cookies)) name) =
    Some (if now < e then Opened payload else Rejected)"
proof -
  have "cc_seal seal key nonce payload \<noteq> []" by (simp add: cc_seal_def COOKIE_VERSION_def Let_def)
  then show ?thesis
    using assms by (simp add: readCookie_header cc_open_seal cookie_contents_json)
qed

definition demo_payload :: cookie_payload where
  "demo_payload = \<lparr>sp_accessToken = ''at'', sp_refreshToken = ''rt'', sp_workosUserId = ''user_1'', sp_expiresAt = 900\<rparr>"

lemma session_cookie_roundtrip_witness:
  "map_option (\<lambda>v. cc_open toy_open demo_kek v 899) (readCookie (Some (cookie_header
     [(''theme'', ''dark''), (''__Host-pf'', cc_seal toy_seal demo_kek (replicate 12 (CHR ''n'')) demo_payload),
      (''__Host-pf'', ''other'')])) ''__Host-pf'') = Some (Opened demo_payload)"
  using session_cookie_roundtrip [OF toy_is_aead demo_facts(2), of "replicate 12 (CHR ''n'')" demo_payload "''at''" "''rt''"
      "''user_1''" 900 "[(''theme'', ''dark''), (''__Host-pf'', cc_seal toy_seal demo_kek (replicate 12 (CHR ''n'')) demo_payload),
      (''__Host-pf'', ''other'')]" "''__Host-pf''" 899]
    cc_seal_token [of toy_seal demo_kek "replicate 12 (CHR ''n'')" demo_payload]
  by (simp add: demo_payload_def cookie_token_def is_white_def)

text \<open>Whatever opens was sealed with the key, under this version.\<close>

lemma cookie_unforgeable:
  assumes "is_aead seal opn" and "cc_open opn key val now = Opened payload"
  shows "\<exists>sep nonce plaintext raw. length nonce = 12 \<and> take sep val = COOKIE_VERSION \<and>
    b64_decode (drop (sep + 1) val) = box_seal seal key nonce (utf8_encode COOKIE_VERSION) plaintext \<and>
    Option.bind (utf8_decode plaintext) json_parse = Some raw \<and> cookie_contents now raw = Opened payload"
proof -
  obtain sep plaintext raw where o: "take sep val = COOKIE_VERSION" "28 \<le> length (b64_decode (drop (sep + 1) val))"
    "box_open opn key (utf8_encode COOKIE_VERSION) (b64_decode (drop (sep + 1) val)) = Some plaintext"
    "Option.bind (utf8_decode plaintext) json_parse = Some raw" "cookie_contents now raw = Opened payload"
    using assms(2) by (auto simp: cc_open_def Let_def not_less split: option.splits if_splits)
  then show ?thesis using box_open_iff [OF assms(1) o(2)] by fastforce
qed

text \<open>The label of the cookie key is none of the labels of the signing keys.\<close>

lemma cookie_key_separated: "COOKIE_HKDF_INFO \<noteq> KEY_PURPOSES p"
  by (cases p) (simp_all add: COOKIE_HKDF_INFO_def)

end
