(* ===== verification/Redis_Window.thy ===== *)
theory Redis_Window
  imports Pf_Prelude Js_Text
begin

text \<open>
  The counters in the quota Redis: \<^verbatim>\<open>apps/bff/src/lib/redis.ts\<close> and the store of the
  per-address limiter \<^verbatim>\<open>apps/bff/src/lib/rate-limit-store.ts\<close>. A script is one step on the
  keyspace, which maps a key to a number and the time at which it expires; the commands the
  scripts call are written with their documented meaning. Times are in milliseconds, the
  windows and the time to live in seconds. The contract the limiters share, a counter that
  counts every hit until its window ends, is the locale \<open>fixed_window\<close>.
\<close>

subsection \<open>The commands\<close>

type_synonym redis = "(string \<times> (int \<times> time option)) list"

definition rd_alive :: "time \<Rightarrow> time option \<Rightarrow> bool" where
  "rd_alive now till = (case till of None \<Rightarrow> True | Some d \<Rightarrow> now < d)"

text \<open>A key past its time does not exist.\<close>

definition rd_entry :: "time \<Rightarrow> string \<Rightarrow> redis \<Rightarrow> (int \<times> time option) option" where
  "rd_entry now k r = (case map_of r k of
     None \<Rightarrow> None | Some e \<Rightarrow> if rd_alive now (snd e) then Some e else None)"

definition rd_get :: "time \<Rightarrow> string \<Rightarrow> redis \<Rightarrow> int option" where
  "rd_get now k r = map_option fst (rd_entry now k r)"

definition rd_incrby :: "time \<Rightarrow> string \<Rightarrow> int \<Rightarrow> redis \<Rightarrow> int \<times> redis" where
  "rd_incrby now k n r =
     (case rd_entry now k r of
        None \<Rightarrow> (n, AList.update k (n, None) r)
      | Some (v, till) \<Rightarrow> (v + n, AList.update k (v + n, till) r))"

definition rd_expire :: "time \<Rightarrow> string \<Rightarrow> int \<Rightarrow> redis \<Rightarrow> redis" where
  "rd_expire now k secs r =
     (case rd_entry now k r of
        None \<Rightarrow> r
      | Some (v, _) \<Rightarrow> AList.update k (v, Some (now + 1000 * secs)) r)"

text \<open>-2 without the key, -1 without a time, else the seconds left.\<close>

definition rd_ttl :: "time \<Rightarrow> string \<Rightarrow> redis \<Rightarrow> int" where
  "rd_ttl now k r =
     (case rd_entry now k r of
        None \<Rightarrow> -2
      | Some (_, None) \<Rightarrow> -1
      | Some (_, Some d) \<Rightarrow> (d - now + 500) div 1000)"

definition rd_set_ex :: "time \<Rightarrow> string \<Rightarrow> int \<Rightarrow> int \<Rightarrow> redis \<Rightarrow> redis" where
  "rd_set_ex now k v secs r = AList.update k (v, Some (now + 1000 * secs)) r"

definition rd_exists :: "time \<Rightarrow> string \<Rightarrow> redis \<Rightarrow> bool" where
  "rd_exists now k r \<longleftrightarrow> rd_entry now k r \<noteq> None"

subsection \<open>The scripts\<close>

record window_count =
  wc_count :: int
  wc_ttlSeconds :: int

text \<open>\<open>INCR_WITH_TTL\<close> and \<open>incrementWindow\<close>.\<close>

definition incrementWindow :: "time \<Rightarrow> string \<Rightarrow> int \<Rightarrow> redis \<Rightarrow> window_count \<times> redis" where
  "incrementWindow now key windowSeconds r =
     (case rd_incrby now key 1 r of (current, r1) \<Rightarrow>
        let r2 = (if current = 1 then rd_expire now key windowSeconds r1 else r1);
            ttl = rd_ttl now key r2
        in (\<lparr>wc_count = current, wc_ttlSeconds = (if ttl < 0 then windowSeconds else ttl)\<rparr>, r2))"

definition claimOnce :: "time \<Rightarrow> string \<Rightarrow> int \<Rightarrow> redis \<Rightarrow> bool \<times> redis" where
  "claimOnce now key ttlSeconds r =
     (if rd_exists now key r then (False, r) else (True, rd_set_ex now key 1 ttlSeconds r))"

subsection \<open>The limiter of an address\<close>

text \<open>\<open>incr\<close> of the store of the global limiter; \<open>None\<close> is the 503 of a write that failed.\<close>

record rate_limit_count =
  rc_current :: int
  rc_ttl :: int

definition window_seconds :: "int \<Rightarrow> int" where
  "window_seconds timeWindowMs = max 1 (- ((- timeWindowMs) div 1000))"

definition window_key :: "string \<Rightarrow> string \<Rightarrow> int \<Rightarrow> time \<Rightarrow> string" where
  "window_key prefix key windowSeconds now =
     prefix @ key @ CHR '':'' # show_int (now div (1000 * windowSeconds))"

definition limiter_incr ::
  "bool \<Rightarrow> string \<Rightarrow> time \<Rightarrow> string \<Rightarrow> int \<Rightarrow> redis \<Rightarrow> rate_limit_count option \<times> redis" where
  "limiter_incr down prefix now key timeWindowMs r =
     (if down then (None, r)
      else let w = window_seconds timeWindowMs
           in case incrementWindow now (window_key prefix key w now) w r of (c, r') \<Rightarrow>
                (Some \<lparr>rc_current = wc_count c, rc_ttl = wc_ttlSeconds c * 1000\<rparr>, r'))"

definition limiter_child :: "string \<Rightarrow> string option \<Rightarrow> string option \<Rightarrow> string" where
  "limiter_child prefix verb url = prefix @ orelse verb ''ALL'' @ orelse url ''*'' @ '':''"

subsection \<open>What the limiters rely on\<close>

text \<open>\<open>running t0 n k s\<close>: the window of \<open>k\<close> opened at \<open>t0\<close> and has counted \<open>n\<close> hits.\<close>

locale fixed_window =
  fixes span :: time
    and hit :: "time \<Rightarrow> string \<Rightarrow> 's \<Rightarrow> int \<times> 's"
    and fresh :: "time \<Rightarrow> string \<Rightarrow> 's \<Rightarrow> bool"
    and running :: "time \<Rightarrow> int \<Rightarrow> string \<Rightarrow> 's \<Rightarrow> bool"
  assumes opens: "fresh t k s \<Longrightarrow> fst (hit t k s) = 1 \<and> running t 1 k (snd (hit t k s))"
    and counts: "running t0 n k s \<Longrightarrow> t < t0 + span \<Longrightarrow>
      fst (hit t k s) = n + 1 \<and> running t0 (n + 1) k (snd (hit t k s))"
    and others: "j \<noteq> k \<Longrightarrow> running t0 n k s \<Longrightarrow> running t0 n k (snd (hit t j s))"
    and others_fresh: "j \<noteq> k \<Longrightarrow> fresh t k s \<Longrightarrow> fresh t k (snd (hit t' j s))"
begin

text \<open>The answers to a sequence of hits, each under its key.\<close>

fun answers :: "(time \<times> string) list \<Rightarrow> 's \<Rightarrow> (string \<times> int) list" where
  "answers [] s = []"
| "answers ((t, k) # hs) s = (k, fst (hit t k s)) # answers hs (snd (hit t k s))"

definition for_key :: "string \<Rightarrow> (string \<times> int) list \<Rightarrow> int list" where
  "for_key k as = map snd (filter (\<lambda>a. fst a = k) as)"

text \<open>Whatever is counted in between for other keys, the hits of one key are numbered on.\<close>

lemma numbered:
  "running t0 n k s \<Longrightarrow> \<forall>h \<in> set hs. fst h < t0 + span \<Longrightarrow>
     for_key k (answers hs s) = map (\<lambda>i. n + 1 + int i) [0..<length (filter (\<lambda>h. snd h = k) hs)]"
proof (induction hs arbitrary: n s)
  case (Cons h hs)
  obtain t j where h: "h = (t, j)" by (cases h)
  show ?case
  proof (cases "j = k")
    case True
    with Cons.prems h counts [of t0 n k s t] have
      one: "fst (hit t k s) = n + 1" "running t0 (n + 1) k (snd (hit t k s))" by simp_all
    have shift: "(n + 1) # map (\<lambda>i. n + 1 + 1 + int i) [0..<m] = map (\<lambda>i. n + 1 + int i) [0..<Suc m]" for m
      by (rule nth_equalityI) (auto simp: nth_Cons' nth_append split: if_splits simp del: upt_Suc)
    from Cons.IH [OF one(2)] Cons.prems h True one(1) shift show ?thesis
      by (simp add: for_key_def del: upt_Suc)
  next
    case False
    with Cons.prems h Cons.IH [OF others [OF False]] show ?thesis by (simp add: for_key_def)
  qed
qed (simp add: for_key_def)

lemma numbered_fresh:
  "\<forall>h \<in> set hs. fresh (fst h) k s \<Longrightarrow> \<forall>h \<in> set hs. \<forall>h' \<in> set hs. fst h' < fst h + span \<Longrightarrow>
     for_key k (answers hs s) = map (\<lambda>i. 1 + int i) [0..<length (filter (\<lambda>h. snd h = k) hs)]"
proof (induction hs arbitrary: s)
  case (Cons h hs)
  obtain t j where h: "h = (t, j)" by (cases h)
  show ?case
  proof (cases "j = k")
    case True
    with Cons.prems h opens [of t k s] have
      one: "fst (hit t k s) = 1" "running t 1 k (snd (hit t k s))" by simp_all
    have "\<forall>h \<in> set hs. fst h < t + span" using Cons.prems(2) h by auto
    from numbered [OF one(2) this] h True one(1) show ?thesis
      by (simp add: for_key_def map_upt_Suc del: upt_Suc)
  next
    case False
    with Cons.prems h have "\<forall>h' \<in> set hs. fresh (fst h') k (snd (hit t j s))"
      using others_fresh [OF False] by simp
    with Cons.IH [of "snd (hit t j s)"] Cons.prems(2) False h show ?thesis by (simp add: for_key_def)
  qed
qed (simp add: for_key_def)

text \<open>So a budget of \<open>limit\<close> admits no more hits than it has left.\<close>

lemma admitted:
  assumes "running t0 n k s" "\<forall>h \<in> set hs. fst h < t0 + span" "0 \<le> n"
  shows "int (length (filter (\<lambda>c. c \<le> limit) (for_key k (answers hs s)))) \<le> max 0 (limit - n)"
proof -
  let ?m = "length (filter (\<lambda>h. snd h = k) hs)"
  have "filter (\<lambda>c. c \<le> limit) (map (\<lambda>i. n + 1 + int i) [0..<?m]) =
      map (\<lambda>i. n + 1 + int i) (filter (\<lambda>i. n + 1 + int i \<le> limit) [0..<?m])"
    by (simp add: filter_map comp_def)
  moreover have "length (filter (\<lambda>i. n + 1 + int i \<le> limit) [0..<?m]) \<le> nat (limit - n)"
  proof -
    have "set (filter (\<lambda>i. n + 1 + int i \<le> limit) [0..<?m]) \<subseteq> {..<nat (limit - n)}" by auto
    from card_mono [OF _ this] show ?thesis by (simp add: distinct_card [symmetric])
  qed
  ultimately show ?thesis by (simp add: numbered [OF assms(1,2)])
qed

end

subsection \<open>The Redis window keeps the contract\<close>

lemma rd_entry_update [simp]:
  "rd_entry t k (AList.update j e r) =
     (if j = k then if rd_alive t (snd e) then Some e else None else rd_entry t k r)"
  by (simp add: rd_entry_def AList.update_conv')

lemma rd_alive_None [simp]: "rd_alive t None"
  by (simp add: rd_alive_def)

definition redis_hit :: "int \<Rightarrow> time \<Rightarrow> string \<Rightarrow> redis \<Rightarrow> int \<times> redis" where
  "redis_hit w t k r = (case incrementWindow t k w r of (c, r') \<Rightarrow> (wc_count c, r'))"

definition redis_running :: "int \<Rightarrow> time \<Rightarrow> int \<Rightarrow> string \<Rightarrow> redis \<Rightarrow> bool" where
  "redis_running w t0 n k r \<longleftrightarrow> 1 \<le> n \<and> map_of r k = Some (n, Some (t0 + 1000 * w))"

definition redis_fresh :: "time \<Rightarrow> string \<Rightarrow> redis \<Rightarrow> bool" where
  "redis_fresh t k r \<longleftrightarrow> \<not> rd_exists t k r"

interpretation redis_window: fixed_window "1000 * w" "redis_hit w" redis_fresh "redis_running w"
proof
  show "fst (redis_hit w t k r) = 1 \<and> redis_running w t 1 k (snd (redis_hit w t k r))"
    if "redis_fresh t k r" for t k r
    using that by (simp add: redis_fresh_def rd_exists_def redis_hit_def incrementWindow_def rd_incrby_def
        rd_expire_def redis_running_def AList.update_conv' Let_def del: not_None_eq)
next
  show "fst (redis_hit w t k r) = n + 1 \<and> redis_running w t0 (n + 1) k (snd (redis_hit w t k r))"
    if "redis_running w t0 n k r" "t < t0 + 1000 * w" for t0 n k r t
  proof -
    have "rd_entry t k r = Some (n, Some (t0 + 1000 * w))"
      using that by (simp add: redis_running_def rd_entry_def rd_alive_def)
    then show ?thesis
      using that by (simp add: redis_running_def redis_hit_def incrementWindow_def rd_incrby_def
          AList.update_conv' Let_def)
  qed
next
  show "redis_running w t0 n k (snd (redis_hit w t j r))" if "j \<noteq> k" "redis_running w t0 n k r" for j k t0 n r t
    using that by (simp add: redis_running_def redis_hit_def incrementWindow_def rd_incrby_def rd_expire_def
        AList.update_conv' Let_def split: option.splits prod.splits)
next
  show "redis_fresh t k (snd (redis_hit w t' j r))" if "j \<noteq> k" "redis_fresh t k r" for j k t r t'
    using that by (simp add: redis_fresh_def rd_exists_def redis_hit_def incrementWindow_def
        rd_incrby_def rd_expire_def Let_def split: option.splits prod.splits)
qed

subsection \<open>Properties\<close>

text \<open>The answers of the limiter to requests at given times from given addresses.\<close>

fun limiter_run :: "string \<Rightarrow> int \<Rightarrow> (time \<times> string) list \<Rightarrow> redis \<Rightarrow> (string \<times> int) list" where
  "limiter_run prefix ms [] r = []"
| "limiter_run prefix ms ((t, a) # hs) r =
     (case limiter_incr False prefix t a ms r of
        (Some c, r') \<Rightarrow> (a, rc_current c) # limiter_run prefix ms hs r'
      | (None, r') \<Rightarrow> limiter_run prefix ms hs r')"

lemma window_seconds_pos: "0 < window_seconds ms"
  by (simp add: window_seconds_def)

lemma limiter_run_answers:
  "\<forall>h \<in> set hs. fst h div (1000 * window_seconds ms) = q \<Longrightarrow>
   limiter_run prefix ms hs r =
     map (\<lambda>a. (fst a, snd a)) (zip (map snd hs) (map snd (redis_window.answers (window_seconds ms)
       (map (\<lambda>h. (fst h, prefix @ snd h @ CHR '':'' # show_int q)) hs) r)))"
  by (induction hs arbitrary: r)
    (auto simp: limiter_incr_def window_key_def redis_hit_def Let_def split: prod.splits)

lemma filter_zip_key:
  "map snd (filter (\<lambda>a. fst a = k) (zip (map snd hs) vs)) =
   map snd (filter (\<lambda>a. fst a = f k) (zip (map (\<lambda>h. f (snd h)) hs) vs))" if "inj f"
  using that by (induction hs arbitrary: vs) (auto simp: inj_eq zip_Cons1 split: list.splits)

lemma answers_keys: "map fst (redis_window.answers w hs r) = map snd hs"
  by (induction hs arbitrary: r) auto

text \<open>No rotation of addresses restores a budget: within one window the requests of an address are
  numbered one after the other, whatever requests other addresses make in between, however
  many these are.\<close>

theorem limiter_counts_every_hit:
  assumes "\<forall>h \<in> set hs. fst h div (1000 * window_seconds ms) = q"
    and "map_of r (prefix @ a @ CHR '':'' # show_int q) = None"
  shows "map snd (filter (\<lambda>c. fst c = a) (limiter_run prefix ms hs r)) =
    map (\<lambda>i. 1 + int i) [0..<length (filter (\<lambda>h. snd h = a) hs)]"
proof -
  let ?w = "window_seconds ms" and ?f = "\<lambda>b. prefix @ b @ CHR '':'' # show_int q"
  let ?hs = "map (\<lambda>h. (fst h, ?f (snd h))) hs"
  have inj: "inj ?f" by (auto intro!: injI)
  have fresh: "\<forall>h \<in> set ?hs. redis_fresh (fst h) (?f a) r"
    using assms(2) by (simp add: redis_fresh_def rd_exists_def rd_entry_def)
  have span: "u < t + 1000 * ?w" if "t div (1000 * ?w) = q" "u div (1000 * ?w) = q" for t u
  proof -
    let ?p = "1000 * ?w"
    have p: "0 < ?p" using window_seconds_pos [of ms] by simp
    have "?p * q + t mod ?p = t" "?p * q + u mod ?p = u"
      using mult_div_mod_eq [of ?p t] mult_div_mod_eq [of ?p u] that by simp_all
    moreover have "0 \<le> t mod ?p" "u mod ?p < ?p" using p by simp_all
    ultimately show ?thesis by linarith
  qed
  have "map snd (filter (\<lambda>c. fst c = a) (limiter_run prefix ms hs r)) =
      redis_window.for_key (?f a) (redis_window.answers ?w ?hs r)"
  proof -
    let ?as = "redis_window.answers ?w ?hs r"
    have "map fst ?as = map (\<lambda>h. ?f (snd h)) hs" by (simp add: answers_keys comp_def)
    then have "zip (map (\<lambda>h. ?f (snd h)) hs) (map snd ?as) = ?as"
      by (simp only: zip_map_fst_snd flip: \<open>map fst ?as = map (\<lambda>h. ?f (snd h)) hs\<close>)
    then show ?thesis
      unfolding limiter_run_answers [OF assms(1)] redis_window.for_key_def
      using filter_zip_key [OF inj, of a hs "map snd ?as"] by (simp only: prod.collapse list.map_ident)
  qed
  also have "\<dots> = map (\<lambda>i. 1 + int i) [0..<length (filter (\<lambda>h. snd h = ?f a) ?hs)]"
    by (rule redis_window.numbered_fresh [OF fresh]) (use assms(1) span in auto)
  finally show ?thesis using inj by (simp add: filter_map comp_def inj_eq)
qed

lemma limiter_counts_every_hit_witness:
  "map snd (filter (\<lambda>c. fst c = ''a'') (limiter_run ''ip:'' 60000 [(5, ''a''), (6, ''b''), (7, ''c''), (8, ''a'')] [])) = [1, 2]"
proof -
  have w: "window_seconds 60000 = 60" by (simp add: window_seconds_def)
  show ?thesis
    using limiter_counts_every_hit [of "[(5, ''a''), (6, ''b''), (7, ''c''), (8, ''a'')]" 60000 0 "[]" "''ip:''" "''a''"]
    by (simp add: w upt_rec)
qed

end
