(* ===== verification/Js_Url.thy ===== *)
theory Js_Url
  imports Js_Bytes
begin

text \<open>
  Percent encoding as the language has it: \<open>encodeURIComponent\<close> and one parameter of
  \<open>URLSearchParams\<close>, both over the UTF-8 bytes of a text.
\<close>

definition upper_hex :: "nat \<Rightarrow> char" where
  "upper_hex n = char_of (if n < 10 then 48 + n else 55 + n)"

definition alphanumeric :: "char \<Rightarrow> bool" where
  "alphanumeric c \<longleftrightarrow>
     (let n = code c in (48 \<le> n \<and> n \<le> 57) \<or> (65 \<le> n \<and> n \<le> 90) \<or> (97 \<le> n \<and> n \<le> 122))"

definition percent :: "char \<Rightarrow> string" where
  "percent c = [CHR ''%'', upper_hex (code c div 16), upper_hex (code c mod 16)]"

definition form_byte :: "char \<Rightarrow> string" where
  "form_byte c =
     (if alphanumeric c \<or> c \<in> {CHR ''*'', CHR ''-'', CHR ''.'', CHR ''_''} then [c]
      else if c = CHR '' '' then ''+''
      else percent c)"

definition search_params :: "string \<Rightarrow> string \<Rightarrow> string" where
  "search_params name val = concat (map form_byte (utf8_encode name)) @ CHR ''='' # concat (map form_byte (utf8_encode val))"

definition component_byte :: "char \<Rightarrow> string" where
  "component_byte c =
     (if alphanumeric c \<or> c \<in> {CHR ''-'', CHR ''_'', CHR ''.'', CHR ''!'', CHR ''~'', CHR ''*'', CHR 0x27, CHR ''('', CHR '')''}
      then [c] else percent c)"

definition encodeURIComponent :: "string \<Rightarrow> string" where
  "encodeURIComponent s = concat (map component_byte (utf8_encode s))"

subsection \<open>What the encoding cannot produce\<close>

lemma upper_hex_plain: "n < 16 \<Longrightarrow> alphanumeric (upper_hex n)"
  by (simp add: upper_hex_def alphanumeric_def Let_def)

lemma percent_plain: "c' \<in> set (percent c) \<Longrightarrow> alphanumeric c' \<or> c' = CHR ''%''"
proof -
  have "code c div 16 < 16" using code_less [of c] by (simp add: less_mult_imp_div_less)
  then show "c' \<in> set (percent c) \<Longrightarrow> alphanumeric c' \<or> c' = CHR ''%''"
    using upper_hex_plain [of "code c div 16"] upper_hex_plain [of "code c mod 16"] by (auto simp: percent_def)
qed

lemma encoded_plain:
  "c \<in> set (concat (map form_byte s)) \<Longrightarrow> alphanumeric c \<or> c \<in> {CHR ''*'', CHR ''-'', CHR ''.'', CHR ''_'', CHR ''+'', CHR ''%''}"
  "c \<in> set (concat (map component_byte s)) \<Longrightarrow>
     alphanumeric c \<or> c \<in> {CHR ''-'', CHR ''_'', CHR ''.'', CHR ''!'', CHR ''~'', CHR ''*'', CHR 0x27, CHR ''('', CHR '')'', CHR ''%''}"
  by (auto simp: form_byte_def component_byte_def split: if_splits dest: percent_plain)

text \<open>An encoded parameter stays one parameter, an encoded segment one segment.\<close>

lemma search_params_single:
  "CHR ''&'' \<notin> set (search_params name v) \<and> CHR ''#'' \<notin> set (search_params name v)"
proof -
  have "c \<notin> {CHR ''&'', CHR ''#''}" if "c \<in> set (concat (map form_byte t))" for c t
    using encoded_plain(1) [OF that] by (auto simp: alphanumeric_def)
  from this [of _ "utf8_encode name"] this [of _ "utf8_encode v"] show ?thesis
    unfolding search_params_def by auto
qed

lemma component_single:
  "CHR ''/'' \<notin> set (encodeURIComponent s) \<and> CHR ''?'' \<notin> set (encodeURIComponent s) \<and> CHR ''&'' \<notin> set (encodeURIComponent s)"
  unfolding encodeURIComponent_def by (intro conjI notI; drule encoded_plain(2)) (simp_all add: alphanumeric_def)

end
