(* ===== verification/Workos_Client.thy ===== *)
theory Workos_Client
  imports Api_Errors Js_Url
begin

text \<open>
  The client of the identity provider: \<^verbatim>\<open>apps/bff/src/services/workos.ts\<close>. The provider is a
  parameter: a call gets a status and a text, or nothing when the transport failed or the time
  ran out. An answer is narrowed field by field, and a field that is absent stays absent.
\<close>

subsection \<open>A call\<close>

record http_call =
  hc_verb :: string
  hc_url :: string
  hc_headers :: "(string \<times> string) list"
  hc_body :: "json option"

type_synonym workos_fetch = "http_call \<Rightarrow> (int \<times> string) option"

record workos_client =
  wo_baseUrl :: string
  wo_clientId :: string
  wo_apiKey :: string

definition wo_new :: "string \<Rightarrow> string \<Rightarrow> string \<Rightarrow> workos_client" where
  "wo_new baseUrl clientId apiKey =
     \<lparr>wo_baseUrl = rev (dropWhile ((=) (CHR ''/'')) (rev baseUrl)), wo_clientId = clientId, wo_apiKey = apiKey\<rparr>"

definition wo_call :: "workos_client \<Rightarrow> string \<Rightarrow> string \<Rightarrow> bool \<Rightarrow> json option \<Rightarrow> http_call" where
  "wo_call wo path verb apiKey body =
     \<lparr>hc_verb = verb, hc_url = wo_baseUrl wo @ path,
      hc_headers = (''accept'', ''application/json'') #
        (case body of None \<Rightarrow> [] | Some _ \<Rightarrow> [(''content-type'', ''application/json'')]) @
        (if apiKey then [(''authorization'', ''Bearer '' @ wo_apiKey wo)] else []),
      hc_body = body\<rparr>"

definition wo_request :: "workos_fetch \<Rightarrow> http_call \<Rightarrow> api_error + int \<times> json" where
  "wo_request fetch call =
     (case fetch call of
        None \<Rightarrow> Inl (upstreamUnavailable ''identity'')
      | Some (status, body) \<Rightarrow>
          Inr (status, if body = [] then JNull else case json_parse body of None \<Rightarrow> JNull | Some j \<Rightarrow> j))"

definition in_2xx :: "int \<Rightarrow> bool" where
  "in_2xx status \<longleftrightarrow> 200 \<le> status \<and> status < 300"

subsection \<open>Narrowing\<close>

record workos_user =
  wu_id :: string
  wu_email :: "string option"
  wu_firstName :: "string option"
  wu_lastName :: "string option"
  wu_emailVerified :: "bool option"
  wu_createdAt :: "string option"

record workos_session =
  ws_user :: workos_user
  ws_accessToken :: string
  ws_refreshToken :: string

definition jstring :: "json option \<Rightarrow> string option" where
  "jstring v = (case v of Some (JStr s) \<Rightarrow> Some s | _ \<Rightarrow> None)"

definition jbool :: "json option \<Rightarrow> bool option" where
  "jbool v = (case v of Some (JBool b) \<Rightarrow> Some b | _ \<Rightarrow> None)"

text \<open>\<open>parsed?.k\<close> of a value that may be undefined.\<close>

definition jsub :: "json option \<Rightarrow> string \<Rightarrow> json option" where
  "jsub v k = (case v of None \<Rightarrow> None | Some j \<Rightarrow> jget k j)"

definition toUser :: "json option \<Rightarrow> api_error + workos_user" where
  "toUser body =
     (case jstring (jsub body ''id'') of
        None \<Rightarrow> Inl (upstreamUnavailable ''identity'')
      | Some i \<Rightarrow>
          if i = [] then Inl (upstreamUnavailable ''identity'')
          else Inr \<lparr>wu_id = i,
                    wu_email = map_option js_toLowerCase (jstring (jsub body ''email'')),
                    wu_firstName = jstring (jsub body ''first_name''),
                    wu_lastName = jstring (jsub body ''last_name''),
                    wu_emailVerified = jbool (jsub body ''email_verified''),
                    wu_createdAt = jstring (jsub body ''created_at'')\<rparr>)"

definition toSession :: "json \<Rightarrow> api_error + workos_session" where
  "toSession body =
     (case (jstring (jsub (jget ''user'' body) ''id''), jstring (jget ''access_token'' body), jstring (jget ''refresh_token'' body)) of
        (Some _, Some accessToken, Some refreshToken) \<Rightarrow>
          (case toUser (jget ''user'' body) of
             Inl e \<Rightarrow> Inl e
           | Inr user \<Rightarrow> Inr \<lparr>ws_user = user, ws_accessToken = accessToken, ws_refreshToken = refreshToken\<rparr>)
      | _ \<Rightarrow> Inl (upstreamUnavailable ''identity''))"

subsection \<open>The operations\<close>

datatype send_outcome = Sent | Declined

definition send_call :: "workos_client \<Rightarrow> string \<Rightarrow> http_call" where
  "send_call wo email =
     wo_call wo ''/user_management/magic_auth/send'' ''POST'' True (Some (JObj [(''email'', JStr email)]))"

definition sendMagicAuthCode :: "workos_client \<Rightarrow> workos_fetch \<Rightarrow> string \<Rightarrow> api_error + send_outcome" where
  "sendMagicAuthCode wo fetch email =
     (case wo_request fetch (send_call wo email) of
        Inl e \<Rightarrow> Inl e
      | Inr (status, _) \<Rightarrow>
          if in_2xx status then Inr Sent
          else if 400 \<le> status \<and> status < 500 then Inr Declined
          else Inl (upstreamUnavailable ''identity''))"

definition grant_call :: "workos_client \<Rightarrow> string \<Rightarrow> (string \<times> json) list \<Rightarrow> http_call" where
  "grant_call wo grant extra =
     wo_call wo ''/user_management/authenticate'' ''POST'' False
       (Some (JObj ([(''client_id'', JStr (wo_clientId wo)), (''client_secret'', JStr (wo_apiKey wo)),
                     (''grant_type'', JStr grant)] @ extra)))"

definition wo_exchange :: "workos_fetch \<Rightarrow> http_call \<Rightarrow> string \<Rightarrow> api_error + workos_session" where
  "wo_exchange fetch call refusal =
     (case wo_request fetch call of
        Inl e \<Rightarrow> Inl e
      | Inr (status, body) \<Rightarrow> if status \<noteq> 200 then Inl (unauthorized refusal) else toSession body)"

definition magic_call :: "workos_client \<Rightarrow> string \<Rightarrow> string \<Rightarrow> http_call" where
  "magic_call wo email passcode =
     grant_call wo ''urn:workos:oauth:grant-type:magic-auth:code'' [(''code'', JStr passcode), (''email'', JStr email)]"

definition authenticateWithMagicAuth ::
  "workos_client \<Rightarrow> workos_fetch \<Rightarrow> string \<Rightarrow> string \<Rightarrow> api_error + workos_session" where
  "authenticateWithMagicAuth wo fetch email passcode =
     wo_exchange fetch (magic_call wo email passcode) ''The sign-in could not be completed.''"

definition authenticateWithCode ::
  "workos_client \<Rightarrow> workos_fetch \<Rightarrow> string \<Rightarrow> string option \<Rightarrow> api_error + workos_session" where
  "authenticateWithCode wo fetch passcode codeVerifier =
     wo_exchange fetch (grant_call wo ''authorization_code'' ((''code'', JStr passcode) #
         (case codeVerifier of None \<Rightarrow> [] | Some v \<Rightarrow> [(''code_verifier'', JStr v)])))
       ''The sign-in could not be completed.''"

definition wo_refresh :: "workos_client \<Rightarrow> workos_fetch \<Rightarrow> string \<Rightarrow> api_error + workos_session" where
  "wo_refresh wo fetch refreshToken =
     wo_exchange fetch (grant_call wo ''refresh_token'' [(''refresh_token'', JStr refreshToken)])
       ''The session could not be refreshed.''"

text \<open>A field of the patch is absent, null or a text.\<close>

definition patch_field :: "string \<Rightarrow> string option option \<Rightarrow> (string \<times> json) list" where
  "patch_field k v = (case v of None \<Rightarrow> [] | Some None \<Rightarrow> [(k, JNull)] | Some (Some s) \<Rightarrow> [(k, JStr s)])"

definition user_path :: "string \<Rightarrow> string" where
  "user_path i = ''/user_management/users/'' @ encodeURIComponent i"

definition updateUser ::
  "workos_client \<Rightarrow> workos_fetch \<Rightarrow> string \<Rightarrow> string option option \<Rightarrow> string option option \<Rightarrow> api_error + workos_user" where
  "updateUser wo fetch i firstName lastName =
     (case wo_request fetch (wo_call wo (user_path i) ''PUT'' True
             (Some (JObj (patch_field ''first_name'' firstName @ patch_field ''last_name'' lastName)))) of
        Inl e \<Rightarrow> Inl e
      | Inr (status, body) \<Rightarrow>
          if \<not> in_2xx status then Inl (upstreamUnavailable ''identity'') else toUser (Some body))"

record user_page =
  up_users :: "workos_user list"
  up_after :: "string option"

fun toUsers :: "json list \<Rightarrow> api_error + workos_user list" where
  "toUsers [] = Inr []"
| "toUsers (j # js) =
     (case toUser (Some j) of
        Inl e \<Rightarrow> Inl e
      | Inr u \<Rightarrow> (case toUsers js of Inl e \<Rightarrow> Inl e | Inr us \<Rightarrow> Inr (u # us)))"

definition list_call :: "workos_client \<Rightarrow> nat \<Rightarrow> string option \<Rightarrow> http_call" where
  "list_call wo n after =
     wo_call wo (''/user_management/users?'' @ search_params ''limit'' (show_nat n) @ ''&'' @ search_params ''order'' ''asc'' @
         (case after of None \<Rightarrow> [] | Some a \<Rightarrow> ''&'' @ search_params ''after'' a))
       ''GET'' True None"

definition listUsers :: "workos_client \<Rightarrow> workos_fetch \<Rightarrow> nat \<Rightarrow> string option \<Rightarrow> api_error + user_page" where
  "listUsers wo fetch n after =
     (case wo_request fetch (list_call wo n after) of
        Inl e \<Rightarrow> Inl e
      | Inr (status, body) \<Rightarrow>
          if \<not> in_2xx status then Inl (upstreamUnavailable ''identity'')
          else case jget ''data'' body of
            Some (JArr js) \<Rightarrow>
              (case toUsers js of
                 Inl e \<Rightarrow> Inl e
               | Inr us \<Rightarrow> Inr \<lparr>up_users = us,
                   up_after = (case jstring (jsub (jget ''list_metadata'' body) ''after'') of
                      None \<Rightarrow> None | Some a \<Rightarrow> if a = [] then None else Some a)\<rparr>)
          | _ \<Rightarrow> Inl (upstreamUnavailable ''identity''))"

definition getUser :: "workos_client \<Rightarrow> workos_fetch \<Rightarrow> string \<Rightarrow> api_error + workos_user option" where
  "getUser wo fetch i =
     (case wo_request fetch (wo_call wo (user_path i) ''GET'' True None) of
        Inl e \<Rightarrow> Inl e
      | Inr (status, body) \<Rightarrow>
          if status = 404 then Inr None
          else if \<not> in_2xx status then Inl (upstreamUnavailable ''identity'')
          else map_sum id Some (toUser (Some body)))"

definition revokeSession :: "workos_client \<Rightarrow> workos_fetch \<Rightarrow> string \<Rightarrow> api_error + bool" where
  "revokeSession wo fetch sid =
     map_sum id (\<lambda>(status, _). in_2xx status)
       (wo_request fetch (wo_call wo (''/user_management/sessions/'' @ encodeURIComponent sid @ ''/revoke'') ''POST'' True None))"

definition deleteUser :: "workos_client \<Rightarrow> workos_fetch \<Rightarrow> string \<Rightarrow> api_error + bool" where
  "deleteUser wo fetch i =
     map_sum id (\<lambda>(status, _). in_2xx status \<or> status = 404)
       (wo_request fetch (wo_call wo (user_path i) ''DELETE'' True None))"

subsection \<open>What an answer can lead to\<close>

text \<open>A negative answer about the address is one the provider gave in so many words.\<close>

lemma jstring_Some [simp]: "jstring v = Some s \<longleftrightarrow> v = Some (JStr s)"
  by (cases v) (auto simp: jstring_def split: json.splits)

lemma jbool_Some [simp]: "jbool v = Some b \<longleftrightarrow> v = Some (JBool b)"
  by (cases v) (auto simp: jbool_def split: json.splits)

lemma toUser_fields:
  assumes "toUser j = Inr u"
  shows "jsub j ''id'' = Some (JStr (wu_id u))" "wu_id u \<noteq> []"
    "wu_emailVerified u = jbool (jsub j ''email_verified'')" "wu_createdAt u = jstring (jsub j ''created_at'')"
  using assms by (auto simp: toUser_def split: option.splits if_splits)

lemma unverified_literal:
  "toUser (Some j) = Inr u \<Longrightarrow> wu_emailVerified u = Some False \<longleftrightarrow> jget ''email_verified'' j = Some (JBool False)"
  by (simp add: toUser_fields jsub_def)

lemma toUsers_all: "toUsers js = Inr us \<Longrightarrow> list_all2 (\<lambda>j u. toUser (Some j) = Inr u) js us"
  by (induction js arbitrary: us) (auto split: sum.splits)

lemma wo_request_status [simp]:
  "wo_request fetch call = Inl e \<Longrightarrow> ae_status e = 503"
  by (auto simp: wo_request_def split: option.splits prod.splits)

lemma toUser_error: "toUser j = Inl e \<Longrightarrow> ae_status e = 503"
  by (auto simp: toUser_def split: option.splits if_splits)

lemma toSession_error: "toSession j = Inl e \<Longrightarrow> ae_status e = 503"
  by (auto simp: toSession_def split: option.splits sum.splits dest: toUser_error)

lemma exchange_errors: "wo_exchange fetch call m = Inl e \<Longrightarrow> ae_status e \<in> {401, 503}"
  by (auto simp: wo_exchange_def split: sum.splits if_splits dest: toSession_error)

end
