(* ===== verification/Magic_Auth.thy ===== *)
theory Magic_Auth
  imports Redis_Window Workos_Client
begin

text \<open>
  Sign-in by a code sent to an address: \<^verbatim>\<open>apps/bff/src/services/magic-auth.ts\<close>, on the counters
  of \<open>Redis_Window\<close> and the client of the identity provider. The digest and the provider are
  parameters. A request is first one function, then a state machine over its awaits, so that
  requests interleave between the two budgets and the call they admit.
\<close>

subsection \<open>Addresses\<close>

definition normalizeEmail :: "string \<Rightarrow> string" where
  "normalizeEmail email = js_toLowerCase (js_trim email)"

definition emailKey :: "(string \<Rightarrow> string) \<Rightarrow> string \<Rightarrow> string" where
  "emailKey sha256Hex email = take 32 (sha256Hex (utf8_encode (normalizeEmail email)))"

lemma normalizeEmail_idem [simp]: "normalizeEmail (normalizeEmail e) = normalizeEmail e"
proof -
  have "js_trim (js_toLowerCase (js_trim e)) = js_toLowerCase (js_trim e)"
    using js_trim_ends [of e]
    by (intro js_trim_tidy) (auto simp: js_toLowerCase_def hd_map last_map)
  then show ?thesis by (simp add: normalizeEmail_def js_toLowerCase_def)
qed

lemma emailKey_normalized [simp]: "emailKey sha (normalizeEmail e) = emailKey sha e"
  by (simp add: emailKey_def)

subsection \<open>Budgets\<close>

record magic_options =
  mo_perIpMax :: int
  mo_perEmailMax :: int
  mo_verifyMax :: int
  mo_windowSeconds :: int
  mo_floorMs :: int

definition MAGIC_AUTH_CODE_TTL_S :: int where
  "MAGIC_AUTH_CODE_TTL_S = 600"

text \<open>A command may fail before it reached Redis, or after it took effect.\<close>

datatype redis_fault = Reached | Unreached | Reply_lost

definition ma_consume :: "magic_options \<Rightarrow> redis_fault \<Rightarrow> time \<Rightarrow> string \<Rightarrow> int \<Rightarrow> redis \<Rightarrow> api_error option \<times> redis" where
  "ma_consume opts fault now key limit r =
     (case fault of
        Unreached \<Rightarrow> (Some (upstreamUnavailable ''rate limiter''), r)
      | Reply_lost \<Rightarrow> (Some (upstreamUnavailable ''rate limiter''), snd (incrementWindow now key (mo_windowSeconds opts) r))
      | Reached \<Rightarrow>
          (case incrementWindow now key (mo_windowSeconds opts) r of (c, r') \<Rightarrow>
             (if wc_count c > limit
              then Some (rateLimited ''Too many sign-in attempts. Wait a few minutes and try again.'') else None,
              r')))"

datatype magic_kind = Start | Verify

definition ip_budget :: "magic_kind \<Rightarrow> string \<Rightarrow> string" where
  "ip_budget kind ip = (case kind of Start \<Rightarrow> ''quota:auth:start:ip:'' | Verify \<Rightarrow> ''quota:auth:verify:ip:'') @ ip"

definition email_budget :: "magic_kind \<Rightarrow> string \<Rightarrow> string" where
  "email_budget kind digest =
     (case kind of Start \<Rightarrow> ''quota:auth:start:email:'' | Verify \<Rightarrow> ''quota:auth:verify:email:'') @ digest"

definition ip_limit :: "magic_options \<Rightarrow> magic_kind \<Rightarrow> int" where
  "ip_limit opts kind = (case kind of Start \<Rightarrow> mo_perIpMax opts | Verify \<Rightarrow> mo_verifyMax opts)"

definition email_limit :: "magic_options \<Rightarrow> magic_kind \<Rightarrow> int" where
  "email_limit opts kind = (case kind of Start \<Rightarrow> mo_perEmailMax opts | Verify \<Rightarrow> mo_verifyMax opts)"

text \<open>The two budgets one after the other, at the times and with the faults of their awaits.\<close>

record budget_times =
  bt_ipAt :: time
  bt_ipFault :: redis_fault
  bt_emailAt :: time
  bt_emailFault :: redis_fault

definition consume_both ::
  "(string \<Rightarrow> string) \<Rightarrow> magic_options \<Rightarrow> magic_kind \<Rightarrow> budget_times \<Rightarrow> string \<Rightarrow> string \<Rightarrow> redis \<Rightarrow> api_error option \<times> redis" where
  "consume_both sha opts kind bt normalized ip r =
     (case ma_consume opts (bt_ipFault bt) (bt_ipAt bt) (ip_budget kind ip) (ip_limit opts kind) r of
        (Some e, r1) \<Rightarrow> (Some e, r1)
      | (None, r1) \<Rightarrow>
          ma_consume opts (bt_emailFault bt) (bt_emailAt bt) (email_budget kind (emailKey sha normalized)) (email_limit opts kind) r1)"

subsection \<open>Requesting and verifying a code\<close>

record start_answer =
  sa_error :: "api_error option"
  sa_answeredAt :: time
  sa_calls :: "http_call list"

definition ma_pad :: "magic_options \<Rightarrow> time \<Rightarrow> time \<Rightarrow> time" where
  "ma_pad opts startedAt now =
     (let remaining = mo_floorMs opts - (now - startedAt) in if remaining > 0 then now + remaining else now)"

definition requestCode ::
  "(string \<Rightarrow> string) \<Rightarrow> workos_client \<Rightarrow> magic_options \<Rightarrow> workos_fetch \<Rightarrow> budget_times \<Rightarrow> time \<Rightarrow> time \<Rightarrow>
     string \<Rightarrow> string \<Rightarrow> redis \<Rightarrow> start_answer \<times> redis" where
  "requestCode sha wo opts fetch bt startedAt endedAt email ip r =
     (let normalized = normalizeEmail email in
      case consume_both sha opts Start bt normalized ip r of
        (Some e, r') \<Rightarrow> (\<lparr>sa_error = Some e, sa_answeredAt = ma_pad opts startedAt endedAt, sa_calls = []\<rparr>, r')
      | (None, r') \<Rightarrow>
          (\<lparr>sa_error = (case sendMagicAuthCode wo fetch normalized of Inl e \<Rightarrow> Some e | Inr _ \<Rightarrow> None),
            sa_answeredAt = ma_pad opts startedAt endedAt, sa_calls = [send_call wo normalized]\<rparr>, r'))"

definition verifyCode ::
  "(string \<Rightarrow> string) \<Rightarrow> workos_client \<Rightarrow> magic_options \<Rightarrow> workos_fetch \<Rightarrow> budget_times \<Rightarrow>
     string \<Rightarrow> string \<Rightarrow> string \<Rightarrow> redis \<Rightarrow> (api_error + workos_session) \<times> redis" where
  "verifyCode sha wo opts fetch bt email passcode ip r =
     (let normalized = normalizeEmail email in
      case consume_both sha opts Verify bt normalized ip r of
        (Some e, r') \<Rightarrow> (Inl e, r')
      | (None, r') \<Rightarrow> (authenticateWithMagicAuth wo fetch normalized passcode, r'))"

subsection \<open>Requests that interleave\<close>

datatype magic_phase = At_ip | At_email | At_workos

record magic_request =
  mq_kind :: magic_kind
  mq_email :: string
  mq_ip :: string
  mq_phase :: magic_phase

text \<open>The budget that a request consumes next.\<close>

definition next_budget :: "(string \<Rightarrow> string) \<Rightarrow> magic_request \<Rightarrow> string" where
  "next_budget sha q =
     (if mq_phase q = At_ip then ip_budget (mq_kind q) (mq_ip q)
      else email_budget (mq_kind q) (emailKey sha (mq_email q)))"

definition next_limit :: "magic_options \<Rightarrow> magic_request \<Rightarrow> int" where
  "next_limit opts q = (if mq_phase q = At_ip then ip_limit opts (mq_kind q) else email_limit opts (mq_kind q))"

definition advance :: "magic_request \<Rightarrow> magic_request" where
  "advance q = q\<lparr>mq_phase := (if mq_phase q = At_ip then At_email else At_workos)\<rparr>"

text \<open>\<open>mw_calls\<close> is the log of the requests that called the identity provider.\<close>

record magic_world =
  mw_redis :: redis
  mw_requests :: "(nat \<times> magic_request) list"
  mw_calls :: "magic_request list"

datatype magic_event =
    Arrive nat magic_kind string string
  | Budget nat time redis_fault
  | Call_out nat

definition ma_step :: "(string \<Rightarrow> string) \<Rightarrow> magic_options \<Rightarrow> magic_event \<Rightarrow> magic_world \<Rightarrow> magic_world" where
  "ma_step sha opts ev w = (case ev of
     Arrive i kind email ip \<Rightarrow>
       (case map_of (mw_requests w) i of
          Some _ \<Rightarrow> w
        | None \<Rightarrow> w\<lparr>mw_requests := (i, \<lparr>mq_kind = kind, mq_email = normalizeEmail email, mq_ip = ip, mq_phase = At_ip\<rparr>)
                     # mw_requests w\<rparr>)
   | Budget i now fault \<Rightarrow>
       (case map_of (mw_requests w) i of
          None \<Rightarrow> w
        | Some q \<Rightarrow>
            if mq_phase q = At_workos then w
            else (case ma_consume opts fault now (next_budget sha q) (next_limit opts q) (mw_redis w) of
              (Some _, r) \<Rightarrow> w\<lparr>mw_redis := r, mw_requests := AList.delete i (mw_requests w)\<rparr>
            | (None, r) \<Rightarrow> w\<lparr>mw_redis := r, mw_requests := AList.update i (advance q) (mw_requests w)\<rparr>))
   | Call_out i \<Rightarrow>
       (case map_of (mw_requests w) i of
          None \<Rightarrow> w
        | Some q \<Rightarrow>
            if mq_phase q \<noteq> At_workos then w
            else w\<lparr>mw_requests := AList.delete i (mw_requests w), mw_calls := mw_calls w @ [q]\<rparr>))"

subsection \<open>What a budget bounds\<close>

lemma budgets_distinct [simp]:
  "ip_budget k ip = ip_budget k' ip' \<longleftrightarrow> k = k' \<and> ip = ip'"
  "email_budget k d = email_budget k' d' \<longleftrightarrow> k = k' \<and> d = d'"
  "ip_budget k ip \<noteq> email_budget k' d" "email_budget k' d \<noteq> ip_budget k ip"
  by (cases k; cases k'; simp add: ip_budget_def email_budget_def)+

text \<open>The budgets a request has been granted.\<close>

definition granted :: "(string \<Rightarrow> string) \<Rightarrow> string \<Rightarrow> magic_request \<Rightarrow> bool" where
  "granted sha K q \<longleftrightarrow>
     (mq_phase q \<noteq> At_ip \<and> K = ip_budget (mq_kind q) (mq_ip q)) \<or>
     (mq_phase q = At_workos \<and> K = email_budget (mq_kind q) (emailKey sha (mq_email q)))"

lemma granted_advance:
  "mq_phase q \<noteq> At_workos \<Longrightarrow> granted sha K (advance q) \<longleftrightarrow> granted sha K q \<or> next_budget sha q = K"
  "mq_phase q \<noteq> At_workos \<Longrightarrow> next_budget sha q = K \<Longrightarrow> \<not> granted sha K q"
  by (cases "mq_phase q"; auto simp: granted_def advance_def next_budget_def)+

definition spent :: "(string \<Rightarrow> string) \<Rightarrow> string \<Rightarrow> magic_world \<Rightarrow> nat" where
  "spent sha K w = length (filter (granted sha K) (mw_calls w)) + length (filter (\<lambda>p. granted sha K (snd p)) (mw_requests w))"

definition limit_is :: "magic_options \<Rightarrow> string \<Rightarrow> int \<Rightarrow> bool" where
  "limit_is opts K L \<longleftrightarrow> (\<forall>k ip. K = ip_budget k ip \<longrightarrow> L = ip_limit opts k) \<and>
     (\<forall>k d. K = email_budget k d \<longrightarrow> L = email_limit opts k)"

lemma next_limit_is: "limit_is opts K L \<Longrightarrow> next_budget sha q = K \<Longrightarrow> next_limit opts q = L"
  by (auto simp: limit_is_def next_budget_def next_limit_def)

text \<open>The counter of \<open>K\<close> does not exist yet and nothing was granted, or its window opened no
  earlier than \<open>T\<close> and what was granted is no more than it has counted and the limit allows.\<close>

definition counted :: "int \<Rightarrow> time \<Rightarrow> string \<Rightarrow> int \<Rightarrow> redis \<Rightarrow> nat \<Rightarrow> bool" where
  "counted w T K L r m \<longleftrightarrow>
     (\<forall>t. redis_fresh t K r) \<and> m = 0 \<or>
     (\<exists>t0 n. T \<le> t0 \<and> redis_running w t0 n K r \<and> int m \<le> n \<and> int m \<le> max 0 L)"

lemma counted_hit:
  assumes "counted w T K L r m" and "T \<le> now" "now < T + 1000 * w"
    and hit: "redis_hit w now J r = (c, r')"
  shows "counted w T K L r' m" and "J = K \<Longrightarrow> c \<le> L \<Longrightarrow> counted w T K L r' (Suc m)"
proof -
  have c: "fst (redis_hit w now J r) = c" "snd (redis_hit w now J r) = r'" using hit by simp_all
  have other: "counted w T K L r' m" if "J \<noteq> K"
    using assms(1) redis_window.others [OF that, of w _ _ r now] redis_window.others_fresh [OF that, of _ r w now]
    unfolding counted_def c(2) by blast
  have same: "counted w T K L r' m \<and> (c \<le> L \<longrightarrow> counted w T K L r' (Suc m))" if JK: "J = K"
  proof -
    consider (fresh) "redis_fresh now K r" "m = 0"
      | (running) t0 n where "T \<le> t0" "redis_running w t0 n K r" "int m \<le> n" "int m \<le> max 0 L"
      using assms(1) unfolding counted_def by blast
    then show ?thesis
    proof cases
      case fresh
      then have "c = 1" "redis_running w now 1 K r'"
        using redis_window.opens [of now K r w] c JK by simp_all
      then show ?thesis using fresh(2) assms(2) unfolding counted_def
        by (intro conjI impI disjI2 exI [of _ now] exI [of _ 1]) simp_all
    next
      case running
      then have "c = n + 1" "redis_running w t0 (n + 1) K r'"
        using redis_window.counts [of w t0 n K r now] c JK assms(2,3) by simp_all
      then show ?thesis using running unfolding counted_def
        by (intro conjI impI disjI2 exI [of _ t0] exI [of _ "n + 1"]) simp_all
    qed
  qed
  show "counted w T K L r' m" using other same by blast
  show "counted w T K L r' (Suc m)" if "J = K" "c \<le> L" using same that by blast
qed

lemma counted_consume:
  assumes "counted (mo_windowSeconds opts) T K L r m" and "T \<le> now" "now < T + 1000 * mo_windowSeconds opts"
    and "ma_consume opts fault now J limit r = (answer, r')" and "J = K \<Longrightarrow> limit = L"
  shows "counted (mo_windowSeconds opts) T K L r' (m + (if answer = None \<and> J = K then 1 else 0))"
proof -
  obtain c r1 where hit: "incrementWindow now J (mo_windowSeconds opts) r = (c, r1)" by force
  then have "redis_hit (mo_windowSeconds opts) now J r = (wc_count c, r1)" by (simp add: redis_hit_def)
  from counted_hit [OF assms(1-3) this] show ?thesis
    using assms(1,4,5) hit by (cases fault) (auto simp: ma_consume_def split: if_splits)
qed

definition magic_inv :: "(string \<Rightarrow> string) \<Rightarrow> magic_options \<Rightarrow> time \<Rightarrow> string \<Rightarrow> int \<Rightarrow> magic_world \<Rightarrow> bool" where
  "magic_inv sha opts T K L w \<longleftrightarrow> distinct (map fst (mw_requests w)) \<and>
     counted (mo_windowSeconds opts) T K L (mw_redis w) (spent sha K w) \<and> (\<forall>q \<in> set (mw_calls w). mq_phase q = At_workos)"

definition within_window :: "magic_options \<Rightarrow> time \<Rightarrow> magic_event \<Rightarrow> bool" where
  "within_window opts T e = (case e of Budget i now fault \<Rightarrow> T \<le> now \<and> now < T + 1000 * mo_windowSeconds opts | _ \<Rightarrow> True)"

lemma magic_inv_step:
  assumes lim: "limit_is opts K L" and ok: "within_window opts T e" and inv: "magic_inv sha opts T K L w"
  shows "magic_inv sha opts T K L (ma_step sha opts e w)"
proof (cases e)
  case (Arrive i kind email ip)
  with inv show ?thesis
    by (auto simp: ma_step_def magic_inv_def spent_def granted_def map_of_eq_None_iff split: option.split)
next
  case (Budget i now fault)
  show ?thesis
  proof (cases "map_of (mw_requests w) i")
    case (Some q)
    note d = conjunct1 [OF inv [unfolded magic_inv_def]]
    obtain answer r where c: "ma_consume opts fault now (next_budget sha q) (next_limit opts q) (mw_redis w) = (answer, r)"
      by force
    have counted: "counted (mo_windowSeconds opts) T K L r (spent sha K w + (if answer = None \<and> next_budget sha q = K then 1 else 0))"
      using counted_consume [OF conjunct1 [OF conjunct2 [OF inv [unfolded magic_inv_def]]] _ _ c] ok Budget next_limit_is [OF lim]
      by (simp add: within_window_def)
    show ?thesis
    proof (cases "mq_phase q = At_workos")
      case False
      show ?thesis
      proof (cases answer)
        case None
        have "spent sha K (w\<lparr>mw_redis := r, mw_requests := AList.update i (advance q) (mw_requests w)\<rparr>) =
            spent sha K w + (if next_budget sha q = K then 1 else 0)"
          using filter_update_count [OF d Some, of "granted sha K" "advance q"] granted_advance [OF False, of sha K]
          by (auto simp: spent_def split: if_splits)
        with counted None Budget Some False c d show ?thesis
          using inv by (simp add: ma_step_def magic_inv_def distinct_update)
      next
        case (Some err)
        have "spent sha K (w\<lparr>mw_redis := r, mw_requests := AList.delete i (mw_requests w)\<rparr>) \<le> spent sha K w"
          using filter_delete_count [OF d \<open>map_of (mw_requests w) i = Some q\<close>, of "granted sha K"] by (simp add: spent_def)
        then have "counted (mo_windowSeconds opts) T K L r (spent sha K (w\<lparr>mw_redis := r, mw_requests := AList.delete i (mw_requests w)\<rparr>))"
          using counted Some unfolding counted_def by fastforce
        with Some Budget \<open>map_of (mw_requests w) i = Some q\<close> False c d inv show ?thesis
          by (simp add: ma_step_def magic_inv_def distinct_delete)
      qed
    qed (use Budget Some inv in \<open>simp add: ma_step_def\<close>)
  qed (use Budget inv in \<open>simp add: ma_step_def\<close>)
next
  case (Call_out i)
  show ?thesis
  proof (cases "map_of (mw_requests w) i")
    case (Some q)
    note d = conjunct1 [OF inv [unfolded magic_inv_def]]
    have "spent sha K (w\<lparr>mw_requests := AList.delete i (mw_requests w), mw_calls := mw_calls w @ [q]\<rparr>) = spent sha K w"
      using filter_delete_count [OF d Some, of "granted sha K"] by (simp add: spent_def split: if_splits)
    with Call_out Some inv d show ?thesis by (simp add: ma_step_def magic_inv_def distinct_delete)
  qed (use Call_out inv in \<open>simp add: ma_step_def\<close>)
qed

definition window_world :: "(string \<Rightarrow> string) \<Rightarrow> magic_options \<Rightarrow> time \<Rightarrow> string \<Rightarrow> int \<Rightarrow> magic_world \<Rightarrow> bool" where
  "window_world sha opts T K L w \<longleftrightarrow> limit_is opts K L \<and> magic_inv sha opts T K L w"

interpretation magic: guarded_machine "ma_step sha opts" "window_world sha opts T K L" "within_window opts T"
  by unfold_locales (simp add: window_world_def magic_inv_step)

definition magic_start :: "redis \<Rightarrow> magic_world" where
  "magic_start r = \<lparr>mw_redis = r, mw_requests = [], mw_calls = []\<rparr>"

lemma spent_bounded:
  assumes "limit_is opts K L" "map_of r K = None" "list_all (within_window opts T) es"
  shows "int (length (filter (granted sha K) (mw_calls (run_calls (ma_step sha opts) (magic_start r) es)))) \<le> max 0 L"
    and "\<forall>q \<in> set (mw_calls (run_calls (ma_step sha opts) (magic_start r) es)). mq_phase q = At_workos"
proof -
  have "window_world sha opts T K L (magic_start r)"
    using assms(1,2) by (simp add: window_world_def magic_inv_def counted_def spent_def magic_start_def
        redis_fresh_def rd_exists_def rd_entry_def)
  from magic.inv_ok_run [OF this assms(3)] have "magic_inv sha opts T K L (run_calls (ma_step sha opts) (magic_start r) es)"
    by (simp add: window_world_def)
  then show "int (length (filter (granted sha K) (mw_calls (run_calls (ma_step sha opts) (magic_start r) es)))) \<le> max 0 L"
    and "\<forall>q \<in> set (mw_calls (run_calls (ma_step sha opts) (magic_start r) es)). mq_phase q = At_workos"
    by (auto simp: magic_inv_def counted_def spent_def)
qed

subsection \<open>Properties\<close>

text \<open>Claim C16. However requests interleave, whatever addresses they come from and whichever commands to Redis
  fail, the codes sent to one mailbox within a window are no more than its budget, the guesses
  made for it no more than the budget of guesses, and a source address buys no more than its
  own budget of either.\<close>

theorem budgets_bound_calls:
  assumes "list_all (within_window opts T) es"
    and "map_of r (email_budget kind (emailKey sha email)) = None" "map_of r (ip_budget kind ip) = None"
  defines "calls \<equiv> filter (\<lambda>q. mq_kind q = kind) (mw_calls (run_calls (ma_step sha opts) (magic_start r) es))"
  shows "int (length (filter (\<lambda>q. emailKey sha (mq_email q) = emailKey sha email) calls)) \<le> max 0 (email_limit opts kind) \<and>
    int (length (filter (\<lambda>q. mq_ip q = ip) calls)) \<le> max 0 (ip_limit opts kind)"
proof -
  let ?calls = "mw_calls (run_calls (ma_step sha opts) (magic_start r) es)"
  have lims: "limit_is opts (email_budget kind (emailKey sha email)) (email_limit opts kind)"
      "limit_is opts (ip_budget kind ip) (ip_limit opts kind)"
    by (auto simp: limit_is_def)
  note e = spent_bounded [OF lims(1) assms(2,1), of sha] and i = spent_bounded [OF lims(2) assms(3,1), of sha]
  have "filter (\<lambda>q. emailKey sha (mq_email q) = emailKey sha email) calls =
      filter (granted sha (email_budget kind (emailKey sha email))) ?calls"
    and "filter (\<lambda>q. mq_ip q = ip) calls = filter (granted sha (ip_budget kind ip)) ?calls"
    using e(2) by (auto simp: calls_def granted_def intro!: filter_cong)
  then show ?thesis using e(1) i(1) by simp
qed

definition demo_magic :: magic_options where
  "demo_magic = \<lparr>mo_perIpMax = 3, mo_perEmailMax = 1, mo_verifyMax = 2, mo_windowSeconds = 60, mo_floorMs = 700\<rparr>"

lemma budgets_bound_calls_witness:
  "int (length (filter (\<lambda>q. emailKey id (mq_email q) = emailKey id ''a'') (filter (\<lambda>q. mq_kind q = Start)
     (mw_calls (run_calls (ma_step id demo_magic) (magic_start [])
       [Arrive 1 Start ''a'' ''1.1'', Arrive 2 Start '' A'' ''2.2'', Budget 1 5 Reached, Budget 2 6 Reached,
        Budget 2 7 Reached, Budget 1 8 Reached, Call_out 1, Call_out 2]))))) \<le> 1"
  using budgets_bound_calls [of demo_magic 0 "[Arrive 1 Start ''a'' ''1.1'', Arrive 2 Start '' A'' ''2.2'', Budget 1 5 Reached,
        Budget 2 6 Reached, Budget 2 7 Reached, Budget 1 8 Reached, Call_out 1, Call_out 2]" "[]" Start id "''a''" "''1.1''"]
  by (simp add: demo_magic_def within_window_def email_limit_def)

lemma map_of_incrementWindow: "j \<noteq> k \<Longrightarrow> map_of (snd (incrementWindow t j w r)) k = map_of r k"
  by (simp add: incrementWindow_def rd_incrby_def rd_expire_def AList.update_conv' Let_def split: option.splits prod.splits)

lemma consume_answer:
  "fst (ma_consume opts fault now key limit r) = None \<longleftrightarrow>
     fault = Reached \<and> fst (redis_hit (mo_windowSeconds opts) now key r) \<le> limit"
  "j \<noteq> key \<Longrightarrow> map_of (snd (ma_consume opts fault now key limit r)) j = map_of r j"
  using map_of_incrementWindow [of key j now "mo_windowSeconds opts" r]
  by (auto simp: ma_consume_def redis_hit_def split: redis_fault.split prod.splits)

text \<open>The composed operation is a run of the state machine with nothing in between.\<close>

lemma requestCode_runs:
  assumes "map_of (mw_requests w) i = None" and "i \<notin> fst ` set (mw_requests w)"
    and "requestCode sha wo opts fetch bt startedAt endedAt email ip (mw_redis w) = (answer, r)"
  defines "w' \<equiv> run_calls (ma_step sha opts) w
    [Arrive i Start email ip, Budget i (bt_ipAt bt) (bt_ipFault bt), Budget i (bt_emailAt bt) (bt_emailFault bt), Call_out i]"
  shows "mw_redis w' = r" and "map mq_email (mw_calls w') = map mq_email (mw_calls w) @ map (\<lambda>_. normalizeEmail email) (sa_calls answer)"
proof -
  obtain a r1 where ip: "ma_consume opts (bt_ipFault bt) (bt_ipAt bt) (ip_budget Start ip) (ip_limit opts Start) (mw_redis w) = (a, r1)"
    by force
  obtain b r2 where em: "ma_consume opts (bt_emailFault bt) (bt_emailAt bt)
      (email_budget Start (emailKey sha email)) (email_limit opts Start) r1 = (b, r2)" by force
  have "mw_redis w' = r \<and> map mq_email (mw_calls w') = map mq_email (mw_calls w) @ map (\<lambda>_. normalizeEmail email) (sa_calls answer)"
    using assms(1-3) ip em
    by (cases a; cases b) (auto simp: w'_def ma_step_def next_budget_def next_limit_def advance_def requestCode_def
        consume_both_def Let_def)
  then show "mw_redis w' = r" and "map mq_email (mw_calls w') = map mq_email (mw_calls w) @ map (\<lambda>_. normalizeEmail email) (sa_calls answer)"
    by simp_all
qed

definition about_address :: "workos_client \<Rightarrow> workos_fetch \<Rightarrow> string \<Rightarrow> bool" where
  "about_address wo fetch email \<longleftrightarrow> (case fetch (send_call wo (normalizeEmail email)) of
     None \<Rightarrow> False | Some (status, _) \<Rightarrow> in_2xx status \<or> (400 \<le> status \<and> status < 500))"

text \<open>Claim C17. Requesting a code answers the same, and at the same time, for an address the provider accepted
  and for one it refused, as long as the provider is faster than the floor; and no answer at
  all, an error included, comes before the floor.\<close>

theorem start_discloses_nothing:
  assumes "about_address wo fetch email" "about_address wo fetch' email"
    and "endedAt \<le> startedAt + mo_floorMs opts" "endedAt' \<le> startedAt + mo_floorMs opts"
  shows "requestCode sha wo opts fetch bt startedAt endedAt email ip r =
      requestCode sha wo opts fetch' bt startedAt endedAt' email ip r \<and>
    sa_answeredAt (fst (requestCode sha wo opts fetch bt startedAt endedAt email ip r)) = startedAt + mo_floorMs opts \<and>
    startedAt + mo_floorMs opts \<le> sa_answeredAt (fst (requestCode sha wo opts fetch'' bt startedAt late email ip r))"
proof -
  have sent: "\<exists>x. sendMagicAuthCode wo f (normalizeEmail email) = Inr x" if "about_address wo f email" for f
    using that by (auto simp: about_address_def sendMagicAuthCode_def wo_request_def split: option.splits prod.splits)
  obtain x y where "sendMagicAuthCode wo fetch (normalizeEmail email) = Inr x"
    "sendMagicAuthCode wo fetch' (normalizeEmail email) = Inr y"
    using sent assms(1,2) by blast
  then show ?thesis
    using assms(3,4) by (auto simp: requestCode_def ma_pad_def Let_def split: prod.splits option.splits)
qed

definition demo_workos :: workos_client where
  "demo_workos = wo_new ''https://api.workos.com/'' ''client'' ''key''"

lemma start_discloses_nothing_witness:
  "requestCode id demo_workos demo_magic (\<lambda>_. Some (200, ''{}''))
      \<lparr>bt_ipAt = 1, bt_ipFault = Reached, bt_emailAt = 2, bt_emailFault = Reached\<rparr> 0 400 ''a'' ''1.1'' [] =
   requestCode id demo_workos demo_magic (\<lambda>_. Some (403, []))
      \<lparr>bt_ipAt = 1, bt_ipFault = Reached, bt_emailAt = 2, bt_emailFault = Reached\<rparr> 0 40 ''a'' ''1.1'' []"
  using start_discloses_nothing [of demo_workos "\<lambda>_. Some (200, ''{}'')" "''a''" "\<lambda>_. Some (403, [])" 400 0 demo_magic 40 id]
  by (simp add: about_address_def in_2xx_def demo_magic_def)

definition ip_granted ::
  "magic_options \<Rightarrow> magic_kind \<Rightarrow> budget_times \<Rightarrow> string \<Rightarrow> redis \<Rightarrow> bool" where
  "ip_granted opts kind bt ip r \<longleftrightarrow> bt_ipFault bt = Reached \<and>
     fst (redis_hit (mo_windowSeconds opts) (bt_ipAt bt) (ip_budget kind ip) r) \<le> ip_limit opts kind"

definition email_granted ::
  "(string \<Rightarrow> string) \<Rightarrow> magic_options \<Rightarrow> magic_kind \<Rightarrow> budget_times \<Rightarrow> string \<Rightarrow> string \<Rightarrow> redis \<Rightarrow> bool" where
  "email_granted sha opts kind bt email ip r \<longleftrightarrow> bt_emailFault bt = Reached \<and>
     fst (redis_hit (mo_windowSeconds opts) (bt_emailAt bt) (email_budget kind (emailKey sha email))
       (snd (redis_hit (mo_windowSeconds opts) (bt_ipAt bt) (ip_budget kind ip) r))) \<le> email_limit opts kind"

text \<open>No mail is sent, and no guess reaches the provider, unless both budgets were reached and
  granted it; and a source address that is out of budget leaves every budget of a mailbox as
  it was.\<close>

theorem calls_need_both_budgets:
  "(sa_calls (fst (requestCode sha wo opts fetch bt startedAt endedAt email ip r)) \<noteq> [] \<longleftrightarrow>
      ip_granted opts Start bt ip r \<and> email_granted sha opts Start bt email ip r) \<and>
    (isl (fst (verifyCode sha wo opts fetch bt email passcode ip r)) \<or>
      ip_granted opts Verify bt ip r \<and> email_granted sha opts Verify bt email ip r) \<and>
    (ip_granted opts Start bt ip r \<or> map_of (snd (requestCode sha wo opts fetch bt startedAt endedAt email ip r)) (email_budget kind d) =
       map_of r (email_budget kind d)) \<and>
    (ip_granted opts Verify bt ip r \<or> map_of (snd (verifyCode sha wo opts fetch bt email passcode ip r)) (email_budget kind d) =
       map_of r (email_budget kind d))"
proof -
  have one: "fst (consume_both sha opts k bt (normalizeEmail email) ip r) = None \<longleftrightarrow>
      ip_granted opts k bt ip r \<and> email_granted sha opts k bt email ip r"
    and two: "ip_granted opts k bt ip r \<or> map_of (snd (consume_both sha opts k bt (normalizeEmail email) ip r)) (email_budget kind d) =
        map_of r (email_budget kind d)" for k
  proof -
    obtain a r1 where ip: "ma_consume opts (bt_ipFault bt) (bt_ipAt bt) (ip_budget k ip) (ip_limit opts k) r = (a, r1)"
      by (cases "ma_consume opts (bt_ipFault bt) (bt_ipAt bt) (ip_budget k ip) (ip_limit opts k) r")
    note f = consume_answer(1) [of opts "bt_ipFault bt" "bt_ipAt bt" "ip_budget k ip" "ip_limit opts k" r, unfolded ip fst_conv,
        folded ip_granted_def]
    have r1: "r1 = snd (redis_hit (mo_windowSeconds opts) (bt_ipAt bt) (ip_budget k ip) r)" if "a = None"
      using ip that f by (auto simp: ma_consume_def redis_hit_def ip_granted_def split: prod.splits)
    show "fst (consume_both sha opts k bt (normalizeEmail email) ip r) = None \<longleftrightarrow>
        ip_granted opts k bt ip r \<and> email_granted sha opts k bt email ip r"
      using f ip r1 by (cases a) (simp_all add: consume_both_def email_granted_def consume_answer(1))
    show "ip_granted opts k bt ip r \<or> map_of (snd (consume_both sha opts k bt (normalizeEmail email) ip r)) (email_budget kind d) =
        map_of r (email_budget kind d)"
      using f ip consume_answer(2) [of "email_budget kind d" "ip_budget k ip" opts "bt_ipFault bt" "bt_ipAt bt" "ip_limit opts k" r]
      by (cases a) (simp_all add: consume_both_def)
  qed
  have s: "sa_calls (fst (requestCode sha wo opts fetch bt startedAt endedAt email ip r)) \<noteq> [] \<longleftrightarrow>
        fst (consume_both sha opts Start bt (normalizeEmail email) ip r) = None"
      "snd (requestCode sha wo opts fetch bt startedAt endedAt email ip r) = snd (consume_both sha opts Start bt (normalizeEmail email) ip r)"
    by (simp_all add: requestCode_def Let_def split: prod.split option.split)
  have v: "isl (fst (verifyCode sha wo opts fetch bt email passcode ip r)) \<or>
        fst (consume_both sha opts Verify bt (normalizeEmail email) ip r) = None"
      "snd (verifyCode sha wo opts fetch bt email passcode ip r) = snd (consume_both sha opts Verify bt (normalizeEmail email) ip r)"
    by (simp_all add: verifyCode_def Let_def split: prod.split option.split)
  show ?thesis using s v one two by metis
qed

end
