(* ===== verification/Registration.thy ===== *)
theory Registration
  imports Api_Errors "HOL-Library.Word"
begin

text \<open>
  Who may form an account: the refusal by region, \<^verbatim>\<open>apps/bff/src/lib/registration-geo.ts\<close>, and the
  list of addresses of a closed beta, \<^verbatim>\<open>apps/bff/src/lib/registration-allowlist.ts\<close>.
\<close>

subsection \<open>Countries\<close>

definition EEA_COUNTRIES :: "string list" where
  "EEA_COUNTRIES =
     [''AT'', ''BE'', ''BG'', ''HR'', ''CY'', ''CZ'', ''DK'', ''EE'', ''FI'', ''FR'',
      ''DE'', ''GR'', ''HU'', ''IE'', ''IT'', ''LV'', ''LT'', ''LU'', ''MT'', ''NL'',
      ''PL'', ''PT'', ''RO'', ''SK'', ''SI'', ''ES'', ''SE'',
      ''IS'', ''LI'', ''NO'']"

definition UK_AND_SWITZERLAND :: "string list" where
  "UK_AND_SWITZERLAND = [''GB'', ''CH'']"

definition EU_TERRITORIES :: "string list" where
  "EU_TERRITORIES = [''AX'', ''GF'', ''GP'', ''MQ'', ''RE'', ''YT'', ''MF'']"

definition EU_REGION_CODE :: "string list" where
  "EU_REGION_CODE = [''EU'']"

definition RESTRICTED_COUNTRIES :: "string list" where
  "RESTRICTED_COUNTRIES = EEA_COUNTRIES @ UK_AND_SWITZERLAND @ EU_TERRITORIES @ EU_REGION_CODE"

definition UNDETERMINED_CODES :: "string list" where
  "UNDETERMINED_CODES = [''XX'', ''T1'']"

text \<open>\<open>toUpperCase\<close> on the characters a header can hold; the two whose capital lies above them are kept.\<close>

definition upper_char :: "char \<Rightarrow> string" where
  "upper_char c = (let n = code c in
     if (97 \<le> n \<and> n \<le> 122) \<or> (224 \<le> n \<and> n \<le> 254 \<and> n \<noteq> 247) then [char_of (n - 32)]
     else if n = 223 then ''SS'' else [c])"

definition js_toUpperCase :: "string \<Rightarrow> string" where
  "js_toUpperCase s = concat (map upper_char s)"

definition capital :: "char \<Rightarrow> bool" where
  "capital c \<longleftrightarrow> 65 \<le> code c \<and> code c \<le> 90"

text \<open>A header is absent, a text, or a list of texts.\<close>

datatype header = Absent | Once string | Many "string list"

definition normaliseCountry :: "header \<Rightarrow> string option" where
  "normaliseCountry raw = (case raw of
     Once h \<Rightarrow> let v = js_toUpperCase (js_trim h) in if length v = 2 \<and> list_all capital v then Some v else None
   | _ \<Rightarrow> None)"

subsection \<open>The peer\<close>

definition low_hex :: "char \<Rightarrow> bool" where
  "low_hex c \<longleftrightarrow> is_digit c \<or> (97 \<le> code c \<and> code c \<le> 102)"

text \<open>\<open>f\<close>, \<open>c\<close> or \<open>d\<close>, at most two digits more, a colon; and \<open>fe\<close>, \<open>8\<close> to \<open>b\<close>, a digit, a colon.\<close>

definition unique_local :: "string \<Rightarrow> bool" where
  "unique_local s = (case s of
     c # d # r \<Rightarrow> c = CHR ''f'' \<and> d \<in> {CHR ''c'', CHR ''d''} \<and>
       (let digits = takeWhile low_hex r in length digits \<le> 2 \<and> starts_with '':'' (drop (length digits) r))
   | _ \<Rightarrow> False)"

definition link_local :: "string \<Rightarrow> bool" where
  "link_local s = (case s of
     c # d # e # f # g # r \<Rightarrow> c = CHR ''f'' \<and> d = CHR ''e'' \<and> e \<in> {CHR ''8'', CHR ''9'', CHR ''a'', CHR ''b''} \<and>
       low_hex f \<and> g = CHR '':''
   | _ \<Rightarrow> False)"

definition octet :: "string \<Rightarrow> int" where
  "octet s = (if 1 \<le> length s \<and> length s \<le> 3 \<and> list_all is_digit s then decimal s else -1)"

definition private_octets :: "int \<Rightarrow> int \<Rightarrow> bool" where
  "private_octets a b \<longleftrightarrow> a = 127 \<or> a = 10 \<or> (a = 172 \<and> 16 \<le> b \<and> b \<le> 31) \<or> (a = 192 \<and> b = 168) \<or> (a = 169 \<and> b = 254)"

definition isOriginIngressPeer :: "string option \<Rightarrow> bool" where
  "isOriginIngressPeer address = (case address of
     None \<Rightarrow> False
   | Some peer \<Rightarrow>
       if peer = [] then False
       else let addr = (if starts_with ''::ffff:'' peer then drop 7 peer else peer); lower = js_toLowerCase addr in
         if addr = ''::1'' then True
         else if unique_local lower then True
         else if link_local lower then True
         else case map octet (js_split (CHR ''.'') addr) of
           [a, b, c, d] \<Rightarrow> if list_ex (\<lambda>n. n < 0 \<or> 255 < n) [a, b, c, d] then False else private_octets a b
         | _ \<Rightarrow> False)"

subsection \<open>The refusal by region\<close>

datatype geo_reason = Permitted | Unenforced | Restricted_country | Undetermined_country | Unverified_peer

record geo_decision =
  gd_allowed :: bool
  gd_reason :: geo_reason
  gd_country :: "string option"

record geo_input =
  gi_peerAddress :: "string option"
  gi_countryHeader :: header
  gi_enforced :: bool

definition decideRegistrationGeo :: "geo_input \<Rightarrow> geo_decision" where
  "decideRegistrationGeo input =
     (let country = normaliseCountry (gi_countryHeader input) in
      if \<not> gi_enforced input
      then if (case country of None \<Rightarrow> False | Some c \<Rightarrow> c \<in> set RESTRICTED_COUNTRIES)
           then \<lparr>gd_allowed = False, gd_reason = Restricted_country, gd_country = country\<rparr>
           else \<lparr>gd_allowed = True, gd_reason = (if country = None then Unenforced else Permitted), gd_country = country\<rparr>
      else if \<not> isOriginIngressPeer (gi_peerAddress input)
      then \<lparr>gd_allowed = False, gd_reason = Unverified_peer, gd_country = None\<rparr>
      else if (case country of None \<Rightarrow> True | Some c \<Rightarrow> c \<in> set UNDETERMINED_CODES)
      then \<lparr>gd_allowed = False, gd_reason = Undetermined_country, gd_country = country\<rparr>
      else if (case country of None \<Rightarrow> False | Some c \<Rightarrow> c \<in> set RESTRICTED_COUNTRIES)
      then \<lparr>gd_allowed = False, gd_reason = Restricted_country, gd_country = country\<rparr>
      else \<lparr>gd_allowed = True, gd_reason = Permitted, gd_country = country\<rparr>)"

subsection \<open>The list of addresses\<close>

datatype allowlist_reason = Open | Allowlisted | Not_allowlisted

definition normaliseAddress :: "string \<Rightarrow> string" where
  "normaliseAddress raw = js_toLowerCase (js_trim raw)"

definition whyNotAnAddress :: "string \<Rightarrow> string option" where
  "whyNotAnAddress entry =
     (if list_ex is_white entry then Some ''contains whitespace, which is probably a missing comma''
      else case indexOf (CHR 0x40) entry of
        None \<Rightarrow> Some (''not an email address (no '' @ CHR 0x40 # '')'')
      | Some k \<Rightarrow>
          let domain = drop (k + 1) entry in
          if CHR 0x40 \<in> set domain then Some (''not an email address (more than one '' @ CHR 0x40 # '')'')
          else if k = 0 then Some (''no local part before the '' @ [CHR 0x40])
          else if domain = [] then Some (''no domain after the '' @ [CHR 0x40])
          else if CHR ''.'' \<notin> set domain then Some ''the domain has no dot, so it cannot match''
          else None)"

record parsed_allowlist =
  pa_addresses :: "string list"
  pa_problems :: "(string \<times> string) list"

fun parse_segments :: "string list \<Rightarrow> parsed_allowlist \<Rightarrow> parsed_allowlist" where
  "parse_segments [] p = p"
| "parse_segments (segment # segments) p =
     (let entry = normaliseAddress segment in
      if entry = [] then parse_segments segments p
      else case whyNotAnAddress entry of
        Some why \<Rightarrow> parse_segments segments (p\<lparr>pa_problems := pa_problems p @ [(entry, why)]\<rparr>)
      | None \<Rightarrow> parse_segments segments (p\<lparr>pa_addresses := List.insert entry (pa_addresses p)\<rparr>))"

definition parseRegistrationAllowlist :: "string \<Rightarrow> parsed_allowlist" where
  "parseRegistrationAllowlist raw =
     (let p = parse_segments (js_split (CHR '','') raw) \<lparr>pa_addresses = [], pa_problems = []\<rparr> in
      if raw \<noteq> [] \<and> pa_addresses p = [] \<and> pa_problems p = []
      then p\<lparr>pa_problems := [(raw, ''the variable is set but names no address, which would leave registration OPEN. '' @
             ''Set it to an empty string to mean that deliberately.'')]\<rparr>
      else p)"

definition decideRegistrationAllowlist :: "string \<Rightarrow> string list \<Rightarrow> bool \<times> allowlist_reason" where
  "decideRegistrationAllowlist email allowlist =
     (if allowlist = [] then (True, Open)
      else if normaliseAddress email \<in> set allowlist then (True, Allowlisted)
      else (False, Not_allowlisted))"

subsection \<open>What the list admits\<close>

lemma normaliseAddress_idem [simp]: "normaliseAddress (normaliseAddress e) = normaliseAddress e"
proof -
  have "js_trim (js_toLowerCase (js_trim e)) = js_toLowerCase (js_trim e)"
    using js_trim_ends [of e] by (intro js_trim_tidy) (auto simp: js_toLowerCase_def hd_map last_map)
  then show ?thesis by (simp add: normaliseAddress_def js_toLowerCase_def)
qed

lemma parse_segments_addresses:
  "set (pa_addresses (parse_segments segs p)) =
     set (pa_addresses p) \<union> {normaliseAddress s | s. s \<in> set segs \<and> normaliseAddress s \<noteq> [] \<and> whyNotAnAddress (normaliseAddress s) = None}"
  by (induction segs arbitrary: p) (auto simp: Let_def split: option.splits)

lemma parse_segments_problems:
  "pa_problems (parse_segments segs p) = pa_problems p @
     concat (map (\<lambda>s. if normaliseAddress s = [] then [] else case whyNotAnAddress (normaliseAddress s) of
       None \<Rightarrow> [] | Some why \<Rightarrow> [(normaliseAddress s, why)]) segs)"
  by (induction segs arbitrary: p) (auto simp: Let_def split: option.splits)

lemma parse_segments_clean:
  assumes "pa_problems (parse_segments segs p) = []" "s \<in> set segs" "normaliseAddress s \<noteq> []"
  shows "whyNotAnAddress (normaliseAddress s) = None"
proof -
  have "(case whyNotAnAddress (normaliseAddress s) of None \<Rightarrow> [] | Some why \<Rightarrow> [(normaliseAddress s, why)]) = []"
    using assms by (simp add: parse_segments_problems)
  then show ?thesis by (cases "whyNotAnAddress (normaliseAddress s)") simp_all
qed

lemma parse_nothing: "parseRegistrationAllowlist [] = \<lparr>pa_addresses = [], pa_problems = []\<rparr>"
  by code_simp

text \<open>Claim C23. A list that the service starts with admits exactly the addresses written in it,
  up to white space around them and letter case, and is open to everyone only when the
  variable is the empty string: no other text without a reported problem leaves registration
  open.\<close>

theorem allowlist_exact:
  assumes "pa_problems (parseRegistrationAllowlist raw) = []"
  shows "fst (decideRegistrationAllowlist email (pa_addresses (parseRegistrationAllowlist raw))) \<longleftrightarrow>
    raw = [] \<or> (\<exists>segment \<in> set (js_split (CHR '','') raw). normaliseAddress segment \<noteq> [] \<and>
      normaliseAddress segment = normaliseAddress email)"
proof -
  let ?p = "parse_segments (js_split (CHR '','') raw) \<lparr>pa_addresses = [], pa_problems = []\<rparr>"
  have p: "parseRegistrationAllowlist raw = ?p" and clean: "pa_problems ?p = []" and named: "raw = [] \<or> pa_addresses ?p \<noteq> []"
    using assms by (auto simp: parseRegistrationAllowlist_def Let_def split: if_splits)
  have mem: "e \<in> set (pa_addresses ?p) \<longleftrightarrow> (\<exists>s \<in> set (js_split (CHR '','') raw). normaliseAddress s \<noteq> [] \<and> normaliseAddress s = e)" for e
    using parse_segments_clean [OF clean] by (auto simp: parse_segments_addresses)
  show ?thesis
  proof (cases "raw = []")
    case True
    then show ?thesis by (simp add: parse_nothing decideRegistrationAllowlist_def)
  next
    case False
    then show ?thesis using named by (auto simp: p decideRegistrationAllowlist_def mem)
  qed
qed

theorem allowlist_exact_witness:
  "fst (decideRegistrationAllowlist '' Gray@Example.Test'' (pa_addresses (parseRegistrationAllowlist ''gray@example.test,'')))"
proof -
  have "pa_problems (parseRegistrationAllowlist ''gray@example.test,'') = []" by code_simp
  moreover have "js_split (CHR '','') ''gray@example.test,'' = [''gray@example.test'', []]" by code_simp
  moreover have "normaliseAddress ''gray@example.test'' = ''gray@example.test''" "normaliseAddress '' Gray@Example.Test'' = ''gray@example.test''"
    by code_simp+
  ultimately show ?thesis using allowlist_exact [of "''gray@example.test,''" "'' Gray@Example.Test''"] by simp
qed

subsection \<open>The peers that count as the ingress\<close>

text \<open>An address of the older protocol as a word, and as it is written.\<close>

definition ip4 :: "nat \<Rightarrow> nat \<Rightarrow> nat \<Rightarrow> nat \<Rightarrow> 32 word" where
  "ip4 a b c d = word_of_nat (((a * 256 + b) * 256 + c) * 256 + d)"

definition dotted :: "nat \<Rightarrow> nat \<Rightarrow> nat \<Rightarrow> nat \<Rightarrow> string" where
  "dotted a b c d = js_join ''.'' [show_nat a, show_nat b, show_nat c, show_nat d]"

definition in_range :: "32 word \<Rightarrow> nat \<times> 32 word \<Rightarrow> bool" where
  "in_range w r \<longleftrightarrow> drop_bit (32 - fst r) w = drop_bit (32 - fst r) (snd r)"

text \<open>The ranges that are not routed on the public internet, as their registry lists them.\<close>

definition private_ranges :: "(nat \<times> 32 word) list" where
  "private_ranges = [(8, ip4 127 0 0 0), (8, ip4 10 0 0 0), (12, ip4 172 16 0 0), (16, ip4 192 168 0 0), (16, ip4 169 254 0 0)]"

lemma ip4_unat:
  assumes "a < 256" "b < 256" "c < 256" "d < 256"
  shows "unat (ip4 a b c d) = ((a * 256 + b) * 256 + c) * 256 + d"
proof -
  have "unat (word_of_nat n :: 32 word) = n" if "n < 2 ^ 32" for n
    using that by (simp add: unat_of_nat take_bit_eq_mod)
  moreover have "((a * 256 + b) * 256 + c) * 256 + d < 2 ^ 32" using assms by simp
  ultimately show ?thesis unfolding ip4_def by blast
qed

lemma in_range_div: "in_range w (n, net) \<longleftrightarrow> unat w div 2 ^ (32 - n) = unat net div 2 ^ (32 - n)"
  unfolding in_range_def word_unat_eq_iff unat_drop_bit_eq by (simp add: drop_bit_eq_div)

lemma ip4_prefixes:
  assumes "a < 256" "b < 256" "c < 256" "d < 256"
  shows "unat (ip4 a b c d) div 16777216 = a" "unat (ip4 a b c d) div 1048576 = a * 16 + b div 16"
    "unat (ip4 a b c d) div 65536 = a * 256 + b"
proof -
  have d: "((a * 256 + b) * 256 + c) * 256 + d = (a * 256 + b) * 65536 + (c * 256 + d)" by simp
  have 16: "(((a * 256 + b) * 256 + c) * 256 + d) div 65536 = a * 256 + b"
    unfolding d using assms by simp
  have e: "16777216 = 65536 * (256::nat)" "1048576 = 65536 * (16::nat)" by simp_all
  have ab: "(a * 256 + b) div 256 = a" using assms(2) by simp
  have b16: "(a * 256 + b) div 16 = a * 16 + b div 16"
  proof -
    have "a * 256 + b = b + (a * 16) * 16" by simp
    then show ?thesis by (metis add.commute div_mult_self1 zero_neq_numeral)
  qed
  show "unat (ip4 a b c d) div 16777216 = a"
    unfolding ip4_unat [OF assms] e(1) div_mult2_eq 16 by (rule ab)
  show "unat (ip4 a b c d) div 1048576 = a * 16 + b div 16"
    unfolding ip4_unat [OF assms] e(2) div_mult2_eq 16 by (rule b16)
  show "unat (ip4 a b c d) div 65536 = a * 256 + b"
    unfolding ip4_unat [OF assms] by (rule 16)
qed

lemma base_digits:
  fixes a x q r k :: nat
  assumes "q < k" "r < k"
  shows "a * k + q = x * k + r \<longleftrightarrow> a = x \<and> q = r"
proof
  assume e: "a * k + q = x * k + r"
  have "(a * k + q) div k = a" "(x * k + r) div k = x" using assms by simp_all
  with e have "a = x" by metis
  with e show "a = x \<and> q = r" by simp
qed simp

lemma in_range_ip4:
  assumes "a < 256" "b < 256" "c < 256" "d < 256" "x < 256" "y < 256"
  shows "in_range (ip4 a b c d) (8, ip4 x 0 0 0) \<longleftrightarrow> a = x"
    "in_range (ip4 a b c d) (12, ip4 x y 0 0) \<longleftrightarrow> a = x \<and> b div 16 = y div 16"
    "in_range (ip4 a b c d) (16, ip4 x y 0 0) \<longleftrightarrow> a = x \<and> b = y"
proof -
  have m: "a * 16 + b div 16 = x * 16 + y div 16 \<longleftrightarrow> a = x \<and> b div 16 = y div 16"
  proof -
    have q: "b div 16 < 16" "y div 16 < 16" using assms(2,6) by (simp_all add: less_mult_imp_div_less)
    show ?thesis by (rule base_digits [OF q])
  qed
  have n: "a * 256 + b = x * 256 + y \<longleftrightarrow> a = x \<and> b = y" by (rule base_digits [OF assms(2,6)])
  have w: "(2::nat) ^ (32 - 8) = 16777216" "(2::nat) ^ (32 - 12) = 1048576" "(2::nat) ^ (32 - 16) = 65536" by simp_all
  have z: "(0::nat) < 256" by simp
  note here = ip4_prefixes [OF assms(1-4)] and net = ip4_prefixes [OF assms(5,6) z z]
  show "in_range (ip4 a b c d) (8, ip4 x 0 0 0) \<longleftrightarrow> a = x"
    unfolding in_range_div w here ip4_prefixes [OF assms(5) z z z] by (rule refl)
  show "in_range (ip4 a b c d) (12, ip4 x y 0 0) \<longleftrightarrow> a = x \<and> b div 16 = y div 16"
    unfolding in_range_div w here net by (rule m)
  show "in_range (ip4 a b c d) (16, ip4 x y 0 0) \<longleftrightarrow> a = x \<and> b = y"
    unfolding in_range_div w here net by (rule n)
qed

lemma list_ex_nil: "list_ex P [] \<longleftrightarrow> False" and list_ex_cons: "list_ex P (x # xs) \<longleftrightarrow> P x \<or> list_ex P xs"
  by simp_all

lemma private_ranges_octets:
  assumes "a < 256" "b < 256" "c < 256" "d < 256"
  shows "list_ex (in_range (ip4 a b c d)) private_ranges \<longleftrightarrow> private_octets (int a) (int b)"
proof -
  have l: "(127::nat) < 256" "(10::nat) < 256" "(172::nat) < 256" "(192::nat) < 256" "(168::nat) < 256" "(169::nat) < 256"
    "(254::nat) < 256" "(16::nat) < 256" by simp_all
  have b: "b div 16 = 16 div 16 \<longleftrightarrow> 16 \<le> b \<and> b \<le> 31"
    using div_mult_mod_eq [of b 16] mod_less_divisor [of 16 b] by (simp, linarith)
  note r = in_range_ip4 [OF assms]
  have "list_ex (in_range (ip4 a b c d)) private_ranges \<longleftrightarrow>
      a = 127 \<or> a = 10 \<or> a = 172 \<and> (16 \<le> b \<and> b \<le> 31) \<or> a = 192 \<and> b = 168 \<or> a = 169 \<and> b = 254"
    unfolding private_ranges_def list_ex_nil list_ex_cons r(1) [OF l(1) l(8)] r(1) [OF l(2) l(8)] r(2) [OF l(3) l(8)] r(3) [OF l(4,5)]
      r(3) [OF l(6,7)] b by (simp only: simp_thms)
  then show ?thesis by (simp add: private_octets_def)
qed

lemma show_nat_octet:
  assumes "a < 256"
  shows "octet (show_nat a) = int a" and "length (show_nat a) \<le> 3"
proof -
  have l: "length (show_nat a) \<le> 3 \<and> 1 \<le> length (show_nat a)"
    using assms by (subst (1 2) show_nat.simps, subst (1 2) show_nat.simps, subst (1 2) show_nat.simps) simp
  then show "length (show_nat a) \<le> 3" by simp
  show "octet (show_nat a) = int a"
    using l show_nat_is_digit [of a] by (simp add: octet_def list_all_iff)
qed

lemma dotted_octets:
  assumes "a < 256" "b < 256" "c < 256" "d < 256"
  shows "map octet (js_split (CHR ''.'') (dotted a b c d)) = [int a, int b, int c, int d]"
proof -
  have dot: "CHR ''.'' \<notin> set (show_nat n)" for n
    using show_nat_is_digit [of n] by (auto simp: is_digit_def)
  have "js_split (CHR ''.'') (dotted a b c d) = [show_nat a, show_nat b, show_nat c, show_nat d]"
    by (simp add: dotted_def js_split_append dot js_split_plain)
  then show ?thesis by (simp add: show_nat_octet assms)
qed

lemma dotted_no_six:
  "\<not> unique_local (js_toLowerCase (dotted a b c d))" "\<not> link_local (js_toLowerCase (dotted a b c d))"
  "dotted a b c d \<noteq> ''::1''" "dotted a b c d \<noteq> []" "\<not> starts_with ''::ffff:'' (dotted a b c d)"
proof -
  obtain x xs where x: "show_nat a = x # xs" "is_digit x"
    using show_nat_is_digit [of a] by (cases "show_nat a") (auto simp: show_nat_not_Nil)
  then have d: "dotted a b c d = x # (xs @ drop (length (show_nat a)) (dotted a b c d))" by (simp add: dotted_def)
  have "x \<noteq> CHR ''f''" "x \<noteq> CHR '':''" "lower_char x = x" using x(2) by (auto simp: is_digit_def lower_char_def Let_def)
  then show "\<not> unique_local (js_toLowerCase (dotted a b c d))" "\<not> link_local (js_toLowerCase (dotted a b c d))"
    "dotted a b c d \<noteq> ''::1''" "dotted a b c d \<noteq> []" "\<not> starts_with ''::ffff:'' (dotted a b c d)"
    by (subst d, simp add: unique_local_def link_local_def js_toLowerCase_def starts_with_def split: list.splits)+
qed

text \<open>For a peer of the older protocol, written plainly or in the mapped form, the test
  for the ingress is exactly membership in the blocks that the public internet does not route,
  decided on the 32 bits of the address.\<close>

theorem ingress_is_private:
  assumes "a < 256" "b < 256" "c < 256" "d < 256" "mapped \<in> {[], ''::ffff:''}"
  shows "isOriginIngressPeer (Some (mapped @ dotted a b c d)) \<longleftrightarrow> list_ex (in_range (ip4 a b c d)) private_ranges"
proof -
  let ?s = "dotted a b c d"
  have "isOriginIngressPeer (Some (mapped @ ?s)) \<longleftrightarrow>
      (case map octet (js_split (CHR ''.'') ?s) of
         [a, b, c, d] \<Rightarrow> if list_ex (\<lambda>n. n < 0 \<or> 255 < n) [a, b, c, d] then False else private_octets a b
       | _ \<Rightarrow> False)"
  proof (cases "mapped = []")
    case True
    then show ?thesis using dotted_no_six [of a b c d] by (simp add: isOriginIngressPeer_def Let_def)
  next
    case False
    with assms(5) have m: "mapped = ''::ffff:''" by simp
    have "starts_with ''::ffff:'' (''::ffff:'' @ ?s)" "drop 7 (''::ffff:'' @ ?s) = ?s" by (simp_all add: starts_with_def)
    then show ?thesis using dotted_no_six [of a b c d] unfolding m by (simp add: isOriginIngressPeer_def Let_def)
  qed
  also have "\<dots> \<longleftrightarrow> private_octets (int a) (int b)" unfolding dotted_octets [OF assms(1-4)] using assms by simp
  finally show ?thesis by (simp add: private_ranges_octets assms)
qed

theorem ingress_is_private_witness:
  "isOriginIngressPeer (Some (''::ffff:'' @ dotted 172 17 0 1)) \<longleftrightarrow> list_ex (in_range (ip4 172 17 0 1)) private_ranges"
  using ingress_is_private [of 172 17 0 1 "''::ffff:''"] by simp

subsection \<open>The region gate\<close>

text \<open>On a deployment behind the edge an attempt gets past the region gate only when its
  peer is the ingress and its single header is, trimmed and capitalised, two letters that name
  neither a restricted nor an undetermined region; for any other peer the header changes
  nothing, not even the recorded reason; and without the edge a header can only turn an
  admission into a refusal.\<close>

theorem region_gate:
  shows "(gd_allowed (decideRegistrationGeo \<lparr>gi_peerAddress = peer, gi_countryHeader = h, gi_enforced = True\<rparr>) \<longleftrightarrow>
      isOriginIngressPeer peer \<and> (\<exists>raw c d. h = Once raw \<and> js_toUpperCase (js_trim raw) = [c, d] \<and> capital c \<and> capital d \<and>
        [c, d] \<notin> set RESTRICTED_COUNTRIES \<and> [c, d] \<noteq> ''XX'')) \<and>
    (isOriginIngressPeer peer \<or>
      decideRegistrationGeo \<lparr>gi_peerAddress = peer, gi_countryHeader = h, gi_enforced = True\<rparr> =
      decideRegistrationGeo \<lparr>gi_peerAddress = peer, gi_countryHeader = h', gi_enforced = True\<rparr>) \<and>
    (gd_allowed (decideRegistrationGeo \<lparr>gi_peerAddress = peer, gi_countryHeader = h, gi_enforced = False\<rparr>) \<longrightarrow>
      gd_allowed (decideRegistrationGeo \<lparr>gi_peerAddress = peer, gi_countryHeader = Absent, gi_enforced = False\<rparr>))"
proof -
  have t1: "\<not> (capital (CHR ''T'') \<and> capital (CHR ''1''))" by (simp add: capital_def)
  have two: "(case normaliseCountry h of None \<Rightarrow> False | Some c \<Rightarrow> c \<notin> set UNDETERMINED_CODES \<and> c \<notin> set RESTRICTED_COUNTRIES) \<longleftrightarrow>
      (\<exists>raw c d. h = Once raw \<and> js_toUpperCase (js_trim raw) = [c, d] \<and> capital c \<and> capital d \<and>
        [c, d] \<notin> set RESTRICTED_COUNTRIES \<and> [c, d] \<noteq> ''XX'')"
  proof (cases h)
    case (Once raw)
    show ?thesis
    proof (cases "js_toUpperCase (js_trim raw)" rule: list.exhaust [case_names Nil Cons])
      case (Cons c r)
      then show ?thesis using Once t1
        by (cases r rule: list.exhaust; cases "tl r") (auto simp: normaliseCountry_def Let_def UNDETERMINED_CODES_def)
    qed (simp add: Once normaliseCountry_def Let_def)
  qed (simp_all add: normaliseCountry_def)
  show ?thesis unfolding two [symmetric]
    by (auto simp: decideRegistrationGeo_def Let_def normaliseCountry_def split: option.splits)
qed

theorem region_gate_witness:
  "gd_allowed (decideRegistrationGeo \<lparr>gi_peerAddress = Some ''172.17.0.1'', gi_countryHeader = Once '' us'', gi_enforced = True\<rparr>) \<and>
   gd_allowed (decideRegistrationGeo \<lparr>gi_peerAddress = Some ''172.17.0.1'', gi_countryHeader = Absent, gi_enforced = False\<rparr>)"
proof -
  have peer: "isOriginIngressPeer (Some ''172.17.0.1'')" by code_simp
  have us: "js_toUpperCase (js_trim '' us'') = [CHR ''U'', CHR ''S'']" by code_simp
  have unenforced: "gd_allowed (decideRegistrationGeo \<lparr>gi_peerAddress = Some ''172.17.0.1'', gi_countryHeader = Once '' us'', gi_enforced = False\<rparr>)"
    by code_simp
  have "''US'' \<notin> set RESTRICTED_COUNTRIES" "capital (CHR ''U'')" "capital (CHR ''S'')" by code_simp+
  then show ?thesis
    using region_gate [of "Some ''172.17.0.1''" "Once '' us''" Absent] peer us unenforced by simp
qed

end
