(* ===== verification/Auth_Gate.thy ===== *)
theory Auth_Gate
  imports User_Store Session_Cookie Magic_Auth Registration
begin

text \<open>
  The gate every authenticated request passes: \<^verbatim>\<open>apps/bff/src/plugins/auth.ts\<close>. A request is
  refused with an error, fails, or yields the subject its handler runs for. The verifier of
  signed session tokens is a parameter: it returns the claims of a token that passes its
  checks. The steps of one request read one clock.
\<close>

subsection \<open>Subjects and options\<close>

datatype auth_method = Session | Token

record subject =
  sj_userId :: string
  sj_workosUserId :: string
  sj_email :: "string option"
  sj_displayName :: "string option"
  sj_via :: auth_method
  sj_sessionId :: "string option"
  sj_tokenId :: "string option"
  sj_scopes :: "string list"
  sj_authenticatedAt :: int
  sj_acceptedEpochs :: accepted_epochs

datatype session_only_reason = Mutating | Catalogue | Catalogue_upstream

definition SESSION_ONLY_DETAIL :: "session_only_reason \<Rightarrow> string" where
  "SESSION_ONLY_DETAIL r = (case r of
     Mutating \<Rightarrow>
       ''This operation requires an interactive session. Personal API tokens are read-only, '' @
       ''so a leaked token cannot mint another credential, change a connection, or delete the account.''
   | Catalogue \<Rightarrow>
       ''This is a catalogue route and it requires an interactive session. Not because your token is '' @
       ''read-only - this is a read - but because the catalogue is third-party data licensed to Pull.fm '' @
       ''for use rather than redistribution, and a personal API token is a long-lived credential whose '' @
       ''consumer we cannot see. Your token works on your own data: /v1/feed, /v1/recommendations, '' @
       ''/v1/stations, /v1/me and /v1/wishlist.''
   | Catalogue_upstream \<Rightarrow>
       ''This is a catalogue route and it requires an interactive session, for two reasons and neither '' @
       ''is that your token is read-only. The catalogue is third-party data licensed to Pull.fm for use '' @
       ''rather than redistribution, and this route can make a request to a provider on your behalf out '' @
       ''of an allowance shared by every user. Your token works on your own data: /v1/feed, '' @
       ''/v1/recommendations, /v1/stations, /v1/me and /v1/wishlist.'')"

record require_auth =
  ra_allow :: "auth_method list"
  ra_scope :: "string option"
  ra_reason :: session_only_reason

definition default_auth :: require_auth where
  "default_auth = \<lparr>ra_allow = [Session], ra_scope = None, ra_reason = Mutating\<rparr>"

record jwt_checks =
  jc_issuer :: string
  jc_algorithms :: "string list"
  jc_clockTolerance :: int

type_synonym jwt_verify = "jwt_checks \<Rightarrow> time \<Rightarrow> string \<Rightarrow> json option"

record auth_plugin =
  pl_clientId :: string
  pl_workosApiBaseUrl :: string
  pl_failClosed :: bool
  pl_cookie :: "(string \<times> string) option"
  pl_documents :: "legal_document list"

text \<open>What the gate asks: the verifier, the digest and the cipher, whose key and cookie name are options.\<close>

record auth_parts =
  pt_verify :: jwt_verify
  pt_sha :: "string \<Rightarrow> string"
  pt_open :: gcm_open

definition expectedIssuer :: "auth_plugin \<Rightarrow> string" where
  "expectedIssuer pl = rev (dropWhile ((=) (CHR ''/'')) (rev (pl_workosApiBaseUrl pl))) @ ''/user_management/'' @ pl_clientId pl"

definition session_checks :: "auth_plugin \<Rightarrow> jwt_checks" where
  "session_checks pl = \<lparr>jc_issuer = expectedIssuer pl, jc_algorithms = [''RS256''], jc_clockTolerance = 60\<rparr>"

subsection \<open>What a request brings and touches\<close>

record auth_request =
  rq_now :: time
  rq_dbNow :: time
  rq_verb :: string
  rq_xUserId :: "string option"
  rq_body :: json
  rq_authorization :: "string option"
  rq_cookie :: "string option"
  rq_session :: "string option"
  rq_ip :: "string option"
  rq_consent :: "string option"
  rq_storeReachable :: bool
  rq_limiterFault :: redis_fault

record auth_world =
  aw_redis :: redis
  aw_tokens :: "token_row list"
  aw_users :: "user_row list"
  aw_consents :: "consent_row list"

subsection \<open>Sessions signed out\<close>

definition revokedSessionKey :: "string \<Rightarrow> string" where
  "revokedSessionKey sessionId = ''revoked:sid:'' @ sessionId"

text \<open>Times in milliseconds; \<open>expiresAt\<close> in seconds, rounded up to whole seconds to live.\<close>

definition revokeSessionLocally :: "time \<Rightarrow> string \<Rightarrow> int \<Rightarrow> redis \<Rightarrow> redis" where
  "revokeSessionLocally now sessionId expiresAt r =
     rd_set_ex now (revokedSessionKey sessionId) 1 (max 1 (- ((now - 1000 * expiresAt) div 1000))) r"

definition isRevoked :: "auth_plugin \<Rightarrow> auth_request \<Rightarrow> string \<Rightarrow> redis \<Rightarrow> api_error + bool" where
  "isRevoked pl rq sessionId r =
     (if rq_storeReachable rq then Inr (rd_exists (rq_now rq) (revokedSessionKey sessionId) r)
      else if pl_failClosed pl then Inl (upstreamUnavailable ''session store'') else Inr False)"

definition not_valid :: api_error where
  "not_valid = unauthorized ''The credential is not valid.''"

definition no_credential :: api_error where
  "no_credential = unauthorized ''Authentication is required.''"

definition subject_of :: "auth_method \<Rightarrow> string option \<Rightarrow> string option \<Rightarrow> string list \<Rightarrow> int \<Rightarrow> authenticated_user \<Rightarrow> subject" where
  "subject_of via sid tid scopes issuedAt u =
     \<lparr>sj_userId = us_id (au_user u), sj_workosUserId = us_workosUserId (au_user u), sj_email = us_email (au_user u),
      sj_displayName = us_displayName (au_user u), sj_via = via, sj_sessionId = sid, sj_tokenId = tid, sj_scopes = scopes,
      sj_authenticatedAt = issuedAt, sj_acceptedEpochs = au_acceptedEpochs u\<rparr>"

definition audience_ok :: "string \<Rightarrow> json \<Rightarrow> bool" where
  "audience_ok clientId payload =
     (case jget ''aud'' payload of
        None \<Rightarrow> True
      | Some (JArr audiences) \<Rightarrow> JStr clientId \<in> set audiences
      | Some one \<Rightarrow> one = JStr clientId)"

definition fromSession :: "auth_parts \<Rightarrow> auth_plugin \<Rightarrow> auth_request \<Rightarrow> string \<Rightarrow> auth_world \<Rightarrow> api_error + subject" where
  "fromSession pt pl rq bearer w =
     (case pt_verify pt (session_checks pl) (rq_now rq) bearer of
        None \<Rightarrow> Inl not_valid
      | Some payload \<Rightarrow>
          (case jstring (jget ''sub'' payload) of
             None \<Rightarrow> Inl not_valid
           | Some sub \<Rightarrow>
               if sub = [] then Inl not_valid
               else if \<not> audience_ok (pl_clientId pl) payload then Inl not_valid
               else
                 let sid = jstring (jget ''sid'' payload) in
                 case (case sid of None \<Rightarrow> Inr False | Some s \<Rightarrow> isRevoked pl rq s (aw_redis w)) of
                   Inl e \<Rightarrow> Inl e
                 | Inr True \<Rightarrow> Inl (unauthorized ''This session has been signed out.'')
                 | Inr False \<Rightarrow>
                     (case findActiveByWorkOsId sub (aw_users w) (aw_consents w) of
                        None \<Rightarrow> Inl not_valid
                      | Some user \<Rightarrow>
                          Inr (subject_of Session sid None [''*'']
                            (case jget ''iat'' payload of Some (JNum n) \<Rightarrow> n | _ \<Rightarrow> rq_now rq div 1000) user))))"

subsection \<open>Personal tokens\<close>

definition token_window_key :: "string \<Rightarrow> time \<Rightarrow> string" where
  "token_window_key tokenId now = ''quota:token:'' @ tokenId @ '':'' @ show_int (now div 60000)"

text \<open>The headers of the reply, and the refusal.\<close>

definition enforceTokenRateLimit ::
  "auth_request \<Rightarrow> string \<Rightarrow> int \<Rightarrow> redis \<Rightarrow> api_error option \<times> (string \<times> string) list \<times> redis" where
  "enforceTokenRateLimit rq tokenId limit r =
     (let hit = incrementWindow (rq_now rq) (token_window_key tokenId (rq_now rq)) 60 r in
      case rq_limiterFault rq of
        Unreached \<Rightarrow> (Some (upstreamUnavailable ''rate limiter''), [], r)
      | Reply_lost \<Rightarrow> (Some (upstreamUnavailable ''rate limiter''), [], snd hit)
      | Reached \<Rightarrow>
          let n = wc_count (fst hit); ttl = show_int (wc_ttlSeconds (fst hit));
              headers = [(''ratelimit-limit'', show_int limit), (''ratelimit-remaining'', show_int (max 0 (limit - n))),
                (''ratelimit-reset'', ttl)]
          in if limit < n
             then (Some (rateLimited ''This API token has exceeded its per-minute request budget.''),
                   headers @ [(''retry-after'', ttl)], snd hit)
             else (None, headers, snd hit))"

definition fromToken ::
  "auth_parts \<Rightarrow> auth_plugin \<Rightarrow> auth_request \<Rightarrow> string \<Rightarrow> auth_world \<Rightarrow> (api_error + subject) \<times> (string \<times> string) list \<times> auth_world" where
  "fromToken pt pl rq bearer w =
     (case token_authenticate (pt_sha pt) (token_users_of (aw_users w)) (rq_dbNow rq) bearer (aw_tokens w) of
        None \<Rightarrow> (Inl not_valid, [], w)
      | Some authenticated \<Rightarrow>
          (case enforceTokenRateLimit rq (at_tokenId authenticated) (at_rate authenticated) (aw_redis w) of (refusal, headers, r) \<Rightarrow>
             let w1 = w\<lparr>aw_redis := r\<rparr> in
             case refusal of
               Some e \<Rightarrow> (Inl e, headers, w1)
             | None \<Rightarrow>
                 (case findActiveById (at_userId authenticated) (aw_users w) (aw_consents w) of
                    None \<Rightarrow> (Inl not_valid, headers, w1)
                  | Some user \<Rightarrow>
                      (Inr (subject_of Token None (Some (at_tokenId authenticated)) (at_scopes authenticated) (rq_now rq div 1000) user),
                       headers, w1\<lparr>aw_tokens := token_touch (rq_dbNow rq) (at_tokenId authenticated) (rq_ip rq) (aw_tokens w)\<rparr>))))"

subsection \<open>The consent gate\<close>

definition SAFE_METHODS :: "string list" where
  "SAFE_METHODS = [''GET'', ''HEAD'', ''OPTIONS'']"

definition enforceConsent :: "auth_request \<Rightarrow> legal_document list \<Rightarrow> subject \<Rightarrow> api_error option" where
  "enforceConsent rq documents subject =
     (if documents = [] then None
      else if orelse (rq_consent rq) ''enforced'' \<noteq> ''enforced'' then None
      else let gap = consentGap documents (sj_acceptedEpochs subject); mutating = js_toUpperCase (rq_verb rq) \<notin> set SAFE_METHODS in
        if cg_satisfied gap then None
        else if cg_reason gap = Some Revision_pending \<and> \<not> mutating then None
        else Some (consentRequired (orelse (cg_reason gap) Never_accepted)
               (JArr (map (\<lambda>doc. toWireDocument doc None) (cg_outstanding gap)))))"

subsection \<open>The gate\<close>

text \<open>The credential of a request: an error, no answer at all (an authentic cookie that holds \<open>null\<close>),
  or the credential and whether the cookie brought it.\<close>

datatype resolved = Res_error api_error | Res_throws | Res_none | Res_credential string bool

definition resolve_credential :: "auth_parts \<Rightarrow> auth_plugin \<Rightarrow> auth_request \<Rightarrow> resolved" where
  "resolve_credential pt pl rq =
     (case rq_authorization rq of
        Some h \<Rightarrow> if \<not> starts_with ''Bearer '' h then Res_error no_credential else Res_credential (js_trim (drop 7 h)) False
      | None \<Rightarrow>
          (case pl_cookie pl of
             None \<Rightarrow> Res_none
           | Some (key, name) \<Rightarrow>
               (case readCookie (rq_cookie rq) name of
                  None \<Rightarrow> Res_none
                | Some sealed \<Rightarrow>
                    if rq_session rq = None
                    then Res_error (forbidden (''A cookie session requires the x-pullfm-session header. '' @
                           ''This is the cross-site request forgery control; add the header to your client.''))
                    else (case cc_open (pt_open pt) key sealed (rq_now rq div 1000) of
                            Throws \<Rightarrow> Res_throws
                          | Rejected \<Rightarrow> Res_error no_credential
                          | Opened payload \<Rightarrow> Res_credential (sp_accessToken payload) True))))"

datatype gate_answer = Granted subject | Refusal api_error | Failure

definition consented :: "auth_plugin \<Rightarrow> auth_request \<Rightarrow> subject \<Rightarrow> gate_answer" where
  "consented pl rq subject =
     (case enforceConsent rq (pl_documents pl) subject of Some e \<Rightarrow> Refusal e | None \<Rightarrow> Granted subject)"

definition requireAuth ::
  "auth_parts \<Rightarrow> auth_plugin \<Rightarrow> require_auth \<Rightarrow> auth_request \<Rightarrow> auth_world \<Rightarrow> gate_answer \<times> (string \<times> string) list \<times> auth_world" where
  "requireAuth pt pl opts rq w =
     (if rq_xUserId rq \<noteq> None
      then (Refusal (badRequest (Some ''X-User-Id is not accepted. The subject is derived from the credential.'') None), [], w)
      else if jget ''user_id'' (rq_body rq) \<noteq> None
      then (Refusal (badRequest (Some (''user_id is not accepted in a request body. '' @
              ''The subject is derived from the credential.'')) None), [], w)
      else case resolve_credential pt pl rq of
        Res_error e \<Rightarrow> (Refusal e, [], w)
      | Res_throws \<Rightarrow> (Failure, [], w)
      | Res_none \<Rightarrow> (Refusal no_credential, [], w)
      | Res_credential credential viaCookie \<Rightarrow>
          if credential = [] then (Refusal no_credential, [], w)
          else if viaCookie \<and> starts_with ''pfm_'' credential then (Refusal no_credential, [], w)
          else if starts_with ''pfm_'' credential
          then (if Token \<notin> set (ra_allow opts)
                then (Refusal (forbidden (SESSION_ONLY_DETAIL (ra_reason opts))), [], w)
                else case fromToken pt pl rq credential w of
                  (Inl e, headers, w') \<Rightarrow> (Refusal e, headers, w')
                | (Inr subject, headers, w') \<Rightarrow>
                    (case ra_scope opts of
                       Some scope \<Rightarrow>
                         if scope \<notin> set (sj_scopes subject)
                         then (Refusal (forbidden (''This token does not hold the required scope '' @ CHR 0x22 # scope @ [CHR 0x22, CHR ''.''])),
                               headers, w')
                         else (consented pl rq subject, headers, w')
                     | None \<Rightarrow> (consented pl rq subject, headers, w')))
          else if Session \<notin> set (ra_allow opts) then (Refusal no_credential, [], w)
          else (case fromSession pt pl rq credential w of
                  Inl e \<Rightarrow> (Refusal e, [], w)
                | Inr subject \<Rightarrow> (consented pl rq subject, [], w)))"

subsection \<open>What a grant shows\<close>

lemma consented_granted: "consented pl rq s = Granted s' \<longleftrightarrow> s' = s \<and> enforceConsent rq (pl_documents pl) s = None"
  by (auto simp: consented_def split: option.splits)

lemma from_session_facts:
  assumes "fromSession pt pl rq credential w = Inr s"
  obtains payload u where "pt_verify pt (session_checks pl) (rq_now rq) credential = Some payload"
    "audience_ok (pl_clientId pl) payload" "u \<in> set (aw_users w)" "us_deletedAt u = None"
    "jget ''sub'' payload = Some (JStr (us_workosUserId u))" "sj_userId s = us_id u" "sj_via s = Session"
    "sj_sessionId s = jstring (jget ''sid'' payload)" "sj_acceptedEpochs s = acceptedEpochs (us_id u) (aw_consents w)"
    "\<And>sid. sj_sessionId s = Some sid \<Longrightarrow> isRevoked pl rq sid (aw_redis w) = Inr False"
proof -
  obtain payload where v: "pt_verify pt (session_checks pl) (rq_now rq) credential = Some payload"
    using assms by (auto simp: fromSession_def split: option.splits)
  obtain sub where sub: "jstring (jget ''sub'' payload) = Some sub"
    using assms v by (auto simp: fromSession_def split: option.splits)
  have aud: "audience_ok (pl_clientId pl) payload" "sub \<noteq> []"
    using assms v sub by (auto simp: fromSession_def split: if_splits)
  let ?sid = "jstring (jget ''sid'' payload)"
  have rev: "(case ?sid of None \<Rightarrow> Inr False | Some s \<Rightarrow> isRevoked pl rq s (aw_redis w)) = Inr False"
    using assms v sub aud by (auto simp: fromSession_def Let_def split: sum.splits bool.splits)
  obtain user where user: "findActiveByWorkOsId sub (aw_users w) (aw_consents w) = Some user"
    using assms v sub aud rev by (auto simp: fromSession_def Let_def split: option.splits)
  then obtain u where u: "user = with_epochs (aw_consents w) u" "u \<in> set (aw_users w)" "us_workosUserId u = sub" "us_deletedAt u = None"
    by (auto simp: findActiveByWorkOsId_def find_Some_iff)
  have s: "sj_userId s = us_id u" "sj_via s = Session" "sj_sessionId s = ?sid" "sj_acceptedEpochs s = acceptedEpochs (us_id u) (aw_consents w)"
    using assms v sub aud rev user u(1) by (auto simp: fromSession_def Let_def subject_of_def with_epochs_def)
  have "jget ''sub'' payload = Some (JStr sub)" using sub by (auto simp: jstring_def split: option.splits json.splits)
  then have subj: "jget ''sub'' payload = Some (JStr (us_workosUserId u))" using u(3) by simp
  have "isRevoked pl rq sid (aw_redis w) = Inr False" if "sj_sessionId s = Some sid" for sid
    using rev unfolding s(3) [symmetric] that by simp
  then show thesis using that [OF v aud(1) u(2,4) subj s(1,2,3,4)] by blast
qed

lemma from_token_facts:
  assumes "fromToken pt pl rq credential w = (Inr s, headers, w')"
  obtains a u where "token_authenticate (pt_sha pt) (token_users_of (aw_users w)) (rq_dbNow rq) credential (aw_tokens w) = Some a"
    "rq_limiterFault rq = Reached"
    "wc_count (fst (incrementWindow (rq_now rq) (token_window_key (at_tokenId a) (rq_now rq)) 60 (aw_redis w))) \<le> at_rate a"
    "u \<in> set (aw_users w)" "us_deletedAt u = None" "at_userId a = us_id u" "sj_userId s = us_id u" "sj_via s = Token"
    "sj_sessionId s = None" "sj_scopes s = at_scopes a" "sj_acceptedEpochs s = acceptedEpochs (us_id u) (aw_consents w)"
proof -
  obtain a where a: "token_authenticate (pt_sha pt) (token_users_of (aw_users w)) (rq_dbNow rq) credential (aw_tokens w) = Some a"
    using assms by (auto simp: fromToken_def split: option.splits)
  obtain refusal h r where l: "enforceTokenRateLimit rq (at_tokenId a) (at_rate a) (aw_redis w) = (refusal, h, r)"
    by (cases "enforceTokenRateLimit rq (at_tokenId a) (at_rate a) (aw_redis w)")
  have none: "refusal = None" using assms a l by (auto simp: fromToken_def Let_def split: option.splits)
  obtain user where user: "findActiveById (at_userId a) (aw_users w) (aw_consents w) = Some user"
    using assms a l none by (auto simp: fromToken_def Let_def split: option.splits)
  then obtain u where u: "user = with_epochs (aw_consents w) u" "u \<in> set (aw_users w)" "us_id u = at_userId a" "us_deletedAt u = None"
    by (auto simp: findActiveById_def find_Some_iff)
  have "s = subject_of Token None (Some (at_tokenId a)) (at_scopes a) (rq_now rq div 1000) user"
    using assms a l none user by (simp add: fromToken_def Let_def)
  moreover have "rq_limiterFault rq = Reached"
      "wc_count (fst (incrementWindow (rq_now rq) (token_window_key (at_tokenId a) (rq_now rq)) 60 (aw_redis w))) \<le> at_rate a"
    using l none by (auto simp: enforceTokenRateLimit_def Let_def split: redis_fault.splits if_splits)
  ultimately show thesis using that [OF a] u by (simp add: subject_of_def with_epochs_def)
qed

lemma require_auth_granted:
  assumes "requireAuth pt pl opts rq w = (Granted s, headers, w')"
  obtains (session) credential viaCookie where "resolve_credential pt pl rq = Res_credential credential viaCookie"
      "fromSession pt pl rq credential w = Inr s" "Session \<in> set (ra_allow opts)" "rq_xUserId rq = None"
      "jget ''user_id'' (rq_body rq) = None" "enforceConsent rq (pl_documents pl) s = None" "\<not> starts_with ''pfm_'' credential"
    | (token) credential headers' w1 where "resolve_credential pt pl rq = Res_credential credential False"
      "fromToken pt pl rq credential w = (Inr s, headers', w1)" "Token \<in> set (ra_allow opts)" "rq_xUserId rq = None"
      "jget ''user_id'' (rq_body rq) = None" "enforceConsent rq (pl_documents pl) s = None"
      "\<And>scope. ra_scope opts = Some scope \<Longrightarrow> scope \<in> set (sj_scopes s)"
proof -
  have no_id: "rq_xUserId rq = None" "jget ''user_id'' (rq_body rq) = None"
    using assms by (auto simp: requireAuth_def split: if_splits)
  obtain c via where c: "resolve_credential pt pl rq = Res_credential c via" "c \<noteq> []" "\<not> (via \<and> starts_with ''pfm_'' c)"
    using assms no_id by (auto simp: requireAuth_def split: resolved.splits if_splits)
  show thesis
  proof (cases "starts_with ''pfm_'' c")
    case True
    then have via: "\<not> via" using c(3) by simp
    have allow: "Token \<in> set (ra_allow opts)" using assms no_id c True via by (auto simp: requireAuth_def split: if_splits)
    obtain answer h w1 where f: "fromToken pt pl rq c w = (answer, h, w1)" by (cases "fromToken pt pl rq c w")
    show thesis
    proof (cases answer)
      case (Inl e)
      with assms no_id c True via allow f show thesis by (simp add: requireAuth_def)
    next
      case (Inr s1)
      have s: "s1 = s" "enforceConsent rq (pl_documents pl) s = None"
        and scope: "ra_scope opts = Some sc \<Longrightarrow> sc \<in> set (sj_scopes s)" for sc
        using assms no_id c True via allow f Inr by (auto simp: requireAuth_def consented_granted split: option.splits if_splits)
      show thesis by (rule token) (use c(1) via f Inr s scope allow no_id in simp_all)
    qed
  next
    case False
    have allow: "Session \<in> set (ra_allow opts)" using assms no_id c False by (auto simp: requireAuth_def split: if_splits)
    obtain s1 where f: "fromSession pt pl rq c w = Inr s1" "s1 = s" "enforceConsent rq (pl_documents pl) s = None"
      using assms no_id c False allow by (auto simp: requireAuth_def consented_granted split: sum.splits)
    show thesis by (rule session [OF c(1)]) (use f allow no_id False in simp_all)
  qed
qed

subsection \<open>Properties\<close>

text \<open>Claim C25. No request runs for a subject without its consent. Where a route is not exempt, a
  granted request has on record, for every document of the build, an acceptance by that very
  subject, and when its method can change state each of those acceptances is of the epoch in
  force or a later one: a subject who never accepted gets nothing, one with a revision pending
  gets reads only.\<close>

theorem no_grant_without_consent:
  assumes "requireAuth pt pl opts rq w = (Granted s, headers, w')"
    and "rq_consent rq \<in> {None, Some ''enforced''}" "doc \<in> set (pl_documents pl)"
  shows "\<exists>c \<in> set (aw_consents w). cn_userId c = sj_userId s \<and> cn_documentId c = ld_id doc \<and>
    (js_toUpperCase (rq_verb rq) \<in> set SAFE_METHODS \<or> ld_consentEpoch doc \<le> cn_epoch c)"
proof -
  have gate: "enforceConsent rq (pl_documents pl) s = None" and epochs: "sj_acceptedEpochs s = acceptedEpochs (sj_userId s) (aw_consents w)"
    by (cases rule: require_auth_granted [OF assms(1)]; metis from_session_facts from_token_facts)+
  let ?acc = "acceptedEpochs (sj_userId s) (aw_consents w)"
  have enforced: "orelse (rq_consent rq) ''enforced'' = ''enforced''" "pl_documents pl \<noteq> []" using assms(2,3) by (auto simp: orelse_def)
  have "cg_satisfied (consentGap (pl_documents pl) ?acc) \<or>
      cg_reason (consentGap (pl_documents pl) ?acc) = Some Revision_pending \<and> js_toUpperCase (rq_verb rq) \<in> set SAFE_METHODS"
    using gate enforced by (auto simp: enforceConsent_def epochs Let_def split: if_splits)
  then show ?thesis
  proof (elim disjE conjE)
    assume "cg_satisfied (consentGap (pl_documents pl) ?acc)"
    then have "\<not> owes ?acc doc" using assms(3) by (simp add: gap_satisfied)
    then show ?thesis by (auto simp: owes_accepted satisfies_def)
  next
    assume pending: "cg_reason (consentGap (pl_documents pl) ?acc) = Some Revision_pending" and safe: "js_toUpperCase (rq_verb rq) \<in> set SAFE_METHODS"
    from pending assms(3) obtain e where "map_of ?acc (ld_id doc) = Some e" by (auto simp: gap_pending)
    then have "\<exists>c \<in> set (filter (\<lambda>c. cn_userId c = sj_userId s) (aw_consents w)). cn_documentId c = ld_id doc \<and> e \<le> cn_epoch c"
      using max_epochs_above [where cs = "filter (\<lambda>c. cn_userId c = sj_userId s) (aw_consents w)" and i = "ld_id doc" and e = e]
      by (simp add: acceptedEpochs_def)
    with safe show ?thesis by auto
  qed
qed

text \<open>Claim C24. What a granted request has shown: no identity of its own choosing, a live account, and
  one of two credentials that cannot stand for each other. Either a signed token whose subject
  is that account, meant for this application, of a session that is not on the deny list, on a
  route that takes sessions; a cookie brought it only with the header a foreign page cannot
  send and with no Authorization header present. Or a personal token that is live, within its
  budget for the minute and holds the scope of the route, on a route that takes tokens, and
  that never came in a cookie.
  A gate that is not set to fail closed takes a session for good while the deny list cannot be read.\<close>

theorem gate_sound:
  assumes "requireAuth pt pl opts rq w = (Granted s, headers, w')"
  shows "rq_xUserId rq = None \<and> jget ''user_id'' (rq_body rq) = None \<and>
    (\<exists>credential viaCookie u. resolve_credential pt pl rq = Res_credential credential viaCookie \<and>
      (viaCookie \<longrightarrow> rq_authorization rq = None \<and> rq_session rq \<noteq> None) \<and>
      u \<in> set (aw_users w) \<and> us_deletedAt u = None \<and> sj_userId s = us_id u \<and>
      (if sj_via s = Session
       then Session \<in> set (ra_allow opts) \<and> \<not> starts_with ''pfm_'' credential \<and>
         (\<exists>payload. pt_verify pt (session_checks pl) (rq_now rq) credential = Some payload \<and> audience_ok (pl_clientId pl) payload \<and>
            jget ''sub'' payload = Some (JStr (us_workosUserId u)) \<and>
            (\<forall>sid. jget ''sid'' payload = Some (JStr sid) \<longrightarrow> isRevoked pl rq sid (aw_redis w) = Inr False))
       else Token \<in> set (ra_allow opts) \<and> \<not> viaCookie \<and>
         (\<exists>a. token_authenticate (pt_sha pt) (token_users_of (aw_users w)) (rq_dbNow rq) credential (aw_tokens w) = Some a \<and>
            at_userId a = us_id u \<and> (\<forall>scope. ra_scope opts = Some scope \<longrightarrow> scope \<in> set (at_scopes a)) \<and>
            wc_count (fst (incrementWindow (rq_now rq) (token_window_key (at_tokenId a) (rq_now rq)) 60 (aw_redis w))) \<le> at_rate a)))"
  using assms
proof (cases rule: require_auth_granted)
  case (session credential viaCookie)
  have cookie: "viaCookie \<longrightarrow> rq_authorization rq = None \<and> rq_session rq \<noteq> None"
    using session(1) by (auto simp: resolve_credential_def split: option.splits if_splits opened.splits)
  from session(2) obtain payload u where f: "pt_verify pt (session_checks pl) (rq_now rq) credential = Some payload"
    "audience_ok (pl_clientId pl) payload" "u \<in> set (aw_users w)" "us_deletedAt u = None"
    "jget ''sub'' payload = Some (JStr (us_workosUserId u))" "sj_userId s = us_id u" "sj_via s = Session"
    "sj_sessionId s = jstring (jget ''sid'' payload)"
    "\<And>sid. sj_sessionId s = Some sid \<Longrightarrow> isRevoked pl rq sid (aw_redis w) = Inr False"
    by (rule from_session_facts) blast
  have "\<forall>sid. jget ''sid'' payload = Some (JStr sid) \<longrightarrow> isRevoked pl rq sid (aw_redis w) = Inr False"
    using f(8,9) by (simp add: jstring_def)
  with f session cookie show ?thesis by (simp, blast)
next
  case (token credential headers' w1)
  from token(2) obtain a u where f:
    "token_authenticate (pt_sha pt) (token_users_of (aw_users w)) (rq_dbNow rq) credential (aw_tokens w) = Some a"
    "wc_count (fst (incrementWindow (rq_now rq) (token_window_key (at_tokenId a) (rq_now rq)) 60 (aw_redis w))) \<le> at_rate a"
    "u \<in> set (aw_users w)" "us_deletedAt u = None" "at_userId a = us_id u" "sj_userId s = us_id u" "sj_via s = Token"
    "sj_scopes s = at_scopes a"
    by (rule from_token_facts) blast
  have "\<forall>scope. ra_scope opts = Some scope \<longrightarrow> scope \<in> set (at_scopes a)" using token(7) f(8) by simp
  with f token show ?thesis by (simp, blast)
qed

subsection \<open>Signing out\<close>

text \<open>The lifetimes of the tokens of a session: the verifier accepts none after its expiry and the
  tolerance, and each expires early enough for an entry of an hour.\<close>

definition tokens_end_by :: "jwt_verify \<Rightarrow> jwt_checks \<Rightarrow> string \<Rightarrow> int \<Rightarrow> bool" where
  "tokens_end_by verify checks sid end \<longleftrightarrow>
     (\<forall>now bearer payload. verify checks now bearer = Some payload \<and> jget ''sid'' payload = Some (JStr sid) \<longrightarrow>
        (\<exists>e. jget ''exp'' payload = Some (JNum e) \<and> now < 1000 * (e + jc_clockTolerance checks) \<and> e + jc_clockTolerance checks \<le> end))"

lemma revoked_entry:
  assumes "now < 1000 * expiresAt"
  shows "rd_exists now (revokedSessionKey sid) (revokeSessionLocally t0 sid expiresAt r)"
proof -
  have "1000 * expiresAt \<le> t0 + 1000 * max 1 (- ((t0 - 1000 * expiresAt) div 1000))"
    by (simp add: max_def) linarith
  then show ?thesis using assms
    by (simp add: rd_exists_def rd_entry_def revokeSessionLocally_def rd_set_ex_def update_conv rd_alive_def)
qed

text \<open>Claim C26. A session that was signed out stays out: from then on no request is granted under its
  session id, with whatever token the verifier accepts and in whatever state the other tables
  are, as long as the entry is only read. It rests on the tokens of the session ending, with
  the tolerance of the clock, within the hour the entry lives.\<close>

theorem logged_out_stays_out:
  assumes "tokens_end_by (pt_verify pt) (session_checks pl) sid (t0 div 1000 + 3600)"
    and "map_of (aw_redis w) (revokedSessionKey sid) =
      map_of (revokeSessionLocally t0 sid (t0 div 1000 + 3600) r) (revokedSessionKey sid)"
    and "rq_storeReachable rq \<or> pl_failClosed pl"
    and "requireAuth pt pl opts rq w = (Granted s, headers, w')"
  shows "sj_sessionId s \<noteq> Some sid"
  using assms(4)
proof (cases rule: require_auth_granted)
  case (session credential viaCookie)
  show ?thesis
  proof
    assume sid: "sj_sessionId s = Some sid"
    from session(2) obtain payload where p: "pt_verify pt (session_checks pl) (rq_now rq) credential = Some payload"
        "sj_sessionId s = jstring (jget ''sid'' payload)" "isRevoked pl rq sid (aw_redis w) = Inr False"
      by (rule from_session_facts) (use sid in blast)
    have "jget ''sid'' payload = Some (JStr sid)" using p(2) sid by (auto simp: jstring_def split: option.splits json.splits)
    with assms(1) p(1) have "rq_now rq < 1000 * (t0 div 1000 + 3600)" unfolding tokens_end_by_def by fastforce
    then have "rd_exists (rq_now rq) (revokedSessionKey sid) (revokeSessionLocally t0 sid (t0 div 1000 + 3600) r)" by (rule revoked_entry)
    then have "rd_exists (rq_now rq) (revokedSessionKey sid) (aw_redis w)"
      by (simp add: rd_exists_def rd_entry_def assms(2))
    with p(3) assms(3) show False by (auto simp: isRevoked_def split: if_splits)
  qed
next
  case (token credential headers' w1)
  from token(2) have "sj_sessionId s = None" by (rule from_token_facts) blast
  then show ?thesis by simp
qed

text \<open>A personal token that is unknown, expired, revoked or of a deleted account is answered
  in one way: two requests that differ only in such tokens get the same answer, the same
  headers and leave the same state, so nothing tells a guess that was once real from one that
  never was.\<close>

theorem dead_tokens_alike:
  assumes "token_authenticate (pt_sha pt) (token_users_of (aw_users w)) (rq_dbNow rq) token1 (aw_tokens w) = None"
    and "token_authenticate (pt_sha pt) (token_users_of (aw_users w)) (rq_dbNow rq) token2 (aw_tokens w) = None"
    and "starts_with ''pfm_'' token1" "starts_with ''pfm_'' token2" "js_trim token1 = token1" "js_trim token2 = token2"
  shows "requireAuth pt pl opts (rq\<lparr>rq_authorization := Some (''Bearer '' @ token1)\<rparr>) w =
         requireAuth pt pl opts (rq\<lparr>rq_authorization := Some (''Bearer '' @ token2)\<rparr>) w"
proof -
  have "requireAuth pt pl opts (rq\<lparr>rq_authorization := Some (''Bearer '' @ t)\<rparr>) w =
      (if rq_xUserId rq \<noteq> None
       then (Refusal (badRequest (Some ''X-User-Id is not accepted. The subject is derived from the credential.'') None), [], w)
       else if jget ''user_id'' (rq_body rq) \<noteq> None
       then (Refusal (badRequest (Some (''user_id is not accepted in a request body. '' @
               ''The subject is derived from the credential.'')) None), [], w)
       else if Token \<notin> set (ra_allow opts) then (Refusal (forbidden (SESSION_ONLY_DETAIL (ra_reason opts))), [], w)
       else (Refusal not_valid, [], w))"
    if "token_authenticate (pt_sha pt) (token_users_of (aw_users w)) (rq_dbNow rq) t (aw_tokens w) = None"
      "starts_with ''pfm_'' t" "js_trim t = t" for t
  proof -
    have "t \<noteq> []" using that(2) by (auto simp: starts_with_def)
    moreover have "resolve_credential pt pl (rq\<lparr>rq_authorization := Some (''Bearer '' @ t)\<rparr>) = Res_credential t False"
      using that(3) by (simp add: resolve_credential_def starts_with_def)
    ultimately show ?thesis using that(1,2) by (simp add: requireAuth_def fromToken_def del: append.simps)
  qed
  from this [OF assms(1,3,5)] this [OF assms(2,4,6)] show ?thesis by simp
qed

subsection \<open>Witnesses\<close>

definition demo_user :: user_row where
  "demo_user = \<lparr>us_id = ''u1'', us_workosUserId = ''w1'', us_email = None, us_displayName = None, us_createdAt = 0,
     us_deletedAt = None, us_authMethod = ''magic_auth'', us_emailVerifiedAt = None, us_lastAuthenticatedAt = None\<rparr>"

definition demo_verify :: jwt_verify where
  "demo_verify checks now bearer =
     (if bearer = ''jwt'' \<and> now < 1000 * (300 + jc_clockTolerance checks)
      then Some (JObj [(''sub'', JStr ''w1''), (''sid'', JStr ''s1''), (''exp'', JNum 300), (''iat'', JNum 1)]) else None)"

definition demo_parts :: auth_parts where
  "demo_parts = \<lparr>pt_verify = demo_verify, pt_sha = Legal_Consent.demo_sha, pt_open = (\<lambda>_ _ _ _ _. None)\<rparr>"

definition demo_plugin :: auth_plugin where
  "demo_plugin = \<lparr>pl_clientId = ''c'', pl_workosApiBaseUrl = ''https://api.workos.com/'', pl_failClosed = True, pl_cookie = None,
     pl_documents = [demo_doc]\<rparr>"

definition demo_request :: "time \<Rightarrow> string \<Rightarrow> auth_request" where
  "demo_request now bearer = \<lparr>rq_now = now, rq_dbNow = now, rq_verb = ''POST'', rq_xUserId = None, rq_body = JNull,
     rq_authorization = Some (''Bearer '' @ bearer), rq_cookie = None, rq_session = None, rq_ip = None, rq_consent = None,
     rq_storeReachable = True, rq_limiterFault = Reached\<rparr>"

definition demo_world :: "redis \<Rightarrow> auth_world" where
  "demo_world r = \<lparr>aw_redis = r, aw_tokens = [], aw_users = [demo_user], aw_consents = [demo_row]\<rparr>"

definition demo_subject :: "string \<Rightarrow> subject" where
  "demo_subject sid = \<lparr>sj_userId = ''u1'', sj_workosUserId = ''w1'', sj_email = None, sj_displayName = None, sj_via = Session,
     sj_sessionId = Some sid, sj_tokenId = None, sj_scopes = [''*''], sj_authenticatedAt = 1, sj_acceptedEpochs = [(''terms'', 1)]\<rparr>"

lemma demo_granted:
  "requireAuth demo_parts demo_plugin default_auth (demo_request 5000 ''jwt'') (demo_world []) = (Granted (demo_subject ''s1''), [], demo_world [])"
  by code_simp

theorem no_grant_without_consent_witness:
  "\<exists>c \<in> set (aw_consents (demo_world [])). cn_userId c = ''u1'' \<and> cn_documentId c = ''terms'' \<and> 1 \<le> cn_epoch c"
proof -
  have doc: "demo_doc \<in> set (pl_documents demo_plugin)" "ld_id demo_doc = ''terms''" "ld_consentEpoch demo_doc = 1"
    by (simp_all add: demo_plugin_def demo_doc_def)
  have "js_toUpperCase (rq_verb (demo_request 5000 ''jwt'')) \<notin> set SAFE_METHODS" by code_simp
  then show ?thesis
    using no_grant_without_consent [OF demo_granted _ doc(1)] doc
    by (simp add: demo_request_def demo_subject_def)
qed

theorem gate_sound_witness:
  "\<exists>u. u \<in> set (aw_users (demo_world [])) \<and> us_deletedAt u = None \<and> us_id u = ''u1''"
  using gate_sound [OF demo_granted] by (auto simp: demo_subject_def)

lemma demo_ends: "tokens_end_by (pt_verify demo_parts) (session_checks demo_plugin) ''s1'' (5000 div 1000 + 3600)"
  by (auto simp: tokens_end_by_def demo_parts_def demo_verify_def session_checks_def jget_def split: if_splits)

theorem logged_out_stays_out_witness:
  "fst (requireAuth demo_parts demo_plugin default_auth (demo_request 9000 ''jwt'')
     (demo_world (revokeSessionLocally 5000 ''s1'' (5000 div 1000 + 3600) []))) \<noteq> Granted (demo_subject ''s1'')"
proof
  let ?w = "demo_world (revokeSessionLocally 5000 ''s1'' (5000 div 1000 + 3600) [])"
  assume "fst (requireAuth demo_parts demo_plugin default_auth (demo_request 9000 ''jwt'') ?w) = Granted (demo_subject ''s1'')"
  then obtain headers w' where g: "requireAuth demo_parts demo_plugin default_auth (demo_request 9000 ''jwt'') ?w =
      (Granted (demo_subject ''s1''), headers, w')"
    by (metis prod.collapse)
  have "sj_sessionId (demo_subject ''s1'') \<noteq> Some ''s1''"
    by (rule logged_out_stays_out [OF demo_ends _ _ g, of "[]"]) (simp_all add: demo_world_def demo_request_def)
  then show False by (simp add: demo_subject_def)
qed

theorem dead_tokens_alike_witness:
  "requireAuth demo_parts demo_plugin default_auth ((demo_request 1 [])\<lparr>rq_authorization := Some (''Bearer '' @ ''pfm_live_x'')\<rparr>) (demo_world []) =
   requireAuth demo_parts demo_plugin default_auth ((demo_request 1 [])\<lparr>rq_authorization := Some (''Bearer '' @ ''pfm_test_y'')\<rparr>) (demo_world [])"
proof -
  have "js_trim ''pfm_live_x'' = ''pfm_live_x''" "js_trim ''pfm_test_y'' = ''pfm_test_y''" by code_simp+
  then show ?thesis
    by (intro dead_tokens_alike) (simp_all add: token_authenticate_def demo_world_def token_pattern_def starts_with_def)
qed

end
