(* ===== verification/Account_Deletion.thy ===== *)
theory Account_Deletion
  imports Auth_Gate
begin

text \<open>
  Erasing an account: \<^verbatim>\<open>apps/bff/src/services/deletion.ts\<close> with the ledger outside the database,
  \<^verbatim>\<open>apps/bff/src/services/erasure-ledger.ts\<close>, and \<open>deleteByPrefix\<close> of \<^verbatim>\<open>apps/bff/src/lib/redis.ts\<close>.
  Every await of the deletion may fail; its faults are an argument. The rows of the owned tables
  that other theories do not describe are pairs of a table and the id of their user.
\<close>

subsection \<open>The ledger\<close>

type_synonym ledger_objects = "(string \<times> json) list"

datatype durability = Inline | Already_present | Deferred_to_reconciler

datatype ledger = Unconfigured_ledger | R2_ledger string

text \<open>A call of the object store may fail, and a write may have taken effect before it did.\<close>

datatype ledger_fault = Ledger_fine | Exists_fails | Put_fails | Put_reply_lost

definition keyFor :: "string \<Rightarrow> string \<Rightarrow> string" where
  "keyFor prefix userId = prefix @ ''/'' @ userId @ ''.json''"

definition ledger_body :: "(time \<Rightarrow> string) \<Rightarrow> string \<Rightarrow> time \<Rightarrow> json" where
  "ledger_body iso_text userId requestedAt =
     JObj [(''completed_at'', JNull), (''deleted_user_id'', JStr userId),
           (''note'', JStr (''Authoritative erasure record. Survives a Postgres restore because it is not in Postgres. '' @
                            ''Re-delete this id before a restored system serves traffic.'')),
           (''requested_at'', JStr (iso_text requestedAt)), (''written_by'', JStr ''bff-inline'')]"

text \<open>\<open>None\<close> is a call that throws.\<close>

definition ledger_record ::
  "(time \<Rightarrow> string) \<Rightarrow> ledger \<Rightarrow> ledger_fault \<Rightarrow> string \<Rightarrow> time \<Rightarrow> ledger_objects \<Rightarrow> durability option \<times> ledger_objects" where
  "ledger_record iso_text ledger fault userId requestedAt objects =
     (case ledger of
        Unconfigured_ledger \<Rightarrow> (Some Deferred_to_reconciler, objects)
      | R2_ledger prefix \<Rightarrow>
          let key = keyFor prefix userId in
          if fault = Exists_fails then (None, objects)
          else if map_of objects key \<noteq> None then (Some Already_present, objects)
          else (case fault of
                  Put_fails \<Rightarrow> (None, objects)
                | Put_reply_lost \<Rightarrow> (None, AList.update key (ledger_body iso_text userId requestedAt) objects)
                | _ \<Rightarrow> (Some Inline, AList.update key (ledger_body iso_text userId requestedAt) objects)))"

subsection \<open>Keys under a prefix\<close>

text \<open>The pages the scan returns, and the page at which a command fails, if any does.\<close>

record scan =
  sc_pages :: "string list list"
  sc_failsAt :: "nat option"

fun delete_pages :: "string list list \<Rightarrow> redis \<Rightarrow> int \<times> redis" where
  "delete_pages [] r = (0, r)"
| "delete_pages (keys # pages) r =
     (let hit = length (filter (\<lambda>k. k \<in> fst ` set r) (remdups keys));
          r1 = filter (\<lambda>e. fst e \<notin> set keys) r
      in case delete_pages pages r1 of (n, r2) \<Rightarrow> (int hit + n, r2))"

definition deleteByPrefix :: "scan \<Rightarrow> string \<Rightarrow> redis \<Rightarrow> int option \<times> redis" where
  "deleteByPrefix sc prefix r =
     (let pages = map (filter (starts_with prefix)) (sc_pages sc) in
      case sc_failsAt sc of
        None \<Rightarrow> (case delete_pages pages r of (n, r') \<Rightarrow> (Some n, r'))
      | Some k \<Rightarrow> (None, snd (delete_pages (take k pages) r)))"

subsection \<open>The database\<close>

definition OWNED_TABLES :: "string list" where
  "OWNED_TABLES =
     [''user_connections'', ''wishlist_items'', ''idempotency_keys'', ''api_tokens'', ''connect_states'', ''legal_consents'']"

record deletion_entry =
  de_id :: string
  de_userId :: string
  de_requestedAt :: time
  de_completedAt :: "time option"
  de_rowsDeleted :: "(string \<times> int) list"
  de_workosDeleted :: bool
  de_consents :: "consent_record list"
  de_notes :: string

record erasure_world =
  ew_users :: "user_row list"
  ew_consents :: "consent_row list"
  ew_tokens :: "token_row list"
  ew_rows :: "(string \<times> string) list"
  ew_log :: "deletion_entry list"
  ew_objects :: ledger_objects
  ew_cache :: redis
  ew_quota :: redis

definition owned_count :: "string \<Rightarrow> string \<Rightarrow> erasure_world \<Rightarrow> nat" where
  "owned_count table userId w =
     (if table = ''legal_consents'' then length (filter (\<lambda>c. cn_userId c = userId) (ew_consents w))
      else if table = ''api_tokens'' then length (filter (\<lambda>t. tk_userId t = userId) (ew_tokens w))
      else length (filter (\<lambda>r. r = (table, userId)) (ew_rows w)))"

text \<open>The deletion of the row of the user, which its references follow.\<close>

definition cascade :: "string \<Rightarrow> erasure_world \<Rightarrow> erasure_world" where
  "cascade userId w =
     (if userId \<in> us_id ` set (ew_users w)
      then w\<lparr>ew_users := filter (\<lambda>u. us_id u \<noteq> userId) (ew_users w),
             ew_consents := filter (\<lambda>c. cn_userId c \<noteq> userId) (ew_consents w),
             ew_tokens := filter (\<lambda>t. tk_userId t \<noteq> userId) (ew_tokens w),
             ew_rows := filter (\<lambda>r. snd r \<noteq> userId) (ew_rows w)\<rparr>
      else w)"

definition erase_rows :: "string \<Rightarrow> erasure_world \<Rightarrow> (string \<times> int) list \<times> erasure_world" where
  "erase_rows userId w =
     (map (\<lambda>table. (table, int (owned_count table userId w))) OWNED_TABLES @
        [(''users'', int (length (filter (\<lambda>u. us_id u = userId) (ew_users w))))],
      cascade userId w)"

definition set_note :: "string \<Rightarrow> string \<Rightarrow> deletion_entry list \<Rightarrow> deletion_entry list" where
  "set_note i note entries = map (\<lambda>d. if de_id d = i then d\<lparr>de_notes := note\<rparr> else d) entries"

subsection \<open>The deletion\<close>

record deletion_faults =
  df_logFails :: bool
  df_ledger :: ledger_fault
  df_noteFails :: bool
  df_receiptFails :: bool
  df_transactionFails :: bool
  df_cacheScan :: scan
  df_quotaScan :: scan
  df_finalFails :: bool

record deletion_outcome =
  do_userId :: string
  do_rowsDeleted :: "(string \<times> int) list"
  do_workosDeleted :: bool
  do_redisKeysDeleted :: int
  do_durability :: durability

definition ledgerUnavailable :: api_error where
  "ledgerUnavailable = api_error_new 503 ''erasure-not-durable'' ''Service Unavailable''
     (Some (''The erasure record could not be written to durable storage, so the account has NOT been deleted. '' @
            ''Nothing was changed. Please retry.'')) None None"

definition deletion_notes :: "bool \<Rightarrow> durability \<Rightarrow> string" where
  "deletion_notes workosDeleted durability =
     js_join '' ''
       ((if workosDeleted then [] else [''WorkOS identity deletion failed or was skipped; retry required.'']) @
        [case durability of
           Deferred_to_reconciler \<Rightarrow>
             ''No out-of-band erasure ledger is configured on this deployment; durability across a restore is bounded by '' @
             ''the ledger exporter's interval.''
         | Inline \<Rightarrow> ''Erasure ledger written before deletion (inline).''
         | Already_present \<Rightarrow> ''Erasure ledger written before deletion (already-present).''])"

text \<open>What a deletion draws from outside: the clocks, the id of its log entry and the text of a date.\<close>

record deletion_call =
  dc_now :: time
  dc_endNow :: time
  dc_logId :: string
  dc_faults :: deletion_faults

text \<open>The answer, the calls of the identity provider, and the world after.\<close>

definition deleteAccount ::
  "(time \<Rightarrow> string) \<Rightarrow> ledger \<Rightarrow> workos_client \<Rightarrow> workos_fetch \<Rightarrow> deletion_call \<Rightarrow> string \<Rightarrow> string \<Rightarrow> erasure_world \<Rightarrow>
     (token_failure + deletion_outcome) \<times> http_call list \<times> erasure_world" where
  "deleteAccount iso_text ledger wo fetch dc userId workosUserId w =
     (let f = dc_faults dc in
      if df_logFails f then (Inl Unexpected, [], w)
      else
        let w1 = w\<lparr>ew_log := ew_log w @ [\<lparr>de_id = dc_logId dc, de_userId = userId, de_requestedAt = dc_now dc,
                   de_completedAt = None, de_rowsDeleted = [], de_workosDeleted = False, de_consents = [], de_notes = []\<rparr>]\<rparr>
        in case ledger_record iso_text ledger (df_ledger f) userId (dc_now dc) (ew_objects w1) of
          (None, objects) \<Rightarrow>
            (Inl (Refused ledgerUnavailable), [],
             w1\<lparr>ew_objects := objects,
                ew_log := (if df_noteFails f then ew_log w1
                           else set_note (dc_logId dc)
                             (''ABORTED: the out-of-band erasure ledger was unwritable, so no data was deleted. Retry required.'')
                             (ew_log w1))\<rparr>)
        | (Some durability, objects) \<Rightarrow>
            let w2 = w1\<lparr>ew_objects := objects\<rparr>;
                consents = (if df_receiptFails f then [] else map (consent_record_of iso_text) (receiptFor userId (ew_consents w2)))
            in if df_transactionFails f then (Inl Unexpected, [], w2)
               else case erase_rows userId w2 of (rowsDeleted, w3) \<Rightarrow>
                 let workosDeleted = (case deleteUser wo fetch workosUserId of Inr b \<Rightarrow> b | Inl _ \<Rightarrow> False);
                     calls = [wo_call wo (user_path workosUserId) ''DELETE'' True None];
                     (n1, cache) = deleteByPrefix (df_cacheScan f) (''u:'' @ userId @ '':'') (ew_cache w3);
                     (n2, quota) = deleteByPrefix (df_quotaScan f) (''quota:user:'' @ userId @ '':'') (ew_quota w3);
                     redisKeys = orelse n1 0 + orelse n2 0;
                     w4 = w3\<lparr>ew_cache := cache, ew_quota := quota\<rparr>
                 in if df_finalFails f then (Inl Unexpected, calls, w4)
                    else (Inr \<lparr>do_userId = userId, do_rowsDeleted = rowsDeleted, do_workosDeleted = workosDeleted,
                               do_redisKeysDeleted = redisKeys, do_durability = durability\<rparr>,
                          calls,
                          w4\<lparr>ew_log := map (\<lambda>d. if de_id d = dc_logId dc
                               then d\<lparr>de_completedAt := Some (dc_endNow dc), de_rowsDeleted := rowsDeleted @ [(''redisKeys'', redisKeys)],
                                      de_workosDeleted := workosDeleted, de_consents := consents,
                                      de_notes := deletion_notes workosDeleted durability\<rparr>
                               else d) (ew_log w4)\<rparr>))"

text \<open>The deletion the identity provider asks for: \<open>Inr None\<close> without such a user.\<close>

definition deleteByWorkOsId ::
  "(time \<Rightarrow> string) \<Rightarrow> ledger \<Rightarrow> workos_client \<Rightarrow> workos_fetch \<Rightarrow> deletion_call \<Rightarrow> string \<Rightarrow> erasure_world \<Rightarrow>
     (token_failure + deletion_outcome option) \<times> http_call list \<times> erasure_world" where
  "deleteByWorkOsId iso_text ledger wo fetch dc workosUserId w =
     (case List.find (\<lambda>u. us_workosUserId u = workosUserId) (ew_users w) of
        None \<Rightarrow> (Inr None, [], w)
      | Some u \<Rightarrow>
          (case deleteAccount iso_text ledger wo fetch dc (us_id u) workosUserId w of
             (Inl e, calls, w') \<Rightarrow> (Inl e, calls, w')
           | (Inr outcome, calls, w') \<Rightarrow> (Inr (Some (outcome\<lparr>do_workosDeleted := True\<rparr>)), calls, w')))"

subsection \<open>The two ends of a deletion\<close>

definition same_data :: "erasure_world \<Rightarrow> erasure_world \<Rightarrow> bool" where
  "same_data w w' \<longleftrightarrow> ew_users w' = ew_users w \<and> ew_consents w' = ew_consents w \<and> ew_tokens w' = ew_tokens w \<and>
     ew_rows w' = ew_rows w \<and> ew_cache w' = ew_cache w \<and> ew_quota w' = ew_quota w"

lemma same_data_refl [simp]: "same_data w w"
  by (simp add: same_data_def)

definition same_tables :: "erasure_world \<Rightarrow> erasure_world \<Rightarrow> bool" where
  "same_tables w w' \<longleftrightarrow> ew_users w' = ew_users w \<and> ew_consents w' = ew_consents w \<and> ew_tokens w' = ew_tokens w \<and> ew_rows w' = ew_rows w"

lemma cascade_fields [simp]:
  "ew_log (cascade u w) = ew_log w" "ew_objects (cascade u w) = ew_objects w"
  "ew_cache (cascade u w) = ew_cache w" "ew_quota (cascade u w) = ew_quota w"
  by (simp_all add: cascade_def)

lemma cascade_tables: "same_tables w v \<Longrightarrow> same_tables (cascade u w) (cascade u v)"
  by (simp add: cascade_def same_tables_def)

lemma owned_count_tables: "same_tables w v \<Longrightarrow> owned_count t u v = owned_count t u w"
  by (simp add: owned_count_def same_tables_def)

lemma erase_rows_tables: "same_tables w v \<Longrightarrow> fst (erase_rows u v) = fst (erase_rows u w)"
  by (simp add: erase_rows_def owned_count_tables) (simp add: same_tables_def)

lemma deleteAccount_cases:
  assumes "deleteAccount iso_text ledger wo fetch dc userId workosUserId w = (answer, calls, w')"
  obtains (kept) e objects where "answer = Inl e" "calls = []" "same_data w w'" "ew_objects w' = objects"
      "objects = ew_objects w \<or> objects = snd (ledger_record iso_text ledger (df_ledger (dc_faults dc)) userId (dc_now dc) (ew_objects w))"
    | (erased) durability objects where
      "ledger_record iso_text ledger (df_ledger (dc_faults dc)) userId (dc_now dc) (ew_objects w) = (Some durability, objects)"
      "ew_objects w' = objects" "calls = [wo_call wo (user_path workosUserId) ''DELETE'' True None]"
      "same_tables (cascade userId w) w'"
      "ew_cache w' = snd (deleteByPrefix (df_cacheScan (dc_faults dc)) (''u:'' @ userId @ '':'') (ew_cache w))"
      "ew_quota w' = snd (deleteByPrefix (df_quotaScan (dc_faults dc)) (''quota:user:'' @ userId @ '':'') (ew_quota w))"
      "\<And>outcome. answer = Inr outcome \<Longrightarrow> do_rowsDeleted outcome = fst (erase_rows userId w) \<and> do_durability outcome = durability \<and>
         do_redisKeysDeleted outcome =
           orelse (fst (deleteByPrefix (df_cacheScan (dc_faults dc)) (''u:'' @ userId @ '':'') (ew_cache w))) 0 +
           orelse (fst (deleteByPrefix (df_quotaScan (dc_faults dc)) (''quota:user:'' @ userId @ '':'') (ew_quota w))) 0 \<and>
         (\<exists>d \<in> set (ew_log w'). de_userId d = userId \<and> de_completedAt d = Some (dc_endNow dc) \<and>
            de_consents d = (if df_receiptFails (dc_faults dc) then [] else map (consent_record_of iso_text) (receiptFor userId (ew_consents w))))"
proof (cases "df_logFails (dc_faults dc)")
  case True
  with assms show thesis by (intro kept [of Unexpected "ew_objects w"]) (auto simp: deleteAccount_def)
next
  case log: False
  obtain d objects where l: "ledger_record iso_text ledger (df_ledger (dc_faults dc)) userId (dc_now dc) (ew_objects w) = (d, objects)"
    by (cases "ledger_record iso_text ledger (df_ledger (dc_faults dc)) userId (dc_now dc) (ew_objects w)")
  show thesis
  proof (cases d)
    case None
    with assms log l show thesis
      by (intro kept [of "Refused ledgerUnavailable" objects]) (auto simp: deleteAccount_def Let_def same_data_def)
  next
    case (Some durability)
    show thesis
    proof (cases "df_transactionFails (dc_faults dc)")
      case True
      with assms log l Some show thesis
        by (intro kept [of Unexpected objects]) (auto simp: deleteAccount_def Let_def same_data_def)
    next
      case False
      obtain n1 cache where c: "deleteByPrefix (df_cacheScan (dc_faults dc)) (''u:'' @ userId @ '':'') (ew_cache w) = (n1, cache)"
        by (cases "deleteByPrefix (df_cacheScan (dc_faults dc)) (''u:'' @ userId @ '':'') (ew_cache w)")
      obtain n2 quota where q: "deleteByPrefix (df_quotaScan (dc_faults dc)) (''quota:user:'' @ userId @ '':'') (ew_quota w) = (n2, quota)"
        by (cases "deleteByPrefix (df_quotaScan (dc_faults dc)) (''quota:user:'' @ userId @ '':'') (ew_quota w)")
      let ?w2 = "w\<lparr>ew_log := ew_log w @ [\<lparr>de_id = dc_logId dc, de_userId = userId, de_requestedAt = dc_now dc,
          de_completedAt = None, de_rowsDeleted = [], de_workosDeleted = False, de_consents = [], de_notes = []\<rparr>],
          ew_objects := objects\<rparr>"
      have t: "same_tables w ?w2" by (simp add: same_tables_def)
      have rows: "fst (erase_rows userId ?w2) = fst (erase_rows userId w)" using erase_rows_tables [OF t] .
      have tab: "same_tables (cascade userId w) (cascade userId ?w2)" using cascade_tables [OF t] .
      show thesis
        by (rule erased [of durability objects])
          (use assms l Some log False c q rows tab in
            \<open>auto simp: deleteAccount_def Let_def erase_rows_def same_tables_def split: if_splits\<close>)
    qed
  qed
qed

lemma ledger_record_keeps:
  "map_of objects k = Some b \<Longrightarrow> map_of (snd (ledger_record iso_text ledger f u t objects)) k = Some b"
  by (auto simp: ledger_record_def Let_def update_conv split: ledger.splits ledger_fault.splits)

lemma ledger_record_writes:
  "ledger_record iso_text (R2_ledger prefix) f u t objects = (Some d, objects') \<Longrightarrow> map_of objects' (keyFor prefix u) \<noteq> None"
  by (auto simp: ledger_record_def Let_def update_conv split: if_splits ledger_fault.splits)

subsection \<open>Erasure outlives the database\<close>

text \<open>A restored backup or any other write replaces the tables and the log; the ledger is out of their
  reach. \<open>er_gone\<close> collects the users whose rows a deletion removed.\<close>

record erasure_run =
  er_world :: erasure_world
  er_gone :: "string list"

datatype erasure_event =
    Er_delete "time \<Rightarrow> string" workos_fetch deletion_call string string
  | Er_webhook "time \<Rightarrow> string" workos_fetch deletion_call string
  | Er_database erasure_world

definition note_gone :: "erasure_world \<Rightarrow> erasure_world \<Rightarrow> string list" where
  "note_gone w w' = filter (\<lambda>i. i \<notin> us_id ` set (ew_users w')) (map us_id (ew_users w))"

definition erasure_step :: "string \<Rightarrow> workos_client \<Rightarrow> erasure_event \<Rightarrow> erasure_run \<Rightarrow> erasure_run" where
  "erasure_step prefix wo e r = (let w = er_world r in case e of
     Er_delete iso_text fetch dc userId workosUserId \<Rightarrow>
       (case deleteAccount iso_text (R2_ledger prefix) wo fetch dc userId workosUserId w of (_, _, w') \<Rightarrow>
          \<lparr>er_world = w', er_gone = note_gone w w' @ er_gone r\<rparr>)
   | Er_webhook iso_text fetch dc workosUserId \<Rightarrow>
       (case deleteByWorkOsId iso_text (R2_ledger prefix) wo fetch dc workosUserId w of (_, _, w') \<Rightarrow>
          \<lparr>er_world = w', er_gone = note_gone w w' @ er_gone r\<rparr>)
   | Er_database v \<Rightarrow> r\<lparr>er_world := v\<lparr>ew_objects := ew_objects w\<rparr>\<rparr>)"

definition gone_on_ledger :: "string \<Rightarrow> erasure_run \<Rightarrow> bool" where
  "gone_on_ledger prefix r \<longleftrightarrow> (\<forall>i \<in> set (er_gone r). map_of (ew_objects (er_world r)) (keyFor prefix i) \<noteq> None)"

lemma deleteAccount_ledger:
  assumes "deleteAccount iso_text (R2_ledger prefix) wo fetch dc userId workosUserId w = (answer, calls, w')"
  shows "map_of (ew_objects w) k = Some b \<Longrightarrow> map_of (ew_objects w') k = Some b"
    and "i \<in> set (note_gone w w') \<Longrightarrow> map_of (ew_objects w') (keyFor prefix i) \<noteq> None"
proof -
  have "(map_of (ew_objects w) k = Some b \<longrightarrow> map_of (ew_objects w') k = Some b) \<and>
      (i \<in> set (note_gone w w') \<longrightarrow> map_of (ew_objects w') (keyFor prefix i) \<noteq> None)"
    using assms
  proof (cases rule: deleteAccount_cases)
    case (kept e objects)
    then show ?thesis by (auto simp: note_gone_def same_data_def ledger_record_keeps)
  next
    case (erased durability objects)
    have "ew_users w' = ew_users (cascade userId w)" using erased(4) by (simp add: same_tables_def)
    then have "i \<in> set (note_gone w w') \<Longrightarrow> i = userId" by (auto simp: note_gone_def cascade_def split: if_splits)
    moreover have "map_of (ew_objects w') (keyFor prefix userId) \<noteq> None"
      using ledger_record_writes [OF erased(1)] erased(2) by simp
    moreover have "map_of (ew_objects w) k = Some b \<Longrightarrow> map_of (ew_objects w') k = Some b"
      using erased(1,2) ledger_record_keeps [of "ew_objects w" k b iso_text "R2_ledger prefix"] by (metis snd_conv)
    ultimately show ?thesis by blast
  qed
  then show "map_of (ew_objects w) k = Some b \<Longrightarrow> map_of (ew_objects w') k = Some b"
    and "i \<in> set (note_gone w w') \<Longrightarrow> map_of (ew_objects w') (keyFor prefix i) \<noteq> None" by blast+
qed

lemma deleteByWorkOsId_account:
  assumes "deleteByWorkOsId iso_text ledger wo fetch dc workosUserId w = (answer, calls, w')"
  shows "w' = w \<or> (\<exists>i a c. deleteAccount iso_text ledger wo fetch dc i workosUserId w = (a, c, w'))"
proof (cases "List.find (\<lambda>u. us_workosUserId u = workosUserId) (ew_users w)")
  case None
  with assms show ?thesis by (simp add: deleteByWorkOsId_def)
next
  case (Some u)
  obtain a c w1 where d: "deleteAccount iso_text ledger wo fetch dc (us_id u) workosUserId w = (a, c, w1)"
    by (cases "deleteAccount iso_text ledger wo fetch dc (us_id u) workosUserId w")
  then have "w' = w1" using assms Some by (cases a) (simp_all add: deleteByWorkOsId_def)
  with d show ?thesis by blast
qed

interpretation erasures: machine "erasure_step prefix wo" "gone_on_ledger prefix"
proof
  fix r e assume inv: "gone_on_ledger prefix r"
  have step: "gone_on_ledger prefix \<lparr>er_world = w', er_gone = note_gone (er_world r) w' @ er_gone r\<rparr>"
    if "deleteAccount iso_text (R2_ledger prefix) wo fetch dc u v (er_world r) = (a, c, w')" for iso_text fetch dc u v a c w'
    using inv deleteAccount_ledger [OF that] by (fastforce simp: gone_on_ledger_def)
  show "gone_on_ledger prefix (erasure_step prefix wo e r)"
  proof (cases e)
    case (Er_delete iso_text fetch dc u v)
    obtain a c w' where d: "deleteAccount iso_text (R2_ledger prefix) wo fetch dc u v (er_world r) = (a, c, w')"
      by (cases "deleteAccount iso_text (R2_ledger prefix) wo fetch dc u v (er_world r)")
    show ?thesis using step [OF d] d by (simp add: erasure_step_def Er_delete Let_def)
  next
    case (Er_webhook iso_text fetch dc v)
    obtain a c w' where d: "deleteByWorkOsId iso_text (R2_ledger prefix) wo fetch dc v (er_world r) = (a, c, w')"
      by (cases "deleteByWorkOsId iso_text (R2_ledger prefix) wo fetch dc v (er_world r)")
    have none: "note_gone (er_world r) (er_world r) = []" by (auto simp: note_gone_def filter_empty_conv)
    from deleteByWorkOsId_account [OF d] have "gone_on_ledger prefix \<lparr>er_world = w', er_gone = note_gone (er_world r) w' @ er_gone r\<rparr>"
    proof (elim disjE exE)
      assume "w' = er_world r"
      then show ?thesis using inv none by (simp add: gone_on_ledger_def)
    qed (rule step)
    then show ?thesis using d by (simp add: erasure_step_def Er_webhook Let_def)
  qed (use inv in \<open>simp add: erasure_step_def gone_on_ledger_def Let_def\<close>)
qed

text \<open>Claim C27. An erasure is durable before it happens: with the ledger configured, in any run of
  deletions, whether asked for by the user or by the identity provider, with faults at every
  await, and of restores and other writes of the whole database in between, every user whose
  rows a deletion removed has a record on the ledger ever after, so that a restored backup can
  never lose it.\<close>

theorem erasure_outlives_database:
  assumes "i \<in> set (er_gone (run_calls (erasure_step prefix wo) \<lparr>er_world = w, er_gone = []\<rparr> events))"
  shows "map_of (ew_objects (er_world (run_calls (erasure_step prefix wo) \<lparr>er_world = w, er_gone = []\<rparr> (events @ later)))) (keyFor prefix i) \<noteq> None"
proof -
  let ?run = "run_calls (erasure_step prefix wo) \<lparr>er_world = w, er_gone = []\<rparr>"
  have "gone_on_ledger prefix (?run (events @ later))" by (rule erasures.inv_run) (simp add: gone_on_ledger_def)
  moreover have "set (er_gone (?run events)) \<subseteq> set (er_gone (?run (events @ later)))"
  proof -
    have "set (er_gone r) \<subseteq> set (er_gone (run_calls (erasure_step prefix wo) r es))" for r es
    proof (induction es arbitrary: r)
      case (Cons e es)
      have "set (er_gone r) \<subseteq> set (er_gone (erasure_step prefix wo e r))"
        by (auto simp: erasure_step_def Let_def split: erasure_event.splits prod.splits)
      with Cons.IH [of "erasure_step prefix wo e r"] show ?case by simp
    qed simp
    then show ?thesis by (simp add: run_calls_append)
  qed
  ultimately show ?thesis using assms by (auto simp: gone_on_ledger_def)
qed

subsection \<open>A finished deletion\<close>

lemma delete_pages_left:
  "set (map fst (snd (delete_pages pages r))) = set (map fst r) - set (concat pages)"
proof (induction pages arbitrary: r)
  case (Cons keys pages)
  let ?r = "filter (\<lambda>e. fst e \<notin> set keys) r"
  have "snd (delete_pages (keys # pages) r) = snd (delete_pages pages ?r)" by (simp add: Let_def split: prod.splits)
  moreover have "set (map fst ?r) = set (map fst r) - set keys" by auto
  ultimately show ?case using Cons.IH [of ?r] by (simp only: concat.simps set_append) blast
qed simp

lemma delete_pages_others:
  "\<forall>keys \<in> set pages. k \<notin> set keys \<Longrightarrow> map_of (snd (delete_pages pages r)) k = map_of r k"
proof (induction pages arbitrary: r)
  case (Cons keys pages)
  have "map_of (filter (\<lambda>e. fst e \<notin> set keys) r) k = map_of r k" if "k \<notin> set keys"
    using that by (induction r) auto
  with Cons show ?case by (simp add: Let_def split: prod.splits) (metis snd_conv)
qed simp

lemma delete_by_prefix_others:
  "\<not> starts_with prefix k \<Longrightarrow> map_of (snd (deleteByPrefix sc prefix r)) k = map_of r k"
proof -
  assume k: "\<not> starts_with prefix k"
  let ?pages = "map (filter (starts_with prefix)) (sc_pages sc)"
  have "\<forall>keys \<in> set ?pages. k \<notin> set keys" using k by auto
  then have "\<forall>keys \<in> set (take n ?pages). k \<notin> set keys" for n by (blast dest: in_set_takeD)
  then have "map_of (snd (delete_pages (take n ?pages) r)) k = map_of r k" for n by (rule delete_pages_others)
  from this [of "length ?pages"] this
  show ?thesis by (cases "sc_failsAt sc") (simp_all add: deleteByPrefix_def Let_def take_map case_prod_beta)
qed

definition complete_scan :: "scan \<Rightarrow> redis \<Rightarrow> bool" where
  "complete_scan sc r \<longleftrightarrow> sc_failsAt sc = None \<and> fst ` set r \<subseteq> set (concat (sc_pages sc))"

lemma delete_by_prefix_clears:
  assumes "complete_scan sc r" "starts_with prefix k"
  shows "k \<notin> fst ` set (snd (deleteByPrefix sc prefix r))"
proof -
  have "snd (deleteByPrefix sc prefix r) = snd (delete_pages (map (filter (starts_with prefix)) (sc_pages sc)) r)"
    using assms(1) by (simp add: deleteByPrefix_def complete_scan_def Let_def split: prod.splits)
  moreover have "set (concat (map (filter (starts_with prefix)) (sc_pages sc))) = {k \<in> set (concat (sc_pages sc)). starts_with prefix k}"
    by auto
  ultimately show ?thesis using delete_pages_left [of "map (filter (starts_with prefix)) (sc_pages sc)" r] assms
    by (auto simp: complete_scan_def)
qed

text \<open>Claim C28. A deletion that reports success is complete and touches nobody else: nothing in the
  users, the consents, the tokens and the owned tables refers to the account, every row of every
  other account is as it was, the counts it reports are those of the tables before, the log
  keeps as the receipt of the contract the consents that the cascade removed, or nothing when
  reading them failed, and after complete scans no cache key of the
  account is left and every other one is as it was.\<close>

theorem deletion_complete:
  assumes "deleteAccount iso_text ledger wo fetch dc userId workosUserId w = (Inr outcome, calls, w')"
    and "userId \<in> us_id ` set (ew_users w)"
  shows "(\<forall>u \<in> set (ew_users w'). us_id u \<noteq> userId) \<and> (\<forall>c \<in> set (ew_consents w'). cn_userId c \<noteq> userId) \<and>
    (\<forall>t \<in> set (ew_tokens w'). tk_userId t \<noteq> userId) \<and> (\<forall>r \<in> set (ew_rows w'). snd r \<noteq> userId) \<and>
    filter (\<lambda>u. us_id u \<noteq> userId) (ew_users w) = ew_users w' \<and> filter (\<lambda>c. cn_userId c \<noteq> userId) (ew_consents w) = ew_consents w' \<and>
    filter (\<lambda>t. tk_userId t \<noteq> userId) (ew_tokens w) = ew_tokens w' \<and> filter (\<lambda>r. snd r \<noteq> userId) (ew_rows w) = ew_rows w' \<and>
    (\<forall>table \<in> set OWNED_TABLES. map_of (do_rowsDeleted outcome) table = Some (int (owned_count table userId w))) \<and>
    (\<exists>d \<in> set (ew_log w'). de_userId d = userId \<and> de_completedAt d = Some (dc_endNow dc) \<and>
       de_consents d = (if df_receiptFails (dc_faults dc) then [] else map (consent_record_of iso_text) (receiptFor userId (ew_consents w)))) \<and>
    (complete_scan (df_cacheScan (dc_faults dc)) (ew_cache w) \<longrightarrow> (\<forall>k. ''u:'' @ userId @ '':'' @ k \<notin> fst ` set (ew_cache w'))) \<and>
    (\<forall>k. starts_with (''u:'' @ userId @ '':'') k \<or> map_of (ew_cache w') k = map_of (ew_cache w) k)"
  using assms(1)
proof (cases rule: deleteAccount_cases)
  case (kept e objects)
  then show ?thesis by simp
next
  case (erased durability objects)
  have tables: "ew_users w' = filter (\<lambda>u. us_id u \<noteq> userId) (ew_users w)" "ew_consents w' = filter (\<lambda>c. cn_userId c \<noteq> userId) (ew_consents w)"
    "ew_tokens w' = filter (\<lambda>t. tk_userId t \<noteq> userId) (ew_tokens w)" "ew_rows w' = filter (\<lambda>r. snd r \<noteq> userId) (ew_rows w)"
    using erased(4) assms(2) by (simp_all add: same_tables_def cascade_def)
  have "\<forall>table \<in> set OWNED_TABLES. map_of (do_rowsDeleted outcome) table = Some (int (owned_count table userId w))"
    using erased(7) by (simp add: erase_rows_def OWNED_TABLES_def)
  moreover have "''u:'' @ userId @ '':'' @ k \<notin> fst ` set (ew_cache w')" if "complete_scan (df_cacheScan (dc_faults dc)) (ew_cache w)" for k
    unfolding erased(5) by (rule delete_by_prefix_clears [OF that]) (simp add: starts_with_def)
  moreover have "starts_with (''u:'' @ userId @ '':'') k \<or> map_of (ew_cache w') k = map_of (ew_cache w) k" for k
    unfolding erased(5) using delete_by_prefix_others by blast
  moreover note erased(7) [OF refl]
  ultimately show ?thesis unfolding tables by simp
qed

text \<open>An aborted erasure changes nothing that it was to erase: when the deletion is answered
  with an error before its transaction, no row, no key and no identity at the provider is
  touched, so that it can be asked for again.\<close>

theorem refused_erasure_is_clean:
  assumes "deleteAccount iso_text ledger wo fetch dc userId workosUserId w = (Inl (Refused e), calls, w')"
  shows "same_data w w' \<and> calls = [] \<and> ae_status e = 503"
proof -
  have "e = ledgerUnavailable"
    using assms by (auto simp: deleteAccount_def Let_def split: if_splits option.splits prod.splits)
  then have "ae_status e = 503" by (simp add: ledgerUnavailable_def)
  moreover have "same_data w w' \<and> calls = []"
    using assms by (auto simp: deleteAccount_def Let_def same_data_def split: if_splits option.splits prod.splits)
  ultimately show ?thesis by simp
qed

subsection \<open>Witnesses\<close>

definition demo_faults :: "ledger_fault \<Rightarrow> deletion_faults" where
  "demo_faults fault = \<lparr>df_logFails = False, df_ledger = fault, df_noteFails = False, df_receiptFails = True, df_transactionFails = False,
     df_cacheScan = \<lparr>sc_pages = [[''u:u1:feed''], [''u:u1:feed'', ''u:u2:feed'']], sc_failsAt = None\<rparr>,
     df_quotaScan = \<lparr>sc_pages = [], sc_failsAt = Some 0\<rparr>, df_finalFails = False\<rparr>"

definition demo_deletion :: "ledger_fault \<Rightarrow> deletion_call" where
  "demo_deletion fault = \<lparr>dc_now = 7, dc_endNow = 8, dc_logId = ''d1'', dc_faults = demo_faults fault\<rparr>"

definition demo_fetch :: workos_fetch where
  "demo_fetch call = None"

definition demo_erasure :: erasure_world where
  "demo_erasure = \<lparr>ew_users = [demo_user], ew_consents = [demo_row], ew_tokens = [], ew_rows = [(''wishlist_items'', ''u1''), (''wishlist_items'', ''u2'')],
     ew_log = [], ew_objects = [], ew_cache = [(''u:u1:feed'', (1, None)), (''u:u2:feed'', (1, None))], ew_quota = []\<rparr>"

definition demo_iso :: "time \<Rightarrow> string" where
  "demo_iso t = show_int t"

definition demo_delete :: "ledger_fault \<Rightarrow> (token_failure + deletion_outcome) \<times> http_call list \<times> erasure_world" where
  "demo_delete fault = deleteAccount demo_iso (R2_ledger ''erasures'') (wo_new ''https://api.workos.com'' ''c'' ''k'') demo_fetch
     (demo_deletion fault) ''u1'' ''w1'' demo_erasure"

definition demo_run :: "erasure_event list \<Rightarrow> erasure_run" where
  "demo_run = run_calls (erasure_step ''erasures'' (wo_new ''https://api.workos.com'' ''c'' ''k'')) \<lparr>er_world = demo_erasure, er_gone = []\<rparr>"

theorem erasure_outlives_database_witness:
  "map_of (ew_objects (er_world (demo_run ([Er_delete demo_iso demo_fetch (demo_deletion Put_reply_lost) ''u1'' ''w1'',
       Er_delete demo_iso demo_fetch (demo_deletion Ledger_fine) ''u1'' ''w1''] @ [Er_database demo_erasure]))))
     (keyFor ''erasures'' ''u1'') \<noteq> None"
proof -
  let ?es = "[Er_delete demo_iso demo_fetch (demo_deletion Put_reply_lost) ''u1'' ''w1'',
       Er_delete demo_iso demo_fetch (demo_deletion Ledger_fine) ''u1'' ''w1'']"
  have "er_gone (demo_run ?es) = [''u1'']" by code_simp
  then have "''u1'' \<in> set (er_gone (demo_run ?es))" by simp
  from erasure_outlives_database [OF this [unfolded demo_run_def], of "[Er_database demo_erasure]"]
  show ?thesis by (simp only: demo_run_def not_False_eq_True)
qed

text \<open>The same call, with a receipt that can be read.\<close>

definition demo_call :: deletion_call where
  "demo_call = (demo_deletion Ledger_fine)\<lparr>dc_faults := (demo_faults Ledger_fine)\<lparr>df_receiptFails := False\<rparr>\<rparr>"

definition demo_delete_read :: "(token_failure + deletion_outcome) \<times> http_call list \<times> erasure_world" where
  "demo_delete_read = deleteAccount demo_iso (R2_ledger ''erasures'') (wo_new ''https://api.workos.com'' ''c'' ''k'') demo_fetch
     demo_call ''u1'' ''w1'' demo_erasure"

theorem deletion_complete_witness:
  "\<exists>outcome calls w'. demo_delete_read = (Inr outcome, calls, w') \<and> (\<forall>r \<in> set (ew_rows w'). snd r \<noteq> ''u1'') \<and>
     (\<exists>d \<in> set (ew_log w'). de_userId d = ''u1'' \<and> de_consents d = [consent_record_of demo_iso demo_row])"
proof -
  obtain answer calls w' where d: "demo_delete_read = (answer, calls, w')" by (cases demo_delete_read)
  have "\<not> isl (fst demo_delete_read)" by code_simp
  then have "\<not> isl answer" unfolding d by simp
  then obtain outcome where outcome: "answer = Inr outcome" by (cases answer) simp_all
  have user: "''u1'' \<in> us_id ` set (ew_users demo_erasure)" by (simp add: demo_erasure_def demo_user_def)
  have receipt: "receiptFor ''u1'' (ew_consents demo_erasure) = [demo_row]" by code_simp
  have "\<not> df_receiptFails (dc_faults demo_call)" by (simp add: demo_call_def)
  from deletion_complete [OF d [unfolded demo_delete_read_def outcome] user] d outcome this receipt show ?thesis
    by (auto simp del: split_paired_All split_paired_Ex)
qed

theorem refused_erasure_is_clean_witness:
  "\<exists>e calls w'. demo_delete Exists_fails = (Inl (Refused e), calls, w') \<and> same_data demo_erasure w'"
proof -
  obtain answer calls w' where d: "demo_delete Exists_fails = (answer, calls, w')" by (cases "demo_delete Exists_fails")
  have "fst (demo_delete Exists_fails) = Inl (Refused ledgerUnavailable)"
    by (simp add: demo_delete_def deleteAccount_def demo_deletion_def demo_faults_def ledger_record_def Let_def)
  then have a: "answer = Inl (Refused ledgerUnavailable)" using d by simp
  from refused_erasure_is_clean [OF d [unfolded demo_delete_def a]] d a show ?thesis by blast
qed

end
