(* ===== verification/Pg_Locks.thy ===== *)
theory Pg_Locks
  imports Pf_Prelude Js_Text "HOL-Library.AList"
begin

text \<open>
  The session locks the scheduled jobs take: the registry, \<open>tryAdvisoryLock\<close> and
  \<open>advisoryUnlock\<close> of \<^verbatim>\<open>apps/bff/src/lib/db.ts\<close>, on the documented behaviour of the advisory
  locks of the database. A lock belongs to a session, which may take it again; the hash of the
  key is a parameter.
\<close>

type_synonym lock_key = "nat \<times> int"

type_synonym lock_table = "(lock_key \<times> (nat \<times> nat)) list"

record lock_namespaces =
  ln_connectionRefresh :: nat
  ln_accountDeletion :: nat
  ln_directoryReap :: nat
  ln_auditRetention :: nat
  ln_expirySweep :: nat
  ln_cacheWarm :: nat
  ln_mbCanonicalRefresh :: nat

definition LOCK_NAMESPACE :: lock_namespaces where
  "LOCK_NAMESPACE = \<lparr>ln_connectionRefresh = 1, ln_accountDeletion = 2, ln_directoryReap = 3, ln_auditRetention = 4,
     ln_expirySweep = 5, ln_cacheWarm = 6, ln_mbCanonicalRefresh = 7\<rparr>"

definition tryAdvisoryLock :: "(string \<Rightarrow> int) \<Rightarrow> nat \<Rightarrow> nat \<Rightarrow> string \<Rightarrow> lock_table \<Rightarrow> bool \<times> lock_table" where
  "tryAdvisoryLock hashtext session namespace key t =
     (case map_of t (namespace, hashtext key) of
        None \<Rightarrow> (True, AList.update (namespace, hashtext key) (session, 1) t)
      | Some (holder, n) \<Rightarrow>
          if holder = session then (True, AList.update (namespace, hashtext key) (session, Suc n) t) else (False, t))"

definition advisoryUnlock :: "(string \<Rightarrow> int) \<Rightarrow> nat \<Rightarrow> nat \<Rightarrow> string \<Rightarrow> lock_table \<Rightarrow> lock_table" where
  "advisoryUnlock hashtext session namespace key t =
     (case map_of t (namespace, hashtext key) of
        None \<Rightarrow> t
      | Some (holder, n) \<Rightarrow>
          if holder \<noteq> session then t
          else if n \<le> 1 then AList.delete (namespace, hashtext key) t
          else AList.update (namespace, hashtext key) (session, n - 1) t)"

text \<open>A lock another session holds is refused, and giving it back restores the table.\<close>

lemma lock_refused:
  "map_of t (ns, hashtext key) = Some (holder, n) \<Longrightarrow> holder \<noteq> session \<Longrightarrow>
     tryAdvisoryLock hashtext session ns key t = (False, t)"
  by (simp add: tryAdvisoryLock_def)

lemma lock_unlock:
  "tryAdvisoryLock hashtext session ns key t = (True, t') \<Longrightarrow> \<forall>h n. map_of t (ns, hashtext key) = Some (h, n) \<longrightarrow> 0 < n \<Longrightarrow>
     map_of (advisoryUnlock hashtext session ns key t') = map_of t"
  by (rule ext) (auto simp: tryAdvisoryLock_def advisoryUnlock_def AList.update_conv' AList.delete_conv' split: option.splits if_splits)

lemma lock_held:
  "tryAdvisoryLock hashtext session ns key t = (True, t') \<Longrightarrow> s \<noteq> session \<Longrightarrow>
     tryAdvisoryLock hashtext s ns key t' = (False, t')"
  by (auto simp: tryAdvisoryLock_def AList.update_conv' split: option.splits if_splits)

end
