(* ===== verification/Job_Batches.thy ===== *)
theory Job_Batches
  imports Pg_Locks Js_Sort
begin

text \<open>
  What the scheduled jobs share: the overrides of \<^verbatim>\<open>apps/bff/src/lib/job-env.ts\<close>, the loop that repeats
  one statement until it finds nothing (\<open>#sweepTable\<close> of \<^verbatim>\<open>services/expiry-sweeper.ts\<close> and \<open>#batched\<close> of
  \<^verbatim>\<open>services/audit-retention.ts\<close>), and the selection of the oldest rows that their statements begin with.
  A table is a list of rows by key.
\<close>

subsection \<open>Overrides\<close>

text \<open>\<open>Left\<close> is the error that stops the job.\<close>

definition intFromEnv :: "string \<Rightarrow> int \<Rightarrow> (string \<Rightarrow> string option) \<Rightarrow> string + int" where
  "intFromEnv name fallback env =
     (case env name of
        None \<Rightarrow> Inr fallback
      | Some raw \<Rightarrow>
          if raw = [] then Inr fallback
          else case js_Number raw of
              None \<Rightarrow> Inl name
            | Some v \<Rightarrow> if v \<noteq> of_int \<lfloor>v\<rfloor> \<or> v \<le> 0 then Inl name else Inr \<lfloor>v\<rfloor>)"

lemma intFromEnv_positive: "0 < fallback \<Longrightarrow> intFromEnv name fallback env = Inr n \<Longrightarrow> 0 < n"
proof -
  have "0 < \<lfloor>v\<rfloor>" if "v = of_int \<lfloor>v\<rfloor>" "\<not> v \<le> 0" for v :: rat
    using that by (metis of_int_0_less_iff not_le)
  then show "0 < fallback \<Longrightarrow> intFromEnv name fallback env = Inr n \<Longrightarrow> 0 < n"
    by (auto simp: intFromEnv_def split: option.splits if_splits)
qed

subsection \<open>Batches\<close>

text \<open>What a statement comes back with: it throws, or the driver has no count, or the count.\<close>

datatype batch_reply = Batch_throws | Batch_unknown | Batch_counted

record batch_result =
  br_rows :: nat
  br_failed :: bool
  br_capped :: bool

text \<open>\<open>replies\<close> holds what the driver says of the statements of the run, one for each batch that is
  allowed; a statement that throws has changed nothing.\<close>

fun batched :: "('w \<Rightarrow> nat \<times> 'w) \<Rightarrow> batch_reply list \<Rightarrow> nat \<Rightarrow> 'w \<Rightarrow> batch_result \<times> 'w" where
  "batched stmt [] rows w = (\<lparr>br_rows = rows, br_failed = False, br_capped = True\<rparr>, w)"
| "batched stmt (Batch_throws # rs) rows w = (\<lparr>br_rows = rows, br_failed = True, br_capped = False\<rparr>, w)"
| "batched stmt (Batch_unknown # rs) rows w =
     (\<lparr>br_rows = rows, br_failed = True, br_capped = False\<rparr>, snd (stmt w))"
| "batched stmt (Batch_counted # rs) rows w =
     (case stmt w of (n, w') \<Rightarrow>
        if n = 0 then (\<lparr>br_rows = rows, br_failed = False, br_capped = False\<rparr>, w')
        else batched stmt rs (rows + n) w')"

lemma batched_keeps:
  "(\<And>w. I w \<Longrightarrow> I (snd (stmt w))) \<Longrightarrow> I w \<Longrightarrow> I (snd (batched stmt rs rows w))"
  by (induction stmt rs rows w rule: batched.induct) (auto split: prod.split; metis snd_conv)+

text \<open>A statement that finds work as long as there is some: then the loop ends with none left.\<close>

locale draining =
  fixes stmt :: "'w \<Rightarrow> nat \<times> 'w"
    and pending :: "'w \<Rightarrow> nat"
    and ok :: "'w \<Rightarrow> bool"
  assumes stmt_ok: "ok w \<Longrightarrow> ok (snd (stmt w))"
    and counts: "ok w \<Longrightarrow> pending (snd (stmt w)) + fst (stmt w) = pending w"
    and works: "ok w \<Longrightarrow> 0 < pending w \<Longrightarrow> 0 < fst (stmt w)"
begin

lemma run_ok: "ok w \<Longrightarrow> ok (snd (batched stmt rs rows w))"
  by (rule batched_keeps [of ok]) (simp_all add: stmt_ok)

text \<open>An end that is neither a failure nor the cap leaves nothing, and the count is that of the work.\<close>

lemma clean_end:
  "ok w \<Longrightarrow> batched stmt rs rows w = (r, w') \<Longrightarrow> \<not> br_failed r \<Longrightarrow> \<not> br_capped r \<Longrightarrow>
     pending w' = 0 \<and> br_rows r = rows + pending w"
proof (induction rs arbitrary: rows w)
  case (Cons q rs)
  obtain n v where s: "stmt w = (n, v)" by (cases "stmt w")
  with stmt_ok [OF Cons.prems(1)] counts [OF Cons.prems(1)] works [OF Cons.prems(1)]
  have v: "ok v" "pending v + n = pending w" "pending w = 0 \<or> 0 < n" by auto
  show ?case
  proof (cases "q = Batch_counted \<and> n \<noteq> 0")
    case True
    with Cons.prems s have "batched stmt rs (rows + n) v = (r, w')" by simp
    from Cons.IH [OF v(1) this Cons.prems(3,4)] v(2) show ?thesis by simp
  next
    case False
    with Cons.prems s v show ?thesis by (cases q) auto
  qed
qed auto

text \<open>More batches than work: it all gets done.\<close>

lemma drains:
  "ok w \<Longrightarrow> pending w < length rs \<Longrightarrow> \<forall>q \<in> set rs. q = Batch_counted \<Longrightarrow>
     \<exists>w'. batched stmt rs rows w = (\<lparr>br_rows = rows + pending w, br_failed = False, br_capped = False\<rparr>, w') \<and>
       ok w' \<and> pending w' = 0"
proof (induction rs arbitrary: rows w)
  case (Cons q rs)
  obtain n v where s: "stmt w = (n, v)" by (cases "stmt w")
  with stmt_ok [OF Cons.prems(1)] counts [OF Cons.prems(1)] works [OF Cons.prems(1)]
  have v: "ok v" "pending v + n = pending w" "pending w = 0 \<or> 0 < n" by auto
  show ?case
  proof (cases "n = 0")
    case False
    with v Cons.prems(2) have "pending v < length rs" by simp
    from Cons.IH [OF v(1) this, of "rows + n"] Cons.prems(3) have
      "\<exists>w'. batched stmt rs (rows + n) v = (\<lparr>br_rows = rows + n + pending v, br_failed = False, br_capped = False\<rparr>, w') \<and>
         ok w' \<and> pending w' = 0" by simp
    moreover have "rows + n + pending v = rows + pending w" using v(2) by simp
    ultimately show ?thesis using False Cons.prems(3) by (simp add: s)
  qed (use s v Cons.prems(3) in auto)
qed simp

text \<open>However the run goes, what is pending afterwards was pending before, and every batch that is
  counted makes some progress.\<close>

lemma progress:
  "ok w \<Longrightarrow> \<forall>q \<in> set rs. q = Batch_counted \<Longrightarrow>
     pending (snd (batched stmt rs rows w)) \<le> pending w - length rs"
proof (induction rs arbitrary: rows w)
  case (Cons q rs)
  obtain n v where s: "stmt w = (n, v)" by (cases "stmt w")
  with stmt_ok [OF Cons.prems(1)] counts [OF Cons.prems(1)] works [OF Cons.prems(1)]
  have v: "ok v" "pending v + n = pending w" "pending w = 0 \<or> 0 < n" by auto
  show ?case
  proof (cases "n = 0")
    case False
    from Cons.IH [OF v(1), of "rows + n"] Cons.prems(2) v False show ?thesis by (simp add: s)
  next
    case True
    with v have "pending v = 0" by (cases "pending w") auto
    with True s Cons.prems(2) show ?thesis by simp
  qed
qed simp

lemma never_more: "ok w \<Longrightarrow> pending (snd (batched stmt rs rows w)) \<le> pending w"
proof (induction rs arbitrary: rows w)
  case (Cons q rs)
  obtain n v where s: "stmt w = (n, v)" by (cases "stmt w")
  with stmt_ok [OF Cons.prems] counts [OF Cons.prems] have v: "ok v" "pending v + n = pending w" by simp_all
  show ?case
    using Cons.IH [OF v(1), of "rows + n"] v(2) by (cases q) (auto simp: s)
qed simp

end

subsection \<open>The oldest rows\<close>

definition by_time :: "('r \<Rightarrow> time) \<Rightarrow> 'k \<times> 'r \<Rightarrow> 'k \<times> 'r \<Rightarrow> real" where
  "by_time stamp p q = real_of_int (stamp (snd p) - stamp (snd q))"

text \<open>\<open>SELECT key ... WHERE P ORDER BY stamp LIMIT batch\<close>.\<close>

definition oldest :: "('r \<Rightarrow> time) \<Rightarrow> ('r \<Rightarrow> bool) \<Rightarrow> nat \<Rightarrow> ('k \<times> 'r) list \<Rightarrow> 'k list" where
  "oldest stamp P batch t = map fst (take batch (js_sort (by_time stamp) (filter (\<lambda>p. P (snd p)) t)))"

text \<open>\<open>DELETE ... WHERE key IN (...)\<close> and the number of rows it deletes.\<close>

definition delete_oldest :: "('r \<Rightarrow> time) \<Rightarrow> ('r \<Rightarrow> bool) \<Rightarrow> nat \<Rightarrow> ('k \<times> 'r) list \<Rightarrow> nat \<times> ('k \<times> 'r) list" where
  "delete_oldest stamp P batch t =
     (let gone = oldest stamp P batch t
      in (length (filter (\<lambda>p. fst p \<in> set gone) t), filter (\<lambda>p. fst p \<notin> set gone) t))"

text \<open>What the selection names: as many keys as the batch allows, of rows that qualify only.\<close>

lemma oldest_keys:
  assumes "distinct (map fst t)"
  shows "length (filter (\<lambda>p. fst p \<in> set (oldest stamp P batch t)) t) = min batch (length (filter (\<lambda>p. P (snd p)) t))"
    and "p \<in> set t \<Longrightarrow> fst p \<in> set (oldest stamp P batch t) \<Longrightarrow> P (snd p)"
proof -
  let ?d = "oldest stamp P batch t" and ?s = "take batch (js_sort (by_time stamp) (filter (\<lambda>p. P (snd p)) t))"
  have d: "?d = map fst ?s" by (simp add: oldest_def)
  have sub: "set ?s \<subseteq> set (filter (\<lambda>p. P (snd p)) t)" by (metis set_js_sort set_take_subset)
  have "distinct (map fst (js_sort (by_time stamp) (filter (\<lambda>p. P (snd p)) t)))"
    using assms by (simp add: distinct_map_filter)
  then have dist: "distinct (map fst ?s)" by (metis distinct_take take_map)
  have "set ?d \<subseteq> set (map fst t)" using image_mono [OF sub, of fst] by (auto simp: d)
  then have "set (filter (\<lambda>k. k \<in> set ?d) (map fst t)) = set ?d" by auto
  moreover have "distinct (filter (\<lambda>k. k \<in> set ?d) (map fst t))" using assms by simp
  ultimately have "length (filter (\<lambda>k. k \<in> set ?d) (map fst t)) = length ?d"
    using dist d by (metis distinct_card)
  then show "length (filter (\<lambda>p. fst p \<in> set ?d) t) = min batch (length (filter (\<lambda>p. P (snd p)) t))"
    by (simp add: d filter_map comp_def min.commute)
  show "P (snd p)" if mem: "p \<in> set t" "fst p \<in> set ?d"
  proof -
    obtain q where "q \<in> set ?s" "fst q = fst p" using mem(2) by (auto simp: d)
    moreover from this have "q \<in> set t" "P (snd q)" using sub by auto
    ultimately show ?thesis using assms mem(1) by (metis distinct_map inj_onD)
  qed
qed

lemma delete_oldest:
  assumes "distinct (map fst t)"
  shows "fst (delete_oldest stamp P batch t) = min batch (length (filter (\<lambda>p. P (snd p)) t))"
    and "length (filter (\<lambda>p. P (snd p)) (snd (delete_oldest stamp P batch t))) + fst (delete_oldest stamp P batch t) =
      length (filter (\<lambda>p. P (snd p)) t)"
    and "filter (\<lambda>p. \<not> P (snd p)) (snd (delete_oldest stamp P batch t)) = filter (\<lambda>p. \<not> P (snd p)) t"
    and "distinct (map fst (snd (delete_oldest stamp P batch t)))"
proof -
  let ?d = "oldest stamp P batch t"
  note keys = oldest_keys [OF assms, where stamp = stamp and P = P and batch = batch]
  show n: "fst (delete_oldest stamp P batch t) = min batch (length (filter (\<lambda>p. P (snd p)) t))"
    by (simp add: delete_oldest_def Let_def keys(1))
  have "filter (\<lambda>p. fst p \<in> set ?d) t = filter (\<lambda>p. fst p \<in> set ?d) (filter (\<lambda>p. P (snd p)) t)"
    unfolding filter_filter by (rule filter_cong) (use keys(2) in auto)
  moreover have "filter (\<lambda>p. P (snd p)) (filter (\<lambda>p. fst p \<notin> set ?d) t) = filter (\<lambda>p. fst p \<notin> set ?d) (filter (\<lambda>p. P (snd p)) t)"
    unfolding filter_filter by (rule filter_cong) auto
  ultimately show "length (filter (\<lambda>p. P (snd p)) (snd (delete_oldest stamp P batch t))) + fst (delete_oldest stamp P batch t) =
      length (filter (\<lambda>p. P (snd p)) t)"
    using sum_length_filter_compl [of "\<lambda>p. fst p \<in> set ?d" "filter (\<lambda>p. P (snd p)) t"]
    by (simp add: delete_oldest_def Let_def)
  show "filter (\<lambda>p. \<not> P (snd p)) (snd (delete_oldest stamp P batch t)) = filter (\<lambda>p. \<not> P (snd p)) t"
    unfolding delete_oldest_def Let_def snd_conv filter_filter by (rule filter_cong) (use keys(2) in auto)
  show "distinct (map fst (snd (delete_oldest stamp P batch t)))"
    using assms by (simp add: delete_oldest_def Let_def distinct_map_filter)
qed

text \<open>So a loop over such deletions drains a table.\<close>

definition keyed :: "('k \<times> 'r) list \<Rightarrow> bool" where
  "keyed t \<longleftrightarrow> distinct (map fst t)"

interpretation deletions: draining "delete_oldest stamp P (Suc batch)" "\<lambda>t :: ('k \<times> 'r) list. length (filter (\<lambda>p. P (snd p)) t)" keyed
  for stamp :: "'r \<Rightarrow> time" and P batch
proof
  fix t :: "('k \<times> 'r) list" assume "keyed t"
  note del = delete_oldest [OF \<open>keyed t\<close> [unfolded keyed_def], where stamp = stamp and P = P and batch = "Suc batch"]
  show "keyed (snd (delete_oldest stamp P (Suc batch) t))" using del(4) by (simp add: keyed_def)
  show "length (filter (\<lambda>p. P (snd p)) (snd (delete_oldest stamp P (Suc batch) t))) + fst (delete_oldest stamp P (Suc batch) t) =
      length (filter (\<lambda>p. P (snd p)) t)" by (rule del(2))
  show "0 < length (filter (\<lambda>p. P (snd p)) t) \<Longrightarrow> 0 < fst (delete_oldest stamp P (Suc batch) t)" by (simp add: del(1))
qed

lemma batched_deletions_keep:
  "distinct (map fst t) \<Longrightarrow> filter (\<lambda>p. \<not> P (snd p)) (snd (batched (delete_oldest stamp P batch) rs rows t)) = filter (\<lambda>p. \<not> P (snd p)) t"
  using batched_keeps [of "\<lambda>u. distinct (map fst u) \<and> filter (\<lambda>p. \<not> P (snd p)) u = filter (\<lambda>p. \<not> P (snd p)) t"
      "delete_oldest stamp P batch" t rs rows] by (simp add: delete_oldest)


subsection \<open>A deadline\<close>

text \<open>Because a batch takes the oldest rows first, rows older than any earlier limit go before the
  others, whatever else has become due.\<close>

interpretation by_time: js_comparator "by_time stamp" for stamp :: "'r \<Rightarrow> time"
proof
  fix x y z :: "'k \<times> 'r"
  show "sgn (by_time stamp y x) = - sgn (by_time stamp x y)" by (auto simp: by_time_def sgn_if)
  show "by_time stamp x y \<le> 0 \<Longrightarrow> by_time stamp y z \<le> 0 \<Longrightarrow> by_time stamp x z \<le> 0" by (auto simp: by_time_def)
qed

lemma filter_take_early:
  "sorted_wrt (\<lambda>p q. by_time stamp p q \<le> 0) xs \<Longrightarrow>
     filter (\<lambda>p. stamp (snd p) < c) (take n xs) = take n (filter (\<lambda>p. stamp (snd p) < c) xs)"
proof (induction xs arbitrary: n)
  case (Cons x xs)
  show ?case
  proof (cases "stamp (snd x) < c")
    case True
    with Cons show ?thesis by (cases n) simp_all
  next
    case False
    with Cons.prems have "\<forall>p \<in> set (x # xs). \<not> stamp (snd p) < c" by (auto simp: by_time_def)
    then have "filter (\<lambda>p. stamp (snd p) < c) ys = []" if "set ys \<subseteq> set (x # xs)" for ys
      using that by (auto simp: filter_empty_conv)
    from this [OF set_take_subset] this [OF order_refl] show ?thesis by simp
  qed
qed simp

lemma oldest_early:
  assumes "\<And>r. stamp r < c \<Longrightarrow> P r"
  shows "oldest stamp (\<lambda>r. stamp r < c) batch t =
    map fst (filter (\<lambda>p. stamp (snd p) < c) (take batch (js_sort (by_time stamp) (filter (\<lambda>p. P (snd p)) t))))"
proof -
  have "filter (\<lambda>p. stamp (snd p) < c) (js_sort (by_time stamp) (filter (\<lambda>p. P (snd p)) t)) =
      js_sort (by_time stamp) (filter (\<lambda>p. stamp (snd p) < c) t)"
    unfolding by_time.filter_sort filter_filter
    by (rule arg_cong [where f = "js_sort (by_time stamp)"]) (auto intro!: filter_cong dest: assms)
  then show ?thesis by (simp add: oldest_def filter_take_early [OF by_time.sort_sorted])
qed

lemma delete_early:
  assumes "distinct (map fst t)" "\<And>r. stamp r < c \<Longrightarrow> P r"
  shows "length (filter (\<lambda>p. stamp (snd p) < c) (snd (delete_oldest stamp P batch t))) \<le>
    length (filter (\<lambda>p. stamp (snd p) < c) t) - batch"
proof -
  let ?Q = "\<lambda>r. stamp r < c"
  have sub: "set (oldest stamp ?Q batch t) \<subseteq> set (oldest stamp P batch t)"
    using oldest_early [where stamp = stamp and c = c and P = P and batch = batch and t = t, OF assms(2)]
    by (simp only: oldest_def [of stamp P]) auto
  have "length (filter (\<lambda>p. ?Q (snd p)) (snd (delete_oldest stamp P batch t))) \<le>
      length (filter (\<lambda>p. ?Q (snd p)) (snd (delete_oldest stamp ?Q batch t)))"
    unfolding delete_oldest_def Let_def snd_conv filter_filter by (rule length_filter_mono) (use sub in auto)
  also have "\<dots> = length (filter (\<lambda>p. ?Q (snd p)) t) - min batch (length (filter (\<lambda>p. ?Q (snd p)) t))"
    using delete_oldest(1,2) [OF assms(1), where stamp = stamp and P = ?Q and batch = batch] by simp
  finally show ?thesis by simp
qed

lemma batched_early:
  assumes "\<And>r. stamp r < c \<Longrightarrow> P r" "0 < batch"
  shows "distinct (map fst t) \<Longrightarrow> \<forall>q \<in> set rs. q = Batch_counted \<Longrightarrow>
    length (filter (\<lambda>p. stamp (snd p) < c) (snd (batched (delete_oldest stamp P batch) rs rows t))) \<le>
    length (filter (\<lambda>p. stamp (snd p) < c) t) - length rs * batch"
proof (induction rs arbitrary: rows t)
  case (Cons q rs)
  let ?stmt = "delete_oldest stamp P batch"
  obtain n t' where s: "?stmt t = (n, t')" by (cases "?stmt t")
  note del = delete_oldest [OF Cons.prems(1), where stamp = stamp and P = P and batch = batch]
  have early: "length (filter (\<lambda>p. stamp (snd p) < c) t') \<le> length (filter (\<lambda>p. stamp (snd p) < c) t) - batch"
    using delete_early [where stamp = stamp and P = P and batch = batch and c = c, OF Cons.prems(1) assms(1)] s by simp
  show ?case
  proof (cases "n = 0")
    case True
    then have "length (filter (\<lambda>p. P (snd p)) t') = 0"
      using del(1,2) s assms(2) by (auto simp: min_def split: if_splits)
    then have "filter (\<lambda>p. P (snd p)) t' = []" by simp
    then have "filter (\<lambda>p. stamp (snd p) < c) t' = []" using assms(1) by (auto simp: filter_empty_conv)
    with True s Cons.prems(2) show ?thesis by simp
  next
    case False
    have "distinct (map fst t')" using del(4) s by simp
    from Cons.IH [OF this, of "rows + n"] Cons.prems(2) early False show ?thesis by (simp add: s)
  qed
qed simp

end
