(* ===== verification/Audit_Retention.thy ===== *)
theory Audit_Retention
  imports Account_Deletion Job_Batches
begin

text \<open>
  The retention of the audit trail: \<^verbatim>\<open>apps/bff/src/services/audit-retention.ts\<close> on the table
  \<open>audit_log\<close> of migrations 0002 and 0006. A statement is what it does to the table at a time of the
  database, which a run reads once. \<open>gen_random_uuid()\<close> is a supply of fresh identifiers; the order in which
  \<open>GROUP BY\<close> lists the users is a parameter, since the language leaves it open; the answers of the
  driver are arguments.
\<close>

subsection \<open>The table\<close>

text \<open>An address: its groups, of 8 or 16 bits, and the length of its prefix.\<close>

datatype inet = Inet4 "nat list" nat | Inet6 "nat list" nat

text \<open>\<open>network(set_masklen(ip, 24))\<close>, and with 48 for the other family.\<close>

fun truncate_ip :: "inet \<Rightarrow> inet" where
  "truncate_ip (Inet4 gs m) = Inet4 (take 3 gs @ [0]) 24"
| "truncate_ip (Inet6 gs m) = Inet6 (take 3 gs @ replicate 5 0) 48"

record audit_row =
  al_userId :: "string option"
  al_action :: string
  al_subjectRef :: "string option"
  al_outcome :: string
  al_detail :: "json option"
  al_ip :: "inet option"
  al_createdAt :: time
  al_pseudonym :: "string option"
  al_anonymizedAt :: "time option"

type_synonym audit_table = "(nat \<times> audit_row) list"

text \<open>The constraint \<open>audit_log_identity_chk\<close>.\<close>

definition identity_chk :: "audit_row \<Rightarrow> bool" where
  "identity_chk r \<longleftrightarrow> (al_anonymizedAt r = None \<and> al_pseudonym r = None) \<or> (al_anonymizedAt r \<noteq> None \<and> al_userId r = None)"

subsection \<open>The options\<close>

record retention_options =
  ao_fullFidelityDays :: int
  ao_postDeletionDays :: int
  ao_hardDeleteDays :: int
  ao_tokenIpDays :: int
  ao_usersPerBatch :: nat
  ao_rowsPerBatch :: nat
  ao_maxBatchesPerStatement :: nat
  ao_freshnessHours :: int

definition AUDIT_RETENTION_DEFAULTS :: retention_options where
  "AUDIT_RETENTION_DEFAULTS = \<lparr>ao_fullFidelityDays = 90, ao_postDeletionDays = 30, ao_hardDeleteDays = 400, ao_tokenIpDays = 90,
     ao_usersPerBatch = 500, ao_rowsPerBatch = 10000, ao_maxBatchesPerStatement = 20, ao_freshnessHours = 48\<rparr>"

text \<open>The overrides in their order; the first that is refused stops the job.\<close>

definition auditRetentionOptionsFromEnv :: "(string \<Rightarrow> string option) \<Rightarrow> string + retention_options" where
  "auditRetentionOptionsFromEnv env =
     (let d = AUDIT_RETENTION_DEFAULTS;
          read = (\<lambda>name fallback next. case intFromEnv name fallback env of Inl err \<Rightarrow> Inl err | Inr n \<Rightarrow> next n)
      in read ''AUDIT_FULL_FIDELITY_DAYS'' (ao_fullFidelityDays d) (\<lambda>full.
         read ''AUDIT_POST_DELETION_DAYS'' (ao_postDeletionDays d) (\<lambda>post.
         read ''AUDIT_HARD_DELETE_DAYS'' (ao_hardDeleteDays d) (\<lambda>hard.
         read ''AUDIT_TOKEN_IP_DAYS'' (ao_tokenIpDays d) (\<lambda>tok.
         read ''AUDIT_USERS_PER_BATCH'' (int (ao_usersPerBatch d)) (\<lambda>users.
         read ''AUDIT_ROWS_PER_BATCH'' (int (ao_rowsPerBatch d)) (\<lambda>rows.
         read ''AUDIT_MAX_BATCHES'' (int (ao_maxBatchesPerStatement d)) (\<lambda>batches.
         read ''AUDIT_FRESHNESS_HOURS'' (ao_freshnessHours d) (\<lambda>fresh.
           Inr \<lparr>ao_fullFidelityDays = full, ao_postDeletionDays = post, ao_hardDeleteDays = hard, ao_tokenIpDays = tok,
                ao_usersPerBatch = nat users, ao_rowsPerBatch = nat rows, ao_maxBatchesPerStatement = nat batches,
                ao_freshnessHours = fresh\<rparr>)))))))))"

subsection \<open>The statements\<close>

definition days_before :: "time \<Rightarrow> int \<Rightarrow> time" where
  "days_before now days = now - days * 86400000"

text \<open>\<open>UPDATE\<close>: the rows that \<open>f\<close> changes, and their number.\<close>

definition update_rows :: "(nat \<Rightarrow> audit_row \<Rightarrow> audit_row option) \<Rightarrow> audit_table \<Rightarrow> nat \<times> audit_table" where
  "update_rows f t = (length (filter (\<lambda>(i, r). f i r \<noteq> None) t), map (\<lambda>(i, r). (i, orelse (f i r) r)) t)"

definition scrubbed :: "time \<Rightarrow> string option \<Rightarrow> audit_row \<Rightarrow> audit_row" where
  "scrubbed now pseudonym r = r\<lparr>al_userId := None, al_pseudonym := pseudonym, al_ip := map_option truncate_ip (al_ip r),
     al_anonymizedAt := Some now\<rparr>"

text \<open>The tables the job works on, and how many identifiers the supply has given out.\<close>

record retention_world =
  tw_log :: audit_table
  tw_deletions :: "deletion_entry list"
  tw_tokens :: "token_row list"
  tw_minted :: nat

record retention_env =
  rv_uuid :: "nat \<Rightarrow> string"
  rv_order :: "string list \<Rightarrow> string list"
  rv_hostNow :: time
  rv_deleted :: "nat \<Rightarrow> batch_reply"
  rv_aged :: "nat \<Rightarrow> batch_reply"
  rv_orphans :: "nat \<Rightarrow> batch_reply"
  rv_expired :: "nat \<Rightarrow> batch_reply"
  rv_tokenIps :: batch_reply

definition stale_row :: "time \<Rightarrow> audit_row \<Rightarrow> bool" where
  "stale_row edge r \<longleftrightarrow> al_anonymizedAt r = None \<and> al_createdAt r < edge"

definition was_deleted :: "retention_world \<Rightarrow> string \<Rightarrow> bool" where
  "was_deleted w u \<longleftrightarrow> list_ex (\<lambda>d. de_userId d = u) (tw_deletions w)"

text \<open>The common part of the first two statements: \<open>victims\<close>, \<open>assigned\<close> and the update.\<close>

definition victims :: "retention_env \<Rightarrow> (string \<Rightarrow> bool) \<Rightarrow> time \<Rightarrow> nat \<Rightarrow> retention_world \<Rightarrow> string list" where
  "victims env qualifies edge n w =
     take n (rv_order env (remdups (List.map_filter (\<lambda>(i, r). case al_userId r of
        None \<Rightarrow> None
      | Some u \<Rightarrow> if stale_row edge r \<and> qualifies u then Some u else None) (tw_log w))))"

definition assigned :: "retention_env \<Rightarrow> string list \<Rightarrow> retention_world \<Rightarrow> string \<Rightarrow> string option" where
  "assigned env us w = map_of (zip us (map (rv_uuid env) [tw_minted w..<tw_minted w + length us]))"

definition anonymize_users ::
  "retention_env \<Rightarrow> (string \<Rightarrow> bool) \<Rightarrow> time \<Rightarrow> int \<Rightarrow> nat \<Rightarrow> retention_world \<Rightarrow> nat \<times> retention_world" where
  "anonymize_users env qualifies now days n w =
     (let edge = days_before now days; us = victims env qualifies edge n w; pseudonym = assigned env us w
      in case update_rows (\<lambda>i r. case al_userId r of
             None \<Rightarrow> None
           | Some u \<Rightarrow> if stale_row edge r then map_option (\<lambda>p. scrubbed now (Some p) r) (pseudonym u) else None) (tw_log w) of
           (k, t) \<Rightarrow> (k, w\<lparr>tw_log := t, tw_minted := tw_minted w + length us\<rparr>))"

definition ANONYMIZE_DELETED :: "retention_env \<Rightarrow> time \<Rightarrow> int \<Rightarrow> nat \<Rightarrow> retention_world \<Rightarrow> nat \<times> retention_world" where
  "ANONYMIZE_DELETED env now days n w = anonymize_users env (was_deleted w) now days n w"

definition ANONYMIZE_AGED :: "retention_env \<Rightarrow> time \<Rightarrow> int \<Rightarrow> nat \<Rightarrow> retention_world \<Rightarrow> nat \<times> retention_world" where
  "ANONYMIZE_AGED env now days n w = anonymize_users env (\<lambda>_. True) now days n w"

definition ANONYMIZE_ORPHANS :: "time \<Rightarrow> int \<Rightarrow> nat \<Rightarrow> retention_world \<Rightarrow> nat \<times> retention_world" where
  "ANONYMIZE_ORPHANS now days n w =
     (let ids = oldest al_createdAt (\<lambda>r. stale_row (days_before now days) r \<and> al_userId r = None) n (tw_log w)
      in case update_rows (\<lambda>i r. if i \<in> set ids
             then Some (r\<lparr>al_ip := map_option truncate_ip (al_ip r), al_anonymizedAt := Some now\<rparr>) else None) (tw_log w) of
           (k, t) \<Rightarrow> (k, w\<lparr>tw_log := t\<rparr>))"

definition HARD_DELETE :: "time \<Rightarrow> int \<Rightarrow> nat \<Rightarrow> retention_world \<Rightarrow> nat \<times> retention_world" where
  "HARD_DELETE now days n w =
     (case delete_oldest al_createdAt (\<lambda>r. al_createdAt r < days_before now days \<and> al_anonymizedAt r \<noteq> None) n (tw_log w) of
        (k, t) \<Rightarrow> (k, w\<lparr>tw_log := t\<rparr>))"

definition EXPIRE_TOKEN_IPS :: "time \<Rightarrow> int \<Rightarrow> retention_world \<Rightarrow> nat \<times> retention_world" where
  "EXPIRE_TOKEN_IPS now days w =
     (let due = (\<lambda>t. tk_lastUsedIp t \<noteq> None \<and>
            (case tk_lastUsedAt t of None \<Rightarrow> True | Some used \<Rightarrow> used < days_before now days))
      in (length (filter due (tw_tokens w)),
          w\<lparr>tw_tokens := map (\<lambda>t. if due t then t\<lparr>tk_lastUsedIp := None\<rparr> else t) (tw_tokens w)\<rparr>))"

text \<open>The standing invariant: the rows past the window and a day, and the latest anonymization.\<close>

definition retention_invariant :: "time \<Rightarrow> retention_options \<Rightarrow> retention_world \<Rightarrow> nat \<times> time option" where
  "retention_invariant now opts w =
     (length (filter (\<lambda>(i, r). stale_row (days_before now (ao_fullFidelityDays opts + 1)) r) (tw_log w)),
      let ts = List.map_filter (\<lambda>(i, r). al_anonymizedAt r) (tw_log w) in if ts = [] then None else Some (Max (set ts)))"

subsection \<open>The run\<close>

record retention_outcome =
  ax_ran :: bool
  ax_anonymizedDeleted :: nat
  ax_anonymizedAged :: nat
  ax_anonymizedOrphan :: nat
  ax_hardDeleted :: nat
  ax_tokenIpsCleared :: nat
  ax_pendingBeyondWindow :: nat
  ax_stale :: bool
  ax_failed :: nat
  ax_capped :: bool

definition retention_nothing :: retention_outcome where
  "retention_nothing = \<lparr>ax_ran = False, ax_anonymizedDeleted = 0, ax_anonymizedAged = 0, ax_anonymizedOrphan = 0, ax_hardDeleted = 0,
     ax_tokenIpsCleared = 0, ax_pendingBeyondWindow = 0, ax_stale = False, ax_failed = 0, ax_capped = False\<rparr>"

text \<open>The number of rows the driver counted, if the statement ran and it did.\<close>

definition token_pass :: "batch_reply \<Rightarrow> nat \<times> retention_world \<Rightarrow> retention_world \<Rightarrow> nat option \<times> retention_world" where
  "token_pass reply done w = (case reply of
     Batch_throws \<Rightarrow> (None, w) | Batch_unknown \<Rightarrow> (None, snd done) | Batch_counted \<Rightarrow> (Some (fst done), snd done))"

definition retention_batched ::
  "retention_options \<Rightarrow> (retention_world \<Rightarrow> nat \<times> retention_world) \<Rightarrow> (nat \<Rightarrow> batch_reply) \<Rightarrow> retention_world \<Rightarrow>
     batch_result \<times> retention_world" where
  "retention_batched opts stmt replies w = batched stmt (map replies [0..<ao_maxBatchesPerStatement opts]) 0 w"

definition retention_sweep ::
  "retention_env \<Rightarrow> retention_options \<Rightarrow> time \<Rightarrow> retention_world \<Rightarrow> retention_outcome \<times> retention_world" where
  "retention_sweep env opts now w =
     (let before = retention_invariant now opts w;
          staleCutoff = rv_hostNow env - ao_freshnessHours opts * 3600000;
          stale = (0 < fst before \<and> (case snd before of None \<Rightarrow> True | Some lastAt \<Rightarrow> lastAt < staleCutoff))
      in case retention_batched opts (ANONYMIZE_DELETED env now (ao_postDeletionDays opts) (ao_usersPerBatch opts)) (rv_deleted env) w of
          (deleted, w1) \<Rightarrow>
         (case retention_batched opts (ANONYMIZE_AGED env now (ao_fullFidelityDays opts) (ao_usersPerBatch opts)) (rv_aged env) w1 of
          (aged, w2) \<Rightarrow>
         (case retention_batched opts (ANONYMIZE_ORPHANS now (ao_fullFidelityDays opts) (ao_rowsPerBatch opts)) (rv_orphans env) w2 of
          (orphan, w3) \<Rightarrow>
         (case retention_batched opts (HARD_DELETE now (ao_hardDeleteDays opts) (ao_rowsPerBatch opts)) (rv_expired env) w3 of
          (expired, w4) \<Rightarrow>
         (case token_pass (rv_tokenIps env) (EXPIRE_TOKEN_IPS now (ao_tokenIpDays opts) w4) w4 of
          (cleared, w5) \<Rightarrow>
            (\<lparr>ax_ran = True, ax_anonymizedDeleted = br_rows deleted, ax_anonymizedAged = br_rows aged,
              ax_anonymizedOrphan = br_rows orphan, ax_hardDeleted = br_rows expired, ax_tokenIpsCleared = orelse cleared 0,
              ax_pendingBeyondWindow = fst (retention_invariant now opts w5), ax_stale = stale,
              ax_failed = (if br_failed deleted then 1 else 0) + (if br_failed aged then 1 else 0) +
                (if br_failed orphan then 1 else 0) + (if br_failed expired then 1 else 0) + (if cleared = None then 1 else 0),
              ax_capped = (br_capped deleted \<or> br_capped aged \<or> br_capped orphan \<or> br_capped expired)\<rparr>, w5))))))"

definition AUDIT_RETENTION_LOCK_KEY :: string where
  "AUDIT_RETENTION_LOCK_KEY = ''audit:retention-purge''"

definition retention_run ::
  "(string \<Rightarrow> int) \<Rightarrow> nat \<Rightarrow> retention_env \<Rightarrow> retention_options \<Rightarrow> time \<Rightarrow> lock_table \<Rightarrow> retention_world \<Rightarrow>
     retention_outcome \<times> retention_world \<times> lock_table" where
  "retention_run hashtext session env opts now locks w =
     (case tryAdvisoryLock hashtext session (ln_auditRetention LOCK_NAMESPACE) AUDIT_RETENTION_LOCK_KEY locks of
        (False, locks') \<Rightarrow> (retention_nothing, w, locks')
      | (True, locks') \<Rightarrow>
          (case retention_sweep env opts now w of (out, w') \<Rightarrow>
             (out, w', advisoryUnlock hashtext session (ln_auditRetention LOCK_NAMESPACE) AUDIT_RETENTION_LOCK_KEY locks')))"


subsection \<open>What a statement does to a row\<close>

lemma update_rows_keys [simp]: "map fst (snd (update_rows f t)) = map fst t"
  by (simp add: update_rows_def comp_def case_prod_unfold)

lemma update_rows_row: "(i, r') \<in> set (snd (update_rows f t)) \<longleftrightarrow> (\<exists>r. (i, r) \<in> set t \<and> r' = orelse (f i r) r)"
  by (auto simp: update_rows_def image_iff) force

text \<open>If exactly rows that qualify are hit, and none qualifies after it, the number of the hits is the work done.\<close>

lemma update_rows_work:
  assumes "\<And>i r r'. (i, r) \<in> set t \<Longrightarrow> f i r = Some r' \<Longrightarrow> P r \<and> \<not> P r'"
  shows "length (filter (\<lambda>(i, r). P r) (snd (update_rows f t))) + fst (update_rows f t) = length (filter (\<lambda>(i, r). P r) t)"
  using assms
proof (induction t)
  case (Cons x t)
  obtain i r where x: "x = (i, r)" by (cases x)
  have "length (filter (\<lambda>(i, r). P r) (snd (update_rows f t))) + fst (update_rows f t) = length (filter (\<lambda>(i, r). P r) t)"
    by (rule Cons.IH) (use Cons.prems in auto)
  with Cons.prems [of i r] x show ?case by (cases "f i r") (auto simp: update_rows_def)
qed (simp add: update_rows_def)

text \<open>The three updates hit rows that are not anonymized, and leave them scrubbed.\<close>

definition scrubs :: "time \<Rightarrow> audit_row \<Rightarrow> audit_row \<Rightarrow> bool" where
  "scrubs now r r' \<longleftrightarrow> al_anonymizedAt r = None \<and> (\<exists>q. r' = scrubbed now q r) \<and> (al_userId r = None \<longrightarrow> al_pseudonym r' = al_pseudonym r)"

lemma users_row:
  assumes "(i, r') \<in> set (tw_log (snd (anonymize_users env q now days n w)))"
  shows "\<exists>r. (i, r) \<in> set (tw_log w) \<and>
    (r' = r \<or> scrubs now r r' \<and> al_createdAt r < days_before now days \<and> (\<exists>u. al_userId r = Some u \<and> u \<in> set (victims env q (days_before now days) n w)))"
proof -
  from assms obtain r where r: "(i, r) \<in> set (tw_log w)"
    "r' = orelse (case al_userId r of None \<Rightarrow> None
       | Some u \<Rightarrow> if stale_row (days_before now days) r
                   then map_option (\<lambda>p. scrubbed now (Some p) r) (assigned env (victims env q (days_before now days) n w) w u) else None) r"
    by (auto simp: anonymize_users_def Let_def update_rows_row split: prod.splits dest!: arg_cong [where f = snd])
  show ?thesis
  proof (cases "r' = r")
    case False
    with r(2) obtain u p where u: "al_userId r = Some u" "stale_row (days_before now days) r"
      "assigned env (victims env q (days_before now days) n w) w u = Some p" "r' = scrubbed now (Some p) r"
      by (cases "al_userId r"; cases "assigned env (victims env q (days_before now days) n w) w (the (al_userId r))")
        (auto split: if_splits)
    then have "u \<in> set (victims env q (days_before now days) n w)"
      by (auto simp: assigned_def dest: map_of_SomeD set_zip_leftD)
    with u r(1) show ?thesis by (auto simp: scrubs_def stale_row_def)
  qed (use r(1) in blast)
qed


lemma orphans_row:
  assumes "(i, r') \<in> set (tw_log (snd (ANONYMIZE_ORPHANS now days n w)))" and "distinct (map fst (tw_log w))"
  shows "\<exists>r. (i, r) \<in> set (tw_log w) \<and> (r' = r \<or> scrubs now r r' \<and> al_createdAt r < days_before now days \<and> al_userId r = None)"
proof -
  let ?P = "\<lambda>r. stale_row (days_before now days) r \<and> al_userId r = None"
  from assms(1) obtain r where r: "(i, r) \<in> set (tw_log w)"
    "r' = (if i \<in> set (oldest al_createdAt ?P n (tw_log w))
           then r\<lparr>al_ip := map_option truncate_ip (al_ip r), al_anonymizedAt := Some now\<rparr> else r)"
    by (auto simp: ANONYMIZE_ORPHANS_def Let_def update_rows_row split: prod.splits if_splits dest!: arg_cong [where f = snd])
  show ?thesis
  proof (cases "r' = r")
    case False
    with r(2) have "i \<in> set (oldest al_createdAt ?P n (tw_log w))" and r': "r' = r\<lparr>al_ip := map_option truncate_ip (al_ip r), al_anonymizedAt := Some now\<rparr>"
      by (auto split: if_splits)
    with oldest_keys(2) [OF assms(2), where p = "(i, r)" and stamp = al_createdAt and P = ?P and batch = n] r(1)
    have due: "?P r" by simp
    then have "r' = scrubbed now (al_pseudonym r) r" by (simp add: r' scrubbed_def)
    then have "scrubs now r r'" using due by (auto simp: scrubs_def stale_row_def) (simp add: scrubbed_def)
    with due r(1) show ?thesis by (auto simp: stale_row_def)
  qed (use r(1) in blast)
qed

lemma hard_delete_row:
  assumes "distinct (map fst (tw_log w))"
  shows "set (tw_log (snd (HARD_DELETE now days n w))) \<subseteq> set (tw_log w)"
    and "p \<in> set (tw_log w) \<Longrightarrow> p \<notin> set (tw_log (snd (HARD_DELETE now days n w))) \<Longrightarrow>
      al_createdAt (snd p) < days_before now days \<and> al_anonymizedAt (snd p) \<noteq> None"
proof -
  let ?P = "\<lambda>r. al_createdAt r < days_before now days \<and> al_anonymizedAt r \<noteq> None"
  have log: "tw_log (snd (HARD_DELETE now days n w)) = snd (delete_oldest al_createdAt ?P n (tw_log w))"
    by (simp add: HARD_DELETE_def split: prod.split)
  show "set (tw_log (snd (HARD_DELETE now days n w))) \<subseteq> set (tw_log w)"
    by (auto simp: log delete_oldest_def Let_def)
  show "p \<in> set (tw_log w) \<Longrightarrow> p \<notin> set (tw_log (snd (HARD_DELETE now days n w))) \<Longrightarrow> ?P (snd p)"
    using oldest_keys(2) [OF assms, where p = p and stamp = al_createdAt and P = ?P and batch = n]
    by (simp add: log delete_oldest_def Let_def)
qed

lemma statement_keys:
  "map fst (tw_log (snd (anonymize_users env q now days n w))) = map fst (tw_log w)"
  "map fst (tw_log (snd (ANONYMIZE_ORPHANS now days n w))) = map fst (tw_log w)"
  by (simp_all add: anonymize_users_def ANONYMIZE_ORPHANS_def Let_def update_rows_def comp_def case_prod_unfold split: prod.split)

lemma statement_rest:
  "tw_deletions (snd (anonymize_users env q now days n w)) = tw_deletions w"
  "tw_deletions (snd (ANONYMIZE_ORPHANS now days n w)) = tw_deletions w"
  "tw_deletions (snd (HARD_DELETE now days n w)) = tw_deletions w"
  "tw_tokens (snd (anonymize_users env q now days n w)) = tw_tokens w"
  "tw_tokens (snd (ANONYMIZE_ORPHANS now days n w)) = tw_tokens w"
  "tw_tokens (snd (HARD_DELETE now days n w)) = tw_tokens w"
  by (simp_all add: anonymize_users_def ANONYMIZE_ORPHANS_def HARD_DELETE_def Let_def split: prod.split)

subsection \<open>What a run keeps\<close>

text \<open>A row is due: past the window, or past the shorter one when the deletion log has an entry for its
  user. That is any entry: the statement joins the table and reads no column of it but the user, and
  a request that was refused before anything was deleted leaves one too.\<close>

definition retention_due :: "retention_options \<Rightarrow> time \<Rightarrow> retention_world \<Rightarrow> audit_row \<Rightarrow> bool" where
  "retention_due opts now w r \<longleftrightarrow> al_createdAt r < days_before now (ao_fullFidelityDays opts) \<or>
     al_createdAt r < days_before now (ao_postDeletionDays opts) \<and> (\<exists>u. al_userId r = Some u \<and> was_deleted w u)"

text \<open>Where a table of a run comes from: each row was there and is as it was, or was due and is scrubbed;
  each row that is missing was old, and anonymized or due.\<close>

definition traces :: "retention_options \<Rightarrow> time \<Rightarrow> retention_world \<Rightarrow> retention_world \<Rightarrow> bool" where
  "traces opts now w w' \<longleftrightarrow> distinct (map fst (tw_log w)) \<and> distinct (map fst (tw_log w')) \<and> tw_deletions w' = tw_deletions w \<and>
     (\<forall>(i, r') \<in> set (tw_log w'). \<exists>r. (i, r) \<in> set (tw_log w) \<and> (r' = r \<or> scrubs now r r' \<and> retention_due opts now w r)) \<and>
     (\<forall>(i, r) \<in> set (tw_log w). i \<in> fst ` set (tw_log w') \<or>
        al_createdAt r < days_before now (ao_hardDeleteDays opts) \<and> (al_anonymizedAt r \<noteq> None \<or> retention_due opts now w r))"

lemma traces_refl: "distinct (map fst (tw_log w)) \<Longrightarrow> traces opts now w w"
  by (force simp: traces_def)

text \<open>A further update of rows that are due.\<close>

lemma traces_update:
  assumes "traces opts now w w'" "map fst (tw_log w'') = map fst (tw_log w')" "tw_deletions w'' = tw_deletions w'"
    and "\<And>i r'. (i, r') \<in> set (tw_log w'') \<Longrightarrow> \<exists>r. (i, r) \<in> set (tw_log w') \<and> (r' = r \<or> scrubs now r r' \<and> retention_due opts now w r)"
  shows "traces opts now w w''"
proof -
  have "\<exists>r. (i, r) \<in> set (tw_log w) \<and> (r' = r \<or> scrubs now r r' \<and> retention_due opts now w r)" if "(i, r') \<in> set (tw_log w'')" for i r'
  proof -
    from assms(4) [OF that] obtain s where s: "(i, s) \<in> set (tw_log w')" "r' = s \<or> scrubs now s r' \<and> retention_due opts now w s" by blast
    from assms(1) s(1) obtain r where r: "(i, r) \<in> set (tw_log w)" "s = r \<or> scrubs now r s \<and> retention_due opts now w r"
      by (auto simp: traces_def)
    have "s = r \<or> r' = s" using s(2) r(2) by (auto simp: scrubs_def scrubbed_def)
    with r s(2) show ?thesis by auto
  qed
  moreover have "fst ` set (tw_log w'') = fst ` set (tw_log w')" using assms(2) by (metis set_map)
  ultimately show ?thesis using assms(1-3) by (auto simp: traces_def)
qed


text \<open>The database lists the users it grouped, in some order.\<close>

definition fair :: "retention_env \<Rightarrow> bool" where
  "fair env \<longleftrightarrow> (\<forall>us. mset (rv_order env us) = mset us)"

lemma set_map_filter: "set (List.map_filter f xs) = {y. \<exists>x \<in> set xs. f x = Some y}"
  by (induction xs) (auto simp: List.map_filter_def split: option.splits)

lemma victims_qualify:
  assumes "fair env" "u \<in> set (victims env q edge n w)"
  shows "q u \<and> (\<exists>i r. (i, r) \<in> set (tw_log w) \<and> al_userId r = Some u \<and> stale_row edge r)"
proof -
  let ?us = "remdups (List.map_filter (\<lambda>(i, r). case al_userId r of None \<Rightarrow> None
        | Some u \<Rightarrow> if stale_row edge r \<and> q u then Some u else None) (tw_log w))"
  have "set (rv_order env ?us) = set ?us" by (rule mset_eq_setD) (use assms(1) in \<open>simp only: fair_def\<close>)
  moreover have "u \<in> set (rv_order env ?us)" using assms(2) unfolding victims_def by (rule in_set_takeD)
  ultimately have "u \<in> set ?us" by simp
  then show ?thesis by (auto simp: set_map_filter split: option.splits if_splits) blast
qed

lemma was_deleted_cong: "tw_deletions w' = tw_deletions w \<Longrightarrow> was_deleted w' = was_deleted w"
  by (simp add: was_deleted_def fun_eq_iff)

lemma traces_users:
  assumes "traces opts now w w'" "fair env"
    and "\<And>r u. al_userId r = Some u \<Longrightarrow> q u \<Longrightarrow> al_createdAt r < days_before now days \<Longrightarrow> retention_due opts now w r"
  shows "traces opts now w (snd (anonymize_users env q now days n w'))"
proof (rule traces_update [OF assms(1)])
  fix i r' assume "(i, r') \<in> set (tw_log (snd (anonymize_users env q now days n w')))"
  from users_row [OF this] obtain r where r: "(i, r) \<in> set (tw_log w')"
    "r' = r \<or> scrubs now r r' \<and> al_createdAt r < days_before now days \<and>
       (\<exists>u. al_userId r = Some u \<and> u \<in> set (victims env q (days_before now days) n w'))" by blast
  show "\<exists>r. (i, r) \<in> set (tw_log w') \<and> (r' = r \<or> scrubs now r r' \<and> retention_due opts now w r)"
  proof (cases "r' = r")
    case False
    with r(2) obtain u where u: "scrubs now r r'" "al_createdAt r < days_before now days" "al_userId r = Some u"
      "u \<in> set (victims env q (days_before now days) n w')" by blast
    with victims_qualify [OF assms(2) u(4)] assms(3) have "retention_due opts now w r" by blast
    with u(1) r(1) show ?thesis by blast
  qed (use r(1) in blast)
qed (simp_all add: statement_keys statement_rest)

lemma traces_deleted:
  "traces opts now w w' \<Longrightarrow> fair env \<Longrightarrow> traces opts now w (snd (ANONYMIZE_DELETED env now (ao_postDeletionDays opts) n w'))"
  unfolding ANONYMIZE_DELETED_def
  by (rule traces_users) (auto simp: retention_due_def traces_def was_deleted_cong [of w' w])

lemma traces_aged:
  "traces opts now w w' \<Longrightarrow> fair env \<Longrightarrow> traces opts now w (snd (ANONYMIZE_AGED env now (ao_fullFidelityDays opts) n w'))"
  unfolding ANONYMIZE_AGED_def by (rule traces_users) (auto simp: retention_due_def)

lemma traces_orphans:
  assumes "traces opts now w w'"
  shows "traces opts now w (snd (ANONYMIZE_ORPHANS now (ao_fullFidelityDays opts) n w'))"
proof (rule traces_update [OF assms])
  have "distinct (map fst (tw_log w'))" using assms by (simp add: traces_def)
  then show "\<exists>r. (i, r) \<in> set (tw_log w') \<and> (r' = r \<or> scrubs now r r' \<and> retention_due opts now w r)"
    if "(i, r') \<in> set (tw_log (snd (ANONYMIZE_ORPHANS now (ao_fullFidelityDays opts) n w')))" for i r'
    using orphans_row [OF that] by (auto simp: retention_due_def)
qed (simp_all add: statement_keys statement_rest)

lemma traces_hard_delete:
  assumes "traces opts now w w'"
  shows "traces opts now w (snd (HARD_DELETE now (ao_hardDeleteDays opts) n w'))"
proof -
  let ?w = "snd (HARD_DELETE now (ao_hardDeleteDays opts) n w')"
  have d: "distinct (map fst (tw_log w'))" using assms by (simp add: traces_def)
  have "distinct (map fst (tw_log ?w))"
    using delete_oldest(4) [OF d, where stamp = al_createdAt and batch = n
        and P = "\<lambda>r. al_createdAt r < days_before now (ao_hardDeleteDays opts) \<and> al_anonymizedAt r \<noteq> None"]
    by (simp add: HARD_DELETE_def case_prod_unfold)
  moreover have "i \<in> fst ` set (tw_log ?w) \<or>
      al_createdAt r < days_before now (ao_hardDeleteDays opts) \<and> (al_anonymizedAt r \<noteq> None \<or> retention_due opts now w r)"
    if r: "(i, r) \<in> set (tw_log w)" for i r
  proof (cases "i \<in> fst ` set (tw_log w')")
    case True
    then obtain r' where r': "(i, r') \<in> set (tw_log w')" by auto
    with assms obtain s where s: "(i, s) \<in> set (tw_log w)" "r' = s \<or> scrubs now s r' \<and> retention_due opts now w s"
      by (auto simp: traces_def)
    show ?thesis
    proof (cases "(i, r') \<in> set (tw_log ?w)")
      case True
      then show ?thesis by force
    next
      case False
      from hard_delete_row(2) [OF d r' False] have gone: "al_createdAt r' < days_before now (ao_hardDeleteDays opts)" "al_anonymizedAt r' \<noteq> None"
        by simp_all
      have "s = r" using assms s(1) r by (auto simp: traces_def dest: eq_key_imp_eq_value)
      with s(2) gone show ?thesis by (auto simp: scrubs_def scrubbed_def)
    qed
  qed (use assms r in \<open>auto simp: traces_def\<close>)
  ultimately show ?thesis
    using assms hard_delete_row(1) [OF d, of now "ao_hardDeleteDays opts" n] by (auto simp: traces_def statement_rest)
qed


lemma tokens_stay:
  "tk \<in> set (tw_tokens w) \<Longrightarrow>
     \<exists>tk' \<in> set (tw_tokens (snd (EXPIRE_TOKEN_IPS now days w))). tk_id tk' = tk_id tk \<and> tk_userId tk' = tk_userId tk"
proof -
  let ?f = "\<lambda>t. if tk_lastUsedIp t \<noteq> None \<and> (case tk_lastUsedAt t of None \<Rightarrow> True | Some used \<Rightarrow> used < days_before now days)
      then t\<lparr>tk_lastUsedIp := None\<rparr> else t"
  have "tw_tokens (snd (EXPIRE_TOKEN_IPS now days w)) = map ?f (tw_tokens w)" by (simp add: EXPIRE_TOKEN_IPS_def Let_def)
  moreover assume "tk \<in> set (tw_tokens w)"
  ultimately have "?f tk \<in> set (tw_tokens (snd (EXPIRE_TOKEN_IPS now days w)))" by (simp only: set_map) (rule imageI)
  moreover have "tk_id (?f tk) = tk_id tk \<and> tk_userId (?f tk) = tk_userId tk" by simp
  ultimately show ?thesis by blast
qed

lemma stage_keeps:
  "retention_batched opts stmt replies v = (r, v') \<Longrightarrow> I v \<Longrightarrow> (\<And>u. I u \<Longrightarrow> I (snd (stmt u))) \<Longrightarrow> I v'"
  using batched_keeps [where I = I and stmt = stmt] unfolding retention_batched_def by (metis snd_conv)

text \<open>The tables between the statements of a run.\<close>

lemma sweep_stages:
  assumes "retention_sweep env opts now w = (out, w')"
  obtains deleted w1 aged w2 orphan w3 expired w4 where
    "retention_batched opts (ANONYMIZE_DELETED env now (ao_postDeletionDays opts) (ao_usersPerBatch opts)) (rv_deleted env) w = (deleted, w1)"
    "retention_batched opts (ANONYMIZE_AGED env now (ao_fullFidelityDays opts) (ao_usersPerBatch opts)) (rv_aged env) w1 = (aged, w2)"
    "retention_batched opts (ANONYMIZE_ORPHANS now (ao_fullFidelityDays opts) (ao_rowsPerBatch opts)) (rv_orphans env) w2 = (orphan, w3)"
    "retention_batched opts (HARD_DELETE now (ao_hardDeleteDays opts) (ao_rowsPerBatch opts)) (rv_expired env) w3 = (expired, w4)"
    "tw_log w' = tw_log w4" "tw_deletions w' = tw_deletions w4"
    "\<forall>tk \<in> set (tw_tokens w4). \<exists>tk' \<in> set (tw_tokens w'). tk_id tk' = tk_id tk \<and> tk_userId tk' = tk_userId tk"
    "ax_pendingBeyondWindow out = fst (retention_invariant now opts w')"
    "ax_failed out = 0 \<Longrightarrow> \<not> br_failed deleted \<and> \<not> br_failed aged \<and> \<not> br_failed orphan \<and> \<not> br_failed expired"
    "\<not> ax_capped out \<Longrightarrow> \<not> br_capped deleted \<and> \<not> br_capped aged \<and> \<not> br_capped orphan \<and> \<not> br_capped expired"
proof -
  obtain deleted w1 where 1: "retention_batched opts (ANONYMIZE_DELETED env now (ao_postDeletionDays opts) (ao_usersPerBatch opts)) (rv_deleted env) w = (deleted, w1)"
    by (rule prod.exhaust)
  obtain aged w2 where 2: "retention_batched opts (ANONYMIZE_AGED env now (ao_fullFidelityDays opts) (ao_usersPerBatch opts)) (rv_aged env) w1 = (aged, w2)"
    by (rule prod.exhaust)
  obtain orphan w3 where 3: "retention_batched opts (ANONYMIZE_ORPHANS now (ao_fullFidelityDays opts) (ao_rowsPerBatch opts)) (rv_orphans env) w2 = (orphan, w3)"
    by (rule prod.exhaust)
  obtain expired w4 where 4: "retention_batched opts (HARD_DELETE now (ao_hardDeleteDays opts) (ao_rowsPerBatch opts)) (rv_expired env) w3 = (expired, w4)"
    by (rule prod.exhaust)
  obtain cleared w5 where 5: "token_pass (rv_tokenIps env) (EXPIRE_TOKEN_IPS now (ao_tokenIpDays opts) w4) w4 = (cleared, w5)"
    by (rule prod.exhaust)
  have w': "w' = w5" and out: "ax_pendingBeyondWindow out = fst (retention_invariant now opts w5)"
    "ax_failed out = 0 \<longrightarrow> \<not> br_failed deleted \<and> \<not> br_failed aged \<and> \<not> br_failed orphan \<and> \<not> br_failed expired"
    "\<not> ax_capped out \<longrightarrow> \<not> br_capped deleted \<and> \<not> br_capped aged \<and> \<not> br_capped orphan \<and> \<not> br_capped expired"
    using assms by (auto simp: retention_sweep_def Let_def 1 2 3 4 5)
  have "\<forall>tk \<in> set (tw_tokens w4). \<exists>tk' \<in> set (tw_tokens w5). tk_id tk' = tk_id tk \<and> tk_userId tk' = tk_userId tk"
    using 5 tokens_stay [of _ w4] by (auto simp: token_pass_def split: batch_reply.splits)
  moreover have "tw_log w5 = tw_log w4" "tw_deletions w5 = tw_deletions w4"
    using 5 by (auto simp: token_pass_def EXPIRE_TOKEN_IPS_def Let_def split: batch_reply.splits)
  ultimately show thesis using out unfolding w' [symmetric] by (intro that [OF 1 2 3 4]) (simp_all add: w')
qed

lemma sweep_traces:
  assumes "retention_sweep env opts now w = (out, w')" "distinct (map fst (tw_log w))" "fair env"
  shows "traces opts now w w'"
proof -
  from assms(1) obtain deleted w1 aged w2 orphan w3 expired w4 where w:
    "retention_batched opts (ANONYMIZE_DELETED env now (ao_postDeletionDays opts) (ao_usersPerBatch opts)) (rv_deleted env) w = (deleted, w1)"
    "retention_batched opts (ANONYMIZE_AGED env now (ao_fullFidelityDays opts) (ao_usersPerBatch opts)) (rv_aged env) w1 = (aged, w2)"
    "retention_batched opts (ANONYMIZE_ORPHANS now (ao_fullFidelityDays opts) (ao_rowsPerBatch opts)) (rv_orphans env) w2 = (orphan, w3)"
    "retention_batched opts (HARD_DELETE now (ao_hardDeleteDays opts) (ao_rowsPerBatch opts)) (rv_expired env) w3 = (expired, w4)"
    "tw_log w' = tw_log w4" "tw_deletions w' = tw_deletions w4" by (rule sweep_stages)
  have "traces opts now w w1" by (rule stage_keeps [where I = "traces opts now w", OF w(1) traces_refl [OF assms(2)] traces_deleted [OF _ assms(3)]])
  then have "traces opts now w w2" by (rule stage_keeps [where I = "traces opts now w", OF w(2) _ traces_aged [OF _ assms(3)]])
  then have "traces opts now w w3" by (rule stage_keeps [where I = "traces opts now w", OF w(3) _ traces_orphans])
  then have "traces opts now w w4" by (rule stage_keeps [where I = "traces opts now w", OF w(4) _ traces_hard_delete])
  then show ?thesis by (simp add: traces_def w(5,6) was_deleted_cong)
qed


subsection \<open>What a run reaches\<close>

text \<open>The statements never make a row that is not anonymized.\<close>

definition none_left :: "(audit_row \<Rightarrow> bool) \<Rightarrow> retention_world \<Rightarrow> bool" where
  "none_left Q w \<longleftrightarrow> (\<forall>p \<in> set (tw_log w). al_anonymizedAt (snd p) = None \<longrightarrow> \<not> Q (snd p))"

lemma scrubs_anonymized: "scrubs now r r' \<Longrightarrow> al_anonymizedAt r' = Some now"
  by (auto simp: scrubs_def scrubbed_def)

lemma none_left_statements:
  "none_left Q w \<Longrightarrow> none_left Q (snd (anonymize_users env q now days n w))"
  "none_left Q w \<Longrightarrow> distinct (map fst (tw_log w)) \<Longrightarrow> none_left Q (snd (ANONYMIZE_ORPHANS now days n w))"
  "none_left Q w \<Longrightarrow> distinct (map fst (tw_log w)) \<Longrightarrow> none_left Q (snd (HARD_DELETE now days n w))"
  using hard_delete_row(1) [of w now days n]
  by (auto simp: none_left_def dest!: users_row orphans_row dest: scrubs_anonymized)

definition work :: "(audit_row \<Rightarrow> bool) \<Rightarrow> retention_world \<Rightarrow> nat" where
  "work Q w = length (filter (\<lambda>(i, r). al_anonymizedAt r = None \<and> Q r) (tw_log w))"

lemma work_none: "work Q w = 0 \<longleftrightarrow> none_left Q w"
  by (auto simp: work_def none_left_def filter_empty_conv)

definition for_users :: "(string \<Rightarrow> bool) \<Rightarrow> time \<Rightarrow> audit_row \<Rightarrow> bool" where
  "for_users q edge r \<longleftrightarrow> al_createdAt r < edge \<and> (\<exists>u. al_userId r = Some u \<and> q u)"

definition for_nobody :: "time \<Rightarrow> audit_row \<Rightarrow> bool" where
  "for_nobody edge r \<longleftrightarrow> al_createdAt r < edge \<and> al_userId r = None"

lemma users_work:
  assumes "fair env"
  shows "work (for_users q (days_before now days)) (snd (anonymize_users env q now days n w)) + fst (anonymize_users env q now days n w) =
    work (for_users q (days_before now days)) w"
proof -
  let ?edge = "days_before now days"
  let ?f = "\<lambda>i r. case al_userId r of None \<Rightarrow> None
      | Some u \<Rightarrow> if stale_row ?edge r then map_option (\<lambda>p. scrubbed now (Some p) r) (assigned env (victims env q ?edge n w) w u) else None"
  have "(al_anonymizedAt r = None \<and> for_users q ?edge r) \<and> \<not> (al_anonymizedAt r' = None \<and> for_users q ?edge r')"
    if f: "?f i r = Some r'" for i :: nat and r r'
  proof -
    from f obtain u p where u: "al_userId r = Some u" "stale_row ?edge r" "assigned env (victims env q ?edge n w) w u = Some p" "r' = scrubbed now (Some p) r"
      by (cases "al_userId r"; cases "assigned env (victims env q ?edge n w) w (the (al_userId r))") (auto split: if_splits)
    then have "u \<in> set (victims env q ?edge n w)" by (auto simp: assigned_def dest: map_of_SomeD set_zip_leftD)
    from victims_qualify [OF assms this] have "q u" ..
    with u show ?thesis by (auto simp: for_users_def stale_row_def scrubbed_def)
  qed
  then have "length (filter (\<lambda>(i, r). al_anonymizedAt r = None \<and> for_users q ?edge r) (snd (update_rows ?f (tw_log w)))) + fst (update_rows ?f (tw_log w)) =
      length (filter (\<lambda>(i, r). al_anonymizedAt r = None \<and> for_users q ?edge r) (tw_log w))"
    by (rule update_rows_work)
  then show ?thesis by (simp add: work_def anonymize_users_def Let_def case_prod_unfold)
qed

lemma users_progress:
  assumes "fair env" "0 < work (for_users q (days_before now days)) w" "0 < n"
  shows "0 < fst (anonymize_users env q now days n w)"
proof -
  let ?edge = "days_before now days"
  let ?us = "remdups (List.map_filter (\<lambda>(i, r). case al_userId r of None \<Rightarrow> None
        | Some u \<Rightarrow> if stale_row ?edge r \<and> q u then Some u else None) (tw_log w))"
  obtain p where p: "p \<in> set (tw_log w)" "al_anonymizedAt (snd p) = None" "for_users q ?edge (snd p)"
    using assms(2) work_none [of "for_users q ?edge" w] by (auto simp: none_left_def)
  then obtain u where "al_userId (snd p) = Some u" "q u" by (auto simp: for_users_def)
  with p have "u \<in> set ?us"
    by (auto simp: set_map_filter for_users_def stale_row_def case_prod_unfold intro!: bexI [of _ p])
  moreover have "set (rv_order env ?us) = set ?us" by (rule mset_eq_setD) (use assms(1) in \<open>simp only: fair_def\<close>)
  ultimately have "rv_order env ?us \<noteq> []" by (metis empty_iff empty_set)
  then have "victims env q ?edge n w \<noteq> []" using assms(3) unfolding victims_def by (cases n) (auto simp: take_eq_Nil)
  then obtain v vs where vs: "victims env q ?edge n w = v # vs" by (cases "victims env q ?edge n w") auto
  then have "v \<in> set (victims env q ?edge n w)" by simp
  from victims_qualify [OF assms(1) this] obtain i r where r: "(i, r) \<in> set (tw_log w)" "al_userId r = Some v" "stale_row ?edge r" by blast
  have "assigned env (victims env q ?edge n w) w v \<noteq> None" by (simp add: assigned_def vs upt_conv_Cons)
  with r show ?thesis
    by (auto simp: anonymize_users_def Let_def update_rows_def case_prod_unfold filter_empty_conv intro!: bexI [of _ "(i, r)"])
qed


lemma orphans_work:
  assumes "distinct (map fst (tw_log w))"
  shows "fst (ANONYMIZE_ORPHANS now days n w) = min n (work (for_nobody (days_before now days)) w)"
    and "work (for_nobody (days_before now days)) (snd (ANONYMIZE_ORPHANS now days n w)) + fst (ANONYMIZE_ORPHANS now days n w) =
      work (for_nobody (days_before now days)) w"
proof -
  let ?P = "\<lambda>r. stale_row (days_before now days) r \<and> al_userId r = None"
  let ?ids = "oldest al_createdAt ?P n (tw_log w)"
  let ?f = "\<lambda>i r. if i \<in> set ?ids then Some (r\<lparr>al_ip := map_option truncate_ip (al_ip r), al_anonymizedAt := Some now\<rparr>) else None"
  have hits: "fst (ANONYMIZE_ORPHANS now days n w) = length (filter (\<lambda>p. fst p \<in> set ?ids) (tw_log w))"
    by (simp add: ANONYMIZE_ORPHANS_def Let_def update_rows_def case_prod_unfold)
  show "fst (ANONYMIZE_ORPHANS now days n w) = min n (work (for_nobody (days_before now days)) w)"
    unfolding hits oldest_keys(1) [OF assms] by (simp add: work_def case_prod_unfold stale_row_def for_nobody_def)
  have "length (filter (\<lambda>(i, r). ?P r) (snd (update_rows ?f (tw_log w)))) + fst (update_rows ?f (tw_log w)) =
      length (filter (\<lambda>(i, r). ?P r) (tw_log w))"
  proof (rule update_rows_work)
    fix i r r' assume "(i, r) \<in> set (tw_log w)" "?f i r = Some r'"
    then show "?P r \<and> \<not> ?P r'"
      using oldest_keys(2) [OF assms, where p = "(i, r)" and stamp = al_createdAt and P = ?P and batch = n]
      by (auto simp: stale_row_def split: if_splits)
  qed
  then show "work (for_nobody (days_before now days)) (snd (ANONYMIZE_ORPHANS now days n w)) + fst (ANONYMIZE_ORPHANS now days n w) =
      work (for_nobody (days_before now days)) w"
    by (simp add: work_def ANONYMIZE_ORPHANS_def Let_def case_prod_unfold stale_row_def for_nobody_def)
qed

text \<open>Each of the four loops drains what it is for.\<close>

interpretation deleted_pass: draining "ANONYMIZE_DELETED env now days n" "work (for_users (was_deleted v) (days_before now days))"
    "\<lambda>w. fair env \<and> 0 < n \<and> tw_deletions w = tw_deletions v"
  for env now days n v
proof
  fix w :: retention_world assume ok: "fair env \<and> 0 < n \<and> tw_deletions w = tw_deletions v"
  then have q: "was_deleted w = was_deleted v" by (intro was_deleted_cong) simp
  show "fair env \<and> 0 < n \<and> tw_deletions (snd (ANONYMIZE_DELETED env now days n w)) = tw_deletions v"
    using ok by (simp add: ANONYMIZE_DELETED_def statement_rest)
  show "work (for_users (was_deleted v) (days_before now days)) (snd (ANONYMIZE_DELETED env now days n w)) +
      fst (ANONYMIZE_DELETED env now days n w) = work (for_users (was_deleted v) (days_before now days)) w"
    using ok users_work by (simp add: ANONYMIZE_DELETED_def q)
  show "0 < work (for_users (was_deleted v) (days_before now days)) w \<Longrightarrow> 0 < fst (ANONYMIZE_DELETED env now days n w)"
    using ok users_progress by (simp add: ANONYMIZE_DELETED_def q)
qed

interpretation aged_pass: draining "ANONYMIZE_AGED env now days n" "work (for_users (\<lambda>_. True) (days_before now days))"
    "\<lambda>w. fair env \<and> 0 < n"
  for env now days n
  by unfold_locales (simp_all add: ANONYMIZE_AGED_def users_work users_progress)

interpretation orphan_pass: draining "ANONYMIZE_ORPHANS now days n" "work (for_nobody (days_before now days))"
    "\<lambda>w. distinct (map fst (tw_log w)) \<and> 0 < n"
  for now days n
  by unfold_locales (auto simp: statement_keys orphans_work(2), simp add: orphans_work(1))

interpretation hard_pass: draining "HARD_DELETE now days n"
    "\<lambda>w. length (filter (\<lambda>p. al_createdAt (snd p) < days_before now days \<and> al_anonymizedAt (snd p) \<noteq> None) (tw_log w))"
    "\<lambda>w. distinct (map fst (tw_log w)) \<and> 0 < n"
  for now days n
proof
  fix w :: retention_world assume ok: "distinct (map fst (tw_log w)) \<and> 0 < n"
  let ?P = "\<lambda>r. al_createdAt r < days_before now days \<and> al_anonymizedAt r \<noteq> None"
  note del = delete_oldest [of "tw_log w", where stamp = al_createdAt and P = ?P and batch = n]
  show "distinct (map fst (tw_log (snd (HARD_DELETE now days n w)))) \<and> 0 < n"
    using ok del(4) by (simp add: HARD_DELETE_def case_prod_unfold)
  show "length (filter (\<lambda>p. ?P (snd p)) (tw_log (snd (HARD_DELETE now days n w)))) + fst (HARD_DELETE now days n w) =
      length (filter (\<lambda>p. ?P (snd p)) (tw_log w))"
    using ok del(2) by (simp add: HARD_DELETE_def case_prod_unfold)
  show "0 < length (filter (\<lambda>p. ?P (snd p)) (tw_log w)) \<Longrightarrow> 0 < fst (HARD_DELETE now days n w)"
    using ok del(1) by (simp add: HARD_DELETE_def case_prod_unfold)
qed

text \<open>A run that ends clean has done all of it.\<close>

lemma clean_run:
  assumes "retention_sweep env opts now w = (out, w')" "distinct (map fst (tw_log w))" "fair env"
    and "0 < ao_usersPerBatch opts" "0 < ao_rowsPerBatch opts" "ax_failed out = 0" "\<not> ax_capped out"
  shows "none_left (retention_due opts now w) w'"
    and "\<forall>p \<in> set (tw_log w'). al_anonymizedAt (snd p) \<noteq> None \<longrightarrow> days_before now (ao_hardDeleteDays opts) \<le> al_createdAt (snd p)"
proof -
  from assms(1) obtain deleted w1 aged w2 orphan w3 expired w4 where w:
    "retention_batched opts (ANONYMIZE_DELETED env now (ao_postDeletionDays opts) (ao_usersPerBatch opts)) (rv_deleted env) w = (deleted, w1)"
    "retention_batched opts (ANONYMIZE_AGED env now (ao_fullFidelityDays opts) (ao_usersPerBatch opts)) (rv_aged env) w1 = (aged, w2)"
    "retention_batched opts (ANONYMIZE_ORPHANS now (ao_fullFidelityDays opts) (ao_rowsPerBatch opts)) (rv_orphans env) w2 = (orphan, w3)"
    "retention_batched opts (HARD_DELETE now (ao_hardDeleteDays opts) (ao_rowsPerBatch opts)) (rv_expired env) w3 = (expired, w4)"
    and log: "tw_log w' = tw_log w4"
    and clean: "\<not> br_failed deleted \<and> \<not> br_failed aged \<and> \<not> br_failed orphan \<and> \<not> br_failed expired"
      "\<not> br_capped deleted \<and> \<not> br_capped aged \<and> \<not> br_capped orphan \<and> \<not> br_capped expired"
    by (rule sweep_stages) (use assms(6,7) in blast)
  let ?post = "days_before now (ao_postDeletionDays opts)" and ?full = "days_before now (ao_fullFidelityDays opts)"
  note steps = w [unfolded retention_batched_def]
  let ?D = "\<lambda>v. none_left (for_users (was_deleted w) ?post) v \<and> distinct (map fst (tw_log v))"
  have d1: "distinct (map fst (tw_log w1))"
    by (rule stage_keeps [where I = "\<lambda>v. distinct (map fst (tw_log v))", OF w(1) assms(2)]) (simp add: ANONYMIZE_DELETED_def statement_keys)
  have "work (for_users (was_deleted w) ?post) w1 = 0"
    using deleted_pass.clean_end [of env "ao_usersPerBatch opts" w w, OF _ steps(1)] assms(3,4) clean by simp
  then have 1: "?D w1" using d1 by (simp add: work_none)
  have 2: "?D w2" by (rule stage_keeps [where I = ?D, OF w(2) 1]) (simp add: ANONYMIZE_AGED_def statement_keys none_left_statements)
  have "work (for_users (\<lambda>_. True) ?full) w2 = 0"
    using aged_pass.clean_end [OF _ steps(2)] assms(3,4) clean by simp
  then have a2: "none_left (for_users (\<lambda>_. True) ?full) w2" by (simp add: work_none)
  let ?A = "\<lambda>v. ?D v \<and> none_left (for_users (\<lambda>_. True) ?full) v"
  have 3: "?A w3"
    by (rule stage_keeps [where I = ?A, OF w(3)]) (use 2 a2 in \<open>auto simp: statement_keys none_left_statements\<close>)
  have "work (for_nobody ?full) w3 = 0"
    using orphan_pass.clean_end [OF _ steps(3)] 2 assms(5) clean by simp
  then have o3: "none_left (for_nobody ?full) w3" by (simp add: work_none)
  let ?O = "\<lambda>v. ?A v \<and> none_left (for_nobody ?full) v"
  have 4: "?O w4"
  proof (rule stage_keeps [where I = ?O, OF w(4)])
    show "?O (snd (HARD_DELETE now (ao_hardDeleteDays opts) (ao_rowsPerBatch opts) u))" if "?O u" for u
      using that hard_pass.stmt_ok [of u "ao_rowsPerBatch opts"] assms(5) by (simp add: none_left_statements)
  qed (use 3 o3 in blast)
  have "\<not> retention_due opts now w (snd p)" if p: "p \<in> set (tw_log w4)" "al_anonymizedAt (snd p) = None" for p
  proof -
    have "\<not> for_users (was_deleted w) ?post (snd p)" "\<not> for_users (\<lambda>_. True) ?full (snd p)" "\<not> for_nobody ?full (snd p)"
      using 4 p by (simp_all add: none_left_def)
    then show ?thesis by (cases "al_userId (snd p)") (simp_all add: retention_due_def for_users_def for_nobody_def)
  qed
  then show "none_left (retention_due opts now w) w'" by (simp add: none_left_def log)
  have "length (filter (\<lambda>p. al_createdAt (snd p) < days_before now (ao_hardDeleteDays opts) \<and> al_anonymizedAt (snd p) \<noteq> None) (tw_log w4)) = 0"
    using hard_pass.clean_end [OF _ steps(4)] 3 assms(5) clean by simp
  then show "\<forall>p \<in> set (tw_log w'). al_anonymizedAt (snd p) \<noteq> None \<longrightarrow> days_before now (ao_hardDeleteDays opts) \<le> al_createdAt (snd p)"
    by (auto simp: filter_empty_conv log not_less)
qed


subsection \<open>Properties\<close>

text \<open>What the constraint and the sweeps before left: an anonymized row has no user and a truncated address.\<close>

definition coarse :: "inet option \<Rightarrow> bool" where
  "coarse ip \<longleftrightarrow> (\<forall>a. ip = Some a \<longrightarrow> (\<exists>b. a = truncate_ip b))"

definition trail_ok :: "retention_world \<Rightarrow> bool" where
  "trail_ok w \<longleftrightarrow> distinct (map fst (tw_log w)) \<and>
     (\<forall>(i, r) \<in> set (tw_log w). identity_chk r \<and> (al_anonymizedAt r \<noteq> None \<longrightarrow> coarse (al_ip r)))"

lemma scrubs_ok: "identity_chk r \<Longrightarrow> scrubs now r r' \<Longrightarrow> identity_chk r' \<and> al_userId r' = None \<and> coarse (al_ip r')"
  by (auto simp: scrubs_def scrubbed_def identity_chk_def coarse_def)

lemma traces_ok: "traces opts now w w' \<Longrightarrow> trail_ok w \<Longrightarrow> trail_ok w'"
  unfolding trail_ok_def traces_def by (blast dest: scrubs_ok)

lemma sweep_ran: "ax_ran (fst (retention_sweep env opts now w))"
  by (simp add: retention_sweep_def Let_def case_prod_unfold)

lemma run_sweep:
  assumes "retention_run hashtext session env opts now locks w = (out, w', locks')"
  shows "ax_ran out \<and> retention_sweep env opts now w = (out, w') \<or> \<not> ax_ran out \<and> w' = w"
proof -
  obtain b l where lock: "tryAdvisoryLock hashtext session (ln_auditRetention LOCK_NAMESPACE) AUDIT_RETENTION_LOCK_KEY locks = (b, l)"
    by (rule prod.exhaust)
  obtain o1 w1 where s: "retention_sweep env opts now w = (o1, w1)" by (rule prod.exhaust)
  then have "ax_ran o1" using sweep_ran [of env opts now w] by simp
  with assms show ?thesis by (cases b) (auto simp: retention_run_def lock s retention_nothing_def)
qed

text \<open>Claim C35. What a run may take from the trail. However the driver answers, a run leaves the
  trail with its constraint; a row is changed only once it is past the window of full fidelity, or past
  the shorter one while the deletion log has an entry for its user, and keeps everything but the user
  and the end of the address; a row is deleted only past the last window, and only if it was anonymized
  or due. So a row that is not anonymized and lies inside the window of full fidelity stays exactly as it is
  when its user has no entry in the deletion log. With an entry it does so only inside the shorter window,
  and the entry of a request that was refused counts as well, although the account is still there.\<close>

theorem evidence_kept:
  assumes "trail_ok w" and "fair env" and "retention_run hashtext session env opts now locks w = (out, w', locks')"
  shows "trail_ok w' \<and>
    (\<forall>(i, r') \<in> set (tw_log w'). \<exists>r. (i, r) \<in> set (tw_log w) \<and>
       (r' = r \<or> al_anonymizedAt r = None \<and> retention_due opts now w r \<and> (\<exists>q. r' = scrubbed now q r))) \<and>
    (\<forall>(i, r) \<in> set (tw_log w). i \<in> fst ` set (tw_log w') \<or>
       al_createdAt r < days_before now (ao_hardDeleteDays opts) \<and> (al_anonymizedAt r \<noteq> None \<or> retention_due opts now w r)) \<and>
    (\<forall>(i, r) \<in> set (tw_log w). al_anonymizedAt r = None \<and> days_before now (ao_fullFidelityDays opts) \<le> al_createdAt r \<and>
       (days_before now (ao_postDeletionDays opts) \<le> al_createdAt r \<or>
        (\<forall>d \<in> set (tw_deletions w). al_userId r \<noteq> Some (de_userId d))) \<longrightarrow> (i, r) \<in> set (tw_log w'))"
proof -
  have d: "distinct (map fst (tw_log w))" using assms(1) by (simp add: trail_ok_def)
  then have "traces opts now w w'"
    using run_sweep [OF assms(3)] sweep_traces [OF _ d assms(2)] traces_refl by blast
  then have tr: "traces opts now w w'" .
  have changed: "\<exists>r. (i, r) \<in> set (tw_log w) \<and> (r' = r \<or> al_anonymizedAt r = None \<and> retention_due opts now w r \<and> (\<exists>q. r' = scrubbed now q r))"
    if "(i, r') \<in> set (tw_log w')" for i r'
  proof -
    from tr that obtain r where "(i, r) \<in> set (tw_log w)" "r' = r \<or> scrubs now r r' \<and> retention_due opts now w r"
      unfolding traces_def by blast
    then show ?thesis by (auto simp: scrubs_def)
  qed
  have gone: "i \<in> fst ` set (tw_log w') \<or>
      al_createdAt r < days_before now (ao_hardDeleteDays opts) \<and> (al_anonymizedAt r \<noteq> None \<or> retention_due opts now w r)"
    if "(i, r) \<in> set (tw_log w)" for i r
    using tr that unfolding traces_def by blast
  have kept: "(i, r) \<in> set (tw_log w')"
    if r: "(i, r) \<in> set (tw_log w)" "al_anonymizedAt r = None" and inside: "days_before now (ao_fullFidelityDays opts) \<le> al_createdAt r"
      "days_before now (ao_postDeletionDays opts) \<le> al_createdAt r \<or> (\<forall>d \<in> set (tw_deletions w). al_userId r \<noteq> Some (de_userId d))"
    for i r
  proof -
    have due: "\<not> retention_due opts now w r" using inside by (auto simp: retention_due_def was_deleted_def list_ex_iff)
    with gone [OF r(1)] r(2) have "i \<in> fst ` set (tw_log w')" by simp
    then obtain r' where r': "(i, r') \<in> set (tw_log w')" by auto
    from changed [OF this] obtain s where s: "(i, s) \<in> set (tw_log w)" "r' = s \<or> retention_due opts now w s" by blast
    have "s = r" using d s(1) r(1) by (auto dest: eq_key_imp_eq_value)
    with s(2) due r' show ?thesis by simp
  qed
  show ?thesis
  proof (intro conjI ballI, goal_cases)
    case 1
    show ?case by (rule traces_ok [OF tr assms(1)])
  next
    case (2 x)
    with changed [of "fst x" "snd x"] show ?case by (simp only: case_prod_unfold prod.collapse)
  next
    case (3 x)
    with gone [of "fst x" "snd x"] show ?case by (simp only: case_prod_unfold prod.collapse)
  next
    case (4 x)
    with kept [of "fst x" "snd x"] show ?case by (simp only: case_prod_unfold prod.collapse) blast
  qed
qed

text \<open>A run that reports neither a failure nor the cap leaves no row past its window, or of an account
  erased long enough ago, with a user or a full address, no anonymized row past the last window,
  and its standing invariant counts no row.\<close>

theorem identifiers_gone:
  assumes "trail_ok w" and "fair env" and "0 < ao_usersPerBatch opts" and "0 < ao_rowsPerBatch opts"
    and "retention_run hashtext session env opts now locks w = (out, w', locks')"
    and "ax_ran out" and "ax_failed out = 0" and "\<not> ax_capped out"
  shows "(\<forall>(i, r) \<in> set (tw_log w'). retention_due opts now w r \<longrightarrow> al_userId r = None \<and> coarse (al_ip r)) \<and>
    (\<forall>(i, r) \<in> set (tw_log w'). al_anonymizedAt r \<noteq> None \<longrightarrow> days_before now (ao_hardDeleteDays opts) \<le> al_createdAt r) \<and>
    ax_pendingBeyondWindow out = 0"
proof -
  have d: "distinct (map fst (tw_log w))" using assms(1) by (simp add: trail_ok_def)
  have sweep: "retention_sweep env opts now w = (out, w')" using run_sweep [OF assms(5)] assms(6) by blast
  note clean = clean_run [OF sweep d assms(2-4,7,8)]
  have ok: "trail_ok w'" by (rule traces_ok [OF sweep_traces [OF sweep d assms(2)] assms(1)])
  have "al_userId r = None \<and> coarse (al_ip r)" if "(i, r) \<in> set (tw_log w')" "retention_due opts now w r" for i r
  proof -
    have "al_anonymizedAt r \<noteq> None" using clean(1) that by (auto simp: none_left_def)
    with ok that(1) show ?thesis by (auto simp: trail_ok_def identity_chk_def)
  qed
  moreover have "ax_pendingBeyondWindow out = 0"
  proof -
    have "\<not> stale_row (days_before now (ao_fullFidelityDays opts + 1)) r" if "(i, r) \<in> set (tw_log w')" for i r
      using clean(1) that by (auto simp: none_left_def stale_row_def retention_due_def days_before_def)
    moreover have "ax_pendingBeyondWindow out = fst (retention_invariant now opts w')" by (rule sweep_stages [OF sweep])
    ultimately show ?thesis by (auto simp: retention_invariant_def filter_empty_conv)
  qed
  ultimately show ?thesis using clean(2) by auto
qed


subsection \<open>What the pseudonym joins\<close>

text \<open>Two rows of one user are scrubbed by the same statement, with the same pseudonym, or both not yet.\<close>

definition joined :: "time \<Rightarrow> nat \<times> audit_row \<Rightarrow> nat \<times> audit_row \<Rightarrow> retention_world \<Rightarrow> bool" where
  "joined now p q w \<longleftrightarrow> distinct (map fst (tw_log w)) \<and>
     (p \<in> set (tw_log w) \<and> q \<in> set (tw_log w) \<or>
      (\<exists>a. (fst p, scrubbed now (Some a) (snd p)) \<in> set (tw_log w) \<and> (fst q, scrubbed now (Some a) (snd q)) \<in> set (tw_log w)))"

lemma users_image:
  assumes "(i, r) \<in> set (tw_log w)"
  shows "(i, orelse (case al_userId r of None \<Rightarrow> None
       | Some u \<Rightarrow> if stale_row (days_before now days) r
                   then map_option (\<lambda>p. scrubbed now (Some p) r) (assigned env (victims env q (days_before now days) n w) w u) else None) r)
    \<in> set (tw_log (snd (anonymize_users env q now days n w)))"
proof -
  have "tw_log (snd (anonymize_users env q now days n w)) = snd (update_rows (\<lambda>i r. case al_userId r of None \<Rightarrow> None
       | Some u \<Rightarrow> if stale_row (days_before now days) r
                   then map_option (\<lambda>p. scrubbed now (Some p) r) (assigned env (victims env q (days_before now days) n w) w u) else None) (tw_log w))"
    by (simp add: anonymize_users_def Let_def case_prod_unfold)
  with assms show ?thesis by (simp only: update_rows_row) blast
qed

lemma anonymized_image:
  "(i, r) \<in> set (tw_log w) \<Longrightarrow> al_anonymizedAt r = Some t \<Longrightarrow> (i, r) \<in> set (tw_log (snd (anonymize_users env q now days n w)))"
  using users_image [of i r w now days env q n] by (cases "al_userId r") (simp_all add: stale_row_def)

lemma joined_users:
  assumes "joined now (i, r) (j, s) w" "al_userId r = Some u" "al_userId s = Some u"
    and "stale_row (days_before now days) r \<and> stale_row (days_before now days) s \<or> fair env \<and> \<not> q u"
  shows "joined now (i, r) (j, s) (snd (anonymize_users env q now days n w))"
proof (cases "(i, r) \<in> set (tw_log w) \<and> (j, s) \<in> set (tw_log w)")
  case True
  let ?a = "assigned env (victims env q (days_before now days) n w) w u"
  note rows = users_image [of i r w now days env q n] users_image [of j s w now days env q n]
  have d: "distinct (map fst (tw_log w))" using assms(1) by (simp add: joined_def)
  show ?thesis
  proof (cases ?a)
    case None
    with rows True assms(2,3) d show ?thesis by (simp add: joined_def statement_keys split: if_splits)
  next
    case (Some p)
    then have "u \<in> set (victims env q (days_before now days) n w)" by (auto simp: assigned_def dest: map_of_SomeD set_zip_leftD)
    with victims_qualify [of env u q] assms(4) have "stale_row (days_before now days) r \<and> stale_row (days_before now days) s" by blast
    with Some rows True assms(2,3) d show ?thesis by (auto simp: joined_def statement_keys)
  qed
next
  case False
  then obtain a where a: "(i, scrubbed now (Some a) r) \<in> set (tw_log w)" "(j, scrubbed now (Some a) s) \<in> set (tw_log w)"
    using assms(1) by (auto simp: joined_def)
  have "al_anonymizedAt (scrubbed now (Some a) x) = Some now" for x by (simp add: scrubbed_def)
  from anonymized_image [OF a(1) this] anonymized_image [OF a(2) this] assms(1) show ?thesis
    unfolding joined_def statement_keys fst_conv snd_conv by blast
qed

lemma orphans_image:
  assumes "distinct (map fst (tw_log w))" "(i, r) \<in> set (tw_log w)" "al_userId r \<noteq> None \<or> al_anonymizedAt r \<noteq> None"
  shows "(i, r) \<in> set (tw_log (snd (ANONYMIZE_ORPHANS now days n w)))"
proof -
  let ?P = "\<lambda>r. stale_row (days_before now days) r \<and> al_userId r = None"
  have "i \<notin> set (oldest al_createdAt ?P n (tw_log w))"
    using oldest_keys(2) [OF assms(1,2), where stamp = al_createdAt and P = ?P and batch = n] assms(3) by (auto simp: stale_row_def)
  with assms(2) show ?thesis by (force simp: ANONYMIZE_ORPHANS_def Let_def update_rows_def case_prod_unfold)
qed

lemma joined_orphans:
  assumes "joined now (i, r) (j, s) w" "al_userId r = Some u" "al_userId s = Some u"
  shows "joined now (i, r) (j, s) (snd (ANONYMIZE_ORPHANS now days n w))"
proof -
  have d: "distinct (map fst (tw_log w))" using assms(1) by (simp add: joined_def)
  note keep = orphans_image [OF d, of _ _ now days n]
  have "al_anonymizedAt (scrubbed now a x) \<noteq> None" for a x by (simp add: scrubbed_def)
  with assms d keep show ?thesis unfolding joined_def statement_keys fst_conv snd_conv by (metis option.distinct(1))
qed

lemma joined_hard_delete:
  assumes "joined now (i, r) (j, s) w" "days_before now days \<le> al_createdAt r" "days_before now days \<le> al_createdAt s"
    and "0 < n"
  shows "joined now (i, r) (j, s) (snd (HARD_DELETE now days n w))"
proof -
  have d: "distinct (map fst (tw_log w))" using assms(1) by (simp add: joined_def)
  have keep: "p \<in> set (tw_log (snd (HARD_DELETE now days n w)))" if "p \<in> set (tw_log w)" "days_before now days \<le> al_createdAt (snd p)" for p
    using hard_delete_row(2) [OF d that(1), of now days n] that(2) by auto
  have "distinct (map fst (tw_log (snd (HARD_DELETE now days n w))))" using hard_pass.stmt_ok [of w n] d assms(4) by simp
  moreover have "al_createdAt (scrubbed now a x) = al_createdAt x" for a x by (simp add: scrubbed_def)
  ultimately show ?thesis using assms(1-3) keep unfolding joined_def by fastforce
qed

text \<open>The rows are not anonymous: when an account that still exists has a personal token, the row
  that records its issue keeps the identifier of the token as its subject, so a join with
  \<open>api_tokens\<close> names the user, and the pseudonym it shares carries the name to every
  other row of that user which a clean run scrubs.\<close>

theorem pseudonym_names_user:
  assumes "trail_ok w" and "fair env" and "0 < ao_usersPerBatch opts" and "0 < ao_rowsPerBatch opts"
    and "retention_run hashtext session env opts now locks w = (out, w', locks')"
    and "ax_ran out" and "ax_failed out = 0" and "\<not> ax_capped out"
    and "tk \<in> set (tw_tokens w)" and "\<not> was_deleted w (tk_userId tk)"
    and "(i, r) \<in> set (tw_log w)" and "al_userId r = Some (tk_userId tk)" and "al_subjectRef r = Some (tk_id tk)"
    and "(j, s) \<in> set (tw_log w)" and "al_userId s = Some (tk_userId tk)"
    and "\<forall>x \<in> {r, s}. stale_row (days_before now (ao_fullFidelityDays opts)) x \<and> days_before now (ao_hardDeleteDays opts) \<le> al_createdAt x"
  shows "\<exists>a r' s' tk'. (i, r') \<in> set (tw_log w') \<and> (j, s') \<in> set (tw_log w') \<and> al_pseudonym r' = Some a \<and> al_pseudonym s' = Some a \<and>
    tk' \<in> set (tw_tokens w') \<and> al_subjectRef r' = Some (tk_id tk') \<and> tk_userId tk' = tk_userId tk"
proof -
  let ?J = "joined now (i, r) (j, s)"
  have d: "distinct (map fst (tw_log w))" using assms(1) by (simp add: trail_ok_def)
  have sweep: "retention_sweep env opts now w = (out, w')" using run_sweep [OF assms(5)] assms(6) by blast
  have old: "stale_row (days_before now (ao_fullFidelityDays opts)) r" "stale_row (days_before now (ao_fullFidelityDays opts)) s"
    "days_before now (ao_hardDeleteDays opts) \<le> al_createdAt r" "days_before now (ao_hardDeleteDays opts) \<le> al_createdAt s"
    using assms(16) by simp_all
  have J: "?J w'" and tokens: "\<exists>tk' \<in> set (tw_tokens w'). tk_id tk' = tk_id tk \<and> tk_userId tk' = tk_userId tk"
  proof -
    from sweep obtain deleted w1 aged w2 orphan w3 expired w4 where st:
      "retention_batched opts (ANONYMIZE_DELETED env now (ao_postDeletionDays opts) (ao_usersPerBatch opts)) (rv_deleted env) w = (deleted, w1)"
      "retention_batched opts (ANONYMIZE_AGED env now (ao_fullFidelityDays opts) (ao_usersPerBatch opts)) (rv_aged env) w1 = (aged, w2)"
      "retention_batched opts (ANONYMIZE_ORPHANS now (ao_fullFidelityDays opts) (ao_rowsPerBatch opts)) (rv_orphans env) w2 = (orphan, w3)"
      "retention_batched opts (HARD_DELETE now (ao_hardDeleteDays opts) (ao_rowsPerBatch opts)) (rv_expired env) w3 = (expired, w4)"
      "tw_log w' = tw_log w4"
      "\<forall>tk \<in> set (tw_tokens w4). \<exists>tk' \<in> set (tw_tokens w'). tk_id tk' = tk_id tk \<and> tk_userId tk' = tk_userId tk"
      by (rule sweep_stages)
    let ?I = "\<lambda>v. ?J v \<and> tw_tokens v = tw_tokens w \<and> tw_deletions v = tw_deletions w"
    have "?I w" using assms(11,14) d by (simp add: joined_def)
    then have "?I w1"
    proof (rule stage_keeps [where I = ?I, OF st(1)])
      show "?I (snd (ANONYMIZE_DELETED env now (ao_postDeletionDays opts) (ao_usersPerBatch opts) u))" if "?I u" for u
        using that joined_users [of now i r j s u] assms(2,10,12,15) was_deleted_cong [of u w]
        by (simp add: ANONYMIZE_DELETED_def statement_rest)
    qed
    then have "?I w2"
    proof (rule stage_keeps [where I = ?I, OF st(2)])
      show "?I (snd (ANONYMIZE_AGED env now (ao_fullFidelityDays opts) (ao_usersPerBatch opts) u))" if "?I u" for u
        using that joined_users [of now i r j s u] assms(12,15) old(1,2) by (simp add: ANONYMIZE_AGED_def statement_rest)
    qed
    then have "?I w3"
    proof (rule stage_keeps [where I = ?I, OF st(3)])
      show "?I (snd (ANONYMIZE_ORPHANS now (ao_fullFidelityDays opts) (ao_rowsPerBatch opts) u))" if "?I u" for u
        using that joined_orphans [OF _ assms(12,15)] by (simp add: statement_rest)
    qed
    then have "?I w4"
    proof (rule stage_keeps [where I = ?I, OF st(4)])
      show "?I (snd (HARD_DELETE now (ao_hardDeleteDays opts) (ao_rowsPerBatch opts) u))" if "?I u" for u
        using that joined_hard_delete [OF _ old(3,4) assms(4)] by (simp add: statement_rest)
    qed
    with st(5) show "?J w'" by (simp add: joined_def)
    from \<open>?I w4\<close> st(6) assms(9) show "\<exists>tk' \<in> set (tw_tokens w'). tk_id tk' = tk_id tk \<and> tk_userId tk' = tk_userId tk" by simp
  qed
  have "none_left (retention_due opts now w) w'" by (rule clean_run(1) [OF sweep d assms(2-4,7,8)])
  then have "\<not> ((i, r) \<in> set (tw_log w') \<and> (j, s) \<in> set (tw_log w'))"
    using old(1) by (auto simp: none_left_def retention_due_def stale_row_def)
  with J obtain a where "(i, scrubbed now (Some a) r) \<in> set (tw_log w')" "(j, scrubbed now (Some a) s) \<in> set (tw_log w')"
    by (auto simp: joined_def)
  with tokens assms(13) show ?thesis by (intro exI [of _ a] exI [of _ "scrubbed now (Some a) r"] exI [of _ "scrubbed now (Some a) s"])
    (auto simp: scrubbed_def)
qed


subsection \<open>Instances\<close>

definition demo_trail_row :: "string \<Rightarrow> string option \<Rightarrow> audit_row" where
  "demo_trail_row action ref = \<lparr>al_userId = Some ''u1'', al_action = action, al_subjectRef = ref, al_outcome = ''ok'', al_detail = None,
     al_ip = Some (Inet4 [203, 0, 113, 9] 32), al_createdAt = 0, al_pseudonym = None, al_anonymizedAt = None\<rparr>"

definition demo_trail_token :: token_row where
  "demo_trail_token = \<lparr>tk_id = ''t1'', tk_userId = ''u1'', tk_name = ''cli'', tk_hash = ''h'', tk_prefix = ''p'', tk_lastFour = ''l'',
     tk_scopes = [], tk_rate = 60, tk_createdAt = 0, tk_expiresAt = 9, tk_lastUsedAt = None, tk_lastUsedIp = None,
     tk_revokedAt = None, tk_rotatedFrom = None\<rparr>"

definition demo_trail :: retention_world where
  "demo_trail = \<lparr>tw_log = [(1, demo_trail_row ''token.created'' (Some ''t1'')), (2, demo_trail_row ''auth.signed_in'' None)],
     tw_deletions = [], tw_tokens = [demo_trail_token], tw_minted = 0\<rparr>"

definition demo_retention_env :: retention_env where
  "demo_retention_env = \<lparr>rv_uuid = show_nat, rv_order = id, rv_hostNow = 8640000000, rv_deleted = \<lambda>_. Batch_counted, rv_aged = \<lambda>_. Batch_counted,
     rv_orphans = \<lambda>_. Batch_counted, rv_expired = \<lambda>_. Batch_counted, rv_tokenIps = Batch_counted\<rparr>"

definition demo_retention_opts :: retention_options where
  "demo_retention_opts = AUDIT_RETENTION_DEFAULTS\<lparr>ao_usersPerBatch := 1, ao_rowsPerBatch := 1, ao_maxBatchesPerStatement := 2\<rparr>"

lemma demo_trail_facts:
  "trail_ok demo_trail" "fair demo_retention_env"
  by (simp_all add: trail_ok_def demo_trail_def demo_trail_row_def identity_chk_def fair_def demo_retention_env_def)

lemma demo_retention_run:
  "ax_ran (fst (retention_run (\<lambda>_. 0) 1 demo_retention_env demo_retention_opts 8640000000 [] demo_trail))"
  "ax_failed (fst (retention_run (\<lambda>_. 0) 1 demo_retention_env demo_retention_opts 8640000000 [] demo_trail)) = 0"
  "\<not> ax_capped (fst (retention_run (\<lambda>_. 0) 1 demo_retention_env demo_retention_opts 8640000000 [] demo_trail))"
  by code_simp+


abbreviation demo_retained :: retention_world where
  "demo_retained \<equiv> fst (snd (retention_run (\<lambda>_. 0) 1 demo_retention_env demo_retention_opts 8640000000 [] demo_trail))"

lemma demo_retained_run:
  "retention_run (\<lambda>_. 0) 1 demo_retention_env demo_retention_opts 8640000000 [] demo_trail =
     (fst (retention_run (\<lambda>_. 0) 1 demo_retention_env demo_retention_opts 8640000000 [] demo_trail), demo_retained,
      snd (snd (retention_run (\<lambda>_. 0) 1 demo_retention_env demo_retention_opts 8640000000 [] demo_trail)))"
  by (simp only: prod.collapse)

lemma evidence_kept_witness:
  "trail_ok demo_retained \<and> tw_log demo_retained =
    [(1, (demo_trail_row ''token.created'' (Some ''t1''))\<lparr>al_userId := None, al_ip := Some (Inet4 [203, 0, 113, 0] 24),
        al_pseudonym := Some ''0'', al_anonymizedAt := Some 8640000000\<rparr>),
     (2, (demo_trail_row ''auth.signed_in'' None)\<lparr>al_userId := None, al_ip := Some (Inet4 [203, 0, 113, 0] 24),
        al_pseudonym := Some ''0'', al_anonymizedAt := Some 8640000000\<rparr>)]"
proof
  show "trail_ok demo_retained"
    using evidence_kept [OF demo_trail_facts demo_retained_run] by (rule conjunct1)
qed code_simp

lemma identifiers_gone_witness:
  "\<forall>(i, r) \<in> set (tw_log demo_retained). retention_due demo_retention_opts 8640000000 demo_trail r \<longrightarrow> al_userId r = None \<and> coarse (al_ip r)"
proof -
  have "0 < ao_usersPerBatch demo_retention_opts" "0 < ao_rowsPerBatch demo_retention_opts" by (simp_all add: demo_retention_opts_def)
  from identifiers_gone [OF demo_trail_facts this demo_retained_run demo_retention_run] show ?thesis by (rule conjunct1)
qed

lemma pseudonym_names_user_witness:
  "\<exists>a r' s'. (1, r') \<in> set (tw_log demo_retained) \<and> (2, s') \<in> set (tw_log demo_retained) \<and> al_pseudonym r' = Some a \<and> al_pseudonym s' = Some a"
proof -
  have "\<exists>a r' s' tk'. (1, r') \<in> set (tw_log demo_retained) \<and> (2, s') \<in> set (tw_log demo_retained) \<and> al_pseudonym r' = Some a \<and>
      al_pseudonym s' = Some a \<and> tk' \<in> set (tw_tokens demo_retained) \<and> al_subjectRef r' = Some (tk_id tk') \<and> tk_userId tk' = tk_userId demo_trail_token"
  proof (rule pseudonym_names_user [OF demo_trail_facts _ _ demo_retained_run demo_retention_run])
    show "\<forall>x \<in> {demo_trail_row ''token.created'' (Some ''t1''), demo_trail_row ''auth.signed_in'' None}.
        stale_row (days_before 8640000000 (ao_fullFidelityDays demo_retention_opts)) x \<and>
        days_before 8640000000 (ao_hardDeleteDays demo_retention_opts) \<le> al_createdAt x"
      by (simp add: demo_trail_row_def demo_retention_opts_def AUDIT_RETENTION_DEFAULTS_def days_before_def stale_row_def)
  qed (simp_all add: demo_retention_opts_def demo_trail_def demo_trail_row_def demo_trail_token_def was_deleted_def)
  then show ?thesis by blast
qed

subsection \<open>A refused erasure and the shorter window\<close>

text \<open>The request of an account's deletion fails at the ledger: the user is still there, and the log has
  its entry. A run forty days after a sign-in of that account takes its address, fifty days early.\<close>

definition demo_refused :: erasure_world where
  "demo_refused = snd (snd (demo_delete Put_fails))"

definition demo_refused_trail :: retention_world where
  "demo_refused_trail = \<lparr>tw_log = [(1, demo_trail_row ''auth.signed_in'' None)], tw_deletions = ew_log demo_refused,
     tw_tokens = [], tw_minted = 0\<rparr>"

lemma refused_erasure_shortens_window:
  "''u1'' \<in> us_id ` set (ew_users demo_refused) \<and>
   (\<forall>d \<in> set (ew_log demo_refused). de_completedAt d = None) \<and>
   map (al_userId \<circ> snd) (tw_log (fst (snd (retention_run (\<lambda>_. 0) 1 demo_retention_env demo_retention_opts
     (40 * 86400000) [] demo_refused_trail)))) = [None]"
  by code_simp

end
