(* ===== verification/Kill_Switch.thy ===== *)
theory Kill_Switch
  imports Pf_Prelude
begin

text \<open>
  The runtime kill switch: \<^verbatim>\<open>packages/upstream/src/kill-switch.ts\<close>, and the two polled
  levers of the BFF, the flag directory of \<^verbatim>\<open>apps/bff/src/lib/kill-switch.ts\<close> and the
  maintenance gate of \<^verbatim>\<open>apps/bff/src/lib/maintenance.ts\<close>. The switch calls its source
  again on every read; the \<open>k\<close>-th call answers \<open>src k\<close>, where \<open>None\<close> is a source that
  throws.
\<close>

datatype provider = Listenbrainz | Lastfm | Musicbrainz | Itunes | Deezer | Reccobeats | Seatgeek

definition ALL_PROVIDERS :: "provider list" where
  "ALL_PROVIDERS = [Listenbrainz, Lastfm, Musicbrainz, Itunes, Deezer, Reccobeats, Seatgeek]"

fun provider_name :: "provider \<Rightarrow> string" where
  "provider_name Listenbrainz = ''listenbrainz''"
| "provider_name Lastfm = ''lastfm''"
| "provider_name Musicbrainz = ''musicbrainz''"
| "provider_name Itunes = ''itunes''"
| "provider_name Deezer = ''deezer''"
| "provider_name Reccobeats = ''reccobeats''"
| "provider_name Seatgeek = ''seatgeek''"

lemma in_ALL_PROVIDERS [simp]: "p \<in> set ALL_PROVIDERS"
  by (cases p) (simp_all add: ALL_PROVIDERS_def)

lemma provider_name_eq [simp]: "provider_name p = provider_name q \<longleftrightarrow> p = q"
  by (cases p; cases q) simp_all

record switch_state =
  sw_enabled :: bool
  sw_reason :: "string option"
  sw_changedAt :: "time option"

record kill_switch =
  ks_state :: "(provider \<times> switch_state) list"
  ks_hasSource :: bool
  ks_sourceReason :: string
  ks_lastSource :: "provider list"
  ks_calls :: nat

abbreviation switched_on :: switch_state where
  "switched_on \<equiv> \<lparr>sw_enabled = True, sw_reason = None, sw_changedAt = None\<rparr>"

definition ks_disable :: "time \<Rightarrow> provider \<Rightarrow> string \<Rightarrow> kill_switch \<Rightarrow> kill_switch" where
  "ks_disable now p reason ks =
     ks\<lparr>ks_state := AList.update p
          \<lparr>sw_enabled = False, sw_reason = Some reason, sw_changedAt = Some now\<rparr> (ks_state ks)\<rparr>"

definition ks_enable :: "time \<Rightarrow> provider \<Rightarrow> kill_switch \<Rightarrow> kill_switch" where
  "ks_enable now p ks =
     ks\<lparr>ks_state := AList.update p
          \<lparr>sw_enabled = True, sw_reason = None, sw_changedAt = Some now\<rparr> (ks_state ks)\<rparr>"

text \<open>The constructor, with the options' source and its reason.\<close>

definition ks_new :: "time \<Rightarrow> provider list \<Rightarrow> bool \<Rightarrow> string option \<Rightarrow> kill_switch" where
  "ks_new now initiallyDisabled hasSource sourceReason =
     foldl (\<lambda>ks p. ks_disable now p ''disabled by configuration at startup'' ks)
       \<lparr>ks_state = map (\<lambda>p. (p, switched_on)) ALL_PROVIDERS, ks_hasSource = hasSource,
        ks_sourceReason = orelse sourceReason
          ''disabled by the runtime kill-switch lever (flag file)'',
        ks_lastSource = [], ks_calls = 0\<rparr> initiallyDisabled"

definition ks_fromSource ::
  "(nat \<Rightarrow> provider list option) \<Rightarrow> kill_switch \<Rightarrow> provider list \<times> kill_switch" where
  "ks_fromSource src ks =
     (if \<not> ks_hasSource ks then (ks_lastSource ks, ks)
      else let ks1 = ks\<lparr>ks_calls := Suc (ks_calls ks)\<rparr>;
               ks2 = (case src (ks_calls ks) of
                        Some ps \<Rightarrow> ks1\<lparr>ks_lastSource := ps\<rparr>
                      | None \<Rightarrow> ks1)
           in (ks_lastSource ks2, ks2))"

definition ks_isEnabled ::
  "(nat \<Rightarrow> provider list option) \<Rightarrow> provider \<Rightarrow> kill_switch \<Rightarrow> bool \<times> kill_switch" where
  "ks_isEnabled src p ks =
     (case ks_fromSource src ks of (off, ks') \<Rightarrow>
        if p \<in> set off then (False, ks')
        else (case map_of (ks_state ks') p of None \<Rightarrow> True | Some s \<Rightarrow> sw_enabled s, ks'))"

definition ks_reasonFor ::
  "(nat \<Rightarrow> provider list option) \<Rightarrow> provider \<Rightarrow> kill_switch \<Rightarrow> string option \<times> kill_switch" where
  "ks_reasonFor src p ks =
     (case (case map_of (ks_state ks) p of None \<Rightarrow> None | Some s \<Rightarrow> sw_reason s) of
        Some local_reason \<Rightarrow> (Some local_reason, ks)
      | None \<Rightarrow>
          (case ks_fromSource src ks of (off, ks') \<Rightarrow>
             (if p \<in> set off then Some (ks_sourceReason ks') else None, ks')))"

text \<open>One entry of the snapshot: the effective state, not the in-memory one.\<close>

definition ks_effective ::
  "(nat \<Rightarrow> provider list option) \<Rightarrow> provider \<Rightarrow> kill_switch \<Rightarrow> switch_state \<times> kill_switch" where
  "ks_effective src p ks =
     (let s = orelse (map_of (ks_state ks) p) switched_on
      in case ks_isEnabled src p ks of (en, ks1) \<Rightarrow>
           if en then (s, ks1)
           else case ks_reasonFor src p ks1 of (r, ks2) \<Rightarrow>
                  (s\<lparr>sw_enabled := False, sw_reason := r\<rparr>, ks2))"

fun ks_snapshot_of ::
  "(nat \<Rightarrow> provider list option) \<Rightarrow> provider list \<Rightarrow> kill_switch \<Rightarrow>
   (provider \<times> switch_state) list \<times> kill_switch" where
  "ks_snapshot_of src [] ks = ([], ks)"
| "ks_snapshot_of src (p # ps) ks =
     (case ks_effective src p ks of (s, ks1) \<Rightarrow>
        case ks_snapshot_of src ps ks1 of (rest, ks2) \<Rightarrow> ((p, s) # rest, ks2))"

definition ks_snapshot ::
  "(nat \<Rightarrow> provider list option) \<Rightarrow> kill_switch \<Rightarrow> (provider \<times> switch_state) list \<times> kill_switch" where
  "ks_snapshot src ks = ks_snapshot_of src ALL_PROVIDERS ks"

datatype provider_status = Status_ok | Status_degraded | Status_disabled

text \<open>How \<open>GET /v1/config\<close> reads a switch and a breaker: \<open>statusOf\<close>.\<close>

definition statusOf :: "bool \<Rightarrow> bool \<Rightarrow> provider_status" where
  "statusOf enabled breakerClosed =
     (if \<not> enabled then Status_disabled else if breakerClosed then Status_ok else Status_degraded)"

subsection \<open>The flag directory\<close>

record flag_options =
  fo_dir :: string
  fo_pollMs :: int

text \<open>The variables that the closure keeps.\<close>

record flag_dir =
  fd_cachedAt :: "time option"
  fd_cached :: "provider list"
  fd_warned :: "string list"

definition fd_new :: flag_dir where
  "fd_new = \<lparr>fd_cachedAt = None, fd_cached = [], fd_warned = []\<rparr>"

definition known_provider :: "string \<Rightarrow> provider option" where
  "known_provider entry = find (\<lambda>p. provider_name p = entry) ALL_PROVIDERS"

text \<open>The loop over the directory entries: what they disable, and the names warned about.\<close>

fun fd_scan :: "string list \<Rightarrow> string list \<Rightarrow> provider list \<times> string list" where
  "fd_scan [] warned = ([], warned)"
| "fd_scan (entry # entries) warned =
     (if take 1 entry = ''.'' then fd_scan entries warned
      else case known_provider entry of
        Some p \<Rightarrow> (case fd_scan entries warned of (ps, w) \<Rightarrow> (p # ps, w))
      | None \<Rightarrow> fd_scan entries (if entry \<in> set warned then warned else warned @ [entry]))"

text \<open>One reading at time \<open>t\<close>; \<open>listing\<close> is what \<open>readdir\<close> gives then, \<open>None\<close> if it throws.\<close>

definition fd_poll :: "int \<Rightarrow> time \<Rightarrow> string list option \<Rightarrow> flag_dir \<Rightarrow> flag_dir" where
  "fd_poll pollMs t listing fd =
     (if \<not> due pollMs (fd_cachedAt fd) t then fd
      else let fd1 = fd\<lparr>fd_cachedAt := Some t\<rparr>
           in case listing of
                None \<Rightarrow> fd1
              | Some entries \<Rightarrow>
                  (case fd_scan entries (fd_warned fd1) of (disabled, w) \<Rightarrow>
                     fd1\<lparr>fd_warned := w, fd_cached := disabled\<rparr>))"

text \<open>The source that \<open>createKillSwitchSource\<close> returns.\<close>

definition fd_source :: "flag_options \<Rightarrow> time \<Rightarrow> string list option \<Rightarrow> flag_dir \<Rightarrow> provider list \<times> flag_dir" where
  "fd_source opts t listing fd =
     (if fo_dir opts = [] then ([], fd)
      else let fd' = fd_poll (fo_pollMs opts) t listing fd in (fd_cached fd', fd'))"

lemma fd_scan_warned_indep: "fst (fd_scan entries w) = fst (fd_scan entries [])"
proof (induction entries arbitrary: w)
  case (Cons e es)
  show ?case
    using Cons.IH [of w] Cons.IH [of "w @ [e]"] Cons.IH [of "[e]"]
    by (simp add: split_beta split: option.split)
qed simp

lemma known_provider_iff: "known_provider e = Some p \<longleftrightarrow> provider_name p = e"
  by (cases p) (auto simp: known_provider_def ALL_PROVIDERS_def)

lemma provider_name_no_dot: "take 1 (provider_name p) \<noteq> ''.''"
  by (cases p) simp_all

lemma fd_scan_set: "p \<in> set (fst (fd_scan entries w)) \<longleftrightarrow> provider_name p \<in> set entries"
proof (induction entries arbitrary: w)
  case (Cons e es)
  show ?case
  proof (cases "known_provider e")
    case None
    then have "provider_name p \<noteq> e" by (metis known_provider_iff option.distinct(1))
    with None Cons.IH show ?thesis by simp
  next
    case (Some q)
    then have "provider_name q = e" by (simp add: known_provider_iff)
    with Some Cons.IH provider_name_no_dot [of q] show ?thesis by (auto simp: split_beta)
  qed
qed simp

text \<open>The flag directory is a lever in the sense of \<open>held_reading\<close>.\<close>

interpretation flag_lever: held_reading pollMs "fd_poll pollMs" fd_cachedAt fd_cached
    "\<lambda>entries. fst (fd_scan entries [])" for pollMs
  by unfold_locales (auto simp: fd_poll_def Let_def split_beta fd_scan_warned_indep [of _ "fd_warned _"]
      split: option.splits)

subsection \<open>The maintenance gate\<close>

record maintenance_options =
  mo_envFlag :: bool
  mo_flagFile :: string
  mo_pollMs :: int

record maintenance_gate =
  mg_cachedAt :: "time option"
  mg_cachedFile :: bool

definition mg_new :: maintenance_gate where
  "mg_new = \<lparr>mg_cachedAt = None, mg_cachedFile = False\<rparr>"

definition mg_poll :: "int \<Rightarrow> time \<Rightarrow> bool option \<Rightarrow> maintenance_gate \<Rightarrow> maintenance_gate" where
  "mg_poll pollMs t exists mg =
     (if \<not> due pollMs (mg_cachedAt mg) t then mg
      else let mg1 = mg\<lparr>mg_cachedAt := Some t\<rparr>
           in case exists of None \<Rightarrow> mg1 | Some b \<Rightarrow> mg1\<lparr>mg_cachedFile := b\<rparr>)"

definition mg_fileActive ::
  "maintenance_options \<Rightarrow> time \<Rightarrow> bool option \<Rightarrow> maintenance_gate \<Rightarrow> bool \<times> maintenance_gate" where
  "mg_fileActive opts t exists mg =
     (if mo_flagFile opts = [] then (False, mg)
      else let mg' = mg_poll (mo_pollMs opts) t exists mg in (mg_cachedFile mg', mg'))"

definition mg_active ::
  "maintenance_options \<Rightarrow> time \<Rightarrow> bool option \<Rightarrow> maintenance_gate \<Rightarrow> bool \<times> maintenance_gate" where
  "mg_active opts t exists mg =
     (if mo_envFlag opts then (True, mg) else mg_fileActive opts t exists mg)"

datatype gate_reason = Off_reason | Env_reason | File_reason

definition mg_reason ::
  "maintenance_options \<Rightarrow> time \<Rightarrow> bool option \<Rightarrow> maintenance_gate \<Rightarrow> gate_reason \<times> maintenance_gate" where
  "mg_reason opts t exists mg =
     (if mo_envFlag opts then (Env_reason, mg)
      else case mg_fileActive opts t exists mg of
             (b, mg') \<Rightarrow> (if b then File_reason else Off_reason, mg'))"

interpretation gate_lever: held_reading pollMs "mg_poll pollMs" mg_cachedAt mg_cachedFile
    "\<lambda>b. b" for pollMs
  by unfold_locales (auto simp: mg_poll_def Let_def split: option.splits)

text \<open>The service's use of a lever: a run of readings at the given times.\<close>

definition mg_polls :: "maintenance_options \<Rightarrow> (time \<Rightarrow> bool option) \<Rightarrow> time list \<Rightarrow> maintenance_gate" where
  "mg_polls opts env ts = run_calls (\<lambda>t mg. snd (mg_active opts t (env t) mg)) mg_new ts"

definition fd_polls :: "flag_options \<Rightarrow> (time \<Rightarrow> string list option) \<Rightarrow> time list \<Rightarrow> flag_dir" where
  "fd_polls opts env ts = run_calls (\<lambda>t fd. snd (fd_source opts t (env t) fd)) fd_new ts"

subsection \<open>Calls of the switch\<close>

datatype switch_op = Sw_disable time provider string | Sw_enable time provider
  | Sw_isEnabled provider | Sw_reasonFor provider | Sw_snapshot

fun ks_call :: "(nat \<Rightarrow> provider list option) \<Rightarrow> switch_op \<Rightarrow> kill_switch \<Rightarrow> kill_switch" where
  "ks_call src (Sw_disable now p r) ks = ks_disable now p r ks"
| "ks_call src (Sw_enable now p) ks = ks_enable now p ks"
| "ks_call src (Sw_isEnabled p) ks = snd (ks_isEnabled src p ks)"
| "ks_call src (Sw_reasonFor p) ks = snd (ks_reasonFor src p ks)"
| "ks_call src Sw_snapshot ks = snd (ks_snapshot src ks)"

text \<open>What reads leave: the state map, the configuration, and the last good reading.\<close>

definition same_switch :: "kill_switch \<Rightarrow> kill_switch \<Rightarrow> bool" where
  "same_switch ks ks' \<longleftrightarrow> ks_state ks' = ks_state ks \<and> ks_hasSource ks' = ks_hasSource ks \<and>
     ks_sourceReason ks' = ks_sourceReason ks \<and> ks_calls ks \<le> ks_calls ks'"

lemma same_switch_fromSource: "same_switch ks (snd (ks_fromSource src ks))"
  by (simp add: same_switch_def ks_fromSource_def Let_def split: option.split)

lemma same_switch_isEnabled: "same_switch ks (snd (ks_isEnabled src p ks))"
  using same_switch_fromSource [of ks src] by (simp add: ks_isEnabled_def split_beta)

lemma same_switch_reasonFor: "same_switch ks (snd (ks_reasonFor src p ks))"
  using same_switch_fromSource [of ks src]
  by (auto simp: ks_reasonFor_def split_beta same_switch_def split: option.split)

lemma same_switch_trans: "same_switch a b \<Longrightarrow> same_switch b c \<Longrightarrow> same_switch a c"
  by (simp add: same_switch_def)

lemma same_switch_effective: "same_switch ks (snd (ks_effective src p ks))"
  by (auto simp: ks_effective_def Let_def split_beta
      intro: same_switch_trans same_switch_isEnabled same_switch_reasonFor)

lemma same_switch_snapshot: "same_switch ks (snd (ks_snapshot_of src ps ks))"
proof (induction ps arbitrary: ks)
  case (Cons p ps)
  show ?case
    using same_switch_trans [OF same_switch_effective Cons.IH] by (simp add: split_beta)
qed (simp add: same_switch_def)

text \<open>While every reading either throws or names \<open>p\<close>, a switch that once read \<open>p\<close> keeps it.\<close>

definition holds_off :: "(nat \<Rightarrow> provider list option) \<Rightarrow> provider \<Rightarrow> kill_switch \<Rightarrow> bool" where
  "holds_off src p ks \<longleftrightarrow> ks_hasSource ks \<and> p \<in> set (ks_lastSource ks) \<and>
     (\<forall>k ps. ks_calls ks \<le> k \<longrightarrow> src k = Some ps \<longrightarrow> p \<in> set ps)"

lemma holds_off_fromSource:
  assumes "holds_off src p ks"
  shows "p \<in> set (fst (ks_fromSource src ks)) \<and> holds_off src p (snd (ks_fromSource src ks))"
  using assms by (auto simp: holds_off_def ks_fromSource_def Let_def dest: Suc_leD split: option.split)

lemma holds_off_isEnabled:
  "holds_off src p ks \<Longrightarrow> holds_off src p (snd (ks_isEnabled src q ks)) \<and> \<not> fst (ks_isEnabled src p ks)"
  using holds_off_fromSource [of src p ks] by (simp add: ks_isEnabled_def split_beta)

lemma holds_off_reasonFor: "holds_off src p ks \<Longrightarrow> holds_off src p (snd (ks_reasonFor src q ks))"
  using holds_off_fromSource [of src p ks]
  by (auto simp: ks_reasonFor_def split_beta split: option.split)

lemma holds_off_snapshot: "holds_off src p ks \<Longrightarrow> holds_off src p (snd (ks_snapshot_of src ps ks))"
proof (induction ps arbitrary: ks)
  case (Cons q ps)
  have "holds_off src p (snd (ks_effective src q ks))"
    using Cons.prems
    by (auto simp: ks_effective_def Let_def split_beta holds_off_isEnabled holds_off_reasonFor)
  from Cons.IH [OF this] show ?case by (simp add: split_beta)
qed simp

lemma holds_off_call: "holds_off src p ks \<Longrightarrow> holds_off src p (ks_call src e ks)"
proof (cases e)
  case Sw_snapshot
  assume "holds_off src p ks"
  with Sw_snapshot show ?thesis by (simp add: ks_snapshot_def holds_off_snapshot)
qed (auto simp: holds_off_isEnabled holds_off_reasonFor,
    auto simp: holds_off_def ks_disable_def ks_enable_def)

interpretation kept_off: machine "ks_call src" "holds_off src p" for src p
  by unfold_locales (rule holds_off_call)

text \<open>A provider that is off in memory carries a reason.\<close>

definition reasons_given :: "kill_switch \<Rightarrow> bool" where
  "reasons_given ks \<longleftrightarrow>
     (\<forall>p s. map_of (ks_state ks) p = Some s \<longrightarrow> \<not> sw_enabled s \<longrightarrow> sw_reason s \<noteq> None)"

lemma reasons_given_call: "reasons_given ks \<Longrightarrow> reasons_given (ks_call src e ks)"
proof (induction src e ks rule: ks_call.induct)
  case (3 src p ks)
  then show ?case using same_switch_isEnabled [of ks src p] by (simp add: reasons_given_def same_switch_def)
next
  case (4 src p ks)
  then show ?case using same_switch_reasonFor [of ks src p] by (simp add: reasons_given_def same_switch_def)
next
  case (5 src ks)
  then show ?case using same_switch_snapshot [of ks src ALL_PROVIDERS]
    by (simp add: reasons_given_def same_switch_def ks_snapshot_def)
qed (auto simp: reasons_given_def ks_disable_def ks_enable_def update_conv)

interpretation reasoned: machine "ks_call src" reasons_given for src
  by unfold_locales (rule reasons_given_call)

lemma reasons_given_new: "reasons_given (ks_new now ps b r)"
proof -
  let ?ks = "\<lparr>ks_state = map (\<lambda>p. (p, switched_on)) ALL_PROVIDERS, ks_hasSource = b,
    ks_sourceReason = orelse r ''disabled by the runtime kill-switch lever (flag file)'',
    ks_lastSource = [], ks_calls = 0\<rparr>"
  have base: "reasons_given ?ks" by (auto simp: reasons_given_def map_of_map_restrict)
  have d: "reasons_given ks \<Longrightarrow> reasons_given (ks_disable now p q ks)" for p q ks
    using reasons_given_call [of ks _ "Sw_disable now p q"] by simp
  have "reasons_given ks \<Longrightarrow>
      reasons_given (foldl (\<lambda>ks p. ks_disable now p ''disabled by configuration at startup'' ks) ks ps)" for ks
    by (induction ps arbitrary: ks) (simp_all add: d)
  from this [OF base] show ?thesis by (simp add: ks_new_def)
qed

subsection \<open>A snapshot under one reading\<close>

text \<open>The source gives the same reading \<open>off\<close> throughout.\<close>

definition reads_off :: "(nat \<Rightarrow> provider list option) \<Rightarrow> provider list \<Rightarrow> kill_switch \<Rightarrow> bool" where
  "reads_off src off ks \<longleftrightarrow>
     (if ks_hasSource ks then \<forall>k. ks_calls ks \<le> k \<longrightarrow> src k = Some off else ks_lastSource ks = off)"

lemma reads_off_fromSource:
  "reads_off src off ks \<Longrightarrow>
   fst (ks_fromSource src ks) = off \<and> reads_off src off (snd (ks_fromSource src ks))"
  by (auto simp: reads_off_def ks_fromSource_def Let_def)

lemma reads_off_isEnabled:
  assumes "reads_off src off ks"
  shows "fst (ks_isEnabled src p ks) =
      (p \<notin> set off \<and> (case map_of (ks_state ks) p of None \<Rightarrow> True | Some s \<Rightarrow> sw_enabled s)) \<and>
    reads_off src off (snd (ks_isEnabled src p ks))"
  using reads_off_fromSource [OF assms] same_switch_fromSource [of ks src]
  by (simp add: ks_isEnabled_def split_beta same_switch_def)

lemma reads_off_effective:
  assumes "reads_off src off ks" "reasons_given ks"
  shows "reads_off src off (snd (ks_effective src p ks)) \<and>
    sw_enabled (fst (ks_effective src p ks)) = fst (ks_isEnabled src p ks) \<and>
    (\<not> fst (ks_isEnabled src p ks) \<longrightarrow> sw_reason (fst (ks_effective src p ks)) \<noteq> None)"
proof -
  let ?k = "snd (ks_isEnabled src p ks)"
  have k: "reads_off src off ?k" "ks_state ?k = ks_state ks"
    using reads_off_isEnabled [OF assms(1)] same_switch_isEnabled [of ks src p]
    by (auto simp: same_switch_def)
  have r: "reads_off src off (snd (ks_reasonFor src p ?k))"
    using reads_off_fromSource [OF k(1)] k(1)
    by (auto simp: ks_reasonFor_def split_beta split: option.split)
  have nn: "\<not> fst (ks_isEnabled src p ks) \<Longrightarrow> fst (ks_reasonFor src p ?k) \<noteq> None"
    using reads_off_isEnabled [OF assms(1), of p] reads_off_fromSource [OF k(1)] k(2) assms(2)
    by (auto simp: ks_reasonFor_def split_beta reasons_given_def split: option.splits)
  show ?thesis
    using k r nn reads_off_isEnabled [OF assms(1), of p]
    by (cases "map_of (ks_state ks) p") (auto simp: ks_effective_def Let_def split_beta)
qed

lemma snapshot_entries:
  "reads_off src off ks \<Longrightarrow> reasons_given ks \<Longrightarrow> p \<in> set ps \<Longrightarrow>
   \<exists>s. map_of (fst (ks_snapshot_of src ps ks)) p = Some s \<and>
     sw_enabled s = fst (ks_isEnabled src p ks) \<and> (\<not> sw_enabled s \<longrightarrow> sw_reason s \<noteq> None)"
proof (induction ps arbitrary: ks)
  case (Cons q ps)
  let ?k = "snd (ks_effective src q ks)"
  note e = reads_off_effective [OF Cons.prems(1,2)]
  have st: "ks_state ?k = ks_state ks" using same_switch_effective [of ks src q] by (simp add: same_switch_def)
  show ?case
  proof (cases "p = q")
    case True
    with e [of q] show ?thesis by (simp add: split_beta)
  next
    case False
    have "reasons_given ?k" using Cons.prems(2) st by (simp add: reasons_given_def)
    with Cons.IH [of ?k] Cons.prems False e [of q]
    obtain s where "map_of (fst (ks_snapshot_of src ps ?k)) p = Some s"
      "sw_enabled s = fst (ks_isEnabled src p ?k)" "\<not> sw_enabled s \<longrightarrow> sw_reason s \<noteq> None" by auto
    moreover have "fst (ks_isEnabled src p ?k) = fst (ks_isEnabled src p ks)"
      using reads_off_isEnabled [OF Cons.prems(1), of p] e [of q] st
        reads_off_isEnabled [of src off ?k p] by simp
    ultimately show ?thesis using False by (simp add: split_beta)
  qed
qed simp

subsection \<open>Properties\<close>

text \<open>Stopping a provider takes one poll interval and no restart: once its flag file is there for
  good, every read of the switch at least \<open>pollMs\<close> later answers disabled, whatever was read
  before and whatever the in-memory state says.\<close>

theorem flag_file_stops_provider:
  assumes "fo_dir opts \<noteq> []" and "\<And>t. start \<le> t \<Longrightarrow> \<exists>es. env t = Some es \<and> provider_name p \<in> set es"
    and "start + fo_pollMs opts \<le> t" and "start \<le> t" and "ks_hasSource ks"
    and "src (ks_calls ks) = Some (fst (fd_source opts t (env t) (fd_polls opts env ts)))"
  shows "\<not> fst (ks_isEnabled src p ks)"
proof -
  have "snd (fd_source opts t r fd) = fd_poll (fo_pollMs opts) t r fd" for t r fd
    using assms(1) by (simp add: fd_source_def Let_def)
  then have "fd_polls opts env ts = flag_lever.reads (fo_pollMs opts) env fd_new ts"
    by (simp add: fd_polls_def flag_lever.reads_def)
  then have "fst (fd_source opts t (env t) (fd_polls opts env ts)) =
      fd_cached (flag_lever.reads (fo_pollMs opts) env fd_new (ts @ [t]))"
    using assms(1) by (simp add: fd_source_def Let_def flag_lever.reads_def run_calls_append)
  moreover have "p \<in> set (fd_cached (flag_lever.reads (fo_pollMs opts) env fd_new (ts @ [t])))"
  proof (rule flag_lever.latency [where Q = "\<lambda>ps. p \<in> set ps" and start = start])
    fix u assume "start \<le> u"
    from assms(2) [OF this] show "\<exists>x. env u = Some x \<and> p \<in> set (fst (fd_scan x []))"
      by (auto simp: fd_scan_set)
  qed (use assms in \<open>simp_all add: fd_new_def\<close>)
  ultimately show ?thesis
    using assms(5,6) by (simp add: ks_isEnabled_def ks_fromSource_def Let_def split_beta)
qed

theorem flag_file_stops_provider_witness:
  "\<not> fst (ks_isEnabled (\<lambda>_. Some [Lastfm]) Lastfm (ks_new 0 [] True None))"
proof -
  let ?o = "\<lparr>fo_dir = ''/kill'', fo_pollMs = 5\<rparr>"
  let ?env = "\<lambda>t :: int. if t < 10 then Some [] else Some [''README'', ''lastfm'']"
  have e: "fst (fd_source ?o 15 (Some [''README'', ''lastfm'']) (fd_polls ?o ?env [9])) = [Lastfm]"
    by (simp add: fd_source_def fd_poll_def fd_polls_def fd_new_def known_provider_def ALL_PROVIDERS_def)
  show ?thesis
    by (rule flag_file_stops_provider [where opts = ?o and env = ?env and start = 10 and t = 15
          and ts = "[9]"])
      (simp_all add: e, simp add: ks_new_def)
qed

text \<open>A lever that throws re-enables nothing: once a reading named the provider, no sequence of
  calls on the switch, \<open>enable\<close> included, turns it back on while later readings throw or
  name it again.\<close>

theorem kill_switch_fails_closed:
  assumes "ks_hasSource ks" and "src (ks_calls ks) = Some off" and "p \<in> set off"
    and "\<And>k ps. ks_calls ks < k \<Longrightarrow> src k = Some ps \<Longrightarrow> p \<in> set ps"
  shows "\<not> fst (ks_isEnabled src p (run_calls (ks_call src) (snd (ks_isEnabled src q ks)) ops))"
proof -
  have "holds_off src p (snd (ks_isEnabled src q ks))"
    using assms by (auto simp: holds_off_def ks_isEnabled_def ks_fromSource_def Let_def split_beta
        Suc_le_eq)
  from kept_off.inv_run [OF this] show ?thesis using holds_off_isEnabled by blast
qed

theorem kill_switch_fails_closed_witness:
  "\<not> fst (ks_isEnabled (\<lambda>k. if k = 0 then Some [Deezer] else None) Deezer
     (run_calls (ks_call (\<lambda>k. if k = 0 then Some [Deezer] else None))
       (snd (ks_isEnabled (\<lambda>k. if k = 0 then Some [Deezer] else None) Lastfm (ks_new 0 [] True None)))
       [Sw_snapshot, Sw_enable 4 Deezer, Sw_isEnabled Itunes]))"
  by (rule kill_switch_fails_closed [where off = "[Deezer]"]) (auto simp: ks_new_def split: if_splits)

text \<open>The snapshot reports the effective state: under one reading of the source, a provider shows
  as enabled exactly when \<open>isEnabled\<close> would say so, and never shows as off without a reason.\<close>

theorem kill_switch_snapshot_effective:
  assumes "ks = run_calls (ks_call src) (ks_new now ps b r) ops" and "reads_off src off ks"
  shows "\<exists>s. map_of (fst (ks_snapshot src ks)) p = Some s \<and>
    sw_enabled s = fst (ks_isEnabled src p ks) \<and> (\<not> sw_enabled s \<longrightarrow> sw_reason s \<noteq> None)"
  unfolding ks_snapshot_def
  by (rule snapshot_entries [OF assms(2)])
    (simp_all add: assms(1) reasoned.inv_run reasons_given_new)

theorem kill_switch_snapshot_effective_witness:
  "\<exists>s. map_of (fst (ks_snapshot (\<lambda>_. Some [Deezer]) (ks_new 0 [Lastfm] True None))) Deezer = Some s \<and>
     \<not> sw_enabled s \<and> sw_reason s \<noteq> None"
proof -
  let ?ks = "ks_new 0 [Lastfm] True None"
  have "ks_hasSource ?ks" by (simp add: ks_new_def ks_disable_def)
  then have r: "reads_off (\<lambda>_. Some [Deezer]) [Deezer] ?ks" by (simp add: reads_off_def)
  have "\<not> fst (ks_isEnabled (\<lambda>_. Some [Deezer]) Deezer ?ks)" using reads_off_isEnabled [OF r] by simp
  with kill_switch_snapshot_effective [where ops = "[]", OF _ r, of 0 "[Lastfm]" True None Deezer]
  show ?thesis by auto
qed

text \<open>A contained node does not start serving again by itself: after an active answer the
  maintenance gate stays active through any readings none of which finds the flag file
  absent, failed readings included.\<close>

theorem maintenance_holds:
  assumes "fst (mg_active opts t0 (env t0) mg)" and "\<forall>t \<in> set ts. env t \<noteq> Some False"
    and "env t \<noteq> Some False"
  shows "fst (mg_active opts t (env t)
    (run_calls (\<lambda>t mg. snd (mg_active opts t (env t) mg)) (snd (mg_active opts t0 (env t0) mg)) ts))"
proof (cases "mo_envFlag opts \<or> mo_flagFile opts = []")
  case True
  then show ?thesis
    using assms(1) by (cases "mo_envFlag opts") (simp_all add: mg_active_def mg_fileActive_def)
next
  case False
  then have a: "mg_active opts t r mg = (let mg' = mg_poll (mo_pollMs opts) t r mg in (mg_cachedFile mg', mg'))"
    for t r mg by (simp add: mg_active_def mg_fileActive_def)
  have keep: "mg_cachedFile mg \<Longrightarrow> r \<noteq> Some False \<Longrightarrow> mg_cachedFile (mg_poll pl t r mg)" for pl t r mg
    by (cases r) (auto simp: mg_poll_def Let_def)
  have "mg_cachedFile mg \<Longrightarrow> mg_cachedFile (run_calls (\<lambda>t. mg_poll (mo_pollMs opts) t (env t)) mg ts)" for mg
    using assms(2) by (induction ts arbitrary: mg) (simp_all add: keep)
  from this [of "mg_poll (mo_pollMs opts) t0 (env t0) mg"] show ?thesis
    using assms(1,3) by (simp add: a Let_def keep)
qed

theorem maintenance_holds_witness:
  "fst (mg_active \<lparr>mo_envFlag = False, mo_flagFile = ''/flag'', mo_pollMs = 5\<rparr> 30 None
    (run_calls (\<lambda>t mg. snd (mg_active \<lparr>mo_envFlag = False, mo_flagFile = ''/flag'', mo_pollMs = 5\<rparr> t
        (if t = 0 then Some True else None) mg))
      (snd (mg_active \<lparr>mo_envFlag = False, mo_flagFile = ''/flag'', mo_pollMs = 5\<rparr> 0 (Some True) mg_new))
      [7, 20]))"
  using maintenance_holds [of "\<lparr>mo_envFlag = False, mo_flagFile = ''/flag'', mo_pollMs = 5\<rparr>" 0
      "\<lambda>t. if t = 0 then Some True else None" mg_new "[7, 20]" 30]
  by (simp add: mg_active_def mg_fileActive_def mg_poll_def mg_new_def Let_def)

end
