(* ===== verification/Cache_Store.thy ===== *)
theory Cache_Store
  imports Kill_Switch "HOL-Library.Multiset" "HOL-Library.Product_Lexorder"
begin

text \<open>
  The cache contract of \<^verbatim>\<open>packages/upstream/src/cache/store.ts\<close>, stated as a locale, and
  the in-memory store of \<^verbatim>\<open>packages/upstream/src/cache/memory-store.ts\<close>, which satisfies
  it. The size of a payload, \<open>Buffer.byteLength(JSON.stringify(payload ?? null))\<close>, is the
  parameter \<open>bytes_of\<close> of the operations that record it.
\<close>

record 'p cache_entry =
  ce_payload :: 'p
  ce_fetchedAt :: time
  ce_expiresAt :: "time option"
  ce_hitCount :: nat

record eviction_report =
  er_provider :: provider
  er_evicted :: nat
  er_bytesFreed :: int

subsection \<open>The contract\<close>

text \<open>
  What a client of the cache may rely on: a read returns the row of exactly that provider
  and key and changes no content, a write makes its own row readable and touches no other,
  and so does a deletion. \<open>content\<close> is the abstract value of a store.
\<close>

locale cache_store =
  fixes get :: "time \<Rightarrow> provider \<Rightarrow> string \<Rightarrow> 's \<Rightarrow> 'p cache_entry option \<times> 's"
    and put :: "time \<Rightarrow> provider \<Rightarrow> string \<Rightarrow> 'p \<Rightarrow> int option \<Rightarrow> 's \<Rightarrow> 's"
    and remove :: "provider \<Rightarrow> string \<Rightarrow> 's \<Rightarrow> 's"
    and content :: "'s \<Rightarrow> provider \<times> string \<Rightarrow> ('p \<times> time \<times> time option) option"
  assumes get_entry: "map_option (\<lambda>e. (ce_payload e, ce_fetchedAt e, ce_expiresAt e)) (fst (get now p k s)) =
      content s (p, k)"
    and get_content: "content (snd (get now p k s)) = content s"
    and put_content: "content (put now p k v ttl s) =
      (content s)((p, k) \<mapsto> (v, now, map_option (\<lambda>t. now + t * 1000) ttl))"
    and remove_content: "content (remove p k s) = (content s)((p, k) := None)"
begin

lemma get_None: "fst (get now p k s) = None \<longleftrightarrow> content s (p, k) = None"
  using get_entry [of now p k s]
  by (cases "content s (p, k)"; cases "fst (get now p k s)") simp_all

lemma get_Some:
  "fst (get now p k s) = Some e \<Longrightarrow> content s (p, k) = Some (ce_payload e, ce_fetchedAt e, ce_expiresAt e)"
  using get_entry [of now p k s] by simp

text \<open>A write is read back, with its expiry, and no other row changes.\<close>

lemma put_get:
  "\<exists>e. fst (get now' p k (put now p k v ttl s)) = Some e \<and> ce_payload e = v \<and> ce_fetchedAt e = now \<and>
     ce_expiresAt e = map_option (\<lambda>t. now + t * 1000) ttl"
proof -
  have "map_option (\<lambda>e. (ce_payload e, ce_fetchedAt e, ce_expiresAt e))
      (fst (get now' p k (put now p k v ttl s))) = Some (v, now, map_option (\<lambda>t. now + t * 1000) ttl)"
    by (simp add: get_entry put_content)
  then show ?thesis by (auto simp: map_option_eq_Some)
qed

lemma remove_get: "fst (get now p k (remove p k s)) = None"
  by (simp add: get_None remove_content)

end

subsection \<open>The in-memory store\<close>

record 'p cache_row =
  cr_payload :: 'p
  cr_bytes :: int
  cr_fetchedAt :: time
  cr_expiresAt :: "time option"
  cr_hitCount :: nat
  cr_lastHitAt :: "time option"

text \<open>The map \<open>#rows\<close>, in insertion order.\<close>

type_synonym 'p memory_store = "(string \<times> 'p cache_row) list"

definition KEY_SEPARATOR :: char where
  "KEY_SEPARATOR = CHR 0x1F"

definition ms_id :: "provider \<Rightarrow> string \<Rightarrow> string" where
  "ms_id p key = provider_name p @ KEY_SEPARATOR # key"

definition ms_get :: "time \<Rightarrow> provider \<Rightarrow> string \<Rightarrow> 'p memory_store \<Rightarrow> 'p cache_entry option \<times> 'p memory_store" where
  "ms_get now p key rows =
     (case map_of rows (ms_id p key) of
        None \<Rightarrow> (None, rows)
      | Some row \<Rightarrow>
          let row' = row\<lparr>cr_hitCount := Suc (cr_hitCount row), cr_lastHitAt := Some now\<rparr>
          in (Some \<lparr>ce_payload = cr_payload row', ce_fetchedAt = cr_fetchedAt row',
                    ce_expiresAt = cr_expiresAt row', ce_hitCount = cr_hitCount row'\<rparr>,
              AList.update (ms_id p key) row' rows))"

definition ms_set ::
  "('p \<Rightarrow> int) \<Rightarrow> time \<Rightarrow> provider \<Rightarrow> string \<Rightarrow> 'p \<Rightarrow> int option \<Rightarrow> 'p memory_store \<Rightarrow> 'p memory_store" where
  "ms_set bytes_of now p key payload ttlSeconds rows =
     AList.update (ms_id p key)
       \<lparr>cr_payload = payload, cr_bytes = bytes_of payload, cr_fetchedAt = now,
        cr_expiresAt = map_option (\<lambda>t. now + t * 1000) ttlSeconds, cr_hitCount = 0,
        cr_lastHitAt = None\<rparr> rows"

definition ms_delete :: "provider \<Rightarrow> string \<Rightarrow> 'p memory_store \<Rightarrow> 'p memory_store" where
  "ms_delete p key rows = AList.delete (ms_id p key) rows"

text \<open>\<open>id.startsWith(prefix)\<close> with the provider and the separator as the prefix.\<close>

definition ms_owned :: "provider \<Rightarrow> string \<Rightarrow> bool" where
  "ms_owned p i \<longleftrightarrow> take (Suc (length (provider_name p))) i = provider_name p @ [KEY_SEPARATOR]"

definition ms_sizeOf :: "provider \<Rightarrow> 'p memory_store \<Rightarrow> nat \<times> int" where
  "ms_sizeOf p rows =
     (let own = filter (\<lambda>(i, row). ms_owned p i) rows
      in (length own, sum_list (map (cr_bytes \<circ> snd) own)))"

text \<open>
  Eviction order: never hit first (\<open>lastHitAt ?? -1\<close>), then the oldest fetch;
  \<open>Array.prototype.sort\<close> is stable, and so is \<open>sort_key\<close>.
\<close>

definition lru_key :: "'p cache_row \<Rightarrow> int \<times> int" where
  "lru_key row = (orelse (cr_lastHitAt row) (-1), cr_fetchedAt row)"

fun ms_evict_loop ::
  "int \<Rightarrow> (string \<times> 'p cache_row) list \<Rightarrow> nat \<Rightarrow> int \<Rightarrow> 'p memory_store \<Rightarrow> nat \<times> int \<times> 'p memory_store" where
  "ms_evict_loop bytesToFree [] evicted bytesFreed rows = (evicted, bytesFreed, rows)"
| "ms_evict_loop bytesToFree ((i, row) # cs) evicted bytesFreed rows =
     (if bytesFreed \<ge> bytesToFree then (evicted, bytesFreed, rows)
      else ms_evict_loop bytesToFree cs (Suc evicted) (bytesFreed + cr_bytes row) (AList.delete i rows))"

definition ms_evictLru :: "provider \<Rightarrow> int \<Rightarrow> 'p memory_store \<Rightarrow> eviction_report \<times> 'p memory_store" where
  "ms_evictLru p bytesToFree rows =
     (let candidates = sort_key (\<lambda>(i, row). lru_key row) (filter (\<lambda>(i, row). ms_owned p i) rows)
      in case ms_evict_loop bytesToFree candidates 0 0 rows of
           (evicted, bytesFreed, rows') \<Rightarrow>
             (\<lparr>er_provider = p, er_evicted = evicted, er_bytesFreed = bytesFreed\<rparr>, rows'))"

subsection \<open>Identifiers do not collide\<close>

lemma separator_fresh: "KEY_SEPARATOR \<notin> set (provider_name p)"
  by (cases p) (simp_all add: KEY_SEPARATOR_def)

lemma ms_id_inj [simp]: "ms_id p k = ms_id q l \<longleftrightarrow> p = q \<and> k = l"
proof
  assume "ms_id p k = ms_id q l"
  then have e: "provider_name p @ KEY_SEPARATOR # k = provider_name q @ KEY_SEPARATOR # l"
    by (simp add: ms_id_def)
  have "provider_name p = takeWhile ((\<noteq>) KEY_SEPARATOR) (provider_name p @ KEY_SEPARATOR # k)"
    using separator_fresh [of p] by (subst takeWhile_append2) auto
  also have "\<dots> = takeWhile ((\<noteq>) KEY_SEPARATOR) (provider_name q @ KEY_SEPARATOR # l)" by (simp only: e)
  also have "\<dots> = provider_name q" using separator_fresh [of q] by (subst takeWhile_append2) auto
  finally have "p = q" by simp
  with e show "p = q \<and> k = l" by simp
qed simp

lemma ms_owned_id [simp]: "ms_owned p (ms_id q k) \<longleftrightarrow> p = q"
proof
  assume "ms_owned p (ms_id q k)"
  then have "ms_id q k = ms_id p (drop (Suc (length (provider_name p))) (ms_id q k))"
    unfolding ms_owned_def ms_id_def [of p]
    by (metis append.assoc append_Cons append_Nil append_take_drop_id)
  then show "p = q" by simp
qed (simp add: ms_owned_def ms_id_def)

lemma ms_owned_iff: "ms_owned p i \<longleftrightarrow> (\<exists>k. i = ms_id p k)"
  by (metis append.assoc append_Cons append_Nil append_take_drop_id ms_id_def ms_owned_def ms_owned_id)

subsection \<open>The in-memory store satisfies the contract\<close>

definition ms_content :: "'p memory_store \<Rightarrow> provider \<times> string \<Rightarrow> ('p \<times> time \<times> time option) option" where
  "ms_content rows pk = map_option (\<lambda>row. (cr_payload row, cr_fetchedAt row, cr_expiresAt row))
     (map_of rows (ms_id (fst pk) (snd pk)))"

interpretation memory: cache_store ms_get "ms_set bytes_of" ms_delete ms_content for bytes_of
proof
  show "map_option (\<lambda>e. (ce_payload e, ce_fetchedAt e, ce_expiresAt e)) (fst (ms_get now p k s)) =
      ms_content s (p, k)" for now p k and s :: "'p memory_store"
    by (simp add: ms_get_def ms_content_def Let_def split: option.split)
  show "ms_content (snd (ms_get now p k s)) = ms_content s" for now p k and s :: "'p memory_store"
    by (rule ext) (auto simp: ms_get_def ms_content_def Let_def update_conv split: option.split)
qed (auto simp: ms_content_def ms_set_def ms_delete_def update_conv delete_conv fun_eq_iff)

subsection \<open>Well-formed stores\<close>

text \<open>A map holds a key once, and no payload has a negative size.\<close>

definition ms_ok :: "'p memory_store \<Rightarrow> bool" where
  "ms_ok rows \<longleftrightarrow> distinct (map fst rows) \<and> (\<forall>(i, row) \<in> set rows. 0 \<le> cr_bytes row)"

definition own_rows :: "provider \<Rightarrow> 'p memory_store \<Rightarrow> 'p memory_store" where
  "own_rows p rows = filter (\<lambda>(i, row). ms_owned p i) rows"

definition bytes_in :: "(string \<times> 'p cache_row) list \<Rightarrow> int" where
  "bytes_in rows = sum_list (map (cr_bytes \<circ> snd) rows)"

lemma bytes_in_simps [simp]:
  "bytes_in [] = 0"
  "bytes_in (r # rs) = cr_bytes (snd r) + bytes_in rs"
  "bytes_in (rs @ rs') = bytes_in rs + bytes_in rs'"
  by (simp_all add: bytes_in_def)

lemma ms_sizeOf_own: "ms_sizeOf p rows = (length (own_rows p rows), bytes_in (own_rows p rows))"
  by (simp add: ms_sizeOf_def own_rows_def bytes_in_def Let_def)

lemma bytes_in_nonneg: "\<forall>(i, row) \<in> set rows. 0 \<le> cr_bytes row \<Longrightarrow> 0 \<le> bytes_in rows"
  by (induction rows) auto

lemma bytes_in_mset: "mset xs = mset ys \<Longrightarrow> bytes_in xs = bytes_in ys"
  unfolding bytes_in_def by (metis mset_map sum_mset_sum_list)

subsection \<open>Eviction\<close>

lemma evict_loop_take:
  "\<exists>m \<le> length cs.
     ms_evict_loop n cs ev fr rows =
       (ev + m, fr + bytes_in (take m cs), filter (\<lambda>(i, r). i \<notin> fst ` set (take m cs)) rows) \<and>
     (m = length cs \<or> n \<le> fr + bytes_in (take m cs)) \<and>
     (0 < m \<longrightarrow> fr + bytes_in (take (m - 1) cs) < n)"
proof (induction cs arbitrary: ev fr rows)
  case Nil
  then show ?case by (simp add: filter_id_conv split_beta)
next
  case (Cons c cs)
  obtain i row where c: "c = (i, row)" by (cases c)
  show ?case
  proof (cases "n \<le> fr")
    case True
    then show ?thesis using c by (intro exI [of _ 0]) (simp add: filter_id_conv split_beta)
  next
    case False
    from Cons.IH [of "Suc ev" "fr + cr_bytes row" "AList.delete i rows"] obtain m where
      m: "m \<le> length cs" "ms_evict_loop n cs (Suc ev) (fr + cr_bytes row) (AList.delete i rows) =
         (Suc ev + m, fr + cr_bytes row + bytes_in (take m cs),
          filter (\<lambda>(i, r). i \<notin> fst ` set (take m cs)) (AList.delete i rows))"
      "m = length cs \<or> n \<le> fr + cr_bytes row + bytes_in (take m cs)"
      "0 < m \<longrightarrow> fr + cr_bytes row + bytes_in (take (m - 1) cs) < n" by blast
    have "filter (\<lambda>(j, r). j \<notin> fst ` set (take m cs)) (AList.delete i rows) =
        filter (\<lambda>(j, r). j \<notin> fst ` set (take (Suc m) (c # cs))) rows"
      using c by (auto simp: AList.delete_eq intro!: filter_cong)
    with m c False show ?thesis
      by (intro exI [of _ "Suc m"]) (cases m; auto simp: add.assoc)
  qed
qed

lemma mset_filter_drop:
  assumes "mset s = mset xs" "distinct (map fst s)"
  shows "mset (filter (\<lambda>(i, r). i \<notin> fst ` set (take m s)) xs) = mset (drop m s)"
proof -
  have d: "distinct (map fst (take m s) @ map fst (drop m s))"
    using assms(2) by (metis append_take_drop_id map_append)
  have "mset (filter (\<lambda>(i, r). i \<notin> fst ` set (take m s)) xs) =
      mset (filter (\<lambda>(i, r). i \<notin> fst ` set (take m s)) (take m s @ drop m s))"
    by (simp only: append_take_drop_id mset_filter assms(1))
  also have "filter (\<lambda>(i, r). i \<notin> fst ` set (take m s)) (take m s) = []"
    by (auto simp: filter_empty_conv split_beta)
  moreover have "filter (\<lambda>(i, r). i \<notin> fst ` set (take m s)) (drop m s) = drop m s"
    using d by (auto simp: filter_id_conv split_beta)
  ultimately have "mset (filter (\<lambda>(i, r). i \<notin> fst ` set (take m s)) xs) = mset ([] @ drop m s)"
    by (simp only: filter_append)
  then show ?thesis by simp
qed

text \<open>What an eviction pass evicts: a prefix of the candidates in order.\<close>

definition lru_order :: "provider \<Rightarrow> 'p memory_store \<Rightarrow> (string \<times> 'p cache_row) list" where
  "lru_order p rows = sort_key (\<lambda>(i, row). lru_key row) (own_rows p rows)"

lemma lru_order_mset: "mset (lru_order p rows) = mset (own_rows p rows)"
  by (simp add: lru_order_def)

lemma lru_order_distinct: "ms_ok rows \<Longrightarrow> distinct (map fst (lru_order p rows))"
proof -
  assume "ms_ok rows"
  then have "distinct (map fst (own_rows p rows))"
    by (simp add: ms_ok_def own_rows_def distinct_map_filter)
  moreover have "mset (map fst (lru_order p rows)) = mset (map fst (own_rows p rows))"
    by (simp only: mset_map lru_order_mset)
  ultimately show ?thesis using mset_eq_imp_distinct_iff by blast
qed

lemma evict_prefix:
  assumes "ms_ok rows" "ms_evictLru p n rows = (rep, rows')"
  shows "\<exists>m \<le> length (lru_order p rows).
     er_evicted rep = m \<and> er_bytesFreed rep = bytes_in (take m (lru_order p rows)) \<and>
     rows' = filter (\<lambda>(i, r). i \<notin> fst ` set (take m (lru_order p rows))) rows \<and>
     mset (own_rows p rows') = mset (drop m (lru_order p rows)) \<and>
     (m = length (lru_order p rows) \<or> n \<le> er_bytesFreed rep) \<and>
     (0 < m \<longrightarrow> bytes_in (take (m - 1) (lru_order p rows)) < n)"
proof -
  let ?cs = "lru_order p rows"
  have "ms_evictLru p n rows = (case ms_evict_loop n ?cs 0 0 rows of (e, f, r) \<Rightarrow>
      (\<lparr>er_provider = p, er_evicted = e, er_bytesFreed = f\<rparr>, r))"
    by (simp add: ms_evictLru_def lru_order_def own_rows_def Let_def)
  moreover obtain m where m: "m \<le> length ?cs"
    "ms_evict_loop n ?cs 0 0 rows =
       (m, bytes_in (take m ?cs), filter (\<lambda>(i, r). i \<notin> fst ` set (take m ?cs)) rows)"
    "m = length ?cs \<or> n \<le> bytes_in (take m ?cs)" "0 < m \<longrightarrow> bytes_in (take (m - 1) ?cs) < n"
    using evict_loop_take [of ?cs n 0 0 rows] by auto
  ultimately have rep: "er_evicted rep = m" "er_bytesFreed rep = bytes_in (take m ?cs)"
    "rows' = filter (\<lambda>(i, r). i \<notin> fst ` set (take m ?cs)) rows"
    using assms(2) by auto
  have "own_rows p rows' = filter (\<lambda>(i, r). i \<notin> fst ` set (take m ?cs)) (own_rows p rows)"
    by (auto simp: own_rows_def rep(3) conj_commute intro: filter_cong)
  then have "mset (own_rows p rows') = mset (drop m ?cs)"
    using mset_filter_drop [OF lru_order_mset lru_order_distinct [OF assms(1)]] by simp
  with rep m show ?thesis by auto
qed

lemma ms_ok_filter: "ms_ok rows \<Longrightarrow> ms_ok (filter P rows)"
  by (auto simp: ms_ok_def distinct_map_filter)

lemma ms_ok_ops:
  "ms_ok rows \<Longrightarrow> ms_ok (snd (ms_get now p k rows))"
  "ms_ok rows \<Longrightarrow> 0 \<le> bytes_of v \<Longrightarrow> ms_ok (ms_set bytes_of now p k v ttl rows)"
  "ms_ok rows \<Longrightarrow> ms_ok (ms_delete p k rows)"
proof -
  have upd: "ms_ok (AList.update i row rows)" if "ms_ok rows" "0 \<le> cr_bytes row"
    for i and row :: "'a cache_row" and rows
    using that set_update_subset [of i row rows] by (auto simp: ms_ok_def distinct_update)
  have "ms_ok rows \<Longrightarrow> map_of rows i = Some row \<Longrightarrow> 0 \<le> cr_bytes row" for i row
    by (auto simp: ms_ok_def dest: map_of_SomeD)
  then show "ms_ok rows \<Longrightarrow> ms_ok (snd (ms_get now p k rows))"
    by (auto simp: ms_get_def Let_def intro!: upd split: option.split)
  show "ms_ok rows \<Longrightarrow> 0 \<le> bytes_of v \<Longrightarrow> ms_ok (ms_set bytes_of now p k v ttl rows)"
    by (auto simp: ms_set_def intro!: upd)
  show "ms_ok rows \<Longrightarrow> ms_ok (ms_delete p k rows)"
    by (simp add: ms_delete_def AList.delete_eq ms_ok_filter)
qed

subsection \<open>Properties\<close>

text \<open>What eviction promises: the provider's size falls by exactly the bytes reported, at least the
  requested bytes unless nothing of the provider is left, no row is evicted before one that
  was used less recently, no row more than needed, and other providers keep every row.\<close>

theorem evict_lru_contract:
  assumes "ms_ok rows" and "ms_evictLru p n rows = (rep, rows')"
  shows "snd (ms_sizeOf p rows') = snd (ms_sizeOf p rows) - er_bytesFreed rep \<and>
    (n \<le> er_bytesFreed rep \<or> own_rows p rows' = []) \<and>
    (\<forall>(i, gone) \<in> set (own_rows p rows) - set rows'. \<forall>(j, kept) \<in> set (own_rows p rows').
       lru_key gone \<le> lru_key kept) \<and>
    (0 < er_evicted rep \<longrightarrow> (\<exists>(i, row) \<in> set (own_rows p rows). er_bytesFreed rep - cr_bytes row < n)) \<and>
    (\<forall>q. q \<noteq> p \<longrightarrow> own_rows q rows' = own_rows q rows)"
proof -
  let ?cs = "lru_order p rows"
  obtain m where m: "m \<le> length ?cs" "er_evicted rep = m" "er_bytesFreed rep = bytes_in (take m ?cs)"
    "rows' = filter (\<lambda>(i, r). i \<notin> fst ` set (take m ?cs)) rows"
    "mset (own_rows p rows') = mset (drop m ?cs)"
    "m = length ?cs \<or> n \<le> er_bytesFreed rep" "0 < m \<longrightarrow> bytes_in (take (m - 1) ?cs) < n"
    using evict_prefix [OF assms] by (elim exE conjE) (rule that)
  have set_cs: "set ?cs = set (own_rows p rows)" by (metis lru_order_mset set_mset_mset)
  have "bytes_in (own_rows p rows') = bytes_in (drop m ?cs)" by (rule bytes_in_mset [OF m(5)])
  moreover have "bytes_in (take m ?cs) + bytes_in (drop m ?cs) = bytes_in (own_rows p rows)"
    using bytes_in_mset [OF lru_order_mset, of p rows]
    by (metis append_take_drop_id bytes_in_simps(3))
  ultimately have size: "snd (ms_sizeOf p rows') = snd (ms_sizeOf p rows) - er_bytesFreed rep"
    using m(3) by (simp add: ms_sizeOf_own)
  have enough: "n \<le> er_bytesFreed rep \<or> own_rows p rows' = []"
    using m(5,6) by auto
  have sorted: "sorted (map (\<lambda>(i, row). lru_key row) (take m ?cs @ drop m ?cs))"
    unfolding append_take_drop_id by (simp add: lru_order_def)
  have lru: "lru_key gone \<le> lru_key kept"
    if "(i, gone) \<in> set (own_rows p rows) - set rows'" "(j, kept) \<in> set (own_rows p rows')" for i gone j kept
  proof -
    have "(i, gone) \<in> set (take m ?cs)"
    proof -
      have "(i, gone) \<in> set ?cs" using that(1) set_cs by simp
      moreover have "(i, gone) \<notin> set (drop m ?cs)"
        using that(1) m(5) by (metis DiffD2 filter_is_subset own_rows_def set_mset_mset subsetD)
      ultimately show ?thesis by (metis Un_iff append_take_drop_id set_append)
    qed
    moreover have "(j, kept) \<in> set (drop m ?cs)" using that(2) m(5) by (metis set_mset_mset)
    moreover have "\<forall>x \<in> set (take m ?cs). \<forall>y \<in> set (drop m ?cs).
        (case x of (i, row) \<Rightarrow> lru_key row) \<le> (case y of (i, row) \<Rightarrow> lru_key row)"
      using sorted unfolding map_append sorted_append set_map by blast
    ultimately show ?thesis by (metis (mono_tags, lifting) case_prod_conv)
  qed
  have tight: "\<exists>(i, row) \<in> set (own_rows p rows). er_bytesFreed rep - cr_bytes row < n" if "0 < m"
  proof -
    have "take m ?cs = take (m - 1) ?cs @ [?cs ! (m - 1)]"
      using that m(1) by (metis Suc_diff_1 Suc_le_lessD take_Suc_conv_app_nth)
    then have "er_bytesFreed rep - cr_bytes (snd (?cs ! (m - 1))) < n"
      using that m(3,7) by simp
    moreover have "?cs ! (m - 1) \<in> set (own_rows p rows)"
      using that m(1) set_cs by (metis Suc_diff_1 Suc_le_lessD nth_mem)
    ultimately show ?thesis by (auto simp: case_prod_unfold)
  qed
  have others: "own_rows q rows' = own_rows q rows" if "q \<noteq> p" for q
  proof -
    have "ms_owned q i \<Longrightarrow> i \<notin> fst ` set (take m ?cs)" for i
    proof
      assume "ms_owned q i" "i \<in> fst ` set (take m ?cs)"
      then have "ms_owned q i" "ms_owned p i"
        using set_cs by (auto simp: own_rows_def dest!: in_set_takeD)
      with that show False by (auto simp: ms_owned_iff)
    qed
    then show ?thesis by (auto simp: own_rows_def m(4) intro!: filter_cong)
  qed
  from size enough lru tight others m(2) show ?thesis by (auto simp: case_prod_unfold)
qed

abbreviation demo_row :: "int \<Rightarrow> time \<Rightarrow> time option \<Rightarrow> nat cache_row" where
  "demo_row b t h \<equiv> \<lparr>cr_payload = 0, cr_bytes = b, cr_fetchedAt = t, cr_expiresAt = None,
     cr_hitCount = 0, cr_lastHitAt = h\<rparr>"

abbreviation demo_store :: "nat memory_store" where
  "demo_store \<equiv> [(ms_id Lastfm ''a'', demo_row 30 1 (Some 9)), (ms_id Deezer ''a'', demo_row 5 1 None),
     (ms_id Lastfm ''b'', demo_row 20 2 None), (ms_id Lastfm ''c'', demo_row 20 3 (Some 4))]"

theorem evict_lru_contract_witness:
  "snd (ms_sizeOf Lastfm (snd (ms_evictLru Lastfm 25 demo_store))) = 30 \<and>
   er_bytesFreed (fst (ms_evictLru Lastfm 25 demo_store)) = 40"
proof -
  have "ms_ok demo_store" by (simp add: ms_ok_def)
  from evict_lru_contract [OF this prod.collapse [symmetric], of Lastfm 25] show ?thesis
    by (simp add: ms_evictLru_def ms_sizeOf_def lru_key_def insort_key.simps Let_def)
qed

text \<open>A cached payload is read back under its own provider and key with its own expiry, and no
  write of another provider or key changes what a read finds, whatever characters the keys
  hold.\<close>

theorem memory_store_roundtrip:
  assumes "(q, l) \<noteq> (p, k)"
  shows "(\<exists>e. fst (ms_get now' p k (ms_set bytes_of now p k v ttl rows)) = Some e \<and>
      ce_payload e = v \<and> ce_fetchedAt e = now \<and> ce_expiresAt e = map_option (\<lambda>t. now + t * 1000) ttl) \<and>
    ms_content (ms_set bytes_of now p k v ttl rows) (q, l) = ms_content rows (q, l) \<and>
    ms_content (snd (ms_get now' p k rows)) (q, l) = ms_content rows (q, l)"
  using memory.put_get [of now' p k bytes_of now v ttl rows] assms
  by (auto simp: memory.put_content memory.get_content)

theorem memory_store_roundtrip_witness:
  "ms_content (ms_set (\<lambda>_. 3) 7 Lastfm ''x'' (1 :: nat) (Some 60) demo_store) (Deezer, ''a'') =
   ms_content demo_store (Deezer, ''a'')"
  using memory_store_roundtrip [of Deezer "''a''" Lastfm "''x''" 8 "\<lambda>_. 3" 7 1 "Some 60" demo_store]
  by simp

end
