(* ===== verification/Pg_Cache_Store.thy ===== *)
theory Pg_Cache_Store
  imports Cache_Store
begin

text \<open>
  The Postgres cache store, \<^verbatim>\<open>packages/upstream/src/cache/pg-store.ts\<close>, as what its SQL
  statements do to the table \<open>upstream_cache\<close>, whose primary key is (provider, cache_key).
  The database's clock is \<open>now\<close>, and \<open>bytes_of\<close> is \<open>pg_column_size\<close>.
\<close>

record 'p pg_row =
  pr_payload :: 'p
  pr_bytes :: int
  pr_fetched_at :: time
  pr_expires_at :: "time option"
  pr_hit_count :: nat
  pr_last_hit_at :: "time option"

type_synonym 'p pg_table = "((provider \<times> string) \<times> 'p pg_row) list"

text \<open>\<open>UPDATE ... SET hit_count, last_hit_at ... RETURNING\<close>.\<close>

definition pg_get :: "time \<Rightarrow> provider \<Rightarrow> string \<Rightarrow> 'p pg_table \<Rightarrow> 'p cache_entry option \<times> 'p pg_table" where
  "pg_get now p key tb =
     (case map_of tb (p, key) of
        None \<Rightarrow> (None, tb)
      | Some row \<Rightarrow>
          let row' = row\<lparr>pr_hit_count := Suc (pr_hit_count row), pr_last_hit_at := Some now\<rparr>
          in (Some \<lparr>ce_payload = pr_payload row', ce_fetchedAt = pr_fetched_at row',
                    ce_expiresAt = pr_expires_at row', ce_hitCount = pr_hit_count row'\<rparr>,
              AList.update (p, key) row' tb))"

text \<open>\<open>INSERT ... ON CONFLICT DO UPDATE\<close>: a conflict keeps the hit columns of the old row.\<close>

definition pg_set ::
  "('p \<Rightarrow> int) \<Rightarrow> time \<Rightarrow> provider \<Rightarrow> string \<Rightarrow> 'p \<Rightarrow> int option \<Rightarrow> 'p pg_table \<Rightarrow> 'p pg_table" where
  "pg_set bytes_of now p key payload ttlSeconds tb =
     (let expires = map_option (\<lambda>t. now + t * 1000) ttlSeconds
      in AList.update (p, key)
           (case map_of tb (p, key) of
              None \<Rightarrow> \<lparr>pr_payload = payload, pr_bytes = bytes_of payload, pr_fetched_at = now,
                 pr_expires_at = expires, pr_hit_count = 0, pr_last_hit_at = None\<rparr>
            | Some row \<Rightarrow> row\<lparr>pr_payload := payload, pr_bytes := bytes_of payload,
                 pr_fetched_at := now, pr_expires_at := expires\<rparr>) tb)"

definition pg_delete :: "provider \<Rightarrow> string \<Rightarrow> 'p pg_table \<Rightarrow> 'p pg_table" where
  "pg_delete p key tb = AList.delete (p, key) tb"

definition pg_own :: "provider \<Rightarrow> 'p pg_table \<Rightarrow> 'p pg_table" where
  "pg_own p tb = filter (\<lambda>((q, k), row). q = p) tb"

definition pg_bytes :: "'p pg_table \<Rightarrow> int" where
  "pg_bytes rs = sum_list (map (pr_bytes \<circ> snd) rs)"

definition pg_sizeOf :: "provider \<Rightarrow> 'p pg_table \<Rightarrow> nat \<times> int" where
  "pg_sizeOf p tb = (length (pg_own p tb), pg_bytes (pg_own p tb))"

text \<open>\<open>ORDER BY last_hit_at NULLS FIRST, fetched_at\<close>.\<close>

definition pg_key :: "'p pg_row \<Rightarrow> (int \<times> int) \<times> int" where
  "pg_key row =
     (case pr_last_hit_at row of None \<Rightarrow> (0, 0) | Some t \<Rightarrow> (1, t), pr_fetched_at row)"

text \<open>
  The window sum \<open>running\<close>. With no frame clause the frame reaches to the last peer of the
  current row, so rows with equal keys share one running total.
\<close>

definition pg_running :: "'p pg_table \<Rightarrow> 'p pg_row \<Rightarrow> int" where
  "pg_running rs row = pg_bytes (filter (\<lambda>(pk, r). pg_key r \<le> pg_key row) rs)"

definition pg_doomed :: "int \<Rightarrow> 'p pg_table \<Rightarrow> (provider \<times> string) \<times> 'p pg_row \<Rightarrow> bool" where
  "pg_doomed bytesToFree rs r \<longleftrightarrow> pg_running rs (snd r) - pr_bytes (snd r) < bytesToFree"

definition pg_evictLru :: "provider \<Rightarrow> int \<Rightarrow> 'p pg_table \<Rightarrow> eviction_report \<times> 'p pg_table" where
  "pg_evictLru p bytesToFree tb =
     (let ranked = pg_own p tb; gone = filter (pg_doomed bytesToFree ranked) ranked
      in (\<lparr>er_provider = p, er_evicted = length gone, er_bytesFreed = pg_bytes gone\<rparr>,
          filter (\<lambda>(pk, r). pk \<notin> fst ` set gone) tb))"

subsection \<open>The table satisfies the contract\<close>

definition pg_content :: "'p pg_table \<Rightarrow> provider \<times> string \<Rightarrow> ('p \<times> time \<times> time option) option" where
  "pg_content tb pk = map_option (\<lambda>row. (pr_payload row, pr_fetched_at row, pr_expires_at row)) (map_of tb pk)"

interpretation pg: cache_store pg_get "pg_set bytes_of" pg_delete pg_content for bytes_of
proof
  show "map_option (\<lambda>e. (ce_payload e, ce_fetchedAt e, ce_expiresAt e)) (fst (pg_get now p k s)) =
      pg_content s (p, k)" for now p k and s :: "'p pg_table"
    by (simp add: pg_get_def pg_content_def Let_def split: option.split)
  show "pg_content (snd (pg_get now p k s)) = pg_content s" for now p k and s :: "'p pg_table"
    by (rule ext) (auto simp: pg_get_def pg_content_def Let_def update_conv split: option.split)
qed (auto simp: pg_content_def pg_set_def pg_delete_def update_conv delete_conv fun_eq_iff Let_def
    split: option.split)

lemma pg_bytes_simps [simp]:
  "pg_bytes [] = 0"
  "pg_bytes (r # rs) = pr_bytes (snd r) + pg_bytes rs"
  by (simp_all add: pg_bytes_def)

lemma pg_bytes_split: "pg_bytes (filter P rs) + pg_bytes (filter (\<lambda>r. \<not> P r) rs) = pg_bytes rs"
  by (induction rs) auto

lemma pg_bytes_mono:
  "(\<And>r. r \<in> set rs \<Longrightarrow> 0 \<le> pr_bytes (snd r)) \<Longrightarrow> (\<And>r. r \<in> set rs \<Longrightarrow> P r \<Longrightarrow> Q r) \<Longrightarrow>
   pg_bytes (filter P rs) \<le> pg_bytes (filter Q rs)"
proof (induction rs)
  case (Cons r rs)
  then have "pg_bytes (filter P rs) \<le> pg_bytes (filter Q rs)" "0 \<le> pr_bytes (snd r)" "P r \<Longrightarrow> Q r"
    by simp_all
  then show ?case by auto
qed simp

definition pg_ok :: "'p pg_table \<Rightarrow> bool" where
  "pg_ok tb \<longleftrightarrow> distinct (map fst tb) \<and> (\<forall>(pk, r) \<in> set tb. 0 \<le> pr_bytes r)"

text \<open>No two rows of the provider have the same recency.\<close>

definition pg_untied :: "provider \<Rightarrow> 'p pg_table \<Rightarrow> bool" where
  "pg_untied p tb \<longleftrightarrow> distinct (map (pg_key \<circ> snd) (pg_own p tb))"

lemma untied_running:
  assumes "distinct (map (pg_key \<circ> snd) rs)" "r \<in> set rs"
  shows "pg_running rs (snd r) - pr_bytes (snd r) = pg_bytes (filter (\<lambda>(pk, s). pg_key s < pg_key (snd r)) rs)"
  using assms
proof (induction rs)
  case (Cons s rs)
  let ?le = "\<lambda>(pk :: provider \<times> string, t). pg_key t \<le> pg_key (snd r)"
  let ?lt = "\<lambda>(pk :: provider \<times> string, t). pg_key t < pg_key (snd r)"
  show ?case
  proof (cases "s = r")
    case True
    have "filter ?le rs = filter ?lt rs"
    proof (rule filter_cong [OF refl])
      fix x assume "x \<in> set rs"
      moreover from Cons.prems True have "pg_key (snd r) \<notin> (pg_key \<circ> snd) ` set rs" by simp
      ultimately have "pg_key (snd x) \<noteq> pg_key (snd r)" by (metis comp_apply image_eqI)
      then show "?le x = ?lt x" by (simp add: case_prod_unfold le_less)
    qed
    with True show ?thesis by (simp add: pg_running_def case_prod_unfold)
  next
    case False
    with Cons.prems have r: "r \<in> set rs" by simp
    with Cons.prems have "pg_key (snd s) \<noteq> pg_key (snd r)" by auto
    then have "(pg_key (snd s) \<le> pg_key (snd r)) = (pg_key (snd s) < pg_key (snd r))" by (simp add: le_less)
    with Cons.IH Cons.prems(1) r show ?thesis by (simp add: pg_running_def case_prod_unfold)
  qed
qed simp

lemma pg_own_filter: "pg_own p (filter P tb) = filter P (pg_own p tb)"
  by (simp add: pg_own_def conj_commute)

lemma gone_by_key:
  assumes "distinct (map fst tb)" "gone = filter D (pg_own p tb)"
  shows "pg_own p (filter (\<lambda>(pk, r). pk \<notin> fst ` set gone) tb) = filter (\<lambda>r. \<not> D r) (pg_own p tb)"
  unfolding pg_own_filter
proof (rule filter_cong [OF refl])
  fix x assume x: "x \<in> set (pg_own p tb)"
  have inj: "inj_on fst (set tb)" using assms(1) by (simp add: distinct_map)
  have "fst x \<in> fst ` set gone \<longleftrightarrow> D x"
  proof
    assume "fst x \<in> fst ` set gone"
    then obtain y where y: "y \<in> set (pg_own p tb)" "D y" "fst x = fst y" using assms(2) by auto
    with x inj have "x = y" by (auto simp: pg_own_def inj_on_def)
    with y show "D x" by simp
  qed (use x assms(2) in auto)
  then show "(case x of (pk, r) \<Rightarrow> pk \<notin> fst ` set gone) = (\<not> D x)" by (cases x) simp
qed

lemma least_kept:
  assumes "filter (\<lambda>r. \<not> D r) rs \<noteq> []"
  shows "\<exists>r \<in> set rs. \<not> D r \<and> (\<forall>s \<in> set rs. pg_key (snd s) < pg_key (snd r) \<longrightarrow> D s)"
proof -
  let ?K = "(pg_key \<circ> snd) ` set (filter (\<lambda>r. \<not> D r) rs)"
  have "Min ?K \<in> ?K" using assms by (intro Min_in) (auto simp: filter_empty_conv)
  then obtain r where r: "r \<in> set rs" "\<not> D r" "pg_key (snd r) = Min ?K" by auto
  have "D s" if s: "s \<in> set rs" "pg_key (snd s) < pg_key (snd r)" for s
  proof (rule ccontr)
    assume "\<not> D s"
    with s(1) have "Min ?K \<le> pg_key (snd s)" by (intro Min_le) auto
    with s(2) r(3) show False by simp
  qed
  with r(1,2) show ?thesis by blast
qed

subsection \<open>Properties\<close>

text \<open>The one-statement eviction frees enough: when no two rows of the provider have the same
  recency, it frees at least the requested bytes unless nothing of the provider is left, the
  size falls by exactly what it reports, and other providers keep every row.\<close>

theorem pg_evict_contract:
  assumes "pg_ok tb" and "pg_untied p tb" and "pg_evictLru p n tb = (rep, tb')"
  shows "snd (pg_sizeOf p tb') = snd (pg_sizeOf p tb) - er_bytesFreed rep \<and>
    (n \<le> er_bytesFreed rep \<or> pg_own p tb' = []) \<and>
    (\<forall>q. q \<noteq> p \<longrightarrow> pg_own q tb' = pg_own q tb)"
proof -
  let ?rs = "pg_own p tb"
  let ?D = "pg_doomed n ?rs"
  let ?gone = "filter ?D ?rs"
  have rep: "er_bytesFreed rep = pg_bytes ?gone" "tb' = filter (\<lambda>(pk, r). pk \<notin> fst ` set ?gone) tb"
    using assms(3) by (auto simp: pg_evictLru_def Let_def)
  have own: "pg_own p tb' = filter (\<lambda>r. \<not> ?D r) ?rs"
    unfolding rep(2) using assms(1) by (intro gone_by_key) (simp_all add: pg_ok_def)
  have size: "snd (pg_sizeOf p tb') = snd (pg_sizeOf p tb) - er_bytesFreed rep"
    using pg_bytes_split [of ?D ?rs] by (simp add: pg_sizeOf_def own rep(1))
  have enough: "n \<le> er_bytesFreed rep" if "pg_own p tb' \<noteq> []"
  proof -
    have "filter (\<lambda>r. \<not> ?D r) ?rs \<noteq> []" using that own by metis
    from least_kept [OF this] obtain r where r: "r \<in> set ?rs" "\<not> ?D r"
      "\<forall>s \<in> set ?rs. pg_key (snd s) < pg_key (snd r) \<longrightarrow> ?D s" by blast
    have "n \<le> pg_running ?rs (snd r) - pr_bytes (snd r)" using r(2) by (simp add: pg_doomed_def)
    also have "\<dots> = pg_bytes (filter (\<lambda>(pk, s). pg_key s < pg_key (snd r)) ?rs)"
      using assms(2) r(1) by (intro untied_running) (simp_all add: pg_untied_def)
    also have "\<dots> \<le> pg_bytes ?gone"
      using assms(1) r(3) by (intro pg_bytes_mono) (auto simp: pg_ok_def pg_own_def)
    finally show ?thesis by (simp add: rep(1))
  qed
  have "pg_own q tb' = pg_own q tb" if "q \<noteq> p" for q
    using that unfolding rep(2) pg_own_filter by (auto simp: pg_own_def intro!: filter_cong)
  with size enough show ?thesis by blast
qed

abbreviation demo_pg_row :: "int \<Rightarrow> time \<Rightarrow> nat pg_row" where
  "demo_pg_row b t \<equiv> \<lparr>pr_payload = 0, pr_bytes = b, pr_fetched_at = t, pr_expires_at = None,
     pr_hit_count = 0, pr_last_hit_at = None\<rparr>"

theorem pg_evict_contract_witness:
  "er_bytesFreed (fst (pg_evictLru Lastfm 10
     [((Lastfm, ''a''), demo_pg_row 50 3), ((Lastfm, ''b''), demo_pg_row 50 4)])) \<ge> 10"
proof -
  let ?tb = "[((Lastfm, ''a''), demo_pg_row 50 3), ((Lastfm, ''b''), demo_pg_row 50 4)]"
  have "pg_ok ?tb" "pg_untied Lastfm ?tb" by (simp_all add: pg_ok_def pg_untied_def pg_own_def pg_key_def)
  from pg_evict_contract [OF this prod.collapse [symmetric], of 10] show ?thesis
    by (auto simp: pg_evictLru_def pg_own_def pg_doomed_def pg_running_def pg_key_def Let_def)
qed

text \<open>With ties it can free nothing: the running total of a row includes its peers, so of two
  equally recent rows neither is doomed as long as the request fits in one of them, and the
  pass reports zero bytes freed for a positive request.\<close>

theorem pg_evict_ties_free_nothing:
  assumes "0 < n" and "n \<le> b" and "k \<noteq> l"
  shows "pg_evictLru p n [((p, k), demo_pg_row b t), ((p, l), demo_pg_row b t)] =
    (\<lparr>er_provider = p, er_evicted = 0, er_bytesFreed = 0\<rparr>,
     [((p, k), demo_pg_row b t), ((p, l), demo_pg_row b t)])"
proof -
  let ?tb = "[((p, k), demo_pg_row b t), ((p, l), demo_pg_row b t)]"
  have own: "pg_own p ?tb = ?tb" by (simp add: pg_own_def)
  have "filter (pg_doomed n ?tb) ?tb = []"
    using assms by (simp add: pg_doomed_def pg_running_def)
  then show ?thesis unfolding pg_evictLru_def Let_def own by simp
qed

theorem pg_evict_ties_free_nothing_witness:
  "er_bytesFreed (fst (pg_evictLru Lastfm 10
     [((Lastfm, ''a''), demo_pg_row 50 3), ((Lastfm, ''b''), demo_pg_row 50 3)])) = 0"
  using pg_evict_ties_free_nothing [of 10 50 "''a''" "''b''" Lastfm 3] by simp

end
