(* ===== verification/Cache_Refinement.thy ===== *)
theory Cache_Refinement
  imports Pg_Cache_Store
begin

text \<open>
  Both stores of the cache, that of \<^verbatim>\<open>packages/upstream/src/cache/memory-store.ts\<close> and that of
  \<^verbatim>\<open>packages/upstream/src/cache/pg-store.ts\<close>, refine one abstract map from a provider and a key to
  a payload with its times: a client that only reads, writes, deletes and asks for sizes cannot
  tell which of them it talks to.
\<close>

subsection \<open>The abstract store\<close>

type_synonym 'p cache_map = "provider \<times> string \<Rightarrow> ('p \<times> time \<times> time option) option"

datatype 'p cache_op =
    C_get time provider string
  | C_set time provider string 'p "int option"
  | C_delete provider string
  | C_size provider

datatype 'p cache_answer =
    A_entry "('p \<times> time \<times> time option) option"
  | A_done
  | A_size nat int

definition keys_of :: "provider \<Rightarrow> 'p cache_map \<Rightarrow> string set" where
  "keys_of p m = {k. m (p, k) \<noteq> None}"

definition map_size :: "('p \<Rightarrow> int) \<Rightarrow> provider \<Rightarrow> 'p cache_map \<Rightarrow> nat \<times> int" where
  "map_size bytes_of p m = (card (keys_of p m), \<Sum>k \<in> keys_of p m. bytes_of (fst (the (m (p, k)))))"

definition map_do :: "('p \<Rightarrow> int) \<Rightarrow> 'p cache_op \<Rightarrow> 'p cache_map \<Rightarrow> 'p cache_answer \<times> 'p cache_map" where
  "map_do bytes_of c m = (case c of
     C_get now p k \<Rightarrow> (A_entry (m (p, k)), m)
   | C_set now p k v ttl \<Rightarrow> (A_done, m((p, k) \<mapsto> (v, now, map_option (\<lambda>t. now + t * 1000) ttl)))
   | C_delete p k \<Rightarrow> (A_done, m((p, k) := None))
   | C_size p \<Rightarrow> (A_size (fst (map_size bytes_of p m)) (snd (map_size bytes_of p m)), m))"

text \<open>The answers to a sequence of operations.\<close>

fun run_answers :: "('c \<Rightarrow> 's \<Rightarrow> 'a \<times> 's) \<Rightarrow> 'c list \<Rightarrow> 's \<Rightarrow> 'a list \<times> 's" where
  "run_answers act [] s = ([], s)"
| "run_answers act (c # cs) s = (case act c s of (a, s1) \<Rightarrow> case run_answers act cs s1 of (as, s2) \<Rightarrow> (a # as, s2))"

subsection \<open>Simulation\<close>

text \<open>A step of the concrete store answers as the abstract one does and leads to a state it abstracts.\<close>

locale refinement =
  fixes concrete :: "'c \<Rightarrow> 's \<Rightarrow> 'a \<times> 's"
    and abstract :: "'c \<Rightarrow> 'm \<Rightarrow> 'a \<times> 'm"
    and inv :: "'s \<Rightarrow> bool"
    and abs :: "'s \<Rightarrow> 'm"
  assumes simulates: "inv s \<Longrightarrow> abstract c (abs s) = (fst (concrete c s), abs (snd (concrete c s)))"
    and keeps: "inv s \<Longrightarrow> inv (snd (concrete c s))"
begin

lemma run_simulates:
  "inv s \<Longrightarrow> run_answers abstract cs (abs s) = (fst (run_answers concrete cs s), abs (snd (run_answers concrete cs s)))"
proof (induction cs arbitrary: s)
  case (Cons c cs)
  from Cons.IH [OF keeps [OF Cons.prems]] show ?case
    by (simp add: simulates [OF Cons.prems] case_prod_beta)
qed simp

end

subsection \<open>A store with sizes\<close>

locale measured_store = cache_store get put remove content
  for get :: "time \<Rightarrow> provider \<Rightarrow> string \<Rightarrow> 's \<Rightarrow> 'p cache_entry option \<times> 's"
    and put :: "time \<Rightarrow> provider \<Rightarrow> string \<Rightarrow> 'p \<Rightarrow> int option \<Rightarrow> 's \<Rightarrow> 's"
    and remove :: "provider \<Rightarrow> string \<Rightarrow> 's \<Rightarrow> 's"
    and content :: "'s \<Rightarrow> provider \<times> string \<Rightarrow> ('p \<times> time \<times> time option) option" +
  fixes sizeOf :: "provider \<Rightarrow> 's \<Rightarrow> nat \<times> int"
    and bytes_of :: "'p \<Rightarrow> int"
    and tidy :: "'s \<Rightarrow> bool"
  assumes size_content: "tidy s \<Longrightarrow> sizeOf p s = map_size bytes_of p (content s)"
    and get_tidy: "tidy s \<Longrightarrow> tidy (snd (get now p k s))"
    and put_tidy: "tidy s \<Longrightarrow> tidy (put now p k v ttl s)"
    and remove_tidy: "tidy s \<Longrightarrow> tidy (remove p k s)"

definition store_do ::
  "(time \<Rightarrow> provider \<Rightarrow> string \<Rightarrow> 's \<Rightarrow> 'p cache_entry option \<times> 's) \<Rightarrow> (time \<Rightarrow> provider \<Rightarrow> string \<Rightarrow> 'p \<Rightarrow> int option \<Rightarrow> 's \<Rightarrow> 's) \<Rightarrow>
   (provider \<Rightarrow> string \<Rightarrow> 's \<Rightarrow> 's) \<Rightarrow> (provider \<Rightarrow> 's \<Rightarrow> nat \<times> int) \<Rightarrow> 'p cache_op \<Rightarrow> 's \<Rightarrow> 'p cache_answer \<times> 's" where
  "store_do get put remove sizeOf c s = (case c of
     C_get now p k \<Rightarrow>
       (A_entry (map_option (\<lambda>e. (ce_payload e, ce_fetchedAt e, ce_expiresAt e)) (fst (get now p k s))), snd (get now p k s))
   | C_set now p k v ttl \<Rightarrow> (A_done, put now p k v ttl s)
   | C_delete p k \<Rightarrow> (A_done, remove p k s)
   | C_size p \<Rightarrow> (A_size (fst (sizeOf p s)) (snd (sizeOf p s)), s))"

sublocale measured_store \<subseteq> refined: refinement "store_do get put remove sizeOf" "map_do bytes_of" tidy content
proof
  show "map_do bytes_of c (content s) =
      (fst (store_do get put remove sizeOf c s), content (snd (store_do get put remove sizeOf c s)))" if "tidy s" for c s
    using that by (cases c) (simp_all add: map_do_def store_do_def get_entry get_content put_content remove_content size_content)
  show "tidy (snd (store_do get put remove sizeOf c s))" if "tidy s" for c s
    using that by (cases c) (simp_all add: store_do_def get_tidy put_tidy remove_tidy)
qed

subsection \<open>Sizes of lists of rows\<close>

lemma rows_size:
  assumes "distinct (map fst rows)" "inj_on key (set (map fst rows))"
    and "\<And>i r. (i, r) \<in> set rows \<Longrightarrow> f (key i) = b r"
  shows "length rows = card (key ` set (map fst rows))" and "sum_list (map (b \<circ> snd) rows) = (\<Sum>k \<in> key ` set (map fst rows). (f k :: int))"
proof -
  show "length rows = card (key ` set (map fst rows))"
    using card_image [OF assms(2)] distinct_card [OF assms(1)] by simp
  have "(\<Sum>k \<in> key ` set (map fst rows). f k) = (\<Sum>i \<in> set (map fst rows). f (key i))" by (rule sum.reindex [OF assms(2), unfolded comp_def])
  also have "\<dots> = sum_list (map (f \<circ> key) (map fst rows))" by (simp only: sum_list_distinct_conv_sum_set [OF assms(1)] comp_def)
  also have "\<dots> = sum_list (map (b \<circ> snd) rows)"
    using assms(3) by (auto intro!: arg_cong [where f = sum_list] map_cong)
  finally show "sum_list (map (b \<circ> snd) rows) = (\<Sum>k \<in> key ` set (map fst rows). f k)" ..
qed


subsection \<open>Both stores\<close>

text \<open>The invariants: a key once, under an identifier of the store, with the size of its payload.\<close>

definition ms_tidy :: "('p \<Rightarrow> int) \<Rightarrow> 'p memory_store \<Rightarrow> bool" where
  "ms_tidy bytes_of rows \<longleftrightarrow> distinct (map fst rows) \<and> (\<forall>(i, r) \<in> set rows. cr_bytes r = bytes_of (cr_payload r))"

definition pg_tidy :: "('p \<Rightarrow> int) \<Rightarrow> 'p pg_table \<Rightarrow> bool" where
  "pg_tidy bytes_of tb \<longleftrightarrow> distinct (map fst tb) \<and> (\<forall>(i, r) \<in> set tb. pr_bytes r = bytes_of (pr_payload r))"

lemma update_all:
  assumes "distinct (map fst al)" "\<forall>(i, r) \<in> set al. P r" "P v"
  shows "distinct (map fst (AList.update k v al)) \<and> (\<forall>(i, r) \<in> set (AList.update k v al). P r)"
  using assms by (induction al) (auto simp: dom_update)

lemma delete_all:
  assumes "distinct (map fst al)" "\<forall>(i, r) \<in> set al. P r"
  shows "distinct (map fst (AList.delete k al)) \<and> (\<forall>(i, r) \<in> set (AList.delete k al). P r)"
  using assms by (auto simp: AList.delete_eq distinct_map_filter case_prod_unfold)

lemma ms_size_content:
  assumes "ms_tidy bytes_of rows"
  shows "ms_sizeOf p rows = map_size bytes_of p (ms_content rows)"
proof -
  let ?own = "own_rows p rows"
  define key :: "string \<Rightarrow> string" where "key = (\<lambda>i. drop (Suc (length (provider_name p))) i)"
  have d: "distinct (map fst rows)" and b: "\<And>i r. (i, r) \<in> set rows \<Longrightarrow> cr_bytes r = bytes_of (cr_payload r)"
    using assms by (auto simp: ms_tidy_def)
  have key: "key (ms_id p k) = k" for k by (simp add: key_def ms_id_def)
  have own: "set ?own = {(i, r) \<in> set rows. ms_owned p i}" by (auto simp: own_rows_def)
  have keys: "key ` set (map fst ?own) = keys_of p (ms_content rows)"
  proof
    show "key ` set (map fst ?own) \<subseteq> keys_of p (ms_content rows)"
      by (auto simp: own ms_owned_iff key keys_of_def ms_content_def map_of_eq_None_iff image_iff) force
    show "keys_of p (ms_content rows) \<subseteq> key ` set (map fst ?own)"
    proof
      fix k assume "k \<in> keys_of p (ms_content rows)"
      then obtain r where "map_of rows (ms_id p k) = Some r" by (auto simp: keys_of_def ms_content_def)
      then have "(ms_id p k, r) \<in> set ?own" by (auto simp: own dest: map_of_SomeD)
      then have "ms_id p k \<in> set (map fst ?own)" by force
      then show "k \<in> key ` set (map fst ?own)" by (metis key image_eqI)
    qed
  qed
  have inj: "inj_on key (set (map fst ?own))" by (auto simp: inj_on_def own ms_owned_iff key)
  have d': "distinct (map fst ?own)" using d by (simp add: own_rows_def distinct_map_filter)
  have f: "bytes_of (fst (the (ms_content rows (p, key i)))) = cr_bytes r" if "(i, r) \<in> set ?own" for i r
    using that d b by (auto simp: own ms_owned_iff key ms_content_def)
  show ?thesis
    using rows_size [where f = "\<lambda>k. bytes_of (fst (the (ms_content rows (p, k))))" and b = cr_bytes, OF d' inj f]
    unfolding keys by (simp add: ms_sizeOf_own bytes_in_def map_size_def)
qed

lemma pg_size_content:
  assumes "pg_tidy bytes_of tb"
  shows "pg_sizeOf p tb = map_size bytes_of p (pg_content tb)"
proof -
  let ?own = "pg_own p tb"
  have d: "distinct (map fst tb)" and b: "\<And>i r. (i, r) \<in> set tb \<Longrightarrow> pr_bytes r = bytes_of (pr_payload r)"
    using assms by (auto simp: pg_tidy_def)
  have own: "set ?own = {((q, k), r) \<in> set tb. q = p}" by (auto simp: pg_own_def)
  have keys: "snd ` set (map fst ?own) = keys_of p (pg_content tb)"
    by (auto simp: own keys_of_def pg_content_def map_of_eq_None_iff image_iff) force+
  have inj: "inj_on snd (set (map fst ?own))" by (auto simp: inj_on_def own)
  have d': "distinct (map fst ?own)" using d by (simp add: pg_own_def distinct_map_filter)
  have f: "bytes_of (fst (the (pg_content tb (p, snd i)))) = pr_bytes r" if "(i, r) \<in> set ?own" for i r
    using that d b by (auto simp: own pg_content_def)
  show ?thesis
    using rows_size [where f = "\<lambda>k. bytes_of (fst (the (pg_content tb (p, k))))" and b = pr_bytes, OF d' inj f]
    unfolding keys by (simp add: pg_sizeOf_def pg_bytes_def map_size_def)
qed

interpretation memory_measured: measured_store ms_get "ms_set bytes_of" ms_delete ms_content ms_sizeOf bytes_of "ms_tidy bytes_of"
  for bytes_of :: "'p \<Rightarrow> int"
proof
  fix s :: "'p memory_store" and now p k v ttl assume s: "ms_tidy bytes_of s"
  show "ms_sizeOf p s = map_size bytes_of p (ms_content s)" by (rule ms_size_content [OF s])
  show "ms_tidy bytes_of (snd (ms_get now p k s))"
  proof (cases "map_of s (ms_id p k)")
    case (Some r)
    with s have "cr_bytes r = bytes_of (cr_payload r)" by (auto simp: ms_tidy_def dest: map_of_SomeD)
    with s Some show ?thesis unfolding ms_tidy_def by (simp add: ms_get_def Let_def) (intro update_all; simp)
  qed (use s in \<open>simp add: ms_get_def\<close>)
  show "ms_tidy bytes_of (ms_set bytes_of now p k v ttl s)"
    using s unfolding ms_tidy_def ms_set_def by (intro update_all) auto
  show "ms_tidy bytes_of (ms_delete p k s)"
    using s unfolding ms_tidy_def ms_delete_def by (intro delete_all) auto
qed

interpretation pg_measured: measured_store pg_get "pg_set bytes_of" pg_delete pg_content pg_sizeOf bytes_of "pg_tidy bytes_of"
  for bytes_of :: "'p \<Rightarrow> int"
proof
  fix s :: "'p pg_table" and now p k v ttl assume s: "pg_tidy bytes_of s"
  show "pg_sizeOf p s = map_size bytes_of p (pg_content s)" by (rule pg_size_content [OF s])
  show "pg_tidy bytes_of (snd (pg_get now p k s))"
  proof (cases "map_of s (p, k)")
    case (Some r)
    with s have "pr_bytes r = bytes_of (pr_payload r)" by (auto simp: pg_tidy_def dest: map_of_SomeD)
    with s Some show ?thesis unfolding pg_tidy_def by (simp add: pg_get_def Let_def) (intro update_all; simp)
  qed (use s in \<open>simp add: pg_get_def\<close>)
  show "pg_tidy bytes_of (pg_set bytes_of now p k v ttl s)"
    using s unfolding pg_tidy_def pg_set_def Let_def by (intro update_all) (auto split: option.split)
  show "pg_tidy bytes_of (pg_delete p k s)"
    using s unfolding pg_tidy_def pg_delete_def by (intro delete_all) auto
qed

subsection \<open>Properties\<close>

definition memory_do :: "('p \<Rightarrow> int) \<Rightarrow> 'p cache_op \<Rightarrow> 'p memory_store \<Rightarrow> 'p cache_answer \<times> 'p memory_store" where
  "memory_do bytes_of = store_do ms_get (ms_set bytes_of) ms_delete ms_sizeOf"

definition pg_do :: "('p \<Rightarrow> int) \<Rightarrow> 'p cache_op \<Rightarrow> 'p pg_table \<Rightarrow> 'p cache_answer \<times> 'p pg_table" where
  "pg_do bytes_of = store_do pg_get (pg_set bytes_of) pg_delete pg_sizeOf"

text \<open>Claim C32. The in-memory store and the Postgres store refine the same abstract map: started
  empty, each answers every sequence of reads, writes, deletions and size requests exactly as the
  map from provider and key to payload and times does, sizes in rows and bytes included, and the
  store it ends in abstracts to the map's final state.
  One function measures a payload for both.\<close>

theorem cache_stores_refine:
  "fst (run_answers (memory_do bytes_of) ops []) = fst (run_answers (map_do bytes_of) ops Map.empty) \<and>
   ms_content (snd (run_answers (memory_do bytes_of) ops [])) = snd (run_answers (map_do bytes_of) ops Map.empty) \<and>
   fst (run_answers (pg_do bytes_of) ops []) = fst (run_answers (map_do bytes_of) ops Map.empty) \<and>
   pg_content (snd (run_answers (pg_do bytes_of) ops [])) = snd (run_answers (map_do bytes_of) ops Map.empty)"
proof -
  have m: "ms_content [] = Map.empty" "ms_tidy bytes_of []" by (auto simp: ms_content_def ms_tidy_def fun_eq_iff)
  have g: "pg_content [] = Map.empty" "pg_tidy bytes_of []" by (auto simp: pg_content_def pg_tidy_def fun_eq_iff)
  from memory_measured.refined.run_simulates [OF m(2), of ops] pg_measured.refined.run_simulates [OF g(2), of ops] show ?thesis
    by (simp add: m g memory_do_def pg_do_def)
qed

end
