(* ===== verification/Cache_Governor.thy ===== *)
theory Cache_Governor
  imports Cache_Store Js_Text
begin

text \<open>
  The size enforcement of \<^verbatim>\<open>packages/upstream/src/cache/governor.ts\<close>. The governor sees a
  store only through \<open>sizeOf\<close> and \<open>evictLru\<close>, which are arguments here; what it relies on
  of them is the locale \<open>sized_store\<close>, interpreted on the in-memory store.
\<close>

definition MB :: int where
  "MB = 1024 * 1024"

definition LASTFM_HARD_CAP_BYTES :: int where
  "LASTFM_HARD_CAP_BYTES = 100 * MB"

record provider_cap =
  cap_softCapBytes :: int
  cap_hardCapBytes :: int
  cap_lowWaterBytes :: int

record cap_alert =
  al_provider :: provider
  al_bytes :: int
  al_softCapBytes :: int
  al_hardCapBytes :: int
  al_evicted :: nat
  al_bytesFreed :: int

record cache_governor =
  gv_caps :: "(provider \<times> provider_cap) list"
  gv_checkEveryWrites :: int
  gv_writesSinceCheck :: "(provider \<times> int) list"
  gv_alerts :: "cap_alert list"

definition lastfmCap :: "rat \<Rightarrow> provider_cap" where
  "lastfmCap softCapMb =
     (let soft = min (js_round (softCapMb * of_int MB)) (LASTFM_HARD_CAP_BYTES - 5 * MB)
      in \<lparr>cap_softCapBytes = soft, cap_hardCapBytes = LASTFM_HARD_CAP_BYTES,
          cap_lowWaterBytes = js_round (of_int soft * (9 / 10))\<rparr>)"

definition gv_new :: "(provider \<times> provider_cap) list option \<Rightarrow> int option \<Rightarrow> cache_governor" where
  "gv_new caps checkEveryWrites =
     \<lparr>gv_caps = orelse caps [(Lastfm, lastfmCap 80)],
      gv_checkEveryWrites = orelse checkEveryWrites 20, gv_writesSinceCheck = [], gv_alerts = []\<rparr>"

definition gv_capFor :: "provider \<Rightarrow> cache_governor \<Rightarrow> provider_cap option" where
  "gv_capFor p gv = map_of (gv_caps gv) p"

definition gv_enforce ::
  "(provider \<Rightarrow> 's \<Rightarrow> int) \<Rightarrow> (provider \<Rightarrow> int \<Rightarrow> 's \<Rightarrow> eviction_report \<times> 's) \<Rightarrow>
   provider \<Rightarrow> cache_governor \<Rightarrow> 's \<Rightarrow> eviction_report option \<times> cache_governor \<times> 's" where
  "gv_enforce sizeOf evictLru p gv s =
     (case map_of (gv_caps gv) p of
        None \<Rightarrow> (None, gv, s)
      | Some cap \<Rightarrow>
          let bytes = sizeOf p s
          in if bytes \<le> cap_softCapBytes cap then (None, gv, s)
             else case evictLru p (bytes - cap_lowWaterBytes cap) s of (rep, s') \<Rightarrow>
               (Some rep,
                gv\<lparr>gv_alerts := gv_alerts gv @
                    [\<lparr>al_provider = p, al_bytes = bytes, al_softCapBytes = cap_softCapBytes cap,
                      al_hardCapBytes = cap_hardCapBytes cap, al_evicted = er_evicted rep,
                      al_bytesFreed = er_bytesFreed rep\<rparr>]\<rparr>, s'))"

definition gv_afterWrite ::
  "(provider \<Rightarrow> 's \<Rightarrow> int) \<Rightarrow> (provider \<Rightarrow> int \<Rightarrow> 's \<Rightarrow> eviction_report \<times> 's) \<Rightarrow>
   provider \<Rightarrow> cache_governor \<Rightarrow> 's \<Rightarrow> eviction_report option \<times> cache_governor \<times> 's" where
  "gv_afterWrite sizeOf evictLru p gv s =
     (if map_of (gv_caps gv) p = None then (None, gv, s)
      else let n = orelse (map_of (gv_writesSinceCheck gv) p) 0 + 1
           in if n < gv_checkEveryWrites gv
              then (None, gv\<lparr>gv_writesSinceCheck := AList.update p n (gv_writesSinceCheck gv)\<rparr>, s)
              else gv_enforce sizeOf evictLru p
                     (gv\<lparr>gv_writesSinceCheck := AList.update p 0 (gv_writesSinceCheck gv)\<rparr>) s)"

subsection \<open>What the governor needs of a store\<close>

text \<open>Uses of a store besides eviction: a write, which brings at most the size of its payload, and
  anything that brings nothing.\<close>

datatype 'p store_use = Use_write provider time string 'p "int option"
  | Use_read provider time string | Use_delete provider string

locale sized_store =
  fixes size :: "provider \<Rightarrow> 's \<Rightarrow> int"
    and evict :: "provider \<Rightarrow> int \<Rightarrow> 's \<Rightarrow> eviction_report \<times> 's"
    and use :: "'p store_use \<Rightarrow> 's \<Rightarrow> 's"
    and bytes_of :: "'p \<Rightarrow> int"
    and ok :: "'s \<Rightarrow> bool"
  assumes ok_evict: "ok s \<Longrightarrow> ok (snd (evict p n s))"
    and ok_use: "ok s \<Longrightarrow> ok (use u s)"
    and size_nonneg: "ok s \<Longrightarrow> 0 \<le> size p s"
    and evict_frees: "ok s \<Longrightarrow> size p (snd (evict p n s)) \<le> max 0 (size p s - n)"
    and evict_other: "ok s \<Longrightarrow> q \<noteq> p \<Longrightarrow> size p (snd (evict q n s)) = size p s"
    and use_grows: "ok s \<Longrightarrow> size p (use u s) \<le> size p s +
      (case u of Use_write q _ _ v _ \<Rightarrow> if q = p then bytes_of v else 0 | _ \<Rightarrow> 0)"
begin

text \<open>One use of the cache, followed by \<open>afterWrite\<close> when it was a write.\<close>

definition step :: "'p store_use \<Rightarrow> cache_governor \<times> 's \<Rightarrow> cache_governor \<times> 's" where
  "step u gs = (case gs of (gv, s) \<Rightarrow>
     (case u of
        Use_write q _ _ _ _ \<Rightarrow> snd (gv_afterWrite size evict q gv (use u s))
      | _ \<Rightarrow> (gv, use u s)))"

text \<open>While at most \<open>N\<close> writes of \<open>b\<close> bytes separate two checks of provider \<open>p\<close>.\<close>

definition paced :: "provider \<Rightarrow> provider_cap \<Rightarrow> int \<Rightarrow> int \<Rightarrow> cache_governor \<times> 's \<Rightarrow> bool" where
  "paced p cap N b gs \<longleftrightarrow> (case gs of (gv, s) \<Rightarrow>
     ok s \<and> map_of (gv_caps gv) p = Some cap \<and> gv_checkEveryWrites gv = N \<and>
     0 \<le> orelse (map_of (gv_writesSinceCheck gv) p) 0 \<and>
     orelse (map_of (gv_writesSinceCheck gv) p) 0 < max 1 N \<and>
     size p s \<le> cap_softCapBytes cap + orelse (map_of (gv_writesSinceCheck gv) p) 0 * b)"

definition small :: "provider \<Rightarrow> int \<Rightarrow> 'p store_use \<Rightarrow> bool" where
  "small p b u \<longleftrightarrow> (case u of Use_write q _ _ v _ \<Rightarrow> q = p \<longrightarrow> bytes_of v \<le> b | _ \<Rightarrow> True)"

lemma enforce_frame:
  "ok s \<Longrightarrow> gv_caps (fst (snd (gv_enforce size evict q gv s))) = gv_caps gv \<and>
   gv_checkEveryWrites (fst (snd (gv_enforce size evict q gv s))) = gv_checkEveryWrites gv \<and>
   gv_writesSinceCheck (fst (snd (gv_enforce size evict q gv s))) = gv_writesSinceCheck gv \<and>
   ok (snd (snd (gv_enforce size evict q gv s)))"
  using ok_evict by (auto simp: gv_enforce_def Let_def split_beta split: option.split)

lemma enforce_size:
  assumes "ok s" "map_of (gv_caps gv) p = Some cap" "cap_lowWaterBytes cap \<le> cap_softCapBytes cap"
    "0 \<le> cap_softCapBytes cap"
  shows "size p (snd (snd (gv_enforce size evict p gv s))) \<le> cap_softCapBytes cap"
  using evict_frees [OF assms(1), of p "size p s - cap_lowWaterBytes cap"] assms(2-4)
  by (auto simp: gv_enforce_def Let_def split_beta)

lemma enforce_other:
  "ok s \<Longrightarrow> q \<noteq> p \<Longrightarrow> size p (snd (snd (gv_enforce size evict q gv s))) = size p s"
  using evict_other by (auto simp: gv_enforce_def Let_def split_beta split: option.split)

lemma paced_other:
  assumes "paced p cap N b (gv, s)" "ok s'" "size p s' \<le> size p s" "q \<noteq> p"
  shows "paced p cap N b (snd (gv_afterWrite size evict q gv s'))"
  using assms enforce_frame [OF assms(2)] enforce_other [OF assms(2,4)]
  by (auto simp: paced_def gv_afterWrite_def Let_def update_conv split_beta)

lemma paced_own:
  assumes "paced p cap N b (gv, s)" "ok s'" "size p s' \<le> size p s + b"
    "cap_lowWaterBytes cap \<le> cap_softCapBytes cap" "0 \<le> cap_softCapBytes cap" "1 \<le> N"
  shows "paced p cap N b (snd (gv_afterWrite size evict p gv s'))"
proof (cases "orelse (map_of (gv_writesSinceCheck gv) p) 0 + 1 < N")
  case True
  with assms show ?thesis
    by (auto simp: paced_def gv_afterWrite_def Let_def update_conv algebra_simps)
next
  case False
  let ?g = "gv\<lparr>gv_writesSinceCheck := AList.update p 0 (gv_writesSinceCheck gv)\<rparr>"
  have cap: "map_of (gv_caps ?g) p = Some cap" and N: "gv_checkEveryWrites gv = N"
    using assms(1) by (simp_all add: paced_def)
  have "snd (gv_afterWrite size evict p gv s') = snd (gv_enforce size evict p ?g s')"
    using False cap N by (simp add: gv_afterWrite_def Let_def)
  moreover have "paced p cap N b (snd (gv_enforce size evict p ?g s'))"
    using enforce_frame [OF assms(2), of p ?g] enforce_size [OF assms(2) cap assms(4,5)] cap N assms(6)
    by (auto simp: paced_def update_conv split_beta)
  ultimately show ?thesis by simp
qed

lemma paced_step:
  assumes "paced p cap N b gs" "small p b u" "0 \<le> b"
    "cap_lowWaterBytes cap \<le> cap_softCapBytes cap" "0 \<le> cap_softCapBytes cap" "1 \<le> N"
  shows "paced p cap N b (step u gs)"
proof -
  obtain gv s where gs: "gs = (gv, s)" by (cases gs)
  have ok: "ok s" using assms(1) gs by (simp add: paced_def)
  show ?thesis
  proof (cases u)
    case (Use_write q now k v ttl)
    have "size p (use u s) \<le> size p s + (if q = p then b else 0)"
      using use_grows [OF ok, of p u] assms(2) Use_write by (auto simp: small_def)
    with Use_write gs paced_other [of p cap N b gv s "use u s" q] paced_own [of p cap N b gv s "use u s"]
      ok_use [OF ok, of u] assms show ?thesis
      by (cases "q = p") (simp_all add: step_def)
  next
    case (Use_read q now k)
    then show ?thesis using use_grows [OF ok, of p u] ok_use [OF ok, of u] assms(1) gs
      by (auto simp: step_def paced_def)
  next
    case (Use_delete q k)
    then show ?thesis using use_grows [OF ok, of p u] ok_use [OF ok, of u] assms(1) gs
      by (auto simp: step_def paced_def)
  qed
qed

text \<open>Even between a write and its check, the size stays one burst above the soft cap.\<close>

lemma burst_bound:
  assumes "paced p cap N b (gv, s)" "small p b u" "0 \<le> b" "1 \<le> N"
  shows "size p (use u s) \<le> cap_softCapBytes cap + N * b"
proof -
  have ok: "ok s" using assms(1) by (simp add: paced_def)
  have "size p (use u s) \<le> size p s + b"
    using use_grows [OF ok, of p u] assms(2,3) by (cases u) (auto simp: small_def split: if_splits)
  moreover have "size p s \<le> cap_softCapBytes cap + (N - 1) * b"
  proof -
    let ?w = "orelse (map_of (gv_writesSinceCheck gv) p) 0"
    have "?w * b \<le> (N - 1) * b"
      using assms(1,3,4) by (intro mult_right_mono) (auto simp: paced_def)
    with assms(1) show ?thesis by (simp add: paced_def)
  qed
  ultimately show ?thesis by (simp add: algebra_simps)
qed

end

subsection \<open>The in-memory store under the governor\<close>

fun ms_use :: "('p \<Rightarrow> int) \<Rightarrow> 'p store_use \<Rightarrow> 'p memory_store \<Rightarrow> 'p memory_store" where
  "ms_use bytes_of (Use_write p now k v ttl) rows = ms_set bytes_of now p k v ttl rows"
| "ms_use bytes_of (Use_read p now k) rows = snd (ms_get now p k rows)"
| "ms_use bytes_of (Use_delete p k) rows = ms_delete p k rows"

abbreviation ms_bytes :: "provider \<Rightarrow> 'p memory_store \<Rightarrow> int" where
  "ms_bytes p rows \<equiv> snd (ms_sizeOf p rows)"

lemma own_rows_simps:
  "own_rows p [] = []"
  "own_rows p (r # rs) = (if ms_owned p (fst r) then r # own_rows p rs else own_rows p rs)"
  by (simp_all add: own_rows_def split_beta)

lemma own_rows_set: "set (own_rows p rows) \<subseteq> set rows"
  by (auto simp: own_rows_def)

lemma own_nonneg: "ms_ok rows \<Longrightarrow> 0 \<le> bytes_in (own_rows p rows)"
  using own_rows_set [of p rows] by (intro bytes_in_nonneg) (auto simp: ms_ok_def)

lemma bytes_update:
  assumes "ms_ok rows" "0 \<le> cr_bytes row"
  shows "bytes_in (own_rows p (AList.update i row rows)) \<le>
    bytes_in (own_rows p rows) + (if ms_owned p i then cr_bytes row else 0)"
  using assms by (induction rows) (auto simp: own_rows_simps ms_ok_def)

lemma bytes_update_same:
  "map_of rows i = Some old \<Longrightarrow> cr_bytes row = cr_bytes old \<Longrightarrow>
   bytes_in (own_rows p (AList.update i row rows)) = bytes_in (own_rows p rows)"
  by (induction rows) (auto simp: own_rows_simps split: if_splits)

lemma bytes_delete: "ms_ok rows \<Longrightarrow> bytes_in (own_rows p (AList.delete i rows)) \<le> bytes_in (own_rows p rows)"
  by (induction rows) (auto simp: own_rows_simps ms_ok_def)

lemma ms_ok_use: "ms_ok rows \<Longrightarrow> (\<And>v. 0 \<le> bytes_of v) \<Longrightarrow> ms_ok (ms_use bytes_of u rows)"
  by (cases u) (simp_all add: ms_ok_ops)

lemma ms_ok_evict: "ms_ok rows \<Longrightarrow> ms_ok (snd (ms_evictLru p n rows))"
  using evict_prefix [of rows p n "fst (ms_evictLru p n rows)" "snd (ms_evictLru p n rows)"]
  by (auto simp: ms_ok_filter)

interpretation memory_sized: sized_store ms_bytes ms_evictLru "ms_use (\<lambda>v. int (bytes_of v))"
    "\<lambda>v. int (bytes_of v)" ms_ok for bytes_of :: "'p \<Rightarrow> nat"
proof
  fix rows :: "'p memory_store" and p q n and u :: "'p store_use"
  assume ok: "ms_ok rows"
  show "ms_ok (snd (ms_evictLru p n rows))" by (rule ms_ok_evict [OF ok])
  show "ms_ok (ms_use (\<lambda>v. int (bytes_of v)) u rows)" by (rule ms_ok_use [OF ok]) simp
  show "0 \<le> ms_bytes p rows" using own_nonneg [OF ok] by (simp add: ms_sizeOf_own)
  obtain m where m:
    "er_bytesFreed (fst (ms_evictLru p n rows)) = bytes_in (take m (lru_order p rows))"
    "mset (own_rows p (snd (ms_evictLru p n rows))) = mset (drop m (lru_order p rows))"
    "m = length (lru_order p rows) \<or> n \<le> er_bytesFreed (fst (ms_evictLru p n rows))"
    using evict_prefix [OF ok prod.collapse [symmetric], of p n] by blast
  have "bytes_in (own_rows p (snd (ms_evictLru p n rows))) = bytes_in (drop m (lru_order p rows))"
    by (rule bytes_in_mset [OF m(2)])
  moreover have "bytes_in (take m (lru_order p rows)) + bytes_in (drop m (lru_order p rows)) =
      bytes_in (own_rows p rows)"
    using bytes_in_mset [OF lru_order_mset, of p rows] by (metis append_take_drop_id bytes_in_simps(3))
  ultimately show "ms_bytes p (snd (ms_evictLru p n rows)) \<le> max 0 (ms_bytes p rows - n)"
    using m(1,3) by (auto simp: ms_sizeOf_own)
  show "ms_bytes p (snd (ms_evictLru q n rows)) = ms_bytes p rows" if "q \<noteq> p"
  proof -
    obtain k where k: "snd (ms_evictLru q n rows) =
        filter (\<lambda>(i, r). i \<notin> fst ` set (take k (lru_order q rows))) rows"
      using evict_prefix [OF ok prod.collapse [symmetric], of q n] by blast
    have "i \<notin> fst ` set (take k (lru_order q rows))" if "ms_owned p i" for i
    proof
      assume "i \<in> fst ` set (take k (lru_order q rows))"
      then have "ms_owned q i" by (auto simp: lru_order_def own_rows_def dest!: in_set_takeD)
      with that \<open>q \<noteq> p\<close> show False by (auto simp: ms_owned_iff)
    qed
    then have "own_rows p (snd (ms_evictLru q n rows)) = own_rows p rows"
      unfolding k by (auto simp: own_rows_def intro!: filter_cong)
    then show ?thesis by (simp add: ms_sizeOf_own)
  qed
  show "ms_bytes p (ms_use (\<lambda>v. int (bytes_of v)) u rows) \<le> ms_bytes p rows +
    (case u of Use_write q _ _ v _ \<Rightarrow> if q = p then int (bytes_of v) else 0 | _ \<Rightarrow> 0)"
  proof (cases u)
    case (Use_write q now k v ttl)
    with bytes_update [OF ok, of "\<lparr>cr_payload = v, cr_bytes = int (bytes_of v), cr_fetchedAt = now,
        cr_expiresAt = map_option (\<lambda>t. now + t * 1000) ttl, cr_hitCount = 0, cr_lastHitAt = None\<rparr>"
        p "ms_id q k"]
    show ?thesis by (auto simp: ms_set_def ms_sizeOf_own split: if_splits)
  next
    case (Use_read q now k)
    then show ?thesis
      by (auto simp: ms_get_def ms_sizeOf_own Let_def bytes_update_same split: option.split)
  next
    case (Use_delete q k)
    with bytes_delete [OF ok] show ?thesis by (simp add: ms_delete_def ms_sizeOf_own)
  qed
qed

lemma lastfmCap_order:
  assumes "0 \<le> mb"
  shows "0 \<le> cap_softCapBytes (lastfmCap mb) \<and>
    cap_lowWaterBytes (lastfmCap mb) \<le> cap_softCapBytes (lastfmCap mb) \<and>
    cap_softCapBytes (lastfmCap mb) + 5 * MB \<le> LASTFM_HARD_CAP_BYTES"
proof -
  let ?s = "cap_softCapBytes (lastfmCap mb)"
  have "0 \<le> js_round (mb * of_int MB)" using assms by (simp add: js_round_def MB_def)
  then have s: "0 \<le> ?s" "?s + 5 * MB \<le> LASTFM_HARD_CAP_BYTES"
    by (auto simp: lastfmCap_def Let_def LASTFM_HARD_CAP_BYTES_def MB_def)
  have "js_round (of_int ?s * (9 / 10)) \<le> ?s"
    using s(1) by (cases "?s = 0") (auto simp: js_round_def floor_le_iff)
  with s show ?thesis by (simp add: lastfmCap_def Let_def)
qed

definition governed :: "('p \<Rightarrow> nat) \<Rightarrow> cache_governor \<Rightarrow> 'p store_use list \<Rightarrow> cache_governor \<times> 'p memory_store" where
  "governed bytes_of gv us = run_calls (memory_sized.step bytes_of) (gv, []) us"

lemma paced_governed:
  fixes bytes_of :: "'p \<Rightarrow> nat"
  assumes "memory_sized.paced p cap N b (gv, [] :: 'p memory_store)" "\<And>v. int (bytes_of v) \<le> b" "0 \<le> b"
    "cap_lowWaterBytes cap \<le> cap_softCapBytes cap" "0 \<le> cap_softCapBytes cap" "1 \<le> N"
  shows "memory_sized.paced p cap N b (governed bytes_of gv us)"
  unfolding governed_def
proof (induction us rule: rev_induct)
  case (snoc u us)
  have "memory_sized.small bytes_of p b u"
    using assms(2) by (auto simp: memory_sized.small_def split: store_use.split)
  from memory_sized.paced_step [OF snoc this assms(3-6)] show ?case by (simp add: run_calls_append)
qed (use assms(1) in simp)

subsection \<open>Properties\<close>

text \<open>The licence cap on the in-memory store, of tests and local development, where a write and the check
  after it run one after the other: with a soft cap made by \<open>lastfmCap\<close> and a check every
  \<open>N\<close> writes, cached Last.fm data stays within 100 MB at every moment, also between a write
  and its check, as long as \<open>N\<close> payloads fit in the 5 MB between the clamped soft cap and the
  licence. The Postgres store, and checks that interleave or fail, are in \<open>Governed_Table\<close>.\<close>

theorem lastfm_cap_never_exceeded:
  fixes bytes_of :: "'p \<Rightarrow> nat"
  assumes "0 \<le> mb" and "map_of caps Lastfm = Some (lastfmCap mb)" and "1 \<le> N"
    and "\<And>v. int (bytes_of v) \<le> b" and "N * b \<le> 5 * MB"
    and "governed bytes_of (gv_new (Some caps) (Some N)) us = (gv, rows)"
  shows "ms_bytes Lastfm rows \<le> LASTFM_HARD_CAP_BYTES \<and>
    ms_bytes Lastfm (ms_use (\<lambda>v. int (bytes_of v)) u rows) \<le> LASTFM_HARD_CAP_BYTES"
proof -
  let ?cap = "lastfmCap mb"
  note cap = lastfmCap_order [OF assms(1)]
  have b: "0 \<le> b" using assms(4) [of undefined] by linarith
  have small: "memory_sized.small bytes_of Lastfm b v" for v
    using assms(4) by (auto simp: memory_sized.small_def split: store_use.split)
  have "memory_sized.paced Lastfm ?cap N b (gv_new (Some caps) (Some N), [] :: 'p memory_store)"
    unfolding memory_sized.paced_def
    using assms(2,3) cap by (simp add: gv_new_def ms_ok_def ms_sizeOf_own own_rows_simps)
  from paced_governed [where us = us and bytes_of = bytes_of, OF this assms(4) b _ _ assms(3)] cap assms(6)
  have p: "memory_sized.paced Lastfm ?cap N b (gv, rows)" by simp
  have "ms_bytes Lastfm (ms_use (\<lambda>v. int (bytes_of v)) u rows) \<le> cap_softCapBytes ?cap + N * b"
    by (rule memory_sized.burst_bound [OF p small b assms(3)])
  moreover have "ms_bytes Lastfm rows \<le> cap_softCapBytes ?cap + N * b"
  proof -
    have "orelse (map_of (gv_writesSinceCheck gv) Lastfm) 0 * b \<le> N * b"
      using p b assms(3) by (intro mult_right_mono) (auto simp: memory_sized.paced_def)
    with p show ?thesis by (simp add: memory_sized.paced_def)
  qed
  ultimately show ?thesis using cap assms(5) by linarith
qed

theorem lastfm_cap_never_exceeded_witness:
  "ms_bytes Lastfm (snd (governed (\<lambda>_ :: nat. 1000) (gv_new (Some [(Lastfm, lastfmCap 80)]) (Some 20))
     [Use_write Lastfm 1 ''a'' 0 None, Use_read Lastfm 2 ''a''])) \<le> LASTFM_HARD_CAP_BYTES"
proof -
  let ?us = "[Use_write Lastfm 1 ''a'' 0 None, Use_read Lastfm 2 ''a''] :: nat store_use list"
  let ?g = "gv_new (Some [(Lastfm, lastfmCap 80)]) (Some 20)"
  have "ms_bytes Lastfm (snd (governed (\<lambda>_ :: nat. 1000) ?g ?us)) \<le> LASTFM_HARD_CAP_BYTES \<and>
      ms_bytes Lastfm (ms_use (\<lambda>_ :: nat. int 1000) (Use_delete Lastfm ''a'')
        (snd (governed (\<lambda>_ :: nat. 1000) ?g ?us))) \<le> LASTFM_HARD_CAP_BYTES"
    by (rule lastfm_cap_never_exceeded [where b = 1000, OF _ _ _ _ _ prod.collapse [symmetric]])
      (simp_all add: MB_def)
  then show ?thesis ..
qed

end
