(* ===== verification/Cached_Upstream.thy ===== *)
theory Cached_Upstream
  imports Cache_Governor Pg_Cache_Store
begin

text \<open>
  The cache-first read-through of \<^verbatim>\<open>packages/upstream/src/cache/cache-first.ts\<close>. A caller's
  \<open>fetch\<close> is three stretches of code with awaits between them: the lookup, the shared fill
  (run by one caller per key, see Single_Flight), and the caller's own conclusion from the
  fill's result. The store is reached through the operations \<open>store_ops\<close>, and \<open>fetch_env\<close>
  says what the outside does during one fetch: what the provider answers, and which store
  calls reject.
\<close>

datatype 'v parsed = Parsed 'v | Malformed_payload | Parse_threw

record ('p, 'v) cache_spec =
  cf_provider :: provider
  cf_key :: string
  cf_ttlSeconds :: "int option"
  cf_parse :: "'p \<Rightarrow> 'v parsed"
  cf_refresh :: bool

record 'v cache_result =
  res_value :: 'v
  res_hit :: bool
  res_stale :: bool

record counters =
  ct_hits :: nat
  ct_misses :: nat
  ct_stale :: nat
  ct_poisoned :: nat
  ct_coalesced :: nat
  ct_probes :: nat

definition zeroCounters :: counters where
  "zeroCounters = \<lparr>ct_hits = 0, ct_misses = 0, ct_stale = 0, ct_poisoned = 0, ct_coalesced = 0,
     ct_probes = 0\<rparr>"

record ('s, 'p) store_ops =
  op_get :: "time \<Rightarrow> provider \<Rightarrow> string \<Rightarrow> 's \<Rightarrow> 'p cache_entry option \<times> 's"
  op_put :: "time \<Rightarrow> provider \<Rightarrow> string \<Rightarrow> 'p \<Rightarrow> int option \<Rightarrow> 's \<Rightarrow> 's"
  op_remove :: "provider \<Rightarrow> string \<Rightarrow> 's \<Rightarrow> 's"

record ('p, 'e) fetch_env =
  env_load :: "'e + 'p"
  env_getFails :: bool
  env_removeFails :: bool
  env_putFails :: bool
  env_afterFails :: bool
  env_probeWanted :: bool

record 's cached_upstream =
  cu_store :: 's
  cu_counters :: "(provider \<times> counters) list"

text \<open>A \<open>FillLoadError\<close> is told apart from a parse failure and from any other rejection.\<close>

datatype ('e, 'p) fill_result = Filled 'p | Load_failed 'e | Fill_malformed | Fill_threw

datatype 'e fetch_error = Upstream_failed 'e | Malformed_error | Other_error

definition cu_bump :: "provider \<Rightarrow> (counters \<Rightarrow> counters) \<Rightarrow> 's cached_upstream \<Rightarrow> 's cached_upstream" where
  "cu_bump p inc cu = cu\<lparr>cu_counters :=
     AList.update p (inc (orelse (map_of (cu_counters cu) p) zeroCounters)) (cu_counters cu)\<rparr>"

abbreviation bump_hits :: "provider \<Rightarrow> 's cached_upstream \<Rightarrow> 's cached_upstream" where
  "bump_hits p \<equiv> cu_bump p (\<lambda>c. c\<lparr>ct_hits := Suc (ct_hits c)\<rparr>)"

abbreviation bump_misses :: "provider \<Rightarrow> 's cached_upstream \<Rightarrow> 's cached_upstream" where
  "bump_misses p \<equiv> cu_bump p (\<lambda>c. c\<lparr>ct_misses := Suc (ct_misses c)\<rparr>)"

abbreviation bump_stale :: "provider \<Rightarrow> 's cached_upstream \<Rightarrow> 's cached_upstream" where
  "bump_stale p \<equiv> cu_bump p (\<lambda>c. c\<lparr>ct_stale := Suc (ct_stale c)\<rparr>)"

abbreviation bump_poisoned :: "provider \<Rightarrow> 's cached_upstream \<Rightarrow> 's cached_upstream" where
  "bump_poisoned p \<equiv> cu_bump p (\<lambda>c. c\<lparr>ct_poisoned := Suc (ct_poisoned c)\<rparr>)"

abbreviation bump_coalesced :: "provider \<Rightarrow> 's cached_upstream \<Rightarrow> 's cached_upstream" where
  "bump_coalesced p \<equiv> cu_bump p (\<lambda>c. c\<lparr>ct_coalesced := Suc (ct_coalesced c)\<rparr>)"

abbreviation bump_probes :: "provider \<Rightarrow> 's cached_upstream \<Rightarrow> 's cached_upstream" where
  "bump_probes p \<equiv> cu_bump p (\<lambda>c. c\<lparr>ct_probes := Suc (ct_probes c)\<rparr>)"

text \<open>\<open>stats\<close>: the counters and the hit rate.\<close>

definition cu_stats :: "provider \<Rightarrow> 's cached_upstream \<Rightarrow> counters \<times> rat" where
  "cu_stats p cu =
     (let c = orelse (map_of (cu_counters cu) p) zeroCounters; total = ct_hits c + ct_misses c
      in (c, if total = 0 then 0 else of_nat (ct_hits c) / of_nat total))"

text \<open>The key of the shared flight.\<close>

definition fill_key :: "provider \<Rightarrow> string \<Rightarrow> string" where
  "fill_key p key = provider_name p @ CHR 0x00 # key"

subsection \<open>The three stretches\<close>

text \<open>After the lookup: an answer, a rejection, or a fill to wait for, holding an expired payload
  or the fresh payload of a probe.\<close>

datatype ('p, 'v, 'e) lookup = Hit "'v cache_result" | Rejected "'e fetch_error"
  | Need_fill "'p option" "'p option"

definition past :: "time \<Rightarrow> time option \<Rightarrow> bool" where
  "past now till = (case till of None \<Rightarrow> False | Some t \<Rightarrow> t \<le> now)"

definition cf_expired :: "time \<Rightarrow> 'p cache_entry \<Rightarrow> bool" where
  "cf_expired now entry = past now (ce_expiresAt entry)"

definition cf_lookup ::
  "('s, 'p) store_ops \<Rightarrow> clock \<Rightarrow> ('p, 'e) fetch_env \<Rightarrow> ('p, 'v) cache_spec \<Rightarrow> 's cached_upstream \<Rightarrow>
   ('p, 'v, 'e) lookup \<times> 's cached_upstream" where
  "cf_lookup ops clk env spec cu =
     (let p = cf_provider spec; k = cf_key spec
      in if cf_refresh spec then (Need_fill None None, cu)
         else if env_getFails env then (Rejected Other_error, cu)
         else case op_get ops (clk 0) p k (cu_store cu) of
           (None, s) \<Rightarrow> (Need_fill None None, cu\<lparr>cu_store := s\<rparr>)
         | (Some entry, s) \<Rightarrow>
             let cu1 = cu\<lparr>cu_store := s\<rparr>
             in if cf_expired (clk 1) entry then (Need_fill (Some (ce_payload entry)) None, cu1)
                else case cf_parse spec (ce_payload entry) of
                  Parsed v \<Rightarrow>
                    if env_probeWanted env then (Need_fill None (Some (ce_payload entry)), cu1)
                    else (Hit \<lparr>res_value = v, res_hit = True, res_stale = False\<rparr>, bump_hits p cu1)
                | Parse_threw \<Rightarrow> (Rejected Other_error, cu1)
                | Malformed_payload \<Rightarrow>
                    let cu2 = bump_poisoned p cu1
                    in if env_removeFails env then (Rejected Other_error, cu2)
                       else (Need_fill None None, cu2\<lparr>cu_store := op_remove ops p k s\<rparr>))"

text \<open>\<open>#fill\<close>: load, the write gate, the write; \<open>after\<close> is the governor's \<open>afterWrite\<close>.\<close>

definition cf_fill ::
  "('s, 'p) store_ops \<Rightarrow> (provider \<Rightarrow> 's \<Rightarrow> 's) \<Rightarrow> time \<Rightarrow> ('p, 'e) fetch_env \<Rightarrow> ('p, 'v) cache_spec \<Rightarrow> 's \<Rightarrow>
   ('e, 'p) fill_result \<times> 's" where
  "cf_fill ops after now env spec s = (case env_load env of
     Inl e \<Rightarrow> (Load_failed e, s)
   | Inr payload \<Rightarrow>
       (case cf_parse spec payload of
          Malformed_payload \<Rightarrow> (Fill_malformed, s)
        | Parse_threw \<Rightarrow> (Fill_threw, s)
        | Parsed _ \<Rightarrow>
            if env_putFails env then (Fill_threw, s)
            else let s1 = op_put ops now (cf_provider spec) (cf_key spec) payload (cf_ttlSeconds spec) s
                 in if env_afterFails env then (Fill_threw, s1)
                    else (Filled payload, after (cf_provider spec) s1)))"

text \<open>What the caller makes of the flight's outcome.\<close>

definition cf_conclude ::
  "('p, 'v) cache_spec \<Rightarrow> 'p option \<Rightarrow> 'p option \<Rightarrow> ('e, 'p) fill_result \<Rightarrow> 's cached_upstream \<Rightarrow>
   ('e fetch_error + 'v cache_result) \<times> 's cached_upstream" where
  "cf_conclude spec expired probe r cu = (case r of
     Filled payload \<Rightarrow>
       (case cf_parse spec payload of
          Parsed v \<Rightarrow> Inr \<lparr>res_value = v, res_hit = False, res_stale = False\<rparr>
        | Malformed_payload \<Rightarrow> Inl Malformed_error
        | Parse_threw \<Rightarrow> Inl Other_error, cu)
   | Fill_malformed \<Rightarrow> (Inl Malformed_error, cu)
   | Fill_threw \<Rightarrow> (Inl Other_error, cu)
   | Load_failed e \<Rightarrow>
       (case map_option (cf_parse spec) probe of
          Some (Parsed v) \<Rightarrow> (Inr \<lparr>res_value = v, res_hit = True, res_stale = False\<rparr>, cu)
        | _ \<Rightarrow>
            (case map_option (cf_parse spec) expired of
               Some (Parsed v) \<Rightarrow>
                 (Inr \<lparr>res_value = v, res_hit = True, res_stale = True\<rparr>, bump_stale (cf_provider spec) cu)
             | _ \<Rightarrow> (Inl (Upstream_failed e), cu))))"

text \<open>
  One \<open>fetch\<close> from start to end. \<open>joined\<close> is the result of the flight that was already
  running for the key, or \<open>None\<close> when this caller starts its own.
\<close>

definition cf_fetch ::
  "('s, 'p) store_ops \<Rightarrow> (provider \<Rightarrow> 's \<Rightarrow> 's) \<Rightarrow> clock \<Rightarrow> ('p, 'e) fetch_env \<Rightarrow>
   ('e, 'p) fill_result option \<Rightarrow> ('p, 'v) cache_spec \<Rightarrow> 's cached_upstream \<Rightarrow>
   ('e fetch_error + 'v cache_result) \<times> 's cached_upstream" where
  "cf_fetch ops after clk env joined spec cu =
     (let p = cf_provider spec
      in case cf_lookup ops clk env spec cu of
           (Hit res, cu1) \<Rightarrow> (Inr res, cu1)
         | (Rejected e, cu1) \<Rightarrow> (Inl e, cu1)
         | (Need_fill expired probe, cu1) \<Rightarrow>
             let cu2 = (if probe = None then bump_misses p cu1 else bump_hits p (bump_probes p cu1))
             in case joined of
                  Some r \<Rightarrow> cf_conclude spec expired probe r (bump_coalesced p cu2)
                | None \<Rightarrow>
                    (case cf_fill ops after (clk 2) env spec (cu_store cu2) of (r, s) \<Rightarrow>
                       cf_conclude spec expired probe r (cu2\<lparr>cu_store := s\<rparr>)))"

definition cf_peek ::
  "('s, 'p) store_ops \<Rightarrow> clock \<Rightarrow> provider \<Rightarrow> string \<Rightarrow> ('p \<Rightarrow> 'v parsed) \<Rightarrow> 's cached_upstream \<Rightarrow>
   ('e fetch_error + 'v option) \<times> 's cached_upstream" where
  "cf_peek ops clk p key parse cu =
     (case op_get ops (clk 0) p key (cu_store cu) of
        (None, s) \<Rightarrow> (Inr None, cu\<lparr>cu_store := s\<rparr>)
      | (Some entry, s) \<Rightarrow>
          (if cf_expired (clk 1) entry then Inr None
           else case parse (ce_payload entry) of
                  Parsed v \<Rightarrow> Inr (Some v)
                | Malformed_payload \<Rightarrow> Inr None
                | Parse_threw \<Rightarrow> Inl Other_error, cu\<lparr>cu_store := s\<rparr>))"

lemma fill_key_inj: "fill_key p k = fill_key q l \<longleftrightarrow> p = q \<and> k = l"
proof
  have nul: "CHR 0x00 \<notin> set (provider_name r)" for r by (cases r) simp_all
  assume e: "fill_key p k = fill_key q l"
  have "provider_name r = takeWhile ((\<noteq>) (CHR 0x00)) (fill_key r m)" for r m
    unfolding fill_key_def using nul [of r] by (subst takeWhile_append2) auto
  from this [of p k] this [of q l] e have "provider_name p = provider_name q" by metis
  with e show "p = q \<and> k = l" by (simp add: fill_key_def)
qed simp

lemma cu_store_bump [simp]: "cu_store (cu_bump p f cu) = cu_store cu"
  by (simp add: cu_bump_def)

subsection \<open>The client of a cache store\<close>

text \<open>What follows holds over any store that satisfies the cache contract.\<close>

context cache_store
begin

definition ops :: "('s, 'p) store_ops" where
  "ops = \<lparr>op_get = get, op_put = put, op_remove = remove\<rparr>"

lemma ops_simps [simp]: "op_get ops = get" "op_put ops = put" "op_remove ops = remove"
  by (simp_all add: ops_def)

text \<open>The lookup of a row that is there.\<close>

lemma lookup_row:
  assumes "content (cu_store cu) (cf_provider spec, cf_key spec) = Some (v, t, till)"
    "\<not> cf_refresh spec" "\<not> env_getFails env"
  shows "\<exists>s. content s = content (cu_store cu) \<and>
    cf_lookup ops clk env spec cu =
      (let p = cf_provider spec; cu1 = cu\<lparr>cu_store := s\<rparr>
       in if past (clk 1) till then (Need_fill (Some v) None, cu1)
          else case cf_parse spec v of
            Parsed x \<Rightarrow> if env_probeWanted env then (Need_fill None (Some v), cu1)
              else (Hit \<lparr>res_value = x, res_hit = True, res_stale = False\<rparr>, bump_hits p cu1)
          | Parse_threw \<Rightarrow> (Rejected Other_error, cu1)
          | Malformed_payload \<Rightarrow>
              let cu2 = bump_poisoned p cu1
              in if env_removeFails env then (Rejected Other_error, cu2)
                 else (Need_fill None None, cu2\<lparr>cu_store := remove p (cf_key spec) s\<rparr>))"
proof -
  let ?p = "cf_provider spec" and ?k = "cf_key spec"
  obtain e where e: "fst (get (clk 0) ?p ?k (cu_store cu)) = Some e"
    using assms(1) get_None by fastforce
  from get_Some [OF e] assms(1) have v: "ce_payload e = v" "ce_expiresAt e = till" by auto
  obtain s where g: "get (clk 0) ?p ?k (cu_store cu) = (Some e, s)"
    using e by (cases "get (clk 0) ?p ?k (cu_store cu)") simp
  then have "content s = content (cu_store cu)" using get_content [of "clk 0" ?p ?k "cu_store cu"] by simp
  then show ?thesis
    by (intro exI [of _ s] conjI)
      (simp_all add: cf_lookup_def Let_def g v cf_expired_def assms(2,3) del: One_nat_def split: parsed.split)
qed

text \<open>A usable row answers for itself whatever the provider does.\<close>

lemma usable_row_answers:
  assumes "content (cu_store cu) (cf_provider spec, cf_key spec) = Some (v, t, till)"
    "\<not> cf_refresh spec" "\<not> env_getFails env" "cf_parse spec v = Parsed x" "env_load env = Inl e"
    "joined = None \<or> joined = Some (Load_failed e')"
  shows "fst (cf_fetch ops after clk env joined spec cu) =
    Inr \<lparr>res_value = x, res_hit = True,
         res_stale = past (clk 1) till\<rparr>"
proof -
  have "\<exists>s. cf_lookup ops clk env spec cu =
      (if past (clk 1) till then (Need_fill (Some v) None, cu\<lparr>cu_store := s\<rparr>)
       else if env_probeWanted env then (Need_fill None (Some v), cu\<lparr>cu_store := s\<rparr>)
       else (Hit \<lparr>res_value = x, res_hit = True, res_stale = False\<rparr>, bump_hits (cf_provider spec) (cu\<lparr>cu_store := s\<rparr>)))"
    using lookup_row [where clk = clk, OF assms(1-3)] unfolding assms(4) Let_def parsed.case by blast
  then obtain s where s: "cf_lookup ops clk env spec cu =
      (if past (clk 1) till then (Need_fill (Some v) None, cu\<lparr>cu_store := s\<rparr>)
       else if env_probeWanted env then (Need_fill None (Some v), cu\<lparr>cu_store := s\<rparr>)
       else (Hit \<lparr>res_value = x, res_hit = True, res_stale = False\<rparr>, bump_hits (cf_provider spec) (cu\<lparr>cu_store := s\<rparr>)))" ..
  show ?thesis
    using assms(4-6) by (auto simp: cf_fetch_def s Let_def cf_fill_def cf_conclude_def)
qed

text \<open>Only parsed payloads are written: the rows stay good.\<close>

definition good_rows :: "(provider \<times> string \<Rightarrow> 'p \<Rightarrow> bool) \<Rightarrow> 's \<Rightarrow> bool" where
  "good_rows G s \<longleftrightarrow> (\<forall>pk v t till. content s pk = Some (v, t, till) \<longrightarrow> G pk v)"

lemma good_rows_ops:
  "good_rows G s \<Longrightarrow> good_rows G (snd (get now p k s))"
  "good_rows G s \<Longrightarrow> good_rows G (remove p k s)"
  "good_rows G s \<Longrightarrow> G (p, k) v \<Longrightarrow> good_rows G (put now p k v ttl s)"
  by (auto simp: good_rows_def get_content remove_content put_content)

lemma good_rows_lookup:
  assumes "good_rows G (cu_store cu)"
  shows "good_rows G (cu_store (snd (cf_lookup ops clk env spec cu)))"
proof -
  have g: "get n p k (cu_store cu) = (r, s) \<Longrightarrow> good_rows G s" for n p k r s
    using good_rows_ops(1) [OF assms, of n p k] by simp
  show ?thesis
    using assms by (auto simp: cf_lookup_def Let_def good_rows_ops(2) dest!: g
        split: prod.split option.split parsed.split)
qed

lemma good_rows_fill:
  assumes "good_rows G s" "\<And>v x. cf_parse spec v = Parsed x \<Longrightarrow> G (cf_provider spec, cf_key spec) v"
    "\<And>p s. good_rows G s \<Longrightarrow> good_rows G (after p s)"
  shows "good_rows G (snd (cf_fill ops after now env spec s))"
  using assms by (auto simp: cf_fill_def Let_def good_rows_ops(3) split: sum.split parsed.split)

lemma cu_store_conclude [simp]: "cu_store (snd (cf_conclude spec ex pr r cu)) = cu_store cu"
  by (simp add: cf_conclude_def split: fill_result.split option.split parsed.split)

lemma good_rows_fetch:
  assumes "good_rows G (cu_store cu)"
    "\<And>v x. cf_parse spec v = Parsed x \<Longrightarrow> G (cf_provider spec, cf_key spec) v"
    "\<And>p s. good_rows G s \<Longrightarrow> good_rows G (after p s)"
  shows "good_rows G (cu_store (snd (cf_fetch ops after clk env joined spec cu)))"
proof -
  obtain l cu1 where l: "cf_lookup ops clk env spec cu = (l, cu1)" by fastforce
  have g1: "good_rows G (cu_store cu1)"
    using good_rows_lookup [OF assms(1), of clk env spec] l by simp
  have g2: "good_rows G (snd (cf_fill ops after n env spec (cu_store cu1)))" for n
    by (rule good_rows_fill [OF g1 assms(2,3)])
  show ?thesis
    using g1 g2 by (auto simp: cf_fetch_def l Let_def split_beta split: lookup.split option.split)
qed

end

text \<open>The two stores of the program, with a governor on the first one only.\<close>

definition memory_ops :: "('p \<Rightarrow> int) \<Rightarrow> ('p memory_store, 'p) store_ops" where
  "memory_ops bytes_of = \<lparr>op_get = ms_get, op_put = ms_set bytes_of, op_remove = ms_delete\<rparr>"

definition pg_ops :: "('p \<Rightarrow> int) \<Rightarrow> ('p pg_table, 'p) store_ops" where
  "pg_ops bytes_of = \<lparr>op_get = pg_get, op_put = pg_set bytes_of, op_remove = pg_delete\<rparr>"

lemma memory_ops_eq: "memory_ops b = memory.ops b"
  by (simp add: memory_ops_def memory.ops_def)

lemma pg_ops_eq: "pg_ops b = pg.ops b"
  by (simp add: pg_ops_def pg.ops_def)

subsection \<open>Counting lookups\<close>

definition lookups :: "provider \<Rightarrow> 's cached_upstream \<Rightarrow> nat" where
  "lookups p cu = (let c = orelse (map_of (cu_counters cu) p) zeroCounters in ct_hits c + ct_misses c)"

lemma lookups_bump:
  "lookups q (cu_bump p f cu) =
     (if q = p then (let c = f (orelse (map_of (cu_counters cu) p) zeroCounters) in ct_hits c + ct_misses c)
      else lookups q cu)"
  by (simp add: lookups_def cu_bump_def update_conv Let_def)

lemma lookups_store [simp]: "lookups q (cu\<lparr>cu_store := s\<rparr>) = lookups q cu"
  by (simp add: lookups_def)

lemma lookups_bumps [simp]:
  "lookups q (bump_hits p cu) = lookups q cu + (if q = p then 1 else 0)"
  "lookups q (bump_misses p cu) = lookups q cu + (if q = p then 1 else 0)"
  "lookups q (bump_stale p cu) = lookups q cu"
  "lookups q (bump_poisoned p cu) = lookups q cu"
  "lookups q (bump_coalesced p cu) = lookups q cu"
  "lookups q (bump_probes p cu) = lookups q cu"
  unfolding lookups_bump by (simp_all add: lookups_def Let_def)

lemma lookups_conclude [simp]:
  "lookups q (snd (cf_conclude spec ex pr r cu)) = lookups q cu"
  by (simp add: cf_conclude_def split: fill_result.split option.split parsed.split)

lemma lookups_lookup:
  "lookups q (snd (cf_lookup ops clk env spec cu)) = lookups q cu +
     (case fst (cf_lookup ops clk env spec cu) of Hit _ \<Rightarrow> if q = cf_provider spec then 1 else 0 | _ \<Rightarrow> 0)"
  by (auto simp: cf_lookup_def Let_def split: prod.split option.split parsed.split)

subsection \<open>Properties\<close>

abbreviation calm_env :: "'e + 'p \<Rightarrow> ('p, 'e) fetch_env" where
  "calm_env r \<equiv> \<lparr>env_load = r, env_getFails = False, env_removeFails = False, env_putFails = False,
     env_afterFails = False, env_probeWanted = False\<rparr>"

text \<open>A payload is a number here, and one below 10 parses.\<close>

abbreviation demo_cf :: "(nat, nat) cache_spec" where
  "demo_cf \<equiv> \<lparr>cf_provider = Lastfm, cf_key = ''similar'', cf_ttlSeconds = Some 60,
     cf_parse = (\<lambda>n. if n < 10 then Parsed (n + 100) else Malformed_payload), cf_refresh = False\<rparr>"

abbreviation demo_table :: "nat \<Rightarrow> nat pg_table" where
  "demo_table v \<equiv> [((Lastfm, ''similar''), \<lparr>pr_payload = v, pr_bytes = 1, pr_fetched_at = 0,
     pr_expires_at = Some 60000, pr_hit_count = 0, pr_last_hit_at = None\<rparr>)]"

abbreviation demo_cu :: "nat \<Rightarrow> nat pg_table cached_upstream" where
  "demo_cu v \<equiv> \<lparr>cu_store = demo_table v, cu_counters = []\<rparr>"

text \<open>Claim C7. An outage of the provider never costs a row that is there: while the load fails, a caller
  whose row parses gets its value, marked stale exactly when the row had expired, whether
  the circuit was being probed and whether it joined somebody else's failed call or not.
  A call that asks for a refresh, or whose reading of the store fails, is another matter.\<close>

theorem outage_serves_cached_row:
  assumes "pg_content (cu_store cu) (cf_provider spec, cf_key spec) = Some (v, t, till)"
    and "\<not> cf_refresh spec" and "\<not> env_getFails env" and "cf_parse spec v = Parsed x"
    and "env_load env = Inl e" and "joined = None \<or> joined = Some (Load_failed e')"
  shows "fst (cf_fetch (pg_ops bytes_of) after clk env joined spec cu) =
    Inr \<lparr>res_value = x, res_hit = True, res_stale = past (clk 1) till\<rparr>"
  using pg.usable_row_answers [OF assms] by (simp add: pg_ops_eq past_def)

theorem outage_serves_cached_row_witness:
  "fst (cf_fetch (pg_ops (\<lambda>_. 1)) (\<lambda>_ s. s) (\<lambda>_. 70000) (calm_env (Inl ''down'')) None demo_cf (demo_cu 3)) =
     Inr \<lparr>res_value = 103, res_hit = True, res_stale = True\<rparr>"
  using outage_serves_cached_row [of "demo_cu 3" demo_cf 3 0 "Some 60000" "calm_env (Inl ''down'')" 103 _
      None undefined "\<lambda>_. 1" "\<lambda>_ s. s" "\<lambda>_. 70000"]
  by (simp add: pg_content_def past_def)

text \<open>The write gate: over any history of fetches, joined ones included, every row of the store
  holds a payload that its parser accepts, if the rows did so at the start and the governor
  only evicts.\<close>

theorem only_parsed_rows_cached:
  assumes "\<forall>pk v t till. pg_content (cu_store cu) pk = Some (v, t, till) \<longrightarrow> G pk v"
    and "\<forall>(clk, env, joined, spec) \<in> set es. \<forall>v x. cf_parse spec v = Parsed x \<longrightarrow> G (cf_provider spec, cf_key spec) v"
    and "\<And>p s. pg_content (after p s) \<subseteq>\<^sub>m pg_content s"
    and "cu' = run_calls (\<lambda>(clk, env, joined, spec) cu. snd (cf_fetch (pg_ops bytes_of) after clk env joined spec cu)) cu es"
    and "pg_content (cu_store cu') pk = Some (v, t, till)"
  shows "G pk v"
proof -
  have ev: "pg.good_rows G (after p s)" if "pg.good_rows G s" for p s
    using that assms(3) [of p s] by (auto simp: pg.good_rows_def map_le_def dom_def)
  have "pg.good_rows G (cu_store cu)" using assms(1) by (auto simp: pg.good_rows_def)
  then have "pg.good_rows G (cu_store cu')"
    using assms(2) unfolding assms(4)
  proof (induction es arbitrary: cu)
    case (Cons r es)
    obtain clk env joined spec where r: "r = (clk, env, joined, spec)" by (cases r) auto
    have "pg.good_rows G (cu_store (snd (cf_fetch (pg.ops bytes_of) after clk env joined spec cu)))"
      using Cons.prems r by (intro pg.good_rows_fetch ev) auto
    with Cons.IH Cons.prems(2) r show ?case by (simp add: pg_ops_eq)
  qed simp
  with assms(5) show ?thesis unfolding pg.good_rows_def by blast
qed

theorem only_parsed_rows_cached_witness:
  "pg_content (cu_store (snd (cf_fetch (pg_ops (\<lambda>_. 1)) (\<lambda>_ s. s) (\<lambda>_. 5)
     (calm_env (Inr 4 :: unit + nat)) None demo_cf (demo_cu 55)))) (Lastfm, ''similar'') =
   Some (4, 5, Some 60005) \<and> (4 :: nat) < 10"
proof -
  let ?fs = "[(\<lambda>_. 5, calm_env (Inr 4 :: unit + nat), None, demo_cf)]"
  let ?cu = "\<lparr>cu_store = [], cu_counters = []\<rparr> :: nat pg_table cached_upstream"
  let ?run = "\<lambda>cu. run_calls (\<lambda>(clk, env, joined, spec) cu.
    snd (cf_fetch (pg_ops (\<lambda>_. 1)) (\<lambda>_ s. s) clk env joined spec cu)) cu ?fs"
  have row: "pg_content (cu_store (?run ?cu)) (Lastfm, ''similar'') = Some (4, 5, Some 60005)"
    by (simp add: cf_fetch_def cf_lookup_def cf_fill_def cf_conclude_def pg_ops_def pg_get_def pg_set_def
        pg_content_def cu_bump_def Let_def)
  have "(4 :: nat) < 10"
    by (rule only_parsed_rows_cached [where G = "\<lambda>pk v. v < 10" and cu = ?cu and es = ?fs, OF _ _ _ refl row])
      (auto simp: pg_content_def split: if_splits)
  moreover have "pg_content (cu_store (snd (cf_fetch (pg_ops (\<lambda>_. 1)) (\<lambda>_ s. s) (\<lambda>_. 5)
      (calm_env (Inr 4 :: unit + nat)) None demo_cf (demo_cu 55)))) (Lastfm, ''similar'') = Some (4, 5, Some 60005)"
    by (simp add: cf_fetch_def cf_lookup_def cf_fill_def cf_conclude_def pg_ops_def pg_get_def pg_set_def
        pg_delete_def pg_content_def cu_bump_def cf_expired_def past_def Let_def)
  ultimately show ?thesis by blast
qed

text \<open>Poison eviction: a fresh row that no longer parses is replaced within the same fetch by the
  provider's answer, which is returned as a miss; if the load fails instead, the row is gone
  and the caller sees the provider's error.\<close>

theorem poisoned_row_replaced:
  assumes "pg_content (cu_store cu) (cf_provider spec, cf_key spec) = Some (v, t, till)"
    and "\<not> past (clk 1) till" and "cf_parse spec v = Malformed_payload" and "\<not> cf_refresh spec"
    and "env = calm_env r"
    and "cf_fetch (pg_ops bytes_of) (\<lambda>_ s. s) clk env None spec cu = (out, cu')"
  shows "case r of
      Inl e \<Rightarrow> out = Inl (Upstream_failed e) \<and> pg_content (cu_store cu') (cf_provider spec, cf_key spec) = None
    | Inr w \<Rightarrow> (\<forall>x. cf_parse spec w = Parsed x \<longrightarrow>
        out = Inr \<lparr>res_value = x, res_hit = False, res_stale = False\<rparr> \<and>
        (\<exists>t till. pg_content (cu_store cu') (cf_provider spec, cf_key spec) = Some (w, t, till)))"
proof -
  obtain s where s: "cf_lookup (pg.ops bytes_of) clk env spec cu =
      (Need_fill None None, (bump_poisoned (cf_provider spec) (cu\<lparr>cu_store := s\<rparr>))
         \<lparr>cu_store := pg_delete (cf_provider spec) (cf_key spec) s\<rparr>)"
    using pg.lookup_row [where clk = clk, OF assms(1,4), of env bytes_of] assms(2,3,5)
    by (auto simp: Let_def)
  have env: "env_load env = r" "\<not> env_putFails env" "\<not> env_afterFails env"
    using assms(5) by simp_all
  show ?thesis
    using assms(6)
    by (auto simp: pg_ops_eq cf_fetch_def s env Let_def cf_fill_def cf_conclude_def pg.remove_content
        pg.put_content split: sum.splits)
qed

theorem poisoned_row_replaced_witness:
  "fst (cf_fetch (pg_ops (\<lambda>_. 1)) (\<lambda>_ s. s) (\<lambda>_. 5) (calm_env (Inr 4 :: unit + nat)) None demo_cf (demo_cu 55)) =
     Inr \<lparr>res_value = 104, res_hit = False, res_stale = False\<rparr>"
  using poisoned_row_replaced [OF _ _ _ _ refl prod.collapse [symmetric], where cu = "demo_cu 55"
      and spec = demo_cf and v = 55 and t = 0 and till = "Some 60000" and clk = "\<lambda>_. 5" and bytes_of = "\<lambda>_. 1"
      and r = "Inr 4 :: unit + nat"]
  by (simp add: pg_content_def past_def)

text \<open>A probe is not always free: when a fresh, usable row is given up for a half-open trial and
  the provider answers with a payload that does not parse, the caller gets an error instead
  of the row.\<close>

theorem malformed_probe_loses_row:
  assumes "pg_content (cu_store cu) (cf_provider spec, cf_key spec) = Some (v, t, till)"
    and "\<not> past (clk 1) till" and "cf_parse spec v = Parsed x" and "\<not> cf_refresh spec"
    and "env = (calm_env (Inr w))\<lparr>env_probeWanted := True\<rparr>" and "cf_parse spec w = Malformed_payload"
  shows "fst (cf_fetch (pg_ops bytes_of) after clk env None spec cu) = Inl Malformed_error"
proof -
  obtain s where s: "cf_lookup (pg.ops bytes_of) clk env spec cu =
      (Need_fill None (Some v), cu\<lparr>cu_store := s\<rparr>)"
    using pg.lookup_row [where clk = clk, OF assms(1,4), of env bytes_of] assms(2,3,5)
    by (auto simp: Let_def)
  have "env_load env = Inr w" using assms(5) by simp
  with assms(6) show ?thesis by (simp add: pg_ops_eq cf_fetch_def s Let_def cf_fill_def cf_conclude_def)
qed

theorem malformed_probe_loses_row_witness:
  "fst (cf_fetch (pg_ops (\<lambda>_. 1)) (\<lambda>_ s. s) (\<lambda>_. 5)
     ((calm_env (Inr 77 :: unit + nat))\<lparr>env_probeWanted := True\<rparr>) None demo_cf (demo_cu 3)) =
   Inl Malformed_error"
  by (rule malformed_probe_loses_row [where v = 3 and x = 103 and till = "Some 60000" and t = 0 and w = 77])
    (simp_all add: pg_content_def past_def)

text \<open>The hit rate is a rate over lookups: a fetch counts exactly one lookup of its provider,
  whichever way it ends, except when the store or the parser fails before a decision, and
  none of any other provider.\<close>

theorem fetch_counts_one_lookup:
  "lookups q (snd (cf_fetch ops after clk env joined spec cu)) = lookups q cu +
     (case fst (cf_lookup ops clk env spec cu) of
        Rejected _ \<Rightarrow> 0 | _ \<Rightarrow> if q = cf_provider spec then 1 else 0)"
  using lookups_lookup [of q ops clk env spec cu]
  by (auto simp: cf_fetch_def Let_def split_beta split: lookup.splits option.split)

end
