(* ===== verification/Name_Keys.thy ===== *)
theory Name_Keys
  imports Pf_Prelude Complex_Main
begin

text \<open>
  The identity of names: \<^verbatim>\<open>packages/discovery/src/identity.ts\<close>, its source of truth
  \<^verbatim>\<open>packages/upstream/src/normalize.ts\<close> and the MusicBrainz key of
  \<^verbatim>\<open>packages/upstream/src/musicbrainz/canonical-key.ts\<close>. A text is a list of code points.
  What JavaScript takes from the Unicode tables (lower case, NFKD, the categories letter,
  number and mark, white space) is the record \<open>unicode\<close>, an argument of every function.

  The regular expressions are written as the functions they denote. That is possible
  without a matcher because each is deterministic up to its end: no alternative of the noise
  words contains a bracket, a space run can only be taken whole before a character that is
  not a space, and matching is leftmost.
\<close>

type_synonym utext = "nat list"

record unicode =
  uc_lower :: "utext \<Rightarrow> utext"
  uc_nfkd :: "utext \<Rightarrow> utext"
  uc_letter :: "nat \<Rightarrow> bool"
  uc_number :: "nat \<Rightarrow> bool"
  uc_mark :: "nat \<Rightarrow> bool"
  uc_space :: "nat \<Rightarrow> bool"

abbreviation lit :: "string \<Rightarrow> utext" where
  "lit s \<equiv> map of_char s"

definition trim :: "unicode \<Rightarrow> utext \<Rightarrow> utext" where
  "trim u s = rev (dropWhile (uc_space u) (rev (dropWhile (uc_space u) s)))"

subsection \<open>The crosswalk key\<close>

definition stripDiacritics :: "unicode \<Rightarrow> utext \<Rightarrow> utext" where
  "stripDiacritics u s = filter (\<lambda>c. \<not> uc_mark u c) (uc_nfkd u s)"

text \<open>\<open>s.replace(/\s*c\s*/g, " and ")\<close>; \<open>ws\<close> is the run of spaces just passed.\<close>

fun conj_from :: "unicode \<Rightarrow> nat \<Rightarrow> utext \<Rightarrow> bool \<Rightarrow> utext \<Rightarrow> utext" where
  "conj_from u c ws after [] = ws"
| "conj_from u c ws after (x # xs) =
     (if x = c then lit '' and '' @ conj_from u c [] True xs
      else if uc_space u x then conj_from u c (if after then [] else ws @ [x]) after xs
      else ws @ x # conj_from u c [] False xs)"

definition CONJUNCTIONS :: "utext" where
  "CONJUNCTIONS = lit ''&+''"

definition conjunctions :: "unicode \<Rightarrow> utext \<Rightarrow> utext" where
  "conjunctions u s = foldl (\<lambda>s c. conj_from u c [] False s) s CONJUNCTIONS"

text \<open>\<open>replace(/[^\p{L}\p{N}\s]+/gu, " ")\<close> and \<open>replace(/\s+/g, " ")\<close>: every maximal run of the
  characters becomes one space.\<close>

fun squash :: "(nat \<Rightarrow> bool) \<Rightarrow> bool \<Rightarrow> utext \<Rightarrow> utext" where
  "squash P inside [] = []"
| "squash P inside (x # xs) =
     (if P x then (if inside then squash P True xs else 32 # squash P True xs)
      else x # squash P False xs)"

definition is_word_char :: "unicode \<Rightarrow> nat \<Rightarrow> bool" where
  "is_word_char u c \<longleftrightarrow> uc_letter u c \<or> uc_number u c"

definition normalizeKey :: "unicode \<Rightarrow> utext \<Rightarrow> utext" where
  "normalizeKey u input =
     trim u (squash (uc_space u) False
       (squash (\<lambda>c. \<not> (is_word_char u c \<or> uc_space u c)) False
         (conjunctions u (stripDiacritics u (uc_lower u (trim u input))))))"

subsection \<open>Noise in titles\<close>

text \<open>The case folding of a regular expression with the flag i, on ASCII letters.\<close>

definition fold_case :: "nat \<Rightarrow> nat" where
  "fold_case c = (if 65 \<le> c \<and> c \<le> 90 then c + 32 else c)"

fun after_word :: "utext \<Rightarrow> utext \<Rightarrow> utext option" where
  "after_word [] s = Some s"
| "after_word (w # ws) [] = None"
| "after_word (w # ws) (x # xs) = (if fold_case x = w then after_word ws xs else None)"

definition is_ascii_digit :: "nat \<Rightarrow> bool" where
  "is_ascii_digit c \<longleftrightarrow> 48 \<le> c \<and> c \<le> 57"

text \<open>\<open>\d{4}\s+\<close>.\<close>

definition after_year :: "unicode \<Rightarrow> utext \<Rightarrow> utext option" where
  "after_year u s =
     (if 4 < length s \<and> list_all is_ascii_digit (take 4 s) \<and> uc_space u (s ! 4)
      then Some (dropWhile (uc_space u) (drop 4 s)) else None)"

definition BRACKET_NOISE :: "utext list" where
  "BRACKET_NOISE = map lit [''remaster'', ''re-master'', ''live'', ''mono'', ''stereo'', ''deluxe'',
     ''bonus track'', ''radio edit'', ''album version'', ''single version'', ''explicit'', ''clean'']"

text \<open>Some alternative matches a prefix; the optional endings do not matter before \<open>[^)\]]*\<close>.\<close>

definition noise_prefix :: "unicode \<Rightarrow> utext \<Rightarrow> bool" where
  "noise_prefix u s \<longleftrightarrow>
     (\<exists>w \<in> set BRACKET_NOISE. after_word w s \<noteq> None) \<or>
     (case after_year u s of None \<Rightarrow> False | Some r \<Rightarrow> after_word (lit ''remaster'') r \<noteq> None)"

definition is_opener :: "nat \<Rightarrow> bool" where
  "is_opener c \<longleftrightarrow> c \<in> set (lit ''(['')"

definition is_closer :: "nat \<Rightarrow> bool" where
  "is_closer c \<longleftrightarrow> c \<in> set (lit '')]'')"

text \<open>What follows a match of \<open>TITLE_NOISE\<close> whose bracket has just been passed.\<close>

definition after_noise :: "unicode \<Rightarrow> utext \<Rightarrow> utext option" where
  "after_noise u s =
     (let body = dropWhile (uc_space u) s; rest = dropWhile (\<lambda>c. \<not> is_closer c) body
      in if noise_prefix u body \<and> rest \<noteq> [] then Some (dropWhile (uc_space u) (tl rest)) else None)"

lemma after_noise_shorter: "after_noise u s = Some r \<Longrightarrow> length r \<le> length s"
proof -
  assume "after_noise u s = Some r"
  then have "r = dropWhile (uc_space u)
      (tl (dropWhile (\<lambda>c. \<not> is_closer c) (dropWhile (uc_space u) s)))"
    by (auto simp: after_noise_def Let_def split: if_splits)
  then have "length r \<le> length (tl (dropWhile (\<lambda>c. \<not> is_closer c) (dropWhile (uc_space u) s)))"
    by (simp only: length_dropWhile_le)
  also have "\<dots> \<le> length (dropWhile (\<lambda>c. \<not> is_closer c) (dropWhile (uc_space u) s))" by simp
  also have "\<dots> \<le> length (dropWhile (uc_space u) s)" by (rule length_dropWhile_le)
  also have "\<dots> \<le> length s" by (rule length_dropWhile_le)
  finally show ?thesis .
qed

text \<open>\<open>replace(TITLE_NOISE, " ")\<close>; \<open>ws\<close> is the run of spaces just passed.\<close>

function strip_noise :: "unicode \<Rightarrow> utext \<Rightarrow> utext \<Rightarrow> utext" where
  "strip_noise u ws [] = ws"
| "strip_noise u ws (x # xs) =
     (if uc_space u x then strip_noise u (ws @ [x]) xs
      else if is_opener x then
        (case after_noise u xs of
           Some r \<Rightarrow> 32 # strip_noise u [] r
         | None \<Rightarrow> ws @ x # strip_noise u [] xs)
      else ws @ x # strip_noise u [] xs)"
  by pat_completeness auto
termination
  by (relation "measure (\<lambda>(u, ws, s). length s)") (auto dest: after_noise_shorter)

definition DASH_NOISE :: "utext list" where
  "DASH_NOISE = map lit [''remaster'', ''remastered'', ''re-master'', ''re-mastered'', ''live'', ''mono'',
     ''stereo'', ''radio edit'', ''single version'', ''album version'']"

definition is_ascii_word :: "nat \<Rightarrow> bool" where
  "is_ascii_word c \<longleftrightarrow> is_ascii_digit c \<or> 65 \<le> c \<and> c \<le> 90 \<or> 97 \<le> c \<and> c \<le> 122 \<or> c = 95"

text \<open>A noise word up to a word boundary, with no line end after it.\<close>

definition dash_word :: "utext \<Rightarrow> bool" where
  "dash_word s \<longleftrightarrow>
     (\<exists>w \<in> set DASH_NOISE. case after_word w s of
        None \<Rightarrow> False
      | Some r \<Rightarrow> (r = [] \<or> \<not> is_ascii_word (hd r)) \<and> list_all (\<lambda>c. c \<notin> {10, 13, 8232, 8233}) r)"

definition dash_tail :: "unicode \<Rightarrow> utext \<Rightarrow> bool" where
  "dash_tail u s \<longleftrightarrow> s \<noteq> [] \<and> uc_space u (hd s) \<and>
     (let body = dropWhile (uc_space u) s
      in dash_word body \<or> (case after_year u body of None \<Rightarrow> False | Some r \<Rightarrow> dash_word r))"

text \<open>\<open>replace(TITLE_DASH_NOISE, "")\<close>: the first match, which reaches to the end.\<close>

fun strip_dash :: "unicode \<Rightarrow> utext \<Rightarrow> utext \<Rightarrow> utext" where
  "strip_dash u ws [] = ws"
| "strip_dash u ws (x # xs) =
     (if uc_space u x then strip_dash u (ws @ [x]) xs
      else if x = 45 \<and> ws \<noteq> [] \<and> dash_tail u xs then []
      else ws @ x # strip_dash u [] xs)"

definition without_noise :: "unicode \<Rightarrow> utext \<Rightarrow> utext" where
  "without_noise u title = strip_dash u [] (strip_noise u [] title)"

definition normalizeTitle :: "unicode \<Rightarrow> utext \<Rightarrow> utext" where
  "normalizeTitle u input = normalizeKey u (without_noise u input)"

subsection \<open>Identities\<close>

definition KEY_SEP :: nat where
  "KEY_SEP = 31"

definition trackIdentity :: "unicode \<Rightarrow> utext \<Rightarrow> utext \<Rightarrow> utext" where
  "trackIdentity u artistName title =
     (let artist = normalizeKey u artistName; track = normalizeTitle u title
      in if artist = [] \<and> track = [] then [] else artist @ KEY_SEP # track)"

definition artistIdentity :: "unicode \<Rightarrow> utext \<Rightarrow> utext" where
  "artistIdentity u artistName = normalizeKey u artistName"

subsection \<open>Trigrams\<close>

text \<open>\<open>split(/\s+/)\<close> without the empty pieces.\<close>

fun words_from :: "unicode \<Rightarrow> utext \<Rightarrow> utext \<Rightarrow> utext list" where
  "words_from u w [] = (if w = [] then [] else [w])"
| "words_from u w (x # xs) =
     (if uc_space u x then (if w = [] then [] else [w]) @ words_from u [] xs
      else words_from u (w @ [x]) xs)"

fun slices3 :: "utext \<Rightarrow> utext list" where
  "slices3 (a # b # c # s) = [a, b, c] # slices3 (b # c # s)"
| "slices3 _ = []"

definition trigrams :: "unicode \<Rightarrow> utext \<Rightarrow> utext list" where
  "trigrams u input =
     remdups (concat (map (\<lambda>w. slices3 ([32, 32] @ w @ [32])) (words_from u [] input)))"

definition trigramSimilarity :: "unicode \<Rightarrow> utext \<Rightarrow> utext \<Rightarrow> rat" where
  "trigramSimilarity u a b =
     (if a = b then (if a = [] then 0 else 1)
      else let ta = trigrams u a; tb = trigrams u b
           in if ta = [] \<or> tb = [] then 0
              else let shared = length (filter (\<lambda>t. t \<in> set tb) ta);
                       union = length ta + length tb - shared
                   in if union = 0 then 0 else of_nat shared / of_nat union)"

subsection \<open>The MusicBrainz canonical key\<close>

definition ATOMIC_LATIN :: "(nat \<times> utext) list" where
  "ATOMIC_LATIN = [(248, lit ''o''), (230, lit ''ae''), (339, lit ''oe''), (223, lit ''ss''), (273, lit ''d''),
     (240, lit ''d''), (254, lit ''th''), (322, lit ''l''), (295, lit ''h''), (305, lit ''i''),
     (331, lit ''ng''), (312, lit ''k''), (359, lit ''t''), (181, lit ''u''), (383, lit ''s'')]"

definition atomic_latin :: "nat \<Rightarrow> utext" where
  "atomic_latin c = orelse (map_of ATOMIC_LATIN c) [c]"

definition canonicalFold :: "unicode \<Rightarrow> utext \<Rightarrow> utext" where
  "canonicalFold u input =
     (let stripped = filter (\<lambda>c. is_word_char u c \<or> uc_mark u c \<or> c = 95) input;
          folded = stripDiacritics u (uc_lower u stripped)
      in concat (map atomic_latin folded))"

definition canonicalKey :: "unicode \<Rightarrow> utext \<Rightarrow> utext \<Rightarrow> utext" where
  "canonicalKey u artistCredit recording = canonicalFold u (artistCredit @ recording)"

definition canonicalKeyVariants :: "unicode \<Rightarrow> utext \<Rightarrow> utext \<Rightarrow> utext list" where
  "canonicalKeyVariants u artistCredit title =
     (let raw = canonicalKey u artistCredit title;
          stripped = canonicalKey u artistCredit (without_noise u title)
      in (if raw \<noteq> [] then [raw] else []) @
         (if stripped \<noteq> [] \<and> stripped \<noteq> raw then [stripped] else []))"

definition canonicalCoverage :: "utext \<Rightarrow> bool" where
  "canonicalCoverage key \<longleftrightarrow> key \<noteq> [] \<and> list_all (\<lambda>c. 32 \<le> c \<and> c \<le> 126) key"

subsection \<open>A fragment of the Unicode tables\<close>

text \<open>The Latin-1 letters, the combining diacritics, and the trade mark sign.\<close>

definition LATIN_DECOMPOSITION :: "(nat \<times> utext) list" where
  "LATIN_DECOMPOSITION = [(160, [32]), (170, lit ''a''), (178, lit ''2''), (179, lit ''3''), (185, lit ''1''),
     (186, lit ''o''), (224, [97, 768]), (225, [97, 769]), (226, [97, 770]), (227, [97, 771]),
     (228, [97, 776]), (229, [97, 778]), (231, [99, 807]), (232, [101, 768]), (233, [101, 769]),
     (234, [101, 770]), (235, [101, 776]), (236, [105, 768]), (237, [105, 769]), (238, [105, 770]),
     (239, [105, 776]), (241, [110, 771]), (242, [111, 768]), (243, [111, 769]), (244, [111, 770]),
     (245, [111, 771]), (246, [111, 776]), (249, [117, 768]), (250, [117, 769]), (251, [117, 770]),
     (252, [117, 776]), (253, [121, 769]), (255, [121, 776]), (8482, lit ''TM'')]"

definition latin :: unicode where
  "latin = \<lparr>uc_lower = map (\<lambda>c. if 65 \<le> c \<and> c \<le> 90 \<or> 192 \<le> c \<and> c \<le> 222 \<and> c \<noteq> 215 then c + 32 else c),
     uc_nfkd = (\<lambda>s. concat (map (\<lambda>c. orelse (map_of LATIN_DECOMPOSITION c) [c]) s)),
     uc_letter = (\<lambda>c. 65 \<le> c \<and> c \<le> 90 \<or> 97 \<le> c \<and> c \<le> 122 \<or> c \<in> {170, 181, 186} \<or>
       192 \<le> c \<and> c \<le> 591 \<and> c \<notin> {215, 247}),
     uc_number = (\<lambda>c. 48 \<le> c \<and> c \<le> 57 \<or> c \<in> {178, 179, 185, 188, 189, 190}),
     uc_mark = (\<lambda>c. 768 \<le> c \<and> c \<le> 879),
     uc_space = (\<lambda>c. 9 \<le> c \<and> c \<le> 13 \<or> c \<in> {32, 160, 8232, 8233, 65279})\<rparr>"

text \<open>What the theorems need of the tables: no character is both white space and part of a word,
  the space is white space, the ASCII characters have their usual category.\<close>

definition tables_ok :: "unicode \<Rightarrow> bool" where
  "tables_ok u \<longleftrightarrow> (\<forall>c. \<not> (is_word_char u c \<and> uc_space u c)) \<and> uc_space u 32 \<and>
     \<not> is_word_char u KEY_SEP \<and> \<not> uc_space u KEY_SEP \<and>
     (\<forall>c \<in> set (lit ''&+()[]-''). \<not> is_word_char u c \<and> \<not> uc_space u c)"

lemma latin_ok: "tables_ok latin"
  by (auto simp: tables_ok_def latin_def is_word_char_def KEY_SEP_def)

subsection \<open>The shape of a key\<close>

definition no_gap :: "utext \<Rightarrow> bool" where
  "no_gap s \<longleftrightarrow> successively (\<lambda>a b. a = 32 \<longrightarrow> b \<noteq> 32) s"

definition tidy :: "unicode \<Rightarrow> utext \<Rightarrow> bool" where
  "tidy u s \<longleftrightarrow> list_all (\<lambda>c. is_word_char u c \<or> c = 32) s \<and> no_gap s \<and>
     (s \<noteq> [] \<longrightarrow> is_word_char u (hd s) \<and> is_word_char u (last s))"

lemma squash_chars: "set (squash P b s) \<subseteq> {c \<in> set s. \<not> P c} \<union> {32}"
  by (induction P b s rule: squash.induct) auto

lemma squash_no_gap:
  "P 32 \<Longrightarrow> no_gap (squash P b s) \<and> (b \<longrightarrow> squash P b s \<noteq> [] \<longrightarrow> hd (squash P b s) \<noteq> 32)"
proof (induction P b s rule: squash.induct)
  case (2 P b x xs)
  have head: "squash P False xs \<noteq> [] \<Longrightarrow> True" by simp
  show ?case
    using 2 by (auto simp: no_gap_def successively_Cons)
qed (simp add: no_gap_def)

lemma no_gap_dropWhile: "no_gap s \<Longrightarrow> no_gap (dropWhile P s)"
  unfolding no_gap_def by (induction s) (auto simp: successively_Cons)

lemma no_gap_rev: "no_gap (rev s) = no_gap s"
proof -
  have e: "(\<lambda>(a :: nat) (b :: nat). b = 32 \<longrightarrow> a \<noteq> 32) = (\<lambda>a b. a = 32 \<longrightarrow> b \<noteq> 32)" by auto
  show ?thesis unfolding no_gap_def successively_rev by (simp only: e)
qed

lemma tidy_trim:
  assumes "tables_ok u" "list_all (\<lambda>c. is_word_char u c \<or> c = 32) s" "no_gap s"
  shows "tidy u (trim u s)"
proof -
  let ?a = "dropWhile (uc_space u) s"
  let ?r = "dropWhile (uc_space u) (rev ?a)"
  have sub: "set ?r \<subseteq> set s" by (auto dest!: set_dropWhileD)
  have good: "x \<in> set s \<Longrightarrow> \<not> uc_space u x \<Longrightarrow> is_word_char u x" for x
    using assms(1,2) by (auto simp: list_all_iff tables_ok_def)
  have lst: "is_word_char u (hd ?r)" if "?r \<noteq> []"
    using that good hd_dropWhile [of "uc_space u" "rev ?a"] sub hd_in_set [OF that] by blast
  have fst: "is_word_char u (last ?r)" if "?r \<noteq> []"
  proof -
    have ne: "?a \<noteq> []" using that by (metis dropWhile.simps(1) rev.simps(1))
    have "last ?r = last (rev ?a)" using that by (rule last_dropWhile)
    also have "\<dots> = hd ?a" using ne by (simp add: last_rev)
    finally have "last ?r = hd ?a" .
    moreover have "\<not> uc_space u (hd ?a)" using ne hd_dropWhile by blast
    moreover have "hd ?a \<in> set s" using ne by (meson hd_in_set set_dropWhileD)
    ultimately show ?thesis using good by simp
  qed
  have "no_gap (rev ?r)"
    using assms(3) by (simp add: no_gap_rev no_gap_dropWhile)
  moreover have "list_all (\<lambda>c. is_word_char u c \<or> c = 32) (rev ?r)"
    using assms(2) sub by (auto simp: list_all_iff)
  ultimately show ?thesis
    using fst lst by (auto simp: tidy_def trim_def hd_rev last_rev)
qed

lemma normalizeKey_tidy:
  assumes "tables_ok u"
  shows "tidy u (normalizeKey u s)"
  unfolding normalizeKey_def
proof (rule tidy_trim [OF assms])
  let ?c = "conjunctions u (stripDiacritics u (uc_lower u (trim u s)))"
  let ?p = "squash (\<lambda>c. \<not> (is_word_char u c \<or> uc_space u c)) False ?c"
  have "set ?p \<subseteq> {c. is_word_char u c \<or> uc_space u c}"
    using squash_chars [of "\<lambda>c. \<not> (is_word_char u c \<or> uc_space u c)" False ?c] assms
    by (auto simp: tables_ok_def)
  then show "list_all (\<lambda>c. is_word_char u c \<or> c = 32) (squash (uc_space u) False ?p)"
    using squash_chars [of "uc_space u" False ?p] by (fastforce simp: list_all_iff)
  show "no_gap (squash (uc_space u) False ?p)"
    using squash_no_gap [of "uc_space u" False ?p] assms by (simp add: tables_ok_def)
qed

lemma tidy_no_sep: "tables_ok u \<Longrightarrow> tidy u s \<Longrightarrow> KEY_SEP \<notin> set s"
  by (auto simp: tidy_def tables_ok_def list_all_iff KEY_SEP_def)

subsection \<open>Titles with and without noise\<close>

abbreviation plain :: "unicode \<Rightarrow> utext \<Rightarrow> bool" where
  "plain u s \<equiv> list_all (\<lambda>c. is_word_char u c \<or> uc_space u c) s"

lemma plain_no_bracket:
  "tables_ok u \<Longrightarrow> is_word_char u c \<or> uc_space u c \<Longrightarrow> \<not> is_opener c \<and> c \<noteq> 45"
  by (auto simp: tables_ok_def is_opener_def)

lemma strip_noise_plain: "tables_ok u \<Longrightarrow> plain u s \<Longrightarrow> strip_noise u ws s = ws @ s"
  by (induction u ws s rule: strip_noise.induct) (auto simp: plain_no_bracket)

lemma strip_dash_plain: "45 \<notin> set s \<Longrightarrow> strip_dash u ws s = ws @ s"
  by (induction u ws s rule: strip_dash.induct) auto

lemma strip_noise_bracket:
  "tables_ok u \<Longrightarrow> plain u s \<Longrightarrow> is_opener x \<Longrightarrow> \<not> uc_space u x \<Longrightarrow> after_noise u r = Some r' \<Longrightarrow>
   list_all (uc_space u) ws \<Longrightarrow>
   \<exists>b w. ws @ s = b @ w \<and> list_all (uc_space u) w \<and>
     strip_noise u ws (s @ x # r) = b @ 32 # strip_noise u [] r'"
proof (induction s arbitrary: ws)
  case Nil
  then show ?case by auto
next
  case (Cons c s)
  show ?case
  proof (cases "uc_space u c")
    case True
    with Cons.IH [of "ws @ [c]"] Cons.prems show ?thesis by auto
  next
    case False
    from Cons.IH [of "[]"] Cons.prems obtain b w where
      "s = b @ w" "list_all (uc_space u) w" "strip_noise u [] (s @ x # r) = b @ 32 # strip_noise u [] r'"
      by auto
    with False Cons.prems show ?thesis
      by (intro exI [of _ "ws @ c # b"] exI [of _ w]) (simp add: plain_no_bracket)
  qed
qed

lemma trim_spaces_end: "list_all (uc_space u) w \<Longrightarrow> trim u (s @ w) = trim u s"
proof -
  assume w: "list_all (uc_space u) w"
  show ?thesis
  proof (cases "\<forall>c \<in> set s. uc_space u c")
    case True
    with w have "\<forall>c \<in> set (s @ w). uc_space u c" by (auto simp: list_all_iff)
    with True have "dropWhile (uc_space u) (s @ w) = dropWhile (uc_space u) s"
      by (simp only: iffD2 [OF dropWhile_eq_Nil_conv])
    then show ?thesis by (simp only: trim_def)
  next
    case False
    then have "dropWhile (uc_space u) (s @ w) = dropWhile (uc_space u) s @ w"
      by (induction s) auto
    then show ?thesis using w dropWhile_spaces_end [of w "uc_space u"] by (simp add: trim_def list_all_iff)
  qed
qed

subsection \<open>Properties\<close>

text \<open>A key is what its comment says about punctuation: letters and digits in words separated by
  single spaces, with no space at either end.\<close>

theorem key_is_tidy:
  assumes "tables_ok u"
  shows "tidy u (normalizeKey u s) \<and> tidy u (normalizeTitle u s)"
  using normalizeKey_tidy [OF assms] by (simp add: normalizeTitle_def)

theorem key_is_tidy_witness:
  "tidy latin (normalizeKey latin (lit ''  AC/DC  &Friends!''))"
  using key_is_tidy [OF latin_ok] by blast

text \<open>Claim C8. The identity of a track is its pair of keys and nothing else: the separator occurs in neither
  half, so two tracks share a non-empty identity exactly when their artist keys and their
  title keys agree.\<close>

theorem track_identity_injective:
  assumes "tables_ok u" and "trackIdentity u a t \<noteq> []"
  shows "trackIdentity u a t = trackIdentity u b s \<longleftrightarrow>
    normalizeKey u a = normalizeKey u b \<and> normalizeTitle u t = normalizeTitle u s"
proof -
  have split: "x @ KEY_SEP # y = x' @ KEY_SEP # y' \<longleftrightarrow> x = x' \<and> y = y'"
    if "KEY_SEP \<notin> set x" "KEY_SEP \<notin> set x'" for x x' y y'
  proof
    assume e: "x @ KEY_SEP # y = x' @ KEY_SEP # y'"
    have "takeWhile ((\<noteq>) KEY_SEP) (z @ KEY_SEP # v) = z" if "KEY_SEP \<notin> set z" for z v
      using that by (subst takeWhile_append2) auto
    from this [OF that(1), of y] this [OF that(2), of y'] e have "x = x'" by simp
    with e show "x = x' \<and> y = y'" by simp
  qed simp
  have "KEY_SEP \<notin> set (normalizeKey u c)" for c
    using normalizeKey_tidy [OF assms(1)] tidy_no_sep [OF assms(1)] by blast
  with assms(2) split show ?thesis
    by (auto simp: trackIdentity_def Let_def)
qed

theorem track_identity_injective_witness:
  "trackIdentity latin (lit ''a b'') (lit ''c'') \<noteq> trackIdentity latin (lit ''a'') (lit ''b c'')"
proof -
  have k: "normalizeKey latin (lit ''a b'') = lit ''a b''" "normalizeKey latin (lit ''a'') = lit ''a''"
    by (simp_all add: normalizeKey_def latin_def trim_def stripDiacritics_def conjunctions_def
        CONJUNCTIONS_def is_word_char_def LATIN_DECOMPOSITION_def)
  then have "trackIdentity latin (lit ''a b'') (lit ''c'') \<noteq> []"
    by (simp add: trackIdentity_def Let_def)
  from track_identity_injective [OF latin_ok this, of "lit ''a''" "lit ''b c''"] k show ?thesis by simp
qed

text \<open>A bracketed noise word changes no title key: whatever plain title it follows, and whatever
  stands between the word and the closing bracket, the key is that of the bare title. Since
  the crosswalk key of a recording is made with this function, a live take and the studio
  take share one row, against the comment that the crosswalk must not merge them.\<close>

theorem bracket_noise_ignored:
  assumes "tables_ok u" and "plain u b" and "n \<noteq> []" and "\<not> uc_space u (hd n)"
    and "noise_prefix u (n @ [41])" and "list_all (\<lambda>c. \<not> is_closer c) n"
  shows "normalizeTitle u (b @ [32, 40] @ n @ [41]) = normalizeTitle u b"
proof -
  have rest: "dropWhile (\<lambda>c. \<not> is_closer c) (n @ [41]) = [41]"
    using assms(6) by (subst dropWhile_append2) (auto simp: list_all_iff is_closer_def)
  have "dropWhile (uc_space u) (n @ [41]) = n @ [41]" using assms(3,4) by (cases n) auto
  with rest assms(5) have an: "after_noise u (n @ [41]) = Some []" by (simp add: after_noise_def is_closer_def)
  have "plain u (b @ [32])" "is_opener 40" "\<not> uc_space u 40"
    using assms(1,2) by (simp_all add: tables_ok_def is_opener_def)
  from strip_noise_bracket [OF assms(1) this an, of "[]"] obtain c w where
    cw: "b @ [32] = c @ w" "list_all (uc_space u) w" "strip_noise u [] (b @ [32, 40] @ n @ [41]) = c @ [32]"
    by auto
  have "plain u (c @ w)" using assms(1,2) by (simp add: tables_ok_def flip: cw(1))
  then have "plain u c" by simp
  then have dash: "45 \<notin> set (c @ [32])" "45 \<notin> set b"
    using assms(1,2) plain_no_bracket [OF assms(1)] by (auto simp: list_all_iff)
  have "trim u (c @ [32]) = trim u c" "trim u (c @ w) = trim u c" "trim u (b @ [32]) = trim u b"
    using cw(2) assms(1) by (simp_all add: trim_spaces_end tables_ok_def)
  then have "trim u (c @ [32]) = trim u b" using cw(1) by simp
  then show ?thesis
    using cw(3) dash strip_noise_plain [OF assms(1,2), of "[]"]
    by (simp add: normalizeTitle_def without_noise_def strip_dash_plain normalizeKey_def)
qed

theorem bracket_noise_ignored_witness:
  "normalizeTitle latin (lit ''Wish You Were Here (Live at Knebworth)'') =
   normalizeTitle latin (lit ''Wish You Were Here'')"
proof -
  have "noise_prefix latin (lit ''Live at Knebworth'' @ [41])"
    by (simp add: noise_prefix_def BRACKET_NOISE_def fold_case_def)
  with bracket_noise_ignored [OF latin_ok, of "lit ''Wish You Were Here''" "lit ''Live at Knebworth''"]
  show ?thesis by (simp add: latin_def is_word_char_def is_closer_def)
qed

text \<open>Keys are not always in lower case, and not stable: lowercasing comes before the
  compatibility decomposition, which writes the trade mark sign as two capitals. So a name
  with it has a key with capitals, which is not the key of the same name spelled out, and
  whose own key differs.\<close>

theorem key_not_lowercased:
  "normalizeKey latin (lit ''Foo'' @ [8482]) = lit ''fooTM'' \<and>
   normalizeKey latin (lit ''FooTM'') = lit ''footm'' \<and>
   normalizeKey latin (normalizeKey latin (lit ''Foo'' @ [8482])) = lit ''footm''"
proof -
  have a: "normalizeKey latin (lit ''Foo'' @ [8482]) = lit ''fooTM''"
    "normalizeKey latin (lit ''FooTM'') = lit ''footm''" "normalizeKey latin (lit ''fooTM'') = lit ''footm''"
    by (simp_all add: normalizeKey_def latin_def trim_def stripDiacritics_def conjunctions_def
        CONJUNCTIONS_def is_word_char_def LATIN_DECOMPOSITION_def)
  then show ?thesis by simp
qed

end
