(* ===== verification/Upstream_Errors.thy ===== *)
theory Upstream_Errors
  imports Kill_Switch
begin

text \<open>
  The one error type of the upstream clients, \<^verbatim>\<open>packages/upstream/src/errors.ts\<close>. The
  message and the cause carry no decision and are left out.
\<close>

datatype upstream_kind = Timeout | Network | Http | Rate_limited | Server_error | Malformed
  | Circuit_open | Quota_exhausted | Disabled | Queue_overflow

record upstream_error =
  ue_provider :: provider
  ue_kind :: upstream_kind
  ue_status :: "int option"
  ue_retryAfterMs :: "int option"

definition RETRYABLE_KINDS :: "upstream_kind list" where
  "RETRYABLE_KINDS = [Timeout, Network, Rate_limited, Server_error]"

definition ue_retryable :: "upstream_error \<Rightarrow> bool" where
  "ue_retryable e \<longleftrightarrow> ue_kind e \<in> set RETRYABLE_KINDS"

definition ue_countsAgainstProvider :: "upstream_error \<Rightarrow> bool" where
  "ue_countsAgainstProvider e = ue_retryable e"

definition ue_isDegradation :: "upstream_error \<Rightarrow> bool" where
  "ue_isDegradation e \<longleftrightarrow> ue_kind e = Circuit_open \<or> ue_kind e = Disabled \<or>
     ue_kind e = Quota_exhausted \<or> ue_kind e = Queue_overflow"

text \<open>\<open>new UpstreamError({provider, kind})\<close> with neither a status nor a hint.\<close>

abbreviation plain_error :: "provider \<Rightarrow> upstream_kind \<Rightarrow> upstream_error" where
  "plain_error p k \<equiv> \<lparr>ue_provider = p, ue_kind = k, ue_status = None, ue_retryAfterMs = None\<rparr>"

text \<open>Four kinds: a call that was made and may be tried again, one that must not be, a local
  refusal, and an answer that was not understood.\<close>

lemma kinds_partition:
  "ue_retryable e \<noteq> (ue_isDegradation e \<or> ue_kind e = Http \<or> ue_kind e = Malformed)"
  "\<not> (ue_retryable e \<and> ue_isDegradation e)"
  by (cases "ue_kind e"; simp add: ue_retryable_def ue_isDegradation_def RETRYABLE_KINDS_def)+

end
