(* ===== verification/Canonical_Dump.thy ===== *)
theory Canonical_Dump
  imports Name_Keys Upstream_Errors
begin

text \<open>
  The local copy of the MusicBrainz canonical dump: the store of
  \<^verbatim>\<open>packages/upstream/src/musicbrainz/canonical-store.ts\<close>, the client of \<^verbatim>\<open>local-first.ts\<close> that answers
  searches from it, and the gate of \<^verbatim>\<open>apps/bff/src/services/artist-lookup-gate.ts\<close> in front of the lookups of
  similar artists. The searches over the network are a parameter, and so is the cast of a text to a UUID.
\<close>

subsection \<open>Rows\<close>

text \<open>A row of \<open>mb.canonical\<close>, and one of \<open>mb.load_state\<close> with status \<open>ok\<close>.\<close>

record mb_row =
  mb_recordingMbid :: utext
  mb_recordingName :: utext
  mb_releaseMbid :: utext
  mb_releaseName :: utext
  mb_artistMbids :: utext
  mb_artistCreditName :: utext
  mb_combinedLookup :: utext
  mb_score :: int

record canonical_load =
  ml_dumpId :: utext
  ml_sha256 :: utext
  ml_finishedAt :: time
  ml_rowsLoaded :: int

record mb_database =
  md_canonical :: "mb_row list"
  md_loads :: "canonical_load list"

record canonical_row =
  cw_recordingMbid :: utext
  cw_recordingName :: utext
  cw_releaseMbid :: utext
  cw_releaseName :: utext
  cw_artistMbid :: utext
  cw_artistMbids :: "utext list"
  cw_artistCreditName :: utext
  cw_score :: int

text \<open>\<open>split(",")\<close>; the argument is the piece just passed.\<close>

fun split_commas :: "utext \<Rightarrow> utext \<Rightarrow> utext list" where
  "split_commas w [] = [w]"
| "split_commas w (x # xs) = (if x = 44 then w # split_commas [] xs else split_commas (w @ [x]) xs)"

definition toRow :: "unicode \<Rightarrow> mb_row \<Rightarrow> canonical_row" where
  "toRow u r =
     (let ids = filter (\<lambda>s. s \<noteq> []) (map (trim u) (split_commas [] (mb_artistMbids r)))
      in \<lparr>cw_recordingMbid = mb_recordingMbid r, cw_recordingName = mb_recordingName r, cw_releaseMbid = mb_releaseMbid r,
          cw_releaseName = mb_releaseName r, cw_artistMbid = (case ids of [] \<Rightarrow> [] | i # _ \<Rightarrow> i), cw_artistMbids = ids,
          cw_artistCreditName = mb_artistCreditName r, cw_score = mb_score r\<rparr>)"

subsection \<open>The store\<close>

text \<open>The order of bytes, which for UTF-8 is the order of the characters.\<close>

definition byte_less :: "utext \<Rightarrow> utext \<Rightarrow> bool" where
  "byte_less a b \<longleftrightarrow> ord_class.lexordp a b"

definition prefixUpperBound :: "utext \<Rightarrow> utext option" where
  "prefixUpperBound prefix =
     (if prefix = [] then None
      else if last prefix > 126 then None
      else if list_ex (\<lambda>c. c < 32 \<or> c > 126) prefix then None
      else Some (butlast prefix @ [last prefix + 1]))"

record canonical_store =
  cn_quietUntil :: time
  cn_failures :: nat

definition canonical_store_new :: canonical_store where
  "canonical_store_new = \<lparr>cn_quietUntil = 0, cn_failures = 0\<rparr>"

text \<open>One query: the clock before it, whether it succeeds, and the clock when it has failed.\<close>

record query_call =
  qc_now :: time
  qc_ok :: bool
  qc_failedNow :: time

definition store_query :: "int \<Rightarrow> query_call \<Rightarrow> 'r list \<Rightarrow> canonical_store \<Rightarrow> 'r list \<times> canonical_store" where
  "store_query backoff qc rows st =
     (if qc_now qc < cn_quietUntil st then ([], st)
      else if qc_ok qc then (rows, st\<lparr>cn_quietUntil := 0\<rparr>)
      else ([], st\<lparr>cn_failures := cn_failures st + 1, cn_quietUntil := qc_failedNow qc + backoff\<rparr>))"

definition best_rows :: "(mb_row \<Rightarrow> bool) \<Rightarrow> nat \<Rightarrow> mb_database \<Rightarrow> mb_row list" where
  "best_rows P limit db = take limit (sort_key mb_score (filter P (md_canonical db)))"

definition lookupExact ::
  "unicode \<Rightarrow> int \<Rightarrow> query_call \<Rightarrow> utext \<Rightarrow> nat \<Rightarrow> mb_database \<Rightarrow> canonical_store \<Rightarrow> canonical_row list \<times> canonical_store" where
  "lookupExact u backoff qc key limit db st =
     (if key = [] then ([], st)
      else apfst (map (toRow u)) (store_query backoff qc (best_rows (\<lambda>r. mb_combinedLookup r = key) limit db) st))"

definition key_range :: "utext \<Rightarrow> utext \<Rightarrow> utext \<Rightarrow> bool" where
  "key_range lower upper s \<longleftrightarrow> \<not> byte_less s lower \<and> byte_less s upper"

definition lookupArtistPrefix ::
  "unicode \<Rightarrow> int \<Rightarrow> query_call \<Rightarrow> utext \<Rightarrow> utext \<Rightarrow> nat \<Rightarrow> mb_database \<Rightarrow> canonical_store \<Rightarrow> canonical_row list \<times> canonical_store" where
  "lookupArtistPrefix u backoff qc artistKey upperBound limit db st =
     (if artistKey = [] \<or> upperBound = [] then ([], st)
      else apfst (map (toRow u))
        (store_query backoff qc (best_rows (\<lambda>r. key_range artistKey upperBound (mb_combinedLookup r)) limit db) st))"

text \<open>The cast of a text to a UUID is an argument; \<open>None\<close> is an error of the query.\<close>

definition lookupRecordingMbid ::
  "unicode \<Rightarrow> (utext \<Rightarrow> utext option) \<Rightarrow> int \<Rightarrow> query_call \<Rightarrow> utext \<Rightarrow> mb_database \<Rightarrow> canonical_store \<Rightarrow>
     canonical_row option \<times> canonical_store" where
  "lookupRecordingMbid u uuid backoff qc mbid db st =
     (case store_query backoff (qc\<lparr>qc_ok := qc_ok qc \<and> uuid mbid \<noteq> None\<rparr>)
             (best_rows (\<lambda>r. uuid (mb_recordingMbid r) = uuid mbid) 1 db) st of
        ([], st1) \<Rightarrow> (None, st1)
      | (r # _, st1) \<Rightarrow> (Some (toRow u r), st1))"

datatype canonical_entity = Recording | Release | Artist

definition row_names :: "(utext \<Rightarrow> utext option) \<Rightarrow> canonical_entity \<Rightarrow> utext \<Rightarrow> mb_row \<Rightarrow> bool" where
  "row_names uuid entity mbid r = (case entity of
     Recording \<Rightarrow> uuid (mb_recordingMbid r) = uuid mbid
   | Release \<Rightarrow> uuid (mb_releaseMbid r) = uuid mbid
   | Artist \<Rightarrow> uuid mbid \<in> uuid ` set (split_commas [] (mb_artistMbids r)))"

definition exists_mbid ::
  "(utext \<Rightarrow> utext option) \<Rightarrow> int \<Rightarrow> query_call \<Rightarrow> canonical_entity \<Rightarrow> utext \<Rightarrow> mb_database \<Rightarrow> canonical_store \<Rightarrow> bool \<times> canonical_store" where
  "exists_mbid uuid backoff qc entity mbid db st =
     apfst (\<lambda>rows. rows \<noteq> [])
       (store_query backoff (qc\<lparr>qc_ok := qc_ok qc \<and> uuid mbid \<noteq> None\<rparr>)
          (take 1 (filter (row_names uuid entity mbid) (md_canonical db))) st)"

text \<open>The latest of the successful loads; which one of two that finished together is left open.\<close>

definition loadState :: "int \<Rightarrow> query_call \<Rightarrow> mb_database \<Rightarrow> canonical_store \<Rightarrow> canonical_load option \<times> canonical_store" where
  "loadState backoff qc db st =
     (case store_query backoff qc (take 1 (sort_key (\<lambda>l. - ml_finishedAt l) (md_loads db))) st of
        ([], st1) \<Rightarrow> (None, st1)
      | (l # _, st1) \<Rightarrow> (Some l, st1))"

subsection \<open>The client\<close>

record mb_artist =
  ma_mbid :: utext
  ma_name :: utext
  ma_sortName :: "utext option"
  ma_country :: "utext option"
  ma_beganYear :: "int option"

record mb_recording =
  mr_mbid :: utext
  mr_title :: utext
  mr_lengthMs :: "int option"
  mr_artistMbid :: "utext option"
  mr_artistName :: utext

record local_first =
  lf_store :: canonical_store
  lf_localHits :: nat
  lf_remoteFallbacks :: nat
  lf_unmatchable :: nat

record local_options =
  lo_wired :: bool
  lo_enabled :: bool
  lo_prefixScanLimit :: nat
  lo_backoff :: int
  lo_unicode :: unicode
  lo_remoteArtist :: "utext \<Rightarrow> nat \<Rightarrow> upstream_error + (mb_artist \<times> int) list"
  lo_remoteRecording :: "utext \<Rightarrow> utext \<Rightarrow> nat \<Rightarrow> upstream_error + (mb_recording \<times> int) list"

definition lf_on :: "local_options \<Rightarrow> bool" where
  "lf_on lo \<longleftrightarrow> lo_enabled lo \<and> lo_wired lo"

definition LOCAL_SCORE :: int where
  "LOCAL_SCORE = 100"

text \<open>The loop of both searches: rows of the credit, the first of each identifier, up to the limit.\<close>

fun collect_hits :: "(canonical_row \<Rightarrow> bool) \<Rightarrow> (canonical_row \<Rightarrow> utext) \<Rightarrow> nat \<Rightarrow> utext list \<Rightarrow> canonical_row list \<Rightarrow> canonical_row list" where
  "collect_hits ok mbid limit seen [] = []"
| "collect_hits ok mbid limit seen (r # rs) =
     (if \<not> ok r then collect_hits ok mbid limit seen rs
      else if mbid r \<in> set seen then collect_hits ok mbid limit seen rs
      else r # (if limit \<le> Suc (length seen) then [] else collect_hits ok mbid limit (mbid r # seen) rs))"

definition remoteArtist :: "local_options \<Rightarrow> utext \<Rightarrow> nat \<Rightarrow> local_first \<Rightarrow> (upstream_error + (mb_artist \<times> int) list) \<times> local_first" where
  "remoteArtist lo name limit s = (lo_remoteArtist lo name limit, s\<lparr>lf_remoteFallbacks := lf_remoteFallbacks s + 1\<rparr>)"

definition remoteRecording ::
  "local_options \<Rightarrow> utext \<Rightarrow> utext \<Rightarrow> nat \<Rightarrow> local_first \<Rightarrow> (upstream_error + (mb_recording \<times> int) list) \<times> local_first" where
  "remoteRecording lo artist title limit s =
     (lo_remoteRecording lo artist title limit, s\<lparr>lf_remoteFallbacks := lf_remoteFallbacks s + 1\<rparr>)"

definition artistCandidates ::
  "local_options \<Rightarrow> query_call \<Rightarrow> mb_database \<Rightarrow> utext \<Rightarrow> local_first \<Rightarrow> canonical_row list option \<times> local_first" where
  "artistCandidates lo qc db name s =
     (if \<not> lf_on lo then (None, s)
      else let key = canonicalFold (lo_unicode lo) name in
        if \<not> canonicalCoverage key then (None, if key \<noteq> [] then s\<lparr>lf_unmatchable := lf_unmatchable s + 1\<rparr> else s)
        else case prefixUpperBound key of
            None \<Rightarrow> (None, s)
          | Some upper \<Rightarrow>
              (case lookupArtistPrefix (lo_unicode lo) (lo_backoff lo) qc key upper (lo_prefixScanLimit lo) db (lf_store s) of
                 (rows, st) \<Rightarrow> (Some rows, s\<lparr>lf_store := st\<rparr>)))"

definition artist_hit :: "canonical_row \<Rightarrow> mb_artist \<times> int" where
  "artist_hit r = (\<lparr>ma_mbid = cw_artistMbid r, ma_name = cw_artistCreditName r, ma_sortName = None, ma_country = None,
     ma_beganYear = None\<rparr>, LOCAL_SCORE)"

definition same_credit :: "local_options \<Rightarrow> utext \<Rightarrow> canonical_row \<Rightarrow> bool" where
  "same_credit lo key r \<longleftrightarrow> canonicalFold (lo_unicode lo) (cw_artistCreditName r) = key"

definition searchArtist ::
  "local_options \<Rightarrow> query_call \<Rightarrow> mb_database \<Rightarrow> utext \<Rightarrow> nat \<Rightarrow> local_first \<Rightarrow>
     (upstream_error + (mb_artist \<times> int) list) \<times> local_first" where
  "searchArtist lo qc db name limit s =
     (case artistCandidates lo qc db name s of
        (None, s1) \<Rightarrow> remoteArtist lo name limit s1
      | (Some rows, s1) \<Rightarrow>
          let out = collect_hits (same_credit lo (canonicalFold (lo_unicode lo) name)) cw_artistMbid limit [] rows in
          if out = [] then remoteArtist lo name limit s1
          else (Inr (map artist_hit out), s1\<lparr>lf_localHits := lf_localHits s1 + 1\<rparr>))"

definition recording_hit :: "canonical_row \<Rightarrow> mb_recording \<times> int" where
  "recording_hit r = (\<lparr>mr_mbid = cw_recordingMbid r, mr_title = cw_recordingName r, mr_lengthMs = None,
     mr_artistMbid = Some (cw_artistMbid r), mr_artistName = cw_artistCreditName r\<rparr>, LOCAL_SCORE)"

text \<open>The loop over the keys, with a call for each.\<close>

fun try_keys ::
  "local_options \<Rightarrow> mb_database \<Rightarrow> utext \<Rightarrow> nat \<Rightarrow> (utext \<times> query_call) list \<Rightarrow> canonical_store \<Rightarrow> canonical_row list \<times> canonical_store" where
  "try_keys lo db artistKey limit [] st = ([], st)"
| "try_keys lo db artistKey limit ((key, qc) # rest) st =
     (case lookupExact (lo_unicode lo) (lo_backoff lo) qc key (limit * 4) db st of
        (rows, st1) \<Rightarrow>
          let out = collect_hits (same_credit lo artistKey) cw_recordingMbid limit [] rows in
          if out \<noteq> [] then (out, st1) else try_keys lo db artistKey limit rest st1)"

definition searchRecording ::
  "local_options \<Rightarrow> (nat \<Rightarrow> query_call) \<Rightarrow> mb_database \<Rightarrow> utext \<Rightarrow> utext \<Rightarrow> nat \<Rightarrow> local_first \<Rightarrow>
     (upstream_error + (mb_recording \<times> int) list) \<times> local_first" where
  "searchRecording lo qcs db artist title limit s =
     (if \<not> lf_on lo then remoteRecording lo artist title limit s
      else let artistKey = canonicalFold (lo_unicode lo) artist; keys = canonicalKeyVariants (lo_unicode lo) artist title in
        if keys = [] \<or> \<not> list_all canonicalCoverage keys then
          remoteRecording lo artist title limit (if keys \<noteq> [] then s\<lparr>lf_unmatchable := lf_unmatchable s + 1\<rparr> else s)
        else case try_keys lo db artistKey limit (zip keys (map qcs [0..<length keys])) (lf_store s) of
            (out, st) \<Rightarrow>
              if out \<noteq> [] then (Inr (map recording_hit out), s\<lparr>lf_store := st, lf_localHits := lf_localHits s + 1\<rparr>)
              else remoteRecording lo artist title limit (s\<lparr>lf_store := st\<rparr>))"

subsection \<open>The gate\<close>

text \<open>\<open>None\<close> for a reading that was never taken.\<close>

record gate_state =
  gt_declined :: nat
  gt_dumpLoaded :: bool
  gt_checkedUntil :: "time option"

definition gate_new :: gate_state where
  "gate_new = \<lparr>gt_declined = 0, gt_dumpLoaded = False, gt_checkedUntil = None\<rparr>"

text \<open>What the probes of one call answer, \<open>None\<close> for one that throws.\<close>

record gate_answers =
  ga_loadState :: "canonical_load option option"
  ga_exists :: "bool option"
  ga_known :: "bool option"

definition dump_loaded :: "int \<Rightarrow> time \<Rightarrow> canonical_load option option \<Rightarrow> gate_state \<Rightarrow> bool option \<times> gate_state" where
  "dump_loaded ttl t reply gt =
     (if (case gt_checkedUntil gt of None \<Rightarrow> False | Some e \<Rightarrow> t < e) then (Some (gt_dumpLoaded gt), gt)
      else case reply of
          None \<Rightarrow> (None, gt)
        | Some state \<Rightarrow>
            let loaded = (case state of None \<Rightarrow> False | Some l \<Rightarrow> 0 < ml_rowsLoaded l)
            in (Some loaded, gt\<lparr>gt_dumpLoaded := loaded, gt_checkedUntil := Some (t + ttl)\<rparr>))"

definition worthAsking :: "bool \<Rightarrow> int \<Rightarrow> time \<Rightarrow> gate_answers \<Rightarrow> gate_state \<Rightarrow> bool \<times> gate_state" where
  "worthAsking wired ttl t ga gt =
     (if \<not> wired then (True, gt)
      else case dump_loaded ttl t (ga_loadState ga) gt of
          (None, gt1) \<Rightarrow> (True, gt1)
        | (Some False, gt1) \<Rightarrow> (True, gt1)
        | (Some True, gt1) \<Rightarrow>
            (case ga_exists ga of
               None \<Rightarrow> (True, gt1)
             | Some True \<Rightarrow> (True, gt1)
             | Some False \<Rightarrow>
                 (case ga_known ga of
                    None \<Rightarrow> (True, gt1)
                  | Some True \<Rightarrow> (True, gt1)
                  | Some False \<Rightarrow> (False, gt1\<lparr>gt_declined := gt_declined gt1 + 1\<rparr>))))"

text \<open>The gate on the store: a call that reaches a probe makes its query.\<close>

definition gate_call ::
  "(utext \<Rightarrow> utext option) \<Rightarrow> int \<Rightarrow> int \<Rightarrow> time \<Rightarrow> query_call \<Rightarrow> query_call \<Rightarrow> bool option \<Rightarrow> utext \<Rightarrow> mb_database \<Rightarrow>
     gate_state \<times> canonical_store \<Rightarrow> bool \<times> gate_state \<times> canonical_store" where
  "gate_call uuid backoff ttl t q1 q2 known mbid db w =
     (case w of (gt, st) \<Rightarrow>
        let memo = (case gt_checkedUntil gt of None \<Rightarrow> False | Some e \<Rightarrow> t < e);
            read = (if memo then (None, st) else loadState backoff q1 db st);
            probe = (if fst (dump_loaded ttl t (Some (fst read)) gt) = Some True
                     then exists_mbid uuid backoff q2 Artist mbid db (snd read) else (False, snd read))
        in (case worthAsking True ttl t \<lparr>ga_loadState = Some (fst read), ga_exists = Some (fst probe), ga_known = known\<rparr> gt of
              (worth, gt1) \<Rightarrow> (worth, gt1, snd probe)))"

subsection \<open>Ranges and hits\<close>

lemma byte_range: "key_range (b @ [c]) (b @ [Suc c]) s \<longleftrightarrow> (\<exists>t. s = b @ c # t)"
proof (induction b arbitrary: s)
  case Nil
  then show ?case by (cases s) (auto simp: key_range_def byte_less_def)
next
  case (Cons x b)
  then show ?case by (cases s) (auto simp: key_range_def byte_less_def)
qed

lemma prefix_range:
  assumes "prefixUpperBound p = Some q"
  shows "key_range p q s \<longleftrightarrow> (\<exists>t. s = p @ t)"
proof -
  have p: "p \<noteq> []" "q = butlast p @ [Suc (last p)]" using assms by (auto simp: prefixUpperBound_def split: if_splits)
  obtain b c where bc: "p = b @ [c]" using p(1) by (cases p rule: rev_cases) auto
  then show ?thesis using p(2) byte_range [of b c s] by simp
qed

lemma covered_bound: "canonicalCoverage key \<Longrightarrow> \<exists>q. prefixUpperBound key = Some q"
  by (cases key rule: rev_cases) (auto simp: canonicalCoverage_def prefixUpperBound_def list_ex_iff list_all_iff)

lemma collect_hits_sound:
  "r \<in> set (collect_hits ok mbid limit seen rs) \<Longrightarrow> r \<in> set rs \<and> ok r \<and> mbid r \<notin> set seen"
proof (induction rs arbitrary: seen)
  case (Cons a rs)
  then consider "r = a" "ok a" "mbid a \<notin> set seen" | "r \<in> set (collect_hits ok mbid limit seen rs)"
    | "r \<in> set (collect_hits ok mbid limit (mbid a # seen) rs)"
    by (auto split: if_splits)
  then show ?case
  proof cases
    case 2
    then show ?thesis using Cons.IH by fastforce
  next
    case 3
    then show ?thesis using Cons.IH [of "mbid a # seen"] by simp
  qed simp
qed simp

lemma collect_hits_distinct: "distinct (map mbid (collect_hits ok mbid limit seen rs))"
proof (induction rs arbitrary: seen)
  case (Cons r rs)
  have "mbid r \<notin> mbid ` set (collect_hits ok mbid limit (mbid r # seen) rs)" for seen
    using collect_hits_sound [of _ ok mbid limit "mbid r # seen" rs] by force
  with Cons show ?case by simp
qed simp

lemma collect_hits_complete:
  assumes "distinct seen" and "card (set seen \<union> mbid ` {r \<in> set rs. ok r}) \<le> limit"
  shows "mbid ` set (collect_hits ok mbid limit seen rs) = mbid ` {r \<in> set rs. ok r} - set seen"
  using assms
proof (induction rs arbitrary: seen)
  case (Cons r rs)
  let ?I = "\<lambda>rs. mbid ` {r \<in> set rs. ok r}"
  show ?case
  proof (cases "ok r")
    case False
    then have "{x \<in> set (r # rs). ok x} = {x \<in> set rs. ok x}" by auto
    then show ?thesis using Cons False by simp
  next
    case True
    then have I: "?I (r # rs) = insert (mbid r) (?I rs)" by auto
    show ?thesis
    proof (cases "mbid r \<in> set seen")
      case True
      then have "set seen \<union> ?I (r # rs) = set seen \<union> ?I rs" using I by auto
      then show ?thesis using Cons.IH [OF Cons.prems(1)] Cons.prems(2) I True by auto
    next
      case new: False
      have fin: "finite (set seen \<union> ?I (r # rs))" by simp
      show ?thesis
      proof (cases "limit \<le> Suc (length seen)")
        case full: True
        have "card (set (mbid r # seen)) = Suc (length seen)" using Cons.prems(1) new by (simp add: distinct_card)
        then have le: "card (set seen \<union> ?I (r # rs)) \<le> card (set (mbid r # seen))" using Cons.prems(2) full by linarith
        have "set (mbid r # seen) \<subseteq> set seen \<union> ?I (r # rs)" unfolding I by auto
        then have "set (mbid r # seen) = set seen \<union> ?I (r # rs)" by (rule card_seteq [OF fin _ le])
        then have "?I (r # rs) - set seen = {mbid r}" using new by auto
        then show ?thesis using True new full by simp
      next
        case False
        have "set (mbid r # seen) \<union> ?I rs = set seen \<union> ?I (r # rs)" using I by auto
        then have "mbid ` set (collect_hits ok mbid limit (mbid r # seen) rs) = ?I rs - set (mbid r # seen)"
          using Cons.IH [of "mbid r # seen"] Cons.prems new by simp
        then have "mbid ` set (collect_hits ok mbid limit seen (r # rs)) = insert (mbid r) (?I rs - set (mbid r # seen))"
          using True new False by simp
        also have "\<dots> = ?I (r # rs) - set seen" unfolding I using new by auto
        finally show ?thesis .
      qed
    qed
  qed
qed simp

lemma best_rows_all: "length (filter P (md_canonical db)) \<le> limit \<Longrightarrow> set (best_rows P limit db) = {r \<in> set (md_canonical db). P r}"
  by (simp add: best_rows_def)

lemma toRow_fields [simp]:
  "cw_artistCreditName (toRow u r) = mb_artistCreditName r" "cw_recordingMbid (toRow u r) = mb_recordingMbid r"
  by (simp_all add: toRow_def Let_def)

text \<open>The artists of the rows whose credit folds to a key, and those of them whose column begins with it. The
  column is computed by the dump, with a transliteration of its own: of a foreign title it is anything, and of a
  credit it may be something that the fold is not.\<close>

definition credited :: "unicode \<Rightarrow> mb_database \<Rightarrow> utext \<Rightarrow> utext list" where
  "credited u db key = map (\<lambda>r. cw_artistMbid (toRow u r)) (filter (\<lambda>r. canonicalFold u (mb_artistCreditName r) = key) (md_canonical db))"

definition starts_with_key :: "utext \<Rightarrow> mb_row \<Rightarrow> bool" where
  "starts_with_key key r \<longleftrightarrow> take (length key) (mb_combinedLookup r) = key"

definition in_reach :: "unicode \<Rightarrow> mb_database \<Rightarrow> utext \<Rightarrow> utext list" where
  "in_reach u db key = map (\<lambda>r. cw_artistMbid (toRow u r))
     (filter (\<lambda>r. canonicalFold u (mb_artistCreditName r) = key \<and> starts_with_key key r) (md_canonical db))"

definition available :: "query_call \<Rightarrow> local_first \<Rightarrow> bool" where
  "available qc s \<longleftrightarrow> cn_quietUntil (lf_store s) \<le> qc_now qc \<and> qc_ok qc"

lemma candidates_available:
  assumes "lf_on lo" and "canonicalCoverage (canonicalFold (lo_unicode lo) name)" and "available qc s"
    and "length (filter (starts_with_key (canonicalFold (lo_unicode lo) name)) (md_canonical db)) \<le> lo_prefixScanLimit lo"
  shows "\<exists>rows s1. artistCandidates lo qc db name s = (Some rows, s1) \<and>
    set rows = toRow (lo_unicode lo) ` {r \<in> set (md_canonical db). starts_with_key (canonicalFold (lo_unicode lo) name) r}"
proof -
  let ?key = "canonicalFold (lo_unicode lo) name"
  obtain q where q: "prefixUpperBound ?key = Some q" using covered_bound [OF assms(2)] by blast
  have P: "key_range ?key q (mb_combinedLookup r) \<longleftrightarrow> starts_with_key ?key r" for r
    unfolding prefix_range [OF q] starts_with_key_def by (metis append_eq_conv_conj append_take_drop_id)
  have ne: "?key \<noteq> []" "q \<noteq> []" using q by (auto simp: prefixUpperBound_def split: if_splits)
  have "set (best_rows (\<lambda>r. key_range ?key q (mb_combinedLookup r)) (lo_prefixScanLimit lo) db) =
      {r \<in> set (md_canonical db). starts_with_key ?key r}"
    unfolding P using best_rows_all [OF assms(4)] by simp
  then show ?thesis
    using assms(1-3) q ne by (auto simp: artistCandidates_def lookupArtistPrefix_def store_query_def available_def Let_def)
qed

lemma hits_of_rows:
  assumes "set rows = toRow (lo_unicode lo) ` {r \<in> set (md_canonical db). starts_with_key key r}"
  shows "cw_artistMbid ` {r \<in> set rows. same_credit lo key r} = set (in_reach (lo_unicode lo) db key)"
  unfolding assms in_reach_def same_credit_def by auto

text \<open>Whatever the columns hold and whatever fails, the candidates are rows of the table.\<close>

lemma candidates_are_rows:
  assumes "artistCandidates lo qc db name s = (Some rows, s1)"
  shows "set rows \<subseteq> toRow (lo_unicode lo) ` set (md_canonical db)"
proof -
  have "set (best_rows P n db) \<subseteq> set (md_canonical db)" for P n
    using set_take_subset [of n "sort_key mb_score (filter P (md_canonical db))"] by (auto simp: best_rows_def)
  then have "set (fst (store_query b qc (best_rows P n db) st)) \<subseteq> set (md_canonical db)" for b P n st
    by (auto simp: store_query_def)
  then have found: "set (fst (lookupArtistPrefix u b qc key upper n db st)) \<subseteq> toRow u ` set (md_canonical db)" for u b key upper n st
    by (simp add: lookupArtistPrefix_def image_mono)
  obtain key upper where "rows = fst (lookupArtistPrefix (lo_unicode lo) (lo_backoff lo) qc key upper (lo_prefixScanLimit lo) db (lf_store s))"
    using assms by (auto simp: artistCandidates_def Let_def split: if_splits option.splits prod.splits) (metis fst_conv)
  then show ?thesis using found by simp
qed

lemma collect_hits_length: "length (collect_hits ok mbid limit seen rs) \<le> max 1 (limit - length seen)"
proof (induction rs arbitrary: seen)
  case (Cons r rs)
  have "length (collect_hits ok mbid limit (mbid r # seen) rs) \<le> max 1 (limit - Suc (length seen))" using Cons.IH [of "mbid r # seen"] by simp
  then show ?case using Cons.IH [of seen] by auto
qed simp

lemma declined_because:
  assumes "\<not> fst (worthAsking wired ttl t ga gt)"
  shows "wired \<and> fst (dump_loaded ttl t (ga_loadState ga) gt) = Some True \<and> ga_exists ga = Some False \<and> ga_known ga = Some False"
  using assms by (auto simp: worthAsking_def split: prod.splits option.splits bool.splits if_splits)

definition gate_after :: "bool \<Rightarrow> int \<Rightarrow> (time \<times> gate_answers) list \<Rightarrow> gate_state \<Rightarrow> gate_state" where
  "gate_after wired ttl es gt = foldl (\<lambda>gt (t, ga). snd (worthAsking wired ttl t ga gt)) gt es"

definition read_loaded :: "gate_answers \<Rightarrow> bool" where
  "read_loaded ga \<longleftrightarrow> (case ga_loadState ga of Some (Some l) \<Rightarrow> 0 < ml_rowsLoaded l | _ \<Rightarrow> False)"

lemma dump_loaded_memo:
  "snd (dump_loaded ttl t (ga_loadState ga) gt) = gt \<or>
   (gt_dumpLoaded (snd (dump_loaded ttl t (ga_loadState ga) gt)) = read_loaded ga \<and>
    gt_checkedUntil (snd (dump_loaded ttl t (ga_loadState ga) gt)) = Some (t + ttl))"
  by (simp add: dump_loaded_def read_loaded_def Let_def split: option.split)

lemma worthAsking_dump:
  assumes "wired"
  shows "gt_dumpLoaded (snd (worthAsking wired ttl t ga gt)) = gt_dumpLoaded (snd (dump_loaded ttl t (ga_loadState ga) gt)) \<and>
    gt_checkedUntil (snd (worthAsking wired ttl t ga gt)) = gt_checkedUntil (snd (dump_loaded ttl t (ga_loadState ga) gt))"
  using assms by (simp add: worthAsking_def split: prod.split option.split bool.split)

lemma worthAsking_memo:
  assumes "gt1 = snd (worthAsking wired ttl t ga gt)"
  shows "(gt_dumpLoaded gt1 = gt_dumpLoaded gt \<and> gt_checkedUntil gt1 = gt_checkedUntil gt) \<or>
    (gt_dumpLoaded gt1 = read_loaded ga \<and> gt_checkedUntil gt1 = Some (t + ttl))"
proof (cases wired)
  case True
  then show ?thesis using worthAsking_dump [of wired ttl t ga gt] dump_loaded_memo [of ttl t ga gt] assms by auto
qed (simp add: assms worthAsking_def)

lemma memo_was_read:
  "gt_dumpLoaded (gate_after wired ttl es gate_new) \<Longrightarrow>
     \<exists>t0 ga0. (t0, ga0) \<in> set es \<and> read_loaded ga0 \<and> gt_checkedUntil (gate_after wired ttl es gate_new) = Some (t0 + ttl)"
proof (induction es rule: rev_induct)
  case Nil
  then show ?case by (simp add: gate_after_def gate_new_def)
next
  case (snoc e es)
  obtain t ga where e: "e = (t, ga)" by (cases e)
  let ?gt = "gate_after wired ttl es gate_new"
  have after: "gate_after wired ttl (es @ [e]) gate_new = snd (worthAsking wired ttl t ga ?gt)" by (simp add: gate_after_def e)
  from worthAsking_memo [OF refl, of wired ttl t ga ?gt] show ?case
  proof
    assume "gt_dumpLoaded (snd (worthAsking wired ttl t ga ?gt)) = gt_dumpLoaded ?gt \<and>
      gt_checkedUntil (snd (worthAsking wired ttl t ga ?gt)) = gt_checkedUntil ?gt"
    then show ?thesis using snoc after by auto
  next
    assume "gt_dumpLoaded (snd (worthAsking wired ttl t ga ?gt)) = read_loaded ga \<and>
      gt_checkedUntil (snd (worthAsking wired ttl t ga ?gt)) = Some (t + ttl)"
    then show ?thesis using snoc.prems after e by auto
  qed
qed

subsection \<open>Properties\<close>

text \<open>The hits that a local search is answered with; none sends it to the network.\<close>

definition local_hits :: "local_options \<Rightarrow> query_call \<Rightarrow> mb_database \<Rightarrow> utext \<Rightarrow> nat \<Rightarrow> local_first \<Rightarrow> canonical_row list" where
  "local_hits lo qc db name limit s =
     (case fst (artistCandidates lo qc db name s) of
        None \<Rightarrow> []
      | Some rows \<Rightarrow> collect_hits (same_credit lo (canonicalFold (lo_unicode lo) name)) cw_artistMbid limit [] rows)"

lemma search_is_local_hits:
  "fst (searchArtist lo qc db name limit s) =
     (if local_hits lo qc db name limit s = [] then lo_remoteArtist lo name limit
      else Inr (map artist_hit (local_hits lo qc db name limit s)))"
  by (simp add: searchArtist_def local_hits_def remoteArtist_def Let_def split: prod.split option.split)

lemma local_hits_bear_the_name:
  assumes "h \<in> set (local_hits lo qc db name limit s)"
  shows "canonicalFold (lo_unicode lo) (cw_artistCreditName h) = canonicalFold (lo_unicode lo) name \<and>
    (\<exists>r \<in> set (md_canonical db). h = toRow (lo_unicode lo) r)"
proof -
  obtain rows s1 where rows: "artistCandidates lo qc db name s = (Some rows, s1)"
    and h: "h \<in> set (collect_hits (same_credit lo (canonicalFold (lo_unicode lo) name)) cw_artistMbid limit [] rows)"
    using assms by (cases "artistCandidates lo qc db name s") (auto simp: local_hits_def split: option.splits)
  then show ?thesis using collect_hits_sound [OF h] candidates_are_rows [OF rows] by (auto simp: same_credit_def)
qed

lemma local_hits_distinct: "distinct (map cw_artistMbid (local_hits lo qc db name limit s))"
  unfolding local_hits_def by (auto intro: collect_hits_distinct split: option.split)

lemma local_hits_complete:
  assumes "lf_on lo" and "canonicalCoverage (canonicalFold (lo_unicode lo) name)" and "available qc s"
    and "length (filter (starts_with_key (canonicalFold (lo_unicode lo) name)) (md_canonical db)) \<le> lo_prefixScanLimit lo"
    and "card (set (in_reach (lo_unicode lo) db (canonicalFold (lo_unicode lo) name))) \<le> limit"
  shows "cw_artistMbid ` set (local_hits lo qc db name limit s) = set (in_reach (lo_unicode lo) db (canonicalFold (lo_unicode lo) name))"
proof -
  let ?key = "canonicalFold (lo_unicode lo) name"
  obtain rows s1 where c: "artistCandidates lo qc db name s = (Some rows, s1)"
    and rows: "set rows = toRow (lo_unicode lo) ` {r \<in> set (md_canonical db). starts_with_key ?key r}"
    using candidates_available [OF assms(1-4)] by blast
  show ?thesis
    using collect_hits_complete [of "[]" cw_artistMbid rows "same_credit lo ?key" limit] assms(5) hits_of_rows [OF rows]
    by (simp add: local_hits_def c)
qed

text \<open>Claim C40. A local artist search never names another artist: whatever the columns of the dump hold, whichever
  queries fail and wherever the scan is cut off, a search is answered either by the network or by a list of artists
  of the table whose credit, folded, is the name asked for, each once, with the full score and no more of them than
  the limit (a limit of 0 counts as 1). And it is exact within the reach of the dump's own column: where the local data is switched on, the
  name folds to a covered key, the store answers, the rows whose column begins with the key fit into the scan and
  the artists into the limit, the list holds all artists of a row of that credit whose column begins with the key,
  and the network is asked only when there is none. An artist whose column the dump's transliteration has spelled
  differently is then missed, not mistaken; where it has spelled none of that credit differently, the list is
  complete.\<close>

theorem artist_search_exact:
  "\<exists>hits. fst (searchArtist lo qc db name limit s) = (if hits = [] then lo_remoteArtist lo name limit else Inr hits) \<and>
    distinct (map (ma_mbid \<circ> fst) hits) \<and> length hits \<le> max 1 limit \<and>
    (\<forall>(artist, score) \<in> set hits. score = LOCAL_SCORE \<and> ma_mbid artist \<in> set (credited (lo_unicode lo) db (canonicalFold (lo_unicode lo) name)) \<and>
       canonicalFold (lo_unicode lo) (ma_name artist) = canonicalFold (lo_unicode lo) name) \<and>
    (lf_on lo \<and> canonicalCoverage (canonicalFold (lo_unicode lo) name) \<and> available qc s \<and>
     length (filter (starts_with_key (canonicalFold (lo_unicode lo) name)) (md_canonical db)) \<le> lo_prefixScanLimit lo \<and>
     card (set (in_reach (lo_unicode lo) db (canonicalFold (lo_unicode lo) name))) \<le> limit \<longrightarrow>
       set (map (ma_mbid \<circ> fst) hits) = set (in_reach (lo_unicode lo) db (canonicalFold (lo_unicode lo) name)) \<and>
       (list_all (\<lambda>r. canonicalFold (lo_unicode lo) (mb_artistCreditName r) = canonicalFold (lo_unicode lo) name \<longrightarrow>
            starts_with_key (canonicalFold (lo_unicode lo) name) r) (md_canonical db) \<longrightarrow>
          set (map (ma_mbid \<circ> fst) hits) = set (credited (lo_unicode lo) db (canonicalFold (lo_unicode lo) name))))"
proof -
  let ?key = "canonicalFold (lo_unicode lo) name"
  let ?out = "local_hits lo qc db name limit s"
  let ?hits = "map artist_hit ?out"
  have map: "map (ma_mbid \<circ> fst) ?hits = map cw_artistMbid ?out" by (simp add: artist_hit_def)
  have "\<forall>(artist, score) \<in> set ?hits. score = LOCAL_SCORE \<and> ma_mbid artist \<in> set (credited (lo_unicode lo) db ?key) \<and>
      canonicalFold (lo_unicode lo) (ma_name artist) = ?key"
    using local_hits_bear_the_name by (fastforce simp: artist_hit_def credited_def)
  moreover have "length ?hits \<le> max 1 limit"
    using collect_hits_length [of _ _ limit "[]"] by (simp add: local_hits_def split: option.split)
  moreover have "set (in_reach (lo_unicode lo) db ?key) = set (credited (lo_unicode lo) db ?key)"
    if "list_all (\<lambda>r. canonicalFold (lo_unicode lo) (mb_artistCreditName r) = ?key \<longrightarrow> starts_with_key ?key r) (md_canonical db)"
    using that by (auto simp: in_reach_def credited_def list_all_iff)
  moreover have "set (map (ma_mbid \<circ> fst) ?hits) = set (in_reach (lo_unicode lo) db ?key)"
    if "lf_on lo \<and> canonicalCoverage ?key \<and> available qc s \<and>
     length (filter (starts_with_key ?key) (md_canonical db)) \<le> lo_prefixScanLimit lo \<and> card (set (in_reach (lo_unicode lo) db ?key)) \<le> limit"
    using local_hits_complete [of lo name qc s db limit] that unfolding map by simp
  moreover have "distinct (map (ma_mbid \<circ> fst) ?hits)" unfolding map by (rule local_hits_distinct)
  moreover have "fst (searchArtist lo qc db name limit s) = (if ?hits = [] then lo_remoteArtist lo name limit else Inr ?hits)"
    by (simp add: search_is_local_hits)
  ultimately show ?thesis by blast
qed

definition plain :: unicode where
  "plain = \<lparr>uc_lower = map (\<lambda>c. if c = 79 then 111 else c), uc_nfkd = (\<lambda>s. s), uc_letter = (\<lambda>c. 65 \<le> c \<and> c \<le> 122),
     uc_number = (\<lambda>_. False), uc_mark = (\<lambda>_. False), uc_space = (\<lambda>c. c = 32)\<rparr>"

definition demo_options :: local_options where
  "demo_options = \<lparr>lo_wired = True, lo_enabled = True, lo_prefixScanLimit = 200, lo_backoff = 60000, lo_unicode = plain,
     lo_remoteArtist = (\<lambda>_ _. Inr []), lo_remoteRecording = (\<lambda>_ _ _. Inr [])\<rparr>"

definition demo_dump_row :: "utext \<Rightarrow> utext \<Rightarrow> utext \<Rightarrow> mb_row" where
  "demo_dump_row i credit combined = \<lparr>mb_recordingMbid = i, mb_recordingName = [97], mb_releaseMbid = i,
     mb_releaseName = [97], mb_artistMbids = i, mb_artistCreditName = credit, mb_combinedLookup = combined, mb_score = 1\<rparr>"

text \<open>An artist o with a title that the dump has transliterated, one whose name begins with it, om, and one whose
  credit, a foreign letter, the dump spells as o.\<close>

definition demo_dump :: mb_database where
  "demo_dump = \<lparr>md_canonical = [demo_dump_row [49] [111] [111, 88, 105, 32], demo_dump_row [50] [79, 109] [111, 109, 97],
     demo_dump_row [51] [112] [111, 97]], md_loads = []\<rparr>"

definition demo_local :: local_first where
  "demo_local = \<lparr>lf_store = canonical_store_new, lf_localHits = 0, lf_remoteFallbacks = 0, lf_unmatchable = 0\<rparr>"

lemma demo_atomic: "atomic_latin 111 = [111]" "atomic_latin 109 = [109]" "atomic_latin 112 = [112]"
  by (simp_all add: atomic_latin_def ATOMIC_LATIN_def orelse_def)

lemma demo_folds:
  "canonicalFold plain [79] = [111]" "canonicalFold plain [111] = [111]" "canonicalFold plain [79, 109] = [111, 109]" "canonicalFold plain [112] = [112]"
  by (simp_all add: canonicalFold_def plain_def stripDiacritics_def is_word_char_def Let_def demo_atomic)

lemma demo_spaces: "trim plain [49] = [49]" "trim plain [50] = [50]" "trim plain [51] = [51]"
  by (simp_all add: trim_def plain_def)

lemma demo_dump_facts:
  "canonicalCoverage (canonicalFold plain [79])"
  "length (filter (starts_with_key (canonicalFold plain [79])) (md_canonical demo_dump)) \<le> 200"
  "in_reach plain demo_dump (canonicalFold plain [79]) = [[49]]" "credited plain demo_dump (canonicalFold plain [79]) = [[49]]"
  by (simp_all add: demo_folds canonicalCoverage_def demo_dump_def demo_dump_row_def starts_with_key_def
      in_reach_def credited_def toRow_def Let_def demo_spaces)

lemma artist_search_exact_witness:
  "\<exists>hits. fst (searchArtist demo_options \<lparr>qc_now = 0, qc_ok = True, qc_failedNow = 0\<rparr> demo_dump [79] 5 demo_local) = Inr hits \<and>
     set (map (ma_mbid \<circ> fst) hits) = {[49]}"
proof -
  let ?q = "\<lparr>qc_now = 0, qc_ok = True, qc_failedNow = 0\<rparr>"
  have u: "lo_unicode demo_options = plain" "lf_on demo_options" "lo_prefixScanLimit demo_options = 200"
    by (simp_all add: demo_options_def lf_on_def)
  have "available ?q demo_local" by (simp add: available_def demo_local_def canonical_store_new_def)
  with artist_search_exact [of demo_options ?q demo_dump "[79]" 5 demo_local, unfolded u] u(2) demo_dump_facts
  obtain hits where "fst (searchArtist demo_options ?q demo_dump [79] 5 demo_local) = (if hits = [] then lo_remoteArtist demo_options [79] 5 else Inr hits)"
    "set (map (ma_mbid \<circ> fst) hits) = {[49]}" by auto
  then show ?thesis by (cases "hits = []") auto
qed

text \<open>The gate declines a lookup only when everything is silent: in any run, a call answers no only
  when the local data is wired, its own reading or one less than the reuse time old found a loaded dump,
  the dump does not answer for the artist and neither does any local record; it never throws.\<close>

theorem gate_declines_unknown:
  assumes "\<not> fst (worthAsking wired ttl t ga (gate_after wired ttl es gate_new))"
  shows "wired \<and> ga_exists ga = Some False \<and> ga_known ga = Some False \<and>
    (read_loaded ga \<or> (\<exists>t0 ga0. (t0, ga0) \<in> set es \<and> read_loaded ga0 \<and> t < t0 + ttl))"
proof -
  note d = declined_because [OF assms]
  then have "read_loaded ga \<or> (gt_dumpLoaded (gate_after wired ttl es gate_new) \<and>
      (\<exists>e. gt_checkedUntil (gate_after wired ttl es gate_new) = Some e \<and> t < e))"
    by (auto simp: dump_loaded_def read_loaded_def Let_def split: option.splits if_splits)
  then show ?thesis using d memo_was_read [of wired ttl es] by fastforce
qed

lemma gate_declines_unknown_witness:
  "\<not> fst (worthAsking True 60000 0 \<lparr>ga_loadState = Some (Some \<lparr>ml_dumpId = lit ''d'', ml_sha256 = [], ml_finishedAt = 0, ml_rowsLoaded = 1\<rparr>),
     ga_exists = Some False, ga_known = Some False\<rparr> gate_new) \<and>
   read_loaded \<lparr>ga_loadState = Some (Some \<lparr>ml_dumpId = lit ''d'', ml_sha256 = [], ml_finishedAt = 0, ml_rowsLoaded = 1\<rparr>),
     ga_exists = Some False, ga_known = Some False\<rparr>"
  using gate_declines_unknown [of True 60000 0 "\<lparr>ga_loadState = Some (Some \<lparr>ml_dumpId = lit ''d'', ml_sha256 = [], ml_finishedAt = 0, ml_rowsLoaded = 1\<rparr>),
     ga_exists = Some False, ga_known = Some False\<rparr>" "[]"]
  by (simp add: gate_after_def worthAsking_def dump_loaded_def gate_new_def Let_def)

text \<open>A fault of the store is not silence, but the gate cannot tell: a query that fails, or one that is not made
  because an earlier one failed, declines an artist that the dump holds.\<close>

theorem fault_declines_known_artist:
  assumes "gt_dumpLoaded gt" and "gt_checkedUntil gt = Some e" and "t < e" and "\<not> qc_ok q2 \<or> qc_now q2 < cn_quietUntil st"
  shows "\<not> fst (gate_call uuid backoff ttl t q1 q2 (Some False) mbid db (gt, st))"
  using assms by (auto simp: gate_call_def dump_loaded_def worthAsking_def exists_mbid_def store_query_def Let_def)

end
