(* ===== verification/Auth_Routes.thy ===== *)
theory Auth_Routes
  imports Account_Deletion
begin

text \<open>
  Sign-in, refresh and sign-out: the handlers of \<^verbatim>\<open>apps/bff/src/routes/v1/auth.ts\<close> with their
  hooks, and the trail they write, \<^verbatim>\<open>apps/bff/src/lib/audit.ts\<close>. The bodies have passed their
  schemas. The identity provider is the parameter it is for its client.
\<close>

subsection \<open>The trail\<close>

record audit_entry =
  ad_userId :: "string option"
  ad_action :: string
  ad_subjectRef :: "string option"
  ad_outcome :: string
  ad_detail :: "json option"
  ad_ip :: "string option"

text \<open>A failed insertion is swallowed.\<close>

definition audit_record :: "bool \<Rightarrow> audit_entry \<Rightarrow> audit_entry list \<Rightarrow> audit_entry list" where
  "audit_record fails entry trail = (if fails then trail else trail @ [entry])"

subsection \<open>What the routes read and write\<close>

record auth_config =
  cf_enforced :: bool
  cf_allowlist :: "string list"
  cf_cookieName :: string
  cf_cookieSecure :: bool
  cf_cookieTtl :: int
  cf_cookieKey :: string
  cf_magic :: magic_options

record route_parts =
  rt_sha :: "string \<Rightarrow> string"
  rt_seal :: gcm_seal
  rt_open :: gcm_open
  rt_iso :: "time \<Rightarrow> string"
  rt_workos :: workos_client
  rt_fetch :: workos_fetch

record route_world =
  rw_redis :: redis
  rw_users :: "user_row list"
  rw_audit :: "audit_entry list"

text \<open>A call of a route: its clocks, fresh values and faults, and what it reads of the connection.\<close>

record route_call =
  rc_now :: time
  rc_endNow :: time
  rc_budgets :: budget_times
  rc_newId :: string
  rc_nonce :: string
  rc_auditFails :: bool
  rc_revokeFails :: bool
  rc_peer :: "string option"
  rc_country :: header
  rc_ip :: string
  rc_cookie :: "string option"
  rc_session :: "string option"

record reply =
  rp_status :: int
  rp_headers :: "(string \<times> string) list"
  rp_body :: json

datatype route_answer = Replied reply | Errored api_error | Crashed

datatype transport = Bearer | Cookie

definition transport_name :: "transport \<Rightarrow> string" where
  "transport_name t = (case t of Bearer \<Rightarrow> ''bearer'' | Cookie \<Rightarrow> ''cookie'')"

subsection \<open>The hooks\<close>

definition refuseRestrictedRegion :: "auth_config \<Rightarrow> route_call \<Rightarrow> api_error option" where
  "refuseRestrictedRegion cf rc =
     (if gd_allowed (decideRegistrationGeo \<lparr>gi_peerAddress = rc_peer rc, gi_countryHeader = rc_country rc, gi_enforced = cf_enforced cf\<rparr>)
      then None else Some regionUnavailable)"

definition refuseUnlistedAddress :: "auth_config \<Rightarrow> string \<Rightarrow> api_error option" where
  "refuseUnlistedAddress cf email =
     (if fst (decideRegistrationAllowlist email (cf_allowlist cf)) then None else Some registrationClosed)"

subsection \<open>Establishing a session\<close>

definition attachSessionCookie :: "route_parts \<Rightarrow> auth_config \<Rightarrow> route_call \<Rightarrow> workos_session \<Rightarrow> int \<times> (string \<times> string) list" where
  "attachSessionCookie rt cf rc session =
     (let expiresAt = rc_now rc div 1000 + cf_cookieTtl cf in
      (expiresAt,
       [(''set-cookie'', serializeSessionCookie (cf_cookieName cf)
           (cc_seal (rt_seal rt) (cf_cookieKey cf) (rc_nonce rc)
              \<lparr>sp_accessToken = ws_accessToken session, sp_refreshToken = ws_refreshToken session,
               sp_workosUserId = wu_id (ws_user session), sp_expiresAt = expiresAt\<rparr>)
           \<lparr>ck_secure = cf_cookieSecure cf, ck_maxAgeSeconds = cf_cookieTtl cf\<rparr>),
        (''cache-control'', ''no-store'')]))"

datatype establish_action = Verified | Callback | Refreshed

definition action_name :: "establish_action \<Rightarrow> string" where
  "action_name a = (case a of Verified \<Rightarrow> ''auth.magic_auth.verified'' | Callback \<Rightarrow> ''auth.callback''
     | Refreshed \<Rightarrow> ''auth.session.refreshed'')"

definition display_name :: "workos_user \<Rightarrow> string option" where
  "display_name u =
     (let name = js_join '' '' (concat (map (\<lambda>p. case p of None \<Rightarrow> [] | Some s \<Rightarrow> if s = [] then [] else [s]) [wu_firstName u, wu_lastName u]))
      in if name = [] then None else Some name)"

definition optional_json :: "string option \<Rightarrow> json" where
  "optional_json v = (case v of None \<Rightarrow> JNull | Some s \<Rightarrow> JStr s)"

definition establish ::
  "route_parts \<Rightarrow> auth_config \<Rightarrow> route_call \<Rightarrow> workos_session \<Rightarrow> transport \<Rightarrow> establish_action \<Rightarrow> route_world \<Rightarrow> route_answer \<times> route_world" where
  "establish rt cf rc session transport action w =
     (case user_upsert (rc_now rc) (rc_newId rc)
             \<lparr>ui_workosUserId = wu_id (ws_user session), ui_email = wu_email (ws_user session),
              ui_displayName = display_name (ws_user session)\<rparr> (rw_users w) of
        (None, users) \<Rightarrow> (Crashed, w\<lparr>rw_users := users\<rparr>)
      | (Some user, users) \<Rightarrow>
          let users1 = (if action \<noteq> Refreshed then recordAuthentication (rc_now rc) (us_id user) users else users);
              trail = audit_record (rc_auditFails rc)
                \<lparr>ad_userId = Some (us_id user), ad_action = action_name action, ad_subjectRef = None, ad_outcome = ''ok'',
                 ad_detail = Some (JObj [(''transport'', JStr (transport_name transport))]), ad_ip = Some (rc_ip rc)\<rparr> (rw_audit w);
              body = [(''transport'', JStr (transport_name transport)),
                (''user'', JObj [(''id'', JStr (us_id user)), (''email'', optional_json (us_email user)),
                                 (''displayName'', optional_json (us_displayName user))])];
              w1 = w\<lparr>rw_users := users1, rw_audit := trail\<rparr>
          in case transport of
               Cookie \<Rightarrow>
                 (case attachSessionCookie rt cf rc session of (expiresAt, headers) \<Rightarrow>
                    (Replied \<lparr>rp_status = 200, rp_headers = headers,
                              rp_body = JObj (body @ [(''expiresAt'', JStr (rt_iso rt (expiresAt * 1000)))])\<rparr>, w1))
             | Bearer \<Rightarrow>
                 (Replied \<lparr>rp_status = 200, rp_headers = [(''cache-control'', ''no-store'')],
                           rp_body = JObj (body @ [(''accessToken'', JStr (ws_accessToken session)),
                             (''refreshToken'', JStr (ws_refreshToken session))])\<rparr>, w1))"

subsection \<open>The routes\<close>

definition auth_start :: "route_parts \<Rightarrow> auth_config \<Rightarrow> route_call \<Rightarrow> string \<Rightarrow> route_world \<Rightarrow> route_answer \<times> route_world" where
  "auth_start rt cf rc email w =
     (case refuseRestrictedRegion cf rc of
        Some e \<Rightarrow> (Errored e, w)
      | None \<Rightarrow>
          (case refuseUnlistedAddress cf email of
             Some e \<Rightarrow> (Errored e, w)
           | None \<Rightarrow>
               (case requestCode (rt_sha rt) (rt_workos rt) (cf_magic cf) (rt_fetch rt) (rc_budgets rc) (rc_now rc) (rc_endNow rc)
                       email (rc_ip rc) (rw_redis w) of (answer, r) \<Rightarrow>
                  case sa_error answer of
                    Some e \<Rightarrow> (Errored e, w\<lparr>rw_redis := r\<rparr>)
                  | None \<Rightarrow>
                      (Replied \<lparr>rp_status = 202, rp_headers = [(''cache-control'', ''no-store'')],
                         rp_body = JObj [(''status'', JStr ''sent''), (''expiresInSeconds'', JNum MAGIC_AUTH_CODE_TTL_S),
                           (''message'', JStr (''If that address can receive mail, a sign-in code is on its way. '' @
                              ''The same response is returned whether or not an account exists.''))]\<rparr>,
                       w\<lparr>rw_redis := r,
                          rw_audit := audit_record (rc_auditFails rc)
                            \<lparr>ad_userId = None, ad_action = ''auth.magic_auth.requested'', ad_subjectRef = Some (emailKey (rt_sha rt) email),
                             ad_outcome = ''ok'', ad_detail = None, ad_ip = Some (rc_ip rc)\<rparr> (rw_audit w)\<rparr>))))"

definition auth_verify ::
  "route_parts \<Rightarrow> auth_config \<Rightarrow> route_call \<Rightarrow> string \<Rightarrow> string \<Rightarrow> transport option \<Rightarrow> route_world \<Rightarrow> route_answer \<times> route_world" where
  "auth_verify rt cf rc email passcode transport w =
     (case refuseRestrictedRegion cf rc of
        Some e \<Rightarrow> (Errored e, w)
      | None \<Rightarrow>
          (case refuseUnlistedAddress cf email of
             Some e \<Rightarrow> (Errored e, w)
           | None \<Rightarrow>
               (case verifyCode (rt_sha rt) (rt_workos rt) (cf_magic cf) (rt_fetch rt) (rc_budgets rc) email passcode (rc_ip rc) (rw_redis w) of
                  (Inl e, r) \<Rightarrow>
                    (Errored e,
                     w\<lparr>rw_redis := r,
                        rw_audit := audit_record (rc_auditFails rc)
                          \<lparr>ad_userId = None, ad_action = ''auth.magic_auth.failed'', ad_subjectRef = Some (emailKey (rt_sha rt) email),
                           ad_outcome = ''denied'', ad_detail = None, ad_ip = Some (rc_ip rc)\<rparr> (rw_audit w)\<rparr>)
                | (Inr session, r) \<Rightarrow> establish rt cf rc session (orelse transport Bearer) Verified (w\<lparr>rw_redis := r\<rparr>))))"

definition auth_callback ::
  "route_parts \<Rightarrow> auth_config \<Rightarrow> route_call \<Rightarrow> string \<Rightarrow> string option \<Rightarrow> route_world \<Rightarrow> route_answer \<times> route_world" where
  "auth_callback rt cf rc passcode codeVerifier w =
     (case refuseRestrictedRegion cf rc of
        Some e \<Rightarrow> (Errored e, w)
      | None \<Rightarrow>
          (case authenticateWithCode (rt_workos rt) (rt_fetch rt) passcode codeVerifier of
             Inl e \<Rightarrow> (Errored e, w)
           | Inr session \<Rightarrow>
               (case refuseUnlistedAddress cf (orelse (wu_email (ws_user session)) []) of
                  Some e \<Rightarrow> (Errored e, w)
                | None \<Rightarrow> establish rt cf rc session Bearer Callback w)))"

definition auth_refresh :: "route_parts \<Rightarrow> auth_config \<Rightarrow> route_call \<Rightarrow> string option \<Rightarrow> route_world \<Rightarrow> route_answer \<times> route_world" where
  "auth_refresh rt cf rc refreshToken w =
     (let go = (\<lambda>token transport. case wo_refresh (rt_workos rt) (rt_fetch rt) token of
                  Inl e \<Rightarrow> (Errored e, w)
                | Inr session \<Rightarrow> establish rt cf rc session transport Refreshed w);
          refused = (Errored (unauthorized ''The session could not be refreshed.''), w)
      in case refreshToken of
           Some token \<Rightarrow> go token Bearer
         | None \<Rightarrow>
             (case readCookie (rc_cookie rc) (cf_cookieName cf) of
                None \<Rightarrow> refused
              | Some sealed \<Rightarrow>
                  if rc_session rc = None then refused
                  else (case cc_open (rt_open rt) (cf_cookieKey cf) sealed (rc_now rc div 1000) of
                          Throws \<Rightarrow> (Crashed, w)
                        | Rejected \<Rightarrow> refused
                        | Opened payload \<Rightarrow> go (sp_refreshToken payload) Cookie)))"

text \<open>For a subject the gate has admitted.\<close>

definition auth_logout :: "route_parts \<Rightarrow> auth_config \<Rightarrow> route_call \<Rightarrow> subject \<Rightarrow> route_world \<Rightarrow> route_answer \<times> route_world" where
  "auth_logout rt cf rc subject w =
     (case sj_sessionId subject of
        None \<Rightarrow> (Errored (badRequest (Some ''This credential carries no session id and cannot be revoked here.'') None), w)
      | Some sid \<Rightarrow>
          let upstreamRevoked = (case revokeSession (rt_workos rt) (rt_fetch rt) sid of Inr b \<Rightarrow> b | Inl _ \<Rightarrow> False)
          in if rc_revokeFails rc then (Crashed, w)
             else (Replied \<lparr>rp_status = 200,
                      rp_headers = [(''set-cookie'', clearSessionCookie (cf_cookieName cf) (cf_cookieSecure cf)), (''cache-control'', ''no-store'')],
                      rp_body = JObj [(''revoked'', JBool True), (''upstreamRevoked'', JBool upstreamRevoked)]\<rparr>,
                   w\<lparr>rw_redis := revokeSessionLocally (rc_now rc) sid (rc_now rc div 1000 + 3600) (rw_redis w),
                      rw_audit := audit_record (rc_auditFails rc)
                        \<lparr>ad_userId = Some (sj_userId subject), ad_action = ''auth.session.revoked'', ad_subjectRef = Some sid,
                         ad_outcome = ''ok'', ad_detail = Some (JObj [(''upstreamRevoked'', JBool upstreamRevoked)]),
                         ad_ip = Some (rc_ip rc)\<rparr> (rw_audit w)\<rparr>))"

subsection \<open>The surface as a whole\<close>

datatype route_request =
    Rq_start string
  | Rq_verify string string "transport option"
  | Rq_callback string "string option"
  | Rq_refresh "string option"
  | Rq_logout subject

definition auth_route :: "route_parts \<Rightarrow> auth_config \<Rightarrow> route_call \<Rightarrow> route_request \<Rightarrow> route_world \<Rightarrow> route_answer \<times> route_world" where
  "auth_route rt cf rc q w = (case q of
     Rq_start email \<Rightarrow> auth_start rt cf rc email w
   | Rq_verify email passcode transport \<Rightarrow> auth_verify rt cf rc email passcode transport w
   | Rq_callback passcode codeVerifier \<Rightarrow> auth_callback rt cf rc passcode codeVerifier w
   | Rq_refresh refreshToken \<Rightarrow> auth_refresh rt cf rc refreshToken w
   | Rq_logout subject \<Rightarrow> auth_logout rt cf rc subject w)"

definition admitted :: "auth_config \<Rightarrow> string \<Rightarrow> bool" where
  "admitted cf email \<longleftrightarrow> fst (decideRegistrationAllowlist email (cf_allowlist cf))"

definition offered_here :: "auth_config \<Rightarrow> route_call \<Rightarrow> bool" where
  "offered_here cf rc \<longleftrightarrow>
     gd_allowed (decideRegistrationGeo \<lparr>gi_peerAddress = rc_peer rc, gi_countryHeader = rc_country rc, gi_enforced = cf_enforced cf\<rparr>)"

lemma gates [simp]:
  "refuseRestrictedRegion cf rc = (if offered_here cf rc then None else Some regionUnavailable)"
  "refuseUnlistedAddress cf email = (if admitted cf email then None else Some registrationClosed)"
  by (simp_all add: refuseRestrictedRegion_def refuseUnlistedAddress_def offered_here_def admitted_def)

lemma record_authentication_row:
  "v \<in> set (recordAuthentication now i t) \<Longrightarrow> \<exists>v' \<in> set t. us_workosUserId v' = us_workosUserId v \<and> us_email v' = us_email v"
  by (auto simp: recordAuthentication_def split: if_splits)

lemma upsert_new:
  assumes "user_upsert now i input t = (answer, t')" "v \<in> set t'" "us_workosUserId v \<notin> us_workosUserId ` set t"
  shows "us_workosUserId v = ui_workosUserId input \<and> us_email v = map_option js_toLowerCase (ui_email input)"
proof (cases "List.find (\<lambda>r. us_workosUserId r = ui_workosUserId input) t")
  case None
  with assms show ?thesis by (auto simp: user_upsert_def Let_def split: if_splits)
next
  case (Some r)
  then have r: "r \<in> set t" by (auto simp: find_Some_iff)
  have "us_workosUserId v \<in> us_workosUserId ` set t"
    using assms(1,2) Some r by (auto simp: user_upsert_def Let_def replace_user_def split: if_splits)
  with assms(3) show ?thesis by simp
qed

lemma establish_new:
  assumes "establish rt cf rc session transport action w = (answer, w')" "v \<in> set (rw_users w')"
    "us_workosUserId v \<notin> us_workosUserId ` set (rw_users w)"
  shows "us_email v = map_option js_toLowerCase (wu_email (ws_user session))"
proof -
  let ?in = "\<lparr>ui_workosUserId = wu_id (ws_user session), ui_email = wu_email (ws_user session), ui_displayName = display_name (ws_user session)\<rparr>"
  obtain a t where u: "user_upsert (rc_now rc) (rc_newId rc) ?in (rw_users w) = (a, t)"
    by (cases "user_upsert (rc_now rc) (rc_newId rc) ?in (rw_users w)")
  have users: "rw_users w' = (case a of None \<Rightarrow> t | Some user \<Rightarrow> if action \<noteq> Refreshed then recordAuthentication (rc_now rc) (us_id user) t else t)"
    using assms(1) u by (auto simp: establish_def Let_def split: option.splits transport.splits prod.splits)
  have "\<exists>v' \<in> set t. us_workosUserId v' = us_workosUserId v \<and> us_email v' = us_email v"
    using assms(2) users by (auto split: option.splits if_splits dest: record_authentication_row)
  then obtain v' where "v' \<in> set t" "us_workosUserId v' = us_workosUserId v" "us_email v' = us_email v" by blast
  with upsert_new [OF u, of v'] assms(3) show ?thesis by simp
qed

lemma admitted_lower [simp]: "admitted cf (js_toLowerCase e) = admitted cf e"
proof -
  have "js_trim (js_toLowerCase e) = js_toLowerCase (js_trim e)"
    by (simp add: js_trim_def js_toLowerCase_def dropWhile_map rev_map comp_def)
  moreover have "lower_char \<circ> lower_char = lower_char" by (rule ext) simp
  ultimately show ?thesis by (simp add: admitted_def decideRegistrationAllowlist_def normaliseAddress_def js_toLowerCase_def)
qed

text \<open>Claim C29. Nobody gets an account past the gates. When a sign-in route leaves a user behind that
  was not there before, the region gate let the request through and the list admits the address,
  the one that was typed or, on the callback, the very address the row was created with; and a
  request that a gate refuses before the provider is asked is answered the same whatever the
  provider would have said, and writes nothing at all.\<close>

theorem no_account_past_the_gates:
  assumes "auth_route rt cf rc q w = (answer, w')" "\<forall>t. q \<noteq> Rq_refresh t"
  shows "(v \<in> set (rw_users w') \<and> us_workosUserId v \<notin> us_workosUserId ` set (rw_users w) \<longrightarrow>
      offered_here cf rc \<and>
      ((\<exists>email passcode transport. q = Rq_verify email passcode transport \<and> admitted cf email) \<or>
       (\<exists>passcode codeVerifier. q = Rq_callback passcode codeVerifier \<and> admitted cf (orelse (us_email v) [])))) \<and>
    ((\<exists>email. (q = Rq_start email \<or> (\<exists>p t. q = Rq_verify email p t)) \<and> (\<not> offered_here cf rc \<or> \<not> admitted cf email)) \<longrightarrow>
      w' = w \<and> auth_route (rt\<lparr>rt_fetch := fetch\<rparr>) cf rc q w = (answer, w))"
proof (cases q)
  case (Rq_start email)
  have "rw_users w' = rw_users w"
    using assms(1) by (auto simp: auth_route_def Rq_start auth_start_def split: if_splits prod.splits option.splits)
  moreover have "\<not> offered_here cf rc \<or> \<not> admitted cf email \<Longrightarrow> w' = w \<and> auth_route (rt\<lparr>rt_fetch := fetch\<rparr>) cf rc q w = (answer, w)"
    using assms(1) by (auto simp: auth_route_def Rq_start auth_start_def split: if_splits)
  ultimately show ?thesis using Rq_start by auto
next
  case (Rq_verify email passcode transport)
  have "\<not> offered_here cf rc \<or> \<not> admitted cf email \<Longrightarrow> w' = w \<and> auth_route (rt\<lparr>rt_fetch := fetch\<rparr>) cf rc q w = (answer, w)"
    using assms(1) by (auto simp: auth_route_def Rq_verify auth_verify_def split: if_splits)
  then show ?thesis using Rq_verify by (cases "offered_here cf rc \<and> admitted cf email") auto
next
  case (Rq_callback passcode codeVerifier)
  have "offered_here cf rc \<and> admitted cf (orelse (us_email v) [])"
    if v: "v \<in> set (rw_users w')" "us_workosUserId v \<notin> us_workosUserId ` set (rw_users w)"
  proof -
    have here: "offered_here cf rc"
      using assms(1) v by (auto simp: auth_route_def Rq_callback auth_callback_def split: if_splits)
    obtain session where s: "authenticateWithCode (rt_workos rt) (rt_fetch rt) passcode codeVerifier = Inr session"
      using assms(1) v here by (auto simp: auth_route_def Rq_callback auth_callback_def split: sum.splits)
    have a: "admitted cf (orelse (wu_email (ws_user session)) [])"
      using assms(1) v here s by (auto simp: auth_route_def Rq_callback auth_callback_def split: if_splits)
    then have e: "establish rt cf rc session Bearer Callback w = (answer, w')"
      using assms(1) here s by (simp add: auth_route_def Rq_callback auth_callback_def)
    from establish_new [OF e v] here a show ?thesis by (cases "wu_email (ws_user session)") simp_all
  qed
  with Rq_callback show ?thesis by auto
next
  case (Rq_logout subject)
  have "rw_users w' = rw_users w"
    using assms(1) by (auto simp: auth_route_def Rq_logout auth_logout_def Let_def split: if_splits option.splits)
  then show ?thesis using Rq_logout by auto
qed (use assms(2) in simp)

subsection \<open>A session in a browser\<close>

lemma verified_id: "wo_exchange fetch call m = Inr session \<Longrightarrow> wu_id (ws_user session) \<noteq> []"
  by (auto simp: wo_exchange_def toSession_def split: sum.splits if_splits option.splits) (drule toUser_fields(2), simp)

text \<open>Claim C30. A browser that signs in is signed in: when a verification asked for the cookie
  succeeds, its reply sets a cookie which, sent back among whatever others with the header the
  gate demands and no other credential, the gate opens to the access token of that very
  session, until the lifetime of the cookie has passed; the body of the reply holds no token.\<close>

theorem browser_is_signed_in:
  assumes "is_aead (rt_seal rt) (pt_open pt)" "length (cf_cookieKey cf) = 32" "length (rc_nonce rc) = 12"
    and "verifyCode (rt_sha rt) (rt_workos rt) (cf_magic cf) (rt_fetch rt) (rc_budgets rc) email passcode (rc_ip rc) (rw_redis w) =
           (Inr session, r)" "ws_accessToken session \<noteq> []" "ws_refreshToken session \<noteq> []"
    and "auth_route rt cf rc (Rq_verify email passcode (Some Cookie)) w = (Replied answer, w')"
    and "pl_cookie pl = Some (cf_cookieKey cf, cf_cookieName cf)"
  shows "\<exists>val. (''set-cookie'', serializeSessionCookie (cf_cookieName cf) val
        \<lparr>ck_secure = cf_cookieSecure cf, ck_maxAgeSeconds = cf_cookieTtl cf\<rparr>) \<in> set (rp_headers answer) \<and>
      (\<forall>cookies rq. (\<forall>(n, v) \<in> set cookies. cookie_token n \<and> cookie_token v) \<and> map_of cookies (cf_cookieName cf) = Some val \<and>
         rq_authorization rq = None \<and> rq_cookie rq = Some (cookie_header cookies) \<and> rq_session rq \<noteq> None \<and>
         rq_now rq div 1000 < rc_now rc div 1000 + cf_cookieTtl cf \<longrightarrow>
         resolve_credential pt pl rq = Res_credential (ws_accessToken session) True) \<and>
      jget ''accessToken'' (rp_body answer) = None \<and> jget ''refreshToken'' (rp_body answer) = None"
proof -
  let ?payload = "\<lparr>sp_accessToken = ws_accessToken session, sp_refreshToken = ws_refreshToken session,
      sp_workosUserId = wu_id (ws_user session), sp_expiresAt = rc_now rc div 1000 + cf_cookieTtl cf\<rparr>"
  let ?val = "cc_seal (rt_seal rt) (cf_cookieKey cf) (rc_nonce rc) ?payload"
  have open_gates: "offered_here cf rc" "admitted cf email"
    using assms(7) by (auto simp: auth_route_def auth_verify_def split: if_splits)
  then have "establish rt cf rc session Cookie Verified (w\<lparr>rw_redis := r\<rparr>) = (Replied answer, w')"
    using assms(4,7) by (simp add: auth_route_def auth_verify_def)
  then have answer: "rp_headers answer = snd (attachSessionCookie rt cf rc session)"
      "\<exists>u x. rp_body answer = JObj [(''transport'', JStr ''cookie''), (''user'', u), (''expiresAt'', x)]"
    by (auto simp: establish_def Let_def transport_name_def split: option.splits prod.splits)
  have id: "wu_id (ws_user session) \<noteq> []"
    using assms(4) verified_id by (auto simp: verifyCode_def Let_def authenticateWithMagicAuth_def split: prod.splits option.splits)
  have val: "?val \<noteq> []" by (simp add: cc_seal_def COOKIE_VERSION_def Let_def)
  have "resolve_credential pt pl rq = Res_credential (ws_accessToken session) True"
    if "\<forall>(n, v) \<in> set cookies. cookie_token n \<and> cookie_token v" "map_of cookies (cf_cookieName cf) = Some ?val"
      "rq_authorization rq = None" "rq_cookie rq = Some (cookie_header cookies)" "rq_session rq \<noteq> None"
      "rq_now rq div 1000 < rc_now rc div 1000 + cf_cookieTtl cf" for cookies rq
    using that assms(5,6,8) id val
    by (simp add: resolve_credential_def readCookie_header cc_open_seal [OF assms(1-3)] cookie_contents_json)
  then show ?thesis
    using answer by (intro exI [of _ ?val]) (auto simp: attachSessionCookie_def Let_def jget_def)
qed

subsection \<open>An erased account that comes back\<close>

text \<open>Claim C31. Erasure does not survive a refresh: when the deletion of an account succeeded here but
  the provider still honours its refresh token, one call of the refresh route, which no gate
  guards, writes a live row for the same subject and the same address again, under a new id, from
  any region and also for an address the list does not admit.\<close>

theorem refresh_revives_erased:
  assumes "users_ok (ew_users w)" "u \<in> set (ew_users w)" "us_deletedAt u = None"
    and "deleteAccount iso_text ledger wo fetch dc (us_id u) (us_workosUserId u) w = (Inr outcome, calls, w')"
    and "wo_refresh (rt_workos rt) (rt_fetch rt) token = Inr session" "wu_id (ws_user session) = us_workosUserId u"
    and "map_option js_toLowerCase (wu_email (ws_user session)) = us_email u" "rc_newId rc \<notin> us_id ` set (ew_users w)"
  shows "\<exists>answer v n. auth_route rt cf rc (Rq_refresh (Some token)) \<lparr>rw_redis = r, rw_users = ew_users w', rw_audit = trail\<rparr> =
      (Replied answer, v) \<and> n \<in> set (rw_users v) \<and> us_workosUserId n = us_workosUserId u \<and> us_deletedAt n = None \<and>
      us_email n = us_email u \<and> us_id n = rc_newId rc"
proof -
  have users: "ew_users w' = filter (\<lambda>x. us_id x \<noteq> us_id u) (ew_users w)"
    using assms(4)
  proof (cases rule: deleteAccount_cases)
    case (erased durability objects)
    then show ?thesis using assms(2) by (auto simp: same_tables_def cascade_def)
  qed simp
  have one: "inj_on us_id (set (ew_users w))" "inj_on us_workosUserId (set (ew_users w))"
    using assms(1) by (simp_all add: users_ok_def distinct_map)
  have none: "List.find (\<lambda>x. us_workosUserId x = us_workosUserId u) (ew_users w') = None"
    using inj_onD [OF one(2) _ _ assms(2)] by (auto simp: users find_None_iff)
  let ?n = "\<lparr>us_id = rc_newId rc, us_workosUserId = us_workosUserId u, us_email = us_email u,
      us_displayName = display_name (ws_user session), us_createdAt = rc_now rc, us_deletedAt = None,
      us_authMethod = ''magic_auth'', us_emailVerifiedAt = None, us_lastAuthenticatedAt = None\<rparr>"
  have "\<not> holds_address ?n x" if "x \<in> set (ew_users w')" for x
  proof
    assume h: "holds_address ?n x"
    have x: "x \<in> set (ew_users w)" "us_id x \<noteq> us_id u" using that users by auto
    have "holds_address u x" using h by (simp add: holds_address_def) (metis option.distinct(1))
    with assms(1,2,3) x(1) have "x = u" unfolding users_ok_def by blast
    with x(2) show False by simp
  qed
  then have free: "address_free ?n (ew_users w')" by (auto simp: address_free_def list_ex_iff)
  have fresh: "rc_newId rc \<notin> us_id ` set (ew_users w')" using assms(8) users by auto
  have up: "user_upsert (rc_now rc) (rc_newId rc) \<lparr>ui_workosUserId = wu_id (ws_user session), ui_email = wu_email (ws_user session),
        ui_displayName = display_name (ws_user session)\<rparr> (ew_users w') = (Some ?n, ew_users w' @ [?n])"
    using none free fresh by (simp add: user_upsert_def Let_def assms(6,7))
  have "auth_route rt cf rc (Rq_refresh (Some token)) \<lparr>rw_redis = r, rw_users = ew_users w', rw_audit = trail\<rparr> =
      establish rt cf rc session Bearer Refreshed \<lparr>rw_redis = r, rw_users = ew_users w', rw_audit = trail\<rparr>"
    by (simp add: auth_route_def auth_refresh_def assms(5))
  then obtain answer v where v: "auth_route rt cf rc (Rq_refresh (Some token)) \<lparr>rw_redis = r, rw_users = ew_users w', rw_audit = trail\<rparr> =
      (Replied answer, v)" "rw_users v = ew_users w' @ [?n]"
    using up by (auto simp: establish_def Let_def)
  show ?thesis by (rule exI [of _ answer], rule exI [of _ v], rule exI [of _ ?n]) (use v in simp)
qed

subsection \<open>Witnesses\<close>

definition demo_config :: auth_config where
  "demo_config = \<lparr>cf_enforced = True, cf_allowlist = [''a'' @ [CHR 0x40] @ ''b.c''], cf_cookieName = ''pf'', cf_cookieSecure = True,
     cf_cookieTtl = 3600, cf_cookieKey = demo_kek,
     cf_magic = \<lparr>mo_perIpMax = 5, mo_perEmailMax = 5, mo_verifyMax = 5, mo_windowSeconds = 900, mo_floorMs = 400\<rparr>\<rparr>"

definition demo_session_text :: string where
  "demo_session_text = stringify (JObj [(''user'', JObj [(''id'', JStr ''w1''), (''email'', JNull)]),
     (''access_token'', JStr ''at''), (''refresh_token'', JStr ''rt'')])"

definition demo_route_parts :: route_parts where
  "demo_route_parts = \<lparr>rt_sha = Legal_Consent.demo_sha, rt_seal = toy_seal, rt_open = toy_open, rt_iso = demo_iso,
     rt_workos = wo_new ''https://api.workos.com'' ''c'' ''k'', rt_fetch = (\<lambda>_. Some (200, demo_session_text))\<rparr>"

definition demo_route_call :: "string \<Rightarrow> route_call" where
  "demo_route_call country = \<lparr>rc_now = 10000, rc_endNow = 10400,
     rc_budgets = \<lparr>bt_ipAt = 10000, bt_ipFault = Reached, bt_emailAt = 10001, bt_emailFault = Reached\<rparr>,
     rc_newId = ''u9'', rc_nonce = replicate 12 (CHR ''n''), rc_auditFails = False, rc_revokeFails = False,
     rc_peer = Some ''172.17.0.1'', rc_country = Once country, rc_ip = ''203.0.113.9'', rc_cookie = None, rc_session = None\<rparr>"

definition demo_route_world :: route_world where
  "demo_route_world = \<lparr>rw_redis = [], rw_users = [], rw_audit = []\<rparr>"

definition demo_verify_request :: route_request where
  "demo_verify_request = Rq_verify (''A'' @ [CHR 0x40] @ ''b.c'') ''123456'' (Some Cookie)"

definition demo_verify_answer :: "string \<Rightarrow> route_answer \<times> route_world" where
  "demo_verify_answer country = auth_route demo_route_parts demo_config (demo_route_call country) demo_verify_request demo_route_world"

definition demo_session :: workos_session where
  "demo_session = \<lparr>ws_user = \<lparr>wu_id = ''w1'', wu_email = None, wu_firstName = None, wu_lastName = None, wu_emailVerified = None,
     wu_createdAt = None\<rparr>, ws_accessToken = ''at'', ws_refreshToken = ''rt''\<rparr>"

lemma demo_exchange:
  "fst (verifyCode (rt_sha demo_route_parts) (rt_workos demo_route_parts) (cf_magic demo_config) (rt_fetch demo_route_parts)
     (rc_budgets (demo_route_call ''US'')) (''A'' @ [CHR 0x40] @ ''b.c'') ''123456'' (rc_ip (demo_route_call ''US'')) (rw_redis demo_route_world)) =
   Inr demo_session"
  by code_simp

definition is_reply :: "route_answer \<Rightarrow> bool" where
  "is_reply a = (case a of Replied _ \<Rightarrow> True | _ \<Rightarrow> False)"

lemma demo_replied: "is_reply (fst (demo_verify_answer ''US''))"
proof -
  let ?v = "verifyCode (rt_sha demo_route_parts) (rt_workos demo_route_parts) (cf_magic demo_config) (rt_fetch demo_route_parts)
     (rc_budgets (demo_route_call ''US'')) (''A'' @ [CHR 0x40] @ ''b.c'') ''123456'' (rc_ip (demo_route_call ''US'')) (rw_redis demo_route_world)"
  have v: "?v = (Inr demo_session, snd ?v)" using demo_exchange by (metis prod.collapse)
  have here: "offered_here demo_config (demo_route_call ''US'')" "admitted demo_config (''A'' @ [CHR 0x40] @ ''b.c'')" by code_simp+
  have "demo_verify_answer ''US'' = establish demo_route_parts demo_config (demo_route_call ''US'') demo_session Cookie Verified
      (demo_route_world\<lparr>rw_redis := snd ?v\<rparr>)"
    unfolding demo_verify_answer_def demo_verify_request_def auth_route_def
    by (simp only: route_request.case auth_verify_def gates here if_True option.case orelse_simps) (subst v, simp)
  moreover have "is_reply (fst (establish rt cf rc demo_session Cookie Verified (demo_route_world\<lparr>rw_redis := r\<rparr>)))" for rt cf rc r
    by (simp add: establish_def user_upsert_def demo_route_world_def demo_session_def address_free_def Let_def is_reply_def
        split: prod.splits)
  ultimately show ?thesis by simp
qed

theorem no_account_past_the_gates_witness:
  "snd (demo_verify_answer ''DE'') = demo_route_world"
proof -
  obtain answer w' where a: "auth_route demo_route_parts demo_config (demo_route_call ''DE'') demo_verify_request demo_route_world = (answer, w')"
    by (cases "auth_route demo_route_parts demo_config (demo_route_call ''DE'') demo_verify_request demo_route_world")
  have q: "\<forall>t. demo_verify_request \<noteq> Rq_refresh t" by (simp add: demo_verify_request_def)
  have "\<not> offered_here demo_config (demo_route_call ''DE'')" by code_simp
  with no_account_past_the_gates [OF a q] have "w' = demo_route_world" unfolding demo_verify_request_def by blast
  then show ?thesis using a by (simp add: demo_verify_answer_def)
qed

theorem browser_is_signed_in_witness:
  "\<exists>answer w'. demo_verify_answer ''US'' = (Replied answer, w') \<and> jget ''accessToken'' (rp_body answer) = None"
proof -
  let ?v = "verifyCode (rt_sha demo_route_parts) (rt_workos demo_route_parts) (cf_magic demo_config) (rt_fetch demo_route_parts)
     (rc_budgets (demo_route_call ''US'')) (''A'' @ [CHR 0x40] @ ''b.c'') ''123456'' (rc_ip (demo_route_call ''US'')) (rw_redis demo_route_world)"
  have v: "?v = (Inr demo_session, snd ?v)" using demo_exchange by (metis prod.collapse)
  obtain a w' where d: "demo_verify_answer ''US'' = (a, w')" by (cases "demo_verify_answer ''US''")
  then obtain answer where answer: "a = Replied answer" using demo_replied by (cases a) (simp_all add: is_reply_def)
  let ?pt = "\<lparr>pt_verify = demo_verify, pt_sha = Legal_Consent.demo_sha, pt_open = toy_open\<rparr>"
  let ?pl = "demo_plugin\<lparr>pl_cookie := Some (demo_kek, ''pf'')\<rparr>"
  have aead: "is_aead (rt_seal demo_route_parts) (pt_open ?pt)" using toy_is_aead by (simp add: demo_route_parts_def)
  have key: "length (cf_cookieKey demo_config) = 32" "length (rc_nonce (demo_route_call ''US'')) = 12"
    using demo_facts(2) by (simp_all add: demo_config_def demo_route_call_def)
  have tokens: "ws_accessToken demo_session \<noteq> []" "ws_refreshToken demo_session \<noteq> []" by (simp_all add: demo_session_def)
  have pl: "pl_cookie ?pl = Some (cf_cookieKey demo_config, cf_cookieName demo_config)" by (simp add: demo_config_def)
  from browser_is_signed_in [OF aead key v tokens d [unfolded demo_verify_answer_def demo_verify_request_def answer] pl] d answer
  show ?thesis by blast
qed

theorem refresh_revives_erased_witness:
  "\<exists>answer v n. auth_route demo_route_parts demo_config (demo_route_call ''DE'') (Rq_refresh (Some ''rt''))
       \<lparr>rw_redis = [], rw_users = ew_users (snd (snd (demo_delete Ledger_fine))), rw_audit = []\<rparr> = (Replied answer, v) \<and>
     n \<in> set (rw_users v) \<and> us_workosUserId n = ''w1'' \<and> us_deletedAt n = None \<and> us_email n = None \<and> us_id n = ''u9''"
proof -
  obtain a calls w' where d: "demo_delete Ledger_fine = (a, calls, w')" by (cases "demo_delete Ledger_fine")
  have "\<not> isl (fst (demo_delete Ledger_fine))" by code_simp
  then obtain outcome where outcome: "a = Inr outcome" using d by (cases a) simp_all
  have u: "us_id demo_user = ''u1''" "us_workosUserId demo_user = ''w1''" "us_email demo_user = None" "us_deletedAt demo_user = None"
    by (simp_all add: demo_user_def)
  have users: "ew_users demo_erasure = [demo_user]" by (simp add: demo_erasure_def)
  have ok: "users_ok (ew_users demo_erasure)" "demo_user \<in> set (ew_users demo_erasure)" by (simp_all add: users users_ok_def)
  have "wo_refresh (rt_workos demo_route_parts) (rt_fetch demo_route_parts) ''rt'' = Inr demo_session" by code_simp
  note revived = refresh_revives_erased [OF ok u(4) d [unfolded demo_delete_def outcome, folded u(1,2)] this, of "demo_route_call ''DE''" demo_config "[]" "[]"]
  have new: "rc_newId (demo_route_call ''DE'') = ''u9''" by (simp add: demo_route_call_def)
  have "map_option js_toLowerCase (wu_email (ws_user demo_session)) = us_email demo_user" "wu_id (ws_user demo_session) = us_workosUserId demo_user"
    "rc_newId (demo_route_call ''DE'') \<notin> us_id ` set (ew_users demo_erasure)"
    by (simp_all add: u demo_session_def users new)
  with revived d show ?thesis unfolding u new by simp
qed

end
