(* ===== verification/Idempotency.thy ===== *)
theory Idempotency
  imports Js_Sort Js_Json
begin

text \<open>
  Idempotent writes: \<^verbatim>\<open>apps/bff/src/lib/idempotency.ts\<close>, the handler of
  \<^verbatim>\<open>POST /v1/wishlist\<close> that uses it (\<^verbatim>\<open>apps/bff/src/routes/v1/wishlist.ts\<close>). A statement is a step on the
  table, whose primary key is the pair of user and key; the hash is a parameter. The handler
  is a state machine over its statements, so that requests interleave between them.
\<close>

subsection \<open>The fingerprint of a request\<close>

definition key_char :: "char \<Rightarrow> bool" where
  "key_char c \<longleftrightarrow> (let n = code c in (65 \<le> n \<and> n \<le> 90) \<or> (97 \<le> n \<and> n \<le> 122) \<or> (48 \<le> n \<and> n \<le> 57) \<or>
     c \<in> {CHR ''_'', CHR ''.'', CHR '':'', CHR ''-''})"

text \<open>\<open>None\<close> in the header is a value that is not a string; \<open>None\<close> in the answer is the 400.\<close>

definition requireIdempotencyKey :: "string option \<Rightarrow> string option" where
  "requireIdempotencyKey raw = (case raw of
     None \<Rightarrow> None
   | Some s \<Rightarrow> if s = [] then None
       else if \<not> (8 \<le> length s \<and> length s \<le> 255 \<and> list_all key_char s) then None else Some s)"

definition by_name :: "string \<times> 'a \<Rightarrow> string \<times> 'a \<Rightarrow> real" where
  "by_name p q = code_units (map of_char (fst p)) (map of_char (fst q))"

lemma size_json_member: "(k, v) \<in> set kvs \<Longrightarrow> size v < Suc (size_list (size_prod (\<lambda>_. 0) size) kvs)"
  by (induction kvs) auto

lemma size_json_element: "j \<in> set js \<Longrightarrow> size j < Suc (size_list size js)"
  by (induction js) auto

function canonical :: "json \<Rightarrow> string" where
  "canonical (JArr js) = CHR ''['' # js_join '','' (map canonical js) @ '']''"
| "canonical (JObj kvs) =
     CHR ''{'' # js_join '','' (map (\<lambda>(k, v). json_quote k @ CHR '':'' # canonical v) (js_sort by_name kvs)) @ ''}''"
| "canonical JNull = stringify JNull"
| "canonical (JBool b) = stringify (JBool b)"
| "canonical (JNum n) = stringify (JNum n)"
| "canonical (JStr s) = stringify (JStr s)"
  by pat_completeness auto

termination
  by (relation "measure size") (auto dest: size_json_member size_json_element)

text \<open>An absent body is undefined.\<close>

definition canonicalise :: "json option \<Rightarrow> string" where
  "canonicalise body = (case body of None \<Rightarrow> ''undefined'' | Some v \<Rightarrow> canonical v)"

definition fingerprint :: "(string \<Rightarrow> string) \<Rightarrow> string \<Rightarrow> string \<Rightarrow> json option \<Rightarrow> string" where
  "fingerprint sha256 verb route body =
     sha256 (verb @ CHR 0x0A # route @ CHR 0x0A # canonicalise body)"

text \<open>What the canonical text is the text of: the value with its members in order.\<close>

function normal_form :: "json \<Rightarrow> json" where
  "normal_form (JArr js) = JArr (map normal_form js)"
| "normal_form (JObj kvs) = JObj (map (\<lambda>(k, v). (k, normal_form v)) (js_sort by_name kvs))"
| "normal_form JNull = JNull"
| "normal_form (JBool b) = JBool b"
| "normal_form (JNum n) = JNum n"
| "normal_form (JStr s) = JStr s"
  by pat_completeness auto

termination
  by (relation "measure size") (auto dest: size_json_member size_json_element)

lemma canonical_text: "canonical v = stringify (normal_form v)"
proof (induction v rule: canonical.induct)
  case (1 js)
  then show ?case by (simp add: stringify.simps cong: map_cong)
next
  case (2 kvs)
  then have "map (\<lambda>(k, v). json_quote k @ CHR '':'' # canonical v) (js_sort by_name kvs) =
      map (\<lambda>(k, v). json_quote k @ CHR '':'' # stringify v) (map (\<lambda>(k, v). (k, normal_form v)) (js_sort by_name kvs))"
    by (auto intro!: map_cong)
  then show ?case by (simp only: canonical.simps normal_form.simps stringify.simps)
qed (simp_all add: stringify.simps)

lemma normal_form_ok: "json_ok v \<Longrightarrow> json_ok (normal_form v)"
proof (induction v rule: normal_form.induct)
  case (1 js)
  then show ?case by (auto simp: list_all_iff)
next
  case (2 kvs)
  have "map fst (map (\<lambda>(k, v). (k, normal_form v)) (js_sort by_name kvs)) = map fst (js_sort by_name kvs)"
    by (simp add: case_prod_beta comp_def)
  moreover have "json_ok (normal_form v)" if "(k, v) \<in> set kvs" for k v
    using 2 that by (auto simp: list_all_iff)
  ultimately show ?case using 2(2) by (auto simp: list_all_iff simp del: list.map_comp map_map)
qed simp_all

lemma by_name_flip: "by_name y x = - by_name x y"
  unfolding by_name_def by (rule code_units_flip)

lemma by_name_trans: "by_name x y \<le> 0 \<Longrightarrow> by_name y z \<le> 0 \<Longrightarrow> by_name x z \<le> 0"
  unfolding by_name_def by (rule code_units_trans)

interpretation by_name: js_comparator by_name
proof unfold_locales
  show "sgn (by_name y x) = - sgn (by_name x y)" for x y
    by (subst by_name_flip) (rule sgn_minus)
qed (rule by_name_trans)

text \<open>The order of the members does not matter.\<close>

lemma member_order:
  assumes "distinct (map fst kvs)" and "mset kvs = mset kvs'"
  shows "js_sort by_name kvs = js_sort by_name kvs'"
proof (rule sorted_wrt_unique [OF _ by_name.sort_sorted by_name.sort_sorted], intro ballI impI)
  fix p q
  assume pq: "p \<in> set (js_sort by_name kvs)" "q \<in> set (js_sort by_name kvs)"
    and "by_name p q \<le> 0" "by_name q p \<le> 0"
  then have "by_name p q = 0" using by_name_flip [of q p] by simp
  then have "fst p = fst q" by (simp add: by_name_def inj_map_eq_map inj_of_char)
  with pq assms(1) show "p = q" by (simp add: distinct_map inj_on_def)
qed (simp add: assms(2))

subsection \<open>The records\<close>

type_synonym idem_key = "string \<times> string"  \<comment> \<open>user, key\<close>

record stored_response =
  st_status :: int
  st_body :: json

record idem_row =
  ir_requestHash :: string
  ir_response :: "stored_response option"
  ir_expiresAt :: time

type_synonym idem_table = "(idem_key \<times> idem_row) list"

text \<open>The default of \<open>expires_at\<close>: 24 hours after the insertion.\<close>

definition IDEM_TTL :: int where
  "IDEM_TTL = 86400000"

datatype claim_answer =
    Owns
  | Replays stored_response
  | Key_reuse  \<comment> \<open>409: the same key for another request\<close>
  | In_flight  \<comment> \<open>409: claimed and not answered\<close>

text \<open>The two statements of \<open>claim\<close>: the insertion that does nothing on a conflict, and the reading
  of the row that won.\<close>

definition claim_insert :: "time \<Rightarrow> idem_key \<Rightarrow> string \<Rightarrow> idem_table \<Rightarrow> bool \<times> idem_table" where
  "claim_insert now key requestHash t =
     (if map_of t key = None
      then (True, AList.update key \<lparr>ir_requestHash = requestHash, ir_response = None, ir_expiresAt = now + IDEM_TTL\<rparr> t)
      else (False, t))"

definition claim_read :: "time \<Rightarrow> idem_key \<Rightarrow> string \<Rightarrow> idem_table \<Rightarrow> claim_answer" where
  "claim_read now key requestHash t =
     (case map_of t key of
        None \<Rightarrow> Owns
      | Some row \<Rightarrow>
          if \<not> ir_expiresAt row > now then Owns
          else if ir_requestHash row \<noteq> requestHash then Key_reuse
          else case ir_response row of None \<Rightarrow> In_flight | Some resp \<Rightarrow> Replays resp)"

definition claim :: "time \<Rightarrow> idem_key \<Rightarrow> string \<Rightarrow> idem_table \<Rightarrow> claim_answer \<times> idem_table" where
  "claim now key requestHash t =
     (case claim_insert now key requestHash t of
        (True, t') \<Rightarrow> (Owns, t')
      | (False, t') \<Rightarrow> (claim_read now key requestHash t', t'))"

definition complete :: "idem_key \<Rightarrow> stored_response \<Rightarrow> idem_table \<Rightarrow> idem_table" where
  "complete key resp t =
     (case map_of t key of None \<Rightarrow> t | Some row \<Rightarrow> AList.update key (row\<lparr>ir_response := Some resp\<rparr>) t)"

definition release :: "idem_key \<Rightarrow> idem_table \<Rightarrow> idem_table" where
  "release key t =
     (case map_of t key of
        None \<Rightarrow> t
      | Some row \<Rightarrow> if ir_response row = None then AList.delete key t else t)"

subsection \<open>The handler\<close>

text \<open>A request between its statements: its insertion met a conflict, it owns the key, or its
  operation failed and it has to free the key.\<close>

datatype idem_phase = Conflicted | Owner | Failing

record idem_request =
  iq_key :: idem_key
  iq_hash :: string
  iq_phase :: idem_phase

text \<open>\<open>iw_runs\<close> is the log of the operations that committed, with their answers; \<open>iw_answers\<close> of
  the answers given without running it.\<close>

record idem_world =
  iw_table :: idem_table
  iw_requests :: "(nat \<times> idem_request) list"
  iw_runs :: "(idem_key \<times> stored_response) list"
  iw_answers :: "(idem_key \<times> claim_answer) list"

datatype idem_event =
    Post nat idem_key string time
  | Read_claim nat time
  | Run nat "stored_response option"  \<comment> \<open>\<open>None\<close>: the operation throws and its transaction rolls back\<close>
  | Free nat
  | Crash nat

definition idem_step :: "idem_event \<Rightarrow> idem_world \<Rightarrow> idem_world" where
  "idem_step e w = (case e of
     Post i key h now \<Rightarrow>
       (case map_of (iw_requests w) i of
          Some _ \<Rightarrow> w
        | None \<Rightarrow>
            (case claim_insert now key h (iw_table w) of (won, t) \<Rightarrow>
               w\<lparr>iw_table := t,
                 iw_requests := (i, \<lparr>iq_key = key, iq_hash = h, iq_phase = (if won then Owner else Conflicted)\<rparr>) # iw_requests w\<rparr>))
   | Read_claim i now \<Rightarrow>
       (case map_of (iw_requests w) i of
          Some rq \<Rightarrow>
            if iq_phase rq \<noteq> Conflicted then w
            else (case claim_read now (iq_key rq) (iq_hash rq) (iw_table w) of
              Owns \<Rightarrow> w\<lparr>iw_requests := AList.update i (rq\<lparr>iq_phase := Owner\<rparr>) (iw_requests w)\<rparr>
            | answer \<Rightarrow> w\<lparr>iw_requests := AList.delete i (iw_requests w),
                          iw_answers := iw_answers w @ [(iq_key rq, answer)]\<rparr>)
        | None \<Rightarrow> w)
   | Run i outcome \<Rightarrow>
       (case map_of (iw_requests w) i of
          Some rq \<Rightarrow>
            if iq_phase rq \<noteq> Owner then w
            else (case outcome of
              Some resp \<Rightarrow> w\<lparr>iw_table := complete (iq_key rq) resp (iw_table w),
                             iw_requests := AList.delete i (iw_requests w),
                             iw_runs := iw_runs w @ [(iq_key rq, resp)]\<rparr>
            | None \<Rightarrow> w\<lparr>iw_requests := AList.update i (rq\<lparr>iq_phase := Failing\<rparr>) (iw_requests w)\<rparr>)
        | None \<Rightarrow> w)
   | Free i \<Rightarrow>
       (case map_of (iw_requests w) i of
          Some rq \<Rightarrow>
            if iq_phase rq \<noteq> Failing then w
            else w\<lparr>iw_table := release (iq_key rq) (iw_table w), iw_requests := AList.delete i (iw_requests w)\<rparr>
        | None \<Rightarrow> w)
   | Crash i \<Rightarrow> w\<lparr>iw_requests := AList.delete i (iw_requests w)\<rparr>)"

subsection \<open>One run for one key\<close>

definition owners :: "idem_key \<Rightarrow> idem_world \<Rightarrow> nat" where
  "owners K w = length (filter (\<lambda>p. iq_key (snd p) = K \<and> iq_phase (snd p) = Owner) (iw_requests w))"

definition runs_of :: "idem_key \<Rightarrow> idem_world \<Rightarrow> stored_response list" where
  "runs_of K w = map snd (filter (\<lambda>r. fst r = K) (iw_runs w))"

text \<open>Nobody asked for \<open>K\<close> yet; or its record outlives \<open>B\<close> and either one request at most owns it
  and it never ran, or it ran once, the record holds the answer and nobody owns it. Only
  requests in \<open>F\<close> fail, and none of them is for \<open>K\<close>.\<close>

definition asked :: "idem_key \<Rightarrow> idem_world \<Rightarrow> bool" where
  "asked K w \<longleftrightarrow> list_ex (\<lambda>p. iq_key (snd p) = K) (iw_requests w)"

definition record_state :: "time \<Rightarrow> idem_row option \<Rightarrow> bool \<Rightarrow> nat \<Rightarrow> stored_response list \<Rightarrow> bool" where
  "record_state B row any n runs \<longleftrightarrow> (case row of
     None \<Rightarrow> \<not> any \<and> runs = []
   | Some row \<Rightarrow> B \<le> ir_expiresAt row \<and>
       (case ir_response row of
          None \<Rightarrow> n \<le> 1 \<and> runs = []
        | Some resp \<Rightarrow> n = 0 \<and> runs = [resp]))"

definition idem_inv :: "time \<Rightarrow> nat set \<Rightarrow> idem_key \<Rightarrow> idem_world \<Rightarrow> bool" where
  "idem_inv B F K w \<longleftrightarrow> distinct (map fst (iw_requests w)) \<and>
     (\<forall>p \<in> set (iw_requests w). iq_key (snd p) = K \<longrightarrow> fst p \<notin> F \<and> iq_phase (snd p) \<noteq> Failing) \<and>
     record_state B (map_of (iw_table w) K) (asked K w) (owners K w) (runs_of K w) \<and>
     (\<forall>a \<in> set (iw_answers w). fst a = K \<longrightarrow> (\<forall>r. snd a = Replays r \<longrightarrow> r \<in> set (runs_of K w)))"

definition idem_ok :: "time \<Rightarrow> nat set \<Rightarrow> idem_key \<Rightarrow> idem_event \<Rightarrow> bool" where
  "idem_ok B F K e = (case e of
     Post i key h now \<Rightarrow> B \<le> now + IDEM_TTL \<and> (key = K \<longrightarrow> i \<notin> F)
   | Read_claim i now \<Rightarrow> now < B
   | Run i outcome \<Rightarrow> outcome = None \<longrightarrow> i \<in> F
   | _ \<Rightarrow> True)"

lemma owners_update:
  "distinct (map fst (iw_requests w)) \<Longrightarrow> map_of (iw_requests w) i = Some rq \<Longrightarrow>
     owners K (w\<lparr>iw_requests := AList.update i rq' (iw_requests w)\<rparr>) + (if iq_key rq = K \<and> iq_phase rq = Owner then 1 else 0) =
     owners K w + (if iq_key rq' = K \<and> iq_phase rq' = Owner then 1 else 0)"
  using filter_update_count [of "iw_requests w" i rq "\<lambda>q. iq_key q = K \<and> iq_phase q = Owner" rq']
  by (simp add: owners_def)

lemma owners_delete:
  "distinct (map fst (iw_requests w)) \<Longrightarrow> map_of (iw_requests w) i = Some rq \<Longrightarrow>
     owners K (w\<lparr>iw_requests := AList.delete i (iw_requests w)\<rparr>) + (if iq_key rq = K \<and> iq_phase rq = Owner then 1 else 0) =
     owners K w"
  using filter_delete_count [of "iw_requests w" i rq "\<lambda>q. iq_key q = K \<and> iq_phase q = Owner"]
  by (simp add: owners_def)

lemma owners_cong: "iw_requests w = iw_requests w' \<Longrightarrow> owners K w = owners K w'"
  by (simp add: owners_def)

lemma runs_of_cong: "iw_runs w = iw_runs w' \<Longrightarrow> runs_of K w = runs_of K w'"
  by (simp add: runs_of_def)

lemma runs_of_snoc: "runs_of K (w\<lparr>iw_runs := iw_runs w' @ [(K', r)]\<rparr>) = runs_of K w' @ (if K' = K then [r] else [])"
  by (simp add: runs_of_def)

lemma map_of_complete: "map_of (complete K' resp t) K =
    (if K' = K then map_option (\<lambda>row. row\<lparr>ir_response := Some resp\<rparr>) (map_of t K) else map_of t K)"
  by (auto simp: complete_def AList.update_conv' split: option.split)

lemma map_of_release: "K' \<noteq> K \<Longrightarrow> map_of (release K' t) K = map_of t K"
  by (auto simp: release_def AList.delete_conv' split: option.split)

text \<open>A request that is gone: the others stay, and only its own key may have lost an owner.\<close>

lemma idem_inv_delete:
  assumes "idem_inv B F K w" and "map_of (iw_requests w) i = Some rq"
    and "w' = w\<lparr>iw_requests := AList.delete i (iw_requests w)\<rparr>"
  shows "idem_inv B F K w'"
proof -
  have "owners K w' \<le> owners K w"
    using owners_delete [OF _ assms(2), of K] assms(1) by (simp add: idem_inv_def assms(3))
  moreover have "distinct (map fst (iw_requests w'))" "set (iw_requests w') \<subseteq> set (iw_requests w)"
    using assms(1) by (simp_all add: idem_inv_def assms(3) distinct_delete set_delete_subset)
  moreover have "runs_of K w' = runs_of K w" "iw_table w' = iw_table w" "iw_answers w' = iw_answers w"
    by (simp_all add: assms(3) runs_of_def)
  moreover have "asked K w' \<Longrightarrow> asked K w"
    using \<open>set (iw_requests w') \<subseteq> set (iw_requests w)\<close> by (auto simp: asked_def list_ex_iff)
  ultimately show ?thesis
    using assms(1) by (auto simp: idem_inv_def record_state_def split: option.splits)
qed

lemma owners_zero: "\<not> asked K w \<Longrightarrow> owners K w = 0"
  by (auto simp: owners_def asked_def filter_empty_conv list_ex_iff)

lemma owner_counted: "(i, rq) \<in> set (iw_requests w) \<Longrightarrow> iq_key rq = K \<Longrightarrow> iq_phase rq = Owner \<Longrightarrow> 0 < owners K w"
  by (force simp: owners_def filter_empty_conv)

lemma asked_mem: "(i, rq) \<in> set (iw_requests w) \<Longrightarrow> iq_key rq = K \<Longrightarrow> asked K w"
  by (force simp: asked_def list_ex_iff)

lemma idem_inv_post:
  assumes inv: "idem_inv B F K w" and ok: "idem_ok B F K (Post i key h now)"
  shows "idem_inv B F K (idem_step (Post i key h now) w)"
proof (cases "map_of (iw_requests w) i")
  case None
  then have new: "i \<notin> fst ` set (iw_requests w)" by (simp add: map_of_eq_None_iff)
  obtain won t where c: "claim_insert now key h (iw_table w) = (won, t)" by fastforce
  let ?rq = "\<lparr>iq_key = key, iq_hash = h, iq_phase = (if won then Owner else Conflicted)\<rparr>"
  let ?w = "w\<lparr>iw_table := t, iw_requests := (i, ?rq) # iw_requests w\<rparr>"
  have step: "idem_step (Post i key h now) w = ?w" by (simp add: idem_step_def None c)
  have own: "owners K ?w = owners K w + (if key = K \<and> won then 1 else 0)" by (simp add: owners_def)
  have ask: "asked K ?w = (key = K \<or> asked K w)" by (simp add: asked_def)
  have runs: "runs_of K ?w = runs_of K w" by (simp add: runs_of_def)
  have rs: "record_state B (map_of (iw_table w) K) (asked K w) (owners K w) (runs_of K w)"
    using inv by (simp add: idem_inv_def)
  have "record_state B (map_of t K) (asked K ?w) (owners K ?w) (runs_of K ?w)"
  proof (cases "key = K")
    case True
    show ?thesis
    proof (cases "map_of (iw_table w) K")
      case None
      then have "won" "map_of t K = Some \<lparr>ir_requestHash = h, ir_response = None, ir_expiresAt = now + IDEM_TTL\<rparr>"
        using c True by (auto simp: claim_insert_def AList.update_conv')
      moreover have "owners K w = 0" "runs_of K w = []"
        using rs None owners_zero [of K w] by (auto simp: record_state_def)
      ultimately show ?thesis unfolding own runs ask using ok by (simp add: record_state_def idem_ok_def)
    next
      case (Some row)
      then have "\<not> won" "t = iw_table w" using c True by (auto simp: claim_insert_def)
      then show ?thesis unfolding own runs ask using rs Some by (simp add: record_state_def)
    qed
  next
    case False
    then have "map_of t K = map_of (iw_table w) K" using c by (auto simp: claim_insert_def AList.update_conv' split: if_splits)
    then show ?thesis unfolding own runs ask using rs False by simp
  qed
  then have "record_state B (map_of (iw_table ?w) K) (asked K ?w) (owners K ?w) (runs_of K ?w)" by simp
  moreover have "distinct (map fst (iw_requests ?w))" using inv new by (simp add: idem_inv_def)
  moreover have "\<forall>p \<in> set (iw_requests ?w). iq_key (snd p) = K \<longrightarrow> fst p \<notin> F \<and> iq_phase (snd p) \<noteq> Failing"
    using inv ok by (auto simp: idem_inv_def idem_ok_def)
  ultimately show ?thesis unfolding step idem_inv_def runs using inv by (simp add: idem_inv_def)
qed (use inv in \<open>simp add: idem_step_def\<close>)

lemma idem_inv_update:
  assumes inv: "idem_inv B F K w" and rq: "map_of (iw_requests w) i = Some rq" and "iq_key rq \<noteq> K"
  shows "idem_inv B F K (w\<lparr>iw_requests := AList.update i (rq\<lparr>iq_phase := ph\<rparr>) (iw_requests w)\<rparr>)"
proof -
  let ?rq = "rq\<lparr>iq_phase := ph\<rparr>"
  let ?w = "w\<lparr>iw_requests := AList.update i ?rq (iw_requests w)\<rparr>"
  have sub: "set (iw_requests ?w) \<subseteq> insert (i, ?rq) (set (iw_requests w))" by (simp add: set_update_subset)
  have "owners K ?w = owners K w" using owners_update [OF _ rq, of K ?rq] inv assms(3) by (simp add: idem_inv_def)
  moreover have "asked K ?w \<Longrightarrow> asked K w" using sub assms(3) by (auto simp: asked_def list_ex_iff)
  moreover have "runs_of K ?w = runs_of K w" by (simp add: runs_of_def)
  moreover have "\<forall>p \<in> set (iw_requests ?w). iq_key (snd p) = K \<longrightarrow> fst p \<notin> F \<and> iq_phase (snd p) \<noteq> Failing"
    using inv sub assms(3) by (auto simp: idem_inv_def)
  moreover have "distinct (map fst (iw_requests ?w))" using inv by (simp add: idem_inv_def distinct_update)
  ultimately show ?thesis
    using inv unfolding idem_inv_def by (auto simp: record_state_def split: option.splits)
qed

lemma idem_inv_answered:
  assumes inv: "idem_inv B F K w" and "map_of (iw_requests w) i = Some rq"
    and "iq_key rq = K \<Longrightarrow> \<forall>r. a = Replays r \<longrightarrow> r \<in> set (runs_of K w)"
  shows "idem_inv B F K (w\<lparr>iw_requests := AList.delete i (iw_requests w), iw_answers := iw_answers w @ [(iq_key rq, a)]\<rparr>)"
proof -
  let ?del = "w\<lparr>iw_requests := AList.delete i (iw_requests w)\<rparr>"
  have "idem_inv B F K ?del" by (rule idem_inv_delete [OF assms(1,2)]) simp
  then show ?thesis using assms(3)
    by (auto simp: idem_inv_def asked_def owners_def runs_of_def)
qed

lemma idem_inv_read:
  assumes inv: "idem_inv B F K w" and ok: "idem_ok B F K (Read_claim i now)"
  shows "idem_inv B F K (idem_step (Read_claim i now) w)"
proof (cases "\<exists>rq. map_of (iw_requests w) i = Some rq \<and> iq_phase rq = Conflicted")
  case True
  then obtain rq where rq: "map_of (iw_requests w) i = Some rq" "iq_phase rq = Conflicted" by blast
  show ?thesis
  proof (cases "iq_key rq = K")
    case True
    then have "asked K w" using asked_mem [OF map_of_SomeD [OF rq(1)]] by simp
    then obtain row where row: "map_of (iw_table w) K = Some row" "B \<le> ir_expiresAt row"
      "\<forall>resp. ir_response row = Some resp \<longrightarrow> runs_of K w = [resp]"
      using inv by (auto simp: idem_inv_def record_state_def split: option.splits)
    then have "claim_read now K (iq_hash rq) (iw_table w) =
        (if ir_requestHash row \<noteq> iq_hash rq then Key_reuse
         else case ir_response row of None \<Rightarrow> In_flight | Some resp \<Rightarrow> Replays resp)"
      using ok by (simp add: claim_read_def idem_ok_def)
    then show ?thesis
      using idem_inv_answered [OF inv rq(1)] row(3) rq True
      by (auto simp: idem_step_def split: option.split)
  next
    case False
    then show ?thesis
      using idem_inv_answered [OF inv rq(1)] idem_inv_update [OF inv rq(1) False] rq
      by (auto simp: idem_step_def split: claim_answer.split)
  qed
qed (use inv in \<open>auto simp: idem_step_def split: option.split\<close>)

lemma idem_inv_run:
  assumes inv: "idem_inv B F K w" and ok: "idem_ok B F K (Run i outcome)"
  shows "idem_inv B F K (idem_step (Run i outcome) w)"
proof (cases "\<exists>rq. map_of (iw_requests w) i = Some rq \<and> iq_phase rq = Owner")
  case True
  then obtain rq where rq: "map_of (iw_requests w) i = Some rq" "iq_phase rq = Owner" by blast
  note mem = map_of_SomeD [OF rq(1)]
  show ?thesis
  proof (cases outcome)
    case None
    then have "iq_key rq \<noteq> K" using ok inv mem by (force simp: idem_ok_def idem_inv_def)
    from idem_inv_update [OF inv rq(1) this] show ?thesis using None rq by (simp add: idem_step_def)
  next
    case (Some resp)
    let ?del = "w\<lparr>iw_requests := AList.delete i (iw_requests w)\<rparr>"
    let ?w = "?del\<lparr>iw_table := complete (iq_key rq) resp (iw_table w), iw_runs := iw_runs w @ [(iq_key rq, resp)]\<rparr>"
    have step: "idem_step (Run i outcome) w = ?w" using rq Some by (simp add: idem_step_def)
    have del: "idem_inv B F K ?del" by (rule idem_inv_delete [OF inv rq(1)]) simp
    have frame: "owners K ?w = owners K ?del" "asked K ?w = asked K ?del" by (simp_all add: owners_def asked_def)
    have runs: "runs_of K ?w = runs_of K ?del @ (if iq_key rq = K then [resp] else [])" by (simp add: runs_of_def)
    have "record_state B (map_of (iw_table ?w) K) (asked K ?w) (owners K ?w) (runs_of K ?w)"
    proof (cases "iq_key rq = K")
      case True
      have "0 < owners K w" using owner_counted [OF mem True rq(2)] .
      then obtain row where row: "map_of (iw_table w) K = Some row" "ir_response row = None" "B \<le> ir_expiresAt row"
        "owners K w \<le> 1" "runs_of K w = []"
        using inv owners_zero [of K w] by (auto simp: idem_inv_def record_state_def split: option.splits)
      moreover have "owners K ?del = 0"
        using owners_delete [OF _ rq(1), of K] inv row(4) True rq(2) by (simp add: idem_inv_def)
      moreover have "runs_of K ?del = runs_of K w" by (simp add: runs_of_def)
      ultimately show ?thesis unfolding frame runs by (simp add: record_state_def map_of_complete True)
    next
      case False
      then show ?thesis unfolding frame runs using del by (simp add: idem_inv_def map_of_complete)
    qed
    then show ?thesis unfolding step using del runs by (auto simp: idem_inv_def)
  qed
qed (use inv in \<open>auto simp: idem_step_def split: option.split\<close>)

lemma idem_inv_free:
  assumes inv: "idem_inv B F K w"
  shows "idem_inv B F K (idem_step (Free i) w)"
proof (cases "\<exists>rq. map_of (iw_requests w) i = Some rq \<and> iq_phase rq = Failing")
  case True
  then obtain rq where rq: "map_of (iw_requests w) i = Some rq" "iq_phase rq = Failing" by blast
  have key: "iq_key rq \<noteq> K" using inv map_of_SomeD [OF rq(1)] rq(2) by (force simp: idem_inv_def)
  have "idem_inv B F K (w\<lparr>iw_requests := AList.delete i (iw_requests w)\<rparr>)"
    by (rule idem_inv_delete [OF inv rq(1)]) simp
  then show ?thesis using rq key
    by (simp add: idem_step_def idem_inv_def map_of_release asked_def owners_def runs_of_def)
qed (use inv in \<open>auto simp: idem_step_def split: option.split\<close>)

lemma idem_inv_step: "idem_ok B F K e \<Longrightarrow> idem_inv B F K w \<Longrightarrow> idem_inv B F K (idem_step e w)"
proof (cases e)
  case (Crash i)
  moreover assume inv: "idem_inv B F K w"
  have "idem_inv B F K (w\<lparr>iw_requests := AList.delete i (iw_requests w)\<rparr>)"
  proof (cases "map_of (iw_requests w) i")
    case None
    then have "AList.delete i (iw_requests w) = iw_requests w" by (simp add: map_of_eq_None_iff)
    with inv show ?thesis by simp
  qed (rule idem_inv_delete [OF inv], simp_all)
  ultimately show ?thesis by (simp add: idem_step_def)
qed (simp_all add: idem_inv_post idem_inv_read idem_inv_run idem_inv_free)

interpretation idem_machine: guarded_machine idem_step "idem_inv B F K" "idem_ok B F K"
  by unfold_locales (rule idem_inv_step)

subsection \<open>Properties\<close>

text \<open>Claim C13. However retries interleave between their statements, and whichever processes die, the
  operation behind a key runs at most once while the record lives, and whatever is replayed
  is the answer of that run; it is enough that no run for the key itself throws.\<close>

theorem idempotent_once:
  assumes "w = run_calls idem_step \<lparr>iw_table = [], iw_requests = [], iw_runs = [], iw_answers = []\<rparr> es"
    and "\<forall>e \<in> set es. case e of Post i k h now \<Rightarrow> start \<le> now \<and> (k = K \<longrightarrow> Run i None \<notin> set es)
      | Read_claim i now \<Rightarrow> now < start + IDEM_TTL | _ \<Rightarrow> True"
  shows "length (runs_of K w) \<le> 1 \<and> (\<forall>r. (K, Replays r) \<in> set (iw_answers w) \<longrightarrow> runs_of K w = [r])"
proof -
  let ?F = "{i. Run i None \<in> set es}" and ?B = "start + IDEM_TTL"
  have "idem_inv ?B ?F K w" unfolding assms(1)
  proof (rule idem_machine.inv_ok_run)
    show "list_all (idem_ok ?B ?F K) es"
      using assms(2) by (force simp: list_all_iff idem_ok_def split: idem_event.splits)
  qed (simp add: idem_inv_def record_state_def asked_def owners_def runs_of_def)
  then have one: "length (runs_of K w) \<le> 1" and ans: "\<forall>r. (K, Replays r) \<in> set (iw_answers w) \<longrightarrow> r \<in> set (runs_of K w)"
    by (auto simp: idem_inv_def record_state_def split: option.splits)
  moreover have "runs_of K w = [r]" if "(K, Replays r) \<in> set (iw_answers w)" for r
    using one ans that by (cases "runs_of K w") auto
  ultimately show ?thesis by blast
qed

definition demo_response :: stored_response where
  "demo_response = \<lparr>st_status = 201, st_body = JStr ''item''\<rparr>"

lemma idempotent_once_witness:
  "length (runs_of (''u'', ''key-0001'') (run_calls idem_step \<lparr>iw_table = [], iw_requests = [], iw_runs = [], iw_answers = []\<rparr>
     [Post 1 (''u'', ''key-0001'') ''h'' 5, Post 2 (''u'', ''key-0001'') ''h'' 6, Read_claim 2 7, Run 1 (Some demo_response),
      Post 3 (''u'', ''key-0001'') ''h'' 8, Read_claim 3 9])) \<le> 1"
  using idempotent_once [of _ "[Post 1 (''u'', ''key-0001'') ''h'' 5, Post 2 (''u'', ''key-0001'') ''h'' 6, Read_claim 2 7,
      Run 1 (Some demo_response), Post 3 (''u'', ''key-0001'') ''h'' 8, Read_claim 3 9]" 5 "(''u'', ''key-0001'')"]
  by (simp add: IDEM_TTL_def)

text \<open>A run that throws undoes the guarantee: between the conflict of one retry and its reading the
  record can be freed, and then that retry and the next one both own the key.\<close>

theorem freed_claim_runs_twice:
  "length (runs_of (''u'', ''key-0001'') (run_calls idem_step \<lparr>iw_table = [], iw_requests = [], iw_runs = [], iw_answers = []\<rparr>
     [Post 1 (''u'', ''key-0001'') ''h'' 1, Post 2 (''u'', ''key-0001'') ''h'' 2, Run 1 None, Free 1, Read_claim 2 3,
      Post 3 (''u'', ''key-0001'') ''h'' 4, Run 2 (Some demo_response), Run 3 (Some demo_response)])) = 2"
  by (simp add: idem_step_def claim_insert_def claim_read_def release_def complete_def runs_of_def)

text \<open>The claim commits before the operation starts: a process that dies in between leaves a record
  without an answer, and until it expires every retry is told that the request is in flight; after
  it expired, and until a sweep deletes it, every request owns the key at once.\<close>

theorem dead_claim_blocks:
  assumes "claim now K h t = (Owns, t')" and "map_of t K = None" and "now \<le> now'"
  shows "claim now' K h t' = (if now' < now + IDEM_TTL then In_flight else Owns, t')"
  using assms by (auto simp: claim_def claim_insert_def claim_read_def AList.update_conv')

lemma dead_claim_blocks_witness:
  "claim 100 (''u'', ''key-0001'') ''h'' [((''u'', ''key-0001''), \<lparr>ir_requestHash = ''h'', ir_response = None, ir_expiresAt = 1 + IDEM_TTL\<rparr>)] =
     (In_flight, [((''u'', ''key-0001''), \<lparr>ir_requestHash = ''h'', ir_response = None, ir_expiresAt = 1 + IDEM_TTL\<rparr>)])"
  using dead_claim_blocks [of 1 "(''u'', ''key-0001'')" "''h''" "[]"
      "[((''u'', ''key-0001''), \<lparr>ir_requestHash = ''h'', ir_response = None, ir_expiresAt = 1 + IDEM_TTL\<rparr>)]" 100]
  by (simp add: claim_def claim_insert_def IDEM_TTL_def)

text \<open>Claim C14. A fingerprint stands for the request: two requests have the same one exactly when method, route
  and body are the same, where the order of the members of an object does not count and an
  absent body is no body at all.\<close>

theorem fingerprint_exact:
  assumes "inj sha256" and "CHR 0x0A \<notin> set verb \<union> set route" and "CHR 0x0A \<notin> set verb' \<union> set route'"
    and "pred_option json_ok body" and "pred_option json_ok body'"
  shows "fingerprint sha256 verb route body = fingerprint sha256 verb' route' body' \<longleftrightarrow>
    verb = verb' \<and> route = route' \<and> map_option normal_form body = map_option normal_form body'"
proof -
  have split: "v @ CHR 0x0A # r = v' @ CHR 0x0A # r' \<longleftrightarrow> v = v' \<and> r = r'"
    if "CHR 0x0A \<notin> set v" "CHR 0x0A \<notin> set v'" for v v' r r' :: string
  proof
    assume e: "v @ CHR 0x0A # r = v' @ CHR 0x0A # r'"
    then have "js_split (CHR 0x0A) (v @ CHR 0x0A # r) = js_split (CHR 0x0A) (v' @ CHR 0x0A # r')" by simp
    then have "v = v'" using that by (simp add: js_split_append)
    with e show "v = v' \<and> r = r'" by simp
  qed simp
  have undefined: "canonical v \<noteq> ''undefined''" if "json_ok v" for v
  proof
    assume "canonical v = ''undefined''"
    then have "json_parse ''undefined'' = Some (normal_form v)"
      using json_parse_stringify [OF normal_form_ok [OF that]] by (simp add: canonical_text)
    then show False by (simp add: json_parse_def json_ws_def read_number_def is_digit_def Let_def eval_nat_numeral)
  qed
  have "canonicalise body = canonicalise body' \<longleftrightarrow> map_option normal_form body = map_option normal_form body'"
  proof (cases body; cases body')
    fix v v' assume b: "body = Some v" "body' = Some v'"
    then have ok: "json_ok (normal_form v)" "json_ok (normal_form v')" using assms(4,5) normal_form_ok by simp_all
    show ?thesis
      using b ok by (auto simp: canonicalise_def canonical_text) (metis json_parse_stringify option.inject)
  qed (use assms(4,5) undefined undefined [symmetric] in \<open>auto simp: canonicalise_def\<close>)
  then show ?thesis
    using assms(1-3) by (simp add: fingerprint_def inj_eq split)
qed

lemma fingerprint_exact_witness:
  "fingerprint id ''POST'' ''/v1/wishlist'' (Some (JObj [(''title'', JStr ''x''), (''artistName'', JStr ''y'')])) =
   fingerprint id ''POST'' ''/v1/wishlist'' (Some (JObj [(''artistName'', JStr ''y''), (''title'', JStr ''x'')]))"
  using fingerprint_exact [of id "''POST''" "''/v1/wishlist''" "''POST''" "''/v1/wishlist''"
      "Some (JObj [(''title'', JStr ''x''), (''artistName'', JStr ''y'')])" "Some (JObj [(''artistName'', JStr ''y''), (''title'', JStr ''x'')])"]
  by (simp add: by_name_def)

end
