(* ===== verification/Expiry_Sweeper.thy ===== *)
theory Expiry_Sweeper
  imports Idempotency Job_Batches
begin

text \<open>
  The sweep of the two tables with an expiry: \<^verbatim>\<open>apps/bff/src/services/expiry-sweeper.ts\<close>. The
  statements read the clock of the database once a run; the requests of \<open>Idempotency\<close> bring their
  own times. What the driver answers to each statement is an argument.
\<close>

subsection \<open>The options\<close>

record sweeper_options =
  so_slackSeconds :: int
  so_rowsPerBatch :: nat
  so_maxBatchesPerTable :: nat

definition EXPIRY_SWEEPER_DEFAULTS :: sweeper_options where
  "EXPIRY_SWEEPER_DEFAULTS = \<lparr>so_slackSeconds = 3600, so_rowsPerBatch = 5000, so_maxBatchesPerTable = 20\<rparr>"

definition expirySweeperOptionsFromEnv :: "(string \<Rightarrow> string option) \<Rightarrow> string + sweeper_options" where
  "expirySweeperOptionsFromEnv env =
     (let d = EXPIRY_SWEEPER_DEFAULTS in
      case intFromEnv ''EXPIRY_SWEEP_SLACK_S'' (so_slackSeconds d) env of
        Inl err \<Rightarrow> Inl err
      | Inr slack \<Rightarrow>
          (case intFromEnv ''EXPIRY_SWEEP_ROWS_PER_BATCH'' (int (so_rowsPerBatch d)) env of
             Inl err \<Rightarrow> Inl err
           | Inr batch \<Rightarrow>
               (case intFromEnv ''EXPIRY_SWEEP_MAX_BATCHES'' (int (so_maxBatchesPerTable d)) env of
                  Inl err \<Rightarrow> Inl err
                | Inr n \<Rightarrow> Inr \<lparr>so_slackSeconds = slack, so_rowsPerBatch = nat batch, so_maxBatchesPerTable = nat n\<rparr>)))"

subsection \<open>The run\<close>

text \<open>A row of \<open>connect_states\<close>, whose key is the hash of the state.\<close>

record connect_state =
  xs_userId :: string
  xs_provider :: string
  xs_redirectUri :: "string option"
  xs_expiresAt :: time

record sweep_tables =
  sb_idempotency :: idem_table
  sb_connectStates :: "(string \<times> connect_state) list"

definition expired_before :: "sweeper_options \<Rightarrow> time \<Rightarrow> time" where
  "expired_before opts now = now - 1000 * so_slackSeconds opts"

definition DELETE_IDEMPOTENCY :: "sweeper_options \<Rightarrow> time \<Rightarrow> idem_table \<Rightarrow> nat \<times> idem_table" where
  "DELETE_IDEMPOTENCY opts now =
     delete_oldest ir_expiresAt (\<lambda>row. ir_expiresAt row < expired_before opts now) (so_rowsPerBatch opts)"

definition DELETE_CONNECT_STATES ::
  "sweeper_options \<Rightarrow> time \<Rightarrow> (string \<times> connect_state) list \<Rightarrow> nat \<times> (string \<times> connect_state) list" where
  "DELETE_CONNECT_STATES opts now =
     delete_oldest xs_expiresAt (\<lambda>row. xs_expiresAt row < expired_before opts now) (so_rowsPerBatch opts)"

definition sweepTable ::
  "sweeper_options \<Rightarrow> ('t \<Rightarrow> nat \<times> 't) \<Rightarrow> (nat \<Rightarrow> batch_reply) \<Rightarrow> 't \<Rightarrow> batch_result \<times> 't" where
  "sweepTable opts stmt replies t = batched stmt (map replies [0..<so_maxBatchesPerTable opts]) 0 t"

record sweep_outcome =
  sx_ran :: bool
  sx_idempotencyKeysDeleted :: nat
  sx_connectStatesDeleted :: nat
  sx_failed :: nat
  sx_capped :: bool

definition sweep_nothing :: sweep_outcome where
  "sweep_nothing = \<lparr>sx_ran = False, sx_idempotencyKeysDeleted = 0, sx_connectStatesDeleted = 0, sx_failed = 0, sx_capped = False\<rparr>"

definition EXPIRY_SWEEP_LOCK_KEY :: string where
  "EXPIRY_SWEEP_LOCK_KEY = ''retention:expiry-sweep''"

text \<open>The answers of the driver for the one table and for the other.\<close>

record sweep_replies =
  sq_idempotency :: "nat \<Rightarrow> batch_reply"
  sq_connectStates :: "nat \<Rightarrow> batch_reply"

definition sweeper_run ::
  "(string \<Rightarrow> int) \<Rightarrow> nat \<Rightarrow> sweeper_options \<Rightarrow> sweep_replies \<Rightarrow> time \<Rightarrow> lock_table \<Rightarrow> sweep_tables \<Rightarrow>
     sweep_outcome \<times> sweep_tables \<times> lock_table" where
  "sweeper_run hashtext session opts replies now locks tb =
     (case tryAdvisoryLock hashtext session (ln_expirySweep LOCK_NAMESPACE) EXPIRY_SWEEP_LOCK_KEY locks of
        (False, locks') \<Rightarrow> (sweep_nothing, tb, locks')
      | (True, locks') \<Rightarrow>
          (case sweepTable opts (DELETE_IDEMPOTENCY opts now) (sq_idempotency replies) (sb_idempotency tb) of
             (idempotency, keys) \<Rightarrow>
               (case sweepTable opts (DELETE_CONNECT_STATES opts now) (sq_connectStates replies) (sb_connectStates tb) of
                  (states, flows) \<Rightarrow>
                    (\<lparr>sx_ran = True, sx_idempotencyKeysDeleted = br_rows idempotency, sx_connectStatesDeleted = br_rows states,
                      sx_failed = (if br_failed idempotency then 1 else 0) + (if br_failed states then 1 else 0),
                      sx_capped = (br_capped idempotency \<or> br_capped states)\<rparr>,
                     \<lparr>sb_idempotency = keys, sb_connectStates = flows\<rparr>,
                     advisoryUnlock hashtext session (ln_expirySweep LOCK_NAMESPACE) EXPIRY_SWEEP_LOCK_KEY locks'))))"

subsection \<open>What a sweep keeps\<close>

lemma keys_swept:
  "sb_idempotency (fst (snd (sweeper_run hashtext session opts replies now locks tb))) =
     (if fst (tryAdvisoryLock hashtext session (ln_expirySweep LOCK_NAMESPACE) EXPIRY_SWEEP_LOCK_KEY locks)
      then snd (sweepTable opts (DELETE_IDEMPOTENCY opts now) (sq_idempotency replies) (sb_idempotency tb))
      else sb_idempotency tb)"
  by (auto simp: sweeper_run_def split: prod.split bool.split)

lemma run_keeps_rows:
  assumes "distinct (map fst t)"
  shows "filter (\<lambda>p. \<not> ir_expiresAt (snd p) < expired_before opts now) (snd (sweepTable opts (DELETE_IDEMPOTENCY opts now) replies t)) =
      filter (\<lambda>p. \<not> ir_expiresAt (snd p) < expired_before opts now) t"
    and "distinct (map fst (snd (sweepTable opts (DELETE_IDEMPOTENCY opts now) replies t)))"
proof -
  show "filter (\<lambda>p. \<not> ir_expiresAt (snd p) < expired_before opts now) (snd (sweepTable opts (DELETE_IDEMPOTENCY opts now) replies t)) =
      filter (\<lambda>p. \<not> ir_expiresAt (snd p) < expired_before opts now) t"
    unfolding sweepTable_def DELETE_IDEMPOTENCY_def
    by (rule batched_deletions_keep [OF assms, where P = "\<lambda>row. ir_expiresAt row < expired_before opts now"])
  show "distinct (map fst (snd (sweepTable opts (DELETE_IDEMPOTENCY opts now) replies t)))"
    unfolding sweepTable_def
    using assms by (intro batched_keeps [where I = "\<lambda>u. distinct (map fst u)"]) (simp_all add: DELETE_IDEMPOTENCY_def delete_oldest(4))
qed

text \<open>The row a table holds for a key, if it qualifies, can be read off the rows that qualify.\<close>

lemma map_of_kept:
  assumes "distinct (map fst t)" "distinct (map fst t')" "filter (\<lambda>p. Q (snd p)) t' = filter (\<lambda>p. Q (snd p)) t" "Q row"
  shows "map_of t' k = Some row \<longleftrightarrow> map_of t k = Some row"
proof -
  have "map_of u k = Some row \<longleftrightarrow> (k, row) \<in> set (filter (\<lambda>p. Q (snd p)) u)" if "distinct (map fst u)" for u :: "('a \<times> 'b) list"
    using that assms(4) by simp
  from this [OF assms(1)] this [OF assms(2)] assms(3) show ?thesis by simp
qed

lemma sweep_subset:
  "set (snd (sweepTable opts (DELETE_IDEMPOTENCY opts now) replies t)) \<subseteq> set t"
  unfolding sweepTable_def
  by (rule batched_keeps [where I = "\<lambda>u. set u \<subseteq> set t"])
    (auto simp: DELETE_IDEMPOTENCY_def delete_oldest_def Let_def)

lemma map_of_subset:
  "distinct (map fst t) \<Longrightarrow> set t' \<subseteq> set t \<Longrightarrow> map_of t' k = Some row \<Longrightarrow> map_of t k = Some row"
  by (auto dest!: map_of_SomeD)

lemma claim_answer_row:
  "fst (claim clock key h t) = (case map_of t key of None \<Rightarrow> Owns | Some row \<Rightarrow> claim_read clock key h [(key, row)])"
  by (simp add: claim_def claim_insert_def claim_read_def split: option.split)

text \<open>Claim C33. A sweep takes only records that were past their expiry by the slack, and it is invisible to the
  next request for any key: whatever the driver answers and whoever holds the lock, every
  other record is found as it was, and the claim that comes next, its insertion and its
  reading together, gets the answer that it would have had without the sweep, when its clock
  has reached the moment up to which the sweep deletes. For a key whose record had expired
  that says nothing of the claims after the next: until the sweep the old record is in the
  way of the insertion, so each of them owns the key; after it only the first does.\<close>

theorem sweep_invisible:
  assumes "distinct (map fst (sb_idempotency tb))"
    and "t = sb_idempotency tb"
    and "t' = sb_idempotency (fst (snd (sweeper_run hashtext session opts replies now locks tb)))"
  shows "(\<forall>key. map_of t' key = map_of t key \<or>
       map_of t' key = None \<and> (\<exists>row. map_of t key = Some row \<and> ir_expiresAt row < expired_before opts now)) \<and>
    (\<forall>clock key h. expired_before opts now \<le> clock \<longrightarrow> fst (claim clock key h t') = fst (claim clock key h t))"
proof -
  have rows: "map_of t' key = map_of t key \<or>
       map_of t' key = None \<and> (\<exists>row. map_of t key = Some row \<and> ir_expiresAt row < expired_before opts now)" for key
  proof (cases "fst (tryAdvisoryLock hashtext session (ln_expirySweep LOCK_NAMESPACE) EXPIRY_SWEEP_LOCK_KEY locks)")
    case True
    have d: "distinct (map fst t)" using assms(1,2) by simp
    have t': "t' = snd (sweepTable opts (DELETE_IDEMPOTENCY opts now) (sq_idempotency replies) t)"
      using True assms(2,3) by (simp only: keys_swept if_True)
    show ?thesis
    proof (cases "map_of t' key")
      case (Some row)
      with map_of_subset [OF d sweep_subset, of opts now "sq_idempotency replies" key row] t' show ?thesis by simp
    next
      case None
      show ?thesis
      proof (cases "map_of t key")
        case (Some row)
        from map_of_kept [OF d run_keeps_rows(2) [OF d] run_keeps_rows(1) [OF d], of row opts now "sq_idempotency replies" key]
          Some None t' show ?thesis by fastforce
      qed (use None in simp)
    qed
  qed (use assms(2,3) in \<open>simp only: keys_swept if_False simp_thms\<close>)
  moreover have "fst (claim clock key h t') = fst (claim clock key h t)" if "expired_before opts now \<le> clock" for clock key h
    using rows [of key]
  proof (elim disjE conjE exE)
    fix row
    assume "map_of t' key = None" "map_of t key = Some row" "ir_expiresAt row < expired_before opts now"
    with that show ?thesis by (simp add: claim_answer_row claim_read_def)
  qed (simp only: claim_answer_row)
  ultimately show ?thesis by blast
qed

abbreviation demo_keys :: idem_table where
  "demo_keys \<equiv> [((''u'', ''key-0001''), \<lparr>ir_requestHash = ''h'', ir_response = None, ir_expiresAt = 50\<rparr>),
     ((''v'', ''key-0001''), \<lparr>ir_requestHash = ''h'', ir_response = None, ir_expiresAt = 350\<rparr>)]"

abbreviation demo_sweeper :: sweeper_options where
  "demo_sweeper \<equiv> \<lparr>so_slackSeconds = 0, so_rowsPerBatch = 5, so_maxBatchesPerTable = 2\<rparr>"

abbreviation demo_replies :: sweep_replies where
  "demo_replies \<equiv> \<lparr>sq_idempotency = \<lambda>_. Batch_counted, sq_connectStates = \<lambda>_. Batch_throws\<rparr>"

lemma sweep_invisible_witness:
  "let tb = \<lparr>sb_idempotency = demo_keys, sb_connectStates = []\<rparr>;
       t' = sb_idempotency (fst (snd (sweeper_run (\<lambda>_. 7) 1 demo_sweeper demo_replies 100 [] tb)))
   in map_of t' (''u'', ''key-0001'') = None \<and> map_of t' (''v'', ''key-0001'') = map_of demo_keys (''v'', ''key-0001'') \<and>
      fst (claim 150 (''u'', ''key-0001'') ''h'' t') = Owns \<and> fst (claim 150 (''v'', ''key-0001'') ''h'' t') = In_flight"
proof -
  let ?tb = "\<lparr>sb_idempotency = demo_keys, sb_connectStates = []\<rparr>"
  let ?t' = "sb_idempotency (fst (snd (sweeper_run (\<lambda>_. 7) 1 demo_sweeper demo_replies 100 [] ?tb)))"
  have "map_of ?t' (''u'', ''key-0001'') = None" by code_simp
  moreover have "distinct (map fst (sb_idempotency ?tb))" by simp
  note swept = sweep_invisible [OF this refl refl, of "\<lambda>_. 7" 1 demo_sweeper demo_replies 100 "[]"]
  have "map_of ?t' (''v'', ''key-0001'') = map_of demo_keys (''v'', ''key-0001'')"
    using swept [THEN conjunct1, THEN spec, of "(''v'', ''key-0001'')"]
  proof (elim disjE conjE exE)
    fix row
    assume "map_of (sb_idempotency ?tb) (''v'', ''key-0001'') = Some row" "ir_expiresAt row < expired_before demo_sweeper 100"
    then show ?thesis by (auto simp: expired_before_def)
  qed simp
  moreover have "expired_before demo_sweeper 100 \<le> 150" by (simp add: expired_before_def)
  with swept [THEN conjunct2] have same: "fst (claim 150 key ''h'' ?t') = fst (claim 150 key ''h'' (sb_idempotency ?tb))" for key
    by blast
  have "fst (claim 150 (''u'', ''key-0001'') ''h'' ?t') = Owns" "fst (claim 150 (''v'', ''key-0001'') ''h'' ?t') = In_flight"
    unfolding same by (simp_all add: claim_answer_row claim_read_def)
  ultimately show ?thesis unfolding Let_def by blast
qed

text \<open>The difference that is left, in the run that shows it: two claims of an expired key.\<close>

lemma expired_key_owned_twice:
  assumes "map_of t key = Some row" "ir_expiresAt row \<le> clock"
  shows "claim clock key h t = (Owns, t)"
  using assms by (simp add: claim_def claim_insert_def claim_read_def)

subsection \<open>The deadline\<close>

text \<open>The service over time: requests with an idempotency key, and runs of the job.\<close>

datatype service_event = Request idem_event | Sweep sweep_replies time

record service_world =
  sv_idem :: idem_world
  sv_connectStates :: "(string \<times> connect_state) list"
  sv_locks :: lock_table

definition service_step ::
  "(string \<Rightarrow> int) \<Rightarrow> nat \<Rightarrow> sweeper_options \<Rightarrow> service_event \<Rightarrow> service_world \<Rightarrow> service_world" where
  "service_step hashtext session opts e v = (case e of
     Request r \<Rightarrow> v\<lparr>sv_idem := idem_step r (sv_idem v)\<rparr>
   | Sweep replies now \<Rightarrow>
       (case sweeper_run hashtext session opts replies now (sv_locks v)
               \<lparr>sb_idempotency = iw_table (sv_idem v), sb_connectStates = sv_connectStates v\<rparr> of
          (out, tb, locks) \<Rightarrow> v\<lparr>sv_idem := (sv_idem v)\<lparr>iw_table := sb_idempotency tb\<rparr>,
                               sv_connectStates := sb_connectStates tb, sv_locks := locks\<rparr>))"

definition early :: "time \<Rightarrow> idem_table \<Rightarrow> nat" where
  "early c t = length (filter (\<lambda>p. ir_expiresAt (snd p) < c) t)"

lemma early_complete: "distinct (map fst t) \<Longrightarrow> early c (complete key resp t) = early c t"
proof (cases "map_of t key")
  case (Some row)
  assume "distinct (map fst t)"
  from filter_update_count [OF this Some, of "\<lambda>r. ir_expiresAt r < c" "row\<lparr>ir_response := Some resp\<rparr>"] Some
  show ?thesis by (auto simp: early_def complete_def split: if_splits)
qed (simp add: complete_def)

lemma early_release: "early c (release key t) \<le> early c t"
  by (auto simp: early_def release_def AList.delete_eq simp flip: filter_filter split: option.split)
    (metis (no_types, lifting) filter_filter length_filter_mono)

lemma claim_insert_fresh: "map_of t key = None \<Longrightarrow> AList.update key row t = t @ [(key, row)]"
  by (induction t) (auto split: if_splits)

lemma early_insert: "c \<le> now + IDEM_TTL \<Longrightarrow> early c (snd (claim_insert now key h t)) = early c t"
  by (simp add: early_def claim_insert_def claim_insert_fresh)

lemma table_keys:
  "distinct (map fst t) \<Longrightarrow> distinct (map fst (snd (claim_insert now key h t)))"
  "distinct (map fst t) \<Longrightarrow> distinct (map fst (complete key resp t))"
  "distinct (map fst t) \<Longrightarrow> distinct (map fst (release key t))"
  by (simp_all add: claim_insert_def complete_def release_def distinct_update distinct_delete split: option.split)

text \<open>What a request does to the table is one of these statements.\<close>

lemma idem_step_table:
  "(\<exists>i key h now. e = Post i key h now \<and> iw_table (idem_step e w) = snd (claim_insert now key h (iw_table w))) \<or>
   (\<exists>key resp. iw_table (idem_step e w) = complete key resp (iw_table w)) \<or>
   (\<exists>key. iw_table (idem_step e w) = release key (iw_table w)) \<or> iw_table (idem_step e w) = iw_table w"
  by (cases e) (auto simp: idem_step_def simp del: split_paired_Ex split_paired_All split: option.split prod.split claim_answer.split)

lemma early_request:
  assumes "distinct (map fst (iw_table w))" "\<And>i key h now. e = Post i key h now \<Longrightarrow> c \<le> now + IDEM_TTL"
  shows "early c (iw_table (idem_step e w)) \<le> early c (iw_table w) \<and> distinct (map fst (iw_table (idem_step e w)))"
  using idem_step_table [of e w] assms
  by (elim disjE exE) (auto simp: early_complete early_insert early_release table_keys)

lemma early_sweep:
  assumes "distinct (map fst t)" "c \<le> expired_before opts now" "\<And>n. replies n = Batch_counted" "0 < so_rowsPerBatch opts"
  shows "early c (snd (sweepTable opts (DELETE_IDEMPOTENCY opts now) replies t)) \<le>
    early c t - so_maxBatchesPerTable opts * so_rowsPerBatch opts"
proof -
  have "ir_expiresAt r < c \<Longrightarrow> ir_expiresAt r < expired_before opts now" for r using assms(2) by simp
  from batched_early [where stamp = ir_expiresAt and rs = "map replies [0..<so_maxBatchesPerTable opts]", OF this assms(4,1)] assms(3)
  show ?thesis by (simp add: early_def sweepTable_def DELETE_IDEMPOTENCY_def)
qed

definition is_sweep :: "service_event \<Rightarrow> bool" where
  "is_sweep e = (case e of Sweep _ _ \<Rightarrow> True | Request _ \<Rightarrow> False)"

definition timely :: "sweeper_options \<Rightarrow> time \<Rightarrow> service_event \<Rightarrow> bool" where
  "timely opts c e = (case e of
     Request (Post i key h now) \<Rightarrow> c \<le> now + IDEM_TTL
   | Sweep replies now \<Rightarrow> c \<le> expired_before opts now \<and> sq_idempotency replies = (\<lambda>_. Batch_counted)
   | _ \<Rightarrow> True)"

definition unlocked :: "(string \<Rightarrow> int) \<Rightarrow> service_world \<Rightarrow> bool" where
  "unlocked hashtext v \<longleftrightarrow> map_of (sv_locks v) (ln_expirySweep LOCK_NAMESPACE, hashtext EXPIRY_SWEEP_LOCK_KEY) = None"

lemma sweep_step:
  assumes "unlocked hashtext v" "distinct (map fst (iw_table (sv_idem v)))" "timely opts c (Sweep replies now)" "0 < so_rowsPerBatch opts"
  shows "unlocked hashtext (service_step hashtext session opts (Sweep replies now) v)"
    and "distinct (map fst (iw_table (sv_idem (service_step hashtext session opts (Sweep replies now) v))))"
    and "early c (iw_table (sv_idem (service_step hashtext session opts (Sweep replies now) v))) \<le>
      early c (iw_table (sv_idem v)) - so_maxBatchesPerTable opts * so_rowsPerBatch opts"
proof -
  let ?v = "service_step hashtext session opts (Sweep replies now) v"
  let ?t = "snd (sweepTable opts (DELETE_IDEMPOTENCY opts now) (sq_idempotency replies) (iw_table (sv_idem v)))"
  obtain locks' where lock: "tryAdvisoryLock hashtext session (ln_expirySweep LOCK_NAMESPACE) EXPIRY_SWEEP_LOCK_KEY (sv_locks v) = (True, locks')"
    using assms(1) by (simp add: unlocked_def tryAdvisoryLock_def)
  have "map_of (advisoryUnlock hashtext session (ln_expirySweep LOCK_NAMESPACE) EXPIRY_SWEEP_LOCK_KEY locks') = map_of (sv_locks v)"
    by (rule lock_unlock [OF lock]) (use assms(1) in \<open>simp add: unlocked_def\<close>)
  moreover have v: "iw_table (sv_idem ?v) = ?t"
    "sv_locks ?v = advisoryUnlock hashtext session (ln_expirySweep LOCK_NAMESPACE) EXPIRY_SWEEP_LOCK_KEY locks'"
    by (simp_all add: service_step_def sweeper_run_def lock split: prod.split)
  ultimately show "unlocked hashtext ?v" using assms(1) by (simp add: unlocked_def)
  show "distinct (map fst (iw_table (sv_idem ?v)))" unfolding v by (rule run_keeps_rows(2) [OF assms(2)])
  show "early c (iw_table (sv_idem ?v)) \<le> early c (iw_table (sv_idem v)) - so_maxBatchesPerTable opts * so_rowsPerBatch opts"
    unfolding v using assms(2-4) by (intro early_sweep) (simp_all add: timely_def)
qed

lemma early_run:
  "unlocked hashtext v \<Longrightarrow> distinct (map fst (iw_table (sv_idem v))) \<Longrightarrow> \<forall>e \<in> set es. timely opts c e \<Longrightarrow> 0 < so_rowsPerBatch opts \<Longrightarrow>
     early c (iw_table (sv_idem (run_calls (service_step hashtext session opts) v es))) \<le>
     early c (iw_table (sv_idem v)) - length (filter is_sweep es) * (so_maxBatchesPerTable opts * so_rowsPerBatch opts)"
proof (induction es arbitrary: v)
  case (Cons e es)
  have timely: "timely opts c e" "\<forall>e \<in> set es. timely opts c e" using Cons.prems(3) by simp_all
  show ?case
  proof (cases e)
    case (Request r)
    let ?v = "service_step hashtext session opts (Request r) v"
    have v: "unlocked hashtext ?v" "iw_table (sv_idem ?v) = iw_table (idem_step r (sv_idem v))"
      using Cons.prems(1) by (simp_all add: service_step_def unlocked_def)
    have "early c (iw_table (sv_idem ?v)) \<le> early c (iw_table (sv_idem v)) \<and> distinct (map fst (iw_table (sv_idem ?v)))"
      unfolding v using timely(1) Request by (intro early_request Cons.prems(2)) (simp add: timely_def)
    with Cons.IH [OF v(1) _ timely(2) Cons.prems(4)] Request show ?thesis by (auto simp: is_sweep_def)
  next
    case (Sweep replies now)
    note step = sweep_step [OF Cons.prems(1,2) timely(1) [unfolded Sweep] Cons.prems(4), of session]
    from Cons.IH [OF step(1,2) timely(2) Cons.prems(4)] step(3) Sweep show ?thesis by (auto simp: is_sweep_def)
  qed
qed simp

text \<open>Claim C34. The storage of a record is bounded: however the requests and the runs interleave, once the
  batches of the runs since some time are together as large as the backlog of that time, every
  record that had expired by then, the slack included, has left the table, since a batch takes the oldest first.
  The lock is free when the runs start, and the driver answers their statements with the numbers of the rows.\<close>

theorem sweep_deadline:
  assumes "unlocked hashtext v" and "distinct (map fst (iw_table (sv_idem v)))" and "0 < so_rowsPerBatch opts"
    and "\<forall>e \<in> set es. timely opts c e"
    and "early c (iw_table (sv_idem v)) \<le> length (filter is_sweep es) * (so_maxBatchesPerTable opts * so_rowsPerBatch opts)"
  shows "\<forall>p \<in> set (iw_table (sv_idem (run_calls (service_step hashtext session opts) v es))). c \<le> ir_expiresAt (snd p)"
proof -
  have "early c (iw_table (sv_idem (run_calls (service_step hashtext session opts) v es))) = 0"
    using early_run [OF assms(1,2,4,3), of session] assms(5) by simp
  then show ?thesis by (auto simp: early_def filter_empty_conv not_less)
qed

lemma sweep_deadline_witness:
  "list_all (\<lambda>p. 100 \<le> ir_expiresAt (snd p)) (iw_table (sv_idem (run_calls (service_step (\<lambda>_. 7) 1 demo_sweeper)
       \<lparr>sv_idem = \<lparr>iw_table = demo_keys, iw_requests = [], iw_runs = [], iw_answers = []\<rparr>, sv_connectStates = [], sv_locks = []\<rparr>
       [Sweep demo_replies 100, Request (Post 1 (''w'', ''key-0002'') ''h'' 120)])))"
  unfolding list_all_iff
proof (rule sweep_deadline)
  show "\<forall>e \<in> set [Sweep demo_replies 100, Request (Post 1 (''w'', ''key-0002'') ''h'' 120)]. timely demo_sweeper 100 e"
    by (simp add: timely_def expired_before_def IDEM_TTL_def)
qed (simp_all add: unlocked_def early_def is_sweep_def)

end
