(* ===== verification/Connections.thy ===== *)
theory Connections
  imports Auth_Routes Expiry_Sweeper
begin

text \<open>
  The vault of the credentials for music services: \<^verbatim>\<open>apps/bff/src/services/connections.ts\<close>, the adapters
  of \<^verbatim>\<open>apps/bff/src/services/providers.ts\<close> and the routes of \<^verbatim>\<open>apps/bff/src/routes/v1/connections.ts\<close>. A
  statement is what it does to the tables \<open>connect_states\<close> and \<open>user_connections\<close>; the fetch, the digests and the
  random values are parameters. A public base URL is one that \<open>URL\<close> leaves as it is.
\<close>

subsection \<open>The tables\<close>

definition PROVIDERS :: "string list" where
  "PROVIDERS = [''listenbrainz'', ''lastfm'']"

definition isProvider :: "string \<Rightarrow> bool" where
  "isProvider v \<longleftrightarrow> v \<in> set PROVIDERS"

record connection_row =
  cx_userId :: string
  cx_provider :: string
  cx_accountId :: string
  cx_kekId :: string
  cx_wrappedDek :: string
  cx_accessCt :: string
  cx_refreshCt :: "string option"
  cx_expiresAt :: "time option"
  cx_scopes :: "string list option"
  cx_status :: string
  cx_createdAt :: time
  cx_lastVerifiedAt :: "time option"
  cx_revokedAt :: "time option"

record connection_view =
  cv_provider :: string
  cv_accountId :: string
  cv_status :: string
  cv_scopes :: "string list"
  cv_connectedAt :: string
  cv_lastVerifiedAt :: "string option"

definition toView :: "(time \<Rightarrow> string) \<Rightarrow> connection_row \<Rightarrow> connection_view" where
  "toView text_of row = \<lparr>cv_provider = cx_provider row, cv_accountId = cx_accountId row, cv_status = cx_status row,
     cv_scopes = orelse (cx_scopes row) [], cv_connectedAt = text_of (cx_createdAt row),
     cv_lastVerifiedAt = map_option text_of (cx_lastVerifiedAt row)\<rparr>"

record provider_credential =
  pc_accountId :: string
  pc_accessToken :: string
  pc_refreshToken :: "string option"
  pc_expiresAt :: "time option"
  pc_scopes :: "string list option"

record provider_adapter =
  pa_authorizeUrl :: "string \<Rightarrow> string \<Rightarrow> string option"
  pa_completeCallback :: "(string \<Rightarrow> string option) \<Rightarrow> token_failure + provider_credential"
  pa_verifyDirect :: "(string \<Rightarrow> token_failure + provider_credential) option"

definition STATE_TTL_MS :: int where
  "STATE_TTL_MS = 10 * 60 * 1000"

record vault_parts =
  vp_sha :: "string \<Rightarrow> string"
  vp_seal :: gcm_seal
  vp_open :: gcm_open
  vp_cipher :: envelope_cipher
  vp_iso :: "time \<Rightarrow> string"
  vp_publicBaseUrl :: string
  vp_providers :: "string \<Rightarrow> provider_adapter option"

record vault_world =
  vw_states :: "(string \<times> connect_state) list"
  vw_connections :: "connection_row list"
  vw_audit :: "audit_entry list"

text \<open>What one request draws: the clocks of the process and of the database, and random bytes.\<close>

record vault_call =
  vc_now :: time
  vc_dbNow :: time
  vc_state :: string
  vc_accessKeys :: "string \<times> string \<times> string"
  vc_refreshKeys :: "string \<times> string \<times> string"
  vc_auditFails :: bool
  vc_ip :: string

subsection \<open>The service\<close>

definition callbackUrl :: "vault_parts \<Rightarrow> string \<Rightarrow> string" where
  "callbackUrl vp provider =
     rev (dropWhile ((=) (CHR ''/'')) (rev (vp_publicBaseUrl vp))) @ ''/v1/connections/'' @ provider @ ''/callback''"

definition by_created :: "connection_row \<Rightarrow> connection_row \<Rightarrow> real" where
  "by_created a b = real_of_int (cx_createdAt a - cx_createdAt b)"

definition list_connections :: "vault_parts \<Rightarrow> string \<Rightarrow> vault_world \<Rightarrow> connection_view list" where
  "list_connections vp userId w =
     map (toView (vp_iso vp)) (js_sort by_created (filter (\<lambda>r. cx_userId r = userId \<and> cx_revokedAt r = None) (vw_connections w)))"

definition not_enabled :: "string \<Rightarrow> api_error" where
  "not_enabled provider = notImplemented (''The '' @ provider @ '' connector is not enabled on this deployment.'')"

definition adapterFor :: "vault_parts \<Rightarrow> string \<Rightarrow> api_error + provider_adapter" where
  "adapterFor vp provider = (case vp_providers vp provider of None \<Rightarrow> Inl (not_enabled provider) | Some a \<Rightarrow> Inr a)"

text \<open>\<open>INSERT ... ON CONFLICT (user_id, provider)\<close>; \<open>None\<close> when the hash is the key of another row.\<close>

definition upsert_state :: "string \<Rightarrow> connect_state \<Rightarrow> (string \<times> connect_state) list \<Rightarrow> (string \<times> connect_state) list option" where
  "upsert_state h row t =
     (let same = (\<lambda>p. xs_userId (snd p) = xs_userId row \<and> xs_provider (snd p) = xs_provider row) in
      if list_ex (\<lambda>p. fst p = h \<and> \<not> same p) t then None
      else if list_ex same t then Some (map (\<lambda>p. if same p then (h, row) else p) t)
      else Some (t @ [(h, row)]))"

text \<open>The answer: the URL to send the user to, the state and its end.\<close>

definition startConnect ::
  "vault_parts \<Rightarrow> vault_call \<Rightarrow> string \<Rightarrow> string \<Rightarrow> vault_world \<Rightarrow> (token_failure + string option \<times> string \<times> string) \<times> vault_world" where
  "startConnect vp vc userId provider w =
     (case vp_providers vp provider of
        None \<Rightarrow> (Inl (Refused (not_enabled provider)), w)
      | Some adapter \<Rightarrow>
          let state = vc_state vc; expiresAt = vc_now vc + STATE_TTL_MS; callback = callbackUrl vp provider
          in case upsert_state (vp_sha vp state)
               \<lparr>xs_userId = userId, xs_provider = provider, xs_redirectUri = Some callback, xs_expiresAt = expiresAt\<rparr> (vw_states w) of
              None \<Rightarrow> (Inl Unexpected, w)
            | Some t \<Rightarrow> (Inr (pa_authorizeUrl adapter state callback, state, vp_iso vp expiresAt), w\<lparr>vw_states := t\<rparr>))"

definition state_matches :: "string \<Rightarrow> string \<Rightarrow> string \<Rightarrow> time \<Rightarrow> string \<times> connect_state \<Rightarrow> bool" where
  "state_matches h provider userId dbNow p \<longleftrightarrow>
     fst p = h \<and> xs_provider (snd p) = provider \<and> xs_userId (snd p) = userId \<and> xs_expiresAt (snd p) > dbNow"

definition consumeState ::
  "vault_parts \<Rightarrow> vault_call \<Rightarrow> string \<Rightarrow> string \<Rightarrow> string \<Rightarrow> vault_world \<Rightarrow> (api_error + string option) \<times> vault_world" where
  "consumeState vp vc userId state provider w =
     (let hit = state_matches (vp_sha vp state) provider userId (vc_dbNow vc) in
      case filter hit (vw_states w) of
        [] \<Rightarrow> (Inl (badRequest (Some ''This connect link is no longer valid. Start the connection again.'') None), w)
      | (_, row) # _ \<Rightarrow> (Inr (xs_redirectUri row), w\<lparr>vw_states := filter (\<lambda>p. \<not> hit p) (vw_states w)\<rparr>))"

definition seal_field ::
  "vault_parts \<Rightarrow> string \<times> string \<times> string \<Rightarrow> string \<Rightarrow> string \<Rightarrow> string \<Rightarrow> string \<Rightarrow> crypto_error + sealed_credential" where
  "seal_field vp keys plaintext userId provider field =
     (case keys of (dek, nonce1, nonce2) \<Rightarrow>
        ev_seal (vp_seal vp) (vp_cipher vp) dek nonce1 nonce2 plaintext \<lparr>ec_userId = userId, ec_provider = provider, ec_field = field\<rparr>)"

definition same_connection :: "string \<Rightarrow> string \<Rightarrow> string \<Rightarrow> connection_row \<Rightarrow> bool" where
  "same_connection userId provider account r \<longleftrightarrow> cx_userId r = userId \<and> cx_provider r = provider \<and> cx_accountId r = account"

text \<open>The upsert on the user, the provider and the account; an update keeps the time of creation.\<close>

definition upsert_connection :: "connection_row \<Rightarrow> connection_row list \<Rightarrow> connection_row \<times> connection_row list" where
  "upsert_connection row t =
     (let same = same_connection (cx_userId row) (cx_provider row) (cx_accountId row) in
      case List.find same t of
        None \<Rightarrow> (row, t @ [row])
      | Some old \<Rightarrow> (row\<lparr>cx_createdAt := cx_createdAt old\<rparr>, map (\<lambda>r. if same r then row\<lparr>cx_createdAt := cx_createdAt r\<rparr> else r) t))"

definition store_connection ::
  "vault_parts \<Rightarrow> vault_call \<Rightarrow> string \<Rightarrow> string \<Rightarrow> provider_credential \<Rightarrow> vault_world \<Rightarrow> (token_failure + connection_view) \<times> vault_world" where
  "store_connection vp vc userId provider cred w =
     (case seal_field vp (vc_accessKeys vc) (pc_accessToken cred) userId provider ''access_token'' of
        Inl _ \<Rightarrow> (Inl Unexpected, w)
      | Inr access \<Rightarrow>
          (case (case pc_refreshToken cred of None \<Rightarrow> Inr None
                 | Some token \<Rightarrow> (case seal_field vp (vc_refreshKeys vc) token userId provider ''refresh_token'' of
                     Inl e \<Rightarrow> Inl e | Inr s \<Rightarrow> Inr (Some s))) of
             Inl _ \<Rightarrow> (Inl Unexpected, w)
           | Inr refresh \<Rightarrow>
               (case upsert_connection \<lparr>cx_userId = userId, cx_provider = provider, cx_accountId = pc_accountId cred,
                        cx_kekId = sc_kekId access, cx_wrappedDek = sc_wrappedDek access, cx_accessCt = sc_ciphertext access,
                        cx_refreshCt = map_option sc_ciphertext refresh, cx_expiresAt = pc_expiresAt cred, cx_scopes = pc_scopes cred,
                        cx_status = ''active'', cx_createdAt = vc_dbNow vc, cx_lastVerifiedAt = Some (vc_dbNow vc),
                        cx_revokedAt = None\<rparr> (vw_connections w) of
                  (row, t) \<Rightarrow> (Inr (toView (vp_iso vp) row), w\<lparr>vw_connections := t\<rparr>))))"

text \<open>The rows come in the order of the table, which the statement leaves open.\<close>

definition live_connection :: "string \<Rightarrow> string \<Rightarrow> connection_row \<Rightarrow> bool" where
  "live_connection userId provider r \<longleftrightarrow>
     cx_userId r = userId \<and> cx_provider r = provider \<and> cx_revokedAt r = None \<and> cx_status r = ''active''"

definition access_of :: "connection_row \<Rightarrow> sealed_credential" where
  "access_of r = \<lparr>sc_kekId = cx_kekId r, sc_wrappedDek = cx_wrappedDek r, sc_ciphertext = cx_accessCt r\<rparr>"

definition openCredential :: "vault_parts \<Rightarrow> string \<Rightarrow> string \<Rightarrow> vault_world \<Rightarrow> crypto_error + (string \<times> string) option" where
  "openCredential vp userId provider w =
     (case filter (live_connection userId provider) (vw_connections w) of
        [] \<Rightarrow> Inr None
      | r # _ \<Rightarrow>
          (case ev_open (vp_open vp) (vp_cipher vp) (access_of r)
                  \<lparr>ec_userId = userId, ec_provider = provider, ec_field = ''access_token''\<rparr> of
             Inl e \<Rightarrow> Inl e
           | Inr token \<Rightarrow> Inr (Some (cx_accountId r, token))))"

definition disconnect :: "string \<Rightarrow> string \<Rightarrow> vault_world \<Rightarrow> bool \<times> vault_world" where
  "disconnect userId provider w =
     (let gone = (\<lambda>r. cx_userId r = userId \<and> cx_provider r = provider)
      in (list_ex gone (vw_connections w), w\<lparr>vw_connections := filter (\<lambda>r. \<not> gone r) (vw_connections w)\<rparr>))"

subsection \<open>The adapters\<close>

text \<open>A fetch without redirects: the status and the text, or \<open>None\<close> when it rejects or is aborted.\<close>

type_synonym provider_fetch = "string \<Rightarrow> (string \<times> string) list \<Rightarrow> (int \<times> string) option"

definition MAX_RESPONSE_BYTES :: nat where
  "MAX_RESPONSE_BYTES = 64 * 1024"

definition getJson :: "provider_fetch \<Rightarrow> string \<Rightarrow> (string \<times> string) list \<Rightarrow> api_error + json" where
  "getJson fetch url headers =
     (case fetch url ((''accept'', ''application/json'') # headers) of
        None \<Rightarrow> Inl (upstreamUnavailable ''provider'')
      | Some (status, body) \<Rightarrow>
          if MAX_RESPONSE_BYTES < length body then Inl (upstreamUnavailable ''provider'')
          else if 300 \<le> status then Inl (upstreamUnavailable ''provider'')
          else case json_parse body of None \<Rightarrow> Inl (upstreamUnavailable ''provider'') | Some v \<Rightarrow> Inr v)"

text \<open>The query that \<open>searchParams.set\<close> builds of names that all differ.\<close>

definition query_of :: "(string \<times> string) list \<Rightarrow> string" where
  "query_of params = CHR ''?'' # js_join ''&'' (map (\<lambda>(k, v). search_params k v) params)"

text \<open>The names are given in their order, which \<open>sort\<close> keeps.\<close>

definition lastfm_sign :: "(string \<Rightarrow> string) \<Rightarrow> string \<Rightarrow> (string \<times> string) list \<Rightarrow> string" where
  "lastfm_sign md5 sharedSecret params = md5 (concat (map (\<lambda>(k, v). k @ v) params) @ sharedSecret)"

definition text_member :: "string \<Rightarrow> json \<Rightarrow> string option" where
  "text_member k j = (case jget k j of Some (JStr s) \<Rightarrow> Some s | _ \<Rightarrow> None)"

definition lastfm_complete ::
  "(string \<Rightarrow> string) \<Rightarrow> provider_fetch \<Rightarrow> string \<Rightarrow> string \<Rightarrow> (string \<Rightarrow> string option) \<Rightarrow> token_failure + provider_credential" where
  "lastfm_complete md5 fetch apiKey sharedSecret query =
     (let token = orelse (query ''token'') [] in
      if token = [] then Inl (Refused (badRequest (Some ''The provider did not return an authorization token.'') None))
      else let params = [(''api_key'', apiKey), (''method'', ''auth.getSession''), (''token'', token)] in
        case getJson fetch (''https://ws.audioscrobbler.com/2.0/'' @
               query_of (params @ [(''api_sig'', lastfm_sign md5 sharedSecret params), (''format'', ''json'')])) [] of
          Inl e \<Rightarrow> Inl (Refused e)
        | Inr body \<Rightarrow>
            if body = JNull then Inl Unexpected
            else case (Option.bind (jget ''session'' body) (text_member ''name''), Option.bind (jget ''session'' body) (text_member ''key'')) of
                (Some name, Some key) \<Rightarrow>
                  Inr \<lparr>pc_accountId = name, pc_accessToken = key, pc_refreshToken = None, pc_expiresAt = None,
                    pc_scopes = Some [''read'', ''scrobble'']\<rparr>
              | _ \<Rightarrow> Inl (Refused (upstreamUnavailable ''last.fm'')))"

definition lastfmAdapter :: "(string \<Rightarrow> string) \<Rightarrow> provider_fetch \<Rightarrow> string \<Rightarrow> string \<Rightarrow> provider_adapter" where
  "lastfmAdapter md5 fetch apiKey sharedSecret =
     \<lparr>pa_authorizeUrl = (\<lambda>state callback. Some (''https://www.last.fm/api/auth/'' @
         query_of [(''api_key'', apiKey), (''cb'', callback @ query_of [(''state'', state)])])),
      pa_completeCallback = lastfm_complete md5 fetch apiKey sharedSecret,
      pa_verifyDirect = None\<rparr>"

definition listenbrainz_verify :: "provider_fetch \<Rightarrow> string \<Rightarrow> token_failure + provider_credential" where
  "listenbrainz_verify fetch credential =
     (case getJson fetch ''https://api.listenbrainz.org/1/validate-token'' [(''authorization'', ''Token '' @ credential)] of
        Inl e \<Rightarrow> Inl (Refused e)
      | Inr body \<Rightarrow>
          if body = JNull then Inl Unexpected
          else case (jget ''valid'' body, text_member ''user_name'' body) of
              (Some (JBool True), Some name) \<Rightarrow>
                Inr \<lparr>pc_accountId = name, pc_accessToken = credential, pc_refreshToken = None, pc_expiresAt = None,
                  pc_scopes = Some [''read'', ''submit'']\<rparr>
            | _ \<Rightarrow> Inl (Refused (unprocessable (Some ''That ListenBrainz token was not accepted by the provider.'') None)))"

definition listenbrainzAdapter :: "provider_fetch \<Rightarrow> provider_adapter" where
  "listenbrainzAdapter fetch =
     \<lparr>pa_authorizeUrl = (\<lambda>_ _. None),
      pa_completeCallback = (\<lambda>_. Inl (Refused (unprocessable
        (Some ''ListenBrainz has no redirect flow. Supply the user token in the request body instead.'') None))),
      pa_verifyDirect = Some (listenbrainz_verify fetch)\<rparr>"

definition buildProviderRegistry ::
  "(string \<Rightarrow> string) \<Rightarrow> provider_fetch \<Rightarrow> string option \<Rightarrow> string option \<Rightarrow> string \<Rightarrow> provider_adapter option" where
  "buildProviderRegistry md5 fetch apiKey sharedSecret provider =
     (if provider = ''listenbrainz'' then Some (listenbrainzAdapter fetch)
      else if provider = ''lastfm'' then
        (case (apiKey, sharedSecret) of (Some k, Some s) \<Rightarrow> Some (lastfmAdapter md5 fetch k s) | _ \<Rightarrow> None)
      else None)"

subsection \<open>The routes\<close>

definition view_json :: "connection_view \<Rightarrow> json" where
  "view_json v = JObj
     [(''provider'', JStr (cv_provider v)), (''providerAccountId'', JStr (cv_accountId v)), (''status'', JStr (cv_status v)),
      (''scopes'', JArr (map JStr (cv_scopes v))), (''connectedAt'', JStr (cv_connectedAt v)),
      (''lastVerifiedAt'', optional_json (cv_lastVerifiedAt v))]"

definition ok_json :: "(string \<times> json) list \<Rightarrow> route_answer" where
  "ok_json kvs = Replied \<lparr>rp_status = 200, rp_headers = [], rp_body = JObj kvs\<rparr>"

definition failed :: "token_failure \<Rightarrow> route_answer" where
  "failed f = (case f of Refused e \<Rightarrow> Errored e | Unexpected \<Rightarrow> Crashed)"

definition vault_audit :: "vault_call \<Rightarrow> string \<Rightarrow> string \<Rightarrow> string \<Rightarrow> vault_world \<Rightarrow> vault_world" where
  "vault_audit vc userId action service w =
     w\<lparr>vw_audit := audit_record (vc_auditFails vc)
         \<lparr>ad_userId = Some userId, ad_action = action, ad_subjectRef = Some service, ad_outcome = ''ok'', ad_detail = None,
           ad_ip = Some (vc_ip vc)\<rparr> (vw_audit w)\<rparr>"

definition list_route :: "vault_parts \<Rightarrow> string \<Rightarrow> vault_world \<Rightarrow> route_answer \<times> vault_world" where
  "list_route vp userId w = (ok_json [(''items'', JArr (map view_json (list_connections vp userId w)))], w)"

definition direct_route ::
  "vault_parts \<Rightarrow> vault_call \<Rightarrow> string \<Rightarrow> string \<Rightarrow> string \<Rightarrow> vault_world \<Rightarrow> route_answer \<times> vault_world" where
  "direct_route vp vc userId service token w =
     (case adapterFor vp service of
        Inl e \<Rightarrow> (Errored e, w)
      | Inr adapter \<Rightarrow>
          (case pa_verifyDirect adapter of
             None \<Rightarrow> (Errored (unprocessable
               (Some (service @ '' does not accept a directly supplied token. Start the redirect flow instead.'')) None), w)
           | Some verify \<Rightarrow>
               (case verify token of
                  Inl f \<Rightarrow> (failed f, w)
                | Inr cred \<Rightarrow>
                    (case store_connection vp vc userId service cred w of
                       (Inl f, w1) \<Rightarrow> (failed f, w1)
                     | (Inr view, w1) \<Rightarrow>
                         (ok_json [(''provider'', JStr service), (''authorizeUrl'', JNull), (''expiresAt'', JNull), (''connection'', view_json view)],
                          vault_audit vc userId ''connection.created'' service w1)))))"

definition start_route ::
  "vault_parts \<Rightarrow> vault_call \<Rightarrow> string \<Rightarrow> string \<Rightarrow> string option \<Rightarrow> vault_world \<Rightarrow> route_answer \<times> vault_world" where
  "start_route vp vc userId service token w =
     (if \<not> isProvider service then (Errored (notFound ''No such service.''), w)
      else case token of
          Some t \<Rightarrow> direct_route vp vc userId service t w
        | None \<Rightarrow>
            (case startConnect vp vc userId service w of
               (Inl f, w1) \<Rightarrow> (failed f, w1)
             | (Inr (authorizeUrl, state, expiresAt), w1) \<Rightarrow>
                 (ok_json [(''provider'', JStr service), (''authorizeUrl'', optional_json authorizeUrl), (''expiresAt'', JStr expiresAt)],
                  vault_audit vc userId ''connection.connect_started'' service w1)))"

definition callback_route ::
  "vault_parts \<Rightarrow> vault_call \<Rightarrow> string \<Rightarrow> string \<Rightarrow> (string \<Rightarrow> string option) \<Rightarrow> vault_world \<Rightarrow> route_answer \<times> vault_world" where
  "callback_route vp vc userId service query w =
     (if \<not> isProvider service then (Errored (notFound ''No such service.''), w)
      else case adapterFor vp service of
          Inl e \<Rightarrow> (Errored e, w)
        | Inr adapter \<Rightarrow>
            (case consumeState vp vc userId (orelse (query ''state'') []) service w of
               (Inl e, w1) \<Rightarrow> (Errored e, w1)
             | (Inr _, w1) \<Rightarrow>
                 (case pa_completeCallback adapter query of
                    Inl f \<Rightarrow> (failed f, w1)
                  | Inr cred \<Rightarrow>
                      (case store_connection vp vc userId service cred w1 of
                         (Inl f, w2) \<Rightarrow> (failed f, w2)
                       | (Inr view, w2) \<Rightarrow>
                           (ok_json [(''provider'', JStr service), (''connection'', view_json view)],
                            vault_audit vc userId ''connection.callback'' service w2)))))"

definition disconnect_route :: "vault_call \<Rightarrow> string \<Rightarrow> string \<Rightarrow> vault_world \<Rightarrow> route_answer \<times> vault_world" where
  "disconnect_route vc userId service w =
     (if \<not> isProvider service then (Errored (notFound ''No such service.''), w)
      else case disconnect userId service w of
          (False, w1) \<Rightarrow> (Errored (notFound ''That service is not connected.''), w1)
        | (True, w1) \<Rightarrow>
            (ok_json [(''provider'', JStr service), (''disconnected'', JBool True)], vault_audit vc userId ''connection.deleted'' service w1))"

subsection \<open>Runs\<close>

datatype vault_request =
    Vr_list
  | Vr_start string "string option"
  | Vr_callback string "string \<Rightarrow> string option"
  | Vr_delete string

definition vault_route :: "vault_parts \<Rightarrow> vault_call \<Rightarrow> string \<Rightarrow> vault_request \<Rightarrow> vault_world \<Rightarrow> route_answer \<times> vault_world" where
  "vault_route vp vc userId q w = (case q of
     Vr_list \<Rightarrow> list_route vp userId w
   | Vr_start service token \<Rightarrow> start_route vp vc userId service token w
   | Vr_callback service query \<Rightarrow> callback_route vp vc userId service query w
   | Vr_delete service \<Rightarrow> disconnect_route vc userId service w)"

text \<open>A request of a signed-in user, served by some process, or a batch of the expiry sweep.\<close>

datatype vault_event =
    Served vault_parts vault_call string vault_request
  | Swept sweeper_options time

fun vault_step :: "vault_event \<Rightarrow> vault_world \<Rightarrow> route_answer option \<times> vault_world" where
  "vault_step (Served vp vc userId q) w = (case vault_route vp vc userId q w of (a, w1) \<Rightarrow> (Some a, w1))"
| "vault_step (Swept opts now) w = (None, w\<lparr>vw_states := snd (DELETE_CONNECT_STATES opts now (vw_states w))\<rparr>)"

definition vault_after :: "vault_event list \<Rightarrow> vault_world \<Rightarrow> vault_world" where
  "vault_after es w = foldl (\<lambda>w e. snd (vault_step e w)) w es"

definition answered_ok :: "vault_event \<Rightarrow> vault_world \<Rightarrow> bool" where
  "answered_ok e w \<longleftrightarrow> (case fst (vault_step e w) of Some (Replied _) \<Rightarrow> True | _ \<Rightarrow> False)"

definition succeeded :: "vault_event list \<Rightarrow> vault_world \<Rightarrow> nat \<Rightarrow> bool" where
  "succeeded es w j \<longleftrightarrow> answered_ok (es ! j) (vault_after (take j es) w)"

text \<open>The user, the service, the state and its end of a flow that an event starts; those of a flow it completes,
  with the clock of the database.\<close>

fun starts :: "vault_event \<Rightarrow> (string \<times> string \<times> string \<times> time) option" where
  "starts (Served vp vc userId (Vr_start service None)) = Some (userId, service, vc_state vc, vc_now vc + STATE_TTL_MS)"
| "starts _ = None"

fun completes :: "vault_event \<Rightarrow> (string \<times> string \<times> string \<times> time) option" where
  "completes (Served vp vc userId (Vr_callback service query)) = Some (userId, service, orelse (query ''state'') [], vc_dbNow vc)"
| "completes _ = None"

fun hashes_with :: "(string \<Rightarrow> string) \<Rightarrow> vault_event \<Rightarrow> bool" where
  "hashes_with sha (Served vp vc userId q) \<longleftrightarrow> vp_sha vp = sha"
| "hashes_with sha (Swept opts now) \<longleftrightarrow> True"

definition drawn :: "vault_event list \<Rightarrow> string list" where
  "drawn es = map (\<lambda>(u, p, s, t). s) (List.map_filter starts es)"

lemma vault_audit_states [simp]:
  "vw_states (vault_audit vc u a service w) = vw_states w" "vw_connections (vault_audit vc u a service w) = vw_connections w"
  by (simp_all add: vault_audit_def)

lemma ok_replied [simp]: "\<exists>r. ok_json kvs = Replied r"
  by (simp add: ok_json_def)

lemma failed_cases [simp]: "failed f \<noteq> Replied r"
  by (cases f) (simp_all add: failed_def)

lemma store_connection_states: "store_connection vp vc u p cred w = (r, w1) \<Longrightarrow> vw_states w1 = vw_states w"
  by (auto simp: store_connection_def split: sum.splits prod.splits option.splits)

lemma upsert_state_mem:
  assumes "upsert_state h0 row t = Some t1" and "(h, r) \<in> set t1"
  shows "(h = h0 \<and> r = row) \<or> ((h, r) \<in> set t \<and> \<not> (xs_userId r = xs_userId row \<and> xs_provider r = xs_provider row))"
proof (cases "list_ex (\<lambda>p. xs_userId (snd p) = xs_userId row \<and> xs_provider (snd p) = xs_provider row) t")
  case True
  then show ?thesis using assms by (auto simp: upsert_state_def Let_def split: if_splits)
next
  case False
  then have "t1 = t @ [(h0, row)]" using assms(1) by (simp add: upsert_state_def Let_def split: if_splits)
  then have "(h, r) = (h0, row) \<or> (h, r) \<in> set t" using assms(2) by auto
  then show ?thesis using False by (fastforce simp: list_ex_iff)
qed

lemma startConnect_states:
  assumes "startConnect vp vc u p w = (Inr x, w1)" and "(h, r) \<in> set (vw_states w1)"
  shows "(h = vp_sha vp (vc_state vc) \<and> xs_userId r = u \<and> xs_provider r = p \<and> xs_expiresAt r = vc_now vc + STATE_TTL_MS) \<or>
    ((h, r) \<in> set (vw_states w) \<and> \<not> (xs_userId r = u \<and> xs_provider r = p))"
proof -
  obtain t where t: "upsert_state (vp_sha vp (vc_state vc)) \<lparr>xs_userId = u, xs_provider = p,
      xs_redirectUri = Some (callbackUrl vp p), xs_expiresAt = vc_now vc + STATE_TTL_MS\<rparr> (vw_states w) = Some t" "w1 = w\<lparr>vw_states := t\<rparr>"
    using assms(1) by (auto simp: startConnect_def Let_def split: option.splits)
  with assms(2) have "(h, r) \<in> set t" by simp
  from upsert_state_mem [OF t(1) this] show ?thesis by (elim disjE conjE) simp_all
qed

lemma startConnect_failed: "startConnect vp vc u p w = (Inl f, w1) \<Longrightarrow> w1 = w"
  by (auto simp: startConnect_def Let_def split: option.splits)

lemma consumeState_spec:
  assumes "consumeState vp vc u s p w = (a, w1)"
  shows "vw_connections w1 = vw_connections w \<and> set (vw_states w1) \<subseteq> set (vw_states w) \<and>
    (\<forall>x. a = Inr x \<longrightarrow>
      (\<exists>r. (vp_sha vp s, r) \<in> set (vw_states w) \<and> xs_userId r = u \<and> xs_provider r = p \<and> vc_dbNow vc < xs_expiresAt r) \<and>
      (\<forall>r. (vp_sha vp s, r) \<in> set (vw_states w1) \<longrightarrow> xs_userId r = u \<longrightarrow> xs_provider r = p \<longrightarrow> xs_expiresAt r \<le> vc_dbNow vc))"
proof (cases "filter (state_matches (vp_sha vp s) p u (vc_dbNow vc)) (vw_states w)")
  case Nil
  then show ?thesis using assms by (auto simp: consumeState_def Let_def)
next
  case (Cons row rest)
  have "row \<in> set (filter (state_matches (vp_sha vp s) p u (vc_dbNow vc)) (vw_states w))" by (simp add: Cons)
  then have row: "row \<in> set (vw_states w)" "state_matches (vp_sha vp s) p u (vc_dbNow vc) row" by simp_all
  obtain h r where hr: "row = (h, r)" by (cases row)
  have "w1 = w\<lparr>vw_states := filter (\<lambda>p'. \<not> state_matches (vp_sha vp s) p u (vc_dbNow vc) p') (vw_states w)\<rparr>"
    using assms Cons hr by (simp add: consumeState_def Let_def)
  then show ?thesis using row hr by (auto simp: state_matches_def)
qed

lemma callback_answered:
  assumes "callback_route vp vc u p q w = (a, w1)"
  shows "set (vw_states w1) \<subseteq> set (vw_states w) \<and>
    (\<forall>reply. a = Replied reply \<longrightarrow>
      (\<exists>r. (vp_sha vp (orelse (q ''state'') []), r) \<in> set (vw_states w) \<and> xs_userId r = u \<and> xs_provider r = p \<and> vc_dbNow vc < xs_expiresAt r) \<and>
      (\<forall>r. (vp_sha vp (orelse (q ''state'') []), r) \<in> set (vw_states w1) \<longrightarrow> xs_userId r = u \<longrightarrow> xs_provider r = p \<longrightarrow>
        xs_expiresAt r \<le> vc_dbNow vc))"
proof -
  obtain x w2 where c: "consumeState vp vc u (orelse (q ''state'') []) p w = (x, w2)" by (cases "consumeState vp vc u (orelse (q ''state'') []) p w")
  note spec = consumeState_spec [OF this]
  have "(vw_states w1 = vw_states w2 \<or> w1 = w) \<and> (\<forall>reply. a = Replied reply \<longrightarrow> vw_states w1 = vw_states w2 \<and> (\<exists>y. x = Inr y))"
    using assms c by (auto simp: callback_route_def split: if_splits sum.splits prod.splits dest: store_connection_states)
  with spec show ?thesis by auto
qed

lemma start_answered:
  assumes "start_route vp vc u p None w = (a, w1)" and "(h, r) \<in> set (vw_states w1)"
  shows "(h = vp_sha vp (vc_state vc) \<and> xs_userId r = u \<and> xs_provider r = p \<and> xs_expiresAt r = vc_now vc + STATE_TTL_MS \<and>
      (\<exists>reply. a = Replied reply)) \<or>
    ((h, r) \<in> set (vw_states w) \<and> \<not> (xs_userId r = u \<and> xs_provider r = p \<and> (\<exists>reply. a = Replied reply)))"
proof (cases "startConnect vp vc u p w")
  case (Pair x w2)
  show ?thesis
  proof (cases x)
    case (Inl f)
    then show ?thesis using assms Pair startConnect_failed [of vp vc u p w f w2]
      by (auto simp: start_route_def split: if_splits)
  next
    case (Inr y)
    then show ?thesis using assms Pair startConnect_states [of vp vc u p w y w2 h r]
      by (cases y) (auto simp: start_route_def ok_json_def split: if_splits)
  qed
qed

lemma direct_route_states: "direct_route vp vc u p t w = (a, w1) \<Longrightarrow> vw_states w1 = vw_states w"
  by (auto simp: direct_route_def split: sum.splits option.splits prod.splits dest: store_connection_states)

lemma disconnect_route_states: "disconnect_route vc u p w = (a, w1) \<Longrightarrow> vw_states w1 = vw_states w"
  by (auto simp: disconnect_route_def disconnect_def Let_def split: if_splits bool.splits)

text \<open>Where a row after an event comes from, and what did not happen to it.\<close>

lemma states_step:
  assumes "hashes_with sha e" and "(h, r) \<in> set (vw_states (snd (vault_step e w)))"
  shows "(\<exists>s. starts e = Some (xs_userId r, xs_provider r, s, xs_expiresAt r) \<and> h = sha s \<and> answered_ok e w) \<or>
    ((h, r) \<in> set (vw_states w) \<and>
     (\<forall>s t. starts e = Some (xs_userId r, xs_provider r, s, t) \<longrightarrow> \<not> answered_ok e w) \<and>
     (\<forall>s now. completes e = Some (xs_userId r, xs_provider r, s, now) \<longrightarrow> h = sha s \<longrightarrow> now < xs_expiresAt r \<longrightarrow> \<not> answered_ok e w))"
proof (cases e)
  case (Swept opts now)
  then show ?thesis using assms(2)
    by (auto simp: DELETE_CONNECT_STATES_def delete_oldest_def Let_def)
next
  case (Served vp vc u q)
  obtain a w1 where step: "vault_route vp vc u q w = (a, w1)" by (cases "vault_route vp vc u q w")
  have ok: "answered_ok e w \<longleftrightarrow> (\<exists>reply. a = Replied reply)"
    using step Served by (cases a) (auto simp: answered_ok_def)
  have mem: "(h, r) \<in> set (vw_states w1)" using assms(2) step Served by simp
  have sha: "vp_sha vp = sha" using assms(1) Served by simp
  show ?thesis
  proof (cases q)
    case Vr_list
    then show ?thesis using Served step mem by (auto simp: vault_route_def list_route_def)
  next
    case (Vr_delete p)
    then show ?thesis using Served step mem disconnect_route_states [of vc u p w a w1] by (simp add: vault_route_def)
  next
    case (Vr_start p token)
    show ?thesis
    proof (cases token)
      case None
      then show ?thesis
        using start_answered [of vp vc u p w a w1 h r] Served Vr_start step mem ok sha by (auto simp: vault_route_def)
    next
      case (Some t)
      then have "vw_states w1 = vw_states w"
        using step Vr_start direct_route_states [of vp vc u p t w a w1] by (auto simp: vault_route_def start_route_def split: if_splits)
      then show ?thesis using mem Served Vr_start Some by simp
    qed
  next
    case (Vr_callback p query)
    then have "callback_route vp vc u p query w = (a, w1)" using step by (simp add: vault_route_def)
    from callback_answered [OF this] show ?thesis using Served Vr_callback mem ok sha by auto
  qed
qed

lemma vault_after_Suc: "j < length es \<Longrightarrow> vault_after (take (Suc j) es) w = snd (vault_step (es ! j) (vault_after (take j es) w))"
  by (simp add: vault_after_def take_Suc_conv_app_nth)

text \<open>A stored state was drawn by a flow that was started, of which no later flow and no completion is known.\<close>

lemma state_has_flow:
  assumes "\<forall>e \<in> set es. hashes_with sha e" and "vw_states w = []"
  shows "j \<le> length es \<Longrightarrow> (h, r) \<in> set (vw_states (vault_after (take j es) w)) \<Longrightarrow>
    \<exists>i<j. (\<exists>s. starts (es ! i) = Some (xs_userId r, xs_provider r, s, xs_expiresAt r) \<and> h = sha s) \<and> succeeded es w i \<and>
      (\<forall>k. i < k \<longrightarrow> k < j \<longrightarrow>
        (\<forall>s t. starts (es ! k) = Some (xs_userId r, xs_provider r, s, t) \<longrightarrow> \<not> succeeded es w k) \<and>
        (\<forall>s now. completes (es ! k) = Some (xs_userId r, xs_provider r, s, now) \<longrightarrow> h = sha s \<longrightarrow> now < xs_expiresAt r \<longrightarrow>
          \<not> succeeded es w k))"
proof (induction j)
  case 0
  then show ?case using assms(2) by (simp add: vault_after_def)
next
  case (Suc j)
  then have j: "j < length es" by simp
  have "hashes_with sha (es ! j)" using assms(1) j by simp
  moreover have "(h, r) \<in> set (vw_states (snd (vault_step (es ! j) (vault_after (take j es) w))))"
    using Suc.prems(2) by (simp add: vault_after_Suc [OF j])
  ultimately show ?case
  proof (rule states_step [THEN disjE], goal_cases)
    case 1
    then obtain s where "starts (es ! j) = Some (xs_userId r, xs_provider r, s, xs_expiresAt r)" "h = sha s" "succeeded es w j"
      by (auto simp: succeeded_def)
    then show ?case by (intro exI [of _ j]) auto
  next
    case 2
    then have old: "(h, r) \<in> set (vw_states (vault_after (take j es) w))"
      and no_start: "\<And>s t. starts (es ! j) = Some (xs_userId r, xs_provider r, s, t) \<Longrightarrow> \<not> succeeded es w j"
      and no_done: "\<And>s now. completes (es ! j) = Some (xs_userId r, xs_provider r, s, now) \<Longrightarrow> h = sha s \<Longrightarrow> now < xs_expiresAt r \<Longrightarrow>
        \<not> succeeded es w j"
      unfolding succeeded_def by blast+
    obtain i where i: "i < j" "\<exists>s. starts (es ! i) = Some (xs_userId r, xs_provider r, s, xs_expiresAt r) \<and> h = sha s" "succeeded es w i"
      and between: "\<And>k. i < k \<Longrightarrow> k < j \<Longrightarrow>
        (\<forall>s t. starts (es ! k) = Some (xs_userId r, xs_provider r, s, t) \<longrightarrow> \<not> succeeded es w k) \<and>
        (\<forall>s now. completes (es ! k) = Some (xs_userId r, xs_provider r, s, now) \<longrightarrow> h = sha s \<longrightarrow> now < xs_expiresAt r \<longrightarrow>
          \<not> succeeded es w k)"
      using Suc.IH [OF less_imp_le [OF j] old] by blast
    show ?case
    proof (intro exI [of _ i] conjI)
      show "i < Suc j" using i(1) by simp
    qed (use i between no_start no_done less_antisym in blast)+
  qed
qed

lemma drawn_Cons: "drawn (e # es) = (case starts e of None \<Rightarrow> drawn es | Some x \<Rightarrow> fst (snd (snd x)) # drawn es)"
  by (auto simp: drawn_def List.map_filter_simps split: option.split)

lemma drawn_nth: "k < length es \<Longrightarrow> starts (es ! k) = Some x \<Longrightarrow> fst (snd (snd x)) \<in> set (drawn es)"
proof (induction es arbitrary: k)
  case (Cons e es)
  then show ?case by (cases k) (auto simp: drawn_Cons split: option.split)
qed simp

lemma drawn_once:
  "distinct (drawn es) \<Longrightarrow> i < length es \<Longrightarrow> k < length es \<Longrightarrow> starts (es ! i) = Some x \<Longrightarrow> starts (es ! k) = Some y \<Longrightarrow>
     fst (snd (snd x)) = fst (snd (snd y)) \<Longrightarrow> i = k"
proof (induction es arbitrary: i k)
  case (Cons e es)
  have rest: "distinct (drawn es)" using Cons.prems(1) by (simp add: drawn_Cons split: option.splits)
  show ?case
  proof (cases i)
    case 0
    show ?thesis
    proof (cases k)
      case (Suc k')
      then show ?thesis using Cons.prems 0 drawn_nth [of k' es y] by (simp add: drawn_Cons)
    qed (simp add: 0)
  next
    case (Suc i')
    show ?thesis
    proof (cases k)
      case 0
      then show ?thesis using Cons.prems Suc drawn_nth [of i' es x] by (simp add: drawn_Cons)
    next
      case (Suc k')
      then show ?thesis using Cons.IH [OF rest, of i' k'] Cons.prems \<open>i = Suc i'\<close> by simp
    qed
  qed
qed simp

lemma completion_has_state:
  assumes "hashes_with sha e" and "completes e = Some (u, p, s, now)" and "answered_ok e w"
  shows "\<exists>r. (sha s, r) \<in> set (vw_states w) \<and> xs_userId r = u \<and> xs_provider r = p \<and> now < xs_expiresAt r"
proof -
  obtain vp vc query where e: "e = Served vp vc u (Vr_callback p query)" "s = orelse (query ''state'') []" "now = vc_dbNow vc" "vp_sha vp = sha"
    using assms(1,2) by (cases e rule: completes.cases) auto
  obtain a w1 where cb: "callback_route vp vc u p query w = (a, w1)" by (cases "callback_route vp vc u p query w")
  moreover obtain reply where "a = Replied reply"
    using assms(3) cb e by (cases a) (auto simp: answered_ok_def vault_route_def)
  ultimately show ?thesis using callback_answered [OF cb] e by auto
qed

text \<open>A completed flow, the flow it completes, and what did not happen in between.\<close>

lemma completed_flow:
  assumes "inj sha" and "\<forall>e \<in> set es. hashes_with sha e" and "vw_states w = []"
    and "j < length es" and "completes (es ! j) = Some (u, p, s, now)" and "succeeded es w j"
  shows "\<exists>i<j. \<exists>t. starts (es ! i) = Some (u, p, s, t) \<and> succeeded es w i \<and> now < t \<and>
    (\<forall>k. i < k \<longrightarrow> k < j \<longrightarrow> (\<forall>s' t'. starts (es ! k) = Some (u, p, s', t') \<longrightarrow> \<not> succeeded es w k)) \<and>
    (\<forall>k. i < k \<longrightarrow> k < j \<longrightarrow> (\<forall>now'. completes (es ! k) = Some (u, p, s, now') \<longrightarrow> now' < t \<longrightarrow> \<not> succeeded es w k))"
proof -
  have "hashes_with sha (es ! j)" using assms(2,4) by simp
  from completion_has_state [OF this assms(5) assms(6) [unfolded succeeded_def]] obtain r
    where r: "(sha s, r) \<in> set (vw_states (vault_after (take j es) w))" "xs_userId r = u" "xs_provider r = p" "now < xs_expiresAt r"
    by blast
  from state_has_flow [OF assms(2,3) less_imp_le [OF assms(4)] r(1)] obtain i s0
    where i: "i < j" "starts (es ! i) = Some (u, p, s0, xs_expiresAt r)" "sha s = sha s0" "succeeded es w i"
      and quiet: "\<forall>k. i < k \<longrightarrow> k < j \<longrightarrow>
        (\<forall>s t. starts (es ! k) = Some (u, p, s, t) \<longrightarrow> \<not> succeeded es w k) \<and>
        (\<forall>s' now. completes (es ! k) = Some (u, p, s', now) \<longrightarrow> sha s = sha s' \<longrightarrow> now < xs_expiresAt r \<longrightarrow> \<not> succeeded es w k)"
    unfolding r(2,3) by blast
  have "s0 = s" using injD [OF assms(1) i(3)] by simp
  then show ?thesis using i r(4) quiet by blast
qed

lemma envelope_dek_bound:
  assumes "is_aead seal opn" "binds_aad seal" "ev_kek ev (ev_activeKekId ev) = Inr kek" "length kek = 32" "length nonce2 = 12"
    and "ev_seal seal ev dek nonce1 nonce2 plaintext ctx = Inr sealed"
    and "ev_kek ev (sc_kekId sealed) = Inr kek" "buildAad ctx' = Inr aad'" "ctx' \<noteq> ctx"
  shows "ev_dek opn ev sealed aad' = Inl Tag_mismatch"
proof -
  obtain aad where aad: "buildAad ctx = Inr aad"
    using assms(6) by (auto simp: ev_seal_def split: if_splits sum.splits)
  then have "sc_wrappedDek sealed = box_seal seal kek nonce2 aad dek"
    using assms(3-6) by (auto simp: ev_seal_def sealWithKey_def split: if_splits)
  moreover have "aad' \<noteq> aad" using buildAad_inject [OF assms(8), of ctx] aad assms(9) by auto
  ultimately show ?thesis using open_box [OF assms(1,2,4,5), of aad dek aad'] by (simp add: ev_dek_def assms(7))
qed

lemma seal_field_ok:
  assumes "plaintext \<noteq> []" and "buildAad \<lparr>ec_userId = u, ec_provider = p, ec_field = f\<rparr> = Inr aad"
    and "ev_kek (vp_cipher vp) (ev_activeKekId (vp_cipher vp)) = Inr kek" and "length kek = 32" and "length dek = 32"
  shows "\<exists>s. seal_field vp (dek, n1, n2) plaintext u p f = Inr s"
  using assms by (simp add: seal_field_def ev_seal_def sealWithKey_def)

lemma store_connection_ok:
  "seal_field vp (vc_accessKeys vc) (pc_accessToken cred) u p ''access_token'' = Inr a \<Longrightarrow> pc_refreshToken cred = None \<Longrightarrow>
     \<exists>view w1. store_connection vp vc u p cred w = (Inr view, w1)"
  by (simp add: store_connection_def split: prod.split)

lemma upsert_connection_spec:
  assumes "upsert_connection row t = (row', t')"
  shows "\<exists>x \<in> set t'. x = row\<lparr>cx_createdAt := cx_createdAt x\<rparr>"
    and "x \<in> set t' \<Longrightarrow> same_connection (cx_userId row) (cx_provider row) (cx_accountId row) x \<Longrightarrow> x = row\<lparr>cx_createdAt := cx_createdAt x\<rparr>"
    and "x \<in> set t' \<Longrightarrow> \<not> same_connection (cx_userId row) (cx_provider row) (cx_accountId row) x \<Longrightarrow> x \<in> set t"
    and "\<not> (cx_userId row = u \<and> cx_provider row = p) \<Longrightarrow> filter (live_connection u p) t' = filter (live_connection u p) t"
proof -
  let ?same = "same_connection (cx_userId row) (cx_provider row) (cx_accountId row)"
  let ?new = "\<lambda>r. if ?same r then row\<lparr>cx_createdAt := cx_createdAt r\<rparr> else r"
  have same: "?same (row\<lparr>cx_createdAt := c\<rparr>)" "?same row" for c by (simp_all add: same_connection_def)
  have cases: "(t' = t @ [row] \<and> \<not> (\<exists>x \<in> set t. ?same x)) \<or> (t' = map ?new t \<and> (\<exists>x \<in> set t. ?same x))"
    using assms by (auto simp: upsert_connection_def Let_def find_None_iff find_Some_iff split: option.splits)
  show "\<exists>x \<in> set t'. x = row\<lparr>cx_createdAt := cx_createdAt x\<rparr>"
    using cases
  proof (elim disjE conjE bexE)
    assume "t' = t @ [row]"
    then show ?thesis by (intro bexI [of _ row]) simp_all
  next
    fix x assume x: "t' = map ?new t" "x \<in> set t" "?same x"
    then have "?new x \<in> set t'" by simp
    then show ?thesis using x(3) by (intro bexI [of _ "row\<lparr>cx_createdAt := cx_createdAt x\<rparr>"]) simp_all
  qed
  show "x \<in> set t' \<Longrightarrow> ?same x \<Longrightarrow> x = row\<lparr>cx_createdAt := cx_createdAt x\<rparr>"
    using cases by auto
  show "x \<in> set t' \<Longrightarrow> \<not> ?same x \<Longrightarrow> x \<in> set t"
    using cases same by (auto split: if_splits)
  show "filter (live_connection u p) t' = filter (live_connection u p) t" if other: "\<not> (cx_userId row = u \<and> cx_provider row = p)"
  proof -
    have gone: "\<not> live_connection u p (row\<lparr>cx_createdAt := c\<rparr>)" "\<not> live_connection u p row" for c
      using other by (auto simp: live_connection_def)
    have "\<not> live_connection u p x" if "?same x" for x using that other by (auto simp: live_connection_def same_connection_def)
    then have "filter (live_connection u p) (map ?new l) = filter (live_connection u p) l" for l
      by (induction l) (auto simp: gone)
    then show ?thesis using cases gone by auto
  qed
qed

text \<open>The row that is stored.\<close>

lemma store_connection_row:
  assumes "store_connection vp vc u p cred w = (Inr view, w1)"
  obtains access row refresh where
    "seal_field vp (vc_accessKeys vc) (pc_accessToken cred) u p ''access_token'' = Inr access"
    and "\<And>token. pc_refreshToken cred = Some token \<Longrightarrow>
      \<exists>s. seal_field vp (vc_refreshKeys vc) token u p ''refresh_token'' = Inr s \<and> refresh = Some (sc_ciphertext s)"
    and "upsert_connection row (vw_connections w) = (fst (upsert_connection row (vw_connections w)), vw_connections w1)"
    and "cx_userId row = u" "cx_provider row = p" "cx_accountId row = pc_accountId cred" "live_connection u p row"
    and "access_of row = access" "cx_refreshCt row = refresh"
proof -
  obtain access where access: "seal_field vp (vc_accessKeys vc) (pc_accessToken cred) u p ''access_token'' = Inr access"
    using assms by (auto simp: store_connection_def split: sum.splits)
  obtain refresh where refresh: "(case pc_refreshToken cred of None \<Rightarrow> Inr None
                 | Some token \<Rightarrow> (case seal_field vp (vc_refreshKeys vc) token u p ''refresh_token'' of
                     Inl e \<Rightarrow> Inl e | Inr s \<Rightarrow> Inr (Some s))) = Inr refresh"
    using assms access by (cases "(case pc_refreshToken cred of None \<Rightarrow> Inr None
                 | Some token \<Rightarrow> (case seal_field vp (vc_refreshKeys vc) token u p ''refresh_token'' of
                     Inl e \<Rightarrow> Inl e | Inr s \<Rightarrow> Inr (Some s)))") (simp_all add: store_connection_def)
  let ?row = "\<lparr>cx_userId = u, cx_provider = p, cx_accountId = pc_accountId cred,
    cx_kekId = sc_kekId access, cx_wrappedDek = sc_wrappedDek access, cx_accessCt = sc_ciphertext access,
    cx_refreshCt = map_option sc_ciphertext refresh, cx_expiresAt = pc_expiresAt cred, cx_scopes = pc_scopes cred,
    cx_status = ''active'', cx_createdAt = vc_dbNow vc, cx_lastVerifiedAt = Some (vc_dbNow vc), cx_revokedAt = None\<rparr>"
  have "upsert_connection ?row (vw_connections w) = (fst (upsert_connection ?row (vw_connections w)), vw_connections w1)"
    using assms access refresh by (cases "upsert_connection ?row (vw_connections w)") (auto simp: store_connection_def)
  note stored = this
  show thesis
    by (rule that [OF access _ stored, of "map_option sc_ciphertext refresh"])
      (use refresh in \<open>auto simp: live_connection_def access_of_def split: sum.splits option.splits\<close>)
qed

subsection \<open>Properties\<close>

text \<open>Claim C37. A connection is only ever made by the one who asked for it: when a callback of a user
  succeeds, the state it carries was drawn for a flow which the same user had started for the same
  service, which has not ended, and which was the last one started there; and no other callback, by
  whomever and for whatever service, ever succeeds with that state.\<close>

theorem connect_completes_own_flow:
  assumes "inj sha" and "\<forall>e \<in> set es. hashes_with sha e" and "distinct (drawn es)" and "vw_states w = []"
    and "j < length es" and "completes (es ! j) = Some (u, p, s, now)" and "succeeded es w j"
  shows "(\<exists>i<j. \<exists>t. starts (es ! i) = Some (u, p, s, t) \<and> succeeded es w i \<and> now < t \<and>
      (\<forall>k. i < k \<longrightarrow> k < j \<longrightarrow> (\<forall>s' t'. starts (es ! k) = Some (u, p, s', t') \<longrightarrow> \<not> succeeded es w k))) \<and>
    (\<forall>k < length es. \<forall>u' p' now'. k \<noteq> j \<longrightarrow> completes (es ! k) = Some (u', p', s, now') \<longrightarrow> \<not> succeeded es w k)"
proof (intro conjI allI impI)
  show "\<exists>i<j. \<exists>t. starts (es ! i) = Some (u, p, s, t) \<and> succeeded es w i \<and> now < t \<and>
      (\<forall>k. i < k \<longrightarrow> k < j \<longrightarrow> (\<forall>s' t'. starts (es ! k) = Some (u, p, s', t') \<longrightarrow> \<not> succeeded es w k))"
    using completed_flow [OF assms(1,2,4-7)] by blast
next
  have once: False
    if early: "a < b" and b: "b < length es" and ca: "completes (es ! a) = Some (u1, p1, s, now1)" "succeeded es w a"
      and cb: "completes (es ! b) = Some (u2, p2, s, now2)" "succeeded es w b" for a b u1 p1 now1 u2 p2 now2
  proof -
    have a: "a < length es" using early b by simp
    obtain i t where i: "i < a" "starts (es ! i) = Some (u1, p1, s, t)" "now1 < t"
      using completed_flow [OF assms(1,2,4) a ca] by blast
    obtain i' t' where i': "i' < b" "starts (es ! i') = Some (u2, p2, s, t')"
      and quiet: "\<forall>k. i' < k \<longrightarrow> k < b \<longrightarrow> (\<forall>now'. completes (es ! k) = Some (u2, p2, s, now') \<longrightarrow> now' < t' \<longrightarrow> \<not> succeeded es w k)"
      using completed_flow [OF assms(1,2,4) b cb] by blast
    have "i < length es" "i' < length es" using i(1) i'(1) a b by simp_all
    from drawn_once [OF assms(3) this i(2) i'(2)] have same: "i = i'" by simp
    then have "u1 = u2" "p1 = p2" "t = t'" using i(2) i'(2) by simp_all
    then show False using quiet i(1,3) same early ca by blast
  qed
  fix k u' p' now'
  assume k: "k < length es" "k \<noteq> j" "completes (es ! k) = Some (u', p', s, now')"
  show "\<not> succeeded es w k"
  proof
    assume "succeeded es w k"
    then show False using once [of j k u p now u' p' now'] once [of k j u' p' now' u p now] k assms(5-7) by (cases "j < k") auto
  qed
qed

definition demo_adapter :: provider_adapter where
  "demo_adapter = \<lparr>pa_authorizeUrl = (\<lambda>state callback. Some (callback @ state)),
     pa_completeCallback = (\<lambda>query. Inr \<lparr>pc_accountId = ''rj'', pc_accessToken = ''key'', pc_refreshToken = None, pc_expiresAt = None, pc_scopes = None\<rparr>),
     pa_verifyDirect = None\<rparr>"

definition demo_vault :: vault_parts where
  "demo_vault = \<lparr>vp_sha = (\<lambda>s. s), vp_seal = toy_seal, vp_open = toy_open,
     vp_cipher = \<lparr>ev_keks = [(''k1'', demo_kek)], ev_activeKekId = ''k1''\<rparr>,
     vp_iso = (\<lambda>_. ''t''), vp_publicBaseUrl = ''https://pull.fm'', vp_providers = (\<lambda>_. Some demo_adapter)\<rparr>"

definition demo_vault_call :: "time \<Rightarrow> vault_call" where
  "demo_vault_call now = \<lparr>vc_now = now, vc_dbNow = now, vc_state = ''s1'',
     vc_accessKeys = (demo_kek, replicate 12 (CHR ''1''), replicate 12 (CHR ''2'')),
     vc_refreshKeys = (demo_kek, replicate 12 (CHR ''3''), replicate 12 (CHR ''4'')), vc_auditFails = False, vc_ip = ''192.0.2.1''\<rparr>"

definition demo_vault_world :: vault_world where
  "demo_vault_world = \<lparr>vw_states = [], vw_connections = [], vw_audit = []\<rparr>"

definition demo_flow :: "vault_event list" where
  "demo_flow =
     [Served demo_vault (demo_vault_call 0) ''u1'' (Vr_start ''lastfm'' None),
      Served demo_vault (demo_vault_call 1000) ''u1'' (Vr_callback ''lastfm'' (\<lambda>k. if k = ''state'' then Some ''s1'' else None)),
      Served demo_vault (demo_vault_call 2000) ''u1'' (Vr_callback ''lastfm'' (\<lambda>k. if k = ''state'' then Some ''s1'' else None))]"

lemma demo_flow_runs:
  "\<forall>e \<in> set demo_flow. hashes_with (\<lambda>s. s) e" "distinct (drawn demo_flow)" "vw_states demo_vault_world = []"
  "completes (demo_flow ! 1) = Some (''u1'', ''lastfm'', ''s1'', 1000)" "length demo_flow = 3"
  by (simp_all add: demo_flow_def demo_vault_def demo_vault_call_def demo_vault_world_def drawn_def List.map_filter_simps orelse_def)

lemma demo_vault_facts:
  "is_aead (vp_seal demo_vault) (vp_open demo_vault)" "binds_aad (vp_seal demo_vault)"
  "ev_kek (vp_cipher demo_vault) (ev_activeKekId (vp_cipher demo_vault)) = Inr demo_kek" "length demo_kek = 32"
  "vc_accessKeys (demo_vault_call now) = (demo_kek, replicate 12 (CHR ''1''), replicate 12 (CHR ''2''))"
  "vc_refreshKeys (demo_vault_call now) = (demo_kek, replicate 12 (CHR ''3''), replicate 12 (CHR ''4''))"
  by (simp_all add: demo_vault_def toy_is_aead toy_binds_aad demo_vault_call_def ev_kek_def demo_kek_def)

lemma demo_aad:
  "\<exists>a. buildAad \<lparr>ec_userId = ''u1'', ec_provider = ''lastfm'', ec_field = ''access_token''\<rparr> = Inr a"
  "\<exists>a. buildAad \<lparr>ec_userId = ''u1'', ec_provider = ''lastfm'', ec_field = ''refresh_token''\<rparr> = Inr a"
  by (simp_all add: buildAad_def aad_part_def utf8_encode_def utf8_char_def Let_def)

lemma demo_seals:
  "plaintext \<noteq> [] \<Longrightarrow> \<exists>s. seal_field demo_vault (vc_accessKeys (demo_vault_call now)) plaintext ''u1'' ''lastfm'' ''access_token'' = Inr s"
  "plaintext \<noteq> [] \<Longrightarrow> \<exists>s. seal_field demo_vault (vc_refreshKeys (demo_vault_call now)) plaintext ''u1'' ''lastfm'' ''refresh_token'' = Inr s"
  using demo_aad seal_field_ok [OF _ _ demo_vault_facts(3,4) demo_vault_facts(4)] unfolding demo_vault_facts(5,6) by blast+

lemma demo_stores:
  "\<exists>view w1. store_connection demo_vault (demo_vault_call now) ''u1'' ''lastfm''
     \<lparr>pc_accountId = ''rj'', pc_accessToken = ''key'', pc_refreshToken = token, pc_expiresAt = None, pc_scopes = None\<rparr> w = (Inr view, w1)"
  if "token \<noteq> Some []"
proof -
  obtain a where "seal_field demo_vault (vc_accessKeys (demo_vault_call now)) ''key'' ''u1'' ''lastfm'' ''access_token'' = Inr a"
    using demo_seals(1) by blast
  moreover have "\<exists>s. seal_field demo_vault (vc_refreshKeys (demo_vault_call now)) t ''u1'' ''lastfm'' ''refresh_token'' = Inr s"
    if "token = Some t" for t
    using demo_seals(2) [of t now] that \<open>token \<noteq> Some []\<close> by simp
  ultimately show ?thesis
    by (cases token) (auto simp: store_connection_def split: prod.split)
qed

lemma demo_flow_done: "succeeded demo_flow demo_vault_world 1"
proof -
  let ?q = "\<lambda>k. if k = ''state'' then Some ''s1'' else None"
  let ?w = "snd (start_route demo_vault (demo_vault_call 0) ''u1'' ''lastfm'' None demo_vault_world)"
  have "consumeState demo_vault (demo_vault_call 1000) ''u1'' ''s1'' ''lastfm'' ?w =
      (Inr (Some (callbackUrl demo_vault ''lastfm'')), ?w\<lparr>vw_states := []\<rparr>)"
    by (simp add: start_route_def isProvider_def PROVIDERS_def startConnect_def demo_vault_def demo_vault_call_def demo_vault_world_def
        upsert_state_def consumeState_def state_matches_def STATE_TTL_MS_def Let_def)
  moreover have "\<exists>a. adapterFor demo_vault ''lastfm'' = Inr a \<and> pa_completeCallback a ?q = Inr
      \<lparr>pc_accountId = ''rj'', pc_accessToken = ''key'', pc_refreshToken = None, pc_expiresAt = None, pc_scopes = None\<rparr>"
    by (simp add: adapterFor_def demo_vault_def demo_adapter_def)
  moreover obtain view w1 where "store_connection demo_vault (demo_vault_call 1000) ''u1'' ''lastfm''
     \<lparr>pc_accountId = ''rj'', pc_accessToken = ''key'', pc_refreshToken = None, pc_expiresAt = None, pc_scopes = None\<rparr> (?w\<lparr>vw_states := []\<rparr>) = (Inr view, w1)"
    using demo_stores [of None 1000 "?w\<lparr>vw_states := []\<rparr>"] by auto
  ultimately have "\<exists>r w1. callback_route demo_vault (demo_vault_call 1000) ''u1'' ''lastfm'' ?q ?w = (Replied r, w1)"
    by (auto simp: callback_route_def isProvider_def PROVIDERS_def orelse_def ok_json_def)
  then show ?thesis
    by (auto simp: succeeded_def answered_ok_def demo_flow_def vault_after_def vault_route_def split: prod.split)
qed

theorem connect_completes_own_flow_witness:
  "(\<exists>i<1. \<exists>t. starts (demo_flow ! i) = Some (''u1'', ''lastfm'', ''s1'', t)) \<and> \<not> succeeded demo_flow demo_vault_world 2"
proof -
  have "inj (\<lambda>s :: string. s)" by simp
  from connect_completes_own_flow [OF this demo_flow_runs(1-3) _ demo_flow_runs(4) demo_flow_done]
  show ?thesis using demo_flow_runs(5) by (auto simp: demo_flow_def orelse_def demo_vault_call_def)
qed

text \<open>Claim C38. What is connected can be used, and by nobody else: once a credential is stored, opening the
  one of that user for that service gives its account and exactly its token, provided no other account of
  the service was connected; and what any other user or service gets is what it was.\<close>

theorem stored_credential_opens:
  assumes "is_aead (vp_seal vp) (vp_open vp)" and "binds_aad (vp_seal vp)"
    and "ev_kek (vp_cipher vp) (ev_activeKekId (vp_cipher vp)) = Inr kek" and "length kek = 32"
    and "vc_accessKeys vc = (dek, nonce1, nonce2)" and "length dek = 32" and "length nonce1 = 12" and "length nonce2 = 12"
    and "store_connection vp vc u p cred w = (Inr view, w1)"
    and "\<forall>r \<in> set (vw_connections w). live_connection u p r \<longrightarrow> cx_accountId r = pc_accountId cred"
  shows "openCredential vp u p w1 = Inr (Some (pc_accountId cred, pc_accessToken cred)) \<and>
    (\<forall>u' p'. (u', p') \<noteq> (u, p) \<longrightarrow> openCredential vp u' p' w1 = openCredential vp u' p' w)"
proof
  obtain access row where access: "seal_field vp (vc_accessKeys vc) (pc_accessToken cred) u p ''access_token'' = Inr access"
    and up: "upsert_connection row (vw_connections w) = (fst (upsert_connection row (vw_connections w)), vw_connections w1)"
    and row: "cx_userId row = u" "cx_provider row = p" "cx_accountId row = pc_accountId cred" "live_connection u p row" "access_of row = access"
    by (rule store_connection_row [OF assms(9)]) blast
  let ?ctx = "\<lparr>ec_userId = u, ec_provider = p, ec_field = ''access_token''\<rparr>"
  note upsert = upsert_connection_spec [OF up]
  have seal: "ev_seal (vp_seal vp) (vp_cipher vp) dek nonce1 nonce2 (pc_accessToken cred) ?ctx = Inr access"
    using access by (simp add: seal_field_def assms(5))
  then obtain aad where aad: "buildAad ?ctx = Inr aad" by (auto simp: ev_seal_def split: if_splits sum.splits)
  have kek: "ev_kek (vp_cipher vp) (sc_kekId access) = Inr kek" using ev_seal_kek [OF seal] assms(3) by simp
  have opens: "ev_open (vp_open vp) (vp_cipher vp) access ?ctx = Inr (pc_accessToken cred)"
    using envelope_opens [OF assms(1-4,6-8) seal kek aad] by simp
  obtain x where x: "x \<in> set (vw_connections w1)" "x = row\<lparr>cx_createdAt := cx_createdAt x\<rparr>" using upsert(1) by blast
  have "live_connection u p (row\<lparr>cx_createdAt := c\<rparr>)" for c using row(4) by (simp add: live_connection_def)
  then have "live_connection u p x" by (subst x(2))
  with x(1) have "filter (live_connection u p) (vw_connections w1) \<noteq> []" by (auto simp: filter_empty_conv)
  then obtain r rs where f: "filter (live_connection u p) (vw_connections w1) = r # rs" by (cases "filter (live_connection u p) (vw_connections w1)") auto
  then have "r \<in> set (filter (live_connection u p) (vw_connections w1))" by simp
  then have r: "r \<in> set (vw_connections w1)" "live_connection u p r" by simp_all
  have "same_connection u p (pc_accountId cred) r"
  proof (rule ccontr)
    assume other: "\<not> same_connection u p (pc_accountId cred) r"
    then have "r \<in> set (vw_connections w)" using upsert(3) [OF r(1)] row by simp
    with assms(10) r(2) other show False by (auto simp: same_connection_def live_connection_def)
  qed
  then have new: "r = row\<lparr>cx_createdAt := cx_createdAt r\<rparr>" using upsert(2) [OF r(1)] row by simp
  have "access_of (row\<lparr>cx_createdAt := c\<rparr>) = access" "cx_accountId (row\<lparr>cx_createdAt := c\<rparr>) = pc_accountId cred" for c
    using row by (simp_all add: access_of_def)
  then have "access_of r = access" "cx_accountId r = pc_accountId cred" by (subst new, simp)+
  then show "openCredential vp u p w1 = Inr (Some (pc_accountId cred, pc_accessToken cred))"
    using opens by (simp add: openCredential_def f)
  show "\<forall>u' p'. (u', p') \<noteq> (u, p) \<longrightarrow> openCredential vp u' p' w1 = openCredential vp u' p' w"
    using upsert(4) row(1,2) by (auto simp: openCredential_def)
qed

definition demo_credential :: "string option \<Rightarrow> provider_credential" where
  "demo_credential token =
     \<lparr>pc_accountId = ''rj'', pc_accessToken = ''key'', pc_refreshToken = token, pc_expiresAt = None, pc_scopes = None\<rparr>"

theorem stored_credential_opens_witness:
  "\<exists>view w1. store_connection demo_vault (demo_vault_call 0) ''u1'' ''lastfm'' (demo_credential None) demo_vault_world = (Inr view, w1) \<and>
     openCredential demo_vault ''u1'' ''lastfm'' w1 = Inr (Some (''rj'', ''key''))"
proof -
  obtain view w1 where
    "store_connection demo_vault (demo_vault_call 0) ''u1'' ''lastfm'' (demo_credential None) demo_vault_world = (Inr view, w1)"
    using demo_stores [of None 0 demo_vault_world] by (auto simp: demo_credential_def)
  moreover from stored_credential_opens [OF demo_vault_facts(1-5) demo_vault_facts(4) _ _ this]
  have "openCredential demo_vault ''u1'' ''lastfm'' w1 = Inr (Some (''rj'', ''key''))"
    by (simp add: demo_vault_world_def demo_credential_def)
  ultimately show ?thesis by blast
qed

text \<open>A refresh token cannot be read back: it is sealed under a data key of its own, of which the
  row keeps nothing, because the wrapped key of the row is the one of the access token. Opening it for
  the user, the service and the column it was sealed for fails the tag check, whatever was drawn.\<close>

theorem refresh_token_lost:
  assumes "is_aead (vp_seal vp) (vp_open vp)" and "binds_aad (vp_seal vp)"
    and "ev_kek (vp_cipher vp) (ev_activeKekId (vp_cipher vp)) = Inr kek" and "length kek = 32"
    and "vc_accessKeys vc = (dek, nonce1, nonce2)" and "length dek = 32" and "length nonce1 = 12" and "length nonce2 = 12"
    and "store_connection vp vc u p cred w = (Inr view, w1)" and "pc_refreshToken cred = Some token"
    and "r \<in> set (vw_connections w1)" and "same_connection u p (pc_accountId cred) r"
  shows "\<exists>ct. cx_refreshCt r = Some ct \<and>
    ev_open (vp_open vp) (vp_cipher vp) \<lparr>sc_kekId = cx_kekId r, sc_wrappedDek = cx_wrappedDek r, sc_ciphertext = ct\<rparr>
      \<lparr>ec_userId = u, ec_provider = p, ec_field = ''refresh_token''\<rparr> = Inl Tag_mismatch"
proof -
  obtain access row refresh where access: "seal_field vp (vc_accessKeys vc) (pc_accessToken cred) u p ''access_token'' = Inr access"
    and refresh: "\<exists>s. seal_field vp (vc_refreshKeys vc) token u p ''refresh_token'' = Inr s \<and> refresh = Some (sc_ciphertext s)"
    and up: "upsert_connection row (vw_connections w) = (fst (upsert_connection row (vw_connections w)), vw_connections w1)"
    and row: "cx_userId row = u" "cx_provider row = p" "cx_accountId row = pc_accountId cred" "access_of row = access" "cx_refreshCt row = refresh"
    by (rule store_connection_row [OF assms(9)]) (use assms(10) in blast)
  have seal: "ev_seal (vp_seal vp) (vp_cipher vp) dek nonce1 nonce2 (pc_accessToken cred)
      \<lparr>ec_userId = u, ec_provider = p, ec_field = ''access_token''\<rparr> = Inr access"
    using access by (simp add: seal_field_def assms(5))
  let ?ctx = "\<lparr>ec_userId = u, ec_provider = p, ec_field = ''refresh_token''\<rparr>"
  obtain s where s: "seal_field vp (vc_refreshKeys vc) token u p ''refresh_token'' = Inr s" "refresh = Some (sc_ciphertext s)"
    using refresh by blast
  then obtain aad where aad: "buildAad ?ctx = Inr aad"
    by (cases "vc_refreshKeys vc") (auto simp: seal_field_def ev_seal_def split: if_splits sum.splits)
  have kek: "ev_kek (vp_cipher vp) (sc_kekId access) = Inr kek" using ev_seal_kek [OF seal] assms(3) by simp
  have dek: "ev_dek (vp_open vp) (vp_cipher vp) access aad = Inl Tag_mismatch"
    by (rule envelope_dek_bound [OF assms(1-4,8) seal kek aad]) simp
  have new: "r = row\<lparr>cx_createdAt := cx_createdAt r\<rparr>"
    using upsert_connection_spec(2) [OF up assms(11)] assms(12) row by simp
  have "cx_refreshCt (row\<lparr>cx_createdAt := c\<rparr>) = refresh" "cx_kekId (row\<lparr>cx_createdAt := c\<rparr>) = sc_kekId access"
    "cx_wrappedDek (row\<lparr>cx_createdAt := c\<rparr>) = sc_wrappedDek access" for c
    using row by (auto simp: access_of_def)
  then have "cx_refreshCt r = refresh" "cx_kekId r = sc_kekId access" "cx_wrappedDek r = sc_wrappedDek access" by (subst new, simp)+
  then show ?thesis using dek aad s(2) kek by (simp add: ev_open_def ev_dek_def)
qed

theorem refresh_token_lost_witness:
  "\<exists>view w1 r ct. store_connection demo_vault (demo_vault_call 0) ''u1'' ''lastfm'' (demo_credential (Some ''refresh'')) demo_vault_world = (Inr view, w1) \<and>
     vw_connections w1 = [r] \<and> cx_refreshCt r = Some ct"
proof -
  obtain view w1 where st:
    "store_connection demo_vault (demo_vault_call 0) ''u1'' ''lastfm'' (demo_credential (Some ''refresh'')) demo_vault_world = (Inr view, w1)"
    using demo_stores [of "Some ''refresh''" 0 demo_vault_world] by (auto simp: demo_credential_def)
  then obtain r where r: "vw_connections w1 = [r]" "same_connection ''u1'' ''lastfm'' ''rj'' r"
    by (auto simp: store_connection_def upsert_connection_def demo_vault_world_def demo_credential_def Let_def same_connection_def
        split: sum.splits)
  from refresh_token_lost [OF demo_vault_facts(1-5) demo_vault_facts(4) _ _ st, of _ r] r
  have "\<exists>ct. cx_refreshCt r = Some ct" by (auto simp: demo_credential_def)
  then show ?thesis using st r(1) by blast
qed

end
