(* ===== verification/Crosswalk.thy ===== *)
theory Crosswalk
  imports Name_Keys Js_Sort
begin

text \<open>
  The crosswalk from names to MusicBrainz ids: the two stores
  \<^verbatim>\<open>packages/upstream/src/crosswalk/store.ts\<close> and \<^verbatim>\<open>pg-store.ts\<close>, and the resolver
  \<^verbatim>\<open>resolver.ts\<close>. Confidences and similarities are rational numbers. The resolver reaches its
  store through \<open>crosswalk_ops\<close> and MusicBrainz through \<open>mb_search\<close>; the locale
  \<open>crosswalk_store\<close> states what it relies on, and both stores are shown to provide it.
  Postgres' \<open>similarity\<close> and the threshold of its operator \<open>%\<close> are parameters.
\<close>

subsection \<open>Rows and hits\<close>

datatype crosswalk_entity = Artist | Recording | Release

fun entity_name :: "crosswalk_entity \<Rightarrow> utext" where
  "entity_name Artist = lit ''artist''"
| "entity_name Recording = lit ''recording''"
| "entity_name Release = lit ''release''"

datatype matched_by = Exact | Fuzzy | Remote

record crosswalk_record =
  cr_entityType :: crosswalk_entity
  cr_normalizedKey :: utext
  cr_mbid :: utext
  cr_confidence :: rat
  cr_source :: utext

record crosswalk_hit =
  ch_row :: crosswalk_record
  ch_matchedBy :: matched_by
  ch_similarity :: rat

definition exact_hit :: "crosswalk_record \<Rightarrow> crosswalk_hit" where
  "exact_hit r = \<lparr>ch_row = r, ch_matchedBy = Exact, ch_similarity = 1\<rparr>"

definition fuzzy_hit :: "rat \<Rightarrow> crosswalk_record \<Rightarrow> crosswalk_hit" where
  "fuzzy_hit similarity r = \<lparr>ch_row = r, ch_matchedBy = Fuzzy, ch_similarity = similarity\<rparr>"

text \<open>\<open>b.similarity - a.similarity || b.confidence - a.confidence\<close>.\<close>

definition best_first :: "crosswalk_hit \<Rightarrow> crosswalk_hit \<Rightarrow> real" where
  "best_first a b =
     (let d = of_rat (ch_similarity b - ch_similarity a)
      in if d \<noteq> 0 then d else of_rat (cr_confidence (ch_row b) - cr_confidence (ch_row a)))"

lemma js_comparator_best_first: "js_comparator best_first"
proof
  show "sgn (best_first y x) = - sgn (best_first x y)" for x y
    by (auto simp: best_first_def Let_def sgn_if)
next
  fix x y z
  assume "best_first x y \<le> 0" "best_first y z \<le> 0"
  then show "best_first x z \<le> 0"
    by (auto simp: best_first_def Let_def split: if_splits)
qed

interpretation best: js_comparator best_first
  by (rule js_comparator_best_first)

subsection \<open>The store in memory\<close>

type_synonym memory_crosswalk = "(utext \<times> crosswalk_record) list"

definition cw_id :: "crosswalk_entity \<Rightarrow> utext \<Rightarrow> utext" where
  "cw_id e key = entity_name e @ KEY_SEP # key"

definition cw_owned :: "crosswalk_entity \<Rightarrow> memory_crosswalk \<Rightarrow> crosswalk_record list" where
  "cw_owned e s = map snd (filter (\<lambda>p. take (length (entity_name e) + 1) (fst p) = entity_name e @ [KEY_SEP]) s)"

definition mc_lookupExact :: "crosswalk_entity \<Rightarrow> utext \<Rightarrow> memory_crosswalk \<Rightarrow> crosswalk_hit option" where
  "mc_lookupExact e key s = map_option exact_hit (map_of s (cw_id e key))"

text \<open>The loop of \<open>lookupFuzzy\<close> keeps the first row of the best similarity.\<close>

definition mc_lookupFuzzy ::
  "unicode \<Rightarrow> crosswalk_entity \<Rightarrow> utext \<Rightarrow> rat \<Rightarrow> memory_crosswalk \<Rightarrow> crosswalk_hit option" where
  "mc_lookupFuzzy u e key minSimilarity s =
     foldl (\<lambda>best row.
        let similarity = trigramSimilarity u key (cr_normalizedKey row)
        in if similarity < minSimilarity then best
           else case best of
             None \<Rightarrow> Some (fuzzy_hit similarity row)
           | Some h \<Rightarrow> if ch_similarity h < similarity then Some (fuzzy_hit similarity row) else best)
       None (cw_owned e s)"

definition mc_search ::
  "unicode \<Rightarrow> crosswalk_entity \<Rightarrow> utext \<Rightarrow> rat \<Rightarrow> int \<Rightarrow> memory_crosswalk \<Rightarrow> crosswalk_hit list" where
  "mc_search u e key minSimilarity limit s =
     take (nat (max 0 limit))
       (js_sort best_first
         (map (\<lambda>row. fuzzy_hit (trigramSimilarity u key (cr_normalizedKey row)) row)
           (filter (\<lambda>row. \<not> trigramSimilarity u key (cr_normalizedKey row) < minSimilarity) (cw_owned e s))))"

definition mc_lookupByMbid :: "crosswalk_entity \<Rightarrow> utext \<Rightarrow> memory_crosswalk \<Rightarrow> crosswalk_hit option" where
  "mc_lookupByMbid e mbid s =
     foldl (\<lambda>best row.
        if cr_mbid row \<noteq> mbid then best
        else case best of
          None \<Rightarrow> Some (exact_hit row)
        | Some h \<Rightarrow> if cr_confidence (ch_row h) < cr_confidence row then Some (exact_hit row) else best)
       None (cw_owned e s)"

definition mc_record :: "crosswalk_record \<Rightarrow> memory_crosswalk \<Rightarrow> memory_crosswalk" where
  "mc_record entry s =
     (let k = cw_id (cr_entityType entry) (cr_normalizedKey entry)
      in case map_of s k of
           None \<Rightarrow> s @ [(k, entry)]
         | Some existing \<Rightarrow>
             if cr_confidence existing < cr_confidence entry then AList.update k entry s else s)"

subsection \<open>The store in Postgres\<close>

type_synonym pg_crosswalk = "crosswalk_record list"

definition is_row :: "crosswalk_entity \<Rightarrow> utext \<Rightarrow> crosswalk_record \<Rightarrow> bool" where
  "is_row e key r \<longleftrightarrow> cr_entityType r = e \<and> cr_normalizedKey r = key"

definition pc_lookupExact :: "crosswalk_entity \<Rightarrow> utext \<Rightarrow> pg_crosswalk \<Rightarrow> crosswalk_hit option" where
  "pc_lookupExact e key s = map_option exact_hit (List.find (is_row e key) s)"

text \<open>The rows of a fuzzy query: those the index operator keeps, above the caller's own bound, in
  the order of the query.\<close>

definition pc_ranked ::
  "(utext \<Rightarrow> utext \<Rightarrow> rat) \<Rightarrow> rat \<Rightarrow> crosswalk_entity \<Rightarrow> utext \<Rightarrow> rat \<Rightarrow> pg_crosswalk \<Rightarrow> crosswalk_hit list" where
  "pc_ranked similarity threshold e key minSimilarity s =
     js_sort best_first
       (map (\<lambda>r. fuzzy_hit (similarity (cr_normalizedKey r) key) r)
         (filter (\<lambda>r. cr_entityType r = e \<and> threshold \<le> similarity (cr_normalizedKey r) key \<and>
                      minSimilarity \<le> similarity (cr_normalizedKey r) key) s))"

definition pc_lookupFuzzy ::
  "(utext \<Rightarrow> utext \<Rightarrow> rat) \<Rightarrow> rat \<Rightarrow> crosswalk_entity \<Rightarrow> utext \<Rightarrow> rat \<Rightarrow> pg_crosswalk \<Rightarrow> crosswalk_hit option" where
  "pc_lookupFuzzy similarity threshold e key minSimilarity s =
     (case pc_ranked similarity threshold e key minSimilarity s of [] \<Rightarrow> None | h # _ \<Rightarrow> Some h)"

definition pc_search ::
  "(utext \<Rightarrow> utext \<Rightarrow> rat) \<Rightarrow> rat \<Rightarrow> crosswalk_entity \<Rightarrow> utext \<Rightarrow> rat \<Rightarrow> rat \<Rightarrow> pg_crosswalk \<Rightarrow> crosswalk_hit list" where
  "pc_search similarity threshold e key minSimilarity limit s =
     take (nat (min (max 1 (if 0 \<le> limit then \<lfloor>limit\<rfloor> else \<lceil>limit\<rceil>)) 50))
       (pc_ranked similarity threshold e key minSimilarity s)"

definition pc_lookupByMbid :: "crosswalk_entity \<Rightarrow> utext \<Rightarrow> pg_crosswalk \<Rightarrow> crosswalk_hit option" where
  "pc_lookupByMbid e mbid s =
     (case js_sort (\<lambda>a b. of_rat (cr_confidence b - cr_confidence a))
             (filter (\<lambda>r. cr_entityType r = e \<and> cr_mbid r = mbid) s) of
        [] \<Rightarrow> None
      | r # _ \<Rightarrow> Some (exact_hit r))"

text \<open>\<open>INSERT ... ON CONFLICT DO UPDATE ... WHERE EXCLUDED.confidence > confidence\<close>.\<close>

definition pc_record :: "crosswalk_record \<Rightarrow> pg_crosswalk \<Rightarrow> pg_crosswalk" where
  "pc_record entry s =
     (if list_ex (is_row (cr_entityType entry) (cr_normalizedKey entry)) s
      then map (\<lambda>r. if is_row (cr_entityType entry) (cr_normalizedKey entry) r
                         \<and> cr_confidence r < cr_confidence entry then entry else r) s
      else s @ [entry])"

subsection \<open>The resolver\<close>

record 's crosswalk_ops =
  xo_lookupExact :: "crosswalk_entity \<Rightarrow> utext \<Rightarrow> 's \<Rightarrow> crosswalk_hit option"
  xo_lookupFuzzy :: "crosswalk_entity \<Rightarrow> utext \<Rightarrow> rat \<Rightarrow> 's \<Rightarrow> crosswalk_hit option"
  xo_record :: "crosswalk_record \<Rightarrow> 's \<Rightarrow> 's"

text \<open>What a search of MusicBrainz brings: the ids and scores of its hits, an \<open>UpstreamError\<close>, or
  another exception.\<close>

datatype mb_answer = Hits "(utext \<times> rat) list" | Upstream_down | Threw_other

record mb_search =
  mb_searchArtist :: "utext \<Rightarrow> mb_answer"
  mb_searchRecording :: "utext \<Rightarrow> utext \<Rightarrow> mb_answer"

record resolver_options =
  ro_fuzzyThreshold :: "rat option"
  ro_minSearchScore :: "rat option"

record resolution =
  rs_mbid :: utext
  rs_confidence :: rat
  rs_source :: utext
  rs_matchedBy :: matched_by

record 's resolver =
  rv_store :: 's
  rv_exact :: nat
  rv_fuzzy :: nat
  rv_remote :: nat
  rv_unresolved :: nat

datatype resolve_answer = Answered "resolution option" | Rethrown

definition rv_new :: "'s \<Rightarrow> 's resolver" where
  "rv_new s = \<lparr>rv_store = s, rv_exact = 0, rv_fuzzy = 0, rv_remote = 0, rv_unresolved = 0\<rparr>"

definition rv_total :: "'s resolver \<Rightarrow> nat" where
  "rv_total rv = rv_exact rv + rv_fuzzy rv + rv_remote rv + rv_unresolved rv"

definition rv_warmHitRate :: "'s resolver \<Rightarrow> rat" where
  "rv_warmHitRate rv =
     (if rv_total rv = 0 then 0 else of_nat (rv_exact rv + rv_fuzzy rv) / of_nat (rv_total rv))"

definition toResolution :: "crosswalk_hit \<Rightarrow> resolution" where
  "toResolution hit =
     \<lparr>rs_mbid = cr_mbid (ch_row hit),
      rs_confidence = (if ch_matchedBy hit = Exact then cr_confidence (ch_row hit)
                       else cr_confidence (ch_row hit) * ch_similarity hit),
      rs_source = cr_source (ch_row hit), rs_matchedBy = ch_matchedBy hit\<rparr>"

definition rv_local ::
  "'s crosswalk_ops \<Rightarrow> resolver_options \<Rightarrow> crosswalk_entity \<Rightarrow> utext \<Rightarrow> 's resolver \<Rightarrow> resolution option \<times> 's resolver" where
  "rv_local ops opts e key rv =
     (if key = [] then (None, rv)
      else case xo_lookupExact ops e key (rv_store rv) of
        Some hit \<Rightarrow> (Some (toResolution hit), rv\<lparr>rv_exact := Suc (rv_exact rv)\<rparr>)
      | None \<Rightarrow>
          (case xo_lookupFuzzy ops e key (orelse (ro_fuzzyThreshold opts) (55/100)) (rv_store rv) of
             Some hit \<Rightarrow> (Some (toResolution hit), rv\<lparr>rv_fuzzy := Suc (rv_fuzzy rv)\<rparr>)
           | None \<Rightarrow> (None, rv)))"

definition rv_unresolve :: "'s resolver \<Rightarrow> resolve_answer \<times> 's resolver" where
  "rv_unresolve rv = (Answered None, rv\<lparr>rv_unresolved := Suc (rv_unresolved rv)\<rparr>)"

definition remote_confidence :: "rat \<Rightarrow> rat" where
  "remote_confidence score = 6/10 + min score 100 * (35/10000)"

definition rv_recordRemote ::
  "'s crosswalk_ops \<Rightarrow> resolver_options \<Rightarrow> crosswalk_entity \<Rightarrow> utext \<Rightarrow> (utext \<times> rat) list \<Rightarrow> utext \<Rightarrow> 's resolver
     \<Rightarrow> resolve_answer \<times> 's resolver" where
  "rv_recordRemote ops opts e key hits source rv =
     (case hits of
        [] \<Rightarrow> rv_unresolve rv
      | (mbid, score) # _ \<Rightarrow>
          if score < orelse (ro_minSearchScore opts) 80 \<or> key = [] then rv_unresolve rv
          else (Answered (Some \<lparr>rs_mbid = mbid, rs_confidence = remote_confidence score, rs_source = source,
                                rs_matchedBy = Remote\<rparr>),
                rv\<lparr>rv_store := xo_record ops \<lparr>cr_entityType = e, cr_normalizedKey = key, cr_mbid = mbid,
                                cr_confidence = remote_confidence score, cr_source = source\<rparr> (rv_store rv),
                   rv_remote := Suc (rv_remote rv)\<rparr>))"

text \<open>What \<open>resolveArtist\<close> and \<open>resolveRecording\<close> share once the key and the search are known.\<close>

definition rv_resolve ::
  "'s crosswalk_ops \<Rightarrow> resolver_options \<Rightarrow> crosswalk_entity \<Rightarrow> utext \<Rightarrow> mb_answer option \<Rightarrow> utext \<Rightarrow> 's resolver
     \<Rightarrow> resolve_answer \<times> 's resolver" where
  "rv_resolve ops opts e key search source rv =
     (case rv_local ops opts e key rv of
        (Some found, rv1) \<Rightarrow> (Answered (Some found), rv1)
      | (None, rv1) \<Rightarrow>
          (case search of
             None \<Rightarrow> rv_unresolve rv1
           | Some Upstream_down \<Rightarrow> rv_unresolve rv1
           | Some Threw_other \<Rightarrow> (Rethrown, rv1)
           | Some (Hits hits) \<Rightarrow> rv_recordRemote ops opts e key hits source rv1))"

definition resolveArtist ::
  "unicode \<Rightarrow> 's crosswalk_ops \<Rightarrow> resolver_options \<Rightarrow> mb_search option \<Rightarrow> utext \<Rightarrow> 's resolver
     \<Rightarrow> resolve_answer \<times> 's resolver" where
  "resolveArtist u ops opts mb name =
     rv_resolve ops opts Artist (normalizeKey u name) (map_option (\<lambda>m. mb_searchArtist m name) mb)
       (lit ''musicbrainz:search:artist'')"

definition recordingKey :: "unicode \<Rightarrow> utext \<Rightarrow> utext \<Rightarrow> utext" where
  "recordingKey u artist title = trim u (normalizeKey u artist @ 32 # normalizeTitle u title)"

definition resolveRecording ::
  "unicode \<Rightarrow> 's crosswalk_ops \<Rightarrow> resolver_options \<Rightarrow> mb_search option \<Rightarrow> utext \<Rightarrow> utext \<Rightarrow> 's resolver
     \<Rightarrow> resolve_answer \<times> 's resolver" where
  "resolveRecording u ops opts mb artist title =
     rv_resolve ops opts Recording (recordingKey u artist title)
       (map_option (\<lambda>m. mb_searchRecording m artist title) mb) (lit ''musicbrainz:search:recording'')"

definition learn ::
  "unicode \<Rightarrow> 's crosswalk_ops \<Rightarrow> crosswalk_entity \<Rightarrow> utext \<Rightarrow> utext \<Rightarrow> utext \<Rightarrow> rat option \<Rightarrow> 's resolver \<Rightarrow> 's resolver" where
  "learn u ops e name mbid source confidence rv =
     (let key = (if e = Recording then normalizeTitle u name else normalizeKey u name)
      in if key = [] then rv
         else rv\<lparr>rv_store := xo_record ops \<lparr>cr_entityType = e, cr_normalizedKey = key, cr_mbid = mbid,
                   cr_confidence = orelse confidence (95/100), cr_source = source\<rparr> (rv_store rv)\<rparr>)"

subsection \<open>What the resolver relies on\<close>

text \<open>The row the store holds for a name is replaced only by a more confident one, and every
  lookup gives rows the store holds.\<close>

definition keeps_best :: "crosswalk_record \<Rightarrow> crosswalk_record option \<Rightarrow> crosswalk_record" where
  "keeps_best new old = (case old of
     None \<Rightarrow> new | Some r \<Rightarrow> if cr_confidence r < cr_confidence new then new else r)"

text \<open>At least as good a row: no less confident, and strictly more so when it names another id.\<close>

definition no_worse :: "crosswalk_record \<Rightarrow> crosswalk_record \<Rightarrow> bool" where
  "no_worse r r' \<longleftrightarrow> cr_confidence r \<le> cr_confidence r' \<and>
     (cr_mbid r' \<noteq> cr_mbid r \<longrightarrow> cr_confidence r < cr_confidence r')"

lemma no_worse_refl [simp]: "no_worse r r"
  by (simp add: no_worse_def)

lemma no_worse_trans: "no_worse a b \<Longrightarrow> no_worse b c \<Longrightarrow> no_worse a c"
  unfolding no_worse_def by (cases "cr_mbid b = cr_mbid a") auto

lemma keeps_best_no_worse: "no_worse r (keeps_best new (Some r))"
  by (simp add: keeps_best_def no_worse_def)

text \<open>The calls of a resolver.\<close>

datatype crosswalk_call = Resolve_artist "mb_search option" utext | Resolve_recording "mb_search option" utext utext
  | Learn_pair crosswalk_entity utext utext utext "rat option"

definition rv_call :: "unicode \<Rightarrow> 's crosswalk_ops \<Rightarrow> resolver_options \<Rightarrow> crosswalk_call \<Rightarrow> 's resolver \<Rightarrow> 's resolver" where
  "rv_call u ops opts call rv = (case call of
     Resolve_artist mb name \<Rightarrow> snd (resolveArtist u ops opts mb name rv)
   | Resolve_recording mb artist title \<Rightarrow> snd (resolveRecording u ops opts mb artist title rv)
   | Learn_pair e name mbid source conf \<Rightarrow> learn u ops e name mbid source conf rv)"

locale crosswalk_store =
  fixes ops :: "'s crosswalk_ops"
    and inv :: "'s \<Rightarrow> bool"
    and row :: "crosswalk_entity \<Rightarrow> utext \<Rightarrow> 's \<Rightarrow> crosswalk_record option"
  assumes exact_row: "xo_lookupExact ops e k s = map_option exact_hit (row e k s)"
    and fuzzy_row: "inv s \<Longrightarrow> xo_lookupFuzzy ops e k m s = Some h \<Longrightarrow>
      ch_matchedBy h = Fuzzy \<and> m \<le> ch_similarity h \<and>
      row e (cr_normalizedKey (ch_row h)) s = Some (ch_row h)"
    and record_row: "inv s \<Longrightarrow> row e k (xo_record ops r s) =
      (if is_row e k r then Some (keeps_best r (row e k s)) else row e k s)"
    and record_inv: "inv s \<Longrightarrow> inv (xo_record ops r s)"
begin

definition grows :: "'s \<Rightarrow> 's \<Rightarrow> bool" where
  "grows s s' \<longleftrightarrow> (\<forall>e k r. row e k s = Some r \<longrightarrow> (\<exists>r'. row e k s' = Some r' \<and> no_worse r r'))"

lemma grows_refl [simp]: "grows s s"
  by (auto simp: grows_def)

lemma grows_trans:
  assumes "grows a b" "grows b c" shows "grows a c"
  unfolding grows_def
proof (intro allI impI)
  fix e k r assume "row e k a = Some r"
  with assms(1) obtain q where "row e k b = Some q" "no_worse r q" unfolding grows_def by blast
  with assms(2) obtain p where "row e k c = Some p" "no_worse q p" unfolding grows_def by blast
  with \<open>no_worse r q\<close> no_worse_trans show "\<exists>r'. row e k c = Some r' \<and> no_worse r r'" by blast
qed

lemma grows_record: "inv s \<Longrightarrow> grows s (xo_record ops r s)"
  unfolding grows_def by (auto simp: record_row keeps_best_no_worse)

lemma local_store: "rv_store (snd (rv_local ops opts e k rv)) = rv_store rv"
  by (auto simp: rv_local_def split: option.splits)

text \<open>A resolution writes nothing or one row, under a name that is not empty.\<close>

definition one_write :: "'s \<Rightarrow> 's \<Rightarrow> bool" where
  "one_write s s' \<longleftrightarrow> s' = s \<or> (\<exists>r. cr_normalizedKey r \<noteq> [] \<and> s' = xo_record ops r s)"

lemma one_write_self [simp]: "one_write s s"
  by (simp add: one_write_def)

lemma one_write_record: "cr_normalizedKey r \<noteq> [] \<Longrightarrow> one_write s (xo_record ops r s)"
  by (auto simp: one_write_def)

lemma recordRemote_write:
  "one_write (rv_store rv) (rv_store (snd (rv_recordRemote ops opts e k hits source rv)))"
proof (cases hits)
  case (Cons h hs)
  let ?r = "\<lparr>cr_entityType = e, cr_normalizedKey = k, cr_mbid = fst h,
    cr_confidence = remote_confidence (snd h), cr_source = source\<rparr>"
  show ?thesis
    by (cases "snd h < orelse (ro_minSearchScore opts) 80 \<or> k = []")
      (auto simp: Cons one_write_def rv_recordRemote_def rv_unresolve_def case_prod_unfold intro!: exI [of _ ?r])
qed (simp add: one_write_def rv_recordRemote_def rv_unresolve_def)

lemma resolve_write: "one_write (rv_store rv) (rv_store (snd (rv_resolve ops opts e k search source rv)))"
proof (cases "rv_local ops opts e k rv")
  case (Pair found rv1)
  then have same: "rv_store rv1 = rv_store rv" using local_store [of opts e k rv] by simp
  show ?thesis
    using recordRemote_write [of rv1 opts e k _ source]
    by (auto simp: Pair same rv_resolve_def rv_unresolve_def one_write_def split: option.splits mb_answer.splits)
qed

lemma learn_write: "one_write (rv_store rv) (rv_store (learn u ops e name mbid source conf rv))"
  by (simp add: learn_def Let_def one_write_self one_write_record)

lemma write_ok: "one_write s s' \<Longrightarrow> inv s \<Longrightarrow> inv s' \<and> grows s s'"
  by (auto simp: one_write_def record_inv grows_record)

lemma write_no_empty:
  "one_write s s' \<Longrightarrow> inv s \<Longrightarrow> row e [] s = None \<Longrightarrow> row e [] s' = None"
  by (auto simp: one_write_def record_row is_row_def)

lemma call_write: "one_write (rv_store rv) (rv_store (rv_call u ops opts c rv))"
  by (cases c) (simp_all add: rv_call_def resolveArtist_def resolveRecording_def resolve_write learn_write)

lemma run_grows:
  "inv (rv_store rv) \<Longrightarrow>
     inv (rv_store (run_calls (rv_call u ops opts) rv cs)) \<and>
     grows (rv_store rv) (rv_store (run_calls (rv_call u ops opts) rv cs)) \<and>
     ((\<forall>e. row e [] (rv_store rv) = None) \<longrightarrow>
       (\<forall>e. row e [] (rv_store (run_calls (rv_call u ops opts) rv cs)) = None))"
proof (induction cs arbitrary: rv)
  case (Cons c cs)
  let ?rv = "rv_call u ops opts c rv"
  have w: "inv (rv_store ?rv)" "grows (rv_store rv) (rv_store ?rv)"
    using write_ok [OF call_write Cons.prems] by simp_all
  have e: "row e [] (rv_store rv) = None \<Longrightarrow> row e [] (rv_store ?rv) = None" for e
    using write_no_empty [OF call_write Cons.prems] .
  from Cons.IH [OF w(1)] w(2) e show ?case by (auto intro: grows_trans)
qed simp

text \<open>What a search brought is found by the next lookup of the same key, without a search.\<close>

lemma resolve_remote_then_exact:
  assumes "inv (rv_store rv)"
    and "rv_resolve ops opts e k search source rv = (Answered (Some res), rv')" and "rs_matchedBy res = Remote"
  shows "rv_resolve ops opts e k search' source' rv' =
    (Answered (Some (res\<lparr>rs_matchedBy := Exact\<rparr>)), rv'\<lparr>rv_exact := Suc (rv_exact rv')\<rparr>)"
proof -
  have "fst (rv_local ops opts e k rv) = None"
  proof (rule ccontr)
    assume "fst (rv_local ops opts e k rv) \<noteq> None"
    then obtain f where f: "fst (rv_local ops opts e k rv) = Some f" by blast
    then have "rs_matchedBy f \<noteq> Remote"
      using fuzzy_row [OF assms(1)]
      by (auto simp: rv_local_def toResolution_def exact_row exact_hit_def split: if_splits option.splits) 
    moreover have "res = f" using f assms(2) by (simp add: rv_resolve_def case_prod_unfold)
    ultimately show False using assms(3) by simp
  qed
  then have l: "rv_local ops opts e k rv = (None, rv)"
    by (auto simp: rv_local_def split: if_splits option.splits)
  then obtain mbid score hs where h: "search = Some (Hits ((mbid, score) # hs))"
    "\<not> score < orelse (ro_minSearchScore opts) 80" "k \<noteq> []"
    using assms(2)
    by (auto simp: rv_resolve_def rv_unresolve_def rv_recordRemote_def
        split: option.splits mb_answer.splits list.splits if_splits)
  have none: "row e k (rv_store rv) = None"
    using l h(3) by (auto simp: rv_local_def exact_row split: option.splits)
  from assms(2) l h show ?thesis
    by (auto simp: rv_resolve_def rv_recordRemote_def rv_local_def exact_row record_row [OF assms(1)]
        is_row_def none keeps_best_def toResolution_def exact_hit_def)
qed

end

subsection \<open>Both stores provide it\<close>

definition mc_ops :: "unicode \<Rightarrow> memory_crosswalk crosswalk_ops" where
  "mc_ops u = \<lparr>xo_lookupExact = mc_lookupExact, xo_lookupFuzzy = mc_lookupFuzzy u, xo_record = mc_record\<rparr>"

definition pc_ops :: "(utext \<Rightarrow> utext \<Rightarrow> rat) \<Rightarrow> rat \<Rightarrow> pg_crosswalk crosswalk_ops" where
  "pc_ops similarity threshold = \<lparr>xo_lookupExact = pc_lookupExact,
     xo_lookupFuzzy = pc_lookupFuzzy similarity threshold, xo_record = pc_record\<rparr>"

lemma cw_id_inject [simp]: "cw_id e k = cw_id e' k' \<longleftrightarrow> e = e' \<and> k = k'"
  by (cases e; cases e') (simp_all add: cw_id_def KEY_SEP_def)

lemma cw_id_prefix [simp]:
  "take (length (entity_name e) + 1) (cw_id e' k) = entity_name e @ [KEY_SEP] \<longleftrightarrow> e = e'"
  by (cases e; cases e'; cases k) (simp_all add: cw_id_def KEY_SEP_def)

definition mc_row :: "crosswalk_entity \<Rightarrow> utext \<Rightarrow> memory_crosswalk \<Rightarrow> crosswalk_record option" where
  "mc_row e k s = map_of s (cw_id e k)"

definition mc_inv :: "memory_crosswalk \<Rightarrow> bool" where
  "mc_inv s \<longleftrightarrow> distinct (map fst s) \<and> (\<forall>p \<in> set s. fst p = cw_id (cr_entityType (snd p)) (cr_normalizedKey (snd p)))"

lemma mc_owned: "mc_inv s \<Longrightarrow> r \<in> set (cw_owned e s) \<Longrightarrow> mc_row e (cr_normalizedKey r) s = Some r"
  by (force simp: mc_inv_def cw_owned_def mc_row_def simp flip: One_nat_def intro!: map_of_is_SomeI)

lemma mc_fuzzy_found:
  "foldl (\<lambda>best row. let similarity = f row in if similarity < m then best
       else case best of None \<Rightarrow> Some (fuzzy_hit similarity row)
            | Some h \<Rightarrow> if ch_similarity h < similarity then Some (fuzzy_hit similarity row) else best) None rows = Some h
   \<Longrightarrow> \<exists>r \<in> set rows. h = fuzzy_hit (f r) r \<and> m \<le> f r"
proof (induction rows arbitrary: h rule: rev_induct)
  case (snoc r rows)
  then show ?case
    by (auto simp: Let_def not_less split: if_splits option.splits)
qed simp

lemma mc_record_keys: "mc_inv s \<Longrightarrow> mc_inv (mc_record r s)"
proof (cases "map_of s (cw_id (cr_entityType r) (cr_normalizedKey r))")
  case None
  assume inv: "mc_inv s"
  have "mc_record r s = s @ [(cw_id (cr_entityType r) (cr_normalizedKey r), r)]"
    by (simp add: mc_record_def None)
  moreover have "cw_id (cr_entityType r) (cr_normalizedKey r) \<notin> fst ` set s"
    using None by (simp add: map_of_eq_None_iff)
  ultimately show ?thesis using inv by (auto simp: mc_inv_def)
next
  case (Some old)
  assume inv: "mc_inv s"
  let ?k = "cw_id (cr_entityType r) (cr_normalizedKey r)"
  have "set (AList.update k r s) \<subseteq> insert (k, r) (set s)" for k
    by (induction s) auto
  then have "\<forall>p \<in> set (AList.update ?k r s). fst p = cw_id (cr_entityType (snd p)) (cr_normalizedKey (snd p))"
    using inv unfolding mc_inv_def by fastforce
  with inv Some show ?thesis
    by (auto simp: mc_inv_def mc_record_def Let_def distinct_update)
qed

interpretation memory_walk: crosswalk_store "mc_ops u" mc_inv mc_row
proof
  fix s e m k and h :: crosswalk_hit
  assume inv: "mc_inv s" and h: "xo_lookupFuzzy (mc_ops u) e k m s = Some h"
  from mc_fuzzy_found [OF h [unfolded mc_ops_def, simplified, unfolded mc_lookupFuzzy_def]]
  obtain r where "r \<in> set (cw_owned e s)" "h = fuzzy_hit (trigramSimilarity u k (cr_normalizedKey r)) r"
    "m \<le> trigramSimilarity u k (cr_normalizedKey r)" by blast
  with mc_owned [OF inv] show "ch_matchedBy h = Fuzzy \<and> m \<le> ch_similarity h \<and>
      mc_row e (cr_normalizedKey (ch_row h)) s = Some (ch_row h)"
    by (simp add: fuzzy_hit_def)
next
  show "xo_lookupExact (mc_ops u) e k s = map_option exact_hit (mc_row e k s)" for e k s
    by (simp add: mc_ops_def mc_lookupExact_def mc_row_def)
next
  show "mc_row e k (xo_record (mc_ops u) r s) = (if is_row e k r then Some (keeps_best r (mc_row e k s)) else mc_row e k s)"
    if "mc_inv s" for s e k r
    by (cases "map_of s (cw_id (cr_entityType r) (cr_normalizedKey r))")
      (auto simp: mc_ops_def mc_row_def mc_record_def is_row_def keeps_best_def map_add_def AList.update_conv'
        split: option.splits)
next
  show "mc_inv (xo_record (mc_ops u) r s)" if "mc_inv s" for s r
    using mc_record_keys [OF that] by (simp add: mc_ops_def)
qed

definition pc_row :: "crosswalk_entity \<Rightarrow> utext \<Rightarrow> pg_crosswalk \<Rightarrow> crosswalk_record option" where
  "pc_row e k s = List.find (is_row e k) s"

text \<open>The unique index.\<close>

definition pc_inv :: "pg_crosswalk \<Rightarrow> bool" where
  "pc_inv s \<longleftrightarrow> distinct (map (\<lambda>r. (cr_entityType r, cr_normalizedKey r)) s)"

lemma pc_row_iff: "pc_inv s \<Longrightarrow> pc_row e k s = Some r \<longleftrightarrow> r \<in> set s \<and> is_row e k r"
  by (induction s) (auto simp: pc_inv_def pc_row_def is_row_def)

lemma pc_row_None: "pc_row e k s = None \<longleftrightarrow> \<not> list_ex (is_row e k) s"
  by (induction s) (auto simp: pc_row_def)

text \<open>The update of the upsert changes no key.\<close>

definition upsert :: "crosswalk_record \<Rightarrow> crosswalk_record \<Rightarrow> crosswalk_record" where
  "upsert entry r = (if is_row (cr_entityType entry) (cr_normalizedKey entry) r
     \<and> cr_confidence r < cr_confidence entry then entry else r)"

lemma upsert_key [simp]:
  "cr_entityType (upsert entry r) = cr_entityType r" "cr_normalizedKey (upsert entry r) = cr_normalizedKey r"
  by (simp_all add: upsert_def is_row_def)

lemma pc_record_alt:
  "pc_record r s = (if pc_row (cr_entityType r) (cr_normalizedKey r) s = None then s @ [r] else map (upsert r) s)"
  by (simp add: pc_record_def pc_row_None upsert_def [abs_def])

lemma find_map: "(\<And>x. P (f x) = P x) \<Longrightarrow> List.find P (map f xs) = map_option f (List.find P xs)"
  by (induction xs) auto

lemma find_append: "List.find P (xs @ ys) = (case List.find P xs of None \<Rightarrow> List.find P ys | Some x \<Rightarrow> Some x)"
  by (induction xs) auto

lemma pc_record_row:
  "pc_row e k (pc_record r s) = (if is_row e k r then Some (keeps_best r (pc_row e k s)) else pc_row e k s)"
proof (cases "pc_row (cr_entityType r) (cr_normalizedKey r) s")
  case None
  then show ?thesis
    by (auto simp: pc_record_alt pc_row_def find_append keeps_best_def is_row_def split: option.splits)
next
  case (Some old)
  have f: "pc_row e k (map (upsert r) s) = map_option (upsert r) (pc_row e k s)"
    unfolding pc_row_def by (rule find_map) (simp add: is_row_def)
  have own: "pc_row e k s = Some q \<Longrightarrow> is_row e k q" for q
    by (auto simp: pc_row_def find_Some_iff)
  show ?thesis
    using Some own by (cases "pc_row e k s") (auto simp: pc_record_alt f keeps_best_def upsert_def is_row_def)
qed

lemma pc_record_keys: "pc_inv s \<Longrightarrow> pc_inv (pc_record r s)"
proof (cases "pc_row (cr_entityType r) (cr_normalizedKey r) s")
  case None
  moreover assume "pc_inv s"
  ultimately show ?thesis
    by (auto simp: pc_record_alt pc_inv_def pc_row_None list_ex_iff is_row_def)
next
  case (Some old)
  moreover assume "pc_inv s"
  ultimately show ?thesis by (simp add: pc_record_alt pc_inv_def comp_def)
qed

interpretation pg_walk: crosswalk_store "pc_ops similarity threshold" pc_inv pc_row
proof
  fix s e m k and h :: crosswalk_hit
  assume inv: "pc_inv s" and h: "xo_lookupFuzzy (pc_ops similarity threshold) e k m s = Some h"
  then have "h \<in> set (pc_ranked similarity threshold e k m s)"
    by (auto simp: pc_ops_def pc_lookupFuzzy_def split: list.splits)
  then show "ch_matchedBy h = Fuzzy \<and> m \<le> ch_similarity h \<and>
      pc_row e (cr_normalizedKey (ch_row h)) s = Some (ch_row h)"
    using inv by (auto simp: pc_ranked_def fuzzy_hit_def pc_row_iff is_row_def)
next
  show "xo_lookupExact (pc_ops similarity threshold) e k s = map_option exact_hit (pc_row e k s)" for e k s
    by (simp add: pc_ops_def pc_lookupExact_def pc_row_def)
qed (simp_all add: pc_ops_def pc_record_row pc_record_keys)

subsection \<open>Properties\<close>

text \<open>Claim C9. The crosswalk never gets worse: whatever is resolved or learned afterwards, and whatever
  MusicBrainz answers, a name that has a row keeps one, no less confident, and one that names
  another id is strictly more confident. No row is ever written under the empty name, on which
  all names that normalise away would collide.\<close>

theorem crosswalk_never_degrades:
  assumes "pc_inv (rv_store rv)" and "pc_row e k (rv_store rv) = Some r" and "\<forall>e. pc_row e [] (rv_store rv) = None"
  shows "(\<exists>r'. pc_row e k (rv_store (run_calls (rv_call u (pc_ops similarity threshold) opts) rv cs)) = Some r' \<and>
            no_worse r r') \<and>
    (\<forall>e. pc_row e [] (rv_store (run_calls (rv_call u (pc_ops similarity threshold) opts) rv cs)) = None)"
  using pg_walk.run_grows [OF assms(1)] assms(2,3) unfolding pg_walk.grows_def by blast

definition demo_row :: crosswalk_record where
  "demo_row = \<lparr>cr_entityType = Artist, cr_normalizedKey = lit ''aphex twin'', cr_mbid = lit ''m1'',
     cr_confidence = 7/10, cr_source = lit ''seed''\<rparr>"

lemma crosswalk_never_degrades_witness:
  "\<exists>r'. pc_row Artist (lit ''aphex twin'') (rv_store (run_calls (rv_call latin (pc_ops (\<lambda>_ _. 0) (3/10))
       \<lparr>ro_fuzzyThreshold = None, ro_minSearchScore = None\<rparr>) (rv_new [demo_row])
       [Learn_pair Artist (lit ''Aphex Twin'') (lit ''m2'') (lit ''guess'') (Some (1/2))])) = Some r' \<and> no_worse demo_row r'"
  by (rule conjunct1 [OF crosswalk_never_degrades])
    (simp_all add: rv_new_def demo_row_def pc_inv_def pc_row_def is_row_def)

text \<open>A resolution sticks: once a search has resolved a name, every spelling with the same key is
  resolved by the exact lookup to the same id with the same confidence, and MusicBrainz is not
  asked (the answer does not depend on it).\<close>

theorem resolution_sticks:
  assumes "pc_inv (rv_store rv)"
    and "resolveArtist u (pc_ops similarity threshold) opts mb name rv = (Answered (Some res), rv')"
    and "rs_matchedBy res = Remote" and "normalizeKey u name' = normalizeKey u name"
  shows "resolveArtist u (pc_ops similarity threshold) opts mb' name' rv' =
    (Answered (Some (res\<lparr>rs_matchedBy := Exact\<rparr>)), rv'\<lparr>rv_exact := Suc (rv_exact rv')\<rparr>)"
  using pg_walk.resolve_remote_then_exact [OF assms(1) assms(2) [unfolded resolveArtist_def] assms(3)]
  by (simp add: resolveArtist_def assms(4))

lemma abba_keys:
  "normalizeKey latin (lit ''ABBA'') = lit ''abba''" "normalizeKey latin (lit ''Abba!'') = lit ''abba''"
  by (simp_all add: normalizeKey_def latin_def trim_def stripDiacritics_def conjunctions_def
      CONJUNCTIONS_def is_word_char_def LATIN_DECOMPOSITION_def)

lemma resolution_sticks_witness:
  "fst (resolveArtist latin (pc_ops (\<lambda>_ _. 0) (3/10)) \<lparr>ro_fuzzyThreshold = None, ro_minSearchScore = None\<rparr> None
     (lit ''Abba!'')
     (snd (resolveArtist latin (pc_ops (\<lambda>_ _. 0) (3/10)) \<lparr>ro_fuzzyThreshold = None, ro_minSearchScore = None\<rparr>
       (Some \<lparr>mb_searchArtist = (\<lambda>_. Hits [(lit ''m1'', 100)]), mb_searchRecording = (\<lambda>_ _. Hits [])\<rparr>)
       (lit ''ABBA'') (rv_new [])))) =
   Answered (Some \<lparr>rs_mbid = lit ''m1'', rs_confidence = 95/100, rs_source = lit ''musicbrainz:search:artist'',
     rs_matchedBy = Exact\<rparr>)"
proof -
  let ?ops = "pc_ops (\<lambda>_ _. 0) (3/10)" and ?opts = "\<lparr>ro_fuzzyThreshold = None, ro_minSearchScore = None\<rparr>"
  let ?mb = "Some \<lparr>mb_searchArtist = (\<lambda>_. Hits [(lit ''m1'', 100)]), mb_searchRecording = (\<lambda>_ _. Hits [])\<rparr>"
  let ?res = "\<lparr>rs_mbid = lit ''m1'', rs_confidence = 95/100, rs_source = lit ''musicbrainz:search:artist'',
     rs_matchedBy = Remote\<rparr>"
  obtain rv' where r: "resolveArtist latin ?ops ?opts ?mb (lit ''ABBA'') (rv_new []) = (Answered (Some ?res), rv')"
    by (simp add: resolveArtist_def rv_resolve_def rv_local_def abba_keys [simplified] pc_ops_def pc_lookupExact_def
        pc_lookupFuzzy_def pc_ranked_def rv_new_def rv_recordRemote_def remote_confidence_def)
  have "fst (resolveArtist latin ?ops ?opts None (lit ''Abba!'') rv') = Answered (Some (?res\<lparr>rs_matchedBy := Exact\<rparr>))"
    by (subst resolution_sticks [OF _ r]) (simp_all add: rv_new_def pc_inv_def abba_keys [simplified])
  with r show ?thesis by simp
qed

text \<open>Every lookup that returns is counted once, one that rejects is not counted at all, and only
  hits of MusicBrainz are ever written: without an answer, or when MusicBrainz is down, the
  store is as before.\<close>

theorem resolve_accounts:
  "rv_total (snd (rv_resolve ops opts e k search source rv)) =
     rv_total rv + (if fst (rv_resolve ops opts e k search source rv) = Rethrown then 0 else 1) \<and>
   (search \<in> {None, Some Upstream_down, Some Threw_other} \<longrightarrow>
     rv_store (snd (rv_resolve ops opts e k search source rv)) = rv_store rv)"
  by (auto simp: rv_resolve_def rv_local_def rv_unresolve_def rv_recordRemote_def rv_total_def
      split: option.splits mb_answer.splits list.splits if_splits prod.splits)

lemma resolve_accounts_witness:
  "rv_store (snd (rv_resolve (pc_ops (\<lambda>_ _. 0) (3/10)) \<lparr>ro_fuzzyThreshold = None, ro_minSearchScore = None\<rparr> Artist
     (lit ''abba'') (Some Upstream_down) [] (rv_new []))) = []"
  using conjunct2 [OF resolve_accounts [of "pc_ops (\<lambda>_ _. 0) (3/10)"
     "\<lparr>ro_fuzzyThreshold = None, ro_minSearchScore = None\<rparr>" Artist "lit ''abba''" "Some Upstream_down" "[]" "rv_new []"]]
  by (simp add: rv_new_def)

text \<open>The key of a recording joins its halves with a space, which both halves may contain. So two
  different recordings, which the discovery identity tells apart, share one row, and the id
  found for the first is given for the second.\<close>

theorem recording_keys_collide:
  "recordingKey latin (lit ''a b'') (lit ''c'') = recordingKey latin (lit ''a'') (lit ''b c'') \<and>
   trackIdentity latin (lit ''a b'') (lit ''c'') \<noteq> trackIdentity latin (lit ''a'') (lit ''b c'')"
proof -
  have k: "normalizeKey latin (lit ''a b'') = lit ''a b''" "normalizeKey latin (lit ''a'') = lit ''a''"
    "normalizeKey latin (lit ''c'') = lit ''c''" "normalizeKey latin (lit ''b c'') = lit ''b c''"
    by (simp_all add: normalizeKey_def latin_def trim_def stripDiacritics_def conjunctions_def
        CONJUNCTIONS_def is_word_char_def LATIN_DECOMPOSITION_def)
  have "without_noise latin (lit ''c'') = lit ''c''" "without_noise latin (lit ''b c'') = lit ''b c''"
    by (simp_all add: without_noise_def latin_def is_opener_def)
  with k show ?thesis
    by (simp add: recordingKey_def normalizeTitle_def trackIdentity_def KEY_SEP_def)
qed

end
