(* ===== verification/Directory_Reaper.thy ===== *)
theory Directory_Reaper
  imports Pg_Locks Workos_Client
begin

text \<open>
  The sweep of unverified identities: \<^verbatim>\<open>apps/bff/src/services/directory-reaper.ts\<close>. What is
  outside answers from a state of its own, so the directory may change between two calls: a
  call to the identity provider, the look-up of a local row (\<open>None\<close>: it throws), and the
  reading of a date, which may not be one. The log records what the sweep does, in order.
\<close>

subsection \<open>Eligibility\<close>

datatype reap_reason = Verified | Recent | Unknown | Eligible

definition reap_verdict :: "(string \<Rightarrow> time option) \<Rightarrow> workos_user \<Rightarrow> time \<Rightarrow> reap_reason" where
  "reap_verdict parseDate user cutoff =
     (if wu_emailVerified user \<noteq> Some False
      then if wu_emailVerified user = Some True then Verified else Unknown
      else case wu_createdAt user of
        None \<Rightarrow> Unknown
      | Some text \<Rightarrow>
          (case parseDate text of
             None \<Rightarrow> Unknown
           | Some createdAt \<Rightarrow> if cutoff \<le> createdAt then Recent else Eligible))"

subsection \<open>The sweep\<close>

record reaper_options =
  ro_reapAfterSeconds :: int
  ro_pageSize :: nat
  ro_maxDeletionsPerRun :: nat
  ro_maxPagesPerRun :: nat

record reap_outcome =
  rp_ran :: bool
  rp_examined :: nat
  rp_deleted :: nat
  rp_capped :: nat
  rp_failed :: nat
  rp_skippedUnknown :: nat

definition reap_empty :: reap_outcome where
  "reap_empty = \<lparr>rp_ran = False, rp_examined = 0, rp_deleted = 0, rp_capped = 0, rp_failed = 0, rp_skippedUnknown = 0\<rparr>"

record 'e reap_env =
  re_fetch :: "http_call \<Rightarrow> 'e \<Rightarrow> (int \<times> string) option \<times> 'e"
  re_local :: "string \<Rightarrow> 'e \<Rightarrow> bool option \<times> 'e"
  re_parseDate :: "string \<Rightarrow> time option"

datatype reap_act =
    Listed "workos_user list"
  | Looked_up string bool
  | Delete_call string bool
  | Audited string bool

record 'e reap_state =
  rs_env :: 'e
  rs_out :: reap_outcome
  rs_log :: "reap_act list"

definition delete_call :: "workos_client \<Rightarrow> string \<Rightarrow> http_call" where
  "delete_call wo i = wo_call wo (user_path i) ''DELETE'' True None"

text \<open>One identity of a page. The error is the one of a query that failed.\<close>

definition reap_user ::
  "'e reap_env \<Rightarrow> workos_client \<Rightarrow> reaper_options \<Rightarrow> time \<Rightarrow> workos_user \<Rightarrow> 'e reap_state \<Rightarrow> api_error option \<times> 'e reap_state" where
  "reap_user env wo opts cutoff user st =
     (let out = (rs_out st)\<lparr>rp_examined := Suc (rp_examined (rs_out st))\<rparr>;
          verdict = reap_verdict (re_parseDate env) user cutoff;
          out = (if verdict = Unknown then out\<lparr>rp_skippedUnknown := Suc (rp_skippedUnknown out)\<rparr> else out)
      in if verdict \<noteq> Eligible then (None, st\<lparr>rs_out := out\<rparr>)
      else case re_local env (wu_id user) (rs_env st) of
          (None, e) \<Rightarrow> (Some (upstreamUnavailable ''database''), st\<lparr>rs_env := e, rs_out := out\<rparr>)
        | (Some present, e) \<Rightarrow>
            let st = st\<lparr>rs_env := e, rs_out := out, rs_log := rs_log st @ [Looked_up (wu_id user) present]\<rparr>
            in if present then (None, st)
            else if ro_maxDeletionsPerRun opts \<le> rp_deleted out
            then (None, st\<lparr>rs_out := out\<lparr>rp_capped := Suc (rp_capped out)\<rparr>\<rparr>)
            else case re_fetch env (delete_call wo (wu_id user)) e of (reply, e') \<Rightarrow>
              let removed = (deleteUser wo (\<lambda>_. reply) (wu_id user) = Inr True)
              in (None, st\<lparr>rs_env := e',
                   rs_out := (if removed then out\<lparr>rp_deleted := Suc (rp_deleted out)\<rparr>
                              else out\<lparr>rp_failed := Suc (rp_failed out)\<rparr>),
                   rs_log := rs_log st @ [Delete_call (wu_id user) removed, Audited (wu_id user) removed]\<rparr>))"

fun reap_users ::
  "'e reap_env \<Rightarrow> workos_client \<Rightarrow> reaper_options \<Rightarrow> time \<Rightarrow> workos_user list \<Rightarrow> 'e reap_state \<Rightarrow> api_error option \<times> 'e reap_state" where
  "reap_users env wo opts cutoff [] st = (None, st)"
| "reap_users env wo opts cutoff (u # us) st =
     (case reap_user env wo opts cutoff u st of
        (Some err, st') \<Rightarrow> (Some err, st')
      | (None, st') \<Rightarrow> reap_users env wo opts cutoff us st')"

text \<open>The pages, with the number of pages that are left.\<close>

fun reap_pages ::
  "'e reap_env \<Rightarrow> workos_client \<Rightarrow> reaper_options \<Rightarrow> time \<Rightarrow> nat \<Rightarrow> string option \<Rightarrow> 'e reap_state \<Rightarrow> api_error option \<times> 'e reap_state" where
  "reap_pages env wo opts cutoff 0 after st = (None, st)"
| "reap_pages env wo opts cutoff (Suc n) after st =
     (case re_fetch env (list_call wo (ro_pageSize opts) after) (rs_env st) of (reply, e) \<Rightarrow>
        (case listUsers wo (\<lambda>_. reply) (ro_pageSize opts) after of
           Inl err \<Rightarrow> (Some err, st\<lparr>rs_env := e\<rparr>)
         | Inr page \<Rightarrow>
             (case reap_users env wo opts cutoff (up_users page)
                     (st\<lparr>rs_env := e, rs_log := rs_log st @ [Listed (up_users page)]\<rparr>) of
                (Some err, st') \<Rightarrow> (Some err, st')
              | (None, st') \<Rightarrow>
                  (case up_after page of
                     None \<Rightarrow> (None, st')
                   | Some a \<Rightarrow> reap_pages env wo opts cutoff n (Some a) st'))))"

definition reap_start :: "'e \<Rightarrow> 'e reap_state" where
  "reap_start e = \<lparr>rs_env = e, rs_out = reap_empty\<lparr>rp_ran := True\<rparr>, rs_log = []\<rparr>"

definition reap_sweep :: "'e reap_env \<Rightarrow> workos_client \<Rightarrow> reaper_options \<Rightarrow> time \<Rightarrow> 'e \<Rightarrow> api_error option \<times> 'e reap_state" where
  "reap_sweep env wo opts now e =
     reap_pages env wo opts (now - ro_reapAfterSeconds opts * 1000) (ro_maxPagesPerRun opts) None (reap_start e)"

definition REAP_LOCK_KEY :: string where
  "REAP_LOCK_KEY = ''directory:unverified-sweep''"

definition reap_run ::
  "(string \<Rightarrow> int) \<Rightarrow> nat \<Rightarrow> 'e reap_env \<Rightarrow> workos_client \<Rightarrow> reaper_options \<Rightarrow> time \<Rightarrow> lock_table \<Rightarrow> 'e \<Rightarrow>
     (api_error + reap_outcome) \<times> reap_act list \<times> lock_table" where
  "reap_run hashtext session env wo opts now locks e =
     (case tryAdvisoryLock hashtext session (ln_directoryReap LOCK_NAMESPACE) REAP_LOCK_KEY locks of
        (False, locks') \<Rightarrow> (Inr reap_empty, [], locks')
      | (True, locks') \<Rightarrow>
          (case reap_sweep env wo opts now e of (err, st) \<Rightarrow>
             ((case err of None \<Rightarrow> Inr (rs_out st) | Some x \<Rightarrow> Inl x), rs_log st,
              advisoryUnlock hashtext session (ln_directoryReap LOCK_NAMESPACE) REAP_LOCK_KEY locks')))"

subsection \<open>What the log shows\<close>

text \<open>A record nobody consented to: the provider says that the address is not verified, and the
  creation date can be read and lies before the cutoff.\<close>

definition unconsented :: "(string \<Rightarrow> time option) \<Rightarrow> time \<Rightarrow> workos_user \<Rightarrow> bool" where
  "unconsented parseDate cutoff u \<longleftrightarrow> wu_emailVerified u = Some False \<and>
     (\<exists>text t. wu_createdAt u = Some text \<and> parseDate text = Some t \<and> t < cutoff)"

lemma verdict_Eligible: "reap_verdict parseDate u cutoff = Eligible \<longleftrightarrow> unconsented parseDate cutoff u"
  by (auto simp: reap_verdict_def unconsented_def split: option.splits if_splits)

text \<open>Every deletion comes right after a look-up that found no local row, for an identity that a
  page listed as unconsented.\<close>

definition justified :: "(string \<Rightarrow> time option) \<Rightarrow> time \<Rightarrow> reap_act list \<Rightarrow> bool" where
  "justified parseDate cutoff acts \<longleftrightarrow> (\<forall>before i b after. acts = before @ Delete_call i b # after \<longrightarrow>
     (\<exists>earlier. before = earlier @ [Looked_up i False]) \<and>
     (\<exists>us u. Listed us \<in> set before \<and> u \<in> set us \<and> wu_id u = i \<and> unconsented parseDate cutoff u))"

lemma justified_Nil [simp]: "justified p c []"
  by (simp add: justified_def)

lemma justified_act: "justified p c acts \<Longrightarrow> \<forall>i b. a \<noteq> Delete_call i b \<Longrightarrow> justified p c (acts @ [a])"
  unfolding justified_def
proof (intro allI impI)
  fix before i b after
  assume j: "\<forall>before i b after. acts = before @ Delete_call i b # after \<longrightarrow>
     (\<exists>earlier. before = earlier @ [Looked_up i False]) \<and>
     (\<exists>us u. Listed us \<in> set before \<and> u \<in> set us \<and> wu_id u = i \<and> unconsented p c u)"
    and a: "\<forall>i b. a \<noteq> Delete_call i b" and e: "acts @ [a] = before @ Delete_call i b # after"
  from a e obtain after' where "acts = before @ Delete_call i b # after'"
    by (cases after rule: rev_cases) auto
  with j show "(\<exists>earlier. before = earlier @ [Looked_up i False]) \<and>
     (\<exists>us u. Listed us \<in> set before \<and> u \<in> set us \<and> wu_id u = i \<and> unconsented p c u)" by blast
qed

lemma justified_delete:
  assumes "justified p c (acts @ [Looked_up i False])"
    and "Listed us \<in> set acts" "u \<in> set us" "wu_id u = i" "unconsented p c u"
  shows "justified p c (acts @ [Looked_up i False, Delete_call i b])"
  unfolding justified_def
proof (intro allI impI)
  fix before j d after
  assume e: "acts @ [Looked_up i False, Delete_call i b] = before @ Delete_call j d # after"
  show "(\<exists>earlier. before = earlier @ [Looked_up j False]) \<and>
     (\<exists>us u. Listed us \<in> set before \<and> u \<in> set us \<and> wu_id u = j \<and> unconsented p c u)"
  proof (cases after rule: rev_cases)
    case Nil
    then have "before = acts @ [Looked_up i False]" "j = i" using e by (auto simp: append_eq_append_conv2 Cons_eq_append_conv)
    with assms(2-5) show ?thesis by auto
  next
    case (snoc after' a)
    then have "acts @ [Looked_up i False] = before @ Delete_call j d # after'" using e by simp
    with assms(1) show ?thesis by (auto simp: justified_def)
  qed
qed

subsection \<open>The tally\<close>

fun listed :: "reap_act list \<Rightarrow> workos_user list" where
  "listed [] = []"
| "listed (Listed us # acts) = us @ listed acts"
| "listed (_ # acts) = listed acts"

lemma listed_append [simp]: "listed (xs @ ys) = listed xs @ listed ys"
  by (induction xs rule: listed.induct) simp_all

definition acts_of :: "(reap_act \<Rightarrow> bool) \<Rightarrow> reap_act list \<Rightarrow> nat" where
  "acts_of P acts = length (filter P acts)"

definition is_deletion :: "bool \<Rightarrow> reap_act \<Rightarrow> bool" where
  "is_deletion b a = (case a of Delete_call _ b' \<Rightarrow> b' = b | _ \<Rightarrow> False)"

definition is_unknown_locally :: "reap_act \<Rightarrow> bool" where
  "is_unknown_locally a = (case a of Looked_up _ present \<Rightarrow> \<not> present | _ \<Rightarrow> False)"

lemma acts_of_simps [simp]: "acts_of P [] = 0" "acts_of P (xs @ ys) = acts_of P xs + acts_of P ys"
    "acts_of P (a # xs) = (if P a then 1 else 0) + acts_of P xs"
  by (simp_all add: acts_of_def)

lemma act_simps [simp]:
  "\<not> is_deletion b (Listed us)" "\<not> is_deletion b (Looked_up i p)" "is_deletion b (Delete_call i r) \<longleftrightarrow> r = b"
  "\<not> is_deletion b (Audited i r)" "\<not> is_unknown_locally (Listed us)" "is_unknown_locally (Looked_up i p) \<longleftrightarrow> \<not> p"
  "\<not> is_unknown_locally (Delete_call i r)" "\<not> is_unknown_locally (Audited i r)"
  by (simp_all add: is_deletion_def is_unknown_locally_def)

text \<open>What holds after every step, and what holds when the identities \<open>done\<close> are dealt with.\<close>

definition reap_safe :: "(string \<Rightarrow> time option) \<Rightarrow> time \<Rightarrow> reaper_options \<Rightarrow> 'e reap_state \<Rightarrow> bool" where
  "reap_safe parseDate cutoff opts st \<longleftrightarrow> justified parseDate cutoff (rs_log st) \<and>
     rp_deleted (rs_out st) = acts_of (is_deletion True) (rs_log st) \<and>
     rp_failed (rs_out st) = acts_of (is_deletion False) (rs_log st) \<and>
     rp_deleted (rs_out st) \<le> ro_maxDeletionsPerRun opts \<and> rp_ran (rs_out st)"

definition reap_tally :: "(string \<Rightarrow> time option) \<Rightarrow> time \<Rightarrow> workos_user list \<Rightarrow> 'e reap_state \<Rightarrow> bool" where
  "reap_tally parseDate cutoff dealt st \<longleftrightarrow>
     rp_examined (rs_out st) = length dealt \<and>
     rp_skippedUnknown (rs_out st) = length (filter (\<lambda>u. reap_verdict parseDate u cutoff = Unknown) dealt) \<and>
     acts_of is_unknown_locally (rs_log st) = rp_deleted (rs_out st) + rp_failed (rs_out st) + rp_capped (rs_out st)"

lemma reap_user_keeps:
  assumes safe: "reap_safe (re_parseDate env) cutoff opts st" and tally: "reap_tally (re_parseDate env) cutoff dealt st"
    and u: "Listed us \<in> set (rs_log st)" "u \<in> set us"
    and run: "reap_user env wo opts cutoff u st = (err, st')"
  shows "reap_safe (re_parseDate env) cutoff opts st'" and "err = None \<Longrightarrow> reap_tally (re_parseDate env) cutoff (dealt @ [u]) st'"
    and "listed (rs_log st') = listed (rs_log st)" and "set (rs_log st) \<subseteq> set (rs_log st')"
proof -
  have "reap_safe (re_parseDate env) cutoff opts st' \<and> (err = None \<longrightarrow> reap_tally (re_parseDate env) cutoff (dealt @ [u]) st') \<and>
      listed (rs_log st') = listed (rs_log st) \<and> set (rs_log st) \<subseteq> set (rs_log st')"
  proof (cases "reap_verdict (re_parseDate env) u cutoff = Eligible")
    case False
    with run safe tally show ?thesis by (auto simp: reap_user_def Let_def reap_safe_def reap_tally_def split: if_splits)
  next
    case elig: True
    then have un: "unconsented (re_parseDate env) cutoff u" by (simp add: verdict_Eligible)
    obtain found e where local: "re_local env (wu_id u) (rs_env st) = (found, e)" by (cases "re_local env (wu_id u) (rs_env st)")
    have looked: "justified (re_parseDate env) cutoff (rs_log st @ [Looked_up (wu_id u) b])" for b
      using safe by (intro justified_act) (simp_all add: reap_safe_def)
    show ?thesis
    proof (cases found)
      case None
      with run safe elig local show ?thesis by (auto simp: reap_user_def Let_def reap_safe_def)
    next
      case (Some present)
      show ?thesis
      proof (cases "present \<or> ro_maxDeletionsPerRun opts \<le> rp_deleted (rs_out st)")
        case True
        with run safe tally elig local Some looked show ?thesis
          by (auto simp: reap_user_def Let_def reap_safe_def reap_tally_def split: if_splits)
      next
        case go: False
        obtain reply e' where fetch: "re_fetch env (delete_call wo (wu_id u)) e = (reply, e')"
          by (cases "re_fetch env (delete_call wo (wu_id u)) e")
        have "justified (re_parseDate env) cutoff ((rs_log st @ [Looked_up (wu_id u) False, Delete_call (wu_id u) b]) @ [Audited (wu_id u) b])" for b
          by (rule justified_act [OF justified_delete [OF looked u refl un]]) simp
        then have "justified (re_parseDate env) cutoff (rs_log st @ [Looked_up (wu_id u) False, Delete_call (wu_id u) b, Audited (wu_id u) b])" for b
          by simp
        with run safe tally elig local Some go fetch show ?thesis
          by (auto simp: reap_user_def Let_def reap_safe_def reap_tally_def split: if_splits)
      qed
    qed
  qed
  then show "reap_safe (re_parseDate env) cutoff opts st'" and "err = None \<Longrightarrow> reap_tally (re_parseDate env) cutoff (dealt @ [u]) st'"
    and "listed (rs_log st') = listed (rs_log st)" and "set (rs_log st) \<subseteq> set (rs_log st')" by blast+
qed

lemma reap_users_keep:
  "reap_safe (re_parseDate env) cutoff opts st \<Longrightarrow> reap_tally (re_parseDate env) cutoff dealt st \<Longrightarrow>
   Listed page \<in> set (rs_log st) \<Longrightarrow> set us \<subseteq> set page \<Longrightarrow> reap_users env wo opts cutoff us st = (err, st') \<Longrightarrow>
     reap_safe (re_parseDate env) cutoff opts st' \<and> listed (rs_log st') = listed (rs_log st) \<and>
     (err = None \<longrightarrow> reap_tally (re_parseDate env) cutoff (dealt @ us) st')"
proof (induction us arbitrary: st dealt)
  case (Cons u us)
  obtain e1 st1 where one: "reap_user env wo opts cutoff u st = (e1, st1)" by (cases "reap_user env wo opts cutoff u st")
  note k = reap_user_keeps [OF Cons.prems(1,2,3) _ one]
  show ?case
  proof (cases e1)
    case None
    with Cons.prems one have "reap_users env wo opts cutoff us st1 = (err, st')" "u \<in> set page" "set us \<subseteq> set page" by simp_all
    from Cons.IH [OF k(1) k(2) _ this(3,1)] k(3,4) this(2) Cons.prems(3) None show ?thesis by auto
  next
    case (Some x)
    with Cons.prems one k show ?thesis by auto
  qed
qed simp

lemma reap_pages_keep:
  "reap_safe (re_parseDate env) cutoff opts st \<Longrightarrow> reap_tally (re_parseDate env) cutoff (listed (rs_log st)) st \<Longrightarrow>
   reap_pages env wo opts cutoff n after st = (err, st') \<Longrightarrow>
     reap_safe (re_parseDate env) cutoff opts st' \<and>
     (err = None \<longrightarrow> reap_tally (re_parseDate env) cutoff (listed (rs_log st')) st')"
proof (induction n arbitrary: after st)
  case (Suc n)
  obtain reply e where fetch: "re_fetch env (list_call wo (ro_pageSize opts) after) (rs_env st) = (reply, e)"
    by (cases "re_fetch env (list_call wo (ro_pageSize opts) after) (rs_env st)")
  show ?case
  proof (cases "listUsers wo (\<lambda>_. reply) (ro_pageSize opts) after")
    case (Inl x)
    with Suc.prems fetch show ?thesis by (auto simp: reap_safe_def)
  next
    case (Inr page)
    let ?st = "st\<lparr>rs_env := e, rs_log := rs_log st @ [Listed (up_users page)]\<rparr>"
    obtain e1 st1 where us: "reap_users env wo opts cutoff (up_users page) ?st = (e1, st1)"
      by (cases "reap_users env wo opts cutoff (up_users page) ?st")
    have "reap_safe (re_parseDate env) cutoff opts ?st" "reap_tally (re_parseDate env) cutoff (listed (rs_log st)) ?st"
      using Suc.prems(1,2) by (simp_all add: reap_safe_def reap_tally_def justified_act)
    from reap_users_keep [OF this _ subset_refl us]
    have k: "reap_safe (re_parseDate env) cutoff opts st1" "e1 = None \<Longrightarrow> reap_tally (re_parseDate env) cutoff (listed (rs_log st1)) st1"
      by auto
    show ?thesis
      using Suc.prems(3) fetch Inr us k Suc.IH [OF k(1)] by (auto split: option.splits)
  qed
qed simp

lemma sweep_keeps:
  assumes "reap_sweep env wo opts now e = (err, st)"
  defines "cutoff \<equiv> now - ro_reapAfterSeconds opts * 1000"
  shows "reap_safe (re_parseDate env) cutoff opts st"
    and "err = None \<Longrightarrow> reap_tally (re_parseDate env) cutoff (listed (rs_log st)) st"
proof -
  have "reap_safe (re_parseDate env) cutoff opts (reap_start e)" "reap_tally (re_parseDate env) cutoff (listed (rs_log (reap_start e))) (reap_start e)"
    by (simp_all add: reap_safe_def reap_tally_def reap_start_def reap_empty_def)
  from reap_pages_keep [OF this assms(1) [unfolded reap_sweep_def, folded cutoff_def]]
  show "reap_safe (re_parseDate env) cutoff opts st"
    and "err = None \<Longrightarrow> reap_tally (re_parseDate env) cutoff (listed (rs_log st)) st" by blast+
qed

subsection \<open>Properties\<close>

text \<open>Claim C18. Whatever the directory and the database answer, and however the sweep ends, an identity is
  deleted only when a page listed it with an address the provider calls unverified and a
  readable date before the cutoff, and the look-up just before found no local row for it.\<close>

theorem reap_only_unconsented:
  "justified (re_parseDate env) (now - ro_reapAfterSeconds opts * 1000)
     (fst (snd (reap_run hashtext session env wo opts now locks e)))"
proof -
  obtain err st where sweep: "reap_sweep env wo opts now e = (err, st)" by (cases "reap_sweep env wo opts now e")
  obtain b t where "tryAdvisoryLock hashtext session (ln_directoryReap LOCK_NAMESPACE) REAP_LOCK_KEY locks = (b, t)"
    by (cases "tryAdvisoryLock hashtext session (ln_directoryReap LOCK_NAMESPACE) REAP_LOCK_KEY locks")
  then show ?thesis
    using sweep_keeps(1) [OF sweep] sweep by (cases b) (simp_all add: reap_run_def reap_safe_def)
qed

text \<open>The summary of a sweep is exact: every listed identity was examined, every one whose record
  was incomplete is in the skipped, every one without a local row was deleted, refused or
  held back by the cap, and the deletions that succeeded are no more than the cap.\<close>

theorem reap_summary_exact:
  assumes "reap_run hashtext session env wo opts now locks e = (Inr out, acts, locks')" "rp_ran out"
  shows "rp_examined out = length (listed acts) \<and>
    rp_skippedUnknown out = length (filter (\<lambda>u. reap_verdict (re_parseDate env) u (now - ro_reapAfterSeconds opts * 1000) = Unknown) (listed acts)) \<and>
    acts_of is_unknown_locally acts = rp_deleted out + rp_failed out + rp_capped out \<and>
    acts_of (is_deletion True) acts = rp_deleted out \<and> acts_of (is_deletion False) acts = rp_failed out \<and>
    rp_deleted out \<le> ro_maxDeletionsPerRun opts"
proof -
  obtain err st where sweep: "reap_sweep env wo opts now e = (err, st)" by (cases "reap_sweep env wo opts now e")
  have "err = None \<and> out = rs_out st \<and> acts = rs_log st"
    using assms sweep by (auto simp: reap_run_def reap_empty_def split: prod.splits bool.splits option.splits)
  with sweep_keeps [OF sweep] show ?thesis by (simp add: reap_safe_def reap_tally_def)
qed

text \<open>A directory that answers the same all the time.\<close>

definition still_env :: "string list \<Rightarrow> workos_client \<Rightarrow> string \<Rightarrow> (int \<times> string) option \<Rightarrow> unit reap_env" where
  "still_env rows wo listing deletion =
     \<lparr>re_fetch = (\<lambda>c e. (if hc_verb c = ''DELETE'' then deletion else Some (200, listing), e)),
      re_local = (\<lambda>i e. (Some (i \<in> set rows), e)),
      re_parseDate = (\<lambda>s. if s = ''day0'' then Some 0 else None)\<rparr>"

definition demo_listing :: string where
  "demo_listing = stringify (JObj [(''data'', JArr
     [JObj [(''id'', JStr ''u1''), (''email_verified'', JBool False), (''created_at'', JStr ''day0'')],
      JObj [(''id'', JStr ''u2''), (''email_verified'', JBool False), (''created_at'', JStr ''day0'')],
      JObj [(''id'', JStr ''u3''), (''created_at'', JStr ''day0'')]])])"

definition demo_reaper :: reaper_options where
  "demo_reaper = \<lparr>ro_reapAfterSeconds = 86400, ro_pageSize = 100, ro_maxDeletionsPerRun = 1, ro_maxPagesPerRun = 5\<rparr>"

definition demo_client :: workos_client where
  "demo_client = \<lparr>wo_baseUrl = ''https://x'', wo_clientId = ''c'', wo_apiKey = ''k''\<rparr>"

lemma demo_page:
  "listUsers wo (\<lambda>_. Some (200, demo_listing)) n after = Inr
     \<lparr>up_users = [\<lparr>wu_id = ''u1'', wu_email = None, wu_firstName = None, wu_lastName = None, wu_emailVerified = Some False, wu_createdAt = Some ''day0''\<rparr>,
        \<lparr>wu_id = ''u2'', wu_email = None, wu_firstName = None, wu_lastName = None, wu_emailVerified = Some False, wu_createdAt = Some ''day0''\<rparr>,
        \<lparr>wu_id = ''u3'', wu_email = None, wu_firstName = None, wu_lastName = None, wu_emailVerified = None, wu_createdAt = Some ''day0''\<rparr>],
      up_after = None\<rparr>"
  by (simp add: listUsers_def wo_request_def demo_listing_def in_2xx_def jget_def jsub_def toUser_def jstring_def jbool_def)

lemma demo_run:
  "reap_run (\<lambda>_. 0) 1 (still_env [] demo_client demo_listing None) demo_client demo_reaper 90000000 [] () =
     (Inr \<lparr>rp_ran = True, rp_examined = 3, rp_deleted = 0, rp_capped = 0, rp_failed = 2, rp_skippedUnknown = 1\<rparr>,
      [Listed (up_users (projr (listUsers demo_client (\<lambda>_. Some (200, demo_listing)) 100 None))), Looked_up ''u1'' False,
       Delete_call ''u1'' False, Audited ''u1'' False, Looked_up ''u2'' False, Delete_call ''u2'' False, Audited ''u2'' False], [])"
  by (simp add: reap_run_def tryAdvisoryLock_def advisoryUnlock_def reap_sweep_def demo_reaper_def numeral_eq_Suc
      still_env_def list_call_def wo_call_def demo_page reap_user_def reap_verdict_def Let_def reap_start_def reap_empty_def
      delete_call_def deleteUser_def wo_request_def)

lemma reap_summary_exact_witness:
  "length (listed (fst (snd (reap_run (\<lambda>_. 0) 1 (still_env [] demo_client demo_listing None) demo_client demo_reaper 90000000 [] ())))) = 3"
  using reap_summary_exact [OF demo_run] unfolding demo_run by simp

definition replies_lost :: "'e reap_env \<Rightarrow> bool" where
  "replies_lost env \<longleftrightarrow> (\<forall>c e. hc_verb c = ''DELETE'' \<longrightarrow> fst (re_fetch env c e) = None)"

definition none_counted :: "'e reap_state \<Rightarrow> bool" where
  "none_counted st \<longleftrightarrow> rp_deleted (rs_out st) = 0 \<and> rp_capped (rs_out st) = 0"

lemma reap_user_lost:
  assumes "replies_lost env" "0 < ro_maxDeletionsPerRun opts" "none_counted st"
    and run: "reap_user env wo opts cutoff u st = (err, st')"
  shows "none_counted st'"
proof -
  have "fst (re_fetch env (delete_call wo i) e) = None" for i e
    using assms(1) by (simp add: replies_lost_def delete_call_def wo_call_def)
  then have "deleteUser wo (\<lambda>_. fst (re_fetch env (delete_call wo i) e)) i \<noteq> Inr True" for i e
    by (simp add: deleteUser_def wo_request_def)
  then show ?thesis
    using assms(2,3) run
    by (auto simp: reap_user_def Let_def none_counted_def case_prod_beta split: if_splits option.splits)
qed

lemma reap_users_lost:
  "replies_lost env \<Longrightarrow> 0 < ro_maxDeletionsPerRun opts \<Longrightarrow> none_counted st \<Longrightarrow>
   reap_users env wo opts cutoff us st = (err, st') \<Longrightarrow> none_counted st'"
proof (induction us arbitrary: st)
  case (Cons u us)
  obtain e1 st1 where one: "reap_user env wo opts cutoff u st = (e1, st1)" by (cases "reap_user env wo opts cutoff u st")
  with Cons reap_user_lost [OF Cons.prems(1,2,3) one] show ?case by (auto split: option.splits)
qed simp

lemma reap_pages_lost:
  "replies_lost env \<Longrightarrow> 0 < ro_maxDeletionsPerRun opts \<Longrightarrow> none_counted st \<Longrightarrow>
   reap_pages env wo opts cutoff n after st = (err, st') \<Longrightarrow> none_counted st'"
proof (induction n arbitrary: after st)
  case (Suc n)
  obtain reply e where fetch: "re_fetch env (list_call wo (ro_pageSize opts) after) (rs_env st) = (reply, e)"
    by (cases "re_fetch env (list_call wo (ro_pageSize opts) after) (rs_env st)")
  show ?case
  proof (cases "listUsers wo (\<lambda>_. reply) (ro_pageSize opts) after")
    case (Inr page)
    let ?st = "st\<lparr>rs_env := e, rs_log := rs_log st @ [Listed (up_users page)]\<rparr>"
    obtain e1 st1 where us: "reap_users env wo opts cutoff (up_users page) ?st = (e1, st1)"
      by (cases "reap_users env wo opts cutoff (up_users page) ?st")
    have "none_counted st1"
      using reap_users_lost [OF Suc.prems(1,2) _ us] Suc.prems(3) by (simp add: none_counted_def)
    with Suc Inr fetch us show ?thesis by (auto split: option.splits)
  qed (use Suc fetch in \<open>auto simp: none_counted_def\<close>)
qed simp

text \<open>The cap counts confirmed deletions only: when the replies to the deletions are lost, which the
  provider may still have carried out, every identity without a local row is tried, however
  small the cap is.\<close>

theorem cap_counts_confirmed:
  assumes "replies_lost env" "0 < ro_maxDeletionsPerRun opts"
    and "reap_run hashtext session env wo opts now locks e = (Inr out, acts, locks')"
  shows "rp_capped out = 0 \<and> acts_of (is_deletion False) acts = acts_of is_unknown_locally acts"
proof -
  obtain err st where sweep: "reap_sweep env wo opts now e = (err, st)" by (cases "reap_sweep env wo opts now e")
  have "none_counted (reap_start e)" by (simp add: none_counted_def reap_start_def reap_empty_def)
  from reap_pages_lost [OF assms(1,2) this sweep [unfolded reap_sweep_def]]
  have "rp_deleted (rs_out st) = 0 \<and> rp_capped (rs_out st) = 0" by (simp add: none_counted_def)
  moreover have "(err = None \<and> out = rs_out st \<and> acts = rs_log st) \<or> (out = reap_empty \<and> acts = [])"
    using assms(3) sweep by (auto simp: reap_run_def split: prod.splits bool.splits option.splits)
  ultimately show ?thesis
    using sweep_keeps [OF sweep] by (auto simp: reap_safe_def reap_tally_def reap_empty_def)
qed

lemma cap_counts_confirmed_witness:
  "ro_maxDeletionsPerRun demo_reaper = 1 \<and> acts_of (is_deletion False)
     (fst (snd (reap_run (\<lambda>_. 0) 1 (still_env [] demo_client demo_listing None) demo_client demo_reaper 90000000 [] ()))) = 2"
proof -
  have "replies_lost (still_env [] demo_client demo_listing None)" by (simp add: replies_lost_def still_env_def)
  from cap_counts_confirmed [OF this _ demo_run] show ?thesis unfolding demo_run by (simp add: demo_reaper_def)
qed

text \<open>A second sweep declines while one holds the lock, and the lock is given back on every way out.\<close>

lemma reap_excluded:
  "map_of locks (3, hashtext REAP_LOCK_KEY) = Some (holder, n) \<Longrightarrow> holder \<noteq> session \<Longrightarrow>
     reap_run hashtext session env wo opts now locks e = (Inr reap_empty, [], locks)"
  by (simp add: reap_run_def LOCK_NAMESPACE_def lock_refused)

lemma reap_releases:
  "\<forall>h n. map_of locks (3, hashtext REAP_LOCK_KEY) = Some (h, n) \<longrightarrow> 0 < n \<Longrightarrow>
     map_of (snd (snd (reap_run hashtext session env wo opts now locks e))) = map_of locks"
  using lock_unlock [of hashtext session 3 REAP_LOCK_KEY locks]
  by (auto simp: reap_run_def LOCK_NAMESPACE_def tryAdvisoryLock_def split: prod.splits bool.splits option.splits)

end
