(* ===== verification/Discovery_Merge.thy ===== *)
theory Discovery_Merge
  imports Name_Keys Js_Sort
begin

text \<open>
  Deduplication and ranking across sources: \<^verbatim>\<open>packages/discovery/src/merge.ts\<close>. A score is a
  real number, the two \<open>Map\<close>s from identities to entries are association lists in insertion
  order, a \<open>Set\<close> is the list of its elements in insertion order, and the collation of
  \<open>localeCompare\<close> is a parameter. Both merges are instances of one contract, the locale
  \<open>candidate_merge\<close>, in which what a merged entry says of its candidates is proved once.
\<close>

subsection \<open>Candidates\<close>

record attribution =
  at_source :: utext
  at_text :: utext
  at_url :: "utext option"

record track_candidate =
  tc_identity :: utext
  tc_source :: utext
  tc_score :: real
  tc_title :: utext
  tc_artistName :: utext
  tc_recordingMbid :: "utext option"
  tc_artistMbid :: "utext option"
  tc_attribution :: "attribution option"

record artist_candidate =
  ac_identity :: utext
  ac_source :: utext
  ac_score :: real
  ac_name :: utext
  ac_artistMbid :: "utext option"
  ac_attribution :: "attribution option"

record merged_track =
  mt_identity :: utext
  mt_title :: utext
  mt_artistName :: utext
  mt_recordingMbid :: "utext option"
  mt_artistMbid :: "utext option"
  mt_score :: real
  mt_sources :: "utext list"
  mt_attribution :: "attribution list"

record merged_artist =
  ma_identity :: utext
  ma_name :: utext
  ma_artistMbid :: "utext option"
  ma_score :: real
  ma_sources :: "utext list"
  ma_attribution :: "attribution list"

definition makeTrackCandidate ::
  "unicode \<Rightarrow> utext \<Rightarrow> real \<Rightarrow> utext \<Rightarrow> utext \<Rightarrow> utext option \<Rightarrow> utext option \<Rightarrow> attribution option
     \<Rightarrow> track_candidate" where
  "makeTrackCandidate u source score title artistName recordingMbid artistMbid attr =
     \<lparr>tc_identity = trackIdentity u artistName title, tc_source = source, tc_score = score,
      tc_title = title, tc_artistName = artistName, tc_recordingMbid = recordingMbid,
      tc_artistMbid = artistMbid, tc_attribution = attr\<rparr>"

definition makeArtistCandidate ::
  "unicode \<Rightarrow> utext \<Rightarrow> real \<Rightarrow> utext \<Rightarrow> utext option \<Rightarrow> attribution option \<Rightarrow> artist_candidate" where
  "makeArtistCandidate u source score name artistMbid attr =
     \<lparr>ac_identity = artistIdentity u name, ac_source = source, ac_score = score, ac_name = name,
      ac_artistMbid = artistMbid, ac_attribution = attr\<rparr>"

definition agreementBoost :: "nat \<Rightarrow> real" where
  "agreementBoost sourceCount = (if sourceCount \<le> 1 then 1 else 1 + log 2 (real sourceCount))"

definition mergeAttribution :: "attribution list \<Rightarrow> attribution option \<Rightarrow> attribution list" where
  "mergeAttribution existing nxt =
     (case nxt of
        None \<Rightarrow> existing
      | Some n \<Rightarrow>
          if list_ex (\<lambda>a. at_source a = at_source n \<and> at_url a = at_url n) existing then existing
          else existing @ [n])"

text \<open>\<open>Set.add\<close>.\<close>

definition set_add :: "'a \<Rightarrow> 'a list \<Rightarrow> 'a list" where
  "set_add x xs = (if x \<in> set xs then xs else xs @ [x])"

subsection \<open>The two merges\<close>

record track_entry =
  te_best :: track_candidate
  te_bestScore :: real
  te_sources :: "utext list"
  te_attribution :: "attribution list"
  te_peak :: real

definition track_start :: "track_candidate \<Rightarrow> track_entry" where
  "track_start c =
     \<lparr>te_best = c, te_bestScore = tc_score c, te_sources = [tc_source c],
      te_attribution = mergeAttribution [] (tc_attribution c), te_peak = tc_score c\<rparr>"

definition track_join :: "track_entry \<Rightarrow> track_candidate \<Rightarrow> track_entry" where
  "track_join e c =
     (let e1 = e\<lparr>te_sources := set_add (tc_source c) (te_sources e),
                 te_attribution := mergeAttribution (te_attribution e) (tc_attribution c),
                 te_peak := max (te_peak e) (tc_score c)\<rparr>
      in if te_bestScore e1 < tc_score c
            \<or> tc_recordingMbid (te_best e1) = None \<and> tc_recordingMbid c \<noteq> None
         then e1\<lparr>te_best := c\<lparr>
                     tc_recordingMbid := orelse_opt (tc_recordingMbid c) (tc_recordingMbid (te_best e1)),
                     tc_artistMbid := orelse_opt (tc_artistMbid c) (tc_artistMbid (te_best e1))\<rparr>,
                 te_bestScore := max (te_bestScore e1) (tc_score c)\<rparr>
         else e1)"

record artist_entry =
  ae_name :: utext
  ae_artistMbid :: "utext option"
  ae_peak :: real
  ae_sources :: "utext list"
  ae_attribution :: "attribution list"

definition artist_start :: "artist_candidate \<Rightarrow> artist_entry" where
  "artist_start c =
     \<lparr>ae_name = ac_name c, ae_artistMbid = ac_artistMbid c, ae_peak = ac_score c,
      ae_sources = [ac_source c], ae_attribution = mergeAttribution [] (ac_attribution c)\<rparr>"

definition artist_join :: "artist_entry \<Rightarrow> artist_candidate \<Rightarrow> artist_entry" where
  "artist_join e c =
     e\<lparr>ae_sources := set_add (ac_source c) (ae_sources e),
       ae_attribution := mergeAttribution (ae_attribution e) (ac_attribution c),
       ae_peak := max (ae_peak e) (ac_score c),
       ae_artistMbid := orelse_opt (ae_artistMbid e) (ac_artistMbid c)\<rparr>"

text \<open>One turn of the loop that both merges share: an empty identity is skipped, an unknown
  one is added at the end of the map, a known one has its entry changed in place.\<close>

definition absorb ::
  "('c \<Rightarrow> utext) \<Rightarrow> ('c \<Rightarrow> 'e) \<Rightarrow> ('e \<Rightarrow> 'c \<Rightarrow> 'e) \<Rightarrow> (utext \<times> 'e) list \<Rightarrow> 'c \<Rightarrow> (utext \<times> 'e) list" where
  "absorb key start join m c =
     (if key c = [] then m
      else case map_of m (key c) of
        None \<Rightarrow> m @ [(key c, start c)]
      | Some e \<Rightarrow> AList.update (key c) (join e c) m)"

text \<open>The comparator of the two final sorts: \<open>b.score - a.score || a.identity.localeCompare(b.identity)\<close>.\<close>

definition by_score :: "('a \<Rightarrow> real) \<Rightarrow> ('a \<Rightarrow> utext) \<Rightarrow> (utext \<Rightarrow> utext \<Rightarrow> real) \<Rightarrow> 'a \<Rightarrow> 'a \<Rightarrow> real" where
  "by_score score ident localeCompare a b =
     (let d = score b - score a in if d \<noteq> 0 then d else localeCompare (ident a) (ident b))"

definition track_out :: "utext \<times> track_entry \<Rightarrow> merged_track" where
  "track_out p = (case p of (identity, e) \<Rightarrow>
     \<lparr>mt_identity = identity, mt_title = tc_title (te_best e), mt_artistName = tc_artistName (te_best e),
      mt_recordingMbid = tc_recordingMbid (te_best e), mt_artistMbid = tc_artistMbid (te_best e),
      mt_score = te_peak e * agreementBoost (length (te_sources e)),
      mt_sources = js_sort code_units (te_sources e), mt_attribution = te_attribution e\<rparr>)"

definition artist_out :: "utext \<times> artist_entry \<Rightarrow> merged_artist" where
  "artist_out p = (case p of (identity, e) \<Rightarrow>
     \<lparr>ma_identity = identity, ma_name = ae_name e, ma_artistMbid = ae_artistMbid e,
      ma_score = ae_peak e * agreementBoost (length (ae_sources e)),
      ma_sources = js_sort code_units (ae_sources e), ma_attribution = ae_attribution e\<rparr>)"

definition mergeTracks ::
  "(utext \<Rightarrow> utext \<Rightarrow> real) \<Rightarrow> track_candidate list \<Rightarrow> merged_track list" where
  "mergeTracks localeCompare candidates =
     js_sort (by_score mt_score mt_identity localeCompare)
       (map track_out (foldl (absorb tc_identity track_start track_join) [] candidates))"

definition mergeArtists ::
  "(utext \<Rightarrow> utext \<Rightarrow> real) \<Rightarrow> artist_candidate list \<Rightarrow> merged_artist list" where
  "mergeArtists localeCompare candidates =
     js_sort (by_score ma_score ma_identity localeCompare)
       (map artist_out (foldl (absorb ac_identity artist_start artist_join) [] candidates))"

subsection \<open>The groups of candidates\<close>

definition group :: "('c \<Rightarrow> utext) \<Rightarrow> 'c list \<Rightarrow> utext \<Rightarrow> 'c list" where
  "group key cs k = filter (\<lambda>c. key c = k) cs"

text \<open>The entry a group ends with.\<close>

fun gathered :: "('c \<Rightarrow> 'e) \<Rightarrow> ('e \<Rightarrow> 'c \<Rightarrow> 'e) \<Rightarrow> 'c list \<Rightarrow> 'e option" where
  "gathered start join [] = None"
| "gathered start join (c # cs) = Some (foldl join (start c) cs)"

lemma gathered_snoc:
  "gathered start join (cs @ [c]) =
     (case gathered start join cs of None \<Rightarrow> Some (start c) | Some e \<Rightarrow> Some (join e c))"
  by (cases cs) simp_all

lemma absorb_map_of:
  "k \<noteq> [] \<Longrightarrow> map_of (absorb key start join m c) k =
     (if key c = k then Some (case map_of m k of None \<Rightarrow> start c | Some e \<Rightarrow> join e c) else map_of m k)"
  by (cases "map_of m (key c)") (auto simp: absorb_def map_add_def AList.update_conv' split: option.splits)

lemma keys_update: "map_of m k \<noteq> None \<Longrightarrow> map fst (AList.update k v m) = map fst m"
  by (induction m) auto

lemma absorb_keys_step:
  "map fst (absorb key start join m c) =
     (if key c = [] \<or> key c \<in> fst ` set m then map fst m else map fst m @ [key c])"
proof (cases "map_of m (key c)")
  case None
  then have "key c \<notin> fst ` set m" by (simp add: map_of_eq_None_iff)
  with None show ?thesis by (simp add: absorb_def)
next
  case (Some e)
  then have "key c \<in> fst ` set m" by (force dest: map_of_SomeD)
  with Some show ?thesis by (simp add: absorb_def keys_update)
qed

lemma absorb_entry:
  "k \<noteq> [] \<Longrightarrow> map_of (foldl (absorb key start join) [] cs) k = gathered start join (group key cs k)"
  by (induction cs rule: rev_induct)
    (auto simp: group_def gathered_snoc absorb_map_of split: option.splits)

lemma absorb_keys:
  "distinct (map fst (foldl (absorb key start join) [] cs)) \<and>
   set (map fst (foldl (absorb key start join) [] cs)) = key ` set cs - {[]}"
proof (induction cs rule: rev_induct)
  case (snoc c cs)
  then have "set (map fst (foldl (absorb key start join) [] cs)) = key ` set cs - {[]}"
    and "distinct (map fst (foldl (absorb key start join) [] cs))" by simp_all
  then show ?case by (auto simp: absorb_keys_step)
qed simp

subsection \<open>The contract of a merge\<close>

lemma set_add_set [simp]: "set (set_add x xs) = insert x (set xs)"
  by (auto simp: set_add_def)

lemma set_add_distinct [simp]: "distinct (set_add x xs) = distinct xs"
  by (auto simp: set_add_def)

definition link_key :: "attribution \<Rightarrow> utext \<times> utext option" where
  "link_key a = (at_source a, at_url a)"

lemma mergeAttribution_keys:
  "link_key ` set (mergeAttribution as a) = link_key ` (set as \<union> set_option a)"
proof (cases a)
  case (Some n)
  have "list_ex (\<lambda>b. at_source b = at_source n \<and> at_url b = at_url n) as \<longleftrightarrow> link_key n \<in> link_key ` set as"
    unfolding list_ex_iff link_key_def image_iff prod.inject by metis
  then show ?thesis unfolding mergeAttribution_def Some by auto
qed (simp add: mergeAttribution_def)

lemma mergeAttribution_distinct:
  "distinct (map link_key as) \<Longrightarrow> distinct (map link_key (mergeAttribution as a))"
  by (cases a) (auto simp: mergeAttribution_def link_key_def list_ex_iff)

lemma mergeAttribution_subset: "set (mergeAttribution as a) \<subseteq> set as \<union> set_option a"
  by (cases a) (auto simp: mergeAttribution_def)

locale candidate_merge =
  fixes score :: "'c \<Rightarrow> real"
    and source :: "'c \<Rightarrow> utext"
    and link :: "'c \<Rightarrow> attribution option"
    and start :: "'c \<Rightarrow> 'e"
    and join :: "'e \<Rightarrow> 'c \<Rightarrow> 'e"
    and peak :: "'e \<Rightarrow> real"
    and sources :: "'e \<Rightarrow> utext list"
    and links :: "'e \<Rightarrow> attribution list"
  assumes peak_start: "peak (start c) = score c"
    and peak_join: "peak (join e c) = max (peak e) (score c)"
    and sources_start: "sources (start c) = [source c]"
    and sources_join: "sources (join e c) = set_add (source c) (sources e)"
    and links_start: "links (start c) = mergeAttribution [] (link c)"
    and links_join: "links (join e c) = mergeAttribution (links e) (link c)"
begin

lemma gathered_sources:
  "gathered start join cs = Some e \<Longrightarrow> set (sources e) = source ` set cs \<and> distinct (sources e)"
proof (induction cs arbitrary: e rule: rev_induct)
  case (snoc c cs)
  then show ?case
    by (auto simp: gathered_snoc sources_start sources_join split: option.splits)
      (cases cs; simp)+
qed simp

lemma gathered_peak: "gathered start join cs = Some e \<Longrightarrow> peak e = Max (score ` set cs)"
proof (induction cs arbitrary: e rule: rev_induct)
  case (snoc c cs)
  show ?case
  proof (cases "gathered start join cs")
    case None
    then have "cs = []" by (cases cs) simp_all
    with snoc.prems show ?thesis by (auto simp: peak_start)
  next
    case (Some d)
    then have "cs \<noteq> []" by auto
    with Some snoc show ?thesis by (auto simp: gathered_snoc peak_join max.commute)
  qed
qed simp

lemma gathered_links:
  "gathered start join cs = Some e \<Longrightarrow>
     link_key ` set (links e) = link_key ` (\<Union>c \<in> set cs. set_option (link c)) \<and>
     distinct (map link_key (links e)) \<and> set (links e) \<subseteq> (\<Union>c \<in> set cs. set_option (link c))"
proof (induction cs arbitrary: e rule: rev_induct)
  case (snoc c cs)
  show ?case
  proof (cases "gathered start join cs")
    case None
    then have "cs = []" by (cases cs) simp_all
    with snoc.prems show ?thesis
      using mergeAttribution_subset [of "[]" "link c"]
      by (auto simp: links_start mergeAttribution_keys mergeAttribution_distinct)
  next
    case (Some d)
    with snoc.prems have e: "links e = mergeAttribution (links d) (link c)"
      by (auto simp: gathered_snoc links_join)
    have "link_key ` set (links e) = link_key ` (\<Union>c \<in> set (cs @ [c]). set_option (link c))"
      unfolding e mergeAttribution_keys image_Un using snoc.IH [OF Some] by (simp add: image_Un Un_commute)
    moreover have "set (links e) \<subseteq> (\<Union>c \<in> set (cs @ [c]). set_option (link c))"
      unfolding e using mergeAttribution_subset [of "links d" "link c"] snoc.IH [OF Some] by auto
    ultimately show ?thesis using snoc.IH [OF Some] by (simp add: e mergeAttribution_distinct)
  qed
qed simp

end

interpretation tracks: candidate_merge tc_score tc_source tc_attribution track_start track_join
  te_peak te_sources te_attribution
  by unfold_locales (simp_all add: track_start_def track_join_def Let_def)

interpretation artists: candidate_merge ac_score ac_source ac_attribution artist_start artist_join
  ae_peak ae_sources ae_attribution
  by unfold_locales (simp_all add: artist_start_def artist_join_def)

subsection \<open>What the merged items say of their candidates\<close>

lemma absorbed_pair:
  "(k, e) \<in> set (foldl (absorb key start join) [] cs) \<longleftrightarrow>
     k \<noteq> [] \<and> gathered start join (group key cs k) = Some e"
proof -
  let ?m = "foldl (absorb key start join) [] cs"
  have d: "distinct (map fst ?m)" and ks: "set (map fst ?m) = key ` set cs - {[]}"
    using absorb_keys [of key start join cs] by simp_all
  have "(k, e) \<in> set ?m \<longleftrightarrow> k \<in> set (map fst ?m) \<and> map_of ?m k = Some e"
    using d by (auto simp: image_iff intro: map_of_is_SomeI dest: map_of_SomeD) force
  moreover have "gathered start join (group key cs k) = Some e \<Longrightarrow> k \<in> key ` set cs"
    by (cases "group key cs k") (auto simp: group_def dest: filter_eq_ConsD)
  ultimately show ?thesis unfolding ks using absorb_entry [of k key start join cs] by auto
qed

lemma mem_mergeTracks:
  "m \<in> set (mergeTracks lc cs) \<longleftrightarrow>
     (\<exists>k e. k \<noteq> [] \<and> gathered track_start track_join (group tc_identity cs k) = Some e \<and> m = track_out (k, e))"
  by (auto simp: mergeTracks_def absorbed_pair image_iff Bex_def)

lemma mem_mergeArtists:
  "m \<in> set (mergeArtists lc cs) \<longleftrightarrow>
     (\<exists>k e. k \<noteq> [] \<and> gathered artist_start artist_join (group ac_identity cs k) = Some e \<and> m = artist_out (k, e))"
  by (auto simp: mergeArtists_def absorbed_pair image_iff Bex_def)

lemma track_out_identity [simp]: "mt_identity (track_out p) = fst p"
  by (cases p) (simp add: track_out_def)

lemma artist_out_identity [simp]: "ma_identity (artist_out p) = fst p"
  by (cases p) (simp add: artist_out_def)

lemma agreementBoost_ge_1: "1 \<le> agreementBoost n"
  by (simp add: agreementBoost_def)

lemma agreementBoost_mono: "m \<le> n \<Longrightarrow> agreementBoost m \<le> agreementBoost n"
  by (auto simp: agreementBoost_def)

lemma track_best:
  "gathered track_start track_join cs = Some e \<Longrightarrow>
     te_bestScore e = te_peak e \<and>
     (tc_recordingMbid (te_best e) = None \<longleftrightarrow> (\<forall>c \<in> set cs. tc_recordingMbid c = None)) \<and>
     (\<exists>c \<in> set cs. tc_title (te_best e) = tc_title c \<and> tc_artistName (te_best e) = tc_artistName c)"
proof (induction cs arbitrary: e rule: rev_induct)
  case (snoc c cs)
  show ?case
  proof (cases "gathered track_start track_join cs")
    case None
    then have "cs = []" by (cases cs) simp_all
    with snoc.prems show ?thesis by (auto simp: track_start_def)
  next
    case (Some d)
    with snoc.prems have e: "e = track_join d c" by (simp add: gathered_snoc)
    show ?thesis
      using snoc.IH [OF Some] by (auto simp: e track_join_def Let_def)
  qed
qed simp

text \<open>Cross-source agreement is a boost and not a filter: every candidate that has an identity
  is in the merged list, once per identity, and nothing else is.\<close>

theorem merge_tracks_keeps_all:
  "distinct (map mt_identity (mergeTracks lc cs)) \<and>
   mt_identity ` set (mergeTracks lc cs) = tc_identity ` set cs - {[]}"
  using absorb_keys [of tc_identity track_start track_join cs]
  by (simp add: mergeTracks_def comp_def image_image)

lemma track_from_group:
  assumes "m \<in> set (mergeTracks lc cs)"
  defines "g \<equiv> set (group tc_identity cs (mt_identity m))"
  shows "mt_score m = Max (tc_score ` g) * agreementBoost (card (tc_source ` g))"
    and "set (mt_sources m) = tc_source ` g" and "distinct (mt_sources m)"
    and "link_key ` set (mt_attribution m) = link_key ` (\<Union>c \<in> g. set_option (tc_attribution c))"
    and "set (mt_attribution m) \<subseteq> (\<Union>c \<in> g. set_option (tc_attribution c))"
    and "distinct (map link_key (mt_attribution m))"
    and "mt_recordingMbid m = None \<longleftrightarrow> (\<forall>c \<in> g. tc_recordingMbid c = None)"
    and "\<exists>c \<in> g. mt_title m = tc_title c \<and> mt_artistName m = tc_artistName c"
proof -
  obtain k e where e: "gathered track_start track_join (group tc_identity cs k) = Some e"
    and m: "m = track_out (k, e)"
    using assms(1) unfolding mem_mergeTracks by blast
  have g: "g = set (group tc_identity cs k)" by (simp add: g_def m)
  have "length (te_sources e) = card (tc_source ` g)"
    using tracks.gathered_sources [OF e] by (metis distinct_card g)
  with tracks.gathered_peak [OF e]
  show "mt_score m = Max (tc_score ` g) * agreementBoost (card (tc_source ` g))"
    by (simp add: m track_out_def g)
  show "set (mt_sources m) = tc_source ` g" "distinct (mt_sources m)"
    using tracks.gathered_sources [OF e] by (simp_all add: m track_out_def g)
  show "link_key ` set (mt_attribution m) = link_key ` (\<Union>c \<in> g. set_option (tc_attribution c))"
    "set (mt_attribution m) \<subseteq> (\<Union>c \<in> g. set_option (tc_attribution c))"
    "distinct (map link_key (mt_attribution m))"
    using tracks.gathered_links [OF e] by (simp_all add: m track_out_def g)
  show "mt_recordingMbid m = None \<longleftrightarrow> (\<forall>c \<in> g. tc_recordingMbid c = None)"
    "\<exists>c \<in> g. mt_title m = tc_title c \<and> mt_artistName m = tc_artistName c"
    using track_best [OF e] by (simp_all add: m track_out_def g)
qed

lemma artist_from_group:
  assumes "m \<in> set (mergeArtists lc cs)"
  defines "g \<equiv> set (group ac_identity cs (ma_identity m))"
  shows "ma_score m = Max (ac_score ` g) * agreementBoost (card (ac_source ` g))"
    and "set (ma_sources m) = ac_source ` g" and "distinct (ma_sources m)"
    and "link_key ` set (ma_attribution m) = link_key ` (\<Union>c \<in> g. set_option (ac_attribution c))"
    and "set (ma_attribution m) \<subseteq> (\<Union>c \<in> g. set_option (ac_attribution c))"
    and "distinct (map link_key (ma_attribution m))"
proof -
  obtain k e where e: "gathered artist_start artist_join (group ac_identity cs k) = Some e"
    and m: "m = artist_out (k, e)"
    using assms(1) unfolding mem_mergeArtists by blast
  have g: "g = set (group ac_identity cs k)" by (simp add: g_def m)
  have "length (ae_sources e) = card (ac_source ` g)"
    using artists.gathered_sources [OF e] by (metis distinct_card g)
  with artists.gathered_peak [OF e]
  show "ma_score m = Max (ac_score ` g) * agreementBoost (card (ac_source ` g))"
    by (simp add: m artist_out_def g)
  show "set (ma_sources m) = ac_source ` g" "distinct (ma_sources m)"
    using artists.gathered_sources [OF e] by (simp_all add: m artist_out_def g)
  show "link_key ` set (ma_attribution m) = link_key ` (\<Union>c \<in> g. set_option (ac_attribution c))"
    "set (ma_attribution m) \<subseteq> (\<Union>c \<in> g. set_option (ac_attribution c))"
    "distinct (map link_key (ma_attribution m))"
    using artists.gathered_links [OF e] by (simp_all add: m artist_out_def g)
qed

text \<open>A merged track depends on the set of its candidates and not on their order: its score is
  the best score of any of them times the boost of the number of their sources, its sources
  are theirs without repetition, it carries their attribution links, each once, and it has a
  recording MBID whenever any of them has one. Agreement never costs an item its rank: the
  score is at least that of each candidate.\<close>

theorem merge_tracks_score:
  assumes "m \<in> set (mergeTracks lc cs)"
  shows "let g = set (group tc_identity cs (mt_identity m))
    in mt_score m = Max (tc_score ` g) * agreementBoost (card (tc_source ` g)) \<and>
       set (mt_sources m) = tc_source ` g \<and> distinct (mt_sources m) \<and>
       link_key ` set (mt_attribution m) = link_key ` (\<Union>c \<in> g. set_option (tc_attribution c)) \<and>
       distinct (map link_key (mt_attribution m)) \<and>
       (mt_recordingMbid m = None \<longleftrightarrow> (\<forall>c \<in> g. tc_recordingMbid c = None)) \<and>
       (\<forall>c \<in> g. 0 \<le> tc_score c \<longrightarrow> tc_score c \<le> mt_score m)"
proof -
  let ?g = "set (group tc_identity cs (mt_identity m))"
  have "tc_score c \<le> mt_score m" if "c \<in> ?g" "0 \<le> tc_score c" for c
  proof -
    have le: "tc_score c \<le> Max (tc_score ` ?g)" using that(1) by (simp add: group_def)
    also have "\<dots> * 1 \<le> Max (tc_score ` ?g) * agreementBoost (card (tc_source ` ?g))"
      using le that(2) agreementBoost_ge_1 by (intro mult_left_mono) auto
    finally show ?thesis using track_from_group(1) [OF assms] by simp
  qed
  with track_from_group [OF assms] show ?thesis by (auto simp: Let_def)
qed

text \<open>The identity of a track gathered from two sources, in either order.\<close>

definition sample_track :: "string \<Rightarrow> real \<Rightarrow> utext option \<Rightarrow> utext option \<Rightarrow> track_candidate" where
  "sample_track source score recording artist =
     \<lparr>tc_identity = lit ''a'' @ KEY_SEP # lit ''t'', tc_source = lit source, tc_score = score,
      tc_title = lit ''T'', tc_artistName = lit ''A'', tc_recordingMbid = recording,
      tc_artistMbid = artist, tc_attribution = None\<rparr>"

lemmas merge_eval = mergeTracks_def absorb_def track_start_def track_join_def track_out_def sample_track_def
  mergeAttribution_def set_add_def Let_def group_def

lemma merge_tracks_score_witness:
  "\<exists>m. mergeTracks code_units [sample_track ''cf'' (1/2) None None, sample_track ''fm'' (1/4) None None] = [m] \<and>
     mt_score m = 1"
proof -
  let ?cs = "[sample_track ''cf'' (1/2) None None, sample_track ''fm'' (1/4) None None]"
  obtain m where m: "mergeTracks code_units ?cs = [m]" "mt_identity m = lit ''a'' @ KEY_SEP # lit ''t''"
    by (simp add: merge_eval)
  then have "m \<in> set (mergeTracks code_units ?cs)" by simp
  from merge_tracks_score [OF this] m show ?thesis
    by (simp add: Let_def group_def sample_track_def agreementBoost_def)
qed

subsection \<open>The order of the merged items\<close>

lemma js_comparator_by_score:
  assumes "js_comparator lc"
  shows "js_comparator (by_score score ident lc)"
proof
  show "sgn (by_score score ident lc y x) = - sgn (by_score score ident lc x y)" for x y
    using js_comparator.cmp_flip [OF assms, of "ident y" "ident x"]
    by (auto simp: by_score_def Let_def sgn_if split: if_splits)
next
  fix x y z
  assume xy: "by_score score ident lc x y \<le> 0" and yz: "by_score score ident lc y z \<le> 0"
  then consider "score z < score x" | "score x = score y" "score y = score z"
    by (auto simp: by_score_def Let_def split: if_splits)
  then show "by_score score ident lc x z \<le> 0"
    using xy yz js_comparator.cmp_trans [OF assms, of "ident x" "ident y" "ident z"]
    by cases (simp_all add: by_score_def Let_def)
qed

interpretation ranked_tracks: js_comparator "by_score mt_score mt_identity code_units"
  by (rule js_comparator_by_score) unfold_locales

interpretation ranked_artists: js_comparator "by_score ma_score ma_identity code_units"
  by (rule js_comparator_by_score) unfold_locales

text \<open>The merged list is ranked: a later track has a smaller score, or the same score and an
  identity that the collation does not put before.\<close>

theorem merge_tracks_ranked:
  assumes "js_comparator lc"
  shows "sorted_wrt (\<lambda>a b. mt_score b < mt_score a \<or>
           mt_score b = mt_score a \<and> lc (mt_identity a) (mt_identity b) \<le> 0) (mergeTracks lc cs)"
  unfolding mergeTracks_def
  by (rule sorted_wrt_mono_rel [OF _ js_comparator.sort_sorted [OF js_comparator_by_score [OF assms]]])
    (auto simp: by_score_def Let_def split: if_splits)

lemma merge_tracks_ranked_witness:
  "sorted_wrt (\<lambda>a b. mt_score b < mt_score a \<or>
     mt_score b = mt_score a \<and> code_units (mt_identity a) (mt_identity b) \<le> 0)
   (mergeTracks code_units [sample_track ''cf'' (1/2) None None, sample_track ''fm'' (1/4) None None])"
  by (rule merge_tracks_ranked) (rule units.js_comparator_axioms)

subsection \<open>The artist MBID of a track\<close>

text \<open>The recording MBID survives whichever source has it, the artist MBID does not: a weaker
  candidate that brings the only artist MBID is dropped when the best one already has its
  recording MBID.\<close>

theorem merge_tracks_drops_artist_mbid:
  "mt_artistMbid ` set (mergeTracks lc
     [sample_track ''cf'' (1/2) (Some r) None, sample_track ''fm'' (1/4) None (Some a)]) = {None}"
  by (simp add: merge_eval)

text \<open>The artists' merge keeps it.\<close>

lemma artist_mbid:
  "gathered artist_start artist_join cs = Some e \<Longrightarrow>
     ae_artistMbid e = None \<longleftrightarrow> (\<forall>c \<in> set cs. ac_artistMbid c = None)"
proof (induction cs arbitrary: e rule: rev_induct)
  case (snoc c cs)
  show ?case
  proof (cases "gathered artist_start artist_join cs")
    case None
    then have "cs = []" by (cases cs) simp_all
    with snoc.prems show ?thesis by (auto simp: artist_start_def)
  next
    case (Some d)
    with snoc.prems have e: "e = artist_join d c" by (simp add: gathered_snoc)
    show ?thesis using snoc.IH [OF Some] by (auto simp: e artist_join_def)
  qed
qed simp

text \<open>The merge of the artists keeps every identity once, scores it by its group and keeps the
  artist MBID of whichever source has it.\<close>

theorem merge_artists_contract:
  "distinct (map ma_identity (mergeArtists lc cs)) \<and>
   ma_identity ` set (mergeArtists lc cs) = ac_identity ` set cs - {[]} \<and>
   (\<forall>m \<in> set (mergeArtists lc cs). let g = set (group ac_identity cs (ma_identity m))
      in ma_score m = Max (ac_score ` g) * agreementBoost (card (ac_source ` g)) \<and>
         set (ma_sources m) = ac_source ` g \<and>
         (ma_artistMbid m = None \<longleftrightarrow> (\<forall>c \<in> g. ac_artistMbid c = None)))"
proof (intro conjI ballI)
  show "distinct (map ma_identity (mergeArtists lc cs))"
    "ma_identity ` set (mergeArtists lc cs) = ac_identity ` set cs - {[]}"
    using absorb_keys [of ac_identity artist_start artist_join cs]
    by (simp_all add: mergeArtists_def comp_def image_image)
next
  fix m assume m: "m \<in> set (mergeArtists lc cs)"
  then obtain k e where e: "gathered artist_start artist_join (group ac_identity cs k) = Some e"
    and mk: "m = artist_out (k, e)" unfolding mem_mergeArtists by blast
  have "ma_artistMbid m = None \<longleftrightarrow> (\<forall>c \<in> set (group ac_identity cs (ma_identity m)). ac_artistMbid c = None)"
    using artist_mbid [OF e] by (simp add: mk artist_out_def)
  then show "let g = set (group ac_identity cs (ma_identity m))
      in ma_score m = Max (ac_score ` g) * agreementBoost (card (ac_source ` g)) \<and>
         set (ma_sources m) = ac_source ` g \<and>
         (ma_artistMbid m = None \<longleftrightarrow> (\<forall>c \<in> g. ac_artistMbid c = None))"
    using artist_from_group [OF m] by (simp add: Let_def)
qed

lemma merge_artists_contract_witness:
  "ma_identity ` set (mergeArtists code_units
     [makeArtistCandidate latin (lit ''cf'') 1 (lit ''ab'') None None]) = {lit ''ab''}"
  using conjunct1 [OF conjunct2 [OF merge_artists_contract [of code_units
     "[makeArtistCandidate latin (lit ''cf'') 1 (lit ''ab'') None None]"]]]
  by (simp add: makeArtistCandidate_def artistIdentity_def normalizeKey_def trim_def squash.simps
      conjunctions_def CONJUNCTIONS_def stripDiacritics_def latin_def is_word_char_def orelse_def
      LATIN_DECOMPOSITION_def)

end
