(* ===== verification/Discovery_Blend.thy ===== *)
theory Discovery_Blend
  imports Discovery_Merge
begin

text \<open>
  The assembly of a feed: \<^verbatim>\<open>packages/discovery/src/blend.ts\<close> over the ports of
  \<^verbatim>\<open>ports.ts\<close> and the envelope of \<^verbatim>\<open>envelope.ts\<close>. A port is a function that gives the
  answer of the call, or \<open>None\<close> when its promise rejects. A builder gives the shelves and the
  providers it reports, or \<open>None\<close> when it rejects itself. Item counts are natural numbers.
\<close>

subsection \<open>The ports and the envelope\<close>

record rec_ref =
  rr_recordingMbid :: utext
  rr_score :: real

record radio_track =
  rt_recordingMbid :: utext
  rt_recordingName :: utext
  rt_artistMbid :: "utext option"
  rt_artistName :: utext
  rt_similarity :: real

record artist_listen =
  al_artistMbid :: "utext option"
  al_artistName :: utext
  al_listenCount :: nat

record similar_artist =
  sa_artistMbid :: "utext option"
  sa_name :: utext
  sa_score :: real
  sa_url :: "utext option"

record playlist_ref =
  pr_identifier :: utext
  pr_title :: utext
  pr_annotation :: "utext option"

record track_ref =
  tr_recordingMbid :: utext
  tr_title :: utext
  tr_artistName :: utext
  tr_artistMbid :: "utext option"

record similar_track =
  st_title :: utext
  st_artistName :: utext
  st_recordingMbid :: "utext option"
  st_score :: real
  st_url :: "utext option"

record listenbrainz_port =
  lb_recommendedRecordings :: "nat \<Rightarrow> rec_ref list option"
  lb_topArtists :: "nat \<Rightarrow> artist_listen list option"
  lb_artistRadio :: "utext \<Rightarrow> radio_track list option"
  lb_createdForPlaylists :: "playlist_ref list option"
  lb_similarArtists :: "utext \<Rightarrow> similar_artist list option"

record lastfm_port =
  lf_similarArtists :: "utext \<Rightarrow> similar_artist list option"
  lf_similarTracks :: "utext \<Rightarrow> utext \<Rightarrow> similar_track list option"

record discovery_ports =
  dp_listenbrainz :: listenbrainz_port
  dp_lastfm :: "lastfm_port option"
  dp_hydrate :: "utext list \<Rightarrow> (utext \<rightharpoonup> track_ref) option"

datatype section_kind = Made_For_You | Because_You_Like | Daily_Mix | Explore_By_Mood | Trending
  | Connections | Rediscover | Stations | Search_Results

datatype feed_item =
    Track_Item (fi_recordingMbid: "utext option") (fi_title: utext) (fi_artistName: utext)
      (fi_artistMbid: "utext option") (fi_score: real) (fi_sources: "utext list")
      (fi_attribution: "attribution list")
  | Artist_Item (fi_artistMbid: "utext option") (fi_name: utext) (fi_score: real)
      (fi_sources: "utext list") (fi_attribution: "attribution list")
  | Playlist_Item (fi_identifier: utext) (fi_title: utext) (fi_description: "utext option")
      (fi_sources: "utext list") (fi_attribution: "attribution list")

record feed_section =
  fs_kind :: section_kind
  fs_title :: utext
  fs_seed :: "(utext \<times> utext) option"
  fs_items :: "feed_item list"

record sections_envelope =
  se_sections :: "feed_section list"
  se_cursor :: "utext option"
  se_degraded :: bool
  se_unavailableProviders :: "utext list"
  se_attribution :: "attribution list"

record blend_options =
  bo_limit :: "nat option"
  bo_seedArtists :: "nat option"
  bo_enableLastfm :: "bool option"

record section_outcome =
  so_sections :: "feed_section list"
  so_failedProviders :: "utext list"

definition SOURCE_LB_CF :: utext where "SOURCE_LB_CF = lit ''listenbrainz:cf''"
definition SOURCE_LB_RADIO :: utext where "SOURCE_LB_RADIO = lit ''listenbrainz:lb-radio''"
definition SOURCE_LB_LABS :: utext where "SOURCE_LB_LABS = lit ''listenbrainz:labs-similar''"
definition SOURCE_LB_PLAYLIST :: utext where "SOURCE_LB_PLAYLIST = lit ''listenbrainz:createdfor''"
definition SOURCE_LASTFM_SIMILAR :: utext where "SOURCE_LASTFM_SIMILAR = lit ''lastfm:similar''"

definition LISTENBRAINZ_ATTRIBUTION :: attribution where
  "LISTENBRAINZ_ATTRIBUTION =
     \<lparr>at_source = lit ''listenbrainz'', at_text = lit ''Recommendations by ListenBrainz'',
      at_url = Some (lit ''https://listenbrainz.org'')\<rparr>"

definition lastfmAttribution :: "utext option \<Rightarrow> attribution" where
  "lastfmAttribution url =
     \<lparr>at_source = lit ''lastfm'', at_text = lit ''Data provided by Last.fm'', at_url = url\<rparr>"

definition toTrackItem :: "merged_track \<Rightarrow> feed_item" where
  "toTrackItem t = Track_Item (mt_recordingMbid t) (mt_title t) (mt_artistName t) (mt_artistMbid t)
     (mt_score t) (mt_sources t) (mt_attribution t)"

definition artist_item :: "merged_artist \<Rightarrow> feed_item" where
  "artist_item a = Artist_Item (ma_artistMbid a) (ma_name a) (ma_score a) (ma_sources a) (ma_attribution a)"

definition nothing :: section_outcome where
  "nothing = \<lparr>so_sections = [], so_failedProviders = []\<rparr>"

definition failed_with :: "utext \<Rightarrow> section_outcome" where
  "failed_with p = \<lparr>so_sections = [], so_failedProviders = [p]\<rparr>"

subsection \<open>The builders\<close>

definition cf_candidates :: "unicode \<Rightarrow> (utext \<rightharpoonup> track_ref) \<Rightarrow> rec_ref list \<Rightarrow> track_candidate list" where
  "cf_candidates u hydrated recs =
     concat (map (\<lambda>rec. case hydrated (rr_recordingMbid rec) of
        None \<Rightarrow> []
      | Some t \<Rightarrow> [makeTrackCandidate u SOURCE_LB_CF (rr_score rec) (tr_title t) (tr_artistName t)
                    (Some (tr_recordingMbid t)) (tr_artistMbid t) (Some LISTENBRAINZ_ATTRIBUTION)]) recs)"

definition madeForYou ::
  "unicode \<Rightarrow> (utext \<Rightarrow> utext \<Rightarrow> real) \<Rightarrow> discovery_ports \<Rightarrow> nat \<Rightarrow> section_outcome" where
  "madeForYou u lc ports limit =
     (case lb_recommendedRecordings (dp_listenbrainz ports) (limit * 2) of
        None \<Rightarrow> failed_with (lit ''listenbrainz'')
      | Some recs \<Rightarrow>
          if recs = [] then nothing
          else case dp_hydrate ports (map rr_recordingMbid recs) of
            None \<Rightarrow> failed_with (lit ''musicbrainz'')
          | Some hydrated \<Rightarrow>
              let items = map toTrackItem (take limit (mergeTracks lc (cf_candidates u hydrated recs)))
              in if items = [] then nothing
                 else \<lparr>so_sections = [\<lparr>fs_kind = Made_For_You, fs_title = lit ''Made for you'',
                                       fs_seed = None, fs_items = items\<rparr>],
                       so_failedProviders = []\<rparr>)"

definition radio_candidate :: "unicode \<Rightarrow> radio_track \<Rightarrow> track_candidate" where
  "radio_candidate u t = makeTrackCandidate u SOURCE_LB_RADIO (rt_similarity t) (rt_recordingName t)
     (rt_artistName t) (Some (rt_recordingMbid t)) (rt_artistMbid t) (Some LISTENBRAINZ_ATTRIBUTION)"

definition similar_track_candidate :: "unicode \<Rightarrow> similar_track \<Rightarrow> track_candidate" where
  "similar_track_candidate u t = makeTrackCandidate u SOURCE_LASTFM_SIMILAR (st_score t) (st_title t)
     (st_artistName t) (st_recordingMbid t) None (Some (lastfmAttribution (st_url t)))"

text \<open>The seeds of \<open>because_you_like\<close>: the top artists that have an MBID.\<close>

definition seeds :: "artist_listen list \<Rightarrow> nat \<Rightarrow> (utext \<times> utext) list" where
  "seeds topArtists seedCount =
     take seedCount (List.map_filter (\<lambda>a. map_option (\<lambda>mbid. (mbid, al_artistName a)) (al_artistMbid a)) topArtists)"

text \<open>The enrichment of one shelf: further candidates, and whether Last.fm failed.\<close>

definition enrich_tracks ::
  "unicode \<Rightarrow> lastfm_port option \<Rightarrow> track_candidate list \<Rightarrow> track_candidate list \<times> bool" where
  "enrich_tracks u lastfm candidates =
     (case (lastfm, candidates) of
        (Some lf, strongest # _) \<Rightarrow>
          (case lf_similarTracks lf (tc_artistName strongest) (tc_title strongest) of
             Some ts \<Rightarrow> (map (similar_track_candidate u) ts, False)
           | None \<Rightarrow> ([], True))
      | _ \<Rightarrow> ([], False))"

text \<open>One turn of the loop over the seeds: the shelves it adds and the providers that failed.\<close>

definition seed_shelf ::
  "unicode \<Rightarrow> (utext \<Rightarrow> utext \<Rightarrow> real) \<Rightarrow> discovery_ports \<Rightarrow> lastfm_port option \<Rightarrow> nat \<Rightarrow> utext \<times> utext
     \<Rightarrow> section_outcome" where
  "seed_shelf u lc ports lastfm limit seed =
     (case lb_artistRadio (dp_listenbrainz ports) (fst seed) of
        None \<Rightarrow> failed_with (lit ''listenbrainz'')
      | Some ts \<Rightarrow>
          let candidates = map (radio_candidate u) ts;
              (more, lastfmFailed) = enrich_tracks u lastfm candidates;
              items = map toTrackItem (take limit (mergeTracks lc (candidates @ more)))
          in \<lparr>so_sections =
                (if items = [] then []
                 else [\<lparr>fs_kind = Because_You_Like, fs_title = lit ''Because you like '' @ snd seed,
                        fs_seed = Some seed, fs_items = items\<rparr>]),
              so_failedProviders = (if lastfmFailed then [lit ''lastfm''] else [])\<rparr>)"

definition becauseYouLike ::
  "unicode \<Rightarrow> (utext \<Rightarrow> utext \<Rightarrow> real) \<Rightarrow> discovery_ports \<Rightarrow> artist_listen list \<Rightarrow> nat \<Rightarrow> nat \<Rightarrow> bool
     \<Rightarrow> section_outcome" where
  "becauseYouLike u lc ports topArtists seedCount limit useLastfm =
     (let lastfm = if useLastfm then dp_lastfm ports else None;
          shelves = map (seed_shelf u lc ports lastfm limit) (seeds topArtists seedCount)
      in \<lparr>so_sections = concat (map so_sections shelves),
          so_failedProviders = foldl (\<lambda>failed p. set_add p failed) [] (concat (map so_failedProviders shelves))\<rparr>)"

definition labs_candidate :: "unicode \<Rightarrow> similar_artist \<Rightarrow> artist_candidate" where
  "labs_candidate u a = makeArtistCandidate u SOURCE_LB_LABS (sa_score a) (sa_name a) (sa_artistMbid a)
     (Some LISTENBRAINZ_ATTRIBUTION)"

definition lastfm_candidate :: "unicode \<Rightarrow> similar_artist \<Rightarrow> artist_candidate" where
  "lastfm_candidate u a = makeArtistCandidate u SOURCE_LASTFM_SIMILAR (sa_score a) (sa_name a)
     (sa_artistMbid a) (Some (lastfmAttribution (sa_url a)))"

definition connections ::
  "unicode \<Rightarrow> (utext \<Rightarrow> utext \<Rightarrow> real) \<Rightarrow> discovery_ports \<Rightarrow> artist_listen list \<Rightarrow> nat \<Rightarrow> bool
     \<Rightarrow> section_outcome option" where
  "connections u lc ports topArtists limit useLastfm =
     (case topArtists of
        [] \<Rightarrow> Some nothing
      | seed # _ \<Rightarrow>
          (case (case al_artistMbid seed of
                   None \<Rightarrow> Some []
                 | Some mbid \<Rightarrow> map_option (map (labs_candidate u)) (lb_similarArtists (dp_listenbrainz ports) mbid)) of
             None \<Rightarrow> None
           | Some labs \<Rightarrow>
               let (more, failed) =
                     (case (if useLastfm then dp_lastfm ports else None) of
                        None \<Rightarrow> ([], [])
                      | Some lf \<Rightarrow>
                          (case lf_similarArtists lf (al_artistName seed) of
                             None \<Rightarrow> ([], [lit ''lastfm''])
                           | Some as \<Rightarrow> (map (lastfm_candidate u) as, [])));
                   items = map artist_item (take limit (mergeArtists lc (labs @ more)))
               in Some (if items = [] then \<lparr>so_sections = [], so_failedProviders = failed\<rparr>
                  else \<lparr>so_sections =
                          [\<lparr>fs_kind = Connections, fs_title = lit ''Artists connected to '' @ al_artistName seed,
                            fs_seed = map_option (\<lambda>mbid. (mbid, al_artistName seed)) (al_artistMbid seed),
                            fs_items = items\<rparr>],
                        so_failedProviders = failed\<rparr>)))"

definition playlist_item :: "playlist_ref \<Rightarrow> feed_item" where
  "playlist_item p = Playlist_Item (pr_identifier p) (pr_title p) (pr_annotation p)
     [SOURCE_LB_PLAYLIST] [LISTENBRAINZ_ATTRIBUTION]"

definition dailyMix :: "discovery_ports \<Rightarrow> section_outcome" where
  "dailyMix ports =
     (case lb_createdForPlaylists (dp_listenbrainz ports) of
        None \<Rightarrow> failed_with (lit ''listenbrainz'')
      | Some playlists \<Rightarrow>
          if playlists = [] then nothing
          else \<lparr>so_sections = [\<lparr>fs_kind = Daily_Mix, fs_title = lit ''Your mixes'', fs_seed = None,
                                fs_items = map playlist_item playlists\<rparr>],
                so_failedProviders = []\<rparr>)"

subsection \<open>The feed\<close>

definition add_attribution :: "(utext \<times> attribution) list \<Rightarrow> attribution \<Rightarrow> (utext \<times> attribution) list" where
  "add_attribution m link =
     (if at_source link \<in> fst ` set m then m
      else m @ [(at_source link, \<lparr>at_source = at_source link, at_text = at_text link, at_url = None\<rparr>)])"

definition collectAttribution ::
  "(utext \<Rightarrow> utext \<Rightarrow> real) \<Rightarrow> feed_section list \<Rightarrow> attribution list" where
  "collectAttribution lc sections =
     js_sort (\<lambda>a b. lc (at_source a) (at_source b))
       (map snd (foldl add_attribution []
          (concat (map fi_attribution (concat (map fs_items sections))))))"

text \<open>One turn of the loop over the settled builders.\<close>

definition settle ::
  "feed_section list \<times> utext list \<Rightarrow> section_outcome option \<Rightarrow> feed_section list \<times> utext list" where
  "settle acc result =
     (case result of
        None \<Rightarrow> (fst acc, set_add (lit ''unknown'') (snd acc))
      | Some out \<Rightarrow> (fst acc @ so_sections out,
                    foldl (\<lambda>un p. set_add p un) (snd acc) (so_failedProviders out)))"

definition buildFeed ::
  "unicode \<Rightarrow> (utext \<Rightarrow> utext \<Rightarrow> real) \<Rightarrow> discovery_ports \<Rightarrow> blend_options \<Rightarrow> sections_envelope" where
  "buildFeed u lc ports opts =
     (let limit = orelse (bo_limit opts) 20;
          seedCount = orelse (bo_seedArtists opts) 2;
          useLastfm = (bo_enableLastfm opts \<noteq> Some False \<and> dp_lastfm ports \<noteq> None);
          answer = lb_topArtists (dp_listenbrainz ports) (max seedCount 5);
          topArtists = orelse answer [];
          builders =
            [Some (madeForYou u lc ports limit),
             Some (becauseYouLike u lc ports topArtists seedCount limit useLastfm),
             connections u lc ports topArtists limit useLastfm,
             Some (dailyMix ports)];
          (sections, unavailable) =
            foldl settle ([], if answer = None then [lit ''listenbrainz''] else []) builders
      in \<lparr>se_sections = sections, se_cursor = None, se_degraded = (0 < length unavailable),
          se_unavailableProviders = js_sort code_units unavailable,
          se_attribution = collectAttribution lc sections\<rparr>)"

subsection \<open>The feed, shelf by shelf\<close>

lemma foldl_set_add [simp]:
  "set (foldl (\<lambda>un p. set_add p un) xs ps) = set xs \<union> set ps"
  "distinct (foldl (\<lambda>un p. set_add p un) xs ps) = distinct xs"
  by (induction ps arbitrary: xs) auto

definition bo_items :: "blend_options \<Rightarrow> nat" where
  "bo_items opts = orelse (bo_limit opts) 20"

definition bo_seeds :: "blend_options \<Rightarrow> nat" where
  "bo_seeds opts = orelse (bo_seedArtists opts) 2"

text \<open>The Last.fm port a feed uses, if any.\<close>

definition used_lastfm :: "discovery_ports \<Rightarrow> blend_options \<Rightarrow> lastfm_port option" where
  "used_lastfm ports opts = (if bo_enableLastfm opts = Some False then None else dp_lastfm ports)"

definition top_answer :: "discovery_ports \<Rightarrow> blend_options \<Rightarrow> artist_listen list option" where
  "top_answer ports opts = lb_topArtists (dp_listenbrainz ports) (max (bo_seeds opts) 5)"

definition made_shelf where
  "made_shelf u lc ports opts = madeForYou u lc ports (bo_items opts)"

definition like_shelves where
  "like_shelves u lc ports opts =
     map (seed_shelf u lc ports (used_lastfm ports opts) (bo_items opts))
       (seeds (orelse (top_answer ports opts) []) (bo_seeds opts))"

definition connections_shelf where
  "connections_shelf u lc ports opts =
     connections u lc ports (orelse (top_answer ports opts) []) (bo_items opts) (used_lastfm ports opts \<noteq> None)"

lemmas shelf_defs = made_shelf_def like_shelves_def connections_shelf_def bo_items_def bo_seeds_def
  used_lastfm_def top_answer_def

lemma feed_sections:
  "se_sections (buildFeed u lc ports opts) =
     so_sections (made_shelf u lc ports opts) @ concat (map so_sections (like_shelves u lc ports opts)) @
     (case connections_shelf u lc ports opts of None \<Rightarrow> [] | Some out \<Rightarrow> so_sections out) @
     so_sections (dailyMix ports)"
  by (auto simp: buildFeed_def settle_def shelf_defs becauseYouLike_def Let_def split: option.splits)

lemma feed_unavailable:
  "set (se_unavailableProviders (buildFeed u lc ports opts)) =
     (if top_answer ports opts = None then {lit ''listenbrainz''} else {}) \<union>
     set (so_failedProviders (made_shelf u lc ports opts)) \<union>
     (\<Union>s \<in> set (like_shelves u lc ports opts). set (so_failedProviders s)) \<union>
     (case connections_shelf u lc ports opts of None \<Rightarrow> {lit ''unknown''} | Some out \<Rightarrow> set (so_failedProviders out)) \<union>
     set (so_failedProviders (dailyMix ports))"
  by (auto simp: buildFeed_def settle_def shelf_defs becauseYouLike_def Let_def split: option.splits)

lemma feed_degraded:
  "se_degraded (buildFeed u lc ports opts) \<longleftrightarrow> se_unavailableProviders (buildFeed u lc ports opts) \<noteq> []"
  by (simp add: buildFeed_def Let_def case_prod_unfold flip: length_greater_0_conv)

lemma feed_unavailable_distinct: "distinct (se_unavailableProviders (buildFeed u lc ports opts))"
  by (simp add: buildFeed_def settle_def Let_def case_prod_unfold split: option.splits)

lemma feed_attribution:
  "se_attribution (buildFeed u lc ports opts) = collectAttribution lc (se_sections (buildFeed u lc ports opts))"
  by (simp add: buildFeed_def Let_def case_prod_unfold)

subsection \<open>Every shelf is full and attributed\<close>

definition attributed :: "feed_item \<Rightarrow> bool" where
  "attributed i \<longleftrightarrow> fi_attribution i \<noteq> [] \<and> distinct (map link_key (fi_attribution i)) \<and> fi_sources i \<noteq> []"

definition shelf_ok :: "nat \<Rightarrow> feed_section \<Rightarrow> bool" where
  "shelf_ok limit s \<longleftrightarrow> fs_items s \<noteq> [] \<and> list_all attributed (fs_items s) \<and>
     (fs_kind s = Daily_Mix \<or> length (fs_items s) \<le> limit)"

lemma group_nonempty:
  assumes "m \<in> set (mergeTracks lc cs)"
  shows "\<exists>c \<in> set cs. c \<in> set (group tc_identity cs (mt_identity m))"
  using track_from_group(8) [OF assms] by (auto simp: group_def)

lemma track_item_attributed:
  assumes "m \<in> set (mergeTracks lc cs)" "\<forall>c \<in> set cs. tc_attribution c \<noteq> None"
  shows "attributed (toTrackItem m)"
proof -
  obtain c where c: "c \<in> set cs" "c \<in> set (group tc_identity cs (mt_identity m))"
    using group_nonempty [OF assms(1)] by blast
  then obtain a where "tc_attribution c = Some a" using assms(2) by auto
  with c have "link_key a \<in> link_key ` set (mt_attribution m)"
    unfolding track_from_group(4) [OF assms(1)] by force
  moreover have "tc_source c \<in> set (mt_sources m)" unfolding track_from_group(2) [OF assms(1)] using c by simp
  ultimately show ?thesis using track_from_group(6) [OF assms(1)] by (auto simp: attributed_def toTrackItem_def)
qed

lemma artist_item_attributed:
  assumes "m \<in> set (mergeArtists lc cs)" "\<forall>c \<in> set cs. ac_attribution c \<noteq> None"
  shows "attributed (artist_item m)"
proof -
  obtain k e where "gathered artist_start artist_join (group ac_identity cs k) = Some e" "m = artist_out (k, e)"
    using assms(1) unfolding mem_mergeArtists by blast
  then have "group ac_identity cs (ma_identity m) \<noteq> []" by auto
  then obtain c where c: "c \<in> set cs" "c \<in> set (group ac_identity cs (ma_identity m))"
    unfolding group_def filter_empty_conv by auto
  then obtain a where "ac_attribution c = Some a" using assms(2) by auto
  with c have "link_key a \<in> link_key ` set (ma_attribution m)"
    unfolding artist_from_group(4) [OF assms(1)] by force
  moreover have "ac_source c \<in> set (ma_sources m)" unfolding artist_from_group(2) [OF assms(1)] using c by simp
  ultimately show ?thesis using artist_from_group(6) [OF assms(1)] by (auto simp: attributed_def artist_item_def)
qed

lemma candidates_attributed [simp]:
  "tc_attribution (radio_candidate u t) = Some LISTENBRAINZ_ATTRIBUTION"
  "tc_attribution (similar_track_candidate u s) = Some (lastfmAttribution (st_url s))"
  "ac_attribution (labs_candidate u a) = Some LISTENBRAINZ_ATTRIBUTION"
  "ac_attribution (lastfm_candidate u a) = Some (lastfmAttribution (sa_url a))"
  by (simp_all add: radio_candidate_def similar_track_candidate_def makeTrackCandidate_def
      labs_candidate_def lastfm_candidate_def makeArtistCandidate_def)

lemma cf_candidates_attributed: "c \<in> set (cf_candidates u h recs) \<Longrightarrow> tc_attribution c \<noteq> None"
  by (auto simp: cf_candidates_def makeTrackCandidate_def split: option.splits)

lemma enrich_attributed: "c \<in> set (fst (enrich_tracks u lf cs)) \<Longrightarrow> tc_attribution c \<noteq> None"
  by (auto simp: enrich_tracks_def split: option.splits list.splits)

lemma track_items_ok:
  assumes "\<forall>c \<in> set cs. tc_attribution c \<noteq> None"
  shows "list_all attributed (map toTrackItem (take n (mergeTracks lc cs)))"
  using assms by (auto simp: list_all_iff dest!: in_set_takeD intro: track_item_attributed)

lemma made_ok: "s \<in> set (so_sections (made_shelf u lc ports opts)) \<Longrightarrow> shelf_ok (bo_items opts) s \<and> fs_kind s = Made_For_You"
  using track_items_ok [of "cf_candidates u h recs" "bo_items opts" lc for h recs]
  by (auto simp: made_shelf_def madeForYou_def shelf_ok_def failed_with_def nothing_def Let_def
      cf_candidates_attributed simp del: not_None_eq split: option.splits if_splits)


lemma like_ok:
  assumes "out \<in> set (like_shelves u lc ports opts)" "s \<in> set (so_sections out)"
  shows "shelf_ok (bo_items opts) s \<and> fs_kind s = Because_You_Like"
proof -
  have "list_all attributed (map toTrackItem (take (bo_items opts)
      (mergeTracks lc (map (radio_candidate u) ts @ fst (enrich_tracks u lf (map (radio_candidate u) ts))))))" for ts lf
    by (rule track_items_ok) (auto dest: enrich_attributed)
  with assms show ?thesis
    by (auto simp: like_shelves_def seed_shelf_def shelf_ok_def failed_with_def Let_def case_prod_unfold
        split: option.splits if_splits)
qed

lemma artist_items_ok:
  assumes "\<forall>c \<in> set cs. ac_attribution c \<noteq> None"
  shows "list_all attributed (map artist_item (take n (mergeArtists lc cs)))"
  using assms by (auto simp: list_all_iff dest!: in_set_takeD intro: artist_item_attributed)

lemma connections_ok:
  assumes "connections_shelf u lc ports opts = Some out" "s \<in> set (so_sections out)"
  shows "shelf_ok (bo_items opts) s \<and> fs_kind s = Connections"
proof -
  have "list_all attributed (map artist_item (take (bo_items opts)
      (mergeArtists lc (map (labs_candidate u) as @ map (lastfm_candidate u) bs))))" for as bs
    by (rule artist_items_ok) auto
  from this [of _ "[]"] this [of "[]"] this [of "[]" "[]"] this show ?thesis using assms
    by (auto simp: connections_shelf_def connections_def shelf_ok_def nothing_def Let_def
        split: option.splits if_splits list.splits)
qed

lemma daily_ok:
  "s \<in> set (so_sections (dailyMix ports)) \<Longrightarrow> shelf_ok n s \<and> fs_kind s = Daily_Mix"
  by (auto simp: dailyMix_def shelf_ok_def failed_with_def nothing_def attributed_def playlist_item_def
      list_all_iff split: option.splits if_splits)

lemma feed_shelves_ok: "s \<in> set (se_sections (buildFeed u lc ports opts)) \<Longrightarrow> shelf_ok (bo_items opts) s"
  unfolding feed_sections
  by (auto dest: made_ok like_ok connections_ok [OF sym] connections_ok daily_ok [of _ _ "bo_items opts"] split: option.splits)

subsection \<open>Attribution\<close>

lemma add_attribution_keys:
  "map fst (add_attribution m a) = (if at_source a \<in> fst ` set m then map fst m else map fst m @ [at_source a])"
  by (simp add: add_attribution_def)

lemma collected:
  "fst ` set (foldl add_attribution [] as) = at_source ` set as \<and>
   distinct (map fst (foldl add_attribution [] as)) \<and>
   (\<forall>p \<in> set (foldl add_attribution [] as). at_source (snd p) = fst p)"
proof (induction as rule: rev_induct)
  case (snoc a as)
  then show ?case
    by (auto simp: add_attribution_def)
qed simp

lemma collectAttribution_sources:
  "at_source ` set (collectAttribution lc ss) =
     at_source ` (\<Union>s \<in> set ss. \<Union>i \<in> set (fs_items s). set (fi_attribution i))"
  "distinct (map at_source (collectAttribution lc ss))"
proof -
  let ?as = "concat (map fi_attribution (concat (map fs_items ss)))"
  let ?m = "foldl add_attribution [] ?as"
  have flat: "set ?as = (\<Union>s \<in> set ss. \<Union>i \<in> set (fs_items s). set (fi_attribution i))" by auto
  have eq: "map (\<lambda>p. at_source (snd p)) ?m = map fst ?m" using collected [of ?as] by simp
  then have "at_source ` snd ` set ?m = fst ` set ?m"
    by (metis (no_types, lifting) image_image list.set_map map_eq_conv image_cong)
  then show "at_source ` set (collectAttribution lc ss) =
     at_source ` (\<Union>s \<in> set ss. \<Union>i \<in> set (fs_items s). set (fi_attribution i))"
    using collected [of ?as] unfolding flat collectAttribution_def by (simp add: image_image)
  show "distinct (map at_source (collectAttribution lc ss))"
  proof -
    have "distinct (map (\<lambda>p. at_source (snd p)) ?m)" unfolding eq using collected [of ?as] by blast
    then show ?thesis by (simp add: collectAttribution_def comp_def)
  qed
qed

text \<open>Whatever the ports answer, a feed has no empty shelf, no shelf but the daily mixes holds
  more than the requested number of items, every item names a source and carries an
  attribution link, and the envelope acknowledges exactly the providers of these links, each
  once.\<close>

theorem feed_is_attributed:
  "list_all (shelf_ok (orelse (bo_limit opts) 20)) (se_sections (buildFeed u lc ports opts)) \<and>
   distinct (map at_source (se_attribution (buildFeed u lc ports opts))) \<and>
   at_source ` set (se_attribution (buildFeed u lc ports opts)) =
     at_source ` (\<Union>s \<in> set (se_sections (buildFeed u lc ports opts)).
       \<Union>i \<in> set (fs_items s). set (fi_attribution i))"
  using feed_shelves_ok [of _ u lc ports opts]
  by (simp add: list_all_iff feed_attribution collectAttribution_sources bo_items_def)

subsection \<open>What a failure costs\<close>

text \<open>A feed is always built. It is degraded exactly when a provider is reported, and a provider
  is reported exactly when one of its calls that the feed needed was rejected.\<close>

theorem feed_reports_failures:
  "let f = buildFeed u lc ports opts; lb = dp_listenbrainz ports;
       top = orelse (top_answer ports opts) []; mine = seeds top (bo_seeds opts);
       recs = lb_recommendedRecordings lb (bo_items opts * 2)
   in (se_degraded f \<longleftrightarrow> se_unavailableProviders f \<noteq> []) \<and>
      (lit ''listenbrainz'' \<in> set (se_unavailableProviders f) \<longleftrightarrow>
         top_answer ports opts = None \<or> recs = None \<or> lb_createdForPlaylists lb = None \<or>
         (\<exists>s \<in> set mine. lb_artistRadio lb (fst s) = None)) \<and>
      (lit ''musicbrainz'' \<in> set (se_unavailableProviders f) \<longleftrightarrow>
         (\<exists>rs. recs = Some rs \<and> rs \<noteq> [] \<and> dp_hydrate ports (map rr_recordingMbid rs) = None)) \<and>
      (lit ''unknown'' \<in> set (se_unavailableProviders f) \<longleftrightarrow>
         (\<exists>a mbid. top \<noteq> [] \<and> hd top = a \<and> al_artistMbid a = Some mbid \<and> lb_similarArtists lb mbid = None))"
proof -
  have made: "set (so_failedProviders (made_shelf u lc ports opts)) =
      (case lb_recommendedRecordings (dp_listenbrainz ports) (bo_items opts * 2) of
         None \<Rightarrow> {lit ''listenbrainz''}
       | Some rs \<Rightarrow> if rs \<noteq> [] \<and> dp_hydrate ports (map rr_recordingMbid rs) = None then {lit ''musicbrainz''} else {})"
    by (auto simp: made_shelf_def madeForYou_def failed_with_def nothing_def Let_def split: option.splits)
  have like: "set (so_failedProviders (seed_shelf u lc ports lf n s)) \<subseteq> {lit ''listenbrainz'', lit ''lastfm''} \<and>
      (lit ''listenbrainz'' \<in> set (so_failedProviders (seed_shelf u lc ports lf n s)) \<longleftrightarrow>
       lb_artistRadio (dp_listenbrainz ports) (fst s) = None)" for lf n s
    by (auto simp: seed_shelf_def failed_with_def Let_def case_prod_unfold split: option.splits)
  have daily: "set (so_failedProviders (dailyMix ports)) =
      (if lb_createdForPlaylists (dp_listenbrainz ports) = None then {lit ''listenbrainz''} else {})"
    by (auto simp: dailyMix_def failed_with_def nothing_def split: option.splits)
  have conn: "out \<in> set_option (connections_shelf u lc ports opts) \<Longrightarrow> set (so_failedProviders out) \<subseteq> {lit ''lastfm''}" for out
    by (auto simp: connections_shelf_def connections_def nothing_def Let_def
        split: option.splits if_splits list.splits)
  have lost: "connections_shelf u lc ports opts = None \<longleftrightarrow>
      (\<exists>a mbid. orelse (top_answer ports opts) [] \<noteq> [] \<and> hd (orelse (top_answer ports opts) []) = a \<and>
        al_artistMbid a = Some mbid \<and> lb_similarArtists (dp_listenbrainz ports) mbid = None)"
    by (cases "orelse (top_answer ports opts) []")
      (auto simp: connections_shelf_def connections_def Let_def split: option.splits prod.splits)
  define L where "L = (\<Union>s \<in> set (like_shelves u lc ports opts). set (so_failedProviders s))"
  define C where "C = (case connections_shelf u lc ports opts of None \<Rightarrow> {lit ''unknown''}
    | Some out \<Rightarrow> set (so_failedProviders out))"
  have L: "L \<subseteq> {lit ''listenbrainz'', lit ''lastfm''}" "lit ''listenbrainz'' \<in> L \<longleftrightarrow>
      (\<exists>s \<in> set (seeds (orelse (top_answer ports opts) []) (bo_seeds opts)).
        lb_artistRadio (dp_listenbrainz ports) (fst s) = None)"
    using like by (fastforce simp: L_def like_shelves_def)+
  have C: "C \<subseteq> {lit ''unknown'', lit ''lastfm''}" "lit ''unknown'' \<in> C \<longleftrightarrow> connections_shelf u lc ports opts = None"
    using conn by (auto simp: C_def split: option.splits)
  have U: "set (se_unavailableProviders (buildFeed u lc ports opts)) =
      (if top_answer ports opts = None then {lit ''listenbrainz''} else {}) \<union>
      set (so_failedProviders (made_shelf u lc ports opts)) \<union> L \<union> C \<union> set (so_failedProviders (dailyMix ports))"
    unfolding feed_unavailable L_def C_def by simp
  have lb: "lit ''listenbrainz'' \<in> set (se_unavailableProviders (buildFeed u lc ports opts)) \<longleftrightarrow>
      top_answer ports opts = None \<or> lb_recommendedRecordings (dp_listenbrainz ports) (bo_items opts * 2) = None \<or>
      lb_createdForPlaylists (dp_listenbrainz ports) = None \<or> lit ''listenbrainz'' \<in> L"
    unfolding U made daily using C(1) by (auto split: option.splits if_splits)
  have mb: "lit ''musicbrainz'' \<in> set (se_unavailableProviders (buildFeed u lc ports opts)) \<longleftrightarrow>
      lit ''musicbrainz'' \<in> set (so_failedProviders (made_shelf u lc ports opts))"
    unfolding U daily using C(1) L(1) by auto
  have un: "lit ''unknown'' \<in> set (se_unavailableProviders (buildFeed u lc ports opts)) \<longleftrightarrow> lit ''unknown'' \<in> C"
    unfolding U made daily using L(1) by (auto split: option.splits if_splits)
  show ?thesis
    unfolding Let_def feed_degraded lb mb un L(2) C(2) lost made by (auto split: option.splits)
qed

text \<open>The shelves of the other kinds.\<close>

definition other_shelves :: "section_kind \<Rightarrow> sections_envelope \<Rightarrow> feed_section list" where
  "other_shelves k f = filter (\<lambda>s. fs_kind s \<noteq> k) (se_sections f)"

lemma filter_kind:
  "\<forall>s \<in> set ss. fs_kind s = j \<Longrightarrow> filter (\<lambda>s. fs_kind s \<noteq> k) ss = (if j = k then [] else ss)"
  by (induction ss) auto

lemma other_shelves_parts:
  "other_shelves k (buildFeed u lc ports opts) =
     (if Made_For_You = k then [] else so_sections (made_shelf u lc ports opts)) @
     (if Because_You_Like = k then [] else concat (map so_sections (like_shelves u lc ports opts))) @
     (if Connections = k then []
      else case connections_shelf u lc ports opts of None \<Rightarrow> [] | Some out \<Rightarrow> so_sections out) @
     (if Daily_Mix = k then [] else so_sections (dailyMix ports))"
proof -
  have 1: "\<forall>s \<in> set (so_sections (made_shelf u lc ports opts)). fs_kind s = Made_For_You"
    using made_ok by blast
  have 2: "\<forall>s \<in> set (concat (map so_sections (like_shelves u lc ports opts))). fs_kind s = Because_You_Like"
    using like_ok by force
  have 3: "\<forall>s \<in> set (case connections_shelf u lc ports opts of None \<Rightarrow> [] | Some out \<Rightarrow> so_sections out).
      fs_kind s = Connections"
    using connections_ok by (force split: option.splits)
  have 4: "\<forall>s \<in> set (so_sections (dailyMix ports)). fs_kind s = Daily_Mix"
    using daily_ok by blast
  show ?thesis
    unfolding other_shelves_def feed_sections filter_append
      filter_kind [OF 1] filter_kind [OF 2] filter_kind [OF 3] filter_kind [OF 4] ..
qed

lemma madeForYou_cong:
  assumes "lb_recommendedRecordings (dp_listenbrainz p) = lb_recommendedRecordings (dp_listenbrainz q)"
    and "dp_hydrate p = dp_hydrate q"
  shows "madeForYou u lc p n = madeForYou u lc q n"
  unfolding madeForYou_def assms ..

lemma made_shelf_cong:
  assumes "lb_recommendedRecordings (dp_listenbrainz p) = lb_recommendedRecordings (dp_listenbrainz q)"
    and "dp_hydrate p = dp_hydrate q"
  shows "made_shelf u lc p opts = made_shelf u lc q opts"
  unfolding made_shelf_def by (rule madeForYou_cong [OF assms])

lemma like_shelves_cong:
  assumes "lb_artistRadio (dp_listenbrainz p) = lb_artistRadio (dp_listenbrainz q)"
    and "lb_topArtists (dp_listenbrainz p) = lb_topArtists (dp_listenbrainz q)"
    and "dp_lastfm p = dp_lastfm q"
  shows "like_shelves u lc p opts = like_shelves u lc q opts"
  unfolding like_shelves_def used_lastfm_def top_answer_def seed_shelf_def assms ..

lemma connections_shelf_cong:
  assumes "lb_similarArtists (dp_listenbrainz p) = lb_similarArtists (dp_listenbrainz q)"
    and "lb_topArtists (dp_listenbrainz p) = lb_topArtists (dp_listenbrainz q)"
    and "dp_lastfm p = dp_lastfm q"
  shows "connections_shelf u lc p opts = connections_shelf u lc q opts"
  unfolding connections_shelf_def used_lastfm_def top_answer_def connections_def assms ..

lemma dailyMix_cong:
  "lb_createdForPlaylists (dp_listenbrainz p) = lb_createdForPlaylists (dp_listenbrainz q) \<Longrightarrow> dailyMix p = dailyMix q"
  by (simp add: dailyMix_def)

lemma other_shelves_cong:
  assumes "k \<noteq> Made_For_You \<Longrightarrow> made_shelf u lc p opts = made_shelf u lc q opts"
    and "k \<noteq> Because_You_Like \<Longrightarrow> like_shelves u lc p opts = like_shelves u lc q opts"
    and "k \<noteq> Connections \<Longrightarrow> connections_shelf u lc p opts = connections_shelf u lc q opts"
    and "k \<noteq> Daily_Mix \<Longrightarrow> dailyMix p = dailyMix q"
  shows "other_shelves k (buildFeed u lc p opts) = other_shelves k (buildFeed u lc q opts)"
  unfolding other_shelves_parts using assms by auto

lemmas shelf_congs = made_shelf_cong like_shelves_cong connections_shelf_cong dailyMix_cong

text \<open>Each port feeds its own shelf: whatever a port answers, or that it fails, the shelves of
  the other kinds are the same.\<close>

theorem one_port_one_shelf:
  "other_shelves Made_For_You (buildFeed u lc
       (ports\<lparr>dp_hydrate := h, dp_listenbrainz := dp_listenbrainz ports\<lparr>lb_recommendedRecordings := r\<rparr>\<rparr>) opts) =
     other_shelves Made_For_You (buildFeed u lc ports opts) \<and>
   other_shelves Because_You_Like (buildFeed u lc
       (ports\<lparr>dp_listenbrainz := dp_listenbrainz ports\<lparr>lb_artistRadio := a\<rparr>\<rparr>) opts) =
     other_shelves Because_You_Like (buildFeed u lc ports opts) \<and>
   other_shelves Connections (buildFeed u lc
       (ports\<lparr>dp_listenbrainz := dp_listenbrainz ports\<lparr>lb_similarArtists := l\<rparr>\<rparr>) opts) =
     other_shelves Connections (buildFeed u lc ports opts) \<and>
   other_shelves Daily_Mix (buildFeed u lc
       (ports\<lparr>dp_listenbrainz := dp_listenbrainz ports\<lparr>lb_createdForPlaylists := d\<rparr>\<rparr>) opts) =
     other_shelves Daily_Mix (buildFeed u lc ports opts)"
  by (intro conjI; rule other_shelves_cong; rule shelf_congs) simp_all

subsection \<open>Last.fm can be switched off\<close>

definition dead_lastfm :: lastfm_port where
  "dead_lastfm = \<lparr>lf_similarArtists = (\<lambda>_. None), lf_similarTracks = (\<lambda>_ _. None)\<rparr>"

definition lb_only :: "feed_section \<Rightarrow> bool" where
  "lb_only s \<longleftrightarrow> (\<forall>i \<in> set (fs_items s). \<forall>a \<in> set (fi_attribution i). at_source a = lit ''listenbrainz'')"

lemma lb_source [simp]: "at_source LISTENBRAINZ_ATTRIBUTION = lit ''listenbrainz''"
  by (simp add: LISTENBRAINZ_ATTRIBUTION_def)

lemma track_items_lb_only:
  assumes "\<forall>c \<in> set cs. tc_attribution c = Some LISTENBRAINZ_ATTRIBUTION"
    and "i \<in> set (map toTrackItem (take n (mergeTracks lc cs)))" "a \<in> set (fi_attribution i)"
  shows "at_source a = lit ''listenbrainz''"
proof -
  obtain m where m: "m \<in> set (mergeTracks lc cs)" "i = toTrackItem m"
    using assms(2) by (auto dest: in_set_takeD)
  then have "a \<in> (\<Union>c \<in> set (group tc_identity cs (mt_identity m)). set_option (tc_attribution c))"
    using track_from_group(5) [OF m(1)] assms(3) by (auto simp: toTrackItem_def)
  then obtain c where "c \<in> set cs" "a \<in> set_option (tc_attribution c)"
    by (elim UN_E) (auto simp: group_def)
  with assms(1) show ?thesis by auto
qed

lemma artist_items_lb_only:
  assumes "\<forall>c \<in> set cs. ac_attribution c = Some LISTENBRAINZ_ATTRIBUTION"
    and "i \<in> set (map artist_item (take n (mergeArtists lc cs)))" "a \<in> set (fi_attribution i)"
  shows "at_source a = lit ''listenbrainz''"
proof -
  obtain m where m: "m \<in> set (mergeArtists lc cs)" "i = artist_item m"
    using assms(2) by (auto dest: in_set_takeD)
  then have "a \<in> (\<Union>c \<in> set (group ac_identity cs (ma_identity m)). set_option (ac_attribution c))"
    using artist_from_group(5) [OF m(1)] assms(3) by (auto simp: artist_item_def)
  then obtain c where "c \<in> set cs" "a \<in> set_option (ac_attribution c)"
    by (elim UN_E) (auto simp: group_def)
  with assms(1) show ?thesis by auto
qed

lemma made_lb_only: "s \<in> set (so_sections (made_shelf u lc p opts)) \<Longrightarrow> lb_only s"
  unfolding lb_only_def
proof (intro ballI)
  fix i a assume s: "s \<in> set (so_sections (made_shelf u lc p opts))" and i: "i \<in> set (fs_items s)"
    and a: "a \<in> set (fi_attribution i)"
  then obtain h recs where "i \<in> set (map toTrackItem (take (bo_items opts) (mergeTracks lc (cf_candidates u h recs))))"
    by (auto simp: made_shelf_def madeForYou_def failed_with_def nothing_def Let_def split: option.splits if_splits)
  then show "at_source a = lit ''listenbrainz''"
    by (rule track_items_lb_only [OF _ _ a, rotated])
      (auto simp: cf_candidates_def makeTrackCandidate_def split: option.splits)
qed

lemma seed_lb_only: "s \<in> set (so_sections (seed_shelf u lc p None n seed)) \<Longrightarrow> lb_only s"
  unfolding lb_only_def
proof (intro ballI)
  fix i a assume s: "s \<in> set (so_sections (seed_shelf u lc p None n seed))" and i: "i \<in> set (fs_items s)"
    and a: "a \<in> set (fi_attribution i)"
  then obtain ts where "i \<in> set (map toTrackItem (take n (mergeTracks lc (map (radio_candidate u) ts))))"
    by (auto simp: seed_shelf_def failed_with_def enrich_tracks_def Let_def split: option.splits if_splits)
  then show "at_source a = lit ''listenbrainz''"
    by (rule track_items_lb_only [OF _ _ a, rotated]) auto
qed

lemma connections_lb_only:
  assumes "connections u lc p as n False = Some out" "s \<in> set (so_sections out)"
  shows "lb_only s"
  unfolding lb_only_def
proof (intro ballI)
  fix i a assume i: "i \<in> set (fs_items s)" and a: "a \<in> set (fi_attribution i)"
  with assms obtain ls where "i \<in> set (map artist_item (take n (mergeArtists lc (map (labs_candidate u) ls))))"
    by (force simp: connections_def nothing_def Let_def split: option.splits if_splits list.splits
        intro: that [of "[]"] that)
  then show "at_source a = lit ''listenbrainz''"
    by (rule artist_items_lb_only [OF _ _ a, rotated]) auto
qed

lemma daily_lb_only: "s \<in> set (so_sections (dailyMix p)) \<Longrightarrow> lb_only s"
  by (auto simp: dailyMix_def failed_with_def nothing_def lb_only_def playlist_item_def split: option.splits if_splits)

lemma feed_lb_only:
  "used_lastfm p opts = None \<Longrightarrow> s \<in> set (se_sections (buildFeed u lc p opts)) \<Longrightarrow> lb_only s"
  unfolding feed_sections like_shelves_def connections_shelf_def
  by (auto split: option.splits dest: made_lb_only seed_lb_only daily_lb_only connections_lb_only [OF sym]
      connections_lb_only)

lemma dead_seed_shelf:
  "so_sections (seed_shelf u lc p (Some dead_lastfm) n s) = so_sections (seed_shelf u lc p None n s)"
  by (auto simp: seed_shelf_def enrich_tracks_def dead_lastfm_def Let_def split: option.splits list.splits)

lemma seed_shelf_lastfm: "seed_shelf u lc (p\<lparr>dp_lastfm := x\<rparr>) = seed_shelf u lc p"
  by (intro ext) (simp add: seed_shelf_def)

lemma dead_connections:
  "map_option so_sections (connections u lc (p\<lparr>dp_lastfm := Some dead_lastfm\<rparr>) as n b) =
     map_option so_sections (connections u lc (p\<lparr>dp_lastfm := None\<rparr>) as n c)"
  by (auto simp: connections_def dead_lastfm_def Let_def split: option.splits list.splits)

lemma option_sections:
  "(case x of None \<Rightarrow> [] | Some out \<Rightarrow> so_sections out) = orelse (map_option so_sections x) []"
  by (cases x) simp_all

lemma made_no_lastfm: "made_shelf u lc (p\<lparr>dp_lastfm := x\<rparr>) opts = made_shelf u lc p opts"
  by (rule made_shelf_cong) simp_all

lemma daily_no_lastfm: "dailyMix (p\<lparr>dp_lastfm := x\<rparr>) = dailyMix p"
  by (rule dailyMix_cong) simp

lemma lastfm_update: "dp_listenbrainz (p\<lparr>dp_lastfm := x\<rparr>) = dp_listenbrainz p"
  by simp

lemma feed_switched_off:
  assumes "bo_enableLastfm opts = Some False"
  shows "buildFeed u lc p opts = buildFeed u lc (p\<lparr>dp_lastfm := x\<rparr>) opts"
proof -
  have "madeForYou u lc (p\<lparr>dp_lastfm := x\<rparr>) n = madeForYou u lc p n" for n
    by (rule madeForYou_cong) simp_all
  moreover have "becauseYouLike u lc (p\<lparr>dp_lastfm := x\<rparr>) as k n False = becauseYouLike u lc p as k n False" for as k n
    by (simp add: becauseYouLike_def seed_shelf_def [abs_def])
  moreover have "connections u lc (p\<lparr>dp_lastfm := x\<rparr>) as n False = connections u lc p as n False" for as n
    unfolding connections_def lastfm_update if_False ..
  ultimately show ?thesis using assms by (simp add: buildFeed_def daily_no_lastfm)
qed

text \<open>Last.fm is thin enrichment. Switched off by the option, it is not asked: the feed does not
  depend on the port and is the feed of a deployment without one; such a feed credits no
  provider but ListenBrainz. While Last.fm is down every call to it fails, and the shelves are
  those of a deployment without it.\<close>

theorem lastfm_removable:
  "buildFeed u lc ports (opts\<lparr>bo_enableLastfm := Some False\<rparr>) =
     buildFeed u lc (ports\<lparr>dp_lastfm := None\<rparr>) (opts\<lparr>bo_enableLastfm := Some False\<rparr>) \<and>
   at_source ` set (se_attribution (buildFeed u lc (ports\<lparr>dp_lastfm := None\<rparr>) opts)) \<subseteq> {lit ''listenbrainz''} \<and>
   se_sections (buildFeed u lc (ports\<lparr>dp_lastfm := Some dead_lastfm\<rparr>) opts) =
     se_sections (buildFeed u lc (ports\<lparr>dp_lastfm := None\<rparr>) opts)"
proof (intro conjI)
  show "buildFeed u lc ports (opts\<lparr>bo_enableLastfm := Some False\<rparr>) =
     buildFeed u lc (ports\<lparr>dp_lastfm := None\<rparr>) (opts\<lparr>bo_enableLastfm := Some False\<rparr>)"
    by (rule feed_switched_off) simp
  show "at_source ` set (se_attribution (buildFeed u lc (ports\<lparr>dp_lastfm := None\<rparr>) opts)) \<subseteq> {lit ''listenbrainz''}"
    unfolding feed_attribution collectAttribution_sources
    using feed_lb_only [of "ports\<lparr>dp_lastfm := None\<rparr>" opts _ u lc]
    by (auto simp: lb_only_def used_lastfm_def)
  show "se_sections (buildFeed u lc (ports\<lparr>dp_lastfm := Some dead_lastfm\<rparr>) opts) =
     se_sections (buildFeed u lc (ports\<lparr>dp_lastfm := None\<rparr>) opts)"
    unfolding feed_sections made_no_lastfm daily_no_lastfm like_shelves_def connections_shelf_def top_answer_def
      option_sections dead_connections [of u lc ports _ _ _ "used_lastfm (ports\<lparr>dp_lastfm := None\<rparr>) opts \<noteq> None"]
    by (cases "bo_enableLastfm opts = Some False")
      (simp_all add: used_lastfm_def seed_shelf_lastfm dead_seed_shelf comp_def)
qed

text \<open>The labs port, in contrast, is not guarded: when it rejects, the shelf of connected artists
  is lost together with what Last.fm would have given, and the provider is reported as unknown.\<close>

theorem labs_rejection_loses_shelf:
  "connections u lc (ports\<lparr>dp_listenbrainz := dp_listenbrainz ports\<lparr>lb_similarArtists := \<lambda>_. None\<rparr>\<rparr>)
     (\<lparr>al_artistMbid = Some mbid, al_artistName = name, al_listenCount = n\<rparr> # as) limit True = None"
  by (simp add: connections_def)

end
