(* ===== verification/Governed_Table.thy ===== *)
theory Governed_Table
  imports Cache_Governor Pg_Cache_Store
begin

text \<open>
  The governor over the Postgres store, statement by statement
  (\<^verbatim>\<open>packages/upstream/src/cache/governor.ts\<close> over \<^verbatim>\<open>pg-store.ts\<close>, called by \<open>#fill\<close> of
  \<^verbatim>\<open>cache-first.ts\<close>). Each \<open>await\<close> ends a step: the write, the counting in \<open>afterWrite\<close>, the
  query of \<open>sizeOf\<close> and the statement of \<open>evictLru\<close> interleave with those of every other
  request, and a step may fail and take the rest of its check with it.
\<close>

subsection \<open>The governor's code between its awaits\<close>

text \<open>\<open>afterWrite\<close> up to the call of \<open>enforce\<close>: is a check due?\<close>

definition gv_due :: "provider \<Rightarrow> cache_governor \<Rightarrow> bool \<times> cache_governor" where
  "gv_due p gv =
     (if gv_capFor p gv = None then (False, gv)
      else let n = orelse (map_of (gv_writesSinceCheck gv) p) 0 + 1
           in if n < gv_checkEveryWrites gv
              then (False, gv\<lparr>gv_writesSinceCheck := AList.update p n (gv_writesSinceCheck gv)\<rparr>)
              else (True, gv\<lparr>gv_writesSinceCheck := AList.update p 0 (gv_writesSinceCheck gv)\<rparr>))"

text \<open>\<open>enforce\<close> from the size to the call of \<open>evictLru\<close>.\<close>

definition gv_excess :: "provider_cap \<Rightarrow> int \<Rightarrow> int option" where
  "gv_excess cap bytes =
     (if bytes \<le> cap_softCapBytes cap then None else Some (bytes - cap_lowWaterBytes cap))"

definition gv_alert :: "provider \<Rightarrow> provider_cap \<Rightarrow> int \<Rightarrow> eviction_report \<Rightarrow> cache_governor \<Rightarrow> cache_governor" where
  "gv_alert p cap bytes rep gv = gv\<lparr>gv_alerts := gv_alerts gv @
     [\<lparr>al_provider = p, al_bytes = bytes, al_softCapBytes = cap_softCapBytes cap,
       al_hardCapBytes = cap_hardCapBytes cap, al_evicted = er_evicted rep,
       al_bytesFreed = er_bytesFreed rep\<rparr>]\<rparr>"

text \<open>Run one after the other, the parts are the two methods.\<close>

lemma gv_enforce_parts:
  "gv_enforce sizeOf evict p gv s =
     (case gv_capFor p gv of None \<Rightarrow> (None, gv, s) | Some cap \<Rightarrow>
        (case gv_excess cap (sizeOf p s) of None \<Rightarrow> (None, gv, s) | Some n \<Rightarrow>
           (case evict p n s of (rep, s') \<Rightarrow> (Some rep, gv_alert p cap (sizeOf p s) rep gv, s'))))"
  by (simp add: gv_enforce_def gv_capFor_def gv_excess_def gv_alert_def Let_def split: option.split)

lemma gv_afterWrite_parts:
  "gv_afterWrite sizeOf evict p gv s =
     (case gv_due p gv of (is_due, gv') \<Rightarrow>
        if is_due then gv_enforce sizeOf evict p gv' s else (None, gv', s))"
  by (simp add: gv_afterWrite_def gv_due_def gv_capFor_def Let_def)

subsection \<open>The table and the checks under way\<close>

text \<open>
  A write whose \<open>afterWrite\<close> has not run, a check before its size query, and one that has
  read a size and is about to evict. The last keeps, for the statements below, how many
  writes of its provider had happened when it read the size.
\<close>

datatype check = Written provider | Sizing provider | Evicting provider int nat











subsection \<open>What the statements do to the size\<close>



















subsection \<open>What holds at every moment\<close>














subsection \<open>One write at a time\<close>

text \<open>No write of the provider while a check of an earlier one is under way, and none is lost.\<close>

definition check_of :: "check \<Rightarrow> provider" where
  "check_of c = (case c of Written p \<Rightarrow> p | Sizing p \<Rightarrow> p | Evicting p _ _ \<Rightarrow> p)"




lemma check_of_simps [simp]:
  "check_of (Written p) = p" "check_of (Sizing p) = p" "check_of (Evicting p bytes n) = p"
  by (simp_all add: check_of_def)














subsection \<open>Properties\<close>





end
