(* ===== verification/Upstream_Json.thy ===== *)
theory Upstream_Json
  imports Js_Json Js_Bytes Upstream_Errors
begin

text \<open>
  Reading the JSON of the upstream services: \<^verbatim>\<open>packages/upstream/src/json.ts\<close>. A value that may be undefined is
  an option; an error of a reader is the path it names.
\<close>

definition is_record :: "json option \<Rightarrow> bool" where
  "is_record v \<longleftrightarrow> (case v of Some (JObj _) \<Rightarrow> True | _ \<Rightarrow> False)"

definition field :: "json option \<Rightarrow> string \<Rightarrow> json option" where
  "field v key = (case v of Some (JObj kvs) \<Rightarrow> map_of kvs key | _ \<Rightarrow> None)"

definition optRecord :: "json option \<Rightarrow> string \<Rightarrow> json option" where
  "optRecord v key =
     (if \<not> is_record v then None else if is_record (field v key) then field v key else None)"

definition reqRecord :: "json option \<Rightarrow> string \<Rightarrow> string \<Rightarrow> string + json" where
  "reqRecord v key path = (case optRecord v key of None \<Rightarrow> Inl path | Some child \<Rightarrow> Inr child)"

definition optArray :: "json option \<Rightarrow> string \<Rightarrow> json list option" where
  "optArray v key = (if \<not> is_record v then None else case field v key of Some (JArr js) \<Rightarrow> Some js | _ \<Rightarrow> None)"

definition arrayOrSingle :: "json option \<Rightarrow> string \<Rightarrow> json list" where
  "arrayOrSingle v key =
     (if \<not> is_record v then []
      else case field v key of
          Some (JArr js) \<Rightarrow> js
        | None \<Rightarrow> []
        | Some JNull \<Rightarrow> []
        | Some child \<Rightarrow> [child])"

definition optString :: "json option \<Rightarrow> string \<Rightarrow> string option" where
  "optString v key =
     (if \<not> is_record v then None
      else case field v key of Some (JStr s) \<Rightarrow> Some s | Some (JNum n) \<Rightarrow> Some (show_int n) | _ \<Rightarrow> None)"

definition reqString :: "json option \<Rightarrow> string \<Rightarrow> string \<Rightarrow> string + string" where
  "reqString v key path =
     (case optString v key of None \<Rightarrow> Inl path | Some s \<Rightarrow> if s = [] then Inl path else Inr s)"

definition optNumber :: "json option \<Rightarrow> string \<Rightarrow> rat option" where
  "optNumber v key =
     (if \<not> is_record v then None
      else case field v key of
          Some (JNum n) \<Rightarrow> Some (of_int n)
        | Some (JStr s) \<Rightarrow> if js_trim s \<noteq> [] then js_Number s else None
        | _ \<Rightarrow> None)"

definition optBoolean :: "json option \<Rightarrow> string \<Rightarrow> bool option" where
  "optBoolean v key = (if \<not> is_record v then None else case field v key of Some (JBool b) \<Rightarrow> Some b | _ \<Rightarrow> None)"

definition hex_block :: "nat \<Rightarrow> string \<Rightarrow> bool" where
  "hex_block n s \<longleftrightarrow> length s = n \<and> list_all (\<lambda>c. radix_digit 16 c \<noteq> None) s"

definition MBID_RE :: "string \<Rightarrow> bool" where
  "MBID_RE s \<longleftrightarrow>
     (case js_split (CHR ''-'') s of
        [a, b, c, d, e] \<Rightarrow> hex_block 8 a \<and> hex_block 4 b \<and> hex_block 4 c \<and> hex_block 4 d \<and> hex_block 12 e
      | _ \<Rightarrow> False)"

definition isMbid :: "json option \<Rightarrow> bool" where
  "isMbid v \<longleftrightarrow> (case v of Some (JStr s) \<Rightarrow> MBID_RE s | _ \<Rightarrow> False)"

definition optMbid :: "json option \<Rightarrow> string \<Rightarrow> string option" where
  "optMbid v key = (case optString v key of None \<Rightarrow> None | Some s \<Rightarrow> if MBID_RE s then Some (js_toLowerCase s) else None)"

definition parseJson :: "string \<Rightarrow> string \<Rightarrow> string + json" where
  "parseJson body path = (case json_parse body of None \<Rightarrow> Inl path | Some v \<Rightarrow> Inr v)"

subsection \<open>What the readers give\<close>

text \<open>The identifiers that are read: five blocks of hexadecimal digits, none of them upper case.\<close>

definition mbid_text :: "string \<Rightarrow> bool" where
  "mbid_text s \<longleftrightarrow> MBID_RE s \<and> js_toLowerCase s = s"

lemma hex_lower: "radix_digit 16 c \<noteq> None \<Longrightarrow> radix_digit 16 (lower_char c) \<noteq> None"
  by (auto simp: radix_digit_def lower_char_def Let_def split: if_splits)

lemma hex_block_lower: "hex_block n s \<Longrightarrow> hex_block n (js_toLowerCase s)"
  using hex_lower by (fastforce simp: hex_block_def js_toLowerCase_def list_all_iff simp del: not_None_eq)

lemma lower_hyphen: "lower_char c = CHR ''-'' \<longleftrightarrow> c = CHR ''-''"
proof
  assume l: "lower_char c = CHR ''-''"
  show "c = CHR ''-''"
  proof (rule ccontr)
    assume "c \<noteq> CHR ''-''"
    then have range: "(65 \<le> code c \<and> code c \<le> 90) \<or> (192 \<le> code c \<and> code c \<le> 222 \<and> code c \<noteq> 215)"
      using l unfolding lower_char_def Let_def by (rule_tac ccontr) (simp only: if_False)
    then have "code (lower_char c) = code c + 32" unfolding lower_char_def Let_def by auto
    moreover have "code (lower_char c) = 45" unfolding l by simp
    ultimately show False using range by linarith
  qed
qed (simp add: lower_char_def)

lemma split_lower: "js_split (CHR ''-'') (js_toLowerCase s) = map js_toLowerCase (js_split (CHR ''-'') s)"
  by (induction s) (auto simp: js_toLowerCase_def lower_hyphen split: list.split)

lemma optMbid_text: "optMbid v key = Some s \<Longrightarrow> mbid_text s"
proof -
  assume "optMbid v key = Some s"
  then obtain t where t: "MBID_RE t" "s = js_toLowerCase t" by (auto simp: optMbid_def split: option.splits if_splits)
  then obtain a b c d e where p: "js_split (CHR ''-'') t = [a, b, c, d, e]"
    and hex: "hex_block 8 a" "hex_block 4 b" "hex_block 4 c" "hex_block 4 d" "hex_block 12 e"
    by (auto simp: MBID_RE_def split: list.splits)
  have "MBID_RE s" unfolding MBID_RE_def t(2) split_lower p using hex by (simp add: hex_block_lower)
  then show ?thesis by (simp add: mbid_text_def t(2)) (simp add: js_toLowerCase_def)
qed

lemma reqString_text: "reqString v key path = Inr s \<Longrightarrow> s \<noteq> []"
  by (auto simp: reqString_def split: option.splits if_splits)

end
