(* ===== verification/Preview_Resolver.thy ===== *)
theory Preview_Resolver
  imports Upstream_Json
begin

text \<open>
  Previews of a recording: the clients of \<^verbatim>\<open>packages/upstream/src/itunes/client.ts\<close> and \<^verbatim>\<open>deezer/client.ts\<close>, the
  stores of \<^verbatim>\<open>preview/resolver.ts\<close> and \<^verbatim>\<open>preview/pg-store.ts\<close> and the resolver over them. The answers of the two
  services are JSON, the parser of URLs and the decoding of bytes that are not UTF-8 are parameters. Callers that
  join a flight get its answer (\<open>Single_Flight\<close>).
\<close>

subsection \<open>The best match\<close>

definition includes_text :: "string \<Rightarrow> string \<Rightarrow> bool" where
  "includes_text a b \<longleftrightarrow> list_ex (\<lambda>i. take (length b) (drop i a) = b) [0..<Suc (length a)]"

definition half_score :: "string \<Rightarrow> string \<Rightarrow> int" where
  "half_score have want = (if have = want then 3 else if includes_text have want \<or> includes_text want have then 1 else 0)"

definition match_score :: "string \<Rightarrow> string \<Rightarrow> string \<Rightarrow> string \<Rightarrow> int" where
  "match_score artist title artistName trackName =
     half_score (js_toLowerCase artistName) (js_toLowerCase artist) + half_score (js_toLowerCase trackName) (js_toLowerCase title)"

definition keep_best :: "('p \<Rightarrow> int) \<Rightarrow> 'p option \<times> int \<Rightarrow> 'p \<Rightarrow> 'p option \<times> int" where
  "keep_best score acc c = (if score c > snd acc then (Some c, score c) else acc)"

definition best_match :: "('p \<Rightarrow> int) \<Rightarrow> 'p list \<Rightarrow> 'p option" where
  "best_match score candidates =
     (case foldl (keep_best score) (None, - 1) candidates of (best, bestScore) \<Rightarrow> if 2 \<le> bestScore then best else None)"

subsection \<open>iTunes\<close>

definition ITUNES_ATTRIBUTION :: string where
  "ITUNES_ATTRIBUTION = ''Preview provided courtesy of iTunes''"

record itunes_preview =
  it_previewUrl :: string
  it_trackId :: "rat option"
  it_trackName :: string
  it_artistName :: string
  it_collectionName :: "string option"
  it_durationMs :: "rat option"
  it_artworkUrl :: "string option"
  it_trackViewUrl :: "string option"

definition parsePreview :: "json \<Rightarrow> itunes_preview option" where
  "parsePreview v =
     (case (optString (Some v) ''previewUrl'', optString (Some v) ''trackName'', optString (Some v) ''artistName'') of
        (Some previewUrl, Some trackName, Some artistName) \<Rightarrow>
          Some \<lparr>it_previewUrl = previewUrl, it_trackId = optNumber (Some v) ''trackId'', it_trackName = trackName,
            it_artistName = artistName, it_collectionName = optString (Some v) ''collectionName'',
            it_durationMs = optNumber (Some v) ''trackTimeMillis'', it_artworkUrl = optString (Some v) ''artworkUrl100'',
            it_trackViewUrl = optString (Some v) ''trackViewUrl''\<rparr>
      | _ \<Rightarrow> None)"

definition itunes_candidates :: "json \<Rightarrow> itunes_preview list" where
  "itunes_candidates payload = List.map_filter parsePreview (arrayOrSingle (Some payload) ''results'')"

definition pickBestMatch :: "itunes_preview list \<Rightarrow> string \<Rightarrow> string \<Rightarrow> itunes_preview option" where
  "pickBestMatch candidates artist title =
     best_match (\<lambda>c. match_score artist title (it_artistName c) (it_trackName c)) candidates"

text \<open>The query of a search, and the preview of its answer.\<close>

definition itunes_query :: "string \<Rightarrow> string \<Rightarrow> string \<Rightarrow> (string \<times> string) list" where
  "itunes_query country artist title =
     [(''term'', artist @ '' '' @ title), (''entity'', ''song''), (''media'', ''music''), (''limit'', ''5''), (''country'', country)]"

definition itunes_resolvePreview ::
  "((string \<times> string) list \<Rightarrow> upstream_error + json) \<Rightarrow> string \<Rightarrow> string \<Rightarrow> string \<Rightarrow> upstream_error + itunes_preview option" where
  "itunes_resolvePreview request country artist title =
     (case request (itunes_query country artist title) of
        Inl e \<Rightarrow> Inl e
      | Inr payload \<Rightarrow> Inr (pickBestMatch (itunes_candidates payload) artist title))"

definition lookupTrack ::
  "((string \<times> string) list \<Rightarrow> upstream_error + json) \<Rightarrow> string \<Rightarrow> int \<Rightarrow> upstream_error + itunes_preview option" where
  "lookupTrack request country trackId =
     (case request [(''id'', show_int trackId), (''entity'', ''song''), (''country'', country)] of
        Inl e \<Rightarrow> Inl e
      | Inr payload \<Rightarrow> Inr (case itunes_candidates payload of [] \<Rightarrow> None | c # _ \<Rightarrow> Some c))"

subsection \<open>Deezer\<close>

definition DEEZER_ATTRIBUTION :: string where
  "DEEZER_ATTRIBUTION = ''Preview provided by Deezer''"

definition DEEZER_ASSUMED_TTL_MS :: int where
  "DEEZER_ASSUMED_TTL_MS = 60000"

record deezer_preview =
  dz_previewUrl :: string
  dz_trackId :: "rat option"
  dz_trackName :: string
  dz_artistName :: string
  dz_albumName :: "string option"
  dz_durationMs :: "rat option"
  dz_artworkUrl :: "string option"
  dz_expiresAt :: rat

text \<open>\<open>new URLSearchParams(query).get(name)\<close>; the decoding of bytes is a parameter.\<close>

fun percent_decode :: "string \<Rightarrow> string" where
  "percent_decode (x # a # b # s) =
     (case (radix_digit 16 a, radix_digit 16 b) of
        (Some h, Some l) \<Rightarrow> if x = CHR ''%'' then char_of (16 * h + l) # percent_decode s else x # percent_decode (a # b # s)
      | _ \<Rightarrow> x # percent_decode (a # b # s))"
| "percent_decode s = s"

definition form_decode :: "(string \<Rightarrow> string) \<Rightarrow> string \<Rightarrow> string" where
  "form_decode toString s = toString (percent_decode (utf8_encode (map (\<lambda>c. if c = CHR ''+'' then CHR '' '' else c) s)))"

definition query_pair :: "(string \<Rightarrow> string) \<Rightarrow> string \<Rightarrow> string \<times> string" where
  "query_pair toString s =
     (case indexOf (CHR ''='') s of
        None \<Rightarrow> (form_decode toString s, [])
      | Some i \<Rightarrow> (form_decode toString (take i s), form_decode toString (drop (Suc i) s)))"

definition search_get :: "(string \<Rightarrow> string) \<Rightarrow> string \<Rightarrow> string \<Rightarrow> string option" where
  "search_get toString query name =
     (let q = (case query of c # s \<Rightarrow> if c = CHR ''?'' then s else query | [] \<Rightarrow> [])
      in map_of (map (query_pair toString) (filter (\<lambda>s. s \<noteq> []) (js_split (CHR ''&'') q))) name)"

fun expiry_of :: "string list \<Rightarrow> rat option" where
  "expiry_of [] = None"
| "expiry_of (part # parts) =
     (case indexOf (CHR ''='') part of
        None \<Rightarrow> expiry_of parts
      | Some eq \<Rightarrow>
          if take eq part \<noteq> ''exp'' then expiry_of parts
          else case js_Number (drop (Suc eq) part) of None \<Rightarrow> expiry_of parts | Some seconds \<Rightarrow> Some (seconds * 1000))"

definition parsePreviewExpiry :: "(string \<Rightarrow> string) \<Rightarrow> string \<Rightarrow> time \<Rightarrow> rat" where
  "parsePreviewExpiry toString url now =
     (let assumed = of_int (now + DEEZER_ASSUMED_TTL_MS) in
      case indexOf (CHR ''?'') url of
        None \<Rightarrow> assumed
      | Some q \<Rightarrow>
          (case search_get toString (drop (Suc q) url) ''hdnea'' of
             None \<Rightarrow> assumed
           | Some token \<Rightarrow> orelse (expiry_of (js_split (CHR ''~'') token)) assumed))"

definition isExpired :: "deezer_preview \<Rightarrow> time \<Rightarrow> bool" where
  "isExpired p now \<longleftrightarrow> dz_expiresAt p \<le> of_int now"

definition assertNoErrorEnvelope :: "json \<Rightarrow> upstream_error option" where
  "assertNoErrorEnvelope payload =
     (case optRecord (Some payload) ''error'' of
        None \<Rightarrow> None
      | Some err \<Rightarrow>
          let transient = (optNumber (Some err) ''code'' = Some 4 \<or> optNumber (Some err) ''code'' = Some 700)
          in Some \<lparr>ue_provider = Deezer, ue_kind = (if transient then Rate_limited else Http),
               ue_status = Some (if transient then 429 else 404), ue_retryAfterMs = None\<rparr>)"

definition parseTrack :: "(string \<Rightarrow> string) \<Rightarrow> json \<Rightarrow> time \<Rightarrow> deezer_preview option" where
  "parseTrack toString v now =
     (case (optString (Some v) ''preview'', optString (Some v) ''title'') of
        (Some previewUrl, Some trackName) \<Rightarrow>
          if previewUrl = [] then None
          else let artist = optRecord (Some v) ''artist''; album = optRecord (Some v) ''album'' in
            Some \<lparr>dz_previewUrl = previewUrl, dz_trackId = optNumber (Some v) ''id'', dz_trackName = trackName,
              dz_artistName = orelse (optString artist ''name'') ''Unknown Artist'', dz_albumName = optString album ''title'',
              dz_durationMs = map_option (\<lambda>d. d * 1000) (optNumber (Some v) ''duration''), dz_artworkUrl = optString album ''cover_medium'',
              dz_expiresAt = parsePreviewExpiry toString previewUrl now\<rparr>
      | _ \<Rightarrow> None)"

definition deezer_query :: "string \<Rightarrow> string \<Rightarrow> (string \<times> string) list" where
  "deezer_query artist title =
     [(''q'', ''artist:'' @ dquote # artist @ dquote # '' track:'' @ dquote # title @ [dquote]), (''limit'', ''5'')]"

definition deezer_resolvePreview ::
  "(string \<Rightarrow> string) \<Rightarrow> ((string \<times> string) list \<Rightarrow> upstream_error + json) \<Rightarrow> time \<Rightarrow> string \<Rightarrow> string \<Rightarrow>
     upstream_error + deezer_preview option" where
  "deezer_resolvePreview toString request now artist title =
     (case request (deezer_query artist title) of
        Inl e \<Rightarrow> Inl e
      | Inr payload \<Rightarrow>
          (case assertNoErrorEnvelope payload of
             Some e \<Rightarrow> Inl e
           | None \<Rightarrow>
               Inr (best_match (\<lambda>c. match_score artist title (dz_artistName c) (dz_trackName c))
                 (List.map_filter (\<lambda>t. parseTrack toString t now) (arrayOrSingle (Some payload) ''data'')))))"

definition refreshPreview :: "(string \<Rightarrow> string) \<Rightarrow> upstream_error + json \<Rightarrow> time \<Rightarrow> upstream_error + deezer_preview option" where
  "refreshPreview toString answer now =
     (case answer of
        Inl e \<Rightarrow> Inl e
      | Inr payload \<Rightarrow>
          (case assertNoErrorEnvelope payload of
             Some e \<Rightarrow> Inl e
           | None \<Rightarrow> Inr (if is_record (Some payload) then parseTrack toString payload now else None)))"

subsection \<open>Previews\<close>

record store_badge =
  bd_required :: bool
  bd_variants :: "string list"
  bd_assetPage :: string
  bd_linkUrl :: string
  bd_placement :: string
  bd_ordering :: string

record preview_attribution =
  pv_source :: provider
  pv_text :: string
  pv_badge :: "store_badge option"

record resolved_preview =
  pr_recordingMbid :: string
  pr_provider :: provider
  pr_url :: string
  pr_durationMs :: "rat option"
  pr_expiresAt :: "rat option"
  pr_cacheable :: bool
  pr_attribution :: preview_attribution

record stored_preview =
  sp_recordingMbid :: string
  sp_url :: string
  sp_durationMs :: "rat option"
  sp_storeUrl :: "string option"
  sp_resolvedAt :: time
  sp_revalidateAfter :: time

record preview_write =
  pw_recordingMbid :: string
  pw_provider :: provider
  pw_url :: string
  pw_durationMs :: "rat option"
  pw_storeUrl :: "string option"

definition itunesAttribution :: "string \<Rightarrow> preview_attribution" where
  "itunesAttribution storeUrl = \<lparr>pv_source = Itunes, pv_text = ITUNES_ATTRIBUTION,
     pv_badge = Some \<lparr>bd_required = True, bd_variants = [''Buy on'', ''Get it on'', ''Pre-order on''],
       bd_assetPage = ''https://www.apple.com/itunes/marketing-on-music/identity-guidelines.html'', bd_linkUrl = storeUrl,
       bd_placement = ''proximate-to-preview'', bd_ordering = ''first''\<rparr>\<rparr>"

text \<open>\<open>new URL(raw)\<close>: the protocol, the host name and the text of the URL, \<open>None\<close> when it throws.\<close>

type_synonym url_parser = "string \<Rightarrow> (string \<times> string \<times> string) option"

definition ends_with :: "string \<Rightarrow> string \<Rightarrow> bool" where
  "ends_with s t \<longleftrightarrow> length t \<le> length s \<and> drop (length s - length t) s = t"

definition apple_host :: "string \<Rightarrow> bool" where
  "apple_host hostname \<longleftrightarrow>
     (let host = js_toLowerCase hostname in host = ''apple.com'' \<or> ends_with host ''.apple.com'')"

definition appleStoreUrl :: "url_parser \<Rightarrow> string option \<Rightarrow> string option" where
  "appleStoreUrl url_of raw =
     (case raw of
        None \<Rightarrow> None
      | Some s \<Rightarrow>
          if s = [] then None
          else case url_of s of
              None \<Rightarrow> None
            | Some (protocol, hostname, href) \<Rightarrow>
                if protocol \<noteq> ''https:'' then None else if \<not> apple_host hostname then None else Some href)"

subsection \<open>The stores\<close>

definition PREVIEW_REVALIDATE_AFTER_MS :: int where
  "PREVIEW_REVALIDATE_AFTER_MS = 30 * 24 * 60 * 60 * 1000"

text \<open>A get gives \<open>None\<close> and a put \<open>False\<close> when it rejects; the first argument says whether the database fails.\<close>

record 's preview_store =
  ps_get :: "bool \<Rightarrow> time \<Rightarrow> string \<Rightarrow> 's \<Rightarrow> stored_preview option option"
  ps_put :: "bool \<Rightarrow> time \<Rightarrow> preview_write \<Rightarrow> 's \<Rightarrow> bool \<times> 's"

definition written :: "preview_write \<Rightarrow> time \<Rightarrow> stored_preview" where
  "written row now = \<lparr>sp_recordingMbid = pw_recordingMbid row, sp_url = pw_url row, sp_durationMs = pw_durationMs row,
     sp_storeUrl = pw_storeUrl row, sp_resolvedAt = now, sp_revalidateAfter = now + PREVIEW_REVALIDATE_AFTER_MS\<rparr>"

definition memory_get :: "bool \<Rightarrow> time \<Rightarrow> string \<Rightarrow> (string \<rightharpoonup> stored_preview) \<Rightarrow> stored_preview option option" where
  "memory_get fails now i rows = Some (rows i)"

definition memory_put :: "bool \<Rightarrow> time \<Rightarrow> preview_write \<Rightarrow> (string \<rightharpoonup> stored_preview) \<Rightarrow> bool \<times> (string \<rightharpoonup> stored_preview)" where
  "memory_put fails now row rows =
     (if pw_provider row \<noteq> Itunes then (False, rows) else (True, rows(pw_recordingMbid row \<mapsto> written row now)))"

text \<open>A time stamp as the driver hands it out: a date, or a text with what \<open>Date.parse\<close> makes of it.\<close>

datatype pg_stamp = Pg_date time | Pg_text "time option" | Pg_other

definition toEpochMs :: "pg_stamp \<Rightarrow> time \<Rightarrow> time" where
  "toEpochMs v fallback = (case v of Pg_date t \<Rightarrow> t | Pg_text (Some t) \<Rightarrow> t | _ \<Rightarrow> fallback)"

record track_preview =
  tp_provider :: provider
  tp_url :: string
  tp_durationMs :: "rat option"
  tp_storeUrl :: "string option"
  tp_resolvedAt :: pg_stamp
  tp_revalidateAfter :: pg_stamp

text \<open>The table, whose key is the recording and the provider.\<close>

type_synonym track_previews = "string \<times> provider \<rightharpoonup> track_preview"

definition pg_preview_get :: "bool \<Rightarrow> time \<Rightarrow> string \<Rightarrow> track_previews \<Rightarrow> stored_preview option option" where
  "pg_preview_get fails now i t =
     (if fails then None
      else case t (i, Itunes) of
          None \<Rightarrow> Some None
        | Some row \<Rightarrow>
            Some (Some \<lparr>sp_recordingMbid = i, sp_url = tp_url row, sp_durationMs = tp_durationMs row, sp_storeUrl = tp_storeUrl row,
              sp_resolvedAt = toEpochMs (tp_resolvedAt row) now, sp_revalidateAfter = toEpochMs (tp_revalidateAfter row) now\<rparr>))"

text \<open>\<open>now\<close> is here the clock of the database.\<close>

definition pg_preview_put :: "bool \<Rightarrow> time \<Rightarrow> preview_write \<Rightarrow> track_previews \<Rightarrow> bool \<times> track_previews" where
  "pg_preview_put fails now row t =
     (if pw_provider row \<noteq> Itunes then (False, t)
      else if fails then (False, t)
      else (True, t((pw_recordingMbid row, Itunes) \<mapsto>
        \<lparr>tp_provider = Itunes, tp_url = pw_url row, tp_durationMs = pw_durationMs row, tp_storeUrl = pw_storeUrl row,
         tp_resolvedAt = Pg_date now, tp_revalidateAfter = Pg_date (now + PREVIEW_REVALIDATE_AFTER_MS)\<rparr>)))"

definition memory_previews :: "(string \<rightharpoonup> stored_preview) preview_store" where
  "memory_previews = \<lparr>ps_get = memory_get, ps_put = memory_put\<rparr>"

definition pg_previews :: "track_previews preview_store" where
  "pg_previews = \<lparr>ps_get = pg_preview_get, ps_put = pg_preview_put\<rparr>"

subsection \<open>The resolver\<close>

record track_identity =
  tk_recordingMbid :: string
  tk_artistName :: string
  tk_title :: string

text \<open>The services are absent when they are not wired.\<close>

record preview_services =
  sq_urlOf :: url_parser
  sq_toString :: "string \<Rightarrow> string"
  sq_country :: string
  sq_itunes :: "((string \<times> string) list \<Rightarrow> upstream_error + json) option"
  sq_deezer :: "((string \<times> string) list \<Rightarrow> upstream_error + json) option"

record preview_call =
  qv_getFails :: bool
  qv_now :: time
  qv_putFails :: bool
  qv_putNow :: time
  qv_parseNow :: time
  qv_endNow :: time

text \<open>\<open>None\<close> is an exception.\<close>

type_synonym preview_answer = "resolved_preview option option"

definition itunes_preview_of :: "string \<Rightarrow> string \<Rightarrow> rat option \<Rightarrow> string \<Rightarrow> resolved_preview" where
  "itunes_preview_of mbid url durationMs storeUrl = \<lparr>pr_recordingMbid = mbid, pr_provider = Itunes, pr_url = url,
     pr_durationMs = durationMs, pr_expiresAt = None, pr_cacheable = True, pr_attribution = itunesAttribution storeUrl\<rparr>"

definition resolveCached :: "'s preview_store \<Rightarrow> preview_call \<Rightarrow> string \<Rightarrow> 's \<Rightarrow> preview_answer" where
  "resolveCached ps pc mbid s =
     (case ps_get ps (qv_getFails pc) (qv_now pc) mbid s of
        None \<Rightarrow> None
      | Some None \<Rightarrow> Some None
      | Some (Some row) \<Rightarrow>
          (case sp_storeUrl row of
             None \<Rightarrow> Some None
           | Some storeUrl \<Rightarrow>
               if sp_revalidateAfter row \<le> qv_now pc then Some None
               else Some (Some (itunes_preview_of (sp_recordingMbid row) (sp_url row) (sp_durationMs row) storeUrl))))"

definition fromDeezer :: "string \<Rightarrow> deezer_preview \<Rightarrow> time \<Rightarrow> resolved_preview option" where
  "fromDeezer mbid preview now =
     (if dz_expiresAt preview \<le> of_int now then None
      else Some \<lparr>pr_recordingMbid = mbid, pr_provider = Deezer, pr_url = dz_previewUrl preview, pr_durationMs = dz_durationMs preview,
        pr_expiresAt = Some (dz_expiresAt preview), pr_cacheable = False,
        pr_attribution = \<lparr>pv_source = Deezer, pv_text = DEEZER_ATTRIBUTION, pv_badge = None\<rparr>\<rparr>)"

text \<open>The part of a resolution that asks Deezer; an error of the service is swallowed.\<close>

definition from_deezer :: "preview_services \<Rightarrow> preview_call \<Rightarrow> track_identity \<Rightarrow> preview_answer" where
  "from_deezer sq pc track =
     (case sq_deezer sq of
        None \<Rightarrow> Some None
      | Some request \<Rightarrow>
          (case deezer_resolvePreview (sq_toString sq) request (qv_parseNow pc) (tk_artistName track) (tk_title track) of
             Inl e \<Rightarrow> Some None
           | Inr None \<Rightarrow> Some None
           | Inr (Some p) \<Rightarrow> Some (fromDeezer (tk_recordingMbid track) p (qv_endNow pc))))"

definition keep_itunes ::
  "'s preview_store \<Rightarrow> preview_call \<Rightarrow> string \<Rightarrow> itunes_preview \<Rightarrow> string \<Rightarrow> 's \<Rightarrow> preview_answer \<times> 's" where
  "keep_itunes ps pc mbid p storeUrl s =
     (case ps_put ps (qv_putFails pc) (qv_putNow pc)
             \<lparr>pw_recordingMbid = mbid, pw_provider = Itunes, pw_url = it_previewUrl p,
              pw_durationMs = it_durationMs p, pw_storeUrl = Some storeUrl\<rparr> s of
        (stored, s1) \<Rightarrow>
          (if stored then Some (Some (itunes_preview_of mbid (it_previewUrl p) (it_durationMs p) storeUrl)) else None, s1))"

definition resolveLive ::
  "'s preview_store \<Rightarrow> preview_services \<Rightarrow> preview_call \<Rightarrow> track_identity \<Rightarrow> 's \<Rightarrow> preview_answer \<times> 's" where
  "resolveLive ps sq pc track s =
     (case sq_itunes sq of
        None \<Rightarrow> (from_deezer sq pc track, s)
      | Some request \<Rightarrow>
          (case itunes_resolvePreview request (sq_country sq) (tk_artistName track) (tk_title track) of
             Inl e \<Rightarrow> (from_deezer sq pc track, s)
           | Inr None \<Rightarrow> (from_deezer sq pc track, s)
           | Inr (Some p) \<Rightarrow>
               (case appleStoreUrl (sq_urlOf sq) (it_trackViewUrl p) of
                  None \<Rightarrow> (from_deezer sq pc track, s)
                | Some storeUrl \<Rightarrow> keep_itunes ps pc (tk_recordingMbid track) p storeUrl s)))"

definition resolve_preview ::
  "'s preview_store \<Rightarrow> preview_services \<Rightarrow> preview_call \<Rightarrow> track_identity \<Rightarrow> 's \<Rightarrow> preview_answer \<times> 's" where
  "resolve_preview ps sq pc track s =
     (case resolveCached ps pc (tk_recordingMbid track) s of
        None \<Rightarrow> (None, s)
      | Some (Some p) \<Rightarrow> (Some (Some p), s)
      | Some None \<Rightarrow> resolveLive ps sq pc track s)"

definition refreshForPlayback ::
  "'s preview_store \<Rightarrow> preview_services \<Rightarrow> preview_call \<Rightarrow> track_identity \<Rightarrow> 's \<Rightarrow> preview_answer" where
  "refreshForPlayback ps sq pc track s =
     (case resolveCached ps pc (tk_recordingMbid track) s of
        None \<Rightarrow> None
      | Some (Some p) \<Rightarrow> Some (Some p)
      | Some None \<Rightarrow>
          (case sq_deezer sq of
             None \<Rightarrow> Some None
           | Some request \<Rightarrow>
               (case deezer_resolvePreview (sq_toString sq) request (qv_parseNow pc) (tk_artistName track) (tk_title track) of
                  Inl e \<Rightarrow> None
                | Inr None \<Rightarrow> Some None
                | Inr (Some p) \<Rightarrow> Some (fromDeezer (tk_recordingMbid track) p (qv_endNow pc)))))"

subsection \<open>Runs\<close>

datatype preview_request =
    Pv_cached string
  | Pv_resolve track_identity
  | Pv_refresh track_identity

fun asked_for :: "preview_request \<Rightarrow> string" where
  "asked_for (Pv_cached mbid) = mbid"
| "asked_for (Pv_resolve track) = tk_recordingMbid track"
| "asked_for (Pv_refresh track) = tk_recordingMbid track"

type_synonym preview_event = "preview_services \<times> preview_call \<times> preview_request"

fun preview_step :: "'s preview_store \<Rightarrow> preview_event \<Rightarrow> 's \<Rightarrow> preview_answer \<times> 's" where
  "preview_step ps (sq, pc, Pv_cached mbid) s = (resolveCached ps pc mbid s, s)"
| "preview_step ps (sq, pc, Pv_resolve track) s = resolve_preview ps sq pc track s"
| "preview_step ps (sq, pc, Pv_refresh track) s = (refreshForPlayback ps sq pc track s, s)"

definition previews_after :: "'s preview_store \<Rightarrow> preview_event list \<Rightarrow> 's \<Rightarrow> 's" where
  "previews_after ps es s = foldl (\<lambda>s e. snd (preview_step ps e s)) s es"

text \<open>A link to a page of the store, and what the licences ask of a preview that is handed out.\<close>

definition store_link :: "url_parser \<Rightarrow> string \<Rightarrow> bool" where
  "store_link url_of u \<longleftrightarrow> (\<exists>raw hostname. url_of raw = Some (''https:'', hostname, u) \<and> apple_host hostname)"

definition licensed :: "url_parser \<Rightarrow> time \<Rightarrow> resolved_preview \<Rightarrow> bool" where
  "licensed url_of now r \<longleftrightarrow>
     (pr_provider r = Itunes \<and> pr_cacheable r \<and> pr_expiresAt r = None \<and> (\<exists>u. pr_attribution r = itunesAttribution u \<and> store_link url_of u)) \<or>
     (pr_provider r = Deezer \<and> \<not> pr_cacheable r \<and> (\<exists>e. pr_expiresAt r = Some e \<and> of_int now < e) \<and>
       pr_attribution r = \<lparr>pv_source = Deezer, pv_text = DEEZER_ATTRIBUTION, pv_badge = None\<rparr>)"

text \<open>What the search picks: a candidate of the answer that scores at least two, and none scores more.\<close>

lemma keep_best_run:
  assumes "foldl (keep_best score) acc cs = (best, m)"
  shows "(best, m) = acc \<or> (\<exists>c \<in> set cs. best = Some c \<and> score c = m \<and> snd acc < m)"
    and "snd acc \<le> m \<and> (\<forall>c \<in> set cs. score c \<le> m)"
proof -
  have "((best, m) = acc \<or> (\<exists>c \<in> set cs. best = Some c \<and> score c = m \<and> snd acc < m)) \<and>
      snd acc \<le> m \<and> (\<forall>c \<in> set cs. score c \<le> m)"
    using assms
  proof (induction cs arbitrary: acc)
    case (Cons c cs)
    then have "foldl (keep_best score) (keep_best score acc c) cs = (best, m)" by simp
    from Cons.IH [OF this] show ?case by (auto simp: keep_best_def split: if_splits)
  qed auto
  then show "(best, m) = acc \<or> (\<exists>c \<in> set cs. best = Some c \<and> score c = m \<and> snd acc < m)"
    and "snd acc \<le> m \<and> (\<forall>c \<in> set cs. score c \<le> m)" by blast+
qed

definition best_of :: "('p \<Rightarrow> int) \<Rightarrow> 'p list \<Rightarrow> 'p \<Rightarrow> bool" where
  "best_of score cs p \<longleftrightarrow> p \<in> set cs \<and> 2 \<le> score p \<and> (\<forall>c \<in> set cs. score c \<le> score p)"

lemma best_match_best: "best_match score cs = Some p \<Longrightarrow> best_of score cs p"
  using keep_best_run [of score "(None, - 1)" cs "fst (foldl (keep_best score) (None, - 1) cs)" "snd (foldl (keep_best score) (None, - 1) cs)"]
  by (auto simp: best_match_def best_of_def split: prod.splits if_splits)

definition itunes_pick :: "preview_services \<Rightarrow> track_identity \<Rightarrow> itunes_preview \<Rightarrow> bool" where
  "itunes_pick sq track p \<longleftrightarrow>
     (\<exists>request payload. sq_itunes sq = Some request \<and>
        request (itunes_query (sq_country sq) (tk_artistName track) (tk_title track)) = Inr payload \<and>
        best_of (\<lambda>c. match_score (tk_artistName track) (tk_title track) (it_artistName c) (it_trackName c)) (itunes_candidates payload) p)"

definition deezer_pick :: "preview_services \<Rightarrow> time \<Rightarrow> track_identity \<Rightarrow> deezer_preview \<Rightarrow> bool" where
  "deezer_pick sq now track p \<longleftrightarrow>
     (\<exists>request payload. sq_deezer sq = Some request \<and> request (deezer_query (tk_artistName track) (tk_title track)) = Inr payload \<and>
        best_of (\<lambda>c. match_score (tk_artistName track) (tk_title track) (dz_artistName c) (dz_trackName c))
          (List.map_filter (\<lambda>t. parseTrack (sq_toString sq) t now) (arrayOrSingle (Some payload) ''data'')) p)"

lemma itunes_resolve_pick:
  "sq_itunes sq = Some request \<Longrightarrow>
   itunes_resolvePreview request (sq_country sq) (tk_artistName track) (tk_title track) = Inr (Some p) \<Longrightarrow> itunes_pick sq track p"
  by (auto simp: itunes_resolvePreview_def itunes_pick_def pickBestMatch_def split: sum.splits dest: best_match_best)

lemma deezer_resolve_pick:
  "sq_deezer sq = Some request \<Longrightarrow>
   deezer_resolvePreview (sq_toString sq) request now (tk_artistName track) (tk_title track) = Inr (Some p) \<Longrightarrow> deezer_pick sq now track p"
  by (auto simp: deezer_resolvePreview_def deezer_pick_def split: sum.splits option.splits dest: best_match_best)

text \<open>The row that the resolver writes for a pick.\<close>

definition itunes_row :: "preview_services \<Rightarrow> preview_call \<Rightarrow> track_identity \<Rightarrow> stored_preview \<Rightarrow> bool" where
  "itunes_row sq pc track row \<longleftrightarrow> (\<exists>p u. itunes_pick sq track p \<and> appleStoreUrl (sq_urlOf sq) (it_trackViewUrl p) = Some u \<and>
     row = written \<lparr>pw_recordingMbid = tk_recordingMbid track, pw_provider = Itunes, pw_url = it_previewUrl p,
       pw_durationMs = it_durationMs p, pw_storeUrl = Some u\<rparr> (qv_putNow pc))"

text \<open>Where a preview that is handed out comes from: for iTunes a row in \<open>W\<close>, for Deezer the pick of this call.\<close>

definition comes_from :: "(stored_preview \<Rightarrow> bool) \<Rightarrow> (deezer_preview \<Rightarrow> bool) \<Rightarrow> resolved_preview \<Rightarrow> bool" where
  "comes_from W D r \<longleftrightarrow>
     (pr_provider r = Itunes \<longrightarrow> (\<exists>row. W row \<and> pr_url r = sp_url row \<and> pr_durationMs r = sp_durationMs row)) \<and>
     (pr_provider r = Deezer \<longrightarrow> (\<exists>p. D p \<and> pr_url r = dz_previewUrl p \<and> pr_durationMs r = dz_durationMs p))"

lemma fromDeezer_licensed: "fromDeezer i p now = Some r \<Longrightarrow> D p \<Longrightarrow> licensed url_of now r \<and> pr_recordingMbid r = i \<and> comes_from W D r"
  by (auto simp: fromDeezer_def licensed_def comes_from_def split: if_splits)

lemma from_deezer_licensed:
  "from_deezer sq pc track = Some (Some r) \<Longrightarrow> licensed url_of (qv_endNow pc) r \<and> pr_recordingMbid r = tk_recordingMbid track \<and>
     comes_from W (deezer_pick sq (qv_parseNow pc) track) r"
proof -
  assume "from_deezer sq pc track = Some (Some r)"
  then obtain request p where request: "sq_deezer sq = Some request"
    "deezer_resolvePreview (sq_toString sq) request (qv_parseNow pc) (tk_artistName track) (tk_title track) = Inr (Some p)"
    and r: "fromDeezer (tk_recordingMbid track) p (qv_endNow pc) = Some r"
    by (auto simp: from_deezer_def split: option.splits sum.splits)
  show ?thesis by (rule fromDeezer_licensed [where D = "deezer_pick sq (qv_parseNow pc) track", OF r deezer_resolve_pick [OF request]])
qed

lemma appleStoreUrl_link: "appleStoreUrl url_of raw = Some u \<Longrightarrow> store_link url_of u"
  by (cases raw) (auto simp: appleStoreUrl_def store_link_def split: option.splits if_splits, blast)

subsection \<open>The contract of a store\<close>

text \<open>Every row belongs to its recording, every link satisfies \<open>Q\<close>, and every row that is still valid \<open>W\<close>.\<close>

definition rows_ok ::
  "(bool \<Rightarrow> time \<Rightarrow> string \<Rightarrow> 's \<Rightarrow> stored_preview option option) \<Rightarrow> (string \<Rightarrow> bool) \<Rightarrow> (string \<Rightarrow> stored_preview \<Rightarrow> bool) \<Rightarrow> 's \<Rightarrow> bool" where
  "rows_ok get Q W s \<longleftrightarrow> (\<forall>f t i p. get f t i s = Some (Some p) \<longrightarrow>
     sp_recordingMbid p = i \<and> (\<forall>u. sp_storeUrl p = Some u \<longrightarrow> Q u) \<and> (W i p \<or> sp_revalidateAfter p \<le> t))"

lemma rows_ok_mono: "rows_ok get Q W s \<Longrightarrow> (\<And>i e. W i e \<Longrightarrow> W' i e) \<Longrightarrow> rows_ok get Q W' s"
  unfolding rows_ok_def by blast

text \<open>The pick of Deezer that a request may be answered with.\<close>

fun deezer_answer :: "preview_services \<Rightarrow> preview_call \<Rightarrow> preview_request \<Rightarrow> deezer_preview \<Rightarrow> bool" where
  "deezer_answer sq pc (Pv_cached i) p \<longleftrightarrow> False"
| "deezer_answer sq pc (Pv_resolve track) p \<longleftrightarrow> deezer_pick sq (qv_parseNow pc) track p"
| "deezer_answer sq pc (Pv_refresh track) p \<longleftrightarrow> deezer_pick sq (qv_parseNow pc) track p"

text \<open>What the resolver relies on: only rows of iTunes are taken, a put that is rejected changes nothing, and
  one that is done is what later gets give for the recording.\<close>

locale keeps_previews =
  fixes get :: "bool \<Rightarrow> time \<Rightarrow> string \<Rightarrow> 's \<Rightarrow> stored_preview option option"
    and put :: "bool \<Rightarrow> time \<Rightarrow> preview_write \<Rightarrow> 's \<Rightarrow> bool \<times> 's"
  assumes put_other: "pw_provider row \<noteq> Itunes \<Longrightarrow> put f t row s = (False, s)"
    and put_rejected: "put f t row s = (False, s1) \<Longrightarrow> s1 = s"
    and put_done: "put f t row s = (True, s1) \<Longrightarrow> get f' t' i s1 = Some (Some p) \<Longrightarrow>
      if i = pw_recordingMbid row then p = written row t else get f' t' i s = Some (Some p)"
begin

lemma cached_answer:
  assumes "rows_ok get Q W s" and "resolveCached \<lparr>ps_get = get, ps_put = put\<rparr> pc i s = Some (Some r)"
  shows "\<exists>row u. r = itunes_preview_of i (sp_url row) (sp_durationMs row) u \<and> Q u \<and> W i row \<and> qv_now pc < sp_revalidateAfter row"
proof -
  obtain row u where row: "get (qv_getFails pc) (qv_now pc) i s = Some (Some row)" "sp_storeUrl row = Some u"
    "qv_now pc < sp_revalidateAfter row" "r = itunes_preview_of (sp_recordingMbid row) (sp_url row) (sp_durationMs row) u"
    using assms(2) by (auto simp: resolveCached_def not_le split: option.splits if_splits)
  then have "sp_recordingMbid row = i \<and> Q u \<and> (W i row \<or> sp_revalidateAfter row \<le> qv_now pc)"
    using assms(1) unfolding rows_ok_def by blast
  then show ?thesis using row by auto
qed

lemma put_keeps_rows:
  assumes "rows_ok get Q W s" and "put f t row s = (fine, s1)"
    and "\<And>u. pw_storeUrl row = Some u \<Longrightarrow> Q u" and "fine \<Longrightarrow> W (pw_recordingMbid row) (written row t)"
  shows "rows_ok get Q W s1"
proof (cases fine)
  case False
  then have "s1 = s" using put_rejected [of f t row s s1] assms(2) by simp
  then show ?thesis using assms(1) by simp
next
  case True
  then have stored: "put f t row s = (True, s1)" and w: "W (pw_recordingMbid row) (written row t)" using assms(2,4) by simp_all
  show ?thesis
    unfolding rows_ok_def
  proof (intro allI impI)
    fix f' t' i p
    assume p: "get f' t' i s1 = Some (Some p)"
    show "sp_recordingMbid p = i \<and> (\<forall>u. sp_storeUrl p = Some u \<longrightarrow> Q u) \<and> (W i p \<or> sp_revalidateAfter p \<le> t')"
    proof (cases "i = pw_recordingMbid row")
      case same: True
      then have "p = written row t" using put_done [OF stored p] by simp
      then show ?thesis using assms(3) w same by (auto simp: written_def)
    next
      case False
      then have "get f' t' i s = Some (Some p)" using put_done [OF stored p] by simp
      then show ?thesis using assms(1) unfolding rows_ok_def by blast
    qed
  qed
qed

text \<open>What a live resolution answers and leaves behind; \<open>W\<close> holds of the row that it writes.\<close>

lemma live_step:
  assumes "rows_ok get (store_link url_of) W s" and "sq_urlOf sq = url_of"
    and "\<And>row w s1. itunes_row sq pc track row \<Longrightarrow> put (qv_putFails pc) (qv_putNow pc) w s = (True, s1) \<Longrightarrow> W (tk_recordingMbid track) row"
    and "resolveLive \<lparr>ps_get = get, ps_put = put\<rparr> sq pc track s = (a, s1)"
  shows "rows_ok get (store_link url_of) W s1 \<and>
    (\<forall>r. a = Some (Some r) \<longrightarrow> licensed url_of (qv_endNow pc) r \<and> pr_recordingMbid r = tk_recordingMbid track \<and>
       comes_from (W (tk_recordingMbid track)) (deezer_pick sq (qv_parseNow pc) track) r)"
proof (cases "from_deezer sq pc track = a \<and> s1 = s")
  case True
  then show ?thesis using assms(1) from_deezer_licensed by blast
next
  case False
  then obtain p storeUrl where pick: "itunes_pick sq track p" and link: "appleStoreUrl url_of (it_trackViewUrl p) = Some storeUrl"
    and step: "keep_itunes \<lparr>ps_get = get, ps_put = put\<rparr> pc (tk_recordingMbid track) p storeUrl s = (a, s1)"
    using assms(2,4) unfolding resolveLive_def by (auto split: option.splits sum.splits dest: itunes_resolve_pick)
  note ok = appleStoreUrl_link [OF link]
  let ?w = "\<lparr>pw_recordingMbid = tk_recordingMbid track, pw_provider = Itunes, pw_url = it_previewUrl p,
    pw_durationMs = it_durationMs p, pw_storeUrl = Some storeUrl\<rparr>"
  obtain stored where put: "put (qv_putFails pc) (qv_putNow pc) ?w s = (stored, s1)"
    and a: "a = (if stored then Some (Some (itunes_preview_of (tk_recordingMbid track) (it_previewUrl p) (it_durationMs p) storeUrl)) else None)"
    using step by (auto simp: keep_itunes_def split: prod.splits)
  have row: "itunes_row sq pc track (written ?w (qv_putNow pc))"
    using pick link assms(2) unfolding itunes_row_def by blast
  have W: "W (tk_recordingMbid track) (written ?w (qv_putNow pc))" if stored
    by (rule assms(3) [OF row]) (use put that in simp)
  have "rows_ok get (store_link url_of) W s1"
    by (rule put_keeps_rows [OF assms(1) put]) (use ok W in simp_all)
  moreover have "comes_from (W (tk_recordingMbid track)) D (itunes_preview_of (tk_recordingMbid track) (it_previewUrl p) (it_durationMs p) storeUrl)"
    if stored for D
    using W [OF that] unfolding comes_from_def itunes_preview_of_def by (auto simp: written_def)
  ultimately show ?thesis using ok a by (auto simp: licensed_def itunes_preview_of_def)
qed

lemma preview_step_ok:
  assumes "rows_ok get (store_link url_of) W s" and "sq_urlOf sq = url_of"
    and "\<And>track row w s1. q = Pv_resolve track \<Longrightarrow> itunes_row sq pc track row \<Longrightarrow>
      resolveCached \<lparr>ps_get = get, ps_put = put\<rparr> pc (tk_recordingMbid track) s = Some None \<Longrightarrow>
      put (qv_putFails pc) (qv_putNow pc) w s = (True, s1) \<Longrightarrow> W (tk_recordingMbid track) row"
    and "preview_step \<lparr>ps_get = get, ps_put = put\<rparr> (sq, pc, q) s = (a, s1)"
  shows "rows_ok get (store_link url_of) W s1 \<and>
    (\<forall>r. a = Some (Some r) \<longrightarrow> licensed url_of (qv_endNow pc) r \<and> pr_recordingMbid r = asked_for q \<and>
       comes_from (W (asked_for q)) (deezer_answer sq pc q) r)"
proof -
  have cached: "licensed url_of (qv_endNow pc) r \<and> pr_recordingMbid r = i \<and> comes_from (W i) D r"
    if "resolveCached \<lparr>ps_get = get, ps_put = put\<rparr> pc i s = Some (Some r)" for i r D
    using cached_answer [OF assms(1) that] unfolding comes_from_def by (auto simp: licensed_def itunes_preview_of_def)
  show ?thesis
  proof (cases q)
    case (Pv_cached i)
    then show ?thesis using assms(1,4) cached by auto
  next
    case (Pv_resolve track)
    have eta: "deezer_answer sq pc (Pv_resolve track) = deezer_pick sq (qv_parseNow pc) track" by (rule ext) simp
    let ?c = "resolveCached \<lparr>ps_get = get, ps_put = put\<rparr> pc (tk_recordingMbid track) s"
    consider "?c = None" | p where "?c = Some (Some p)" | "?c = Some None" by (cases ?c; cases "the ?c") auto
    then show ?thesis
    proof cases
      case 3
      then have "resolveLive \<lparr>ps_get = get, ps_put = put\<rparr> sq pc track s = (a, s1)"
        using assms(4) Pv_resolve by (simp add: resolve_preview_def)
      from live_step [OF assms(1,2) _ this] assms(3) [OF Pv_resolve _ 3] show ?thesis
        unfolding Pv_resolve eta asked_for.simps by blast
    qed (use assms(1,4) Pv_resolve cached in \<open>auto simp: resolve_preview_def\<close>)
  next
    case (Pv_refresh track)
    have eta: "deezer_answer sq pc (Pv_refresh track) = deezer_pick sq (qv_parseNow pc) track" by (rule ext) simp
    have "licensed url_of (qv_endNow pc) r \<and> pr_recordingMbid r = tk_recordingMbid track \<and>
        comes_from (W (tk_recordingMbid track)) (deezer_pick sq (qv_parseNow pc) track) r"
      if a: "a = Some (Some r)" for r
    proof (cases "resolveCached \<lparr>ps_get = get, ps_put = put\<rparr> pc (tk_recordingMbid track) s = Some (Some r)")
      case True
      then show ?thesis by (rule cached)
    next
      case False
      with a assms(4) Pv_refresh obtain request p where request: "sq_deezer sq = Some request"
        "deezer_resolvePreview (sq_toString sq) request (qv_parseNow pc) (tk_artistName track) (tk_title track) = Inr (Some p)"
        and r: "fromDeezer (tk_recordingMbid track) p (qv_endNow pc) = Some r"
        by (auto simp: refreshForPlayback_def split: option.splits sum.splits)
      show ?thesis by (rule fromDeezer_licensed [where D = "deezer_pick sq (qv_parseNow pc) track", OF r deezer_resolve_pick [OF request]])
    qed
    then show ?thesis using assms(1,4) unfolding Pv_refresh eta asked_for.simps by simp
  qed
qed

end

interpretation memory: keeps_previews memory_get memory_put
  by unfold_locales (auto simp: memory_get_def memory_put_def split: if_splits)

interpretation pg: keeps_previews pg_preview_get pg_preview_put
  by unfold_locales
    (auto simp: pg_preview_get_def pg_preview_put_def written_def toEpochMs_def split: if_splits option.splits)

lemma pg_step: "preview_step \<lparr>ps_get = pg_preview_get, ps_put = pg_preview_put\<rparr> = preview_step pg_previews"
  by (simp add: pg_previews_def)

text \<open>The events that wrote a row: a resolution of the recording that found no valid row, picked a preview
  with a link to the store, and whose write was done.\<close>

definition written_by :: "preview_event list \<Rightarrow> string \<Rightarrow> stored_preview \<Rightarrow> bool" where
  "written_by es i row \<longleftrightarrow> (\<exists>pre sq pc track post. es = pre @ (sq, pc, Pv_resolve track) # post \<and>
     tk_recordingMbid track = i \<and> itunes_row sq pc track row \<and> \<not> qv_putFails pc \<and>
     resolveCached pg_previews pc i (previews_after pg_previews pre Map.empty) = Some None)"

lemma written_by_more: "written_by es i row \<Longrightarrow> written_by (es @ es') i row"
  unfolding written_by_def by force

definition parses_with :: "url_parser \<Rightarrow> preview_event list \<Rightarrow> bool" where
  "parses_with url_of es \<longleftrightarrow> (\<forall>(sq, pc, q) \<in> set es. sq_urlOf sq = url_of)"

lemma pg_put_fine: "pg_preview_put f t row s = (True, s1) \<Longrightarrow> \<not> f"
  by (auto simp: pg_preview_put_def split: if_splits)

lemma written_now:
  assumes "q = Pv_resolve track" "itunes_row sq pc track row"
    "resolveCached pg_previews pc (tk_recordingMbid track) (previews_after pg_previews es Map.empty) = Some None"
    "pg_preview_put (qv_putFails pc) (qv_putNow pc) w s = (True, s1)"
  shows "written_by (es @ [(sq, pc, q)]) (tk_recordingMbid track) row"
  unfolding written_by_def
  by (intro exI [of _ es] exI [of _ sq] exI [of _ pc] exI [of _ track] exI [of _ "[]"])
    (use assms pg_put_fine [OF assms(4)] in simp)

lemma run_step:
  assumes "rows_ok pg_preview_get (store_link url_of) (written_by es) (previews_after pg_previews es Map.empty)"
    and "sq_urlOf sq = url_of" and "preview_step pg_previews (sq, pc, q) (previews_after pg_previews es Map.empty) = (a, s1)"
  shows "rows_ok pg_preview_get (store_link url_of) (written_by (es @ [(sq, pc, q)])) s1 \<and>
    (\<forall>r. a = Some (Some r) \<longrightarrow> licensed url_of (qv_endNow pc) r \<and> pr_recordingMbid r = asked_for q \<and>
       comes_from (written_by (es @ [(sq, pc, q)]) (asked_for q)) (deezer_answer sq pc q) r)"
proof -
  have step: "preview_step \<lparr>ps_get = pg_preview_get, ps_put = pg_preview_put\<rparr> (sq, pc, q) (previews_after pg_previews es Map.empty) = (a, s1)"
    using assms(3) by (simp only: pg_step)
  show ?thesis
  proof (rule pg.preview_step_ok [OF _ assms(2) _ step])
    show "rows_ok pg_preview_get (store_link url_of) (written_by (es @ [(sq, pc, q)])) (previews_after pg_previews es Map.empty)"
      by (rule rows_ok_mono [OF assms(1) written_by_more])
  next
    fix track row w s2
    assume "q = Pv_resolve track" "itunes_row sq pc track row"
      "resolveCached \<lparr>ps_get = pg_preview_get, ps_put = pg_preview_put\<rparr> pc (tk_recordingMbid track) (previews_after pg_previews es Map.empty) = Some None"
      "pg_preview_put (qv_putFails pc) (qv_putNow pc) w (previews_after pg_previews es Map.empty) = (True, s2)"
    then show "written_by (es @ [(sq, pc, q)]) (tk_recordingMbid track) row"
      by (intro written_now) (simp_all only: pg_previews_def)
  qed
qed

lemma rows_of_run:
  "parses_with url_of es \<Longrightarrow> rows_ok pg_preview_get (store_link url_of) (written_by es) (previews_after pg_previews es Map.empty)"
proof (induction es rule: rev_induct)
  case Nil
  then show ?case by (simp add: rows_ok_def previews_after_def pg_preview_get_def)
next
  case (snoc e es)
  obtain sq pc q where e: "e = (sq, pc, q)" by (cases e)
  let ?s = "previews_after pg_previews es Map.empty"
  obtain a s1 where step: "preview_step pg_previews (sq, pc, q) ?s = (a, s1)" by (cases "preview_step pg_previews (sq, pc, q) ?s")
  have "sq_urlOf sq = url_of" "parses_with url_of es" using snoc.prems by (simp_all add: parses_with_def e)
  from run_step [OF snoc.IH [OF this(2)] this(1) step] step show ?case by (simp add: previews_after_def e)
qed

lemma only_itunes_stored:
  "k \<in> dom (previews_after pg_previews es Map.empty) \<Longrightarrow> snd k = Itunes"
proof (induction es rule: rev_induct)
  case Nil
  then show ?case by (simp add: previews_after_def)
next
  case (snoc e es)
  have put: "dom (snd (pg_preview_put f t row s)) \<subseteq> insert (pw_recordingMbid row, Itunes) (dom s)" for f t row s
    by (auto simp: pg_preview_put_def)
  have "dom (snd (preview_step pg_previews e s)) \<subseteq> dom s \<union> {k. snd k = Itunes}" for s
    using put by (cases "(pg_previews, e, s)" rule: preview_step.cases)
      (force simp: resolve_preview_def resolveLive_def keep_itunes_def pg_previews_def pg_preview_put_def split: option.splits sum.splits prod.splits if_splits)+
  then show ?case using snoc by (force simp: previews_after_def)
qed

subsection \<open>Properties\<close>

text \<open>Claim C39. Every preview that is handed out may be played as the licences say: whatever the services answer
  and whichever calls of the database fail, one of iTunes comes with the badge its licence demands, linking to a
  page of Apple's store, and one of Deezer has an end that has not passed and is marked as not to be kept. It is
  labelled with the recording that was asked for, and it is the best match that a service offered for the artist
  and title that a caller named for that recording: no candidate of that answer scores higher, and it scores at
  least two, which an exact artist or an exact title reaches alone. For Deezer that is an answer to this very request;
  for iTunes to a resolution of the recording, this one or an earlier one, that found no valid row and wrote the one
  that is served. The request path serves no row longer than thirty
  days after it was so written, and nothing but rows of iTunes is ever stored.\<close>

theorem previews_are_licensed:
  assumes "parses_with url_of (es @ [(sq, pc, q)])"
    and "fst (preview_step pg_previews (sq, pc, q) (previews_after pg_previews es Map.empty)) = Some (Some r)"
  shows "licensed url_of (qv_endNow pc) r \<and> pr_recordingMbid r = asked_for q \<and>
    comes_from (written_by (es @ [(sq, pc, q)]) (asked_for q)) (deezer_answer sq pc q) r \<and>
    (\<forall>i. q = Pv_cached i \<longrightarrow> (\<exists>row. written_by es i row \<and> pr_url r = sp_url row \<and>
       qv_now pc < sp_revalidateAfter row \<and> sp_revalidateAfter row = sp_resolvedAt row + PREVIEW_REVALIDATE_AFTER_MS)) \<and>
    snd ` dom (previews_after pg_previews (es @ [(sq, pc, q)]) Map.empty) \<subseteq> {Itunes}"
proof -
  let ?s = "previews_after pg_previews es Map.empty"
  have run: "parses_with url_of es" and sq: "sq_urlOf sq = url_of" using assms(1) by (simp_all add: parses_with_def)
  note rows = rows_of_run [OF run]
  obtain a s1 where step: "preview_step pg_previews (sq, pc, q) ?s = (a, s1)" by (cases "preview_step pg_previews (sq, pc, q) ?s")
  have "licensed url_of (qv_endNow pc) r \<and> pr_recordingMbid r = asked_for q \<and>
      comes_from (written_by (es @ [(sq, pc, q)]) (asked_for q)) (deezer_answer sq pc q) r"
    using run_step [OF rows sq step] assms(2) step by simp
  moreover have "\<exists>row. written_by es i row \<and> pr_url r = sp_url row \<and> qv_now pc < sp_revalidateAfter row \<and>
      sp_revalidateAfter row = sp_resolvedAt row + PREVIEW_REVALIDATE_AFTER_MS" if "q = Pv_cached i" for i
  proof -
    from pg.cached_answer [OF rows, of pc i r] assms(2) that obtain row u where
      "r = itunes_preview_of i (sp_url row) (sp_durationMs row) u" "written_by es i row" "qv_now pc < sp_revalidateAfter row"
      by (auto simp: pg_previews_def)
    moreover from this(2) have "sp_revalidateAfter row = sp_resolvedAt row + PREVIEW_REVALIDATE_AFTER_MS"
      by (auto simp: written_by_def itunes_row_def written_def)
    ultimately show ?thesis by (auto simp: itunes_preview_of_def)
  qed
  ultimately show ?thesis using only_itunes_stored by blast
qed

definition demo_url_of :: url_parser where
  "demo_url_of raw = Some (''https:'', ''music.apple.com'', raw)"

definition demo_services :: preview_services where
  "demo_services = \<lparr>sq_urlOf = demo_url_of, sq_toString = (\<lambda>s. s), sq_country = ''US'',
     sq_itunes = Some (\<lambda>_. Inr (JObj [(''results'', JArr [JObj [(''previewUrl'', JStr ''p''), (''trackName'', JStr ''T''), (''artistName'', JStr ''A''),
       (''trackViewUrl'', JStr ''v'')]])])), sq_deezer = None\<rparr>"

definition demo_preview_event :: preview_event where
  "demo_preview_event = (demo_services, \<lparr>qv_getFails = False, qv_now = 0, qv_putFails = False, qv_putNow = 0, qv_parseNow = 0, qv_endNow = 0\<rparr>,
     Pv_resolve \<lparr>tk_recordingMbid = ''m'', tk_artistName = ''a'', tk_title = ''t''\<rparr>)"

lemma demo_preview: "(case fst (preview_step pg_previews demo_preview_event Map.empty) of Some (Some r) \<Rightarrow> pr_url r = ''p'' | _ \<Rightarrow> False)"
  by code_simp

theorem previews_are_licensed_witness:
  "\<exists>r. fst (preview_step pg_previews demo_preview_event Map.empty) = Some (Some r) \<and> pr_url r = ''p'' \<and> licensed demo_url_of 0 r \<and>
     (pr_provider r = Itunes \<longrightarrow> (\<exists>row. written_by [demo_preview_event] ''m'' row \<and> sp_url row = ''p''))"
proof -
  obtain r where r: "fst (preview_step pg_previews demo_preview_event Map.empty) = Some (Some r)" "pr_url r = ''p''"
    using demo_preview by (auto split: option.splits)
  obtain sq pc q where e: "demo_preview_event = (sq, pc, q)" by (cases demo_preview_event)
  then have "parses_with demo_url_of ([] @ [(sq, pc, q)])" "qv_endNow pc = 0"
    by (auto simp: parses_with_def demo_preview_event_def demo_services_def)
  moreover have "asked_for q = ''m''" using e by (auto simp: demo_preview_event_def)
  ultimately have "licensed demo_url_of 0 r" "comes_from (written_by [demo_preview_event] ''m'') (deezer_answer sq pc q) r"
    using previews_are_licensed [of demo_url_of "[]" sq pc q r] r e by (simp_all add: previews_after_def)
  then show ?thesis using r unfolding comes_from_def by auto
qed

text \<open>The choice among the candidates is not what its comment says: one by the right artist is taken whatever its
  title is, when nothing better is there.\<close>

theorem same_artist_any_track:
  "pickBestMatch [c] (it_artistName c) title = Some c"
  by (simp add: pickBestMatch_def best_match_def keep_best_def match_score_def half_score_def)

end
