(* ===== verification/Circuit_Breaker.thy ===== *)
theory Circuit_Breaker
  imports Pf_Prelude "HOL-Library.Sublist"
begin

text \<open>
  The per-provider circuit breaker, \<^verbatim>\<open>packages/upstream/src/circuit-breaker.ts\<close>. The
  object's private fields are the record \<open>circuit_breaker\<close>; each method takes the
  reading of the injected clock where the code calls \<open>this.#clock.now()\<close> and returns
  the updated object. The getter \<open>state\<close> mutates (it moves an expired open circuit to
  half-open), so it is a state transformer here too.
\<close>

datatype breaker_state = Closed | Open | Half_open

record breaker_policy =
  pol_failureThreshold :: int
  pol_resetTimeoutMs :: int
  pol_successThreshold :: "int option"
  pol_maxResetTimeoutMs :: "int option"

text \<open>
  \<open>#nextAttemptAt\<close> is null, a timestamp, or the NaN that \<open>0 * Infinity\<close> gives when the
  streak overflows a double; every comparison with NaN is false.
\<close>

datatype attempt_time = No_attempt | Attempt_NaN | Attempt_at time

record circuit_breaker =
  cb_failureThreshold :: int
  cb_resetTimeoutMs :: int
  cb_successThreshold :: int
  cb_maxResetTimeoutMs :: int
  cb_state :: breaker_state
  cb_consecutiveFailures :: int
  cb_halfOpenSuccesses :: int
  cb_halfOpenInFlight :: int
  cb_openedAt :: "time option"
  cb_nextAttemptAt :: attempt_time
  cb_opens :: int
  cb_openStreak :: int

record breaker_snapshot =
  snap_state :: breaker_state
  snap_consecutiveFailures :: int
  snap_openedAt :: "time option"
  snap_nextAttemptAt :: attempt_time
  snap_opens :: int

datatype policy_error = Bad_failureThreshold | Bad_resetTimeoutMs | Bad_maxResetTimeoutMs

definition cb_new :: "breaker_policy \<Rightarrow> policy_error + circuit_breaker" where
  "cb_new p =
     (if pol_failureThreshold p < 1 then Inl Bad_failureThreshold
      else if pol_resetTimeoutMs p < 0 then Inl Bad_resetTimeoutMs
      else if (case pol_maxResetTimeoutMs p of None \<Rightarrow> False
               | Some m \<Rightarrow> m < pol_resetTimeoutMs p) then Inl Bad_maxResetTimeoutMs
      else Inr \<lparr>cb_failureThreshold = pol_failureThreshold p,
                cb_resetTimeoutMs = pol_resetTimeoutMs p,
                cb_successThreshold = orelse (pol_successThreshold p) 2,
                cb_maxResetTimeoutMs = orelse (pol_maxResetTimeoutMs p) (pol_resetTimeoutMs p),
                cb_state = Closed, cb_consecutiveFailures = 0, cb_halfOpenSuccesses = 0,
                cb_halfOpenInFlight = 0, cb_openedAt = None, cb_nextAttemptAt = No_attempt,
                cb_opens = 0, cb_openStreak = 0\<rparr>)"

definition reached :: "time \<Rightarrow> attempt_time \<Rightarrow> bool" where
  "reached now a = (case a of Attempt_at t \<Rightarrow> t \<le> now | _ \<Rightarrow> False)"

lemma reached_simps [simp]:
  "reached now No_attempt = False"
  "reached now Attempt_NaN = False"
  "reached now (Attempt_at t) = (t \<le> now)"
  by (simp_all add: reached_def)

text \<open>The getter \<open>state\<close>: the lazy move from open to half-open, then a read.\<close>

definition cb_refresh :: "time \<Rightarrow> circuit_breaker \<Rightarrow> circuit_breaker" where
  "cb_refresh now cb =
     (if cb_state cb = Open \<and> reached now (cb_nextAttemptAt cb)
      then cb\<lparr>cb_state := Half_open, cb_halfOpenSuccesses := 0, cb_halfOpenInFlight := 0\<rparr>
      else cb)"

definition cb_snapshot :: "time \<Rightarrow> circuit_breaker \<Rightarrow> breaker_snapshot \<times> circuit_breaker" where
  "cb_snapshot now cb =
     (let cb' = cb_refresh now cb
      in (\<lparr>snap_state = cb_state cb', snap_consecutiveFailures = cb_consecutiveFailures cb',
           snap_openedAt = cb_openedAt cb', snap_nextAttemptAt = cb_nextAttemptAt cb',
           snap_opens = cb_opens cb'\<rparr>, cb'))"

definition cb_tryAcquire :: "time \<Rightarrow> circuit_breaker \<Rightarrow> bool \<times> circuit_breaker" where
  "cb_tryAcquire now cb =
     (let cb' = cb_refresh now cb
      in case cb_state cb' of
           Closed \<Rightarrow> (True, cb')
         | Open \<Rightarrow> (False, cb')
         | Half_open \<Rightarrow>
             if cb_halfOpenInFlight cb' \<ge> cb_successThreshold cb' then (False, cb')
             else (True, cb'\<lparr>cb_halfOpenInFlight := cb_halfOpenInFlight cb' + 1\<rparr>))"

text \<open>
  The backoff \<open>Math.min(max, reset * 2 ** (streak - 1))\<close> in doubles. A power of two
  below \<open>2 ^ 1024\<close> is exact and so is its product with an integer; from
  \<open>2 ** 1024\<close> on it is \<open>Infinity\<close>, whose product is \<open>Infinity\<close>, or NaN (here
  \<open>None\<close>) for a zero reset.
\<close>

definition cb_backoff :: "int \<Rightarrow> int \<Rightarrow> int \<Rightarrow> int option" where
  "cb_backoff mx reset streak =
     (if streak - 1 < 1024 then Some (min mx (reset * 2 ^ nat (streak - 1)))
      else if reset = 0 then None else Some mx)"

definition cb_open :: "time \<Rightarrow> circuit_breaker \<Rightarrow> circuit_breaker" where
  "cb_open now cb =
     (let streak = cb_openStreak cb + 1
      in cb\<lparr>cb_state := Open, cb_opens := cb_opens cb + 1, cb_openStreak := streak,
            cb_openedAt := Some now,
            cb_nextAttemptAt :=
              (case cb_backoff (cb_maxResetTimeoutMs cb) (cb_resetTimeoutMs cb) streak of
                 None \<Rightarrow> Attempt_NaN
               | Some d \<Rightarrow> Attempt_at (now + d)),
            cb_halfOpenSuccesses := 0, cb_halfOpenInFlight := 0\<rparr>)"

definition cb_close :: "circuit_breaker \<Rightarrow> circuit_breaker" where
  "cb_close cb =
     cb\<lparr>cb_state := Closed, cb_consecutiveFailures := 0, cb_halfOpenSuccesses := 0,
        cb_halfOpenInFlight := 0, cb_openedAt := None, cb_nextAttemptAt := No_attempt,
        cb_openStreak := 0\<rparr>"

definition cb_recordSuccess :: "circuit_breaker \<Rightarrow> circuit_breaker" where
  "cb_recordSuccess cb =
     (if cb_state cb = Half_open then
        let cb1 = cb\<lparr>cb_halfOpenInFlight := max 0 (cb_halfOpenInFlight cb - 1),
                     cb_halfOpenSuccesses := cb_halfOpenSuccesses cb + 1,
                     cb_openStreak := 0\<rparr>
        in if cb_halfOpenSuccesses cb1 \<ge> cb_successThreshold cb1 then cb_close cb1 else cb1
      else cb\<lparr>cb_consecutiveFailures := 0\<rparr>)"

definition cb_recordFailure :: "time \<Rightarrow> circuit_breaker \<Rightarrow> circuit_breaker" where
  "cb_recordFailure now cb =
     (if cb_state cb = Half_open then
        cb_open now (cb\<lparr>cb_halfOpenInFlight := max 0 (cb_halfOpenInFlight cb - 1)\<rparr>)
      else
        let cb1 = cb\<lparr>cb_consecutiveFailures := cb_consecutiveFailures cb + 1\<rparr>
        in if cb_consecutiveFailures cb1 \<ge> cb_failureThreshold cb1 then cb_open now cb1 else cb1)"

definition cb_reset :: "circuit_breaker \<Rightarrow> circuit_breaker" where
  "cb_reset cb = cb_close cb"

lemmas cb_method_defs = cb_refresh_def cb_snapshot_def cb_tryAcquire_def cb_open_def cb_close_def
  cb_recordSuccess_def cb_recordFailure_def cb_reset_def

subsection \<open>Runs of method calls\<close>

datatype breaker_op = Acquire | Succeed | Fail | Reset | Read_state

text \<open>One call at a clock reading: the answer of \<open>tryAcquire\<close> (true for the others), and the object.\<close>

fun cb_call :: "time \<Rightarrow> breaker_op \<Rightarrow> circuit_breaker \<Rightarrow> bool \<times> circuit_breaker" where
  "cb_call now Acquire cb = cb_tryAcquire now cb"
| "cb_call now Succeed cb = (True, cb_recordSuccess cb)"
| "cb_call now Fail cb = (True, cb_recordFailure now cb)"
| "cb_call now Reset cb = (True, cb_reset cb)"
| "cb_call now Read_state cb = (True, snd (cb_snapshot now cb))"

fun cb_run :: "circuit_breaker \<Rightarrow> (time \<times> breaker_op) list \<Rightarrow> circuit_breaker" where
  "cb_run cb [] = cb"
| "cb_run cb ((now, e) # es) = cb_run (snd (cb_call now e cb)) es"

text \<open>The calls that \<open>tryAcquire\<close> let through during a run.\<close>

fun cb_admitted :: "circuit_breaker \<Rightarrow> (time \<times> breaker_op) list \<Rightarrow> nat" where
  "cb_admitted cb [] = 0"
| "cb_admitted cb ((now, e) # es) =
     (if e = Acquire \<and> fst (cb_call now e cb) then 1 else 0) + cb_admitted (snd (cb_call now e cb)) es"

subsection \<open>The state invariant\<close>

text \<open>
  What the fields agree on in each state. In an open circuit the next attempt is the
  backoff of the current streak after the moment it opened; in half-open at most
  \<open>successThreshold\<close> trial slots are taken and fewer successes than that were counted.
\<close>

definition cb_cfg_ok :: "circuit_breaker \<Rightarrow> bool" where
  "cb_cfg_ok cb \<longleftrightarrow> 1 \<le> cb_failureThreshold cb \<and> 0 \<le> cb_resetTimeoutMs cb \<and>
     cb_resetTimeoutMs cb \<le> cb_maxResetTimeoutMs cb"

fun cb_state_ok :: "breaker_state \<Rightarrow> circuit_breaker \<Rightarrow> bool" where
  "cb_state_ok Closed cb \<longleftrightarrow>
     cb_consecutiveFailures cb < cb_failureThreshold cb \<and> cb_openedAt cb = None \<and>
     cb_nextAttemptAt cb = No_attempt \<and> cb_halfOpenInFlight cb = 0 \<and>
     cb_halfOpenSuccesses cb = 0 \<and> cb_openStreak cb = 0"
| "cb_state_ok Open cb \<longleftrightarrow>
     (\<exists>t. cb_openedAt cb = Some t \<and> 1 \<le> cb_openStreak cb \<and>
        cb_nextAttemptAt cb =
          (case cb_backoff (cb_maxResetTimeoutMs cb) (cb_resetTimeoutMs cb) (cb_openStreak cb) of
             None \<Rightarrow> Attempt_NaN | Some d \<Rightarrow> Attempt_at (t + d))) \<and>
     cb_halfOpenInFlight cb = 0 \<and> cb_halfOpenSuccesses cb = 0"
| "cb_state_ok Half_open cb \<longleftrightarrow>
     (\<exists>t. cb_openedAt cb = Some t) \<and> 0 \<le> cb_halfOpenInFlight cb \<and>
     cb_halfOpenInFlight cb \<le> max 0 (cb_successThreshold cb) \<and> 0 \<le> cb_halfOpenSuccesses cb \<and>
     cb_halfOpenSuccesses cb < max 1 (cb_successThreshold cb)"

definition cb_inv :: "circuit_breaker \<Rightarrow> bool" where
  "cb_inv cb \<longleftrightarrow> cb_cfg_ok cb \<and> 0 \<le> cb_consecutiveFailures cb \<and> 0 \<le> cb_opens cb \<and>
     0 \<le> cb_openStreak cb \<and> cb_openStreak cb \<le> cb_opens cb \<and> cb_state_ok (cb_state cb) cb"

lemma cb_inv_new: "cb_new p = Inr cb \<Longrightarrow> cb_inv cb"
  by (auto simp: cb_new_def cb_inv_def cb_cfg_ok_def split: if_splits option.splits)

lemma cb_inv_refresh: "cb_inv cb \<Longrightarrow> cb_inv (cb_refresh now cb)"
  by (auto simp: cb_refresh_def cb_inv_def cb_cfg_ok_def)

lemma cb_inv_close: "cb_inv cb \<Longrightarrow> cb_inv (cb_close cb)"
  by (simp add: cb_close_def cb_inv_def cb_cfg_ok_def)

lemma cb_inv_open:
  "cb_cfg_ok cb \<Longrightarrow> 0 \<le> cb_consecutiveFailures cb \<Longrightarrow> 0 \<le> cb_openStreak cb \<Longrightarrow>
   cb_openStreak cb \<le> cb_opens cb \<Longrightarrow> cb_inv (cb_open now cb)"
  by (simp add: cb_open_def cb_inv_def cb_cfg_ok_def Let_def)

lemma cb_inv_recordFailure:
  assumes "cb_inv cb"
  shows "cb_inv (cb_recordFailure now cb)"
proof (cases "cb_state cb = Half_open \<or> cb_failureThreshold cb \<le> cb_consecutiveFailures cb + 1")
  case True
  from assms have "cb_cfg_ok cb" "0 \<le> cb_consecutiveFailures cb" "0 \<le> cb_openStreak cb"
    "cb_openStreak cb \<le> cb_opens cb"
    by (simp_all add: cb_inv_def)
  with True show ?thesis
    by (auto simp: cb_recordFailure_def Let_def cb_cfg_ok_def intro!: cb_inv_open)
next
  case False
  with assms show ?thesis
    by (cases "cb_state cb") (auto simp: cb_recordFailure_def Let_def cb_inv_def cb_cfg_ok_def)
qed

lemma cb_inv_recordSuccess: "cb_inv cb \<Longrightarrow> cb_inv (cb_recordSuccess cb)"
  by (cases "cb_state cb") (auto simp: cb_recordSuccess_def cb_inv_def cb_cfg_ok_def Let_def cb_close_def)

lemma cb_inv_tryAcquire: "cb_inv cb \<Longrightarrow> cb_inv (snd (cb_tryAcquire now cb))"
  using cb_inv_refresh [of cb now]
  by (cases "cb_state (cb_refresh now cb)") (auto simp: cb_tryAcquire_def Let_def cb_inv_def cb_cfg_ok_def)

lemma cb_inv_call: "cb_inv cb \<Longrightarrow> cb_inv (snd (cb_call now e cb))"
  by (cases e) (simp_all add: cb_inv_tryAcquire cb_inv_recordSuccess cb_inv_recordFailure
      cb_inv_close cb_reset_def cb_snapshot_def Let_def cb_inv_refresh)

interpretation breaker: machine "\<lambda>(now, e) cb. snd (cb_call now e cb)" cb_inv
  by unfold_locales (auto simp: cb_inv_call)

lemma cb_run_calls: "cb_run cb es = run_calls (\<lambda>(now, e) cb. snd (cb_call now e cb)) cb es"
  by (induction cb es rule: cb_run.induct) simp_all

lemma cb_inv_run: "cb_inv cb \<Longrightarrow> cb_inv (cb_run cb es)"
  by (simp add: cb_run_calls breaker.inv_run)

subsection \<open>An open circuit\<close>

definition cb_until :: "circuit_breaker \<Rightarrow> time \<Rightarrow> bool" where
  "cb_until cb now \<longleftrightarrow> cb_state cb = Open \<and> \<not> reached now (cb_nextAttemptAt cb)"

lemma open_refuses:
  "cb_until cb now \<Longrightarrow> cb_tryAcquire now cb = (False, cb)"
  by (simp add: cb_until_def cb_tryAcquire_def cb_refresh_def)

lemma open_shed_run:
  assumes "cb_state cb = Open"
    and "\<forall>(now, e) \<in> set es. e \<in> {Acquire, Read_state} \<and> \<not> reached now (cb_nextAttemptAt cb)"
  shows "cb_run cb es = cb \<and> cb_admitted cb es = 0"
  using assms
proof (induction es)
  case (Cons e es)
  then show ?case
    by (cases e) (auto simp: cb_tryAcquire_def cb_snapshot_def cb_refresh_def Let_def)
qed simp

lemma backoff_bounds:
  assumes "0 \<le> reset" "reset \<le> mx" "1 \<le> streak" "0 < reset \<or> streak \<le> 1024"
  shows "\<exists>d. cb_backoff mx reset streak = Some d \<and> reset \<le> d \<and> d \<le> mx"
proof (cases "streak - 1 < 1024")
  case True
  have "reset * 1 \<le> reset * 2 ^ nat (streak - 1)"
    using assms(1) by (intro mult_left_mono) auto
  with True assms show ?thesis by (auto simp: cb_backoff_def)
next
  case False
  with assms show ?thesis by (auto simp: cb_backoff_def)
qed

subsection \<open>Tripping\<close>

lemma prefix_replicate_stop:
  "y \<noteq> x \<Longrightarrow> prefix (replicate k x) (replicate c x @ y # ys) \<longleftrightarrow> k \<le> c"
proof (induction k arbitrary: c)
  case (Suc k)
  then show ?case by (cases c) auto
qed simp

lemma sublist_replicate_stop:
  "y \<noteq> x \<Longrightarrow> c < k \<Longrightarrow>
   sublist (replicate k x) (replicate c x @ y # ys) \<longleftrightarrow> sublist (replicate k x) ys"
proof (induction c)
  case 0
  then show ?case using prefix_replicate_stop [of y x k 0 ys] by (simp add: sublist_Cons_right)
next
  case (Suc c)
  then show ?case
    using prefix_replicate_stop [of y x k "Suc c" ys] by (simp add: sublist_Cons_right)
qed

lemma open_stays_open:
  "cb_state cb = Open \<Longrightarrow> snd ` set es \<subseteq> {Succeed, Fail} \<Longrightarrow> cb_state (cb_run cb es) = Open"
proof (induction es arbitrary: cb)
  case (Cons e es)
  obtain now x where e: "e = (now, x)" by (cases e)
  with Cons.prems have "cb_state (snd (cb_call now x cb)) = Open"
    by (auto simp: cb_recordSuccess_def cb_recordFailure_def cb_open_def Let_def)
  with Cons e show ?case by simp
qed simp

lemma trip_iff:
  "cb_state cb = Closed \<Longrightarrow> 0 \<le> cb_consecutiveFailures cb \<Longrightarrow>
   cb_consecutiveFailures cb < cb_failureThreshold cb \<Longrightarrow> snd ` set es \<subseteq> {Succeed, Fail} \<Longrightarrow>
   cb_state (cb_run cb es) = Closed \<longleftrightarrow>
   \<not> sublist (replicate (nat (cb_failureThreshold cb)) Fail)
       (replicate (nat (cb_consecutiveFailures cb)) Fail @ map snd es)"
proof (induction es arbitrary: cb)
  case Nil
  then show ?case by (auto dest!: sublist_length_le)
next
  case (Cons e es)
  obtain now x where e: "e = (now, x)" by (cases e)
  let ?k = "nat (cb_failureThreshold cb)" and ?c = "nat (cb_consecutiveFailures cb)"
  show ?case
  proof (cases x)
    case Succeed
    with Cons.prems have "cb_state (cb_run (cb_recordSuccess cb) es) = Closed \<longleftrightarrow>
        \<not> sublist (replicate ?k Fail) (map snd es)"
      using Cons.IH [of "cb_recordSuccess cb"] by (auto simp: cb_recordSuccess_def)
    with Cons.prems Succeed e show ?thesis by (simp add: sublist_replicate_stop)
  next
    case Fail
    have app: "replicate ?c Fail @ map snd (e # es) = replicate (Suc ?c) Fail @ map snd es"
      using Fail e by (simp add: replicate_app_Cons_same)
    show ?thesis
    proof (cases "cb_failureThreshold cb \<le> cb_consecutiveFailures cb + 1")
      case True
      with Cons.prems have k: "?k = Suc ?c" by simp
      have "cb_state (cb_recordFailure now cb) = Open"
        using True Cons.prems by (simp add: cb_recordFailure_def cb_open_def Let_def)
      then have "cb_state (cb_run (cb_recordFailure now cb) es) = Open"
        using Cons.prems e by (intro open_stays_open) auto
      moreover have "sublist (replicate ?k Fail) (replicate ?c Fail @ map snd (e # es))"
        unfolding app k by (intro prefix_imp_sublist prefixI) simp
      ultimately show ?thesis using Fail e by simp
    next
      case False
      with Cons.prems have "cb_state (cb_run (cb_recordFailure now cb) es) = Closed \<longleftrightarrow>
          \<not> sublist (replicate ?k Fail)
              (replicate (nat (cb_consecutiveFailures cb + 1)) Fail @ map snd es)"
        using Cons.IH [of "cb_recordFailure now cb"] by (auto simp: cb_recordFailure_def Let_def)
      moreover have "nat (cb_consecutiveFailures cb + 1) = Suc ?c" using Cons.prems by simp
      ultimately show ?thesis unfolding app using Fail e by simp
    qed
  qed (use Cons.prems e in auto)
qed

subsection \<open>Half-open\<close>

lemma closed_stays_closed:
  "cb_state cb = Closed \<Longrightarrow> snd ` set es \<subseteq> {Acquire, Read_state, Succeed} \<Longrightarrow>
   cb_state (cb_run cb es) = Closed"
proof (induction es arbitrary: cb)
  case (Cons e es)
  obtain now x where e: "e = (now, x)" by (cases e)
  with Cons.prems have "cb_state (snd (cb_call now x cb)) = Closed"
    by (auto simp: cb_recordSuccess_def cb_tryAcquire_def cb_snapshot_def cb_refresh_def Let_def)
  with Cons e show ?case by simp
qed simp

lemma trial_balance:
  "cb_state cb = Half_open \<Longrightarrow> 0 \<le> cb_halfOpenInFlight cb \<Longrightarrow>
   cb_halfOpenInFlight cb \<le> max 0 (cb_successThreshold cb) \<Longrightarrow>
   snd ` set es \<subseteq> {Acquire, Read_state, Succeed} \<Longrightarrow> cb_state (cb_run cb es) = Half_open \<Longrightarrow>
   int (cb_admitted cb es) + cb_halfOpenInFlight cb \<le>
     max 0 (cb_successThreshold cb) + int (length (filter (\<lambda>e. snd e = Succeed) es))"
proof (induction es arbitrary: cb)
  case (Cons e es)
  obtain now x where e: "e = (now, x)" by (cases e)
  show ?case
  proof (cases x)
    case Acquire
    then show ?thesis
      using Cons.prems e Cons.IH [of "snd (cb_tryAcquire now cb)"]
      by (auto simp: cb_tryAcquire_def cb_refresh_def Let_def split: if_splits)
  next
    case Succeed
    have "cb_state (cb_recordSuccess cb) = Half_open"
    proof (rule ccontr)
      assume "\<not> ?thesis"
      then have "cb_state (cb_recordSuccess cb) = Closed"
        using Cons.prems(1) by (auto simp: cb_recordSuccess_def cb_close_def Let_def split: if_splits)
      then have "cb_state (cb_run (cb_recordSuccess cb) es) = Closed"
        using Cons.prems e by (intro closed_stays_closed) auto
      with Cons.prems e Succeed show False by simp
    qed
    then show ?thesis
      using Cons.prems e Succeed Cons.IH [of "cb_recordSuccess cb"]
      by (auto simp: cb_recordSuccess_def Let_def max_def cb_close_def split: if_splits)
  next
    case Read_state
    then show ?thesis
      using Cons.prems e Cons.IH [of "snd (cb_snapshot now cb)"]
      by (auto simp: cb_snapshot_def cb_refresh_def Let_def)
  qed (use Cons.prems e in auto)
qed simp

definition trials :: "time list \<Rightarrow> (time \<times> breaker_op) list" where
  "trials ts = concat (map (\<lambda>t. [(t, Acquire), (t, Succeed)]) ts)"

lemma trials_simps [simp]:
  "trials [] = []"
  "trials (t # ts) = (t, Acquire) # (t, Succeed) # trials ts"
  by (simp_all add: trials_def)

lemma half_open_trials:
  "cb_state cb = Half_open \<Longrightarrow> cb_halfOpenInFlight cb = 0 \<Longrightarrow>
   cb_halfOpenSuccesses cb + int (length ts) = cb_successThreshold cb \<Longrightarrow> ts \<noteq> [] \<Longrightarrow>
   0 \<le> cb_halfOpenSuccesses cb \<Longrightarrow>
   cb_state (cb_run cb (trials ts)) = Closed \<and> cb_admitted cb (trials ts) = length ts"
proof (induction ts arbitrary: cb)
  case (Cons t ts)
  let ?a = "snd (cb_tryAcquire t cb)"
  have a: "fst (cb_tryAcquire t cb)" "?a = cb\<lparr>cb_halfOpenInFlight := 1\<rparr>"
    using Cons.prems by (simp_all add: cb_tryAcquire_def cb_refresh_def)
  show ?case
  proof (cases "ts = []")
    case True
    with Cons.prems a show ?thesis by (simp add: cb_recordSuccess_def cb_close_def Let_def)
  next
    case False
    then have "0 < int (length ts)" by simp
    with Cons.prems(3) have "\<not> cb_successThreshold cb \<le> cb_halfOpenSuccesses cb + 1"
      by (simp only: length_Cons of_nat_Suc)
    with Cons.prems a have s: "cb_recordSuccess ?a =
        cb\<lparr>cb_halfOpenInFlight := 0, cb_halfOpenSuccesses := cb_halfOpenSuccesses cb + 1,
           cb_openStreak := 0\<rparr>"
      by (simp add: cb_recordSuccess_def Let_def)
    have "cb_state (cb_run (cb_recordSuccess ?a) (trials ts)) = Closed \<and>
        cb_admitted (cb_recordSuccess ?a) (trials ts) = length ts"
      using Cons.prems False s by (intro Cons.IH) auto
    with a show ?thesis by simp
  qed
qed simp

subsection \<open>A zero reset timeout and a very long outage\<close>

text \<open>One failure, then \<open>n\<close> rounds of a trial that fails, all at time 0.\<close>

fun outage :: "nat \<Rightarrow> (time \<times> breaker_op) list" where
  "outage 0 = [(0, Fail)]"
| "outage (Suc n) = outage n @ [(0, Acquire), (0, Fail)]"

lemma cb_run_append: "cb_run cb (es @ es') = cb_run (cb_run cb es) es'"
  by (induction cb es rule: cb_run.induct) simp_all

definition eager_policy :: breaker_policy where
  "eager_policy = \<lparr>pol_failureThreshold = 1, pol_resetTimeoutMs = 0,
     pol_successThreshold = None, pol_maxResetTimeoutMs = None\<rparr>"

lemma outage_state:
  assumes "cb_new eager_policy = Inr cb" "n \<le> 1024"
  shows "let c = cb_run cb (outage n) in
     cb_state c = Open \<and> cb_openStreak c = int n + 1 \<and> cb_resetTimeoutMs c = 0 \<and>
     cb_maxResetTimeoutMs c = 0 \<and> cb_successThreshold c = 2 \<and> cb_failureThreshold c = 1 \<and>
     cb_nextAttemptAt c = (if n < 1024 then Attempt_at 0 else Attempt_NaN)"
  using assms(2)
proof (induction n)
  case 0
  show ?case using assms(1)
    by (auto simp: cb_new_def eager_policy_def cb_recordFailure_def cb_open_def Let_def cb_backoff_def)
next
  case (Suc n)
  then show ?case
    by (auto simp: cb_run_append cb_tryAcquire_def cb_refresh_def cb_recordFailure_def cb_open_def
        Let_def cb_backoff_def)
qed

lemma nan_stuck:
  "cb_state cb = Open \<Longrightarrow> cb_nextAttemptAt cb = Attempt_NaN \<Longrightarrow> cb_resetTimeoutMs cb = 0 \<Longrightarrow>
   1025 \<le> cb_openStreak cb \<Longrightarrow> Reset \<notin> snd ` set es \<Longrightarrow>
   cb_state (cb_run cb es) = Open \<and> cb_admitted cb es = 0"
proof (induction es arbitrary: cb)
  case (Cons e es)
  obtain now x where e: "e = (now, x)" by (cases e)
  let ?c = "snd (cb_call now x cb)"
  have "cb_state ?c = Open \<and> cb_nextAttemptAt ?c = Attempt_NaN \<and> cb_resetTimeoutMs ?c = 0 \<and>
      1025 \<le> cb_openStreak ?c \<and> \<not> (x = Acquire \<and> fst (cb_call now x cb))"
    using Cons.prems e
    by (cases x) (auto simp: cb_tryAcquire_def cb_snapshot_def cb_refresh_def cb_recordSuccess_def
        cb_recordFailure_def cb_open_def Let_def cb_backoff_def)
  with Cons.IH [of ?c] Cons.prems(5) e show ?case by simp
qed simp

subsection \<open>Properties\<close>

abbreviation demo_breaker :: circuit_breaker where
  "demo_breaker \<equiv> \<lparr>cb_failureThreshold = 1, cb_resetTimeoutMs = 10, cb_successThreshold = 2,
     cb_maxResetTimeoutMs = 10, cb_state = Closed, cb_consecutiveFailures = 0,
     cb_halfOpenSuccesses = 0, cb_halfOpenInFlight = 0, cb_openedAt = None,
     cb_nextAttemptAt = No_attempt, cb_opens = 0, cb_openStreak = 0\<rparr>"

abbreviation half_open_demo :: circuit_breaker where
  "half_open_demo \<equiv> cb_refresh 13 (cb_recordFailure 3 demo_breaker)"



text \<open>Claim C1. Every breaker that the constructor accepts keeps the state invariant through any sequence of
  method calls at any clock readings.\<close>

theorem breaker_invariant:
  assumes "cb_new p = Inr cb"
  shows "cb_inv (cb_run cb es)"
  using cb_inv_run cb_inv_new [OF assms] by blast

theorem breaker_invariant_witness:
  "cb_inv (cb_run demo_breaker [(0, Fail), (20, Acquire)])"
  by (rule breaker_invariant [where p = "\<lparr>pol_failureThreshold = 1, pol_resetTimeoutMs = 10,
      pol_successThreshold = None, pol_maxResetTimeoutMs = None\<rparr>"]) (simp add: cb_new_def)

text \<open>From a fresh breaker, recorded outcomes alone leave the circuit closed if and only if they
  hold no block of \<open>failureThreshold\<close> consecutive failures: a success resets the count, and
  neither fewer nor scattered failures trip it.\<close>

theorem breaker_trips_exactly:
  assumes "cb_new p = Inr cb" and "snd ` set es \<subseteq> {Succeed, Fail}"
  shows "cb_state (cb_run cb es) = Closed \<longleftrightarrow>
    \<not> sublist (replicate (nat (pol_failureThreshold p)) Fail) (map snd es)"
proof -
  from assms(1) have "cb_state cb = Closed" "cb_consecutiveFailures cb = 0"
    "cb_failureThreshold cb = pol_failureThreshold p" "1 \<le> pol_failureThreshold p"
    by (auto simp: cb_new_def split: if_splits option.splits)
  with trip_iff [of cb es] assms(2) show ?thesis by simp
qed

theorem breaker_trips_exactly_witness:
  "\<exists>cb. cb_new eager_policy = Inr cb \<and>
     cb_state (cb_run cb [(5, Succeed), (6, Fail), (7, Succeed)]) \<noteq> Closed"
proof -
  obtain cb where cb: "cb_new eager_policy = Inr cb" by (simp add: cb_new_def eager_policy_def)
  have "sublist [Fail] [Succeed, Fail, Succeed]" by (simp add: sublist_Cons_right)
  with breaker_trips_exactly [OF cb, of "[(5, Succeed), (6, Fail), (7, Succeed)]"]
  have "cb_state (cb_run cb [(5, Succeed), (6, Fail), (7, Succeed)]) \<noteq> Closed"
    by (simp add: eager_policy_def)
  with cb show ?thesis by blast
qed

text \<open>A failure that opens the circuit at \<open>t0\<close> fixes one delay \<open>d\<close> between \<open>resetTimeoutMs\<close> and
  \<open>maxResetTimeoutMs\<close>: every call before \<open>t0 + d\<close> is refused and, from \<open>t0 + d\<close> on, a
  trial is admitted.\<close>

theorem breaker_recovery_window:
  assumes "cb_inv cb" and "cb_state cb \<noteq> Open" and "cb' = cb_recordFailure t0 cb"
    and "cb_state cb' = Open" and "0 < cb_resetTimeoutMs cb \<or> cb_openStreak cb < 1024"
  shows "\<exists>d. cb_resetTimeoutMs cb \<le> d \<and> d \<le> cb_maxResetTimeoutMs cb \<and>
    (\<forall>now. fst (cb_tryAcquire now cb') = (t0 + d \<le> now \<and> 1 \<le> cb_successThreshold cb))"
proof -
  have c: "0 \<le> cb_resetTimeoutMs cb" "cb_resetTimeoutMs cb \<le> cb_maxResetTimeoutMs cb"
    "0 \<le> cb_openStreak cb"
    using assms(1) by (simp_all add: cb_inv_def cb_cfg_ok_def)
  with assms(5) obtain d where
    d: "cb_backoff (cb_maxResetTimeoutMs cb) (cb_resetTimeoutMs cb) (cb_openStreak cb + 1) = Some d"
    "cb_resetTimeoutMs cb \<le> d" "d \<le> cb_maxResetTimeoutMs cb"
    using backoff_bounds [of "cb_resetTimeoutMs cb" "cb_maxResetTimeoutMs cb" "cb_openStreak cb + 1"]
    by auto
  have "cb_nextAttemptAt cb' = Attempt_at (t0 + d)" "cb_successThreshold cb' = cb_successThreshold cb"
    using assms(2-4) d(1)
    by (cases "cb_state cb"; auto simp: cb_recordFailure_def cb_open_def Let_def split: if_splits)+
  with assms(4) d show ?thesis
    by (intro exI [of _ d]) (auto simp: cb_tryAcquire_def cb_refresh_def Let_def)
qed

theorem breaker_recovery_window_witness:
  "\<exists>d. 10 \<le> d \<and> d \<le> 10 \<and> (\<forall>now. fst (cb_tryAcquire now (cb_recordFailure 3 demo_breaker)) =
     (3 + d \<le> now \<and> 1 \<le> (2::int)))"
proof -
  have "cb_inv demo_breaker" by (simp add: cb_inv_def cb_cfg_ok_def)
  then show ?thesis
    using breaker_recovery_window [of demo_breaker "cb_recordFailure 3 demo_breaker" 3]
    by (simp add: cb_recordFailure_def cb_open_def Let_def)
qed

text \<open>While the circuit stays half-open, the trials let through exceed the completed ones by at
  most \<open>successThreshold\<close>, however many callers ask.\<close>

theorem breaker_trial_cap:
  assumes "cb_inv cb" and "cb_state cb = Half_open"
    and "snd ` set es \<subseteq> {Acquire, Read_state, Succeed}"
    and "cb_state (cb_run cb es) = Half_open"
  shows "int (cb_admitted cb es) + cb_halfOpenInFlight cb \<le>
    max 0 (cb_successThreshold cb) + int (length (filter (\<lambda>e. snd e = Succeed) es))"
  using assms by (intro trial_balance) (auto simp: cb_inv_def)

theorem breaker_trial_cap_witness:
  "int (cb_admitted (half_open_demo) [(15, Acquire), (15, Acquire), (16, Acquire)]) + 0 \<le> 2"
proof -
  have "cb_inv half_open_demo"
    by (intro cb_inv_refresh cb_inv_recordFailure) (simp add: cb_inv_def cb_cfg_ok_def)
  then show ?thesis
    using breaker_trial_cap [of half_open_demo "[(15, Acquire), (15, Acquire), (16, Acquire)]"]
    by (simp add: cb_tryAcquire_def cb_refresh_def cb_recordFailure_def cb_open_def cb_backoff_def
        Let_def)
qed

text \<open>Once the reset window has passed, \<open>successThreshold\<close> answered trials, all of them
  admitted, close the circuit.\<close>

theorem breaker_recovers:
  assumes "cb_inv cb" and "cb_state cb = Open" and "cb_nextAttemptAt cb = Attempt_at t"
    and "\<forall>now \<in> set ts. t \<le> now" and "int (length ts) = cb_successThreshold cb" and "ts \<noteq> []"
  shows "cb_state (cb_run cb (trials ts)) = Closed \<and> cb_admitted cb (trials ts) = length ts"
proof -
  obtain u us where ts: "ts = u # us" using assms(6) by (cases ts) auto
  let ?h = "cb_refresh u cb"
  have h: "?h = cb\<lparr>cb_state := Half_open, cb_halfOpenSuccesses := 0, cb_halfOpenInFlight := 0\<rparr>"
    using assms ts by (simp add: cb_refresh_def)
  have "cb_call u Acquire cb = cb_call u Acquire ?h"
    by (simp add: cb_tryAcquire_def h) (simp add: h cb_refresh_def)
  then have "cb_run cb (trials ts) = cb_run ?h (trials ts)"
    "cb_admitted cb (trials ts) = cb_admitted ?h (trials ts)"
    using ts by simp_all
  moreover have "cb_state (cb_run ?h (trials ts)) = Closed \<and> cb_admitted ?h (trials ts) = length ts"
    using assms(5,6) by (intro half_open_trials) (simp_all add: h)
  ultimately show ?thesis by simp
qed

theorem breaker_recovers_witness:
  "cb_state (cb_run (cb_recordFailure 3 demo_breaker) (trials [13, 20])) = Closed"
proof -
  have "cb_inv (cb_recordFailure 3 demo_breaker)"
    by (intro cb_inv_recordFailure) (simp add: cb_inv_def cb_cfg_ok_def)
  then show ?thesis
    using breaker_recovers [of "cb_recordFailure 3 demo_breaker" 13 "[13, 20]"]
    by (simp add: cb_recordFailure_def cb_open_def cb_backoff_def Let_def)
qed

text \<open>A policy with \<open>resetTimeoutMs\<close> 0 is accepted, but after 1025 consecutive opens the backoff
  \<open>0 * Infinity\<close> is NaN: the circuit then stays open and refuses every call for ever, until
  \<open>reset\<close> is called.\<close>

theorem breaker_zero_reset_stuck:
  assumes "cb_new eager_policy = Inr cb" and "Reset \<notin> snd ` set es"
  shows "cb_state (cb_run cb (outage 1024 @ es)) = Open \<and>
    cb_admitted (cb_run cb (outage 1024)) es = 0"
  using outage_state [OF assms(1), of 1024] nan_stuck [of "cb_run cb (outage 1024)" es] assms(2)
  by (simp add: cb_run_append Let_def)

theorem breaker_zero_reset_stuck_witness:
  "\<exists>cb. cb_new eager_policy = Inr cb \<and>
     cb_admitted (cb_run cb (outage 1024)) [(5000, Acquire), (9000, Acquire)] = 0"
proof -
  obtain cb where cb: "cb_new eager_policy = Inr cb" by (simp add: cb_new_def eager_policy_def)
  with breaker_zero_reset_stuck [OF cb, of "[(5000, Acquire), (9000, Acquire)]"] show ?thesis by auto
qed

end
