(* ===== verification/Quota_Counter.thy ===== *)
theory Quota_Counter
  imports Pf_Prelude
begin

text \<open>
  The sliding-window budget of \<^verbatim>\<open>packages/upstream/src/quota.ts\<close>. Each method reads the
  injected clock once and prunes before it answers, so reads mutate too.
\<close>

record quota_policy =
  qp_limit :: int
  qp_windowMs :: int

record quota_counter =
  qc_limit :: int
  qc_windowMs :: int
  qc_spends :: "time list"
  qc_rejected :: int

record quota_snapshot =
  qs_limit :: int
  qs_windowMs :: int
  qs_used :: int
  qs_remaining :: int
  qs_resetsAt :: "time option"
  qs_rejected :: int

datatype quota_error = Bad_quota_limit | Bad_quota_window

definition qc_new :: "quota_policy \<Rightarrow> quota_error + quota_counter" where
  "qc_new p =
     (if qp_limit p < 1 then Inl Bad_quota_limit
      else if qp_windowMs p < 1 then Inl Bad_quota_window
      else Inr \<lparr>qc_limit = qp_limit p, qc_windowMs = qp_windowMs p, qc_spends = [],
                qc_rejected = 0\<rparr>)"

text \<open>The loop that counts the aged spends at the front, then the slice.\<close>

fun prune_count :: "time \<Rightarrow> time list \<Rightarrow> nat" where
  "prune_count cutoff [] = 0"
| "prune_count cutoff (t # ts) = (if t > cutoff then 0 else Suc (prune_count cutoff ts))"

definition qc_prune :: "time \<Rightarrow> quota_counter \<Rightarrow> quota_counter" where
  "qc_prune now qc =
     (let d = prune_count (now - qc_windowMs qc) (qc_spends qc)
      in if d > 0 then qc\<lparr>qc_spends := drop d (qc_spends qc)\<rparr> else qc)"

definition qc_snapshot :: "time \<Rightarrow> quota_counter \<Rightarrow> quota_snapshot \<times> quota_counter" where
  "qc_snapshot now qc =
     (let qc' = qc_prune now qc; n = int (length (qc_spends qc'))
      in (\<lparr>qs_limit = qc_limit qc', qs_windowMs = qc_windowMs qc', qs_used = n,
           qs_remaining = max 0 (qc_limit qc' - n),
           qs_resetsAt = (case qc_spends qc' of [] \<Rightarrow> None | t # _ \<Rightarrow> Some (t + qc_windowMs qc')),
           qs_rejected = qc_rejected qc'\<rparr>, qc'))"

definition qc_tryConsume :: "time \<Rightarrow> int \<Rightarrow> quota_counter \<Rightarrow> bool \<times> quota_counter" where
  "qc_tryConsume now cost qc =
     (let qc' = qc_prune now qc
      in if int (length (qc_spends qc')) + cost > qc_limit qc'
         then (False, qc'\<lparr>qc_rejected := qc_rejected qc' + 1\<rparr>)
         else (True, qc'\<lparr>qc_spends := qc_spends qc' @ replicate (nat cost) now\<rparr>))"

definition qc_retune :: "time \<Rightarrow> quota_policy \<Rightarrow> quota_counter \<Rightarrow> bool \<times> quota_counter" where
  "qc_retune now p qc =
     (if qp_limit p < 1 \<or> qp_windowMs p < 1 then (False, qc)
      else if qp_limit p = qc_limit qc \<and> qp_windowMs p = qc_windowMs qc then (False, qc)
      else (True, qc_prune now (qc\<lparr>qc_limit := qp_limit p, qc_windowMs := qp_windowMs p\<rparr>)))"

definition qc_msUntilAvailable :: "time \<Rightarrow> quota_counter \<Rightarrow> int \<times> quota_counter" where
  "qc_msUntilAvailable now qc =
     (let qc' = qc_prune now qc
      in if int (length (qc_spends qc')) < qc_limit qc' then (0, qc')
         else case qc_spends qc' of
                [] \<Rightarrow> (0, qc')
              | t # _ \<Rightarrow> (max 0 (t + qc_windowMs qc' - now), qc'))"

subsection \<open>Runs of calls\<close>

datatype quota_op = Consume int | Snapshot | Until_available | Retune quota_policy

fun qc_call :: "time \<times> quota_op \<Rightarrow> quota_counter \<Rightarrow> quota_counter" where
  "qc_call (now, Consume c) qc = snd (qc_tryConsume now c qc)"
| "qc_call (now, Snapshot) qc = snd (qc_snapshot now qc)"
| "qc_call (now, Until_available) qc = snd (qc_msUntilAvailable now qc)"
| "qc_call (now, Retune p) qc = snd (qc_retune now p qc)"

text \<open>The times of the units granted during a run.\<close>

fun qc_granted :: "quota_counter \<Rightarrow> (time \<times> quota_op) list \<Rightarrow> time list" where
  "qc_granted qc [] = []"
| "qc_granted qc ((now, e) # es) =
     (case e of
        Consume c \<Rightarrow> if fst (qc_tryConsume now c qc) then replicate (nat c) now else []
      | _ \<Rightarrow> []) @ qc_granted (qc_call (now, e) qc) es"

text \<open>How many of the times lie in the window of length \<open>w\<close> that ends at \<open>s\<close>.\<close>

definition in_window :: "int \<Rightarrow> time \<Rightarrow> time list \<Rightarrow> nat" where
  "in_window w s ts = length (filter (\<lambda>t. s - w < t \<and> t \<le> s) ts)"

subsection \<open>Pruning\<close>

lemma prune_count_takeWhile: "prune_count c ts = length (takeWhile (\<lambda>t. t \<le> c) ts)"
  by (induction ts) auto

lemma qc_spends_prune:
  "qc_spends (qc_prune now qc) = dropWhile (\<lambda>t. t \<le> now - qc_windowMs qc) (qc_spends qc)"
  by (auto simp: qc_prune_def Let_def prune_count_takeWhile dropWhile_eq_drop)

lemma qc_prune_frame [simp]:
  "qc_limit (qc_prune now qc) = qc_limit qc"
  "qc_windowMs (qc_prune now qc) = qc_windowMs qc"
  "qc_rejected (qc_prune now qc) = qc_rejected qc"
  by (simp_all add: qc_prune_def Let_def)

lemma qc_prune_empty: "qc_spends qc = [] \<Longrightarrow> qc_prune now qc = qc"
  by (simp add: qc_prune_def)

lemma qc_prune_rejected:
  "qc_prune now (qc\<lparr>qc_rejected := n\<rparr>) = (qc_prune now qc)\<lparr>qc_rejected := n\<rparr>"
  by (simp add: qc_prune_def Let_def)

lemma qc_prune_idem: "qc_prune now (qc_prune now qc) = qc_prune now qc"
proof -
  have "takeWhile P (dropWhile P xs) = []" for P and xs :: "int list"
    by (induction xs) auto
  then have "prune_count (now - qc_windowMs (qc_prune now qc)) (qc_spends (qc_prune now qc)) = 0"
    by (simp add: prune_count_takeWhile qc_spends_prune)
  then show ?thesis by (subst qc_prune_def) (simp only: Let_def less_irrefl if_False)
qed

lemma sorted_dropWhile_filter:
  "sorted ts \<Longrightarrow> dropWhile (\<lambda>t. t \<le> c) ts = filter (\<lambda>t. c < t) ts" for ts :: "int list"
proof (induction ts)
  case (Cons t ts)
  then have "\<not> t \<le> c \<Longrightarrow> filter ((<) c) ts = ts" by (auto simp: filter_id_conv)
  with Cons show ?case by auto
qed simp

subsection \<open>The window budget\<close>

text \<open>
  How a counter stands to the log of all units it ever granted, up to time \<open>m\<close>: its
  spends are the logged times after some cutoff that has aged out, and no window of the
  policy's length holds more units than the limit.
\<close>

definition qc_tracks :: "quota_counter \<Rightarrow> time \<Rightarrow> time list \<Rightarrow> bool" where
  "qc_tracks qc m lg \<longleftrightarrow> 1 \<le> qc_limit qc \<and> 1 \<le> qc_windowMs qc \<and> sorted lg \<and> (\<forall>t \<in> set lg. t \<le> m) \<and>
     (\<exists>c. c \<le> m - qc_windowMs qc \<and> qc_spends qc = filter (\<lambda>t. c < t) lg) \<and>
     (\<forall>s. int (in_window (qc_windowMs qc) s lg) \<le> qc_limit qc)"

lemma qc_tracks_prune:
  assumes "qc_tracks qc m lg" "m \<le> now"
  shows "qc_tracks (qc_prune now qc) now lg \<and>
    qc_spends (qc_prune now qc) = filter (\<lambda>t. now - qc_windowMs qc < t) lg"
proof -
  from assms(1) obtain c where c: "c \<le> m - qc_windowMs qc" "qc_spends qc = filter (\<lambda>t. c < t) lg"
    and s: "sorted lg" by (auto simp: qc_tracks_def)
  have "qc_spends (qc_prune now qc) = filter (\<lambda>t. now - qc_windowMs qc < t) (filter (\<lambda>t. c < t) lg)"
    using c(2) s by (simp add: qc_spends_prune sorted_dropWhile_filter sorted_filter [of "\<lambda>x. x", simplified])
  also have "\<dots> = filter (\<lambda>t. now - qc_windowMs qc < t) lg"
    using c(1) assms(2) by (auto intro!: filter_cong)
  finally have e: "qc_spends (qc_prune now qc) = filter (\<lambda>t. now - qc_windowMs qc < t) lg" .
  with assms show ?thesis by (auto simp: qc_tracks_def)
qed

lemma sorted_append_replicate:
  "sorted lg \<Longrightarrow> \<forall>t \<in> set lg. t \<le> now \<Longrightarrow> sorted (lg @ replicate k now)" for lg :: "int list"
  by (auto simp: sorted_append)

lemma qc_tracks_consume:
  assumes t: "qc_tracks qc m lg" and n: "m \<le> now" and ok: "fst (qc_tryConsume now c qc)"
  shows "qc_tracks (snd (qc_tryConsume now c qc)) now (lg @ replicate (nat c) now)"
proof -
  let ?p = "qc_prune now qc"
  let ?w = "qc_windowMs qc"
  have p: "qc_tracks ?p now lg" and sp: "qc_spends ?p = filter (\<lambda>u. now - ?w < u) lg"
    using qc_tracks_prune [OF t n] by simp_all
  have fits: "int (length (qc_spends ?p)) + c \<le> qc_limit qc"
    and res: "snd (qc_tryConsume now c qc) = ?p\<lparr>qc_spends := qc_spends ?p @ replicate (nat c) now\<rparr>"
    using ok by (auto simp: qc_tryConsume_def Let_def split: if_splits)
  have win: "int (in_window ?w s (lg @ replicate (nat c) now)) \<le> qc_limit qc" for s
  proof (cases "s < now \<or> now \<le> s - ?w \<or> c \<le> 0")
    case True
    then have "in_window ?w s (lg @ replicate (nat c) now) = in_window ?w s lg"
      by (auto simp: in_window_def)
    with t show ?thesis by (simp add: qc_tracks_def)
  next
    case False
    have "length (filter (\<lambda>u. s - ?w < u \<and> u \<le> s) lg) \<le> length (filter (\<lambda>u. now - ?w < u) lg)"
      using False by (intro length_filter_mono) auto
    moreover have "in_window ?w s (lg @ replicate (nat c) now) =
        length (filter (\<lambda>u. s - ?w < u \<and> u \<le> s) lg) + nat c"
      using False by (simp add: in_window_def)
    ultimately show ?thesis using fits sp False by simp
  qed
  have "\<exists>d. d \<le> now - ?w \<and> qc_spends ?p @ replicate (nat c) now =
      filter (\<lambda>u. d < u) (lg @ replicate (nat c) now)"
    using t sp by (intro exI [of _ "now - ?w"]) (auto simp: qc_tracks_def)
  with p win n show ?thesis
    unfolding res qc_tracks_def by (auto simp: sorted_append_replicate)
qed

lemma qc_tracks_call:
  assumes "qc_tracks qc m lg" "m \<le> now" "\<forall>p. e \<noteq> Retune p"
  shows "qc_tracks (qc_call (now, e) qc) now (lg @ qc_granted qc [(now, e)])"
proof (cases e)
  case (Consume c)
  show ?thesis
  proof (cases "fst (qc_tryConsume now c qc)")
    case True
    with qc_tracks_consume [OF assms(1,2)] Consume show ?thesis by simp
  next
    case False
    with qc_tracks_prune [OF assms(1,2)] Consume show ?thesis
      by (auto simp: qc_tryConsume_def Let_def qc_tracks_def split: if_splits)
  qed
qed (use assms qc_tracks_prune [OF assms(1,2)] in
    \<open>auto simp: qc_snapshot_def qc_msUntilAvailable_def Let_def split: list.splits\<close>)

lemma qc_tracks_run:
  "qc_tracks qc m lg \<Longrightarrow> sorted (m # map fst es) \<Longrightarrow> \<forall>p. Retune p \<notin> snd ` set es \<Longrightarrow>
   \<exists>m'. qc_tracks (run_calls qc_call qc es) m' (lg @ qc_granted qc es)"
proof (induction es arbitrary: qc m lg)
  case (Cons e es)
  obtain now x where e: "e = (now, x)" by (cases e)
  with Cons.prems have "qc_tracks (qc_call (now, x) qc) now (lg @ qc_granted qc [(now, x)])"
    by (intro qc_tracks_call) (auto simp: image_iff)
  from Cons.IH [OF this] Cons.prems e show ?case by simp
qed auto

lemma qc_tracks_new: "qc_new p = Inr qc \<Longrightarrow> qc_tracks qc m []"
  by (auto simp: qc_new_def qc_tracks_def in_window_def split: if_splits)

text \<open>The facts every state keeps, policy changes included.\<close>

definition qc_ok :: "quota_counter \<Rightarrow> bool" where
  "qc_ok qc \<longleftrightarrow> 1 \<le> qc_limit qc \<and> 1 \<le> qc_windowMs qc \<and> 0 \<le> qc_rejected qc"

lemma qc_ok_call: "qc_ok qc \<Longrightarrow> qc_ok (qc_call e qc)"
  by (induction e qc rule: qc_call.induct)
    (auto simp: qc_ok_def qc_tryConsume_def qc_snapshot_def qc_msUntilAvailable_def qc_retune_def
      Let_def split: list.splits)

interpretation quota: machine qc_call qc_ok
  by unfold_locales (rule qc_ok_call)

lemma tryConsume_granted:
  "fst (qc_tryConsume now c qc) \<longleftrightarrow> int (length (qc_spends (qc_prune now qc))) + c \<le> qc_limit qc"
  by (simp add: qc_tryConsume_def Let_def)

subsection \<open>Properties\<close>

text \<open>The sliding-window budget: however the calls of a counter are ordered on a clock that does
  not run backwards, no window of \<open>windowMs\<close> ever holds more than \<open>limit\<close> granted units,
  window boundaries included.\<close>

theorem quota_window_bound:
  assumes "qc_new p = Inr qc" and "sorted (map fst es)" and "\<forall>p. Retune p \<notin> snd ` set es"
  shows "int (in_window (qp_windowMs p) s (qc_granted qc es)) \<le> qp_limit p"
proof -
  have cfg: "qc_limit qc = qp_limit p" "qc_windowMs qc = qp_windowMs p"
    using assms(1) by (auto simp: qc_new_def split: if_splits)
  have "\<exists>m. sorted (m # map fst es)"
    using assms(2) by (cases es) auto
  then obtain m where "sorted (m # map fst es)" ..
  from qc_tracks_run [OF qc_tracks_new [OF assms(1)] this assms(3)] obtain m'
    where "qc_tracks (run_calls qc_call qc es) m' (qc_granted qc es)" by auto
  moreover have "qc_limit (run_calls qc_call qc es) = qc_limit qc \<and>
      qc_windowMs (run_calls qc_call qc es) = qc_windowMs qc"
    using assms(3)
  proof (induction es arbitrary: qc)
    case (Cons e es)
    obtain now x where e: "e = (now, x)" by (cases e)
    have "qc_limit (qc_call e qc) = qc_limit qc \<and> qc_windowMs (qc_call e qc) = qc_windowMs qc"
      using Cons.prems e
      by (cases x) (auto simp: qc_tryConsume_def qc_snapshot_def qc_msUntilAvailable_def Let_def
          split: list.splits)
    with Cons.IH [of "qc_call e qc"] Cons.prems show ?case by simp
  qed simp
  ultimately show ?thesis using cfg by (simp add: qc_tracks_def)
qed

theorem quota_window_bound_witness:
  "int (in_window 10 12 [0, 3, 11]) \<le> (2::int) \<and>
   qc_granted \<lparr>qc_limit = 2, qc_windowMs = 10, qc_spends = [], qc_rejected = 0\<rparr>
     [(0, Consume 1), (3, Consume 1), (9, Consume 1), (11, Consume 1)] = [0, 3, 11]"
proof -
  let ?q = "\<lparr>qc_limit = 2, qc_windowMs = 10, qc_spends = [], qc_rejected = 0\<rparr>"
  let ?es = "[(0, Consume 1), (3, Consume 1), (9, Consume 1), (11, Consume 1)]"
  have g: "qc_granted ?q ?es = [0, 3, 11]"
    by (simp add: qc_tryConsume_def qc_prune_def Let_def)
  have "qc_new \<lparr>qp_limit = 2, qp_windowMs = 10\<rparr> = Inr ?q" by (simp add: qc_new_def)
  from quota_window_bound [OF this, of ?es 12] g show ?thesis by simp
qed

text \<open>\<open>msUntilAvailable\<close> is exact while the counter holds no more than its limit: if it
  answers \<open>m\<close> at \<open>now\<close>, a one-unit spend is refused at every moment before \<open>now + m\<close> and
  granted at \<open>now + m\<close>.\<close>

theorem quota_wait_exact:
  assumes "1 \<le> qc_limit qc" and "sorted (qc_spends qc)" and "int (length (qc_spends qc)) \<le> qc_limit qc"
    and "qc_msUntilAvailable now qc = (m, qc')"
  shows "0 \<le> m \<and> fst (qc_tryConsume (now + m) 1 qc') \<and>
    (\<forall>t. now \<le> t \<and> t < now + m \<longrightarrow> \<not> fst (qc_tryConsume t 1 qc'))"
proof -
  let ?p = "qc_prune now qc"
  have q': "qc' = ?p"
    using assms(4) by (auto simp: qc_msUntilAvailable_def Let_def split: if_splits list.splits)
  have len: "int (length (qc_spends ?p)) \<le> qc_limit qc"
    using assms(3) length_dropWhile_le [of "\<lambda>t. t \<le> now - qc_windowMs qc" "qc_spends qc"]
    by (simp add: qc_spends_prune)
  show ?thesis
  proof (cases "int (length (qc_spends ?p)) < qc_limit qc")
    case True
    with assms(4) q' show ?thesis
      using length_dropWhile_le [of "\<lambda>t. t \<le> now - qc_windowMs qc" "qc_spends ?p"]
      by (auto simp: qc_msUntilAvailable_def tryConsume_granted qc_spends_prune [of _ ?p] Let_def)
  next
    case False
    with assms(1) len obtain t ts where ts: "qc_spends ?p = t # ts" by (cases "qc_spends ?p") auto
    have srt: "sorted (t # ts)" using assms(2) ts by (metis qc_spends_prune sorted_dropWhile)
    have "now - qc_windowMs qc < t"
      using ts by (simp add: qc_spends_prune dropWhile_eq_Cons_conv)
    with False ts assms(4) q' have m: "m = t + qc_windowMs qc - now" "0 < m"
      by (auto simp: qc_msUntilAvailable_def Let_def)
    have "fst (qc_tryConsume (now + m) 1 ?p)"
      using len ts m length_dropWhile_le [of "\<lambda>u. u \<le> t" ts]
      by (simp add: tryConsume_granted qc_spends_prune [of _ ?p])
    moreover have "\<not> fst (qc_tryConsume u 1 ?p)" if "u < now + m" for u
      using False ts m that by (simp add: tryConsume_granted qc_spends_prune [of _ ?p])
    ultimately show ?thesis using m q' by auto
  qed
qed

theorem quota_wait_exact_witness:
  "let qc = \<lparr>qc_limit = 1, qc_windowMs = 10, qc_spends = [4], qc_rejected = 0\<rparr>
   in fst (qc_msUntilAvailable 6 qc) = 8 \<and> fst (qc_tryConsume (6 + 8) 1 qc)"
  using quota_wait_exact [of "\<lparr>qc_limit = 1, qc_windowMs = 10, qc_spends = [4], qc_rejected = 0\<rparr>" 6 8
      "\<lparr>qc_limit = 1, qc_windowMs = 10, qc_spends = [4], qc_rejected = 0\<rparr>"]
  by (simp add: qc_msUntilAvailable_def qc_prune_def Let_def)

text \<open>Adopting a shorter window forgets the spends that age out under it: returning to the first
  policy right after, the counter grants twice its limit inside one of its own windows. So the
  budget does not survive \<open>retune\<close>, against the comment that it forgives no spend.\<close>

theorem quota_retune_forgives:
  assumes "1 \<le> n" and "2 \<le> w"
  shows "\<exists>qc. qc_new \<lparr>qp_limit = n, qp_windowMs = w\<rparr> = Inr qc \<and>
    int (in_window w 1 (qc_granted qc
      [(0, Consume n), (1, Retune \<lparr>qp_limit = n, qp_windowMs = 1\<rparr>),
       (1, Retune \<lparr>qp_limit = n, qp_windowMs = w\<rparr>), (1, Consume n)])) = 2 * n"
proof -
  have "dropWhile (\<lambda>t. t \<le> (0::int)) (replicate (nat n) 0) = []" by (simp add: dropWhile_eq_Nil_conv)
  then have sp: "qc_spends (qc_prune 1 \<lparr>qc_limit = n, qc_windowMs = 1, qc_spends = replicate (nat n) 0,
      qc_rejected = 0\<rparr>) = []" by (simp add: qc_spends_prune)
  then have "qc_prune 1 \<lparr>qc_limit = n, qc_windowMs = 1, qc_spends = replicate (nat n) 0, qc_rejected = 0\<rparr> =
      \<lparr>qc_limit = n, qc_windowMs = 1, qc_spends = [], qc_rejected = 0\<rparr>"
    by (simp add: quota_counter.equality)
  with assms show ?thesis
    by (simp add: qc_new_def qc_tryConsume_def qc_retune_def qc_prune_empty Let_def in_window_def)
qed

theorem quota_retune_forgives_witness:
  "\<exists>qc. qc_new \<lparr>qp_limit = 30, qp_windowMs = 10000\<rparr> = Inr qc \<and>
    int (in_window 10000 1 (qc_granted qc
      [(0, Consume 30), (1, Retune \<lparr>qp_limit = 30, qp_windowMs = 1\<rparr>),
       (1, Retune \<lparr>qp_limit = 30, qp_windowMs = 10000\<rparr>), (1, Consume 30)])) = 60"
  using quota_retune_forgives [of 30 10000] by simp

end
