(* ===== verification/Provider_Client.thy ===== *)
theory Provider_Client
  imports Circuit_Breaker Quota_Counter Upstream_Errors Js_Text
begin

text \<open>
  The one HTTP path of every upstream client, \<^verbatim>\<open>packages/upstream/src/provider-client.ts\<close>.
  One execution of \<open>#execute\<close> is a record \<open>request\<close> whose phase says at which \<open>await\<close> it
  is suspended; between two awaits it runs without interruption, and \<open>pc_start\<close>, \<open>pc_slot\<close>,
  \<open>pc_answer\<close> and \<open>pc_wake\<close> are those stretches. The breaker and the quota are shared by
  all executions, so a history is an interleaving of stretches of many requests. The
  outside world gives each stretch its input: whether the switch is on, whether the shared
  limiter granted the slot, what \<open>fetch\<close> gave, a random number. \<open>clk\<close> gives the clock
  readings of the stretch in the order the code makes them.
\<close>

record retry_policy =
  rp_maxAttempts :: int
  rp_baseDelayMs :: int
  rp_maxDelayMs :: int
  rp_maxRetryAfterMs :: int

definition DEFAULT_RETRY :: retry_policy where
  "DEFAULT_RETRY = \<lparr>rp_maxAttempts = 3, rp_baseDelayMs = 200, rp_maxDelayMs = 4000,
     rp_maxRetryAfterMs = 5000\<rparr>"

definition DEFAULT_BREAKER :: breaker_policy where
  "DEFAULT_BREAKER = \<lparr>pol_failureThreshold = 5, pol_resetTimeoutMs = 30000,
     pol_successThreshold = Some 2, pol_maxResetTimeoutMs = None\<rparr>"

text \<open>The part of the client that never changes, and the part that does.\<close>

record client_config =
  cc_name :: provider
  cc_retry :: retry_policy
  cc_hasLimiter :: bool
  cc_adaptiveQuota :: bool

record provider_client =
  pc_breaker :: circuit_breaker
  pc_quota :: "quota_counter option"

record request_spec =
  sp_cost :: "int option"
  sp_emptyStatuses :: "int list option"
  sp_acceptStatuses :: "int list option"

record http_response =
  hr_status :: int
  hr_body :: "string option"
  hr_rateLimit :: "string option"
  hr_resetIn :: "string option"
  hr_retryAfter :: "string option"

text \<open>What \<open>await fetch\<close> and \<open>await res.text()\<close> end with: a response, whose body is \<open>None\<close>
  if reading it failed, or an exception, aborted or not.\<close>

datatype fetch_outcome = Fetched http_response | Fetch_threw bool

subsection \<open>Small functions\<close>

definition redactUrl :: "string \<Rightarrow> string" where
  "redactUrl url = (case indexOf CHR ''?'' url of
     None \<Rightarrow> url
   | Some q \<Rightarrow> take q url @ ''?[redacted]'')"

text \<open>\<open>Date.parse\<close> of an HTTP date is implementation-defined, hence a parameter.\<close>

definition parseRetryAfter :: "(string \<Rightarrow> time option) \<Rightarrow> string option \<Rightarrow> time \<Rightarrow> int option" where
  "parseRetryAfter dateParse raw now = (case raw of
     None \<Rightarrow> None
   | Some r \<Rightarrow>
       let trimmed = js_trim r
       in if trimmed = [] then None
          else case js_Number trimmed of
            Some seconds \<Rightarrow> Some (max 0 (js_round (seconds * 1000)))
          | None \<Rightarrow> map_option (\<lambda>at_time. max 0 (at_time - now)) (dateParse trimmed))"

definition pc_backoffMs :: "retry_policy \<Rightarrow> rat \<Rightarrow> int \<Rightarrow> int option \<Rightarrow> int option" where
  "pc_backoffMs rp random attempt retryAfterMs = (case retryAfterMs of
     Some ms \<Rightarrow> if ms > rp_maxRetryAfterMs rp then None else Some (ms + \<lfloor>random * 100\<rfloor>)
   | None \<Rightarrow>
       let ceiling = min (rp_maxDelayMs rp) (rp_baseDelayMs rp * 2 ^ nat (attempt - 1))
       in Some \<lfloor>random * of_int ceiling\<rfloor>)"

text \<open>
  Adopting a declared budget. A header is a number that may have a fraction, while the
  counter compares it with integers only; those comparisons see the floor of the limit
  and the ceiling of the window.
\<close>

definition pc_adaptQuota :: "client_config \<Rightarrow> time \<Rightarrow> http_response \<Rightarrow> provider_client \<Rightarrow> provider_client" where
  "pc_adaptQuota cfg now res pc = (case pc_quota pc of
     None \<Rightarrow> pc
   | Some q \<Rightarrow>
       if \<not> cc_adaptiveQuota cfg then pc
       else case js_Number_header (hr_rateLimit res) of
         None \<Rightarrow> pc
       | Some declared \<Rightarrow>
           if declared < 1 then pc
           else case js_Number_header (hr_resetIn res) of
             None \<Rightarrow> pc
           | Some resetIn \<Rightarrow>
               if resetIn < 1 then pc
               else pc\<lparr>pc_quota := Some (snd (qc_retune now
                      \<lparr>qp_limit = \<lfloor>declared\<rfloor>, qp_windowMs = \<lceil>resetIn * 1000\<rceil>\<rparr> q))\<rparr>)"

definition status_in :: "int list option \<Rightarrow> int \<Rightarrow> bool" where
  "status_in xs x = (case xs of None \<Rightarrow> False | Some ys \<Rightarrow> x \<in> set ys)"

text \<open>What \<open>#attempt\<close> makes of a response whose body could be read.\<close>

definition pc_classify ::
  "provider \<Rightarrow> (string \<Rightarrow> time option) \<Rightarrow> time \<Rightarrow> request_spec \<Rightarrow> http_response \<Rightarrow> string \<Rightarrow>
   upstream_error + (int \<times> string)" where
  "pc_classify name dateParse now spec res body =
     (let st = hr_status res
      in if 200 \<le> st \<and> st < 300 then Inr (st, body)
         else if status_in (sp_acceptStatuses spec) st \<or> status_in (sp_emptyStatuses spec) st
         then Inr (st, body)
         else let retryAfterMs = parseRetryAfter dateParse (hr_retryAfter res) now
              in if st = 429 then Inl \<lparr>ue_provider = name, ue_kind = Rate_limited,
                     ue_status = Some 429, ue_retryAfterMs = retryAfterMs\<rparr>
                 else if st = 408 \<or> st \<ge> 500 then Inl \<lparr>ue_provider = name,
                     ue_kind = Server_error, ue_status = Some st, ue_retryAfterMs = retryAfterMs\<rparr>
                 else Inl \<lparr>ue_provider = name, ue_kind = Http, ue_status = Some st,
                     ue_retryAfterMs = retryAfterMs\<rparr>)"

subsection \<open>One execution\<close>

text \<open>\<open>Done\<close> holds the error thrown, or the value returned: \<open>null\<close> or status and body.\<close>

datatype req_phase = Waiting_slot | In_flight | Backing_off int
  | Done "upstream_error + (int \<times> string) option"

record request =
  rq_spec :: request_spec
  rq_phase :: req_phase
  rq_attempt :: int
  rq_sent :: nat
  rq_granted :: nat
  rq_slept :: int

definition fail_with :: "upstream_error \<Rightarrow> request \<Rightarrow> request" where
  "fail_with e rq = rq\<lparr>rq_phase := Done (Inl e)\<rparr>"

text \<open>The call of \<open>fetch\<close>.\<close>

definition send :: "request \<Rightarrow> request" where
  "send rq = rq\<lparr>rq_phase := In_flight, rq_sent := Suc (rq_sent rq)\<rparr>"

text \<open>The head of the attempt loop: its bound, the quota, the queue for a slot.\<close>

definition pc_loop_head ::
  "client_config \<Rightarrow> clock \<Rightarrow> upstream_error option \<Rightarrow> provider_client \<Rightarrow> request \<Rightarrow> provider_client \<times> request" where
  "pc_loop_head cfg clk lastError pc rq =
     (if rq_attempt rq > rp_maxAttempts (cc_retry cfg)
      then (pc, fail_with (orelse lastError (plain_error (cc_name cfg) Network)) rq)
      else let go = (if cc_hasLimiter cfg then rq\<lparr>rq_phase := Waiting_slot\<rparr> else send rq)
           in case pc_quota pc of
                None \<Rightarrow> (pc, go)
              | Some q \<Rightarrow>
                  (case qc_tryConsume (clk 0) (orelse (sp_cost (rq_spec rq)) 1) q of
                     (True, q1) \<Rightarrow> (pc\<lparr>pc_quota := Some q1\<rparr>, go\<lparr>rq_granted := Suc (rq_granted go)\<rparr>)
                   | (False, q1) \<Rightarrow>
                       (case qc_snapshot (clk 1) q1 of (snap, q2) \<Rightarrow>
                        case qc_msUntilAvailable (clk 2) q2 of (ms, q3) \<Rightarrow>
                          (pc\<lparr>pc_quota := Some q3, pc_breaker := cb_recordSuccess (pc_breaker pc)\<rparr>,
                           fail_with \<lparr>ue_provider = cc_name cfg, ue_kind = Quota_exhausted,
                             ue_status = None, ue_retryAfterMs = Some ms\<rparr> rq))))"

definition new_request :: "request_spec \<Rightarrow> request" where
  "new_request spec = \<lparr>rq_spec = spec, rq_phase = Waiting_slot, rq_attempt = 1, rq_sent = 0,
     rq_granted = 0, rq_slept = 0\<rparr>"

definition pc_start ::
  "client_config \<Rightarrow> bool \<Rightarrow> clock \<Rightarrow> request_spec \<Rightarrow> provider_client \<Rightarrow> provider_client \<times> request" where
  "pc_start cfg enabled clk spec pc =
     (let rq = new_request spec
      in if \<not> enabled then (pc, fail_with (plain_error (cc_name cfg) Disabled) rq)
         else case cb_tryAcquire (clk 0) (pc_breaker pc) of
           (False, cb) \<Rightarrow>
             (case cb_snapshot (clk 1) cb of (snap, cb') \<Rightarrow>
                (pc\<lparr>pc_breaker := cb'\<rparr>, fail_with (plain_error (cc_name cfg) Circuit_open) rq))
         | (True, cb) \<Rightarrow>
             pc_loop_head cfg (\<lambda>k. clk (Suc k)) None (pc\<lparr>pc_breaker := cb\<rparr>) rq)"

text \<open>The limiter's promise settles: resolved, or rejected for an overflow or a shutdown.\<close>

definition pc_slot :: "client_config \<Rightarrow> bool \<Rightarrow> provider_client \<Rightarrow> request \<Rightarrow> provider_client \<times> request" where
  "pc_slot cfg granted pc rq =
     (if granted then (pc, send rq)
      else (pc\<lparr>pc_breaker := cb_recordSuccess (pc_breaker pc)\<rparr>,
            fail_with (plain_error (cc_name cfg) Queue_overflow) rq))"

text \<open>From the answer to the end of the attempt's body.\<close>

definition pc_outcome ::
  "client_config \<Rightarrow> (string \<Rightarrow> time option) \<Rightarrow> clock \<Rightarrow> fetch_outcome \<Rightarrow> request_spec \<Rightarrow> provider_client \<Rightarrow>
   (upstream_error + (int \<times> string)) \<times> provider_client" where
  "pc_outcome cfg dateParse clk ans spec pc = (case ans of
     Fetch_threw aborted \<Rightarrow>
       (Inl (plain_error (cc_name cfg) (if aborted then Timeout else Network)), pc)
   | Fetched res \<Rightarrow>
       (case hr_body res of
          None \<Rightarrow> Inl (plain_error (cc_name cfg) Network)
        | Some body \<Rightarrow> pc_classify (cc_name cfg) dateParse (clk 1) spec res body,
        pc_adaptQuota cfg (clk 0) res pc))"

definition pc_answer ::
  "client_config \<Rightarrow> (string \<Rightarrow> time option) \<Rightarrow> clock \<Rightarrow> rat \<Rightarrow> fetch_outcome \<Rightarrow> provider_client \<Rightarrow> request \<Rightarrow>
   provider_client \<times> request" where
  "pc_answer cfg dateParse clk random ans pc rq =
     (case pc_outcome cfg dateParse clk ans (rq_spec rq) pc of
        (Inr (st, body), pc1) \<Rightarrow>
          (pc1\<lparr>pc_breaker := cb_recordSuccess (pc_breaker pc1)\<rparr>,
           rq\<lparr>rq_phase := Done (Inr (if status_in (sp_emptyStatuses (rq_spec rq)) st then None
                                  else Some (st, body)))\<rparr>)
      | (Inl e, pc1) \<Rightarrow>
          let pc2 = pc1\<lparr>pc_breaker :=
                (if ue_countsAgainstProvider e then cb_recordFailure (clk 3) (pc_breaker pc1)
                 else cb_recordSuccess (pc_breaker pc1))\<rparr>
          in if \<not> ue_retryable e \<or> rq_attempt rq = rp_maxAttempts (cc_retry cfg)
             then (pc2, fail_with e rq)
             else case pc_backoffMs (cc_retry cfg) random (rq_attempt rq) (ue_retryAfterMs e) of
                    None \<Rightarrow> (pc2, fail_with e rq)
                  | Some waitMs \<Rightarrow> (pc2, rq\<lparr>rq_phase := Backing_off waitMs\<rparr>))"

text \<open>The sleep ends and the loop comes round.\<close>

definition pc_wake ::
  "client_config \<Rightarrow> clock \<Rightarrow> int \<Rightarrow> provider_client \<Rightarrow> request \<Rightarrow> provider_client \<times> request" where
  "pc_wake cfg clk waitMs pc rq =
     pc_loop_head cfg clk None pc
       (rq\<lparr>rq_attempt := rq_attempt rq + 1, rq_slept := rq_slept rq + waitMs\<rparr>)"

text \<open>
  The loop leaves through its bound only for a policy with no attempt at all: from the
  second head on, the attempt before was not the last, so \<open>lastError\<close> is not read there.
\<close>

subsection \<open>The constructor and the public methods\<close>

datatype client_error = Bad_breaker policy_error | Bad_quota quota_error

definition pc_new :: "breaker_policy option \<Rightarrow> quota_policy option \<Rightarrow> client_error + provider_client" where
  "pc_new breaker quota =
     (case cb_new (orelse breaker DEFAULT_BREAKER) of
        Inl e \<Rightarrow> Inl (Bad_breaker e)
      | Inr cb \<Rightarrow>
          (case quota of
             None \<Rightarrow> Inr \<lparr>pc_breaker = cb, pc_quota = None\<rparr>
           | Some p \<Rightarrow>
               (case qc_new p of
                  Inl e \<Rightarrow> Inl (Bad_quota e)
                | Inr q \<Rightarrow> Inr \<lparr>pc_breaker = cb, pc_quota = Some q\<rparr>)))"

definition pc_status :: "bool \<Rightarrow> time \<Rightarrow> provider_client \<Rightarrow> provider_status \<times> provider_client" where
  "pc_status enabled now pc =
     (case cb_snapshot now (pc_breaker pc) of (snap, cb) \<Rightarrow>
        (statusOf enabled (snap_state snap = Closed), pc\<lparr>pc_breaker := cb\<rparr>))"

text \<open>What \<open>requestJson\<close> and \<open>requestText\<close> make of the result; \<open>parse\<close> is \<open>parseJson\<close>, \<open>None\<close> if
  it throws.\<close>

definition pc_requestJson ::
  "provider \<Rightarrow> (string \<Rightarrow> 'j option) \<Rightarrow> upstream_error + (int \<times> string) option \<Rightarrow>
   upstream_error + 'j option" where
  "pc_requestJson name parse out = (case out of
     Inl e \<Rightarrow> Inl e
   | Inr None \<Rightarrow> Inr None
   | Inr (Some (st, body)) \<Rightarrow>
       if js_trim body = [] then Inr None
       else case parse body of
              Some v \<Rightarrow> Inr (Some v)
            | None \<Rightarrow> Inl \<lparr>ue_provider = name, ue_kind = Malformed, ue_status = Some st,
                ue_retryAfterMs = None\<rparr>)"

definition pc_requestText :: "upstream_error + (int \<times> string) option \<Rightarrow> upstream_error + string option" where
  "pc_requestText out = (case out of
     Inl e \<Rightarrow> Inl e
   | Inr None \<Rightarrow> Inr None
   | Inr (Some (st, body)) \<Rightarrow> Inr (Some body))"

subsection \<open>Many executions\<close>

record client_world =
  cw_client :: provider_client
  cw_reqs :: "request list"

datatype client_event =
    New_request bool clock request_spec
  | Slot nat bool
  | Answer nat clock rat fetch_outcome
  | Wake nat clock

definition cw_update :: "nat \<Rightarrow> provider_client \<times> request \<Rightarrow> client_world \<Rightarrow> client_world" where
  "cw_update i res w = w\<lparr>cw_client := fst res, cw_reqs := (cw_reqs w)[i := snd res]\<rparr>"

definition cw_phase :: "nat \<Rightarrow> client_world \<Rightarrow> req_phase option" where
  "cw_phase i w = (if i < length (cw_reqs w) then Some (rq_phase (cw_reqs w ! i)) else None)"

text \<open>An event that finds its request in another phase does not happen.\<close>

fun cw_event ::
  "client_config \<Rightarrow> (string \<Rightarrow> time option) \<Rightarrow> client_event \<Rightarrow> client_world \<Rightarrow> client_world" where
  "cw_event cfg dp (New_request enabled clk spec) w =
     (case pc_start cfg enabled clk spec (cw_client w) of (pc, rq) \<Rightarrow>
        w\<lparr>cw_client := pc, cw_reqs := cw_reqs w @ [rq]\<rparr>)"
| "cw_event cfg dp (Slot i granted) w =
     (case cw_phase i w of
        Some Waiting_slot \<Rightarrow> cw_update i (pc_slot cfg granted (cw_client w) (cw_reqs w ! i)) w
      | _ \<Rightarrow> w)"
| "cw_event cfg dp (Answer i clk random ans) w =
     (case cw_phase i w of
        Some In_flight \<Rightarrow>
          cw_update i (pc_answer cfg dp clk random ans (cw_client w) (cw_reqs w ! i)) w
      | _ \<Rightarrow> w)"
| "cw_event cfg dp (Wake i clk) w =
     (case cw_phase i w of
        Some (Backing_off ms) \<Rightarrow> cw_update i (pc_wake cfg clk ms (cw_client w) (cw_reqs w ! i)) w
      | _ \<Rightarrow> w)"

definition cw_run ::
  "client_config \<Rightarrow> (string \<Rightarrow> time option) \<Rightarrow> client_world \<Rightarrow> client_event list \<Rightarrow> client_world" where
  "cw_run cfg dp = run_calls (cw_event cfg dp)"

subsection \<open>What holds of a request at every moment\<close>

text \<open>The longest sleep that the policy allows.\<close>

definition rp_ok :: "retry_policy \<Rightarrow> bool" where
  "rp_ok rp \<longleftrightarrow> 0 \<le> rp_baseDelayMs rp \<and> 0 \<le> rp_maxDelayMs rp \<and> 0 \<le> rp_maxRetryAfterMs rp"

definition rp_maxSleep :: "retry_policy \<Rightarrow> int" where
  "rp_maxSleep rp = max (rp_maxDelayMs rp) (rp_maxRetryAfterMs rp + 99)"

definition rq_ok :: "client_config \<Rightarrow> bool \<Rightarrow> request \<Rightarrow> bool" where
  "rq_ok cfg metered rq \<longleftrightarrow>
     1 \<le> rq_attempt rq \<and> rq_attempt rq \<le> max 1 (rp_maxAttempts (cc_retry cfg)) \<and>
     (rq_phase rq \<in> {Waiting_slot, In_flight} \<or> (\<exists>ms. rq_phase rq = Backing_off ms) \<longrightarrow>
        rq_attempt rq \<le> rp_maxAttempts (cc_retry cfg)) \<and>
     (\<forall>ms. rq_phase rq = Backing_off ms \<longrightarrow>
        ms \<le> rp_maxSleep (cc_retry cfg) \<and> rq_attempt rq < rp_maxAttempts (cc_retry cfg)) \<and>
     int (rq_sent rq) \<le>
       (if rq_phase rq = Waiting_slot then rq_attempt rq - 1 else rq_attempt rq) \<and>
     int (rq_sent rq) \<le> max 0 (rp_maxAttempts (cc_retry cfg)) \<and>
     (metered \<longrightarrow> rq_sent rq + (if rq_phase rq = Waiting_slot then 1 else 0) \<le> rq_granted rq) \<and>
     rq_slept rq \<le> (rq_attempt rq - 1) * rp_maxSleep (cc_retry cfg)"

lemma backoff_bound:
  assumes "rp_ok rp" "0 \<le> random" "random < 1" "pc_backoffMs rp random attempt ra = Some ms"
  shows "ms \<le> rp_maxSleep rp"
proof (cases ra)
  case None
  let ?c = "min (rp_maxDelayMs rp) (rp_baseDelayMs rp * 2 ^ nat (attempt - 1))"
  have c: "0 \<le> ?c" using assms(1) by (simp add: rp_ok_def)
  have "random * of_int ?c \<le> 1 * of_int ?c" using c assms(3) by (intro mult_right_mono) auto
  then have "rat_of_int \<lfloor>random * of_int ?c\<rfloor> \<le> of_int ?c"
    using of_int_floor_le [of "random * of_int ?c"] by (simp only: mult_1)
  then have "\<lfloor>random * of_int ?c\<rfloor> \<le> ?c" by (simp only: of_int_le_iff)
  with None assms(4) show ?thesis by (auto simp: pc_backoffMs_def Let_def rp_maxSleep_def le_max_iff_disj)
next
  case (Some m)
  have "\<lfloor>random * 100\<rfloor> \<le> 99" using assms(3) by (simp add: floor_le_iff)
  moreover from Some assms(4) have "ms = m + \<lfloor>random * 100\<rfloor>" "m \<le> rp_maxRetryAfterMs rp"
    by (auto simp: pc_backoffMs_def split: if_splits)
  ultimately show ?thesis unfolding rp_maxSleep_def by linarith
qed

text \<open>The quota object is never removed and never appears.\<close>

lemma metered_adapt: "pc_quota (pc_adaptQuota cfg now res pc) = None \<longleftrightarrow> pc_quota pc = None"
  by (simp add: pc_adaptQuota_def split: option.split)

lemma metered_head: "pc_quota (fst (pc_loop_head cfg clk e pc rq)) = None \<longleftrightarrow> pc_quota pc = None"
  by (auto simp: pc_loop_head_def Let_def split_beta split: option.split bool.split prod.split)

lemma metered_start: "pc_quota (fst (pc_start cfg en clk spec pc)) = None \<longleftrightarrow> pc_quota pc = None"
  by (auto simp: pc_start_def Let_def split_beta metered_head split: prod.split bool.split)

lemma metered_outcome: "pc_quota (snd (pc_outcome cfg dp clk ans spec pc)) = None \<longleftrightarrow> pc_quota pc = None"
  by (simp add: pc_outcome_def metered_adapt split: fetch_outcome.split)

lemma metered_answer: "pc_quota (fst (pc_answer cfg dp clk r ans pc rq)) = None \<longleftrightarrow> pc_quota pc = None"
  using metered_outcome [of cfg dp clk ans "rq_spec rq" pc]
  by (auto simp: pc_answer_def Let_def split: prod.splits sum.splits option.splits)

lemma rq_ok_head:
  assumes "1 \<le> rq_attempt rq" "rq_attempt rq \<le> max 1 (rp_maxAttempts (cc_retry cfg))"
    "int (rq_sent rq) \<le> rq_attempt rq - 1"
    "int (rq_sent rq) \<le> max 0 (rp_maxAttempts (cc_retry cfg))"
    "pc_quota pc \<noteq> None \<longrightarrow> rq_sent rq \<le> rq_granted rq"
    "rq_slept rq \<le> (rq_attempt rq - 1) * rp_maxSleep (cc_retry cfg)"
  shows "rq_ok cfg (pc_quota pc \<noteq> None) (snd (pc_loop_head cfg clk e pc rq))"
  using assms
  by (auto simp: pc_loop_head_def rq_ok_def fail_with_def send_def Let_def split_beta
      split: option.split prod.split bool.split)

lemma rq_ok_start: "rq_ok cfg (pc_quota pc \<noteq> None) (snd (pc_start cfg en clk spec pc))"
proof -
  have new: "rq_ok cfg b (fail_with e (new_request spec))" for b e
    by (simp add: rq_ok_def fail_with_def new_request_def)
  have "rq_ok cfg (pc_quota (pc\<lparr>pc_breaker := cb\<rparr>) \<noteq> None)
      (snd (pc_loop_head cfg ck None (pc\<lparr>pc_breaker := cb\<rparr>) (new_request spec)))" for cb ck
    by (rule rq_ok_head) (simp_all add: new_request_def)
  then show ?thesis
    using new by (auto simp: pc_start_def Let_def split_beta split: prod.split bool.split)
qed

lemma rq_ok_slot:
  "rq_ok cfg m rq \<Longrightarrow> rq_phase rq = Waiting_slot \<Longrightarrow> rq_ok cfg m (snd (pc_slot cfg g pc rq))"
  by (auto simp: pc_slot_def rq_ok_def send_def fail_with_def)

lemma rq_ok_answer:
  assumes "rq_ok cfg m rq" "rq_phase rq = In_flight" "rp_ok (cc_retry cfg)" "0 \<le> random" "random < 1"
  shows "rq_ok cfg m (snd (pc_answer cfg dp clk random ans pc rq))"
  using assms(1,2) backoff_bound [OF assms(3,4,5)]
  by (auto simp: pc_answer_def rq_ok_def fail_with_def Let_def
      split: prod.splits sum.splits option.splits)

lemma rq_ok_wake:
  assumes "rq_ok cfg (pc_quota pc \<noteq> None) rq" "rq_phase rq = Backing_off ms"
  shows "rq_ok cfg (pc_quota pc \<noteq> None) (snd (pc_wake cfg clk ms pc rq))"
  unfolding pc_wake_def
  using assms by (intro rq_ok_head) (auto simp: rq_ok_def algebra_simps)

text \<open>Randoms come from \<open>[0, 1)\<close>.\<close>

fun random_ok :: "client_event \<Rightarrow> bool" where
  "random_ok (Answer i clk random ans) \<longleftrightarrow> 0 \<le> random \<and> random < 1"
| "random_ok _ \<longleftrightarrow> True"

definition cw_ok :: "client_config \<Rightarrow> client_world \<Rightarrow> bool" where
  "cw_ok cfg w \<longleftrightarrow> (\<forall>rq \<in> set (cw_reqs w). rq_ok cfg (pc_quota (cw_client w) \<noteq> None) rq)"

lemma cw_ok_update:
  assumes "cw_ok cfg w" "pc_quota (fst res) = None \<longleftrightarrow> pc_quota (cw_client w) = None"
    "rq_ok cfg (pc_quota (cw_client w) \<noteq> None) (snd res)"
  shows "cw_ok cfg (cw_update i res w)"
proof -
  have "set ((cw_reqs w)[i := snd res]) \<subseteq> insert (snd res) (set (cw_reqs w))"
    by (rule set_update_subset_insert)
  with assms show ?thesis by (auto simp: cw_ok_def cw_update_def)
qed

lemma cw_ok_event:
  assumes "rp_ok (cc_retry cfg)" "random_ok e" "cw_ok cfg w"
  shows "cw_ok cfg (cw_event cfg dp e w)"
proof (cases e)
  case (New_request en clk spec)
  with assms(3) rq_ok_start [of cfg "cw_client w" en clk spec] show ?thesis
    by (auto simp: cw_ok_def split_beta metered_start)
next
  case (Slot i g)
  show ?thesis
  proof (cases "cw_phase i w = Some Waiting_slot")
    case True
    then have "cw_reqs w ! i \<in> set (cw_reqs w)" "rq_phase (cw_reqs w ! i) = Waiting_slot"
      by (auto simp: cw_phase_def split: if_splits)
    with assms(3) have "cw_ok cfg (cw_update i (pc_slot cfg g (cw_client w) (cw_reqs w ! i)) w)"
      by (intro cw_ok_update rq_ok_slot) (auto simp: cw_ok_def pc_slot_def)
    with True Slot show ?thesis by simp
  qed (use Slot assms(3) in \<open>auto split: option.split req_phase.split\<close>)
next
  case (Answer i clk r ans)
  show ?thesis
  proof (cases "cw_phase i w = Some In_flight")
    case True
    then have "cw_reqs w ! i \<in> set (cw_reqs w)" "rq_phase (cw_reqs w ! i) = In_flight"
      by (auto simp: cw_phase_def split: if_splits)
    with assms Answer have
      "cw_ok cfg (cw_update i (pc_answer cfg dp clk r ans (cw_client w) (cw_reqs w ! i)) w)"
      by (intro cw_ok_update rq_ok_answer metered_answer) (auto simp: cw_ok_def)
    with True Answer show ?thesis by simp
  qed (use Answer assms(3) in \<open>auto split: option.split req_phase.split\<close>)
next
  case (Wake i clk)
  show ?thesis
  proof (cases "\<exists>ms. cw_phase i w = Some (Backing_off ms)")
    case True
    then obtain ms where ms: "cw_phase i w = Some (Backing_off ms)" ..
    then have "cw_reqs w ! i \<in> set (cw_reqs w)" "rq_phase (cw_reqs w ! i) = Backing_off ms"
      by (auto simp: cw_phase_def split: if_splits)
    with assms(3) have "cw_ok cfg (cw_update i (pc_wake cfg clk ms (cw_client w) (cw_reqs w ! i)) w)"
      by (intro cw_ok_update rq_ok_wake) (auto simp: cw_ok_def pc_wake_def metered_head)
    with ms Wake show ?thesis by simp
  qed (use Wake assms(3) in \<open>auto split: option.split req_phase.split\<close>)
qed

interpretation client_runs: guarded_machine "cw_event cfg dp"
    "\<lambda>w. rp_ok (cc_retry cfg) \<and> cw_ok cfg w" random_ok for cfg dp
  by unfold_locales (simp add: cw_ok_event)

subsection \<open>How far a request still is from its end\<close>

definition rq_distance :: "client_config \<Rightarrow> request \<Rightarrow> int" where
  "rq_distance cfg rq =
     3 * (rp_maxAttempts (cc_retry cfg) - rq_attempt rq) +
     (case rq_phase rq of Waiting_slot \<Rightarrow> 3 | In_flight \<Rightarrow> 2 | Backing_off _ \<Rightarrow> 1
      | Done _ \<Rightarrow> 0)"

lemma rq_distance_range:
  "rq_ok cfg m rq \<Longrightarrow> (\<forall>r. rq_phase rq \<noteq> Done r) \<Longrightarrow>
   1 \<le> rq_distance cfg rq \<and> rq_distance cfg rq \<le> 3 * rp_maxAttempts (cc_retry cfg)"
  by (auto simp: rq_ok_def rq_distance_def split: req_phase.splits)

lemma distance_slot:
  "rq_phase rq = Waiting_slot \<Longrightarrow> rq' = snd (pc_slot cfg g pc rq) \<Longrightarrow>
   (\<exists>r. rq_phase rq' = Done r) \<or> rq_distance cfg rq' < rq_distance cfg rq"
  by (auto simp: pc_slot_def send_def fail_with_def rq_distance_def)

lemma distance_answer:
  "rq_phase rq = In_flight \<Longrightarrow> rq' = snd (pc_answer cfg dp clk r ans pc rq) \<Longrightarrow>
   (\<exists>r. rq_phase rq' = Done r) \<or> rq_distance cfg rq' < rq_distance cfg rq"
  by (auto simp: pc_answer_def fail_with_def rq_distance_def Let_def
      split: prod.splits sum.splits option.splits)

lemma distance_wake:
  "rq_phase rq = Backing_off ms \<Longrightarrow> rq' = snd (pc_wake cfg clk ms pc rq) \<Longrightarrow>
   (\<exists>r. rq_phase rq' = Done r) \<or> rq_distance cfg rq' < rq_distance cfg rq"
  by (auto simp: pc_wake_def pc_loop_head_def send_def fail_with_def rq_distance_def Let_def split_beta
      split: option.splits prod.splits bool.splits)

text \<open>A request that has not ended, and the events that act on it: the one its phase waits for.\<close>

definition cw_running :: "nat \<Rightarrow> client_world \<Rightarrow> bool" where
  "cw_running i w = (case cw_phase i w of None \<Rightarrow> False | Some (Done _) \<Rightarrow> False | Some _ \<Rightarrow> True)"

fun moves_request :: "nat \<Rightarrow> client_world \<Rightarrow> client_event \<Rightarrow> bool" where
  "moves_request i w (New_request enabled clk spec) \<longleftrightarrow> False"
| "moves_request i w (Slot j granted) \<longleftrightarrow> j = i \<and> cw_phase i w = Some Waiting_slot"
| "moves_request i w (Answer j clk random ans) \<longleftrightarrow> j = i \<and> cw_phase i w = Some In_flight"
| "moves_request i w (Wake j clk) \<longleftrightarrow>
     j = i \<and> (case cw_phase i w of Some (Backing_off _) \<Rightarrow> True | _ \<Rightarrow> False)"

primrec cw_moves ::
  "client_config \<Rightarrow> (string \<Rightarrow> time option) \<Rightarrow> nat \<Rightarrow> client_event list \<Rightarrow> client_world \<Rightarrow> nat" where
  "cw_moves cfg dp i [] w = 0"
| "cw_moves cfg dp i (e # es) w =
     (if moves_request i w e then 1 else 0) + cw_moves cfg dp i es (cw_event cfg dp e w)"

text \<open>What is left of a request's way; all of it before its call.\<close>

definition cw_left :: "client_config \<Rightarrow> nat \<Rightarrow> client_world \<Rightarrow> int" where
  "cw_left cfg i w = (if cw_running i w then rq_distance cfg (cw_reqs w ! i)
     else if i < length (cw_reqs w) then 0 else 3 * max 0 (rp_maxAttempts (cc_retry cfg)))"

lemma cw_running_iff:
  "cw_running i w \<longleftrightarrow> i < length (cw_reqs w) \<and> (\<forall>r. rq_phase (cw_reqs w ! i) \<noteq> Done r)"
  by (auto simp: cw_running_def cw_phase_def split: req_phase.split)

lemma cw_left_range:
  assumes "cw_ok cfg w"
  shows "0 \<le> cw_left cfg i w \<and> cw_left cfg i w \<le> 3 * max 0 (rp_maxAttempts (cc_retry cfg)) \<and>
    (cw_running i w \<longrightarrow> 1 \<le> cw_left cfg i w)"
proof (cases "cw_running i w")
  case True
  then have "rq_ok cfg (pc_quota (cw_client w) \<noteq> None) (cw_reqs w ! i)"
    using assms by (simp add: cw_ok_def cw_running_iff)
  from rq_distance_range [OF this] True show ?thesis
    by (auto simp: cw_left_def cw_running_iff)
qed (simp add: cw_left_def)

lemma cw_left_other: "j \<noteq> i \<Longrightarrow> cw_left cfg i (cw_update j res w) = cw_left cfg i w"
  by (simp add: cw_left_def cw_running_iff cw_update_def)

lemma cw_left_own:
  assumes "cw_running i w"
    and "(\<exists>r. rq_phase (snd res) = Done r) \<or> rq_distance cfg (snd res) < rq_distance cfg (cw_reqs w ! i)"
    and "1 \<le> cw_left cfg i w"
  shows "cw_left cfg i (cw_update i res w) + 1 \<le> cw_left cfg i w"
  using assms by (auto simp: cw_left_def cw_running_iff cw_update_def)

lemma phase_running:
  "cw_phase i w = Some ph \<Longrightarrow> \<forall>r. ph \<noteq> Done r \<Longrightarrow> cw_running i w \<and> rq_phase (cw_reqs w ! i) = ph"
  by (auto simp: cw_running_iff cw_phase_def split: if_splits)

lemma cw_left_event:
  assumes "cw_ok cfg w" "cw_ok cfg (cw_event cfg dp e w)"
  shows "cw_left cfg i (cw_event cfg dp e w) + (if moves_request i w e then 1 else 0) \<le> cw_left cfg i w"
proof -
  have pos: "1 \<le> cw_left cfg i w" if "cw_running i w" using cw_left_range [OF assms(1)] that by blast
  note own = cw_left_own [where cfg = cfg and i = i and w = w]
  show ?thesis
  proof (cases e)
    case (New_request en clk spec)
    have "i < length (cw_reqs w) \<Longrightarrow> cw_left cfg i (cw_event cfg dp e w) = cw_left cfg i w"
      using New_request by (simp add: cw_left_def cw_running_iff split_beta nth_append)
    moreover have "\<not> i < length (cw_reqs w) \<Longrightarrow> cw_left cfg i w = 3 * max 0 (rp_maxAttempts (cc_retry cfg))"
      by (simp add: cw_left_def cw_running_iff)
    ultimately show ?thesis using New_request cw_left_range [OF assms(2), of i] by fastforce
  next
    case (Slot j g)
    show ?thesis
    proof (cases "j = i \<and> cw_phase i w = Some Waiting_slot")
      case True
      with phase_running [of i w Waiting_slot] have r: "cw_running i w" "rq_phase (cw_reqs w ! i) = Waiting_slot" by auto
      show ?thesis using True Slot own [OF r(1) distance_slot [OF r(2) refl] pos [OF r(1)]] by simp
    qed (insert Slot, cases "j = i", auto simp: cw_left_other split: option.split req_phase.split)
  next
    case (Answer j clk ra ans)
    show ?thesis
    proof (cases "j = i \<and> cw_phase i w = Some In_flight")
      case True
      with phase_running [of i w In_flight] have r: "cw_running i w" "rq_phase (cw_reqs w ! i) = In_flight" by auto
      show ?thesis using True Answer own [OF r(1) distance_answer [OF r(2) refl] pos [OF r(1)]] by simp
    qed (insert Answer, cases "j = i", auto simp: cw_left_other split: option.split req_phase.split)
  next
    case (Wake j clk)
    show ?thesis
    proof (cases "j = i \<and> (\<exists>ms. cw_phase i w = Some (Backing_off ms))")
      case True
      then obtain ms where ms: "cw_phase i w = Some (Backing_off ms)" by blast
      with phase_running [of i w "Backing_off ms"] have r: "cw_running i w" "rq_phase (cw_reqs w ! i) = Backing_off ms" by auto
      show ?thesis using True ms Wake own [OF r(1) distance_wake [OF r(2) refl] pos [OF r(1)]] by simp
    qed (insert Wake, cases "j = i", auto simp: cw_left_other split: option.split req_phase.split)
  qed
qed

lemma moves_and_left:
  assumes "rp_ok (cc_retry cfg)" "list_all random_ok es" "cw_ok cfg w"
  shows "int (cw_moves cfg dp i es w) + cw_left cfg i (cw_run cfg dp w es) \<le> cw_left cfg i w"
  using assms(2,3)
proof (induction es arbitrary: w)
  case (Cons e es)
  have ok: "cw_ok cfg (cw_event cfg dp e w)" using cw_ok_event [OF assms(1)] Cons.prems by simp
  from Cons.IH [OF _ ok] Cons.prems(1) cw_left_event [OF Cons.prems(2) ok, of i]
  show ?case by (simp add: cw_run_def split: if_splits)
qed (simp add: cw_run_def)

lemma ended_stays:
  "cw_phase i w = Some (Done r) \<Longrightarrow> cw_phase i (cw_event cfg dp e w) = Some (Done r)"
  by (cases e) (auto simp: cw_phase_def cw_update_def split_beta nth_append nth_list_update
      split: if_splits option.split req_phase.split)

lemma running_moves: "cw_running i w \<Longrightarrow> \<exists>e. random_ok e \<and> moves_request i w e"
  by (cases "cw_phase i w")
    (auto simp: cw_running_def split: req_phase.splits
      intro: exI [of _ "Slot i True"] exI [of _ "Wake i (\<lambda>_. 0)"]
        exI [of _ "Answer i (\<lambda>_. 0) 0 (Fetch_threw True)"])

subsection \<open>Answers that say nothing against the provider\<close>

text \<open>An answer that was read, and is neither 408, 429 nor 5xx.\<close>

definition catalogue_answer :: "fetch_outcome \<Rightarrow> bool" where
  "catalogue_answer ans = (case ans of
     Fetch_threw _ \<Rightarrow> False
   | Fetched res \<Rightarrow> hr_body res \<noteq> None \<and> hr_status res < 500 \<and> hr_status res \<notin> {408, 429})"

fun healthy_event :: "client_event \<Rightarrow> bool" where
  "healthy_event (Answer i clk r ans) = catalogue_answer ans"
| "healthy_event _ = True"

lemma catalogue_not_counted:
  assumes "catalogue_answer ans"
  shows "case fst (pc_outcome cfg dp clk ans spec pc) of
    Inl e \<Rightarrow> ue_kind e = Http | Inr _ \<Rightarrow> True"
  using assms
  by (cases ans) (auto simp: catalogue_answer_def pc_outcome_def pc_classify_def Let_def)

lemma breaker_adapt: "pc_breaker (pc_adaptQuota cfg now res pc) = pc_breaker pc"
  by (simp add: pc_adaptQuota_def split: option.split)

lemma breaker_outcome: "pc_breaker (snd (pc_outcome cfg dp clk ans spec pc)) = pc_breaker pc"
  by (simp add: pc_outcome_def breaker_adapt split: fetch_outcome.split)

lemma closed_success:
  "cb_state cb = Closed \<Longrightarrow> cb_state (cb_recordSuccess cb) = Closed"
  by (simp add: cb_recordSuccess_def)

lemma closed_head:
  "cb_state (pc_breaker pc) = Closed \<Longrightarrow>
   cb_state (pc_breaker (fst (pc_loop_head cfg clk e pc rq))) = Closed"
  by (auto simp: pc_loop_head_def Let_def split_beta closed_success
      split: option.split prod.split bool.split)

lemma closed_acquire: "cb_state cb = Closed \<Longrightarrow> cb_tryAcquire now cb = (True, cb)"
  by (simp add: cb_tryAcquire_def cb_refresh_def)

lemma closed_event:
  assumes "healthy_event e" "cb_state (pc_breaker (cw_client w)) = Closed"
  shows "cb_state (pc_breaker (cw_client (cw_event cfg dp e w))) = Closed"
proof (cases e)
  case (New_request en clk spec)
  with assms(2) show ?thesis
    by (auto simp: pc_start_def Let_def split_beta closed_acquire closed_head)
next
  case (Slot i g)
  with assms(2) show ?thesis
    by (auto simp: cw_update_def pc_slot_def closed_success split: option.split req_phase.split)
next
  case (Answer i clk r ans)
  let ?o = "pc_outcome cfg dp clk ans (rq_spec (cw_reqs w ! i)) (cw_client w)"
  have b: "cb_state (pc_breaker (snd ?o)) = Closed" using assms(2) by (simp add: breaker_outcome)
  have "case fst ?o of Inl e \<Rightarrow> ue_kind e = Http | Inr _ \<Rightarrow> True"
    using assms(1) Answer by (intro catalogue_not_counted) simp
  then have "cb_state (pc_breaker (fst (pc_answer cfg dp clk r ans (cw_client w) (cw_reqs w ! i)))) = Closed"
    using b by (auto simp: pc_answer_def Let_def ue_countsAgainstProvider_def ue_retryable_def
        RETRYABLE_KINDS_def closed_success split: prod.splits sum.splits)
  with Answer assms(2) show ?thesis
    by (auto simp: cw_update_def split: option.split req_phase.split)
next
  case (Wake i clk)
  with assms(2) show ?thesis
    by (auto simp: cw_update_def pc_wake_def closed_head split: option.split req_phase.split)
qed

interpretation healthy_runs: guarded_machine "cw_event cfg dp"
    "\<lambda>w. cb_state (pc_breaker (cw_client w)) = Closed" healthy_event for cfg dp
  by unfold_locales (rule closed_event)

subsection \<open>Refused by a spent quota\<close>

definition spent :: "time \<Rightarrow> request_spec \<Rightarrow> quota_counter \<Rightarrow> bool" where
  "spent now spec q \<longleftrightarrow>
     qc_limit q < int (length (qc_spends (qc_prune now q))) + orelse (sp_cost spec) 1"

lemma spent_refuses:
  assumes "spent now spec q"
  shows "\<exists>q1. qc_tryConsume now (orelse (sp_cost spec) 1) q = (False, q1) \<and>
    spent now spec (snd (qc_msUntilAvailable now (snd (qc_snapshot now q1))))"
  using assms
  by (auto simp: spent_def qc_tryConsume_def qc_snapshot_def qc_msUntilAvailable_def Let_def
      qc_prune_rejected qc_prune_idem split: list.splits)

lemma spent_head:
  assumes "pc_quota pc = Some q" "spent now (rq_spec rq) q"
    "rq_attempt rq \<le> rp_maxAttempts (cc_retry cfg)"
  shows "\<exists>q' e'. pc_loop_head cfg (\<lambda>_. now) e pc rq =
      (pc\<lparr>pc_quota := Some q', pc_breaker := cb_recordSuccess (pc_breaker pc)\<rparr>, fail_with e' rq) \<and>
    spent now (rq_spec rq) q'"
proof -
  obtain q1 where q1: "qc_tryConsume now (orelse (sp_cost (rq_spec rq)) 1) q = (False, q1)"
    and sp: "spent now (rq_spec rq) (snd (qc_msUntilAvailable now (snd (qc_snapshot now q1))))"
    using spent_refuses [OF assms(2)] by blast
  let ?u = "qc_msUntilAvailable now (snd (qc_snapshot now q1))"
  show ?thesis
    using assms q1 sp
    by (intro exI [of _ "snd ?u"] exI [of _ "\<lparr>ue_provider = cc_name cfg, ue_kind = Quota_exhausted,
        ue_status = None, ue_retryAfterMs = Some (fst ?u)\<rparr>"])
      (simp add: pc_loop_head_def Let_def split_beta)
qed

lemma spent_start:
  assumes "cb_tryAcquire now (pc_breaker pc) = (True, cb)" "pc_quota pc = Some q" "spent now spec q"
    "1 \<le> rp_maxAttempts (cc_retry cfg)"
  shows "\<exists>q' e'. pc_start cfg True (\<lambda>_. now) spec pc =
      (pc\<lparr>pc_quota := Some q', pc_breaker := cb_recordSuccess cb\<rparr>, fail_with e' (new_request spec)) \<and>
    spent now spec q'"
  using spent_head [of "pc\<lparr>pc_breaker := cb\<rparr>" q now "new_request spec" cfg None] assms
  by (auto simp: pc_start_def Let_def new_request_def)

subsection \<open>Properties\<close>

abbreviation demo_spec :: request_spec where
  "demo_spec \<equiv> \<lparr>sp_cost = None, sp_emptyStatuses = Some [404], sp_acceptStatuses = None\<rparr>"

abbreviation demo_config :: client_config where
  "demo_config \<equiv> \<lparr>cc_name = Lastfm, cc_retry = DEFAULT_RETRY, cc_hasLimiter = False,
     cc_adaptiveQuota = False\<rparr>"

abbreviation demo_client :: provider_client where
  "demo_client \<equiv> \<lparr>pc_breaker = demo_breaker,
     pc_quota = Some \<lparr>qc_limit = 1, qc_windowMs = 1000, qc_spends = [], qc_rejected = 0\<rparr>\<rparr>"

abbreviation answer_404 :: fetch_outcome where
  "answer_404 \<equiv> Fetched \<lparr>hr_status = 404, hr_body = Some ''none'', hr_rateLimit = None,
     hr_resetIn = None, hr_retryAfter = None\<rparr>"

text \<open>Claim C4. However many requests are interleaved, each calls \<open>fetch\<close> at most \<open>maxAttempts\<close> times,
  never without a granted quota spend when the client has a quota, and sleeps in total at
  most \<open>maxAttempts - 1\<close> times the longest backoff of its policy.\<close>

theorem request_bounded:
  assumes "rp_ok (cc_retry cfg)" and "list_all random_ok es"
    and "w = cw_run cfg dp \<lparr>cw_client = pc, cw_reqs = []\<rparr> es" and "rq \<in> set (cw_reqs w)"
  shows "int (rq_sent rq) \<le> max 0 (rp_maxAttempts (cc_retry cfg)) \<and>
    (pc_quota (cw_client w) \<noteq> None \<longrightarrow> rq_sent rq \<le> rq_granted rq) \<and>
    rq_slept rq \<le> (max 1 (rp_maxAttempts (cc_retry cfg)) - 1) * rp_maxSleep (cc_retry cfg)"
proof -
  have "cw_ok cfg w"
    using client_runs.inv_ok_run [of cfg "\<lparr>cw_client = pc, cw_reqs = []\<rparr>" es dp] assms(1-3)
    by (simp add: cw_ok_def cw_run_def)
  with assms(4) have ok: "rq_ok cfg (pc_quota (cw_client w) \<noteq> None) rq" by (simp add: cw_ok_def)
  have "(rq_attempt rq - 1) * rp_maxSleep (cc_retry cfg) \<le>
      (max 1 (rp_maxAttempts (cc_retry cfg)) - 1) * rp_maxSleep (cc_retry cfg)"
    using ok assms(1) by (intro mult_right_mono) (auto simp: rq_ok_def rp_maxSleep_def rp_ok_def)
  with ok show ?thesis by (auto simp: rq_ok_def split: if_splits)
qed

theorem request_bounded_witness:
  "let w = cw_run demo_config (\<lambda>_. None) \<lparr>cw_client = demo_client, cw_reqs = []\<rparr>
     [New_request True (\<lambda>_. 5) demo_spec, Answer 0 (\<lambda>_. 9) (1 / 2) (Fetch_threw True), Wake 0 (\<lambda>_. 200)]
   in int (rq_sent (cw_reqs w ! 0)) \<le> 3 \<and> rq_slept (cw_reqs w ! 0) \<le> 10198"
proof -
  let ?w = "cw_run demo_config (\<lambda>_. None) \<lparr>cw_client = demo_client, cw_reqs = []\<rparr>
    [New_request True (\<lambda>_. 5) demo_spec, Answer 0 (\<lambda>_. 9) (1 / 2) (Fetch_threw True), Wake 0 (\<lambda>_. 200)]"
  have len: "length (cw_reqs (cw_event cfg dp e w)) = length (cw_reqs w) + (case e of New_request _ _ _ \<Rightarrow> 1 | _ \<Rightarrow> 0)"
    for cfg dp e w
    by (cases e) (auto simp: cw_update_def split_beta split: option.split req_phase.split)
  have "length (cw_reqs ?w) = 1" by (simp add: cw_run_def len del: cw_event.simps)
  then have "cw_reqs ?w ! 0 \<in> set (cw_reqs ?w)" by (simp add: nth_mem)
  from request_bounded [OF _ _ refl this] show ?thesis
    by (simp add: rp_ok_def DEFAULT_RETRY_def rp_maxSleep_def Let_def)
qed

text \<open>Claim C5. Every request ends. In any run of the client, from no request at all and with any
  interleaving of calls, slots, answers and timers, at most \<open>3 * maxAttempts\<close> events act on
  one request. While it has not ended that number is not yet reached, and the event that
  its phase waits for acts on it; once it has ended nothing changes its result.\<close>

theorem request_ends:
  assumes "rp_ok (cc_retry cfg)" and "list_all random_ok es"
    and "w0 = \<lparr>cw_client = pc, cw_reqs = []\<rparr>" and "w = cw_run cfg dp w0 es"
  shows "int (cw_moves cfg dp i es w0) \<le> 3 * max 0 (rp_maxAttempts (cc_retry cfg)) \<and>
    (cw_running i w \<longrightarrow>
       int (cw_moves cfg dp i es w0) < 3 * max 0 (rp_maxAttempts (cc_retry cfg)) \<and>
       (\<exists>e. random_ok e \<and> moves_request i w e)) \<and>
    (\<forall>r e. cw_phase i w = Some (Done r) \<longrightarrow> cw_phase i (cw_event cfg dp e w) = Some (Done r))"
proof -
  have ok: "cw_ok cfg w0" "cw_ok cfg w"
    using client_runs.inv_ok_run [of cfg w0 es dp] assms by (simp_all add: cw_ok_def cw_run_def)
  have "cw_left cfg i w0 = 3 * max 0 (rp_maxAttempts (cc_retry cfg))"
    using assms(3) by (simp add: cw_left_def cw_running_iff)
  with moves_and_left [OF assms(1,2) ok(1), of dp i] cw_left_range [OF ok(2), of i]
  show ?thesis using assms(4) running_moves ended_stays by fastforce
qed

theorem request_ends_witness:
  "let w0 = \<lparr>cw_client = demo_client, cw_reqs = []\<rparr>;
       es = [New_request True (\<lambda>_. 5) demo_spec, Answer 0 (\<lambda>_. 9) 0 (Fetch_threw True)];
       w = cw_run demo_config (\<lambda>_. None) w0 es
   in cw_running 0 w \<and> int (cw_moves demo_config (\<lambda>_. None) 0 es w0) < 9"
proof -
  let ?w0 = "\<lparr>cw_client = demo_client, cw_reqs = []\<rparr>"
  let ?es = "[New_request True (\<lambda>_. 5) demo_spec, Answer 0 (\<lambda>_. 9) 0 (Fetch_threw True)]"
  have "cw_running 0 (cw_run demo_config (\<lambda>_. None) ?w0 ?es)"
    by (simp add: cw_run_def cw_running_def cw_phase_def cw_update_def pc_start_def pc_loop_head_def
        new_request_def send_def DEFAULT_RETRY_def cb_tryAcquire_def cb_refresh_def Let_def
        qc_tryConsume_def qc_prune_def pc_answer_def pc_outcome_def ue_retryable_def
        RETRYABLE_KINDS_def pc_backoffMs_def ue_countsAgainstProvider_def)
  with request_ends [of demo_config ?es ?w0 demo_client, OF _ _ refl refl, of "\<lambda>_. None" 0] show ?thesis
    by (simp add: rp_ok_def DEFAULT_RETRY_def Let_def del: cw_moves.simps)
qed

text \<open>Gaps in a catalogue never trip the circuit: from a closed breaker, a run in which every
  response was read and is neither 408, 429 nor 5xx leaves it closed, local refusals
  included.\<close>

theorem catalogue_gaps_never_trip:
  assumes "cb_state (pc_breaker pc) = Closed" and "list_all healthy_event es"
  shows "cb_state (pc_breaker (cw_client (cw_run cfg dp \<lparr>cw_client = pc, cw_reqs = []\<rparr> es))) = Closed"
  using healthy_runs.inv_ok_run [OF _ assms(2), of "\<lparr>cw_client = pc, cw_reqs = []\<rparr>"] assms(1)
  by (simp add: cw_run_def)

theorem catalogue_gaps_never_trip_witness:
  "cb_state (pc_breaker (cw_client (cw_run demo_config (\<lambda>_. None)
     \<lparr>cw_client = demo_client, cw_reqs = []\<rparr>
     [New_request True (\<lambda>_. 5) demo_spec, Answer 0 (\<lambda>_. 9) 0 answer_404]))) = Closed"
  by (rule catalogue_gaps_never_trip) (simp_all add: catalogue_answer_def)

text \<open>The order of the gates: a request for a disabled provider changes nothing at all, and one
  that the breaker refuses spends no quota, queues for no slot and sends nothing.\<close>

theorem refusals_cost_nothing:
  "pc_start cfg False clk spec pc =
     (pc, fail_with (plain_error (cc_name cfg) Disabled) (new_request spec)) \<and>
   (\<not> fst (cb_tryAcquire (clk 0) (pc_breaker pc)) \<longrightarrow>
      (\<exists>cb. pc_start cfg True clk spec pc =
        (pc\<lparr>pc_breaker := cb\<rparr>, fail_with (plain_error (cc_name cfg) Circuit_open) (new_request spec))))"
  by (auto simp: pc_start_def Let_def split_beta split: prod.split bool.split)

theorem refusals_cost_nothing_witness:
  "\<exists>cb. pc_start demo_config True (\<lambda>_. 4) demo_spec
       (demo_client\<lparr>pc_breaker := cb_recordFailure 3 demo_breaker\<rparr>) =
     (demo_client\<lparr>pc_breaker := cb\<rparr>,
      fail_with (plain_error Lastfm Circuit_open) (new_request demo_spec))"
  using refusals_cost_nothing [of demo_config "\<lambda>_. 4" demo_spec
      "demo_client\<lparr>pc_breaker := cb_recordFailure 3 demo_breaker\<rparr>"]
  by (simp add: cb_tryAcquire_def cb_refresh_def cb_recordFailure_def cb_open_def cb_backoff_def Let_def)

text \<open>A local refusal counts as a success of the provider: when the reset window of an open
  circuit has passed and the quota is spent, two requests (the success threshold) that are
  both refused by the quota close the circuit, although nothing was sent.\<close>

theorem refusals_close_circuit:
  assumes "cb_state (pc_breaker pc) = Open" and "reached now (cb_nextAttemptAt (pc_breaker pc))"
    and "cb_successThreshold (pc_breaker pc) = 2" and "pc_quota pc = Some q" and "spent now spec q"
    and "1 \<le> rp_maxAttempts (cc_retry cfg)"
    and "pc_start cfg True (\<lambda>_. now) spec pc = (pc1, rq1)"
    and "pc_start cfg True (\<lambda>_. now) spec pc1 = (pc2, rq2)"
  shows "cb_state (pc_breaker pc2) = Closed \<and> rq_sent rq1 = 0 \<and> rq_sent rq2 = 0"
proof -
  let ?h = "(cb_refresh now (pc_breaker pc))\<lparr>cb_halfOpenInFlight := 1\<rparr>"
  have a1: "cb_tryAcquire now (pc_breaker pc) = (True, ?h)"
    using assms(1-3) by (simp add: cb_tryAcquire_def cb_refresh_def)
  from spent_start [OF a1 assms(4-6)] assms(7) obtain q1 where
    s1: "pc_breaker pc1 = cb_recordSuccess ?h" "pc_quota pc1 = Some q1" "spent now spec q1"
    and r1: "rq_sent rq1 = 0" by (auto simp: fail_with_def new_request_def)
  have a2: "cb_tryAcquire now (pc_breaker pc1) = (True, (pc_breaker pc1)\<lparr>cb_halfOpenInFlight := 1\<rparr>)"
    using assms(1-3) s1(1) by (simp add: cb_tryAcquire_def cb_refresh_def cb_recordSuccess_def Let_def)
  from spent_start [OF a2 s1(2,3) assms(6)] assms(8) have
    "pc_breaker pc2 = cb_recordSuccess ((pc_breaker pc1)\<lparr>cb_halfOpenInFlight := 1\<rparr>)" "rq_sent rq2 = 0"
    by (auto simp: fail_with_def new_request_def)
  with r1 assms(1-3) s1(1) show ?thesis
    by (simp add: cb_refresh_def cb_recordSuccess_def cb_close_def Let_def)
qed

theorem refusals_close_circuit_witness:
  "let pc = demo_client\<lparr>pc_breaker := cb_recordFailure 3 demo_breaker,
       pc_quota := Some \<lparr>qc_limit = 1, qc_windowMs = 1000, qc_spends = [10], qc_rejected = 0\<rparr>\<rparr>;
     pc1 = fst (pc_start demo_config True (\<lambda>_. 20) demo_spec pc);
     pc2 = fst (pc_start demo_config True (\<lambda>_. 20) demo_spec pc1)
   in cb_state (pc_breaker pc) = Open \<and> cb_state (pc_breaker pc2) = Closed"
proof -
  let ?pc = "demo_client\<lparr>pc_breaker := cb_recordFailure 3 demo_breaker,
    pc_quota := Some \<lparr>qc_limit = 1, qc_windowMs = 1000, qc_spends = [10], qc_rejected = 0\<rparr>\<rparr>"
  let ?s1 = "pc_start demo_config True (\<lambda>_. 20) demo_spec ?pc"
  let ?s2 = "pc_start demo_config True (\<lambda>_. 20) demo_spec (fst ?s1)"
  have o: "cb_state (pc_breaker ?pc) = Open" by (simp add: cb_recordFailure_def cb_open_def Let_def)
  have "spent 20 demo_spec \<lparr>qc_limit = 1, qc_windowMs = 1000, qc_spends = [10], qc_rejected = 0\<rparr>"
    by (simp add: spent_def qc_prune_def)
  moreover have "reached 20 (cb_nextAttemptAt (pc_breaker ?pc))" "cb_successThreshold (pc_breaker ?pc) = 2"
    by (simp_all add: cb_recordFailure_def cb_open_def cb_backoff_def Let_def)
  moreover have "1 \<le> rp_maxAttempts (cc_retry demo_config)" by (simp add: DEFAULT_RETRY_def)
  ultimately have "cb_state (pc_breaker (fst ?s2)) = Closed"
    using refusals_close_circuit [of ?pc 20 _ demo_spec demo_config "fst ?s1" "snd ?s1" "fst ?s2" "snd ?s2"] o
    by (simp only: prod.collapse provider_client.simps simp_thms)
  with o show ?thesis by (simp only: Let_def simp_thms)
qed

text \<open>Nothing of a query string reaches a log or an error message: the redacted form depends only
  on what precedes the first question mark, and a URL without one is unchanged.\<close>

theorem redactUrl_hides_query:
  assumes "CHR ''?'' \<notin> set path"
  shows "redactUrl (path @ CHR ''?'' # query) = path @ ''?[redacted]'' \<and> redactUrl path = path"
  using assms by (simp add: redactUrl_def indexOf_append iffD2 [OF indexOf_None])

theorem redactUrl_hides_query_witness:
  "redactUrl ''https://x/2.0/?api_key=secret'' = ''https://x/2.0/?[redacted]''"
  using redactUrl_hides_query [of "''https://x/2.0/''" "''api_key=secret''"] by simp

end
