(* ===== verification/Rate_Limiter.thy ===== *)
theory Rate_Limiter
  imports Pf_Prelude "HOL-Library.Multiset"
begin

text \<open>
  The process-wide pacing of \<^verbatim>\<open>packages/upstream/src/rate-limiter.ts\<close>. A waiter is a
  number; \<open>rl_resolved\<close> and \<open>rl_failed\<close> record the outcome of its promise (with the
  dispatch time that was recorded for it). The drain coroutine is a loop that runs without
  interruption up to its next \<open>await sleep\<close>: \<open>rl_drain\<close> is such a stretch, and
  \<open>rl_sleeping\<close> holds the pending sleep when it is suspended. The state carries the
  number of clock readings made so far, so two readings of one iteration may differ.
\<close>

record limiter_options =
  opt_minIntervalMs :: int
  opt_maxQueueDepth :: int

record rate_limiter =
  rl_minIntervalMs :: int
  rl_maxQueueDepth :: int
  rl_queue :: "nat list"
  rl_draining :: bool
  rl_lastDispatchAt :: "time option"
  rl_dispatched :: nat
  rl_rejected :: nat
  rl_dispatchTimes :: "time list"
  rl_sleeping :: "int option"
  rl_resolved :: "(nat \<times> time) list"
  rl_failed :: "nat list"
  rl_readings :: nat

definition rl_maxDispatchHistory :: nat where
  "rl_maxDispatchHistory = 20000"

datatype limiter_error = Bad_minInterval | Bad_maxQueueDepth

definition rl_new :: "limiter_options \<Rightarrow> limiter_error + rate_limiter" where
  "rl_new opts =
     (if opt_minIntervalMs opts < 0 then Inl Bad_minInterval
      else if opt_maxQueueDepth opts < 1 then Inl Bad_maxQueueDepth
      else Inr \<lparr>rl_minIntervalMs = opt_minIntervalMs opts, rl_maxQueueDepth = opt_maxQueueDepth opts,
                rl_queue = [], rl_draining = False, rl_lastDispatchAt = None, rl_dispatched = 0,
                rl_rejected = 0, rl_dispatchTimes = [], rl_sleeping = None, rl_resolved = [],
                rl_failed = [], rl_readings = 0\<rparr>)"

text \<open>\<open>minInterval - (now - lastDispatchAt)\<close>, where the initial \<open>-Infinity\<close> means no wait.\<close>

definition rl_waitMs :: "time \<Rightarrow> rate_limiter \<Rightarrow> int" where
  "rl_waitMs now rl =
     (case rl_lastDispatchAt rl of None \<Rightarrow> 0 | Some t \<Rightarrow> rl_minIntervalMs rl - (now - t))"

text \<open>One dispatch: shift the head, stamp it, resolve its promise.\<close>

definition rl_dispatch :: "time \<Rightarrow> rate_limiter \<Rightarrow> rate_limiter" where
  "rl_dispatch at rl =
     (case rl_queue rl of
        [] \<Rightarrow> rl
      | w # ws \<Rightarrow> rl\<lparr>rl_queue := ws, rl_lastDispatchAt := Some at,
                     rl_dispatched := Suc (rl_dispatched rl),
                     rl_dispatchTimes :=
                       (if length (rl_dispatchTimes rl) < rl_maxDispatchHistory
                        then rl_dispatchTimes rl @ [at] else rl_dispatchTimes rl),
                     rl_resolved := rl_resolved rl @ [(w, at)]\<rparr>)"

lemma rl_queue_dispatch [simp]: "rl_queue (rl_dispatch at rl) = tl (rl_queue rl)"
  by (simp add: rl_dispatch_def split: list.split)

text \<open>The drain loop from its head to the next \<open>await\<close> or to its end.\<close>

function rl_drain :: "clock \<Rightarrow> rate_limiter \<Rightarrow> rate_limiter" where
  "rl_drain clk rl =
     (if rl_queue rl = [] then rl\<lparr>rl_draining := False, rl_sleeping := None\<rparr>
      else let k = rl_readings rl; waitMs = rl_waitMs (clk k) rl
           in if waitMs > 0 then rl\<lparr>rl_readings := Suc k, rl_sleeping := Some waitMs\<rparr>
              else rl_drain clk (rl_dispatch (clk (Suc k)) (rl\<lparr>rl_readings := Suc (Suc k)\<rparr>)))"
  by pat_completeness auto
termination
  by (relation "measure (\<lambda>(clk, rl). length (rl_queue rl))") auto

declare rl_drain.simps [simp del]

datatype acquire_outcome = Overflow nat | Pending

definition rl_acquire :: "clock \<Rightarrow> nat \<Rightarrow> rate_limiter \<Rightarrow> acquire_outcome \<times> rate_limiter" where
  "rl_acquire clk w rl =
     (if int (length (rl_queue rl)) \<ge> rl_maxQueueDepth rl
      then (Overflow (length (rl_queue rl)), rl\<lparr>rl_rejected := Suc (rl_rejected rl)\<rparr>)
      else let rl1 = rl\<lparr>rl_queue := rl_queue rl @ [w]\<rparr>
           in (Pending, if rl_draining rl1 then rl1 else rl_drain clk (rl1\<lparr>rl_draining := True\<rparr>)))"

text \<open>The sleep of the suspended coroutine ends, and the loop goes on from its head.\<close>

definition rl_wake :: "clock \<Rightarrow> rate_limiter \<Rightarrow> rate_limiter" where
  "rl_wake clk rl =
     (case rl_sleeping rl of None \<Rightarrow> rl | Some _ \<Rightarrow> rl_drain clk (rl\<lparr>rl_sleeping := None\<rparr>))"

definition rl_drainAndReject :: "rate_limiter \<Rightarrow> rate_limiter" where
  "rl_drainAndReject rl = rl\<lparr>rl_queue := [], rl_failed := rl_failed rl @ rl_queue rl\<rparr>"

text \<open>The getters: queue depth, counters, and the peak the provider enforces against.\<close>

definition rl_stats :: "rate_limiter \<Rightarrow> nat \<times> nat \<times> nat" where
  "rl_stats rl = (rl_dispatched rl, rl_rejected rl, length (rl_queue rl))"

fun peak_from :: "int \<Rightarrow> nat \<Rightarrow> time list \<Rightarrow> nat" where
  "peak_from w peak [] = peak"
| "peak_from w peak (t # ts) =
     (let count = length (takeWhile (\<lambda>u. \<not> u \<ge> t + w) (t # ts))
      in peak_from w (if count > peak then count else peak) ts)"

definition rl_peakInWindow :: "int \<Rightarrow> rate_limiter \<Rightarrow> nat" where
  "rl_peakInWindow w rl = peak_from w 0 (rl_dispatchTimes rl)"

subsection \<open>The limiter among its callers\<close>

text \<open>
  What can happen to a limiter: a caller acquires, the pending sleep ends (early, on time
  or late), the process shuts down, or the clock is read by somebody else.
\<close>

datatype limiter_event = Ev_acquire nat | Ev_wake | Ev_shutdown | Ev_tick

fun rl_event :: "clock \<Rightarrow> limiter_event \<Rightarrow> rate_limiter \<Rightarrow> rate_limiter" where
  "rl_event clk (Ev_acquire w) rl = snd (rl_acquire clk w rl)"
| "rl_event clk Ev_wake rl = rl_wake clk rl"
| "rl_event clk Ev_shutdown rl = rl_drainAndReject rl"
| "rl_event clk Ev_tick rl = rl\<lparr>rl_readings := Suc (rl_readings rl)\<rparr>"

text \<open>The waiters that \<open>acquire\<close> took into the queue during a run, in order.\<close>

fun rl_accepted :: "clock \<Rightarrow> rate_limiter \<Rightarrow> limiter_event list \<Rightarrow> nat list" where
  "rl_accepted clk rl [] = []"
| "rl_accepted clk rl (e # es) =
     (case e of Ev_acquire w \<Rightarrow> (if fst (rl_acquire clk w rl) = Pending then [w] else []) | _ \<Rightarrow> [])
     @ rl_accepted clk (rl_event clk e rl) es"

subsection \<open>The invariant\<close>

text \<open>
  The bookkeeping of past dispatches, then the state of the coroutine between events: it
  is draining exactly while it sleeps, and a waiter in the queue has a sleeping coroutine
  to serve it.
\<close>

definition rl_books :: "rate_limiter \<Rightarrow> bool" where
  "rl_books rl \<longleftrightarrow>
     0 \<le> rl_minIntervalMs rl \<and> 1 \<le> rl_maxQueueDepth rl \<and>
     rl_dispatched rl = length (rl_resolved rl) \<and>
     rl_dispatchTimes rl = take rl_maxDispatchHistory (map snd (rl_resolved rl)) \<and>
     rl_lastDispatchAt rl =
       (if rl_resolved rl = [] then None else Some (snd (last (rl_resolved rl)))) \<and>
     spaced (rl_minIntervalMs rl) (map snd (rl_resolved rl))"

definition rl_inv :: "rate_limiter \<Rightarrow> bool" where
  "rl_inv rl \<longleftrightarrow>
     rl_books rl \<and> int (length (rl_queue rl)) \<le> rl_maxQueueDepth rl \<and>
     (rl_draining rl \<longleftrightarrow> rl_sleeping rl \<noteq> None) \<and>
     (rl_queue rl \<noteq> [] \<longrightarrow> rl_sleeping rl \<noteq> None)"

lemma rl_inv_new: "rl_new opts = Inr rl \<Longrightarrow> rl_inv rl"
  by (auto simp: rl_new_def rl_inv_def rl_books_def split: if_splits)

lemma rl_books_dispatch:
  assumes "rl_books rl" "rl_waitMs now rl \<le> 0" "now \<le> at"
  shows "rl_books (rl_dispatch at rl)"
proof (cases "rl_queue rl")
  case Nil
  with assms(1) show ?thesis by (simp add: rl_dispatch_def)
next
  case (Cons w ws)
  have "spaced (rl_minIntervalMs rl) (map snd (rl_resolved rl) @ [at])"
    using assms
    by (cases "rl_resolved rl = []") (simp_all add: spaced_snoc rl_books_def rl_waitMs_def last_map)
  with Cons assms(1) show ?thesis
    by (auto simp: rl_books_def rl_dispatch_def take_Cons')
qed

lemma rl_books_frame:
  "rl_books (rl\<lparr>rl_readings := k\<rparr>) = rl_books rl"
  "rl_books (rl\<lparr>rl_sleeping := z\<rparr>) = rl_books rl"
  "rl_books (rl\<lparr>rl_draining := b\<rparr>) = rl_books rl"
  "rl_books (rl\<lparr>rl_queue := q\<rparr>) = rl_books rl"
  "rl_books (rl\<lparr>rl_rejected := n\<rparr>) = rl_books rl"
  "rl_books (rl\<lparr>rl_failed := f\<rparr>) = rl_books rl"
  by (simp_all add: rl_books_def)

lemma rl_dispatch_frame:
  "rl_draining (rl_dispatch at rl) = rl_draining rl"
  "rl_maxQueueDepth (rl_dispatch at rl) = rl_maxQueueDepth rl"
  "rl_minIntervalMs (rl_dispatch at rl) = rl_minIntervalMs rl"
  "rl_failed (rl_dispatch at rl) = rl_failed rl"
  "rl_readings (rl_dispatch at rl) = rl_readings rl"
  "rl_sleeping (rl_dispatch at rl) = rl_sleeping rl"
  by (simp_all add: rl_dispatch_def split: list.split)

lemma rl_waitMs_frame: "rl_waitMs now (rl\<lparr>rl_readings := k\<rparr>) = rl_waitMs now rl"
  by (simp add: rl_waitMs_def split: option.split)

lemmas rl_frames = rl_books_frame rl_dispatch_frame rl_waitMs_frame

lemma rl_drain_books: "steady clk \<Longrightarrow> rl_books rl \<Longrightarrow> rl_books (rl_drain clk rl)"
proof (induction clk rl rule: rl_drain.induct)
  case (1 clk rl)
  let ?k = "rl_readings rl"
  show ?case
  proof (cases "rl_queue rl = [] \<or> 0 < rl_waitMs (clk ?k) rl")
    case True
    with "1.prems" show ?thesis by (subst rl_drain.simps) (auto simp: rl_frames Let_def)
  next
    case False
    have "clk ?k \<le> clk (Suc ?k)" using "1.prems"(1) by (simp add: steady_def)
    with False "1.prems" have "rl_books (rl_dispatch (clk (Suc ?k)) (rl\<lparr>rl_readings := Suc (Suc ?k)\<rparr>))"
      by (intro rl_books_dispatch [where now = "clk ?k"]) (auto simp: rl_frames)
    with False "1.IH" "1.prems"(1) show ?thesis by (subst rl_drain.simps) (simp add: Let_def)
  qed
qed

lemma rl_drain_frame:
  "rl_maxQueueDepth (rl_drain clk rl) = rl_maxQueueDepth rl \<and>
   rl_minIntervalMs (rl_drain clk rl) = rl_minIntervalMs rl \<and>
   rl_failed (rl_drain clk rl) = rl_failed rl \<and>
   length (rl_queue (rl_drain clk rl)) \<le> length (rl_queue rl)"
proof (induction clk rl rule: rl_drain.induct)
  case (1 clk rl)
  then show ?case
    by (subst (1 2 3 4) rl_drain.simps) (fastforce simp: Let_def rl_dispatch_frame)
qed

lemma rl_drain_coroutine:
  "rl_draining rl \<Longrightarrow>
   (rl_draining (rl_drain clk rl) \<longleftrightarrow> rl_sleeping (rl_drain clk rl) \<noteq> None) \<and>
   (rl_queue (rl_drain clk rl) \<noteq> [] \<longrightarrow> rl_sleeping (rl_drain clk rl) \<noteq> None)"
proof (induction clk rl rule: rl_drain.induct)
  case (1 clk rl)
  then show ?case
    by (subst (1 2 3 4) rl_drain.simps) (auto simp: Let_def rl_dispatch_frame)
qed

lemma rl_drain_order:
  "map fst (rl_resolved (rl_drain clk rl)) @ rl_queue (rl_drain clk rl) =
   map fst (rl_resolved rl) @ rl_queue rl"
proof (induction clk rl rule: rl_drain.induct)
  case (1 clk rl)
  have "map fst (rl_resolved (rl_dispatch at (rl\<lparr>rl_readings := k\<rparr>))) @ tl (rl_queue rl) =
      map fst (rl_resolved rl) @ rl_queue rl" for at k
    by (simp add: rl_dispatch_def split: list.split)
  with 1 show ?case by (subst (1 2) rl_drain.simps) (auto simp: Let_def)
qed

lemma rl_inv_drain:
  assumes "steady clk" "rl_books rl" "int (length (rl_queue rl)) \<le> rl_maxQueueDepth rl"
    "rl_draining rl"
  shows "rl_inv (rl_drain clk rl)"
  using rl_drain_books [OF assms(1,2)] rl_drain_frame [of clk rl] rl_drain_coroutine [OF assms(4), of clk]
    assms(3)
  by (auto simp: rl_inv_def)

lemma rl_inv_event: "steady clk \<Longrightarrow> rl_inv rl \<Longrightarrow> rl_inv (rl_event clk e rl)"
proof (cases e)
  case (Ev_acquire w)
  assume a: "steady clk" "rl_inv rl"
  show ?thesis
  proof (cases "rl_maxQueueDepth rl \<le> int (length (rl_queue rl)) \<or> rl_draining rl")
    case True
    with a Ev_acquire show ?thesis
      by (auto simp: rl_acquire_def Let_def rl_inv_def rl_frames)
  next
    case False
    with a have "rl_inv (rl_drain clk (rl\<lparr>rl_queue := rl_queue rl @ [w], rl_draining := True\<rparr>))"
      by (intro rl_inv_drain) (auto simp: rl_inv_def rl_frames)
    with False Ev_acquire show ?thesis by (simp add: rl_acquire_def Let_def)
  qed
next
  case Ev_wake
  assume a: "steady clk" "rl_inv rl"
  show ?thesis
  proof (cases "rl_sleeping rl")
    case (Some z)
    with a have "rl_inv (rl_drain clk (rl\<lparr>rl_sleeping := None\<rparr>))"
      by (intro rl_inv_drain) (auto simp: rl_inv_def rl_frames)
    with Some Ev_wake show ?thesis by (simp add: rl_wake_def)
  qed (use a Ev_wake in \<open>simp add: rl_wake_def\<close>)
qed (auto simp: rl_inv_def rl_drainAndReject_def rl_frames)

text \<open>The limiter over a steady clock is a machine with that invariant.\<close>

interpretation limiter: machine "rl_event clk" "\<lambda>rl. steady clk \<and> rl_inv rl" for clk
  by unfold_locales (simp add: rl_inv_event)

subsection \<open>Order, conservation and progress\<close>

lemma rl_event_order:
  assumes "e \<noteq> Ev_shutdown"
  shows "map fst (rl_resolved (rl_event clk e rl)) @ rl_queue (rl_event clk e rl) =
    map fst (rl_resolved rl) @ rl_queue rl @ rl_accepted clk rl [e]"
  using assms
  by (cases e) (auto simp: rl_acquire_def rl_wake_def Let_def rl_drain_order split: option.splits)

lemma rl_run_order:
  "Ev_shutdown \<notin> set es \<Longrightarrow>
   map fst (rl_resolved (run_calls (rl_event clk) rl es)) @ rl_queue (run_calls (rl_event clk) rl es) =
   map fst (rl_resolved rl) @ rl_queue rl @ rl_accepted clk rl es"
proof (induction es arbitrary: rl)
  case (Cons e es)
  from Cons.prems have "e \<noteq> Ev_shutdown" by auto
  from Cons.IH [of "rl_event clk e rl"] Cons.prems rl_event_order [OF this, of clk rl] show ?case
    by (simp flip: append_assoc)
qed simp

lemma rl_event_conserved:
  "mset (map fst (rl_resolved (rl_event clk e rl))) + mset (rl_queue (rl_event clk e rl)) +
     mset (rl_failed (rl_event clk e rl)) =
   mset (map fst (rl_resolved rl)) + mset (rl_queue rl) + mset (rl_failed rl) +
     mset (rl_accepted clk rl [e])"
proof (cases "e = Ev_shutdown")
  case False
  then have "rl_failed (rl_event clk e rl) = rl_failed rl"
    by (cases e) (auto simp: rl_acquire_def rl_wake_def Let_def rl_drain_frame split: option.splits)
  moreover from rl_event_order [OF False, of clk rl]
  have "mset (map fst (rl_resolved (rl_event clk e rl)) @ rl_queue (rl_event clk e rl)) =
      mset (map fst (rl_resolved rl) @ rl_queue rl @ rl_accepted clk rl [e])" by (rule arg_cong)
  ultimately show ?thesis by (simp add: ac_simps)
qed (simp add: rl_drainAndReject_def)

lemma rl_run_conserved:
  "mset (map fst (rl_resolved (run_calls (rl_event clk) rl es))) +
     mset (rl_queue (run_calls (rl_event clk) rl es)) +
     mset (rl_failed (run_calls (rl_event clk) rl es)) =
   mset (map fst (rl_resolved rl)) + mset (rl_queue rl) + mset (rl_failed rl) +
     mset (rl_accepted clk rl es)"
proof (induction es arbitrary: rl)
  case (Cons e es)
  from Cons.IH [of "rl_event clk e rl"] rl_event_conserved [of clk e rl] show ?case
    by (simp add: ac_simps)
qed simp

text \<open>A wake-up that comes no earlier than the interval allows serves the head of the queue.\<close>

definition punctual :: "clock \<Rightarrow> rate_limiter \<Rightarrow> bool" where
  "punctual clk rl \<longleftrightarrow> rl_waitMs (clk (rl_readings rl)) rl \<le> 0"

lemma punctual_wake_shrinks:
  assumes "rl_inv rl" "punctual clk rl"
  shows "length (rl_queue (rl_wake clk rl)) \<le> length (rl_queue rl) - 1"
proof (cases "rl_queue rl = []")
  case True
  then show ?thesis
    by (auto simp: rl_wake_def rl_drain.simps split: option.split)
next
  case False
  with assms obtain z where z: "rl_sleeping rl = Some z" by (auto simp: rl_inv_def)
  let ?k = "rl_readings rl"
  let ?r = "rl_dispatch (clk (Suc ?k)) (rl\<lparr>rl_sleeping := None, rl_readings := Suc (Suc ?k)\<rparr>)"
  have w: "rl_waitMs now (rl\<lparr>rl_sleeping := None\<rparr>) = rl_waitMs now rl" for now
    by (simp add: rl_waitMs_def split: option.split)
  have "rl_wake clk rl = rl_drain clk ?r"
    using z False assms(2) by (simp add: rl_wake_def punctual_def w rl_drain.simps [of clk "rl\<lparr>rl_sleeping := None\<rparr>"] Let_def)
  moreover have "length (rl_queue ?r) = length (rl_queue rl) - 1" by simp
  ultimately show ?thesis using rl_drain_frame [of clk ?r] by simp
qed

lemma punctual_wakes_drain:
  assumes "steady clk" "rl_inv rl"
    and "\<forall>i < m. punctual clk (run_calls (rl_event clk) rl (replicate i Ev_wake))"
  shows "length (rl_queue (run_calls (rl_event clk) rl (replicate m Ev_wake))) \<le> length (rl_queue rl) - m"
  using assms(3)
proof (induction m)
  case (Suc m)
  let ?s = "run_calls (rl_event clk) rl (replicate m Ev_wake)"
  have "rl_inv ?s" using limiter.inv_run [of clk rl "replicate m Ev_wake"] assms(1,2) by simp
  with Suc have "length (rl_queue (rl_wake clk ?s)) \<le> length (rl_queue ?s) - 1"
    by (intro punctual_wake_shrinks) auto
  moreover have "length (rl_queue ?s) \<le> length (rl_queue rl) - m" using Suc by simp
  ultimately show ?case by (simp add: run_calls_replicate_Suc del: replicate_Suc)
qed simp

lemma peak_from_bound:
  assumes "spaced d ts" "0 < d" "0 < w" "int peak \<le> (w + d - 1) div d"
  shows "int (peak_from w peak ts) \<le> (w + d - 1) div d"
  using assms(1,4)
proof (induction ts arbitrary: peak)
  case (Cons t ts)
  have "int (length (takeWhile (\<lambda>u. u < t + w) (t # ts))) \<le> (t + w - t + d - 1) div d"
    using assms(2,3) Cons.prems(1) by (intro spaced_window) auto
  then have "int (length (takeWhile (\<lambda>u. \<not> t + w \<le> u) (t # ts))) \<le> (w + d - 1) div d"
    by (simp add: not_le)
  with Cons spaced_tl [OF Cons.prems(1)] show ?case by (simp add: Let_def)
qed simp

subsection \<open>Properties\<close>

lemma rl_inv_reached:
  assumes "rl_new opts = Inr rl" "steady clk"
  shows "rl_inv (run_calls (rl_event clk) rl es)"
  using limiter.inv_run [of clk rl es] rl_inv_new [OF assms(1)] assms(2) by simp

lemma rl_event_config:
  "rl_minIntervalMs (rl_event clk e rl) = rl_minIntervalMs rl"
  "rl_maxQueueDepth (rl_event clk e rl) = rl_maxQueueDepth rl"
  by (cases e; auto simp: rl_acquire_def rl_wake_def rl_drainAndReject_def Let_def rl_drain_frame
      split: option.split)+

lemma rl_run_config:
  "rl_minIntervalMs (run_calls (rl_event clk) rl es) = rl_minIntervalMs rl"
  "rl_maxQueueDepth (run_calls (rl_event clk) rl es) = rl_maxQueueDepth rl"
  by (induction es arbitrary: rl) (simp_all add: rl_event_config)

lemma rl_new_fields:
  assumes "rl_new opts = Inr rl"
  shows "rl_minIntervalMs rl = opt_minIntervalMs opts" "rl_maxQueueDepth rl = opt_maxQueueDepth opts"
    "rl_queue rl = []" "rl_resolved rl = []" "rl_failed rl = []"
  using assms by (auto simp: rl_new_def split: if_splits)

text \<open>Claim C2. Over a clock that does not run backwards, whatever the callers do, any two consecutive
  dispatches are at least \<open>minIntervalMs\<close> apart, and the peak that a provider measures in a
  window of \<open>w\<close> milliseconds is at most \<open>w / minIntervalMs\<close> rounded up.\<close>

theorem limiter_pacing:
  assumes "rl_new opts = Inr rl0" and "steady clk"
    and "rl = run_calls (rl_event clk) rl0 es" and "0 < w" and "0 < opt_minIntervalMs opts"
  shows "spaced (opt_minIntervalMs opts) (map snd (rl_resolved rl)) \<and>
    int (rl_peakInWindow w rl) \<le> (w + opt_minIntervalMs opts - 1) div opt_minIntervalMs opts"
proof -
  have "rl_inv rl" using rl_inv_reached [OF assms(1,2)] assms(3) by simp
  moreover have "rl_minIntervalMs rl = opt_minIntervalMs opts"
    using assms(1,3) by (simp add: rl_run_config rl_new_fields)
  ultimately have sp: "spaced (opt_minIntervalMs opts) (map snd (rl_resolved rl))"
    and times: "rl_dispatchTimes rl = take rl_maxDispatchHistory (map snd (rl_resolved rl))"
    by (auto simp: rl_inv_def rl_books_def)
  have "0 div opt_minIntervalMs opts \<le> (w + opt_minIntervalMs opts - 1) div opt_minIntervalMs opts"
    using assms(4,5) by (intro zdiv_mono1) auto
  with peak_from_bound [OF spaced_take [OF sp] assms(5,4), of 0] times sp show ?thesis
    by (simp add: rl_peakInWindow_def)
qed

abbreviation demo_limiter_options :: limiter_options where
  "demo_limiter_options \<equiv> \<lparr>opt_minIntervalMs = 1000, opt_maxQueueDepth = 2\<rparr>"

abbreviation demo_limiter :: rate_limiter where
  "demo_limiter \<equiv> \<lparr>rl_minIntervalMs = 1000, rl_maxQueueDepth = 2, rl_queue = [],
     rl_draining = False, rl_lastDispatchAt = None, rl_dispatched = 0, rl_rejected = 0,
     rl_dispatchTimes = [], rl_sleeping = None, rl_resolved = [], rl_failed = [], rl_readings = 0\<rparr>"

abbreviation demo_clock :: clock where
  "demo_clock \<equiv> (\<lambda>n. 600 * int n)"

lemma demo_clock_steady: "steady demo_clock"
  by (simp add: steady_def)

lemma demo_limiter_new: "rl_new demo_limiter_options = Inr demo_limiter"
  by (simp add: rl_new_def)

lemma demo_limiter_run:
  "rl_resolved (run_calls (rl_event demo_clock) demo_limiter [Ev_acquire 7, Ev_acquire 8, Ev_wake]) =
    [(7, 600), (8, 2400)]"
  by (simp add: rl_acquire_def rl_wake_def rl_drain.simps rl_waitMs_def rl_dispatch_def Let_def
      rl_maxDispatchHistory_def)

theorem limiter_pacing_witness:
  "spaced 1000 [600, 2400] \<and>
   int (rl_peakInWindow 1000
     (run_calls (rl_event demo_clock) demo_limiter [Ev_acquire 7, Ev_acquire 8, Ev_wake])) \<le> 1"
  using limiter_pacing [OF demo_limiter_new demo_clock_steady refl, of 1000
      "[Ev_acquire 7, Ev_acquire 8, Ev_wake]"]
  unfolding demo_limiter_run by simp

text \<open>The limiter is first in, first out: as long as it is not shut down, the waiters
  resolved so far followed by the ones still queued are the accepted ones, in the order in
  which \<open>acquire\<close> took them, and the queue never exceeds \<open>maxQueueDepth\<close>.\<close>

theorem limiter_fifo:
  assumes "rl_new opts = Inr rl0" and "steady clk"
    and "rl = run_calls (rl_event clk) rl0 es" and "Ev_shutdown \<notin> set es"
  shows "map fst (rl_resolved rl) @ rl_queue rl = rl_accepted clk rl0 es \<and>
    int (length (rl_queue rl)) \<le> opt_maxQueueDepth opts"
  using rl_run_order [OF assms(4), of clk rl0] rl_inv_reached [OF assms(1,2), of es] assms(3)
    rl_run_config(2) [of clk rl0 es] rl_new_fields [OF assms(1)]
  by (simp add: rl_inv_def)

theorem limiter_fifo_witness:
  "map fst [(7::nat, 600::int), (8, 2400)] = [7, 8] \<and>
   rl_accepted demo_clock demo_limiter [Ev_acquire 7, Ev_acquire 8, Ev_wake] = [7, 8]"
  using limiter_fifo [OF demo_limiter_new demo_clock_steady refl, of "[Ev_acquire 7, Ev_acquire 8, Ev_wake]"]
  by (simp add: rl_acquire_def rl_wake_def rl_drain.simps rl_waitMs_def rl_dispatch_def Let_def
      rl_maxDispatchHistory_def)

text \<open>No accepted waiter is lost or answered twice, shutdowns included: resolved, rejected
  by the shutdown and still queued waiters together are exactly the accepted ones.\<close>

theorem limiter_conservation:
  assumes "rl_new opts = Inr rl0" and "rl = run_calls (rl_event clk) rl0 es"
  shows "mset (map fst (rl_resolved rl)) + mset (rl_queue rl) + mset (rl_failed rl) =
    mset (rl_accepted clk rl0 es)"
  using rl_run_conserved [of clk rl0 es] assms(2) rl_new_fields [OF assms(1)] by simp

theorem limiter_conservation_witness:
  "mset (rl_accepted demo_clock demo_limiter [Ev_acquire 7, Ev_acquire 8, Ev_shutdown]) = {#7, 8#}"
  using limiter_conservation [OF demo_limiter_new refl,
      of demo_clock "[Ev_acquire 7, Ev_acquire 8, Ev_shutdown]"]
  by (simp add: rl_acquire_def rl_drainAndReject_def rl_drain.simps rl_waitMs_def rl_dispatch_def
      Let_def rl_maxDispatchHistory_def)

text \<open>No lost wake-up: with \<open>m\<close> waiters queued in any reachable state, \<open>m\<close> wake-ups none of
  which comes before the interval has passed leave the queue empty.\<close>

theorem limiter_progress:
  assumes "rl_new opts = Inr rl0" and "steady clk" and "rl = run_calls (rl_event clk) rl0 es"
    and "m = length (rl_queue rl)"
    and "\<forall>i < m. punctual clk (run_calls (rl_event clk) rl (replicate i Ev_wake))"
  shows "rl_queue (run_calls (rl_event clk) rl (replicate m Ev_wake)) = []"
  using punctual_wakes_drain [of clk rl m] rl_inv_reached [OF assms(1,2), of es] assms(2-5) by simp

theorem limiter_progress_witness:
  "rl_queue (run_calls (rl_event demo_clock)
     (run_calls (rl_event demo_clock) demo_limiter [Ev_acquire 7, Ev_acquire 8]) [Ev_wake]) = []"
  using limiter_progress [OF demo_limiter_new demo_clock_steady refl, of 1 "[Ev_acquire 7, Ev_acquire 8]"]
  by (simp add: rl_acquire_def rl_wake_def rl_drain.simps rl_waitMs_def rl_dispatch_def Let_def
      rl_maxDispatchHistory_def punctual_def)

end
