(* ===== verification/Single_Flight.thy ===== *)
theory Single_Flight
  imports Pf_Prelude
begin

text \<open>
  Request coalescing, \<^verbatim>\<open>packages/upstream/src/single-flight.ts\<close>. A promise is a number,
  an index into the table \<open>sf_flights\<close> of all flights ever started; \<open>sf_callers\<close> lists what
  each call of \<open>run\<close> was handed. The body of \<open>run\<close> is one synchronous block. The rest of a
  flight's life happens in later ticks: its work comes to an end, then the \<open>finally\<close>
  callback removes the entry and the promise handed to the callers settles.
\<close>

datatype 'r flight_status = Working | Finished 'r | Settled 'r

record 'r single_flight =
  sf_inFlight :: "(string \<times> nat) list"
  sf_joined :: nat
  sf_started :: nat
  sf_flights :: "(string \<times> 'r flight_status) list"
  sf_callers :: "(string \<times> nat) list"

definition sf_new :: "'r single_flight" where
  "sf_new = \<lparr>sf_inFlight = [], sf_joined = 0, sf_started = 0, sf_flights = [], sf_callers = []\<rparr>"

definition sf_has :: "string \<Rightarrow> 'r single_flight \<Rightarrow> bool" where
  "sf_has key sf = (map_of (sf_inFlight sf) key \<noteq> None)"

definition sf_size :: "'r single_flight \<Rightarrow> nat" where
  "sf_size sf = length (sf_inFlight sf)"

definition sf_stats :: "'r single_flight \<Rightarrow> nat \<times> nat" where
  "sf_stats sf = (sf_started sf, sf_joined sf)"

text \<open>\<open>run\<close>: join the registered flight, or start one and register it in the same block.\<close>

definition sf_run :: "string \<Rightarrow> 'r single_flight \<Rightarrow> nat \<times> 'r single_flight" where
  "sf_run key sf =
     (case map_of (sf_inFlight sf) key of
        Some existing \<Rightarrow>
          (existing, sf\<lparr>sf_joined := Suc (sf_joined sf),
                        sf_callers := sf_callers sf @ [(key, existing)]\<rparr>)
      | None \<Rightarrow>
          let flight = length (sf_flights sf)
          in (flight, sf\<lparr>sf_started := Suc (sf_started sf),
                         sf_flights := sf_flights sf @ [(key, Working)],
                         sf_inFlight := AList.update key flight (sf_inFlight sf),
                         sf_callers := sf_callers sf @ [(key, flight)]\<rparr>))"

definition sf_status :: "nat \<Rightarrow> 'r single_flight \<Rightarrow> (string \<times> 'r flight_status) option" where
  "sf_status f sf = (if f < length (sf_flights sf) then Some (sf_flights sf ! f) else None)"

text \<open>The work ends with an outcome: a value or the error every caller will see.\<close>

definition sf_work_ends :: "nat \<Rightarrow> 'r \<Rightarrow> 'r single_flight \<Rightarrow> 'r single_flight" where
  "sf_work_ends f r sf =
     (case sf_status f sf of
        Some (key, Working) \<Rightarrow> sf\<lparr>sf_flights := (sf_flights sf)[f := (key, Finished r)]\<rparr>
      | _ \<Rightarrow> sf)"

text \<open>The \<open>finally\<close> callback with its guarded delete, after which the promise settles.\<close>

definition sf_finally :: "nat \<Rightarrow> 'r single_flight \<Rightarrow> 'r single_flight" where
  "sf_finally f sf =
     (case sf_status f sf of
        Some (key, Finished r) \<Rightarrow>
          sf\<lparr>sf_inFlight := (if map_of (sf_inFlight sf) key = Some f
                            then AList.delete key (sf_inFlight sf) else sf_inFlight sf),
             sf_flights := (sf_flights sf)[f := (key, Settled r)]\<rparr>
      | _ \<Rightarrow> sf)"

text \<open>What a caller's promise holds.\<close>

definition sf_answer :: "nat \<Rightarrow> 'r single_flight \<Rightarrow> 'r option" where
  "sf_answer f sf = (case sf_status f sf of Some (_, Settled r) \<Rightarrow> Some r | _ \<Rightarrow> None)"

subsection \<open>Interleavings\<close>

datatype 'r flight_label = Caller string | Work_ends nat 'r | Finally nat

inductive sf_step :: "'r single_flight \<Rightarrow> 'r flight_label \<Rightarrow> 'r single_flight \<Rightarrow> bool" where
  step_caller: "sf_run key sf = (f, sf') \<Longrightarrow> sf_step sf (Caller key) sf'"
| step_ends: "sf_status f sf = Some (key, Working) \<Longrightarrow> sf_step sf (Work_ends f r) (sf_work_ends f r sf)"
| step_finally: "sf_status f sf = Some (key, Finished r) \<Longrightarrow> sf_step sf (Finally f) (sf_finally f sf)"

inductive_cases sf_callerE: "sf_step sf (Caller key) sf'"
inductive_cases sf_endsE: "sf_step sf (Work_ends f r) sf'"
inductive_cases sf_finallyE: "sf_step sf (Finally f) sf'"

inductive sf_steps :: "'r single_flight \<Rightarrow> 'r flight_label list \<Rightarrow> 'r single_flight \<Rightarrow> bool" where
  steps_refl: "sf_steps sf [] sf"
| steps_snoc: "sf_steps sf es sf1 \<Longrightarrow> sf_step sf1 e sf2 \<Longrightarrow> sf_steps sf (es @ [e]) sf2"

subsection \<open>The invariant\<close>

text \<open>
  The registered flights are exactly the unsettled ones, each under its own key, and every
  caller holds a flight of its key.
\<close>

definition unsettled :: "(string \<times> 'r flight_status) list \<Rightarrow> nat \<Rightarrow> string \<Rightarrow> bool" where
  "unsettled fl f k \<longleftrightarrow> f < length fl \<and> fst (fl ! f) = k \<and> (\<forall>r. snd (fl ! f) \<noteq> Settled r)"

definition sf_inv :: "'r single_flight \<Rightarrow> bool" where
  "sf_inv sf \<longleftrightarrow>
     distinct (map fst (sf_inFlight sf)) \<and>
     (\<forall>k f. map_of (sf_inFlight sf) k = Some f \<longleftrightarrow> unsettled (sf_flights sf) f k) \<and>
     (\<forall>(k, f) \<in> set (sf_callers sf). f < length (sf_flights sf) \<and> fst (sf_flights sf ! f) = k) \<and>
     sf_started sf = length (sf_flights sf) \<and>
     sf_started sf + sf_joined sf = length (sf_callers sf)"

lemma sf_inv_new: "sf_inv sf_new"
  by (simp add: sf_inv_def sf_new_def unsettled_def)

lemma unsettled_snoc:
  "unsettled (fl @ [(key, Working)]) f k \<longleftrightarrow> unsettled fl f k \<or> (f = length fl \<and> k = key)"
  by (auto simp: unsettled_def nth_append)

lemma sf_inv_run:
  assumes "sf_inv sf"
  shows "sf_inv (snd (sf_run key sf))"
proof (cases "map_of (sf_inFlight sf) key")
  case None
  have lt: "unsettled (sf_flights sf) f k \<Longrightarrow> f < length (sf_flights sf)" for f k
    by (simp add: unsettled_def)
  from None assms lt show ?thesis
    by (auto simp: sf_run_def Let_def sf_inv_def update_conv unsettled_snoc distinct_update nth_append)
next
  case (Some f)
  then have "unsettled (sf_flights sf) f key" using assms by (simp add: sf_inv_def)
  with Some assms show ?thesis by (auto simp: sf_run_def sf_inv_def unsettled_def)
qed

lemma sf_inv_ends:
  assumes "sf_inv sf" "sf_status f sf = Some (key, Working)"
  shows "sf_inv (sf_work_ends f r sf)"
proof -
  have "unsettled ((sf_flights sf)[f := (key, Finished r)]) g k \<longleftrightarrow> unsettled (sf_flights sf) g k" for g k
    using assms(2) by (cases "f = g") (auto simp: unsettled_def sf_status_def split: if_splits)
  moreover have "fst ((sf_flights sf)[f := (key, Finished r)] ! g) = fst (sf_flights sf ! g)" for g
    using assms(2) by (cases "f = g") (auto simp: sf_status_def split: if_splits)
  ultimately show ?thesis using assms by (simp add: sf_work_ends_def sf_inv_def)
qed

lemma sf_inv_finally:
  assumes "sf_inv sf" "sf_status f sf = Some (key, Finished r)"
  shows "sf_inv (sf_finally f sf)"
proof -
  have f: "f < length (sf_flights sf)" "sf_flights sf ! f = (key, Finished r)"
    using assms(2) by (auto simp: sf_status_def split: if_splits)
  then have reg: "map_of (sf_inFlight sf) key = Some f"
    using assms(1) by (simp add: sf_inv_def unsettled_def)
  have un: "unsettled ((sf_flights sf)[f := (key, Settled r)]) g k \<longleftrightarrow>
      unsettled (sf_flights sf) g k \<and> g \<noteq> f" for g k
    using f by (cases "f = g") (auto simp: unsettled_def)
  have one: "unsettled (sf_flights sf) g key \<Longrightarrow> g = f" for g
    using assms(1) reg unfolding sf_inv_def by (metis option.inject)
  have fk: "unsettled (sf_flights sf) f k \<Longrightarrow> k = key" for k
    using f by (simp add: unsettled_def)
  have keys: "fst ((sf_flights sf)[f := (key, Settled r)] ! g) = fst (sf_flights sf ! g)" for g
    using f by (cases "f = g") auto
  have "map_of (AList.delete key (sf_inFlight sf)) k = Some g \<longleftrightarrow>
      unsettled ((sf_flights sf)[f := (key, Settled r)]) g k" for g k
  proof (cases "k = key")
    case True
    then show ?thesis using un one by (auto simp: delete_conv)
  next
    case False
    then have "map_of (AList.delete key (sf_inFlight sf)) k = map_of (sf_inFlight sf) k"
      by (simp add: delete_conv)
    with False un [of g k] fk assms(1) show ?thesis unfolding sf_inv_def by metis
  qed
  then have "\<forall>k g. map_of (AList.delete key (sf_inFlight sf)) k = Some g \<longleftrightarrow>
      unsettled ((sf_flights sf)[f := (key, Settled r)]) g k" by blast
  with assms(1) show ?thesis
    unfolding sf_finally_def assms(2) sf_inv_def using reg
    by (simp add: keys distinct_delete del: map_of_eq_None_iff)
qed

lemma sf_inv_step: "sf_step sf e sf' \<Longrightarrow> sf_inv sf \<Longrightarrow> sf_inv sf'"
  by (induction rule: sf_step.induct)
    (auto intro: sf_inv_ends sf_inv_finally dest: sf_inv_run simp: prod_eq_iff [symmetric]
      dest!: arg_cong [where f = snd])

lemma sf_inv_steps: "sf_steps sf es sf' \<Longrightarrow> sf_inv sf \<Longrightarrow> sf_inv sf'"
  by (induction rule: sf_steps.induct) (auto dest: sf_inv_step)

subsection \<open>What a stretch of steps leaves behind\<close>

lemma registered_unsettled:
  "sf_inv sf \<Longrightarrow> sf_run key sf = (f, sf') \<Longrightarrow> unsettled (sf_flights sf') f key"
  by (auto simp: sf_run_def sf_inv_def unsettled_snoc Let_def split: option.splits)

text \<open>While no flight of \<open>key\<close> settles: its callers since \<open>sf0\<close>, and its flights since then.\<close>

definition since :: "'r single_flight \<Rightarrow> string \<Rightarrow> 'r single_flight \<Rightarrow> bool" where
  "since sf0 key sf \<longleftrightarrow>
     length (sf_callers sf0) \<le> length (sf_callers sf) \<and>
     length (sf_flights sf0) \<le> length (sf_flights sf) \<and>
     (\<forall>f. (key, f) \<in> set (drop (length (sf_callers sf0)) (sf_callers sf)) \<longrightarrow>
        unsettled (sf_flights sf) f key) \<and>
     (\<forall>f. length (sf_flights sf0) \<le> f \<longrightarrow> f < length (sf_flights sf) \<longrightarrow>
        fst (sf_flights sf ! f) = key \<longrightarrow> unsettled (sf_flights sf) f key)"

lemma since_caller:
  assumes inv: "sf_inv sf" and s: "since sf0 key sf" and r: "sf_run k sf = (f, sf')"
  shows "since sf0 key sf'"
proof -
  have cs: "sf_callers sf' = sf_callers sf @ [(k, f)]"
    using r by (auto simp: sf_run_def Let_def split: option.splits)
  have fl: "sf_flights sf' = sf_flights sf \<or>
      f = length (sf_flights sf) \<and> sf_flights sf' = sf_flights sf @ [(k, Working)]"
    using r by (auto simp: sf_run_def Let_def split: option.splits)
  then have keep: "unsettled (sf_flights sf) g key \<Longrightarrow> unsettled (sf_flights sf') g key" for g
    by (auto simp: unsettled_snoc)
  have new: "unsettled (sf_flights sf') f k" by (rule registered_unsettled [OF inv r])
  show ?thesis
    unfolding since_def
  proof (intro conjI allI impI)
    fix g assume "(key, g) \<in> set (drop (length (sf_callers sf0)) (sf_callers sf'))"
    then have "(key, g) \<in> set (drop (length (sf_callers sf0)) (sf_callers sf)) \<or> (key, g) = (k, f)"
      using cs s by (auto simp: since_def)
    then show "unsettled (sf_flights sf') g key" using keep new s by (auto simp: since_def)
  next
    fix g assume "length (sf_flights sf0) \<le> g" "g < length (sf_flights sf')"
      "fst (sf_flights sf' ! g) = key"
    then show "unsettled (sf_flights sf') g key"
      using fl keep new s by (auto simp: since_def nth_append less_Suc_eq)
  qed (use s cs fl in \<open>auto simp: since_def\<close>)
qed

lemma since_step:
  assumes st: "sf_step sf e sf'" and inv: "sf_inv sf" and s: "since sf0 key sf"
    and calm: "\<And>f. e = Finally f \<Longrightarrow> fst (sf_flights sf ! f) \<noteq> key"
  shows "since sf0 key sf'"
  using st
proof (cases rule: sf_step.cases)
  case (step_caller k f)
  with since_caller [OF inv s] show ?thesis by simp
next
  case (step_ends f k r)
  then have f: "f < length (sf_flights sf)" "sf_flights sf ! f = (k, Working)"
    by (auto simp: sf_status_def split: if_splits)
  with step_ends have sf': "sf' = sf\<lparr>sf_flights := (sf_flights sf)[f := (k, Finished r)]\<rparr>"
    by (simp add: sf_work_ends_def)
  have "unsettled ((sf_flights sf)[f := (k, Finished r)]) g key = unsettled (sf_flights sf) g key" for g
    using f by (cases "g = f") (auto simp: unsettled_def)
  moreover have "fst ((sf_flights sf)[f := (k, Finished r)] ! g) = fst (sf_flights sf ! g)" for g
    using f by (cases "g = f") auto
  ultimately show ?thesis using s by (simp add: since_def sf')
next
  case (step_finally f k r)
  then have f: "f < length (sf_flights sf)" "sf_flights sf ! f = (k, Finished r)" "k \<noteq> key"
    using calm by (auto simp: sf_status_def split: if_splits)
  have "unsettled ((sf_flights sf)[f := (k, Settled r)]) g key = unsettled (sf_flights sf) g key" for g
    using f by (cases "g = f") (auto simp: unsettled_def)
  moreover have "fst ((sf_flights sf)[f := (k, Settled r)] ! g) = fst (sf_flights sf ! g)" for g
    using f by (cases "g = f") auto
  ultimately show ?thesis
    using s step_finally by (simp add: since_def sf_finally_def)
qed

text \<open>No flight of \<open>key\<close> settles during the run.\<close>

inductive calm_steps :: "string \<Rightarrow> 'r single_flight \<Rightarrow> 'r flight_label list \<Rightarrow> 'r single_flight \<Rightarrow> bool"
  for key where
  calm_refl: "calm_steps key sf [] sf"
| calm_snoc: "calm_steps key sf es sf1 \<Longrightarrow> sf_step sf1 e sf2 \<Longrightarrow>
    (\<forall>f. e = Finally f \<longrightarrow> fst (sf_flights sf1 ! f) \<noteq> key) \<Longrightarrow> calm_steps key sf (es @ [e]) sf2"

lemma calm_steps_steps: "calm_steps key sf es sf' \<Longrightarrow> sf_steps sf es sf'"
  by (induction rule: calm_steps.induct) (auto intro: sf_steps.intros)

lemma calm_since: "calm_steps key sf es sf' \<Longrightarrow> sf_inv sf \<Longrightarrow> since sf key sf'"
proof (induction rule: calm_steps.induct)
  case (calm_snoc sf es sf1 e sf2)
  then have "sf_inv sf1" using sf_inv_steps calm_steps_steps by blast
  with calm_snoc show ?case by (blast intro: since_step)
qed (simp add: since_def)

lemma inv_one_unsettled:
  "sf_inv sf \<Longrightarrow> unsettled (sf_flights sf) f k \<Longrightarrow> unsettled (sf_flights sf) g k \<Longrightarrow> f = g"
  unfolding sf_inv_def by (metis option.inject)

lemma size_counts_unsettled:
  assumes "sf_inv sf"
  shows "sf_size sf = length (filter (\<lambda>p. \<forall>r. snd p \<noteq> Settled r) (sf_flights sf))"
proof -
  let ?m = "sf_inFlight sf"
  have m: "(k, f) \<in> set ?m \<longleftrightarrow> unsettled (sf_flights sf) f k" for k f
    using assms by (simp add: sf_inv_def flip: map_of_eq_Some_iff)
  have "inj_on snd (set ?m)" by (auto simp: inj_on_def m unsettled_def)
  moreover have "distinct ?m" using assms by (simp add: sf_inv_def distinct_map)
  ultimately have "sf_size sf = card (snd ` set ?m)"
    by (simp add: sf_size_def card_image distinct_card)
  also have "snd ` set ?m = {f. f < length (sf_flights sf) \<and> (\<forall>r. snd (sf_flights sf ! f) \<noteq> Settled r)}"
  proof (intro set_eqI iffI)
    fix f assume "f \<in> {f. f < length (sf_flights sf) \<and> (\<forall>r. snd (sf_flights sf ! f) \<noteq> Settled r)}"
    then have "(fst (sf_flights sf ! f), f) \<in> set ?m" by (simp add: m unsettled_def)
    then show "f \<in> snd ` set ?m" by (rule image_eqI [rotated]) simp
  qed (auto simp: m unsettled_def)
  finally show ?thesis by (simp add: length_filter_conv_card)
qed

subsection \<open>Properties\<close>

text \<open>Claim C3. In every interleaving, two flights of one key are never unsettled at the same time, and
  the map holds one entry per unsettled flight: nothing is left in it at rest.\<close>

theorem single_flight_exclusive:
  assumes "sf_steps sf_new es sf"
  shows "(\<forall>f g k. unsettled (sf_flights sf) f k \<and> unsettled (sf_flights sf) g k \<longrightarrow> f = g) \<and>
    sf_size sf = length (filter (\<lambda>p. \<forall>r. snd p \<noteq> Settled r) (sf_flights sf)) \<and>
    sf_started sf + sf_joined sf = length (sf_callers sf)"
proof -
  have inv: "sf_inv sf" by (rule sf_inv_steps [OF assms sf_inv_new])
  from inv have "sf_started sf + sf_joined sf = length (sf_callers sf)" by (simp add: sf_inv_def)
  with inv_one_unsettled [OF inv] size_counts_unsettled [OF inv] show ?thesis by blast
qed

text \<open>Two callers of one key, then the work ends and the flight settles.\<close>

definition demo_flight :: "nat single_flight" where
  "demo_flight = sf_finally 0 (sf_work_ends 0 9 (snd (sf_run ''k'' (snd (sf_run ''k'' sf_new)))))"

lemma demo_calm: "calm_steps ''k'' sf_new [Caller ''k'', Caller ''k'']
  (snd (sf_run ''k'' (snd (sf_run ''k'' sf_new))))"
  using calm_snoc [OF calm_snoc [OF calm_refl step_caller [OF prod.collapse [symmetric]]]
      step_caller [OF prod.collapse [symmetric]]]
  by fastforce

lemma demo_steps:
  "sf_steps sf_new [Caller ''k'', Caller ''k'', Work_ends 0 9, Finally 0] demo_flight"
proof -
  let ?s = "snd (sf_run ''k'' (snd (sf_run ''k'' sf_new))) :: nat single_flight"
  have a: "sf_step ?s (Work_ends 0 9) (sf_work_ends 0 9 ?s)"
    by (rule step_ends [where key = "''k''"]) (simp add: sf_run_def sf_new_def sf_status_def Let_def)
  have b: "sf_step (sf_work_ends 0 9 ?s) (Finally 0) demo_flight"
    unfolding demo_flight_def
    by (rule step_finally [where key = "''k''" and r = 9])
      (simp add: sf_run_def sf_new_def sf_status_def sf_work_ends_def Let_def)
  from steps_snoc [OF steps_snoc [OF calm_steps_steps [OF demo_calm] a] b] show ?thesis by simp
qed

theorem single_flight_exclusive_witness:
  "sf_size demo_flight = 0 \<and> sf_started demo_flight + sf_joined demo_flight = 2"
  using single_flight_exclusive [OF demo_steps]
  by (simp add: demo_flight_def sf_run_def sf_new_def sf_finally_def sf_work_ends_def sf_status_def Let_def)

text \<open>The stampede control: while no flight of a key settles, however many callers arrive and
  whatever else happens, all its new callers hold one promise and at most one call of the
  work is started.\<close>

theorem single_flight_stampede:
  assumes "sf_steps sf_new es0 sf0" and "calm_steps key sf0 es sf"
  shows "(\<exists>f. \<forall>c \<in> set (drop (length (sf_callers sf0)) (sf_callers sf)). fst c = key \<longrightarrow> snd c = f) \<and>
    length (filter (\<lambda>p. fst p = key) (drop (length (sf_flights sf0)) (sf_flights sf))) \<le> 1"
proof -
  let ?n = "length (sf_flights sf0)" and ?fl = "sf_flights sf"
  have inv: "sf_inv sf0" "sf_inv sf"
    using sf_inv_steps [OF assms(1) sf_inv_new] sf_inv_steps [OF calm_steps_steps [OF assms(2)]] by auto
  have since: "since sf0 key sf" by (rule calm_since [OF assms(2) inv(1)])
  have "\<exists>f. \<forall>c \<in> set (drop (length (sf_callers sf0)) (sf_callers sf)). fst c = key \<longrightarrow> snd c = f"
    using since inv_one_unsettled [OF inv(2), of _ key] unfolding since_def by (metis prod.collapse)
  moreover
  have "i = j" if "i < length (drop ?n ?fl)" "fst (drop ?n ?fl ! i) = key"
    "j < length (drop ?n ?fl)" "fst (drop ?n ?fl ! j) = key" for i j
  proof -
    from that since have "unsettled ?fl (?n + i) key" "unsettled ?fl (?n + j) key"
      by (auto simp: since_def)
    from inv_one_unsettled [OF inv(2) this] show ?thesis by simp
  qed
  then have "card {i. i < length (drop ?n ?fl) \<and> fst (drop ?n ?fl ! i) = key} \<le> 1"
    by (auto simp: card_le_Suc0_iff_eq)
  ultimately show ?thesis by (simp add: length_filter_conv_card)
qed

theorem single_flight_stampede_witness:
  "length (filter (\<lambda>p. fst p = ''k'') (sf_flights (snd (sf_run ''k'' (snd (sf_run ''k''
     (sf_new :: nat single_flight))))))) \<le> 1"
  using single_flight_stampede [OF steps_refl demo_calm, THEN conjunct2]
  by (simp add: sf_new_def [THEN arg_cong [where f = sf_flights]])

end
