(* ===== verification/Upstream_Budget.thy ===== *)
theory Upstream_Budget
  imports Redis_Window
begin

text \<open>
  The budget of upstream calls: \<^verbatim>\<open>apps/bff/src/lib/upstream-budget.ts\<close> and the hooks of
  \<^verbatim>\<open>apps/bff/src/plugins/upstream-budget.ts\<close>. A request reserves one unit, charges its
  account for every call that leaves the process, and settles the difference after the
  response. The two scripts are steps on the keyspace of Redis; the requests in flight and
  what they do in between are the events of \<open>budget_step\<close>.
\<close>

subsection \<open>The budget\<close>

datatype budget_tier = Authenticated | Anonymous

fun tier_name :: "budget_tier \<Rightarrow> string" where
  "tier_name Authenticated = ''authenticated''"
| "tier_name Anonymous = ''anonymous''"

record budget_subject =
  bs_tier :: budget_tier
  bs_id :: string

record budget_reservation =
  br_key :: string
  br_tier :: budget_tier
  br_limit :: int
  br_reserved :: int
  br_count :: int
  br_ttlSeconds :: int

datatype budget_decision =
    Allowed budget_reservation
  | Refused budget_tier int int  \<comment> \<open>tier, limit, retryAfterSeconds\<close>
  | Unavailable  \<comment> \<open>the 503 of a store that cannot be reached\<close>

record budget_options =
  bg_authenticatedMax :: int
  bg_anonymousMax :: int
  bg_windowSeconds :: int

definition reserve_script ::
  "time \<Rightarrow> string \<Rightarrow> int \<Rightarrow> int \<Rightarrow> int \<Rightarrow> redis \<Rightarrow> (bool \<times> int \<times> int) \<times> redis" where
  "reserve_script now key limit window cost r =
     (let current = orelse (rd_get now key r) 0
      in if current \<ge> limit then ((False, current, rd_ttl now key r), r)
         else case rd_incrby now key cost r of (updated, r1) \<Rightarrow>
           let r2 = (if updated = cost then rd_expire now key window r1 else r1)
           in ((True, updated, rd_ttl now key r2), r2))"

definition settle_script :: "time \<Rightarrow> string \<Rightarrow> int \<Rightarrow> redis \<Rightarrow> int \<times> redis" where
  "settle_script now key delta r =
     (if rd_ttl now key r < 0 then (-1, r)
      else case rd_incrby now key delta r of (updated, r1) \<Rightarrow>
        if updated < 0 then (0, snd (rd_incrby now key (- updated) r1)) else (updated, r1))"

definition upstreamBudgetKey :: "budget_subject \<Rightarrow> int \<Rightarrow> time \<Rightarrow> string" where
  "upstreamBudgetKey subject windowSeconds now =
     ''quota:upstream:'' @ tier_name (bs_tier subject) @ '':'' @ bs_id subject @ CHR '':'' #
       show_int (now div (1000 * windowSeconds))"

definition limitFor :: "budget_options \<Rightarrow> budget_tier \<Rightarrow> int" where
  "limitFor opts tier = (case tier of Authenticated \<Rightarrow> bg_authenticatedMax opts | Anonymous \<Rightarrow> bg_anonymousMax opts)"

definition reserve ::
  "budget_options \<Rightarrow> bool \<Rightarrow> time \<Rightarrow> budget_subject \<Rightarrow> redis \<Rightarrow> budget_decision \<times> redis" where
  "reserve opts down now subject r =
     (let limit = limitFor opts (bs_tier subject); window = bg_windowSeconds opts;
          key = upstreamBudgetKey subject window now
      in if down then (Unavailable, r)
         else case reserve_script now key limit window 1 r of ((allowed, count, ttl), r') \<Rightarrow>
           let ttlSeconds = (if ttl < 0 then window else ttl)
           in (if allowed
               then Allowed \<lparr>br_key = key, br_tier = bs_tier subject, br_limit = limit, br_reserved = 1,
                             br_count = count, br_ttlSeconds = ttlSeconds\<rparr>
               else Refused (bs_tier subject) limit ttlSeconds, r'))"

definition bg_settle :: "bool \<Rightarrow> time \<Rightarrow> budget_reservation \<Rightarrow> int \<Rightarrow> redis \<Rightarrow> redis" where
  "bg_settle down now reservation upstreamCalls r =
     (let delta = upstreamCalls - br_reserved reservation
      in if delta = 0 \<or> down then r else snd (settle_script now (br_key reservation) delta r))"

definition bg_spent :: "budget_options \<Rightarrow> time \<Rightarrow> budget_subject \<Rightarrow> redis \<Rightarrow> int" where
  "bg_spent opts now subject r = orelse (rd_get now (upstreamBudgetKey subject (bg_windowSeconds opts) now) r) 0"

subsection \<open>The hooks of a request\<close>

definition DEFAULT_EXEMPT :: "string list" where
  "DEFAULT_EXEMPT = [''/healthz'', ''/readyz'', ''/metrics'', ''/docs'', ''/openapi.json'']"

definition isExempt :: "string list \<Rightarrow> string \<Rightarrow> bool" where
  "isExempt prefixes url = list_ex (\<lambda>p. starts_with p url) prefixes"

text \<open>A verified subject is its user, whatever credential it came with.\<close>

definition subjectOfRequest :: "string option \<Rightarrow> string \<Rightarrow> budget_subject" where
  "subjectOfRequest userId ip = (case userId of
     Some user \<Rightarrow> \<lparr>bs_tier = Authenticated, bs_id = user\<rparr>
   | None \<Rightarrow> \<lparr>bs_tier = Anonymous, bs_id = ip\<rparr>)"

text \<open>A request past \<open>onRequest\<close>: its account and, once admitted, its reservation.\<close>

record upstream_request =
  ur_calls :: int
  ur_reservation :: "budget_reservation option"

record budget_world =
  bw_redis :: redis
  bw_requests :: "(nat \<times> upstream_request) list"

text \<open>The hooks: \<open>onRequest\<close> opens the account of a request under a fresh number, \<open>preHandler\<close>
  reserves, \<open>chargeUpstreamCall\<close> counts one call, \<open>onResponse\<close> settles and the request is gone.\<close>

datatype budget_event =
    On_request nat string  \<comment> \<open>request, URL\<close>
  | Pre_handler bool time nat "string option" string  \<comment> \<open>store down, time, request, user, address\<close>
  | Charge nat
  | On_response bool time nat

definition budget_step :: "string list \<Rightarrow> budget_options \<Rightarrow> budget_event \<Rightarrow> budget_world \<Rightarrow> budget_world" where
  "budget_step ex opts e w = (case e of
     On_request i url \<Rightarrow>
       if \<not> isExempt ex url \<and> map_of (bw_requests w) i = None
       then w\<lparr>bw_requests := (i, \<lparr>ur_calls = 0, ur_reservation = None\<rparr>) # bw_requests w\<rparr> else w
   | Pre_handler down now i user ip \<Rightarrow>
       (case map_of (bw_requests w) i of
          Some rq \<Rightarrow>
            if ur_reservation rq = None
            then (case reserve opts down now (subjectOfRequest user ip) (bw_redis w) of
                    (Allowed b, r) \<Rightarrow> w\<lparr>bw_redis := r,
                       bw_requests := AList.update i (rq\<lparr>ur_reservation := Some b\<rparr>) (bw_requests w)\<rparr>
                  | (_, r) \<Rightarrow> w\<lparr>bw_redis := r\<rparr>)
            else w
        | None \<Rightarrow> w)
   | Charge i \<Rightarrow>
       (case map_of (bw_requests w) i of
          Some rq \<Rightarrow> w\<lparr>bw_requests := AList.update i (rq\<lparr>ur_calls := ur_calls rq + 1\<rparr>) (bw_requests w)\<rparr>
        | None \<Rightarrow> w)
   | On_response down now i \<Rightarrow>
       (case map_of (bw_requests w) i of
          Some rq \<Rightarrow>
            w\<lparr>bw_redis := (case ur_reservation rq of
                 None \<Rightarrow> bw_redis w
               | Some b \<Rightarrow> bg_settle down now b (ur_calls rq) (bw_redis w)),
              bw_requests := AList.delete i (bw_requests w)\<rparr>
        | None \<Rightarrow> w))"

subsection \<open>The counter of one window\<close>

definition holding :: "string \<Rightarrow> budget_world \<Rightarrow> nat" where
  "holding K w = length (filter (\<lambda>p. map_option br_key (ur_reservation (snd p)) = Some K) (bw_requests w))"

definition requests_ok :: "budget_world \<Rightarrow> bool" where
  "requests_ok w \<longleftrightarrow> distinct (map fst (bw_requests w)) \<and>
     (\<forall>p \<in> set (bw_requests w). 0 \<le> ur_calls (snd p) \<and>
        (\<forall>b. ur_reservation (snd p) = Some b \<longrightarrow> br_reserved b = 1))"

text \<open>The key of the window that ends at \<open>till\<close>: no key yet, or one that lives at least as long and
  counts at least the requests that hold a unit of it.\<close>

definition counted :: "time \<Rightarrow> string \<Rightarrow> nat \<Rightarrow> redis \<Rightarrow> bool" where
  "counted till K n r \<longleftrightarrow> (case map_of r K of
     None \<Rightarrow> n = 0
   | Some (c, d) \<Rightarrow> int n \<le> c \<and> (case d of None \<Rightarrow> False | Some d \<Rightarrow> till \<le> d))"

lemma counted_other: "j \<noteq> K \<Longrightarrow> counted till K n (AList.update j e r) = counted till K n r"
  by (simp add: counted_def AList.update_conv')

lemma counted_less: "counted till K n r \<Longrightarrow> m \<le> n \<Longrightarrow> map_of r K \<noteq> None \<Longrightarrow> counted till K m r"
  by (auto simp: counted_def split: option.splits)

lemma incrby_other: "j \<noteq> K \<Longrightarrow> map_of (snd (rd_incrby t j n r)) K = map_of r K"
  by (simp add: rd_incrby_def AList.update_conv' split: option.splits prod.splits)

lemma expire_other: "j \<noteq> K \<Longrightarrow> map_of (rd_expire t j n r) K = map_of r K"
  by (simp add: rd_expire_def AList.update_conv' split: option.splits prod.splits)

lemma reserve_script_other: "j \<noteq> K \<Longrightarrow> map_of (snd (reserve_script t j limit w c r)) K = map_of r K"
  using incrby_other [of j K t c r] by (auto simp: reserve_script_def Let_def expire_other split: prod.splits)

lemma settle_script_other: "j \<noteq> K \<Longrightarrow> map_of (snd (settle_script t j n r)) K = map_of r K"
  by (simp add: settle_script_def case_prod_unfold incrby_other)

lemma counted_reserve:
  assumes "counted till K n r" "t < till" "till \<le> t + 1000 * w"
  shows "case reserve_script t K limit w 1 r of ((ok, _, _), r') \<Rightarrow>
    counted till K (if ok then Suc n else n) r' \<and> (ok \<longrightarrow> int n < limit)"
proof (cases "map_of r K")
  case None
  with assms have n: "n = 0" and e: "rd_entry t K r = None" by (simp_all add: counted_def rd_entry_def)
  show ?thesis
    using assms n None
    by (simp add: reserve_script_def rd_get_def e Let_def rd_incrby_def rd_expire_def counted_def AList.update_conv')
next
  case (Some e)
  then obtain c d where e: "map_of r K = Some (c, Some d)" "int n \<le> c" "till \<le> d"
    using assms(1) by (cases e) (auto simp: counted_def split: option.splits)
  then have alive: "rd_entry t K r = Some (c, Some d)"
    using assms(2) by (simp add: rd_entry_def rd_alive_def)
  show ?thesis
    using assms e
    by (auto simp: reserve_script_def rd_get_def alive Let_def rd_incrby_def rd_expire_def counted_def
        AList.update_conv' rd_alive_def)
qed

lemma counted_settle:
  assumes "counted till K (Suc n) r" "0 \<le> calls"
  shows "counted till K n (snd (settle_script t K (calls - 1) r))"
proof -
  obtain c d where e: "map_of r K = Some (c, Some d)" "int (Suc n) \<le> c" "till \<le> d"
    using assms(1) by (auto simp: counted_def split: option.splits)
  show ?thesis
  proof (cases "t < d")
    case True
    then have "rd_entry t K r = Some (c, Some d)" using e by (simp add: rd_entry_def rd_alive_def)
    then show ?thesis using e assms
      by (auto simp: settle_script_def rd_incrby_def counted_def AList.update_conv')
  next
    case False
    then have "rd_entry t K r = None" using e by (simp add: rd_entry_def rd_alive_def)
    then show ?thesis using e by (auto simp: settle_script_def rd_ttl_def counted_def)
  qed
qed

lemma tier_id_inject: "tier_name a @ '':'' @ i = tier_name b @ '':'' @ j \<longleftrightarrow> a = b \<and> i = j"
  by (cases a; cases b) auto

lemma upstreamBudgetKey_inject:
  "upstreamBudgetKey s w t = upstreamBudgetKey s' w t' \<longleftrightarrow> s = s' \<and> t div (1000 * w) = t' div (1000 * w)"
  using colon_key_inject [of "tier_name (bs_tier s) @ '':'' @ bs_id s" _ "tier_name (bs_tier s') @ '':'' @ bs_id s'"]
    tier_id_inject [of "bs_tier s" "bs_id s" "bs_tier s'" "bs_id s'"]
  by (cases s; cases s') (simp add: upstreamBudgetKey_def)

definition budget_inv :: "budget_options \<Rightarrow> budget_subject \<Rightarrow> int \<Rightarrow> string \<Rightarrow> budget_world \<Rightarrow> bool" where
  "budget_inv opts s q K w \<longleftrightarrow> requests_ok w \<and>
     counted ((q + 1) * (1000 * bg_windowSeconds opts)) K (holding K w) (bw_redis w) \<and>
     int (holding K w) \<le> max 0 (limitFor opts (bs_tier s))"

lemma holding_update:
  assumes "requests_ok w" "map_of (bw_requests w) i = Some rq"
  shows "holding K (w\<lparr>bw_redis := r, bw_requests := AList.update i rq' (bw_requests w)\<rparr>) +
      (if map_option br_key (ur_reservation rq) = Some K then 1 else 0) =
    holding K w + (if map_option br_key (ur_reservation rq') = Some K then 1 else 0)"
  using filter_update_count [of "bw_requests w" i rq "\<lambda>v. map_option br_key (ur_reservation v) = Some K" rq'] assms
  by (simp add: holding_def requests_ok_def)

lemma requests_ok_update:
  assumes "requests_ok w" "map_of (bw_requests w) i = Some rq" "0 \<le> ur_calls rq'"
    "\<forall>b. ur_reservation rq' = Some b \<longrightarrow> br_reserved b = 1"
  shows "requests_ok (w\<lparr>bw_redis := r, bw_requests := AList.update i rq' (bw_requests w)\<rparr>)"
  using assms set_update_subset [of i rq' "bw_requests w"]
  unfolding requests_ok_def by (auto simp: distinct_update)

lemma window_bounds:
  assumes "0 < w" "t div w = q" shows "t < (q + 1) * w" "(q + 1) * w \<le> t + (w :: int)"
  using mult_div_mod_eq [of w t] pos_mod_bound [OF assms(1), of t] pos_mod_sign [OF assms(1), of t] assms(2)
  by (simp_all add: algebra_simps)

lemma budget_inv_step:
  assumes "0 < bg_windowSeconds opts" and "K = upstreamBudgetKey s (bg_windowSeconds opts) t0"
    and "q = t0 div (1000 * bg_windowSeconds opts)" and inv: "budget_inv opts s q K w"
  shows "budget_inv opts s q K (budget_step ex opts e w)"
proof (cases e)
  case (On_request i url)
  then show ?thesis using inv
    by (auto simp: budget_step_def budget_inv_def requests_ok_def holding_def map_of_eq_None_iff)
next
  case (Charge i)
  show ?thesis
  proof (cases "map_of (bw_requests w) i")
    case (Some rq)
    then have "rq \<in> snd ` set (bw_requests w)" by (force dest: map_of_SomeD)
    then have "0 \<le> ur_calls rq" "\<forall>b. ur_reservation rq = Some b \<longrightarrow> br_reserved b = 1"
      using inv by (auto simp: budget_inv_def requests_ok_def)
    with Some inv holding_update [of w i rq K "rq\<lparr>ur_calls := ur_calls rq + 1\<rparr>" "bw_redis w"]
      requests_ok_update [of w i rq "rq\<lparr>ur_calls := ur_calls rq + 1\<rparr>" "bw_redis w"]
    show ?thesis by (auto simp: Charge budget_step_def budget_inv_def)
  qed (simp add: Charge budget_step_def inv)
next
  case (Pre_handler down now i user ip)
  let ?s = "subjectOfRequest user ip" and ?w = "bg_windowSeconds opts"
  let ?k = "upstreamBudgetKey ?s ?w now" and ?till = "(q + 1) * (1000 * ?w)"
  show ?thesis
  proof (cases "map_of (bw_requests w) i")
    case (Some rq)
    then have "rq \<in> snd ` set (bw_requests w)" by (force dest: map_of_SomeD)
    then have calls: "0 \<le> ur_calls rq" using inv by (auto simp: budget_inv_def requests_ok_def)
    obtain ok c ttl r where sc: "reserve_script now ?k (limitFor opts (bs_tier ?s)) ?w 1 (bw_redis w) = ((ok, c, ttl), r)"
      by (metis prod_cases3 surj_pair)
    have red: "counted ?till K (if ?k = K \<and> ok then Suc (holding K w) else holding K w) r \<and>
        (?k = K \<longrightarrow> ok \<longrightarrow> int (holding K w) < limitFor opts (bs_tier s))"
    proof (cases "?k = K")
      case True
      then have "?s = s" "now div (1000 * ?w) = q" unfolding assms(2,3) upstreamBudgetKey_inject by simp_all
      then show ?thesis
        using counted_reserve [of ?till K "holding K w" "bw_redis w" now ?w "limitFor opts (bs_tier s)"]
          window_bounds [of "1000 * ?w" now q] assms(1) inv True sc
        by (auto simp: budget_inv_def)
    next
      case False
      from reserve_script_other [OF False, of now "limitFor opts (bs_tier ?s)" ?w 1 "bw_redis w"]
      have "map_of r K = map_of (bw_redis w) K" by (simp add: sc)
      then show ?thesis using False inv by (simp add: budget_inv_def counted_def)
    qed
    let ?ttl = "if ttl < 0 then ?w else ttl"
    let ?b = "\<lparr>br_key = ?k, br_tier = bs_tier ?s, br_limit = limitFor opts (bs_tier ?s), br_reserved = 1,
      br_count = c, br_ttlSeconds = ?ttl\<rparr>"
    let ?rq = "rq\<lparr>ur_reservation := Some ?b\<rparr>"
    have res: "reserve opts down now ?s (bw_redis w) = (if down then (Unavailable, bw_redis w)
        else (if ok then Allowed ?b else Refused (bs_tier ?s) (limitFor opts (bs_tier ?s)) ?ttl, r))"
      by (simp add: reserve_def Let_def sc)
    consider "down \<or> ur_reservation rq \<noteq> None" | "\<not> down" "ur_reservation rq = None" "\<not> ok"
      | "\<not> down" "ur_reservation rq = None" ok by blast
    then show ?thesis
    proof cases
      case 1
      then have "budget_step ex opts e w = w"
        unfolding Pre_handler budget_step_def budget_event.case Some option.case res by auto
      then show ?thesis using inv by simp
    next
      case 2
      then have "budget_step ex opts e w = w\<lparr>bw_redis := r\<rparr>"
        unfolding Pre_handler budget_step_def budget_event.case Some option.case res by simp
      then show ?thesis using inv red 2(3) by (simp add: budget_inv_def holding_def requests_ok_def)
    next
      case 3
      then have step: "budget_step ex opts e w = w\<lparr>bw_redis := r, bw_requests := AList.update i ?rq (bw_requests w)\<rparr>"
        unfolding Pre_handler budget_step_def budget_event.case Some option.case res by simp
      have "holding K (w\<lparr>bw_redis := r, bw_requests := AList.update i ?rq (bw_requests w)\<rparr>) =
          (if ?k = K then Suc (holding K w) else holding K w)"
        using holding_update [of w i rq K ?rq r] Some inv 3(2) by (simp add: budget_inv_def)
      moreover have "requests_ok (w\<lparr>bw_redis := r, bw_requests := AList.update i ?rq (bw_requests w)\<rparr>)"
        using requests_ok_update [of w i rq ?rq r] Some inv calls by (simp add: budget_inv_def)
      ultimately show ?thesis using 3(3) red inv
        unfolding step by (auto simp: budget_inv_def split: if_splits)
    qed
  qed (simp add: Pre_handler budget_step_def inv)
next
  case (On_response down now i)
  let ?till = "(q + 1) * (1000 * bg_windowSeconds opts)"
  show ?thesis
  proof (cases "map_of (bw_requests w) i")
    case (Some rq)
    then have "(i, rq) \<in> set (bw_requests w)" by (rule map_of_SomeD)
    then have rq: "0 \<le> ur_calls rq" "\<forall>b. ur_reservation rq = Some b \<longrightarrow> br_reserved b = 1"
      using inv by (auto simp: budget_inv_def requests_ok_def)
    define r where "r = (case ur_reservation rq of None \<Rightarrow> bw_redis w
      | Some b \<Rightarrow> bg_settle down now b (ur_calls rq) (bw_redis w))"
    let ?w' = "w\<lparr>bw_redis := r, bw_requests := AList.delete i (bw_requests w)\<rparr>"
    have step: "budget_step ex opts e w = ?w'" by (simp add: On_response budget_step_def Some r_def)
    have hold: "holding K ?w' + (if map_option br_key (ur_reservation rq) = Some K then 1 else 0) = holding K w"
      using filter_delete_count [of "bw_requests w" i rq "\<lambda>v. map_option br_key (ur_reservation v) = Some K"]
        Some inv by (simp add: holding_def budget_inv_def requests_ok_def)
    have "distinct (map fst (AList.delete i (bw_requests w)))"
      using inv by (simp add: budget_inv_def requests_ok_def distinct_delete)
    moreover have "set (AList.delete i (bw_requests w)) \<subseteq> set (bw_requests w)"
      by (auto simp: AList.delete_eq)
    ultimately have "requests_ok ?w'"
      using inv by (fastforce simp: budget_inv_def requests_ok_def)
    moreover have "counted ?till K (holding K ?w') r"
    proof (cases "map_option br_key (ur_reservation rq) = Some K")
      case True
      then obtain b where b: "ur_reservation rq = Some b" "br_key b = K" by auto
      have "counted ?till K (Suc (holding K ?w')) (bw_redis w)" using hold inv True by (simp add: budget_inv_def)
      then show ?thesis
        using counted_settle [of ?till K "holding K ?w'" "bw_redis w" "ur_calls rq" now] rq b
        by (auto simp: r_def bg_settle_def Let_def counted_def split: option.splits)
    next
      case False
      then have "map_of r K = map_of (bw_redis w) K"
        by (auto simp: r_def bg_settle_def Let_def settle_script_other split: option.splits)
      moreover have "holding K ?w' = holding K w"
        using hold by (simp only: False if_False add_0_right)
      ultimately show ?thesis using inv by (simp add: budget_inv_def counted_def del: not_None_eq)
    qed
    ultimately show ?thesis using inv hold by (simp add: step budget_inv_def)
  qed (simp add: On_response budget_step_def inv)
qed

interpretation budget_window: guarded_machine "budget_step ex opts"
  "budget_inv opts s (t div (1000 * bg_windowSeconds opts)) (upstreamBudgetKey s (bg_windowSeconds opts) t)"
  "\<lambda>_. 0 < bg_windowSeconds opts"
  by unfold_locales (rule budget_inv_step, simp_all)

subsection \<open>Properties\<close>

lemma settle_exact:
  assumes inv: "budget_inv opts s q K w" and "map_of (bw_requests w) i = Some rq"
    and "ur_reservation rq = Some b" and "br_key b = K" and "now < (q + 1) * (1000 * bg_windowSeconds opts)"
  shows "\<exists>c. rd_get now K (bw_redis w) = Some c \<and> 1 \<le> c \<and>
    rd_get now K (bw_redis (budget_step ex opts (On_response False now i) w)) = Some (c - 1 + ur_calls rq)"
proof -
  have mem: "(i, rq) \<in> set (bw_requests w)" using assms(2) by (rule map_of_SomeD)
  then have rq: "0 \<le> ur_calls rq" "br_reserved b = 1"
    using inv assms(3) by (auto simp: budget_inv_def requests_ok_def)
  have "(i, rq) \<in> set (filter (\<lambda>p. map_option br_key (ur_reservation (snd p)) = Some K) (bw_requests w))"
    using mem assms(3,4) by simp
  then have "1 \<le> holding K w" unfolding holding_def by (metis One_nat_def Suc_leI length_pos_if_in_set)
  with inv obtain c d where c: "map_of (bw_redis w) K = Some (c, Some d)" "1 \<le> c"
    "(q + 1) * (1000 * bg_windowSeconds opts) \<le> d"
    by (auto simp: budget_inv_def counted_def split: option.splits)
  then have alive: "rd_entry now K (bw_redis w) = Some (c, Some d)"
    using assms(5) by (simp add: rd_entry_def rd_alive_def)
  have "rd_get now K (bg_settle False now b (ur_calls rq) (bw_redis w)) = Some (c - 1 + ur_calls rq)"
  proof (cases "ur_calls rq = 1")
    case False
    with rq c assms(4,5) alive show ?thesis
      by (simp add: bg_settle_def Let_def settle_script_def rd_ttl_def rd_incrby_def rd_get_def
          rd_entry_def rd_alive_def AList.update_conv')
  qed (use rq alive in \<open>simp add: bg_settle_def rd_get_def\<close>)
  with alive c(2) assms(2,3) show ?thesis by (simp add: budget_step_def rd_get_def)
qed

text \<open>Claim C10. However requests interleave, whoever else spends, whatever the addresses are and whichever
  store calls fail, a subject holds at most its limit of unsettled reservations in one window.
  And in every state so reached, a request of the subject that ends while the window is
  still open and the store can be reached pays for its calls exactly: its settlement replaces
  the one unit reserved by the number of its calls, also when that takes the counter past
  the limit.\<close>

theorem budget_bounds_concurrency:
  assumes "0 < bg_windowSeconds opts"
    and "w = run_calls (budget_step ex opts) \<lparr>bw_redis = [], bw_requests = []\<rparr> es"
    and "K = upstreamBudgetKey s (bg_windowSeconds opts) t"
  shows "int (holding K w) \<le> max 0 (limitFor opts (bs_tier s)) \<and>
    (\<forall>i rq b now. map_of (bw_requests w) i = Some rq \<and> ur_reservation rq = Some b \<and> br_key b = K \<and>
       now div (1000 * bg_windowSeconds opts) = t div (1000 * bg_windowSeconds opts) \<longrightarrow>
       (\<exists>c. rd_get now K (bw_redis w) = Some c \<and> 1 \<le> c \<and>
          rd_get now K (bw_redis (budget_step ex opts (On_response False now i) w)) =
            Some (c - 1 + ur_calls rq)))"
proof -
  let ?W = "1000 * bg_windowSeconds opts"
  have inv: "budget_inv opts s (t div ?W) K w"
    unfolding assms(2,3)
    by (rule budget_window.inv_ok_run)
      (simp_all add: budget_inv_def requests_ok_def counted_def holding_def list_all_iff assms(1))
  have "now < (t div ?W + 1) * ?W" if "now div ?W = t div ?W" for now
    using window_bounds(1) [OF _ that] assms(1) by simp
  with settle_exact [OF inv] have
    "\<exists>c. rd_get now K (bw_redis w) = Some c \<and> 1 \<le> c \<and>
       rd_get now K (bw_redis (budget_step ex opts (On_response False now i) w)) = Some (c - 1 + ur_calls rq)"
    if "map_of (bw_requests w) i = Some rq" "ur_reservation rq = Some b" "br_key b = K" "now div ?W = t div ?W"
    for i rq b now using that by blast
  with inv show ?thesis unfolding budget_inv_def by blast
qed

definition demo_budget :: budget_options where
  "demo_budget = \<lparr>bg_authenticatedMax = 1, bg_anonymousMax = 1, bg_windowSeconds = 60\<rparr>"

text \<open>Two requests of one user against a limit of one; the admitted one makes three calls.\<close>

definition demo_budget_events :: "budget_event list" where
  "demo_budget_events = [On_request 1 ''/v1/feed'', On_request 2 ''/v1/feed'',
     Pre_handler False 5 1 (Some ''u'') ''1.2.3.4'', Pre_handler False 6 2 (Some ''u'') ''5.6.7.8'',
     Charge 1, Charge 1, Charge 1]"

lemma budget_bounds_concurrency_witness:
  "let K = upstreamBudgetKey \<lparr>bs_tier = Authenticated, bs_id = ''u''\<rparr> (bg_windowSeconds demo_budget) 7;
       w = run_calls (budget_step DEFAULT_EXEMPT demo_budget) \<lparr>bw_redis = [], bw_requests = []\<rparr> demo_budget_events
   in int (holding K w) \<le> 1 \<and>
      (\<exists>n. rd_get 8 K (bw_redis (budget_step DEFAULT_EXEMPT demo_budget (On_response False 8 1) w)) = Some n \<and>
         limitFor demo_budget Authenticated < n)"
proof -
  let ?s = "\<lparr>bs_tier = Authenticated, bs_id = ''u''\<rparr>"
  let ?K = "upstreamBudgetKey ?s (bg_windowSeconds demo_budget) 7"
  let ?w = "run_calls (budget_step DEFAULT_EXEMPT demo_budget) \<lparr>bw_redis = [], bw_requests = []\<rparr> demo_budget_events"
  have "case map_of (bw_requests ?w) 1 of None \<Rightarrow> False | Some rq \<Rightarrow>
      ur_calls rq = 3 \<and> map_option br_key (ur_reservation rq) = Some ?K"
    by code_simp
  then obtain rq b where rq: "map_of (bw_requests ?w) 1 = Some rq" "ur_calls rq = 3"
    "ur_reservation rq = Some b" "br_key b = ?K"
    by (auto split: option.splits)
  define K w where "K = ?K" and "w = ?w"
  have opts: "0 < bg_windowSeconds demo_budget" "limitFor demo_budget Authenticated = 1"
    "(8 :: int) div (1000 * bg_windowSeconds demo_budget) = 7 div (1000 * bg_windowSeconds demo_budget)"
    by (simp_all add: demo_budget_def limitFor_def)
  note bounds = budget_bounds_concurrency [OF opts(1) w_def K_def, unfolded budget_subject.simps opts(2)]
  have "int (holding K w) \<le> 1" using bounds by simp
  moreover have "\<exists>c. rd_get 8 K (bw_redis w) = Some c \<and> 1 \<le> c \<and>
      rd_get 8 K (bw_redis (budget_step DEFAULT_EXEMPT demo_budget (On_response False 8 1) w)) = Some (c - 1 + ur_calls rq)"
    using bounds [THEN conjunct2] rq opts(3) unfolding K_def [symmetric] w_def [symmetric] by blast
  ultimately show ?thesis
    using rq(2) opts(2) unfolding Let_def K_def [symmetric] w_def [symmetric] by auto
qed

text \<open>The price of a request is the number of its calls: between a reservation and its
  settlement, in a window that is still open, the counter moves by the calls exactly, so an
  answer from the cache is free; and a refused request changes nothing.\<close>

theorem budget_charges_calls:
  assumes "reserve opts False now s r = (d, r1)" and "rd_entry now K r = Some (c, Some till)" and "0 \<le> c"
    and "K = upstreamBudgetKey s (bg_windowSeconds opts) now"
    and "now \<le> now'" and "now' < till" and "now' < now + 1000 * bg_windowSeconds opts" and "0 \<le> calls"
  shows "case d of
      Allowed b \<Rightarrow> rd_get now' K (bg_settle False now' b calls r1) = Some (c + calls)
    | Refused tier limit retry \<Rightarrow> r1 = r \<and> limit \<le> c
    | Unavailable \<Rightarrow> False"
proof (cases "c < limitFor opts (bs_tier s)")
  case True
  let ?till = "if c = 0 then now + 1000 * bg_windowSeconds opts else till"
  obtain b where d: "d = Allowed b" "br_key b = K" "br_reserved b = 1"
    and r1: "r1 = AList.update K (c + 1, Some ?till) (AList.update K (c + 1, Some till) r) \<or>
      c \<noteq> 0 \<and> r1 = AList.update K (c + 1, Some till) r"
    using assms(1,5,6) True
    by (auto simp: reserve_def reserve_script_def Let_def rd_get_def assms(2) rd_incrby_def rd_expire_def
        rd_alive_def assms(4) [symmetric] split: if_splits)
  have "rd_entry now' K r1 = Some (c + 1, Some ?till)"
    using r1 assms(6,7) by (auto simp: rd_alive_def)
  moreover have "now' < ?till" using assms(6,7) by simp
  ultimately show ?thesis
    using assms(3,8) by (auto simp: d bg_settle_def settle_script_def rd_ttl_def rd_incrby_def rd_get_def rd_alive_def Let_def)
next
  case False
  then show ?thesis
    using assms(1) by (auto simp: reserve_def reserve_script_def Let_def rd_get_def assms(2) assms(4) [symmetric])
qed

lemma budget_charges_calls_witness:
  "rd_get 900 (upstreamBudgetKey \<lparr>bs_tier = Anonymous, bs_id = ''ip''\<rparr> 60 500)
     (case reserve (demo_budget\<lparr>bg_anonymousMax := 5\<rparr>) False 500 \<lparr>bs_tier = Anonymous, bs_id = ''ip''\<rparr>
        [(upstreamBudgetKey \<lparr>bs_tier = Anonymous, bs_id = ''ip''\<rparr> 60 500, (2, Some 60000))] of
      (Allowed b, r) \<Rightarrow> bg_settle False 900 b 3 r | (_, r) \<Rightarrow> r) = Some 5"
proof -
  let ?s = "\<lparr>bs_tier = Anonymous, bs_id = ''ip''\<rparr>" and ?o = "demo_budget\<lparr>bg_anonymousMax := 5\<rparr>"
  define K where "K = upstreamBudgetKey ?s 60 500"
  let ?r = "[(K, (2, Some 60000))]"
  have entry: "rd_entry 500 K ?r = Some (2, Some 60000)" by (simp add: rd_entry_def rd_alive_def)
  have entry3: "rd_entry 500 K [(K, (3, Some 60000))] = Some (3, Some 60000)"
    by (simp add: rd_entry_def rd_alive_def)
  have r: "reserve ?o False 500 ?s ?r =
      (Allowed \<lparr>br_key = K, br_tier = Anonymous, br_limit = 5, br_reserved = 1, br_count = 3, br_ttlSeconds = 60\<rparr>,
       AList.update K (3, Some 60000) ?r)"
    by (simp add: reserve_def reserve_script_def Let_def rd_get_def entry entry3 limitFor_def demo_budget_def
        rd_incrby_def rd_ttl_def rd_alive_def K_def [symmetric])
  show ?thesis unfolding K_def [symmetric] r
    using budget_charges_calls [OF r entry, of 900 3] by (simp add: demo_budget_def K_def)
qed

text \<open>A refund of a window that is over recreates nothing: settling after the key expired leaves the
  keyspace as it is, so no counter without an end can lock a subject out.\<close>

lemma late_settle_harmless:
  "rd_entry now (br_key b) r = None \<Longrightarrow> bg_settle down now b calls r = r"
  by (simp add: bg_settle_def settle_script_def rd_ttl_def Let_def)

end
