(* ===== verification/Webhooks.thy ===== *)
theory Webhooks
  imports Auth_Routes
begin

text \<open>
  The receiver of signed identity events: \<^verbatim>\<open>apps/bff/src/routes/v1/webhooks.ts\<close>, with the parser of
  \<^verbatim>\<open>apps/bff/src/server.ts\<close> that keeps the bytes of a body. The MAC in hexadecimal is a parameter, and so are
  the decoding of bytes that are not UTF-8 and the text of a number that is not an integer.
\<close>

subsection \<open>The signature\<close>

definition REPLAY_WINDOW_MS :: int where
  "REPLAY_WINDOW_MS = 5 * 60 * 1000"

record signature_parts =
  sg_timestampMs :: rat
  sg_signature :: string

definition is_hex :: "char \<Rightarrow> bool" where
  "is_hex c \<longleftrightarrow> radix_digit 16 c \<noteq> None"

text \<open>One part of the header: \<open>None\<close> when it refuses the whole header.\<close>

definition read_part :: "string \<Rightarrow> rat option \<times> string option \<Rightarrow> (rat option \<times> string option) option" where
  "read_part part acc =
     (let trimmed = js_trim part in
      case indexOf (CHR ''='') trimmed of
        None \<Rightarrow> Some acc
      | Some eq \<Rightarrow>
          let name = js_trim (take eq trimmed); val = js_trim (drop (Suc eq) trimmed)
          in if name = ''t'' then
               (case js_Number val of
                  None \<Rightarrow> None
                | Some parsed \<Rightarrow>
                    if parsed \<le> 0 then None
                    else Some (Some (if parsed < 10 ^ 11 then parsed * 1000 else parsed), snd acc))
             else if name = ''v1'' then
               (if val = [] \<or> \<not> list_all is_hex val then None else Some (fst acc, Some (js_toLowerCase val)))
             else Some acc)"

fun read_parts :: "string list \<Rightarrow> rat option \<times> string option \<Rightarrow> (rat option \<times> string option) option" where
  "read_parts [] acc = Some acc"
| "read_parts (p # ps) acc = (case read_part p acc of None \<Rightarrow> None | Some acc' \<Rightarrow> read_parts ps acc')"

definition parseSignatureHeader :: "string \<Rightarrow> signature_parts option" where
  "parseSignatureHeader header =
     (case read_parts (js_split (CHR '','') header) (None, None) of
        Some (Some t, Some s) \<Rightarrow> Some \<lparr>sg_timestampMs = t, sg_signature = s\<rparr>
      | _ \<Rightarrow> None)"

text \<open>\<open>String(n)\<close>, where \<open>other\<close> is the text of a number that is not an integer.\<close>

definition number_text :: "(rat \<Rightarrow> string) \<Rightarrow> rat \<Rightarrow> string" where
  "number_text other x = (if x = of_int \<lfloor>x\<rfloor> then show_int \<lfloor>x\<rfloor> else other x)"

record webhook_parts =
  wp_hmac :: "string \<Rightarrow> string \<Rightarrow> string"
  wp_frac :: "rat \<Rightarrow> string"
  wp_toString :: "string \<Rightarrow> string"

definition expected_signature :: "webhook_parts \<Rightarrow> string \<Rightarrow> rat \<Rightarrow> string \<Rightarrow> string" where
  "expected_signature wp secret t rawBody = wp_hmac wp secret (number_text (wp_frac wp) t @ ''.'' @ rawBody)"

text \<open>\<open>None\<close> when the delivery is verified, otherwise the reason that is recorded.\<close>

definition verifySignature :: "webhook_parts \<Rightarrow> string \<Rightarrow> string option \<Rightarrow> string \<Rightarrow> time \<Rightarrow> string option" where
  "verifySignature wp rawBody header secret now =
     (case header of
        None \<Rightarrow> Some ''missing signature header''
      | Some h \<Rightarrow>
          if h = [] then Some ''missing signature header''
          else case parseSignatureHeader h of
              None \<Rightarrow> Some ''malformed signature header''
            | Some parts \<Rightarrow>
                if \<bar>of_int now - sg_timestampMs parts\<bar> > of_int REPLAY_WINDOW_MS then Some ''timestamp outside the replay window''
                else if \<not> secretsEqual (expected_signature wp secret (sg_timestampMs parts) rawBody) (sg_signature parts)
                then Some ''signature mismatch''
                else None)"

subsection \<open>The route\<close>

text \<open>The parser of the server: the value of a body, or the error of one that is not JSON.\<close>

definition parse_body :: "(string \<Rightarrow> string) \<Rightarrow> string \<Rightarrow> api_error + json option" where
  "parse_body toString buffer =
     (if buffer = [] then Inr None
      else case json_parse (toString buffer) of
          None \<Rightarrow> Inl (badRequest (Some ''The request body is not valid JSON.'') None)
        | Some v \<Rightarrow> Inr (Some v))"

record webhook_world =
  hw_erasure :: erasure_world
  hw_audit :: "audit_entry list"

record webhook_call =
  hc_now :: time
  hc_rawBody :: "string option"
  hc_signature :: "string option"
  hc_ip :: string
  hc_auditFails :: bool
  hc_deletion :: deletion_call

record webhook_services =
  hs_secret :: "string option"
  hs_parts :: webhook_parts
  hs_iso :: "time \<Rightarrow> string"
  hs_ledger :: ledger
  hs_workos :: workos_client
  hs_fetch :: workos_fetch

definition problem_body :: "string \<Rightarrow> string \<Rightarrow> int \<Rightarrow> string \<Rightarrow> json" where
  "problem_body kind title status detail =
     JObj [(''type'', JStr (''https://pull.fm/problems/'' @ kind)), (''title'', JStr title), (''status'', JNum status), (''detail'', JStr detail)]"

definition misconfigured :: "string \<Rightarrow> reply" where
  "misconfigured detail = \<lparr>rp_status = 503, rp_headers = [], rp_body = problem_body ''misconfigured'' ''Service Unavailable'' 503 detail\<rparr>"

definition unverified :: reply where
  "unverified = \<lparr>rp_status = 401, rp_headers = [],
     rp_body = problem_body ''unauthorized'' ''Unauthorized'' 401 ''The webhook signature could not be verified.''\<rparr>"

definition received :: "bool \<Rightarrow> reply" where
  "received handled = \<lparr>rp_status = 200, rp_headers = [], rp_body = JObj [(''received'', JBool True), (''handled'', JBool handled)]\<rparr>"

definition event_type :: "json \<Rightarrow> string" where
  "event_type e = (case jget ''event'' e of Some (JStr s) \<Rightarrow> s | _ \<Rightarrow> [])"

definition event_user :: "json \<Rightarrow> string option" where
  "event_user e = (case jget ''data'' e of
     Some d \<Rightarrow> (case jget ''id'' d of Some (JStr s) \<Rightarrow> Some s | _ \<Rightarrow> None)
   | None \<Rightarrow> None)"

definition workos_webhook ::
  "webhook_services \<Rightarrow> webhook_call \<Rightarrow> json option \<Rightarrow> webhook_world \<Rightarrow> route_answer \<times> http_call list \<times> webhook_world" where
  "workos_webhook hs hc body w =
     (case hs_secret hs of
        None \<Rightarrow> (Replied (misconfigured ''Webhook verification is not configured on this deployment.''), [], w)
      | Some secret \<Rightarrow>
          (case hc_rawBody hc of
             None \<Rightarrow> (Replied (misconfigured ''Webhook verification is not available on this deployment.''), [], w)
           | Some raw \<Rightarrow>
               (case verifySignature (hs_parts hs) raw (hc_signature hc) secret (hc_now hc) of
                  Some reason \<Rightarrow>
                    (Replied unverified, [],
                     w\<lparr>hw_audit := audit_record (hc_auditFails hc)
                         \<lparr>ad_userId = None, ad_action = ''webhook.rejected'', ad_subjectRef = None, ad_outcome = ''denied'',
                          ad_detail = Some (JObj [(''reason'', JStr reason)]), ad_ip = Some (hc_ip hc)\<rparr> (hw_audit w)\<rparr>)
                | None \<Rightarrow>
                    let event = orelse body (JObj []) in
                    if event_type event = ''user.deleted'' \<and> event_user event \<noteq> None then
                      let workosUserId = the (event_user event) in
                      case deleteByWorkOsId (hs_iso hs) (hs_ledger hs) (hs_workos hs) (hs_fetch hs) (hc_deletion hc) workosUserId (hw_erasure w) of
                        (Inl _, calls, e) \<Rightarrow> (Crashed, calls, w\<lparr>hw_erasure := e\<rparr>)
                      | (Inr outcome, calls, e) \<Rightarrow>
                          (Replied (received True), calls,
                           w\<lparr>hw_erasure := e,
                             hw_audit := audit_record (hc_auditFails hc)
                               \<lparr>ad_userId = map_option do_userId outcome, ad_action = ''webhook.user_deleted'', ad_subjectRef = Some workosUserId,
                                ad_outcome = ''ok'', ad_detail = Some (JObj [(''matched'', JBool (outcome \<noteq> None))]), ad_ip = None\<rparr> (hw_audit w)\<rparr>)
                    else (Replied (received False), [], w))))"

text \<open>The request as a whole: its bytes are parsed before the handler runs.\<close>

definition post_webhook :: "webhook_services \<Rightarrow> webhook_call \<Rightarrow> string \<Rightarrow> webhook_world \<Rightarrow> route_answer \<times> http_call list \<times> webhook_world" where
  "post_webhook hs hc buffer w =
     (case parse_body (wp_toString (hs_parts hs)) buffer of
        Inl e \<Rightarrow> (Errored e, [], w)
      | Inr body \<Rightarrow> workos_webhook hs (hc\<lparr>hc_rawBody := Some buffer\<rparr>) body w)"

subsection \<open>What acts\<close>

lemma secretsEqual_iff: "secretsEqual a b \<longleftrightarrow> a = b"
  unfolding secretsEqual_def Let_def by (metis utf8_decode_encode option.inject)

text \<open>The delivery of a deletion: within the window, and signed over exactly the bytes that came.\<close>

definition signed_deletion :: "webhook_services \<Rightarrow> webhook_call \<Rightarrow> string \<Rightarrow> string \<Rightarrow> bool" where
  "signed_deletion hs hc buffer workosUserId \<longleftrightarrow>
     (\<exists>secret header t e. hs_secret hs = Some secret \<and> hc_signature hc = Some header \<and>
        parseSignatureHeader header = Some \<lparr>sg_timestampMs = t, sg_signature = expected_signature (hs_parts hs) secret t buffer\<rparr> \<and>
        \<bar>of_int (hc_now hc) - t\<bar> \<le> of_int REPLAY_WINDOW_MS \<and>
        parse_body (wp_toString (hs_parts hs)) buffer = Inr (Some e) \<and> event_type e = ''user.deleted'' \<and> event_user e = Some workosUserId)"

lemma verified_signed:
  assumes "verifySignature wp raw header secret now = None"
  shows "\<exists>h t. header = Some h \<and> parseSignatureHeader h = Some \<lparr>sg_timestampMs = t, sg_signature = expected_signature wp secret t raw\<rparr> \<and>
    \<bar>of_int now - t\<bar> \<le> of_int REPLAY_WINDOW_MS"
proof -
  obtain h parts where h: "header = Some h" "parseSignatureHeader h = Some parts"
    "\<not> \<bar>of_int now - sg_timestampMs parts\<bar> > of_int REPLAY_WINDOW_MS"
    "secretsEqual (expected_signature wp secret (sg_timestampMs parts) raw) (sg_signature parts)"
    using assms by (auto simp: verifySignature_def split: option.splits if_splits)
  then have "parts = \<lparr>sg_timestampMs = sg_timestampMs parts, sg_signature = expected_signature wp secret (sg_timestampMs parts) raw\<rparr>"
    by (simp add: secretsEqual_iff)
  with h show ?thesis by (intro exI [of _ h] exI [of _ "sg_timestampMs parts"]) auto
qed

text \<open>Claim C36. A webhook cannot be used to delete: whatever is posted, with whatever headers and faults, it
  leaves the accounts, the ledger and the caches alone and calls nobody, unless its header carries the MAC
  over its own time stamp and the very bytes of the body under the configured secret, within
  five minutes, and these bytes are a deletion; then it does to the data what the
  deletion of that identity does, and nothing else.\<close>

theorem webhook_acts_on_signed:
  assumes "post_webhook hs hc buffer w = (answer, calls, w')"
  shows "hw_erasure w' = hw_erasure w \<and> calls = [] \<or>
    (\<exists>workosUserId a. signed_deletion hs hc buffer workosUserId \<and>
       deleteByWorkOsId (hs_iso hs) (hs_ledger hs) (hs_workos hs) (hs_fetch hs) (hc_deletion hc) workosUserId (hw_erasure w) =
         (a, calls, hw_erasure w') \<and>
       answer = (case a of Inl _ \<Rightarrow> Crashed | Inr _ \<Rightarrow> Replied (received True)))"
proof (cases "hw_erasure w' = hw_erasure w \<and> calls = []")
  case False
  obtain body where body: "parse_body (wp_toString (hs_parts hs)) buffer = Inr body"
    using assms False by (cases "parse_body (wp_toString (hs_parts hs)) buffer") (auto simp: post_webhook_def)
  obtain secret where secret: "hs_secret hs = Some secret"
    using assms False body by (cases "hs_secret hs") (auto simp: post_webhook_def workos_webhook_def)
  have ver: "verifySignature (hs_parts hs) buffer (hc_signature hc) secret (hc_now hc) = None"
    using assms False body secret by (cases "verifySignature (hs_parts hs) buffer (hc_signature hc) secret (hc_now hc)")
      (auto simp: post_webhook_def workos_webhook_def)
  have run: "workos_webhook hs (hc\<lparr>hc_rawBody := Some buffer\<rparr>) body w = (answer, calls, w')"
    using assms body by (simp add: post_webhook_def)
  let ?e = "orelse body (JObj [])"
  have event: "event_type ?e = ''user.deleted'' \<and> event_user ?e \<noteq> None"
    using run False secret ver by (auto simp: workos_webhook_def Let_def split: if_splits)
  then obtain i where i: "event_user ?e = Some i" by blast
  have "\<exists>e. body = Some e"
    using i by (cases body) (simp_all add: event_user_def jget_def)
  then obtain e where e: "body = Some e" by blast
  obtain a c x where d: "deleteByWorkOsId (hs_iso hs) (hs_ledger hs) (hs_workos hs) (hs_fetch hs) (hc_deletion hc) i (hw_erasure w) = (a, c, x)"
    by (metis prod_cases3)
  have "c = calls \<and> x = hw_erasure w' \<and> answer = (case a of Inl _ \<Rightarrow> Crashed | Inr _ \<Rightarrow> Replied (received True))"
    using run secret ver event i e d by (cases a) (auto simp: workos_webhook_def Let_def)
  moreover have "signed_deletion hs hc buffer i"
    using verified_signed [OF ver] secret body e event i by (auto simp: signed_deletion_def)
  ultimately show ?thesis using d by blast
qed simp


subsection \<open>A time stamp in seconds\<close>

lemma digits_plain: "c \<in> set (show_nat n) \<Longrightarrow> is_digit c \<and> \<not> is_white c"
  using show_nat_digits [of c n] by (auto simp: is_digit_def is_white_def)

lemma number_show:
  assumes "int n < 2 ^ 53"
  shows "js_Number (show_nat n) = Some (of_int (int n))"
proof -
  let ?s = "show_nat n"
  have digits: "\<forall>c \<in> set ?s. is_digit c" and plain: "\<forall>c \<in> set ?s. \<not> is_white c" using digits_plain by blast+
  have trim: "js_trim ?s = ?s" using plain by (rule js_trim_id)
  have radix: "radix_literal ?s = None"
  proof (cases ?s)
    case (Cons z xs)
    then show ?thesis
    proof (cases xs)
      case (Cons x ys)
      then have "is_digit x" using digits \<open>?s = z # xs\<close> by simp
      then have "x \<notin> {CHR ''x'', CHR ''X''}" "x \<notin> {CHR ''o'', CHR ''O''}" "x \<notin> {CHR ''b'', CHR ''B''}" by (auto simp: is_digit_def)
      then show ?thesis using \<open>?s = z # xs\<close> Cons by (auto simp: radix_literal_def split: list.split)
    qed (simp add: radix_literal_def)
  qed simp
  have sg: "Js_Text.signed ?s = (1, ?s)"
    using digits by (cases ?s) (auto simp: Js_Text.signed_def is_digit_def)
  have tw: "takeWhile is_digit ?s = ?s" "dropWhile is_digit ?s = []" using digits by simp_all
  have "decimal_literal ?s = Some (of_int (int n))"
    by (simp add: decimal_literal_def Let_def exponent_part_def scale10_def sg tw)
  moreover have "\<bar>of_int (int n) :: rat\<bar> < 2 ^ 1024"
  proof -
    have "(of_int (int n) :: rat) < of_int (2 ^ 53)" using assms by (simp only: of_int_less_iff)
    also have "\<dots> \<le> 2 ^ 1024" by simp
    finally show ?thesis by simp
  qed
  ultimately show ?thesis by (simp add: js_Number_def trim radix Let_def)
qed

definition signature_header :: "string \<Rightarrow> string \<Rightarrow> string" where
  "signature_header stamp mac = ''t='' @ stamp @ '',v1='' @ mac"

lemma parse_signature_header:
  assumes "int n < 2 ^ 53" "0 < n" "mac \<noteq> []" "\<forall>c \<in> set mac. is_hex c \<and> lower_char c = c"
  shows "parseSignatureHeader (signature_header (show_nat n) mac) =
    Some \<lparr>sg_timestampMs = (if n < 10 ^ 11 then of_int (int n) * 1000 else of_int (int n)), sg_signature = mac\<rparr>"
proof -
  have hex: "\<not> is_white c \<and> c \<noteq> CHR '',''" if "is_hex c" for c
  proof -
    have "radix_digit 16 c \<noteq> None" using that by (simp add: is_hex_def)
    then show ?thesis by (auto simp: radix_digit_def is_white_def Let_def split: if_splits)
  qed
  have stamp: "\<not> is_white c \<and> c \<noteq> CHR '','' \<and> is_digit c" if "c \<in> set (show_nat n)" for c
    using digits_plain [OF that] by (auto simp: is_digit_def)
  have "js_split (CHR '','') (''t='' @ show_nat n @ CHR '','' # ''v1='' @ mac) = [''t='' @ show_nat n, ''v1='' @ mac]"
  proof -
    have "CHR '','' \<notin> set (''t='' @ show_nat n)" "CHR '','' \<notin> set (''v1='' @ mac)" using stamp hex assms(4) by auto
    from js_split_append [OF this(1), of "''v1='' @ mac"] js_split_plain [OF this(2)] show ?thesis by simp
  qed
  moreover have "js_trim (''t='' @ show_nat n) = ''t='' @ show_nat n" "js_trim (''v1='' @ mac) = ''v1='' @ mac"
    "js_trim (show_nat n) = show_nat n" "js_trim mac = mac"
    using stamp hex assms(4) by (auto intro!: js_trim_id simp: is_white_def)
  moreover have "js_trim ''t'' = ''t''" "js_trim ''v1'' = ''v1''" by (simp_all add: js_trim_def is_white_def)
  moreover have "js_toLowerCase mac = mac" using assms(4) by (simp add: js_toLowerCase_def map_idI)
  moreover have "list_all is_hex mac" using assms(4) by (simp add: list_all_iff)
  ultimately show ?thesis
    using assms(2,3) number_show [OF assms(1)]
    by (simp add: parseSignatureHeader_def signature_header_def read_part_def Let_def)
qed

text \<open>The conversion of a time stamp does not do what it is there for: a sender that counts in seconds and
  signs the time stamp it sends is refused as a forger, since the MAC is computed over the
  converted number; a sender that counts in milliseconds is accepted.\<close>

theorem seconds_are_refused:
  assumes "mac = (\<lambda>n. wp_hmac wp secret (show_nat n @ ''.'' @ raw))"
    and "\<And>m. wp_hmac wp secret m \<noteq> [] \<and> (\<forall>c \<in> set (wp_hmac wp secret m). is_hex c \<and> lower_char c = c)"
    and "mac s \<noteq> mac (1000 * s)" and "0 < s" and "s < 10 ^ 11" and "10 ^ 8 \<le> s"
    and "\<bar>now - 1000 * int s\<bar> \<le> REPLAY_WINDOW_MS"
  shows "verifySignature wp raw (Some (signature_header (show_nat s) (mac s))) secret now = Some ''signature mismatch'' \<and>
    verifySignature wp raw (Some (signature_header (show_nat (1000 * s)) (mac (1000 * s)))) secret now = None"
proof -
  have hex: "mac n \<noteq> [] \<and> (\<forall>c \<in> set (mac n). is_hex c \<and> lower_char c = c)" for n using assms(1,2) by simp
  have "int s < 2 ^ 53" "int (1000 * s) < 2 ^ 53" using assms(5) by simp_all
  from parse_signature_header [OF this(1) assms(4), of "mac s"] parse_signature_header [OF this(2), of "mac (1000 * s)"] hex assms(4-6)
  have p: "parseSignatureHeader (signature_header (show_nat s) (mac s)) = Some \<lparr>sg_timestampMs = of_int (1000 * int s), sg_signature = mac s\<rparr>"
    "parseSignatureHeader (signature_header (show_nat (1000 * s)) (mac (1000 * s))) =
       Some \<lparr>sg_timestampMs = of_int (1000 * int s), sg_signature = mac (1000 * s)\<rparr>"
    by simp_all
  have "\<bar>of_int now - of_int (1000 * int s)\<bar> \<le> (of_int REPLAY_WINDOW_MS :: rat)"
    using assms(7) by (metis of_int_abs of_int_diff of_int_le_iff)
  then have window: "\<not> \<bar>of_int now - of_int (1000 * int s)\<bar> > (of_int REPLAY_WINDOW_MS :: rat)" by (simp only: not_less)
  have "show_int (1000 * int s) = show_nat (1000 * s)" using assms(4) by (simp add: show_int_def nat_mult_distrib)
  then have "expected_signature wp secret (of_int (1000 * int s)) raw = mac (1000 * s)"
    by (simp only: expected_signature_def number_text_def floor_of_int if_True assms(1) simp_thms)
  with p window assms(3) show ?thesis
    by (simp add: verifySignature_def secretsEqual_iff signature_header_def del: of_int_mult)
qed


subsection \<open>Instances\<close>

text \<open>A stand-in for the MAC: the length of the message.\<close>

definition demo_webhook_parts :: webhook_parts where
  "demo_webhook_parts = \<lparr>wp_hmac = \<lambda>k m. show_nat (length m), wp_frac = \<lambda>_. [], wp_toString = id\<rparr>"

definition demo_delivery :: string where
  "demo_delivery = stringify (JObj [(''event'', JStr ''user.deleted''), (''data'', JObj [(''id'', JStr ''w1'')])])"

definition demo_webhook_call :: webhook_call where
  "demo_webhook_call = \<lparr>hc_now = 1700000000000, hc_rawBody = None,
     hc_signature = Some (signature_header (show_nat 1700000000000) (show_nat (length (show_nat 1700000000000 @ ''.'' @ demo_delivery)))),
     hc_ip = ''203.0.113.9'', hc_auditFails = False, hc_deletion = demo_deletion Ledger_fine\<rparr>"

definition demo_webhook_services :: webhook_services where
  "demo_webhook_services = \<lparr>hs_secret = Some ''s'', hs_parts = demo_webhook_parts, hs_iso = demo_iso, hs_ledger = R2_ledger ''erasures'',
     hs_workos = wo_new ''https://api.workos.com'' ''c'' ''k'', hs_fetch = demo_fetch\<rparr>"

definition demo_webhook :: "route_answer \<times> http_call list \<times> webhook_world" where
  "demo_webhook = post_webhook demo_webhook_services demo_webhook_call demo_delivery \<lparr>hw_erasure = demo_erasure, hw_audit = []\<rparr>"

lemma digit_hex: "c \<in> set (show_nat n) \<Longrightarrow> is_hex c \<and> lower_char c = c"
  using show_nat_digits [of c n] by (simp add: is_hex_def radix_digit_def lower_char_def Let_def) linarith

lemma demo_verified: "verifySignature demo_webhook_parts demo_delivery (hc_signature demo_webhook_call) ''s'' 1700000000000 = None"
proof -
  let ?mac = "show_nat (length (show_nat 1700000000000 @ ''.'' @ demo_delivery))"
  have "parseSignatureHeader (signature_header (show_nat 1700000000000) ?mac) = Some \<lparr>sg_timestampMs = 1700000000000, sg_signature = ?mac\<rparr>"
    using parse_signature_header [of 1700000000000 ?mac] digit_hex by simp
  moreover have "show_int 1700000000000 = show_nat 1700000000000" by (simp add: show_int_def)
  moreover have "number_text f 1700000000000 = show_int 1700000000000" for f by (simp add: number_text_def)
  ultimately show ?thesis
    by (simp add: verifySignature_def demo_webhook_call_def secretsEqual_iff expected_signature_def demo_webhook_parts_def
        REPLAY_WINDOW_MS_def signature_header_def)
qed

lemma demo_event: "parse_body id demo_delivery = Inr (Some (JObj [(''event'', JStr ''user.deleted''), (''data'', JObj [(''id'', JStr ''w1'')])]))"
proof -
  have "json_parse demo_delivery = Some (JObj [(''event'', JStr ''user.deleted''), (''data'', JObj [(''id'', JStr ''w1'')])])"
    unfolding demo_delivery_def by (rule json_parse_stringify) simp
  moreover have "demo_delivery \<noteq> []" by (simp add: demo_delivery_def)
  ultimately show ?thesis by (simp add: parse_body_def)
qed

lemma demo_deleted:
  "fst (snd (deleteByWorkOsId demo_iso (R2_ledger ''erasures'') (wo_new ''https://api.workos.com'' ''c'' ''k'') demo_fetch
     (demo_deletion Ledger_fine) ''w1'' demo_erasure)) \<noteq> []"
  by code_simp

lemma webhook_acts_on_signed_witness:
  "\<exists>i. signed_deletion demo_webhook_services demo_webhook_call demo_delivery i"
proof -
  have "fst (snd demo_webhook) = fst (snd (deleteByWorkOsId demo_iso (R2_ledger ''erasures'') (wo_new ''https://api.workos.com'' ''c'' ''k'')
      demo_fetch (demo_deletion Ledger_fine) ''w1'' demo_erasure))"
    using demo_verified demo_event
    by (simp add: demo_webhook_def post_webhook_def workos_webhook_def demo_webhook_services_def demo_webhook_parts_def demo_webhook_call_def
        event_type_def event_user_def jget_def Let_def split: prod.split sum.split)
  then have calls: "fst (snd demo_webhook) \<noteq> []" using demo_deleted by simp
  have run: "post_webhook demo_webhook_services demo_webhook_call demo_delivery \<lparr>hw_erasure = demo_erasure, hw_audit = []\<rparr> =
      (fst demo_webhook, fst (snd demo_webhook), snd (snd demo_webhook))" by (simp add: demo_webhook_def)
  from webhook_acts_on_signed [OF run] calls show ?thesis by blast
qed

lemma seconds_are_refused_witness:
  "verifySignature demo_webhook_parts ''{}'' (Some (signature_header (show_nat 1700000000) (show_nat (length (show_nat 1700000000 @ ''.'' @ ''{}''))))) ''s''
     1700000000123 = Some ''signature mismatch''"
proof -
  have "wp_hmac demo_webhook_parts k m \<noteq> [] \<and> (\<forall>c \<in> set (wp_hmac demo_webhook_parts k m). is_hex c \<and> lower_char c = c)" for k m
    using digit_hex by (simp add: demo_webhook_parts_def)
  moreover have "length (show_nat 1700000000) \<noteq> length (show_nat 1700000000000)" by (simp add: show_nat.simps)
  ultimately show ?thesis
    using seconds_are_refused [OF refl, where wp = demo_webhook_parts and secret = "''s''" and raw = "''{}''" and s = 1700000000 and now = 1700000000123]
    by (simp add: demo_webhook_parts_def REPLAY_WINDOW_MS_def)
qed

end
