(* ===== verification/Wishlist.thy ===== *)
theory Wishlist
  imports Signed_Cursor Js_Sort Js_Url
begin

text \<open>
  The wishlist: \<^verbatim>\<open>apps/bff/src/services/wishlist.ts\<close>. The table is a list of rows; a statement is a
  step on it, and the defaults that the database fills in (the id and the time of an insertion)
  are arguments. The database keeps microseconds and the driver hands out dates of whole
  milliseconds, so both units appear. \<open>toISOString\<close> and the reading of a timestamp by the
  database are parameters, with their agreement as the hypothesis \<open>iso_clock\<close>.
\<close>

subsection \<open>Rows and items\<close>

definition WISHLIST_SOURCES :: "string list" where
  "WISHLIST_SOURCES = [''manual'', ''lastfm_loved'', ''listenbrainz_loved'', ''recommendation'']"

definition WISHLIST_STATUSES :: "string list" where
  "WISHLIST_STATUSES = [''wanted'', ''acquired'', ''unavailable'', ''dismissed'']"

definition MAX_ITEMS_PER_USER :: nat where
  "MAX_ITEMS_PER_USER = 5000"

record wishlist_row =
  wr_id :: string
  wr_userId :: string
  wr_recordingMbid :: "string option"
  wr_releaseMbid :: "string option"
  wr_artistMbid :: "string option"
  wr_artistName :: string
  wr_title :: string
  wr_source :: string
  wr_status :: string
  wr_note :: "string option"
  wr_createdAt :: int  \<comment> \<open>microseconds\<close>
  wr_acquiredAt :: "int option"

record wishlist_item =
  wi_id :: string
  wi_recordingMbid :: "string option"
  wi_releaseMbid :: "string option"
  wi_artistMbid :: "string option"
  wi_artistName :: string
  wi_title :: string
  wi_source :: string
  wi_status :: string
  wi_note :: "string option"
  wi_createdAt :: string
  wi_acquiredAt :: "string option"

text \<open>The date the driver makes of a timestamp: whole milliseconds.\<close>

definition js_date :: "int \<Rightarrow> int" where
  "js_date micros = micros div 1000"

definition toItem :: "(int \<Rightarrow> string) \<Rightarrow> wishlist_row \<Rightarrow> wishlist_item" where
  "toItem isof row =
     \<lparr>wi_id = wr_id row, wi_recordingMbid = wr_recordingMbid row, wi_releaseMbid = wr_releaseMbid row,
      wi_artistMbid = wr_artistMbid row, wi_artistName = wr_artistName row, wi_title = wr_title row,
      wi_source = wr_source row, wi_status = wr_status row, wi_note = wr_note row,
      wi_createdAt = isof (js_date (wr_createdAt row)),
      wi_acquiredAt = map_option (\<lambda>t. isof (js_date t)) (wr_acquiredAt row)\<rparr>"

record wishlist_page =
  wp_items :: "wishlist_item list"
  wp_cursor :: "string option"

record create_input =
  ci_recordingMbid :: "string option"
  ci_releaseMbid :: "string option"
  ci_artistMbid :: "string option"
  ci_artistName :: string
  ci_title :: string
  ci_source :: "string option"
  ci_note :: "string option"

datatype wishlist_error = Bad_cursor | No_such_item | Wishlist_full

subsection \<open>The queries\<close>

text \<open>\<open>ORDER BY created_at DESC, id DESC\<close>, and the row comparison of the keyset.\<close>

definition id_order :: "string \<Rightarrow> string \<Rightarrow> real" where
  "id_order a b = code_units (map of_char a) (map of_char b)"

definition newest_first :: "wishlist_row \<Rightarrow> wishlist_row \<Rightarrow> real" where
  "newest_first r s =
     (if wr_createdAt r > wr_createdAt s then -1 else if wr_createdAt r < wr_createdAt s then 1
      else id_order (wr_id s) (wr_id r))"

definition before_position :: "int \<Rightarrow> string \<Rightarrow> wishlist_row \<Rightarrow> bool" where
  "before_position micros i r \<longleftrightarrow>
     wr_createdAt r < micros \<or> (wr_createdAt r = micros \<and> id_order (wr_id r) i < 0)"

definition wl_select ::
  "string \<Rightarrow> (int \<times> string) option \<Rightarrow> string option \<Rightarrow> nat \<Rightarrow> wishlist_row list \<Rightarrow> wishlist_row list" where
  "wl_select userId position status most t =
     take most (js_sort newest_first (filter (\<lambda>r. wr_userId r = userId \<and>
       (case position of None \<Rightarrow> True | Some (m, i) \<Rightarrow> before_position m i r) \<and>
       (case status of None \<Rightarrow> True | Some s \<Rightarrow> wr_status r = s)) t))"

text \<open>What the service needs of its surroundings: the MAC and its keys, and the two clocks.\<close>

record wishlist_env =
  we_hmac :: "string \<Rightarrow> string \<Rightarrow> string"
  we_keys :: signing_keys
  we_dateOk :: "string \<Rightarrow> bool"
  we_iso :: "int \<Rightarrow> string"
  we_micros :: "string \<Rightarrow> int"

definition wl_list ::
  "wishlist_env \<Rightarrow> string \<Rightarrow> nat \<Rightarrow> string option \<Rightarrow> string option \<Rightarrow> wishlist_row list \<Rightarrow>
     wishlist_error + wishlist_page" where
  "wl_list env userId most cursor status t =
     (case (case cursor of None \<Rightarrow> Some None
            | Some c \<Rightarrow> map_option Some (decodeCursor (we_hmac env) (we_dateOk env) (we_keys env) ''wishlist'' userId c)) of
        None \<Rightarrow> Inl Bad_cursor
      | Some position \<Rightarrow>
          let rows = wl_select userId (map_option (\<lambda>p. (we_micros env (cp_createdAt p), cp_id p)) position) status (most + 1) t;
              hasMore = length rows > most;
              page = (if hasMore then take most rows else rows)
          in Inr \<lparr>wp_items = map (toItem (we_iso env)) page,
                  wp_cursor = (if hasMore \<and> page \<noteq> []
                    then Some (encodeCursor (we_hmac env) (we_keys env) ''wishlist'' userId
                      \<lparr>cp_createdAt = we_iso env (js_date (wr_createdAt (last page))), cp_id = wr_id (last page)\<rparr>)
                    else None)\<rparr>)"

definition wl_get :: "(int \<Rightarrow> string) \<Rightarrow> string \<Rightarrow> string \<Rightarrow> wishlist_row list \<Rightarrow> wishlist_error + wishlist_item" where
  "wl_get isof userId i t =
     (case find (\<lambda>r. wr_id r = i \<and> wr_userId r = userId) t of
        None \<Rightarrow> Inl No_such_item | Some row \<Rightarrow> Inr (toItem isof row))"

text \<open>A null never conflicts with a null.\<close>

definition same_recording :: "string \<Rightarrow> string option \<Rightarrow> wishlist_row \<Rightarrow> bool" where
  "same_recording userId mbid r \<longleftrightarrow> wr_userId r = userId \<and> mbid \<noteq> None \<and> wr_recordingMbid r = mbid"

definition wl_create ::
  "(int \<Rightarrow> string) \<Rightarrow> string \<Rightarrow> int \<Rightarrow> string \<Rightarrow> create_input \<Rightarrow> wishlist_row list \<Rightarrow>
     (wishlist_error + wishlist_item) \<times> wishlist_row list" where
  "wl_create isof freshId nowMicros userId input t =
     (if length (filter (\<lambda>r. wr_userId r = userId) t) \<ge> MAX_ITEMS_PER_USER then (Inl Wishlist_full, t)
      else case find (same_recording userId (ci_recordingMbid input)) t of
        Some row \<Rightarrow>
          let row' = row\<lparr>wr_note := orelse_opt (ci_note input) (wr_note row)\<rparr>
          in (Inr (toItem isof row'), map (\<lambda>r. if wr_id r = wr_id row then row' else r) t)
      | None \<Rightarrow>
          let row = \<lparr>wr_id = freshId, wr_userId = userId, wr_recordingMbid = ci_recordingMbid input,
                wr_releaseMbid = ci_releaseMbid input, wr_artistMbid = ci_artistMbid input,
                wr_artistName = ci_artistName input, wr_title = ci_title input,
                wr_source = orelse (ci_source input) ''manual'', wr_status = ''wanted'', wr_note = ci_note input,
                wr_createdAt = nowMicros, wr_acquiredAt = None\<rparr>
          in (Inr (toItem isof row), t @ [row]))"

definition wl_remove :: "string \<Rightarrow> string \<Rightarrow> wishlist_row list \<Rightarrow> (wishlist_error + unit) \<times> wishlist_row list" where
  "wl_remove userId i t =
     (let hit = (\<lambda>r. wr_id r = i \<and> wr_userId r = userId)
      in (if filter hit t = [] then Inl No_such_item else Inr (), filter (\<lambda>r. \<not> hit r) t))"

subsection \<open>Purchase links\<close>

definition wl_acquire ::
  "(int \<Rightarrow> string) \<Rightarrow> string \<Rightarrow> string \<Rightarrow> wishlist_row list \<Rightarrow>
     wishlist_error + wishlist_item \<times> (string \<times> string) list" where
  "wl_acquire isof userId i t =
     (case wl_get isof userId i t of
        Inl e \<Rightarrow> Inl e
      | Inr item \<Rightarrow>
          let q = wi_artistName item @ CHR '' '' # wi_title item
          in Inr (item,
            [(''bandcamp'', ''https://bandcamp.com/search?'' @ search_params ''q'' q),
             (''qobuz'', ''https://www.qobuz.com/us-en/search?'' @ search_params ''q'' q),
             (''apple_music'', ''https://music.apple.com/us/search?'' @ search_params ''term'' q)]))"

subsection \<open>The order of the pages\<close>

lemma id_order_flip: "id_order b a = - id_order a b"
  unfolding id_order_def by (rule code_units_flip)

lemma id_order_0 [simp]: "id_order a b = 0 \<longleftrightarrow> a = b"
  by (simp add: id_order_def inj_map_eq_map inj_of_char)

lemma id_order_refl [simp]: "id_order a a = 0"
  by simp

lemma id_order_trans: "id_order a b \<le> 0 \<Longrightarrow> id_order b c \<le> 0 \<Longrightarrow> id_order a c \<le> 0"
  unfolding id_order_def by (rule code_units_trans)

lemma newest_first_flip: "newest_first s r = - newest_first r s"
  using id_order_flip [of "wr_id r" "wr_id s"] by (auto simp: newest_first_def)

interpretation newest: js_comparator newest_first
proof unfold_locales
  show "sgn (newest_first y x) = - sgn (newest_first x y)" for x y
    by (subst newest_first_flip) (rule sgn_minus)
next
  fix x y z assume "newest_first x y \<le> 0" "newest_first y z \<le> 0"
  then show "newest_first x z \<le> 0"
    using id_order_trans [of "wr_id z" "wr_id y" "wr_id x"]
    by (auto simp: newest_first_def split: if_splits)
qed

lemma newest_first_0: "newest_first r s = 0 \<longleftrightarrow> wr_createdAt r = wr_createdAt s \<and> wr_id r = wr_id s"
  by (auto simp: newest_first_def)

lemma newest_sorted: "distinct (map wr_id xs) \<Longrightarrow> sorted_wrt (\<lambda>r s. newest_first r s < 0) (js_sort newest_first xs)"
proof -
  assume d: "distinct (map wr_id xs)"
  have strict: "newest_first r s < 0" if "newest_first r s \<le> 0 \<and> wr_id r \<noteq> wr_id s" for r s
    using that newest_first_0 [of r s] by auto
  have sorted: "sorted_wrt (\<lambda>r s. newest_first r s \<le> 0 \<and> wr_id r \<noteq> wr_id s) (js_sort newest_first xs)"
    using newest.sort_sorted [of xs] distinct_map_js_sort [of wr_id newest_first xs] d
    by (auto simp: sorted_wrt_iff_nth_less distinct_conv_nth)
  show ?thesis by (rule sorted_wrt_mono_rel [OF strict sorted])
qed

definition own :: "string \<Rightarrow> string option \<Rightarrow> wishlist_row list \<Rightarrow> wishlist_row list" where
  "own userId status t =
     filter (\<lambda>r. wr_userId r = userId \<and> (case status of None \<Rightarrow> True | Some s \<Rightarrow> wr_status r = s)) t"

text \<open>Rows that share a millisecond have no finer time.\<close>

definition whole_ms :: "wishlist_row list \<Rightarrow> bool" where
  "whole_ms rows \<longleftrightarrow> (\<forall>r \<in> set rows. \<forall>s \<in> set rows. wr_id r \<noteq> wr_id s \<longrightarrow>
     js_date (wr_createdAt r) = js_date (wr_createdAt s) \<longrightarrow>
       wr_createdAt r = 1000 * js_date (wr_createdAt r) \<and> wr_createdAt s = 1000 * js_date (wr_createdAt s))"

lemma before_row:
  assumes "whole_ms rows" "l \<in> set rows" "r \<in> set rows" "distinct (map wr_id rows)"
  shows "before_position (1000 * js_date (wr_createdAt l)) (wr_id l) r \<longleftrightarrow> newest_first l r < 0"
proof (cases "wr_id r = wr_id l")
  case True
  then have "r = l" using assms(2-4) by (simp add: distinct_map inj_on_def)
  moreover have "\<not> id_order (wr_id l) (wr_id l) < 0" by simp
  moreover have "\<not> wr_createdAt l < 1000 * js_date (wr_createdAt l)" by (simp add: js_date_def)
  ultimately show ?thesis by (simp add: before_position_def newest_first_def)
next
  case False
  have t: "1000 * js_date m \<le> m \<and> m < 1000 * js_date m + 1000" for m by (simp add: js_date_def) linarith
  show ?thesis
  proof (cases "js_date (wr_createdAt r) = js_date (wr_createdAt l)")
    case True
    then have "wr_createdAt r = 1000 * js_date (wr_createdAt l)" "wr_createdAt l = 1000 * js_date (wr_createdAt l)"
      using assms(1-3) False unfolding whole_ms_def by metis+
    then show ?thesis by (simp add: before_position_def newest_first_def)
  next
    case False
    then have "wr_createdAt r < 1000 * js_date (wr_createdAt l) \<longleftrightarrow> wr_createdAt r < wr_createdAt l"
      "wr_createdAt r \<noteq> 1000 * js_date (wr_createdAt l)" "wr_createdAt r \<noteq> wr_createdAt l"
      using t [of "wr_createdAt r"] t [of "wr_createdAt l"] by (linarith, auto simp: js_date_def)
    then show ?thesis by (auto simp: before_position_def newest_first_def)
  qed
qed

lemma wl_select_first: "wl_select userId None status most t = take most (js_sort newest_first (own userId status t))"
  by (simp add: wl_select_def own_def)

lemma wl_select_next:
  assumes "whole_ms (own userId status t)" "distinct (map wr_id t)"
    and "L = js_sort newest_first (own userId status t)" "k < length L"
  shows "wl_select userId (Some (1000 * js_date (wr_createdAt (L ! k)), wr_id (L ! k))) status most t = take most (drop (Suc k) L)"
proof -
  let ?o = "own userId status t"
  let ?b = "before_position (1000 * js_date (wr_createdAt (L ! k))) (wr_id (L ! k))"
  have d: "distinct (map wr_id ?o)" using assms(2) by (simp add: own_def distinct_map_filter)
  have mem: "L ! k \<in> set ?o" using assms(3,4) nth_mem [of k L] by simp
  have "filter (\<lambda>r. wr_userId r = userId \<and> ?b r \<and> (case status of None \<Rightarrow> True | Some s \<Rightarrow> wr_status r = s)) t = filter ?b ?o"
    by (auto simp: own_def intro: filter_cong)
  also have "\<dots> = filter (\<lambda>r. newest_first (L ! k) r < 0) ?o"
    by (rule filter_cong) (use before_row [OF assms(1) mem _ d] in auto)
  finally have "wl_select userId (Some (1000 * js_date (wr_createdAt (L ! k)), wr_id (L ! k))) status most t =
      take most (js_sort newest_first (filter (\<lambda>r. newest_first (L ! k) r < 0) ?o))"
    by (simp add: wl_select_def)
  also have "\<dots> = take most (filter (\<lambda>r. newest_first (L ! k) r < 0) L)" by (simp add: newest.filter_sort assms(3))
  also have "\<dots> = take most (drop (Suc k) L)"
    using newest.after_nth [OF _ assms(4)] newest_sorted [OF d] assms(3) by simp
  finally show ?thesis .
qed

subsection \<open>Following the cursors\<close>

text \<open>A client that asks for pages of \<open>most\<close> items until there is no cursor, at most \<open>n\<close> times.\<close>

fun wl_walk ::
  "wishlist_env \<Rightarrow> string \<Rightarrow> nat \<Rightarrow> string option \<Rightarrow> wishlist_row list \<Rightarrow> nat \<Rightarrow> string option \<Rightarrow> wishlist_item list" where
  "wl_walk env userId most status t 0 cursor = []"
| "wl_walk env userId most status t (Suc n) cursor =
     (case wl_list env userId most cursor status t of
        Inl e \<Rightarrow> []
      | Inr page \<Rightarrow> wp_items page @ (case wp_cursor page of
          None \<Rightarrow> [] | Some c \<Rightarrow> wl_walk env userId most status t n (Some c)))"

definition iso_clock :: "wishlist_env \<Rightarrow> bool" where
  "iso_clock env \<longleftrightarrow> (\<forall>ms. we_micros env (we_iso env ms) = 1000 * ms \<and> we_dateOk env (we_iso env ms)) \<and>
     (\<forall>k m. we_hmac env k m \<noteq> [])"

definition row_cursor :: "wishlist_env \<Rightarrow> string \<Rightarrow> wishlist_row \<Rightarrow> string" where
  "row_cursor env userId r = encodeCursor (we_hmac env) (we_keys env) ''wishlist'' userId
     \<lparr>cp_createdAt = we_iso env (js_date (wr_createdAt r)), cp_id = wr_id r\<rparr>"

lemma wl_list_at:
  assumes env: "iso_clock env" and rows: "whole_ms (own userId status t)" "distinct (map wr_id t)"
    and L: "L = js_sort newest_first (own userId status t)" and "j \<le> length L" and "0 < most"
    and c: "cursor = (if j = 0 then None else Some (row_cursor env userId (L ! (j - 1))))"
  shows "wl_list env userId most cursor status t =
    Inr \<lparr>wp_items = map (toItem (we_iso env)) (take most (drop j L)),
         wp_cursor = (if j + most < length L then Some (row_cursor env userId (L ! (j + most - 1))) else None)\<rparr>"
proof -
  have rest: "wl_list env userId most cursor status t =
      (let rows = take (most + 1) (drop j L); hasMore = length rows > most;
           page = (if hasMore then take most rows else rows)
       in Inr \<lparr>wp_items = map (toItem (we_iso env)) page,
               wp_cursor = (if hasMore \<and> page \<noteq> [] then Some (row_cursor env userId (last page)) else None)\<rparr>)"
  proof (cases "j = 0")
    case True
    then show ?thesis using c by (simp add: wl_list_def wl_select_first L row_cursor_def Let_def)
  next
    case False
    then have k: "j - 1 < length L" using assms(5) by simp
    have "decodeCursor (we_hmac env) (we_dateOk env) (we_keys env) ''wishlist'' userId (row_cursor env userId (L ! (j - 1))) =
        Some \<lparr>cp_createdAt = we_iso env (js_date (wr_createdAt (L ! (j - 1)))), cp_id = wr_id (L ! (j - 1))\<rparr>"
      unfolding row_cursor_def using env by (intro cursor_own) (simp_all add: iso_clock_def)
    then show ?thesis
      using False c env wl_select_next [OF rows L k, of "most + 1"]
      by (simp add: wl_list_def row_cursor_def iso_clock_def Let_def)
  qed
  show ?thesis
  proof (cases "j + most < length L")
    case True
    then have "last (take most (drop j L)) = L ! (j + most - 1)" and "take most (drop j L) \<noteq> []"
      using assms(6) by (simp_all add: last_conv_nth)
    then show ?thesis using True by (auto simp: rest Let_def min_def)
  next
    case False
    then show ?thesis by (simp add: rest Let_def min_def)
  qed
qed

lemma wl_walk_from:
  assumes "iso_clock env" "whole_ms (own userId status t)" "distinct (map wr_id t)"
    and L: "L = js_sort newest_first (own userId status t)" and "0 < most"
  shows "j \<le> length L \<Longrightarrow> length L - j < n \<Longrightarrow>
    cursor = (if j = 0 then None else Some (row_cursor env userId (L ! (j - 1)))) \<Longrightarrow>
    wl_walk env userId most status t n cursor = map (toItem (we_iso env)) (drop j L)"
proof (induction n arbitrary: j cursor)
  case (Suc n)
  note page = wl_list_at [OF assms(1-3) L Suc.prems(1) assms(5) Suc.prems(3)]
  show ?case
  proof (cases "j + most < length L")
    case True
    have "wl_walk env userId most status t n (Some (row_cursor env userId (L ! (j + most - 1)))) =
        map (toItem (we_iso env)) (drop (j + most) L)"
      using True Suc.prems(2) assms(5) by (intro Suc.IH) simp_all
    moreover have "drop j L = take most (drop j L) @ drop (j + most) L"
      by (metis add.commute append_take_drop_id drop_drop)
    ultimately show ?thesis using True by (simp add: page flip: map_append)
  next
    case False
    then show ?thesis by (simp add: page)
  qed
qed simp

subsection \<open>Properties\<close>

text \<open>Claim C15. The pages are the list: following the cursors yields every item of the subject exactly once,
  newest first, whatever the page size, and none of anybody else; it takes that rows of one
  millisecond have no finer time.\<close>

theorem pages_complete:
  assumes "iso_clock env" and "whole_ms (own userId status t)" and "distinct (map wr_id t)"
    and "0 < most" and "length t < n"
  shows "wl_walk env userId most status t n None =
    map (toItem (we_iso env)) (js_sort newest_first (own userId status t))"
proof -
  have "length (own userId status t) \<le> length t" by (simp add: own_def)
  then show ?thesis using wl_walk_from [OF assms(1-3) refl assms(4), of 0 n] assms(5) by simp
qed

definition demo_row :: "string \<Rightarrow> string \<Rightarrow> int \<Rightarrow> wishlist_row" where
  "demo_row user i t = \<lparr>wr_id = i, wr_userId = user, wr_recordingMbid = None, wr_releaseMbid = None,
     wr_artistMbid = None, wr_artistName = ''a'', wr_title = ''t'', wr_source = ''manual'', wr_status = ''wanted'',
     wr_note = None, wr_createdAt = t, wr_acquiredAt = None\<rparr>"

text \<open>A clock for examples: a time is written in decimal.\<close>

definition demo_env :: wishlist_env where
  "demo_env = \<lparr>we_hmac = (\<lambda>k m. ''x'' @ m), we_keys = [], we_dateOk = (\<lambda>_. True), we_iso = show_int,
     we_micros = (\<lambda>s. 1000 * (if s \<noteq> [] \<and> hd s = CHR ''-'' then - decimal (tl s) else decimal s))\<rparr>"

lemma demo_clock: "iso_clock demo_env"
proof -
  have "hd (show_nat k) \<noteq> CHR ''-''" for k
    using show_nat_not_minus [of k "tl (show_nat k)"] by (metis list.collapse show_nat_not_Nil)
  then show ?thesis by (simp add: iso_clock_def demo_env_def show_int_def)
qed

lemma pages_complete_witness:
  "wl_walk demo_env ''u'' 1 None [demo_row ''u'' ''1'' 7000, demo_row ''v'' ''2'' 7000, demo_row ''u'' ''3'' 9500] 4 None =
   [toItem show_int (demo_row ''u'' ''3'' 9500), toItem show_int (demo_row ''u'' ''1'' 7000)]"
  using pages_complete [OF demo_clock, of "''u''" None
      "[demo_row ''u'' ''1'' 7000, demo_row ''v'' ''2'' 7000, demo_row ''u'' ''3'' 9500]" 1 4]
  by (simp add: own_def demo_row_def whole_ms_def js_date_def newest_first_def demo_env_def)

text \<open>The cursor carries milliseconds and the table microseconds: of two items added within one
  millisecond the older one is on no page when the newer one ends its page.\<close>

theorem page_skips_item:
  "wl_walk demo_env ''u'' 1 None [demo_row ''u'' ''1'' 7200, demo_row ''u'' ''2'' 7500] (Suc (Suc n)) None =
     [toItem show_int (demo_row ''u'' ''2'' 7500)]"
proof -
  let ?t = "[demo_row ''u'' ''1'' 7200, demo_row ''u'' ''2'' 7500]"
  have first: "wl_list demo_env ''u'' 1 None None ?t =
      Inr \<lparr>wp_items = [toItem show_int (demo_row ''u'' ''2'' 7500)], wp_cursor = Some (row_cursor demo_env ''u'' (demo_row ''u'' ''2'' 7500))\<rparr>"
    by (simp add: wl_list_def wl_select_def demo_row_def newest_first_def row_cursor_def demo_env_def Let_def)
  have dec: "decodeCursor (we_hmac demo_env) (we_dateOk demo_env) (we_keys demo_env) ''wishlist'' ''u''
      (row_cursor demo_env ''u'' (demo_row ''u'' ''2'' 7500)) = Some \<lparr>cp_createdAt = we_iso demo_env 7, cp_id = ''2''\<rparr>"
    using cursor_own [of "we_hmac demo_env" "we_dateOk demo_env" "\<lparr>cp_createdAt = we_iso demo_env 7, cp_id = ''2''\<rparr>"
        "we_keys demo_env" "''wishlist''" "''u''"] demo_clock
    by (simp add: row_cursor_def demo_row_def js_date_def iso_clock_def)
  have "we_micros demo_env (we_iso demo_env 7) = 7000" using demo_clock by (simp add: iso_clock_def)
  then have second: "wl_list demo_env ''u'' 1 (Some (row_cursor demo_env ''u'' (demo_row ''u'' ''2'' 7500))) None ?t =
      Inr \<lparr>wp_items = [], wp_cursor = None\<rparr>"
    unfolding wl_list_def option.case dec
    by (simp add: wl_select_def before_position_def demo_row_def Let_def)
  show ?thesis
    unfolding wl_walk.simps first sum.case wishlist_page.select_convs option.case second by simp
qed

definition others :: "string \<Rightarrow> wishlist_row list \<Rightarrow> wishlist_row list" where
  "others u t = filter (\<lambda>r. wr_userId r \<noteq> u) t"

lemma find_own: "find (\<lambda>r. P r \<and> wr_userId r = u) t = find (\<lambda>r. P r \<and> wr_userId r = u) (own u None t)"
  by (induction t) (auto simp: own_def)

lemma find_recording: "find (same_recording u m) t = find (same_recording u m) (own u None t)"
  by (induction t) (auto simp: own_def same_recording_def)

lemma own_None: "own u None t = filter (\<lambda>r. wr_userId r = u) t"
  by (simp add: own_def)

lemma create_others:
  assumes "distinct (map wr_id t)" shows "others u (snd (wl_create isof i now u input t)) = others u t"
proof (cases "find (same_recording u (ci_recordingMbid input)) t")
  case None
  then show ?thesis by (auto simp: wl_create_def others_def Let_def)
next
  case (Some row)
  then have row: "row \<in> set t" "wr_userId row = u"
    by (auto simp: find_Some_iff same_recording_def nth_mem)
  have "wr_id r = wr_id row \<Longrightarrow> r \<in> set t \<Longrightarrow> r = row" for r
    using assms row by (simp add: distinct_map inj_on_def)
  then have "filter (\<lambda>r. wr_userId r \<noteq> u) (map (\<lambda>r. if wr_id r = wr_id row then row\<lparr>wr_note := n\<rparr> else r) t) =
      filter (\<lambda>r. wr_userId r \<noteq> u) t" for n
    using row(2) by (induction t) auto
  then show ?thesis by (simp add: wl_create_def Some others_def Let_def)
qed

text \<open>Nobody sees or touches the items of others: every operation answers from the rows of its
  subject alone, so an id of somebody else is an id that does not exist, and leaves all other
  rows as they are; an addition keeps ids unique and the cap on the items of a subject.\<close>

theorem wishlist_isolated:
  assumes "distinct (map wr_id t)" and "i \<notin> wr_id ` set t"
  shows "wl_list env u most cursor status t = wl_list env u most cursor status (own u None t) \<and>
    wl_get isof u j t = wl_get isof u j (own u None t) \<and>
    fst (wl_create isof i now u input t) = fst (wl_create isof i now u input (own u None t)) \<and>
    fst (wl_remove u j t) = fst (wl_remove u j (own u None t)) \<and>
    others u (snd (wl_create isof i now u input t)) = others u t \<and>
    others u (snd (wl_remove u j t)) = others u t \<and>
    distinct (map wr_id (snd (wl_create isof i now u input t))) \<and>
    (length (own u None t) \<le> MAX_ITEMS_PER_USER \<longrightarrow>
      length (own u None (snd (wl_create isof i now u input t))) \<le> MAX_ITEMS_PER_USER)"
proof (intro conjI impI)
  have "filter (\<lambda>r. wr_userId r = u \<and> P r) t = filter (\<lambda>r. wr_userId r = u \<and> P r) (own u None t)" for P
    by (auto simp: own_None intro: filter_cong)
  then have sel: "wl_select u p st n (own u None t) = wl_select u p st n t" for p st n by (simp only: wl_select_def)
  show "wl_list env u most cursor status t = wl_list env u most cursor status (own u None t)"
    unfolding wl_list_def sel ..
  show "wl_get isof u j t = wl_get isof u j (own u None t)" unfolding wl_get_def by (subst find_own) simp
  show "fst (wl_create isof i now u input t) = fst (wl_create isof i now u input (own u None t))"
    unfolding wl_create_def find_recording [of u _ t] by (auto simp: own_None Let_def split: option.split)
  show "fst (wl_remove u j t) = fst (wl_remove u j (own u None t))"
    by (auto simp: wl_remove_def own_None Let_def filter_empty_conv)
  show "others u (snd (wl_create isof i now u input t)) = others u t" using assms(1) by (rule create_others)
  show "others u (snd (wl_remove u j t)) = others u t"
    by (auto simp: wl_remove_def others_def Let_def intro: filter_cong)
  have same: "map wr_id (map (\<lambda>r. if wr_id r = wr_id row then row\<lparr>wr_note := n\<rparr> else r) t) = map wr_id t" for row n
    by auto
  show "distinct (map wr_id (snd (wl_create isof i now u input t)))"
    using assms same by (auto simp: wl_create_def Let_def simp del: map_map split: option.split)
  have len: "wr_userId row = u \<Longrightarrow> row \<in> set t \<Longrightarrow>
      length (filter (\<lambda>r. wr_userId r = u) (map (\<lambda>r. if wr_id r = wr_id row then row\<lparr>wr_note := n\<rparr> else r) t)) =
      length (filter (\<lambda>r. wr_userId r = u) t)" for row n
  proof -
    assume row: "wr_userId row = u" "row \<in> set t"
    have "r \<in> set t \<Longrightarrow> wr_id r = wr_id row \<Longrightarrow> r = row" for r
      using assms(1) row by (simp add: distinct_map inj_on_def)
    then show ?thesis using row(1) by (induction t) auto
  qed
  show "length (own u None (snd (wl_create isof i now u input t))) \<le> MAX_ITEMS_PER_USER"
    if "length (own u None t) \<le> MAX_ITEMS_PER_USER"
  proof (cases "find (same_recording u (ci_recordingMbid input)) t")
    case None
    then show ?thesis using that by (auto simp: wl_create_def own_None Let_def)
  next
    case (Some row)
    then have row: "row \<in> set t" "wr_userId row = u" by (auto simp: find_Some_iff same_recording_def nth_mem)
    then show ?thesis using that len [OF row(2,1)] by (auto simp: wl_create_def own_None Let_def Some)
  qed
qed

lemma wishlist_isolated_witness:
  "fst (wl_remove ''u'' ''2'' [demo_row ''v'' ''2'' 5]) = Inl No_such_item"
  using wishlist_isolated [of "[demo_row ''v'' ''2'' 5]" "''9''" demo_env "''u''" 1 None None show_int "''2''" 5
      "\<lparr>ci_recordingMbid = None, ci_releaseMbid = None, ci_artistMbid = None, ci_artistName = ''a'', ci_title = ''t'',
        ci_source = None, ci_note = None\<rparr>"]
  by (simp add: demo_row_def own_def wl_remove_def)

end
