(* ===== verification/Spec2Isabelle.thy ===== *)
theory Spec2Isabelle
  imports Audit_Retention Cache_Refinement Cached_Upstream Canonical_Dump Connections Crosswalk Directory_Reaper Discovery_Blend Governed_Table Preview_Resolver Provider_Client Rate_Limiter Single_Flight Upstream_Budget Webhooks Wishlist
begin

text \<open>
  The core of pull-fm, a music discovery service: a TypeScript monorepo whose backend
  (\<^verbatim>\<open>apps/bff\<close>) answers its clients from the public
  interfaces of other services. The development models the parts of it that decide something, one
  theory for each, and proves what those parts promise.

  \<^bold>\<open>The program.\<close> A request reaches a route through the hooks of the plugins: the
  maintenance gate, the authentication gate (\<^verbatim>\<open>plugins/auth.ts\<close>), the budget of
  upstream calls (\<^verbatim>\<open>plugins/upstream-budget.ts\<close>). Services do the work of a route on Postgres, on the
  quota Redis, on an object store and at the identity provider. What a route wants from a
  music service it asks of a cache-first reader (\<^verbatim>\<open>packages/upstream/src/cache\<close>), which calls the
  one HTTP path of all upstream clients (\<^verbatim>\<open>provider-client.ts\<close>) through a circuit breaker, a rate
  limiter, a quota and a kill switch, and whose answers \<^verbatim>\<open>packages/discovery\<close> merges,
  ranks and assembles into a feed. Scheduled jobs sweep what expires.

  \<^bold>\<open>The theories.\<close> Definitions keep the names of the source with a short prefix for the
  class (\<open>cb_\<close>, \<open>rl_\<close>, \<open>ms_\<close>, ...); a class is a \<open>record\<close> of its fields, a method a function from
  the fields to a result and the fields after it.

  Shared:
  \<^item> \<open>Pf_Prelude\<close>: time, results, association lists, and the locales \<open>machine\<close> and \<open>guarded_machine\<close>
    for a component that keeps an invariant from step to step, and \<open>held_reading\<close> for a value read
    under a clock.
  \<^item> \<open>Js_Text\<close>, \<open>Js_Json\<close>, \<open>Js_Bytes\<close>, \<open>Js_Url\<close>, \<open>Js_Sort\<close>: the functions of the language that the source
    uses: strings, \<open>JSON.stringify\<close> and \<open>JSON.parse\<close>, \<open>Buffer\<close> and base64url, percent encoding,
    the stable sort.

  Calling other services, \<^verbatim>\<open>packages/upstream/src\<close>:
  \<^item> \<open>Circuit_Breaker\<close> (\<^verbatim>\<open>circuit-breaker.ts\<close>), \<open>Rate_Limiter\<close> (\<^verbatim>\<open>rate-limiter.ts\<close>), \<open>Quota_Counter\<close>
    (\<^verbatim>\<open>quota.ts\<close>), \<open>Single_Flight\<close> (\<^verbatim>\<open>single-flight.ts\<close>), \<open>Kill_Switch\<close> (\<^verbatim>\<open>kill-switch.ts\<close>, and
    \<^verbatim>\<open>apps/bff/src/lib/kill-switch.ts\<close>, \<^verbatim>\<open>maintenance.ts\<close>), \<open>Upstream_Errors\<close> (\<^verbatim>\<open>errors.ts\<close>): each an
    interpretation of \<open>machine\<close>, with its invariant and the bounds it keeps over every sequence of calls.
  \<^item> \<open>Provider_Client\<close> (\<^verbatim>\<open>provider-client.ts\<close>): one request with its retries, composed of the five above;
    how often it calls, that it ends, what its failures do to the breaker.
  \<^item> \<open>Cache_Store\<close>, \<open>Pg_Cache_Store\<close>, \<open>Cache_Refinement\<close>, \<open>Cache_Governor\<close>, \<open>Governed_Table\<close>,
    \<open>Cached_Upstream\<close>
    (\<^verbatim>\<open>cache/store.ts\<close>, \<^verbatim>\<open>memory-store.ts\<close>, \<^verbatim>\<open>pg-store.ts\<close>, \<^verbatim>\<open>governor.ts\<close>, \<^verbatim>\<open>cache-first.ts\<close>): the contract of a
    store as a locale, both stores as its interpretations and as refinements of one abstract map (a single function stands
    for the size of a payload, which is the length of its JSON in one store and \<^verbatim>\<open>pg_column_size\<close> in the other),
    the cap in bytes, and the read-through with its stale answers. The cap is a fact of the Postgres store that production
    uses: its checks interleave with writes and can be lost, so what exceeds the soft cap is bounded by the writes that no
    finished check has seen, and is within the licence as long as those are few.
  \<^item> \<open>Name_Keys\<close> (\<^verbatim>\<open>normalize.ts\<close>, \<^verbatim>\<open>musicbrainz/canonical-key.ts\<close>, \<^verbatim>\<open>packages/discovery/src/identity.ts\<close>) and
    \<open>Crosswalk\<close> (\<^verbatim>\<open>crosswalk/\<close>): when two names are one artist or one recording, and what is recorded.

  The feed, \<^verbatim>\<open>packages/discovery/src\<close>: \<open>Discovery_Merge\<close> (\<^verbatim>\<open>merge.ts\<close>) and \<open>Discovery_Blend\<close>
  (\<^verbatim>\<open>blend.ts\<close>, \<^verbatim>\<open>ports.ts\<close>, \<^verbatim>\<open>envelope.ts\<close>).

  The backend, \<^verbatim>\<open>apps/bff/src\<close>:
  \<^item> \<open>Redis_Window\<close> (\<^verbatim>\<open>lib/redis.ts\<close>, \<^verbatim>\<open>lib/rate-limit-store.ts\<close>) and \<open>Upstream_Budget\<close>
    (\<^verbatim>\<open>lib/upstream-budget.ts\<close> with its script, \<^verbatim>\<open>plugins/upstream-budget.ts\<close>): counters with an expiry.
  \<^item> \<open>Signed_Cursor\<close> (\<^verbatim>\<open>lib/keys.ts\<close>, \<^verbatim>\<open>lib/cursor.ts\<close>), \<open>Envelope\<close> (\<^verbatim>\<open>packages/crypto/src/envelope.ts\<close>),
    \<open>Session_Cookie\<close> (\<^verbatim>\<open>lib/session-cookie.ts\<close>): what is sealed can be opened, by its owner only.
  \<^item> \<open>Idempotency\<close> (\<^verbatim>\<open>lib/idempotency.ts\<close>) and \<open>Wishlist\<close> (\<^verbatim>\<open>services/wishlist.ts\<close>, with the writing
    handlers of \<^verbatim>\<open>routes/v1/wishlist.ts\<close>).
  \<^item> \<open>Api_Errors\<close> (\<^verbatim>\<open>lib/errors.ts\<close>), \<open>Workos_Client\<close> (\<^verbatim>\<open>services/workos.ts\<close>), \<open>Magic_Auth\<close>
    (\<^verbatim>\<open>services/magic-auth.ts\<close>), \<open>Pg_Locks\<close> (\<^verbatim>\<open>lib/db.ts\<close>), \<open>Directory_Reaper\<close>
    (\<^verbatim>\<open>services/directory-reaper.ts\<close>), \<open>Api_Tokens\<close> (\<^verbatim>\<open>services/tokens.ts\<close>), \<open>User_Store\<close>
    (\<^verbatim>\<open>services/users.ts\<close>), \<open>Registration\<close> (\<^verbatim>\<open>lib/registration-geo.ts\<close>, \<^verbatim>\<open>registration-allowlist.ts\<close>).
  \<^item> \<open>Legal_Documents\<close> (\<^verbatim>\<open>lib/legal-documents.ts\<close>, \<^verbatim>\<open>legal-source.ts\<close>) and \<open>Legal_Consent\<close>
    (\<^verbatim>\<open>services/legal-consent.ts\<close> with the triggers of migrations 0008 and 0009): which documents a subject
    owes, and evidence that stays as it was written until the account is erased, which takes it along.
  \<^item> \<open>Auth_Gate\<close> (\<^verbatim>\<open>plugins/auth.ts\<close>) and \<open>Auth_Routes\<close> (\<^verbatim>\<open>routes/v1/auth.ts\<close>, \<^verbatim>\<open>lib/audit.ts\<close>): who is let in.
  \<^item> \<open>Account_Deletion\<close> (\<^verbatim>\<open>services/deletion.ts\<close>, \<^verbatim>\<open>services/erasure-ledger.ts\<close>): how an account is erased.
  \<^item> \<open>Connections\<close> (\<^verbatim>\<open>services/connections.ts\<close>, \<^verbatim>\<open>services/providers.ts\<close>, \<^verbatim>\<open>routes/v1/connections.ts\<close>): the vault of the
    credentials for music services, on \<open>Envelope\<close>, and the flow that connects one.
  \<^item> \<open>Webhooks\<close> (\<^verbatim>\<open>routes/v1/webhooks.ts\<close>, the parser of bodies in \<^verbatim>\<open>server.ts\<close>): events of the identity provider.
  \<^item> \<open>Job_Batches\<close> (\<^verbatim>\<open>lib/job-env.ts\<close>, the batches of the sweeps; the locale \<open>draining\<close>), \<open>Expiry_Sweeper\<close>
    (\<^verbatim>\<open>services/expiry-sweeper.ts\<close>), \<open>Audit_Retention\<close> (\<^verbatim>\<open>services/audit-retention.ts\<close>): the scheduled jobs, what they must
    leave alone and what they have removed when they are done.
  \<^item> \<open>Upstream_Json\<close> (\<^verbatim>\<open>packages/upstream/src/json.ts\<close>), \<open>Preview_Resolver\<close> (\<^verbatim>\<open>preview/\<close>, \<^verbatim>\<open>itunes/client.ts\<close>,
    \<^verbatim>\<open>deezer/client.ts\<close>; the locale \<open>keeps_previews\<close> is the contract of its two stores) and \<open>Canonical_Dump\<close>
    (\<^verbatim>\<open>musicbrainz/canonical-store.ts\<close>, \<^verbatim>\<open>musicbrainz/local-first.ts\<close>, \<^verbatim>\<open>services/artist-lookup-gate.ts\<close>): previews
    that may be played and are the best match on offer, and the local copy of MusicBrainz, which answers with artists of
    the name asked for or with none.

  \<^bold>\<open>The lemmas.\<close> Each theory has, in this order: the data and the operations; lemmas that the
  operations keep the invariant or satisfy the laws of a locale; the interpretation that takes the
  lemmas of the locale to the model; the properties, each after a paragraph with its number, and after it
  its instance at a concrete input. The properties of one component are invariants over all
  sequences of its operations (\<open>Circuit_Breaker\<close>, \<open>Crosswalk\<close>, \<open>Api_Tokens\<close>, \<open>Legal_Consent\<close>), bounds
  (\<open>Governed_Table\<close>, \<open>Upstream_Budget\<close>, \<open>Magic_Auth\<close>), round trips (\<open>Signed_Cursor\<close>, \<open>Envelope\<close>),
  and descriptions of every outcome (\<open>Wishlist\<close>, \<open>Account_Deletion\<close>); those that span components are in
  the theory of the outermost one: \<open>Auth_Gate\<close> rests on tokens, cookies, users and consent;
  \<open>Auth_Routes\<close> on the gate, \<open>Magic_Auth\<close>, \<open>User_Store\<close> and \<open>Account_Deletion\<close>; \<open>Cached_Upstream\<close> on
  \<open>Cache_Store\<close>, \<open>Cache_Governor\<close> and \<open>Single_Flight\<close>.

  \<^bold>\<open>How the program is read.\<close>
  \<^item> Times and durations are whole milliseconds (\<open>int\<close>); a counter of the process or of the database
    never reaches 2 ^ 53, so it is an \<open>int\<close> or a \<open>nat\<close>. Scores of the merge are real numbers.
  \<^item> A string is a list of characters below 256. Where the source depends on characters above that
    (\<^verbatim>\<open>normalize.ts\<close>), the tables of Unicode are arguments. \<open>Buffer.from(s, 'utf8')\<close> is written out for
    those characters.
  \<^item> An exception is the left side of a sum. A promise is its outcome; where the order of awaits
    matters (the flights, the limiter, the claims, the jobs) the model has one step for each stretch between
    two awaits, and sequences of steps interleave.
  \<^item> A statement of SQL is its effect on a list of rows or a map, with the constraints and the triggers that
    the migrations put on the table; a transaction that fails leaves the tables as they were (a commit whose reply is lost
    is not among the faults of \<open>Account_Deletion\<close>).
  \<^item> A request reads the clock once where the source reads it more than once within a handler; where
    the delay itself is the point (the padding of \<^verbatim>\<open>magic-auth.ts\<close>, the wait for a dispatch) the model
    carries both times.

  \<^bold>\<open>Arguments of the model.\<close> What the source calls and does not define is an argument of the
  definitions that use it: the hash and the MAC, the cipher and the key derivation, the verifier of a JSON Web
  Token, the responses of the identity provider and of every upstream, the parser of a response, the
  faults of a store. A property that relies on one of them names the assumption (a cipher opens what
  it sealed and nothing else, a digest separates the two tokens at hand), and its instance chooses a
  concrete function.

  \<^bold>\<open>Bounds and fuel.\<close> Recursion follows the data or a measure, with three exceptions.
  \<open>Js_Json.json_parse\<close> has two units of fuel for each character and two more; the theory proves that more fuel never
  changes an answer. The retry loop of \<open>Provider_Client\<close> is a machine whose requests count their attempts, and
  every request ends after a number of moves that the policy bounds. Loops that draw pages from a service (\<open>Directory_Reaper\<close>) end at the number of pages the source allows.

  \<^bold>\<open>Not modelled\<close>, and why:
  \<^item> the clients of the services other than iTunes and Deezer (\<^verbatim>\<open>packages/upstream/src/*/client.ts\<close>) and the
    provider of events: they build a URL and pick fields out of a response with the readers of \<open>Upstream_Json\<close>; their
    one common path is \<open>Provider_Client\<close>;
  \<^item> \<^verbatim>\<open>services/discovery.ts\<close>, \<^verbatim>\<open>events.ts\<close>, \<^verbatim>\<open>export.ts\<close>, \<^verbatim>\<open>cache-warmer.ts\<close>, \<^verbatim>\<open>mb-canonical-refresh.ts\<close>, \<^verbatim>\<open>upstream.ts\<close>: they
    compose the readers, the caches and the jobs that are modelled, and their own composition is outside the model;
  \<^item> schemas, configuration, wiring, logging and metrics (\<^verbatim>\<open>lib/schemas.ts\<close>, \<^verbatim>\<open>config.ts\<close>,
    \<^verbatim>\<open>wiring.ts\<close>, \<^verbatim>\<open>lib/logger.ts\<close>, \<^verbatim>\<open>lib/metrics.ts\<close>, \<^verbatim>\<open>lib/observability.ts\<close>) and the plugins that \<^verbatim>\<open>server.ts\<close>
    registers: declarations and calls of libraries;
  \<^item> routes that pass a request to a service and its result back (\<^verbatim>\<open>routes/v1/me.ts\<close>, \<^verbatim>\<open>tokens.ts\<close>,
    \<^verbatim>\<open>product.ts\<close>, \<^verbatim>\<open>legal.ts\<close>, \<^verbatim>\<open>consent.ts\<close>, \<^verbatim>\<open>routes/health.ts\<close>);
  \<^item> \<^verbatim>\<open>lib/r2.ts\<close>: the signing of requests for the object store, whose answers are an argument here;
  \<^item> the scripts of \<^verbatim>\<open>packages/db\<close>, \<^verbatim>\<open>infra\<close>, \<^verbatim>\<open>security\<close>, \<^verbatim>\<open>tools\<close>, \<^verbatim>\<open>legal\<close> and the load tests of \<^verbatim>\<open>load\<close>: they
    run against a deployment or over the files of the repository and are no part of the service.
\<close>

end
